(* ===== verification/Kernel_Prelude.thy ===== *)
theory Kernel_Prelude
  imports Main "HOL-Library.Word" "HOL-Library.Monad_Syntax" "HOL-Library.Signed_Division"
begin

section \<open>Shared vocabulary of the development\<close>

text \<open>
  What every component of demoOS uses: C arrays with an explicit out-of-bounds outcome, chains
  of nullable pointers (the intrusive lists of \<^verbatim>\<open>libs/scheduler.c\<close>), and ring buffers addressed
  by a head and a tail index (\<^verbatim>\<open>libs/ipc.c\<close>, \<^verbatim>\<open>drivers/uart/uart.c\<close>).

  Convention of the whole development: an operation whose C text can run into an access outside
  an array, a NULL dereference or a loop that does not end returns an \<open>option\<close>, and
  \<open>None\<close> stands for "the C code has no defined outcome here". A theorem
  that such an operation is \<open>Some\<close> is therefore memory safety and termination at once.
  C-level error codes (\<open>-1\<close> and the like) are ordinary results.
\<close>

named_theorems carray \<open>reading and writing C arrays\<close>
named_theorems chain_rules \<open>pointer chains under heap updates\<close>

unbundle bit_operations_syntax

subsection \<open>C arrays\<close>

definition aget :: "'a list \<Rightarrow> int \<Rightarrow> 'a option" where
  "aget xs i = (if 0 \<le> i \<and> nat i < length xs then Some (xs ! nat i) else None)"

definition aset :: "'a list \<Rightarrow> int \<Rightarrow> 'a \<Rightarrow> 'a list option" where
  "aset xs i v = (if 0 \<le> i \<and> nat i < length xs then Some (xs[nat i := v]) else None)"

lemma aget_in [carray]: "0 \<le> i \<Longrightarrow> i < int (length xs) \<Longrightarrow> aget xs i = Some (xs ! nat i)"
  by (auto simp: aget_def)

lemma aset_in [carray]: "0 \<le> i \<Longrightarrow> i < int (length xs) \<Longrightarrow> aset xs i v = Some (xs[nat i := v])"
  by (auto simp: aset_def)

lemma aget_nat [simp]: "aget xs (int n) = (if n < length xs then Some (xs ! n) else None)"
  by (auto simp: aget_def)

lemma aset_nat [simp]: "aset xs (int n) v = (if n < length xs then Some (xs[n := v]) else None)"
  by (auto simp: aset_def)

lemma aget_out: "i < 0 \<or> int (length xs) \<le> i \<Longrightarrow> aget xs i = None"
  by (auto simp: aget_def)

lemma aset_out: "i < 0 \<or> int (length xs) \<le> i \<Longrightarrow> aset xs i v = None"
  by (auto simp: aset_def)

lemma aset_SomeD: "aset xs i v = Some ys \<Longrightarrow> length ys = length xs \<and> 0 \<le> i \<and> i < int (length xs) \<and> ys = xs[nat i := v]"
  by (auto simp: aset_def split: if_splits)

lemma aget_SomeD: "aget xs i = Some v \<Longrightarrow> 0 \<le> i \<and> i < int (length xs) \<and> v = xs ! nat i"
  by (auto simp: aget_def split: if_splits)

lemma aget_aset_same: "aset xs i v = Some ys \<Longrightarrow> aget ys i = Some v"
  by (auto simp: aset_def aget_def split: if_splits)

lemma aget_aset_other: "aset xs i v = Some ys \<Longrightarrow> i \<noteq> j \<Longrightarrow> aget ys j = aget xs j"
  by (auto simp: aset_def aget_def nth_list_update split: if_splits)

subsection \<open>Chains of nullable pointers\<close>

text \<open>
  \<open>chain nxt p xs q\<close>: following \<open>nxt\<close> from \<open>p\<close> visits exactly
  \<open>xs\<close> and arrives at \<open>q\<close>; a list that ends in NULL is a chain to \<open>None\<close>.
\<close>

primrec chain :: "('a \<Rightarrow> 'a option) \<Rightarrow> 'a option \<Rightarrow> 'a list \<Rightarrow> 'a option \<Rightarrow> bool" where
  "chain nxt p [] q \<longleftrightarrow> p = q"
| "chain nxt p (x # xs) q \<longleftrightarrow> p = Some x \<and> chain nxt (nxt x) xs q"

lemma chain_from_None [simp]: "chain nxt None xs q \<longleftrightarrow> xs = [] \<and> q = None"
  by (cases xs) auto

lemma chain_snoc: "chain nxt p (xs @ [y]) q \<longleftrightarrow> chain nxt p xs (Some y) \<and> nxt y = q"
  by (induction xs arbitrary: p) auto

lemma chain_split: "chain nxt p (xs @ y # ys) q \<longleftrightarrow> chain nxt p xs (Some y) \<and> chain nxt (nxt y) ys q"
  by (induction xs arbitrary: p) auto

lemma chain_cong: "(\<And>x. x \<in> set xs \<Longrightarrow> f x = g x) \<Longrightarrow> chain f p xs q \<longleftrightarrow> chain g p xs q"
  by (induction xs arbitrary: p) auto

lemma chain_upd_outside [chain_rules]: "a \<notin> set xs \<Longrightarrow> chain (f(a := v)) p xs q \<longleftrightarrow> chain f p xs q"
  by (rule chain_cong) auto

lemma chain_deterministic: "chain nxt p xs None \<Longrightarrow> chain nxt p ys None \<Longrightarrow> xs = ys"
proof (induction xs arbitrary: p ys)
  case (Cons x xs)
  then show ?case by (cases ys) auto
qed auto

lemma chain_head_fresh: "chain nxt p (x # xs) None \<Longrightarrow> x \<notin> set xs"
proof
  assume c: "chain nxt p (x # xs) None" and "x \<in> set xs"
  then obtain us vs where xs: "xs = us @ x # vs" by (auto simp: in_set_conv_decomp)
  from c xs have "chain nxt (nxt x) (us @ x # vs) None" and "chain nxt (nxt x) vs None"
    by (auto simp: chain_split)
  then have "us @ x # vs = vs" by (rule chain_deterministic)
  then have "length (us @ x # vs) = length vs" by simp
  then show False by simp
qed

text \<open>A chain that ends in NULL cannot visit a node twice.\<close>

lemma chain_distinct: "chain nxt p xs None \<Longrightarrow> distinct xs"
proof (induction xs arbitrary: p)
  case (Cons x xs)
  then have "x \<notin> set xs" by (blast dest: chain_head_fresh)
  with Cons show ?case by auto
qed auto

text \<open>Linking a fresh node behind the last one.\<close>

lemma chain_append_node:
  assumes "chain nxt p (xs @ [t]) None" and "a \<notin> set (xs @ [t])"
  shows "chain (nxt(a := None, t := Some a)) p (xs @ [t, a]) None"
proof -
  have t: "t \<notin> set xs" using chain_distinct [OF assms(1)] by simp
  have "chain (nxt(a := None, t := Some a)) p xs (Some t)"
    using assms t by (simp add: chain_snoc chain_upd_outside)
  with assms(2) show ?thesis using chain_split [of _ p xs t "[a]" None] by auto
qed

text \<open>Unlinking the node behind a predecessor.\<close>

lemma chain_unlink_node:
  assumes "chain nxt p (xs @ y # a # ys) None"
  shows "chain (nxt(y := nxt a, a := None)) p (xs @ y # ys) None"
proof -
  have d: "distinct (xs @ y # a # ys)" using assms by (rule chain_distinct)
  with assms show ?thesis by (auto simp: chain_split chain_upd_outside)
qed

text \<open>Linking a fresh node between two neighbours.\<close>

lemma chain_insert_node:
  assumes "chain nxt p (xs @ y # ys) None" and "a \<notin> set (xs @ y # ys)"
  shows "chain (nxt(a := nxt y, y := Some a)) p (xs @ y # a # ys) None"
proof -
  have d: "distinct (xs @ y # ys)" using assms(1) by (rule chain_distinct)
  with assms show ?thesis by (auto simp: chain_split chain_upd_outside)
qed

subsection \<open>Lists without repetition\<close>

lemma distinct_split_unique:
  "distinct (us @ c # vs) \<Longrightarrow> us @ c # vs = us' @ c # vs' \<Longrightarrow> us = us' \<and> vs = vs'"
  by (metis append_Cons_eq_iff distinct_append distinct.simps(2) disjoint_iff list.set_intros(1))

subsection \<open>Option results\<close>

lemma bind_eq_Some: "(m \<bind> f) = Some r \<longleftrightarrow> (\<exists>x. m = Some x \<and> f x = Some r)"
  by (cases m) auto

end
