(* ===== verification/Process_State.thy ===== *)
theory Process_State
  imports Kernel_Prelude
begin

section \<open>The kernel's data: process control blocks, queues, descriptors\<close>

text \<open>
  The types of \<^verbatim>\<open>libs/scheduler.h\<close>, \<^verbatim>\<open>libs/mm.c\<close> and \<^verbatim>\<open>libs/scheduler.c\<close>, and one record
  \<open>kernel\<close> that holds the global variables of the kernel.
  A \<^verbatim>\<open>struct PCB*\<close> is either the address of the static \<^verbatim>\<open>init_process\<close> or the kernel address of
  the page that \<^verbatim>\<open>copy_process\<close> obtained; NULL is \<open>None\<close>. The PCBs live in a store
  \<open>pcbs\<close> indexed by such pointers, so that the aliasing of the intrusive lists
  (\<^verbatim>\<open>next_ready\<close>) is the aliasing of the C program. The \<^verbatim>\<open>long\<close> fields are unbounded
  integers; signal masks, addresses and the random state keep their width.
\<close>

datatype pcb_ptr = Init_process | Pcb_at "64 word"

record cpu_context =
  ctx_x19 :: "64 word"
  ctx_x20 :: "64 word"
  ctx_x21 :: "64 word"
  ctx_x22 :: "64 word"
  ctx_x23 :: "64 word"
  ctx_x24 :: "64 word"
  ctx_x25 :: "64 word"
  ctx_x26 :: "64 word"
  ctx_x27 :: "64 word"
  ctx_x28 :: "64 word"
  ctx_fp :: "64 word"
  ctx_sp :: "64 word"
  ctx_pc :: "64 word"

definition zero_context :: cpu_context where
  "zero_context = \<lparr>ctx_x19 = 0, ctx_x20 = 0, ctx_x21 = 0, ctx_x22 = 0, ctx_x23 = 0, ctx_x24 = 0,
     ctx_x25 = 0, ctx_x26 = 0, ctx_x27 = 0, ctx_x28 = 0, ctx_fp = 0, ctx_sp = 0, ctx_pc = 0\<rparr>"

datatype ResourceType = RESOURCE_TYPE_FILE | RESOURCE_TYPE_FOLDER

text \<open>The union of \<^verbatim>\<open>File*\<close> and \<^verbatim>\<open>Dir*\<close> is one pointer value.\<close>

record FatResource =
  resource_type :: ResourceType
  resource_ptr :: "64 word"

record user_page =
  physical_address :: "64 word"
  virtual_address :: "64 word"

abbreviation (input) "MAX_FILES_PER_PROCESS \<equiv> (16::nat)"
abbreviation (input) "MAX_PROCESS_PAGES \<equiv> (16::nat)"
abbreviation (input) "MAX_MESSAGES_PER_PROCESS \<equiv> (4::nat)"
abbreviation (input) "MAX_MESSAGES_BODY_SIZE \<equiv> (256::nat)"
abbreviation (input) "N_PROCESSES \<equiv> (64::nat)"
abbreviation (input) "ML_MAX_LEVELS \<equiv> (5::nat)"

record mm_struct =
  pgd :: "64 word"
  n_user_pages :: int
  user_pages :: "user_page list"
  n_kernel_pages :: int
  kernel_pages :: "64 word list"

definition zero_mm :: mm_struct where
  "zero_mm = \<lparr>pgd = 0, n_user_pages = 0,
     user_pages = replicate MAX_PROCESS_PAGES \<lparr>physical_address = 0, virtual_address = 0\<rparr>,
     n_kernel_pages = 0, kernel_pages = replicate MAX_PROCESS_PAGES 0\<rparr>"

record Message =
  source_process :: "pcb_ptr option"
  destination_process :: "pcb_ptr option"
  body :: "char list"

definition zero_message :: Message where
  "zero_message = \<lparr>source_process = None, destination_process = None,
     body = replicate MAX_MESSAGES_BODY_SIZE (CHR 0x00)\<rparr>"

record MessagesCircularBuffer =
  mb_head :: int
  mb_tail :: int
  mb_buffer :: "Message list"

definition zero_messages :: MessagesCircularBuffer where
  "zero_messages = \<lparr>mb_head = 0, mb_tail = 0,
     mb_buffer = replicate MAX_MESSAGES_PER_PROCESS zero_message\<rparr>"

text \<open>
  The \<^verbatim>\<open>PROCESS_*\<close> constants. \<open>PROCESS_NONE\<close> is the value 0 the field holds in the
  initialiser of \<^verbatim>\<open>init_process\<close> and in a freshly zeroed page.
\<close>

datatype process_state =
    PROCESS_NONE
  | PROCESS_RUNNING
  | PROCESS_ZOMBIE
  | PROCESS_WAITING_UART_INPUT
  | PROCESS_WAITING_TO_RECEIVE_MESSAGE
  | PROCESS_WAITING_TO_SEND_MESSAGE
  | PROCESS_WAITING_ANOTHER_PROCESS
  | PROCESS_STOPPED
  | PROCESS_READY

record PCB =
  cpu_context :: cpu_context
  state :: process_state
  counter :: int
  priority :: int
  est_burst :: int
  burst_ticks :: int
  queue_priority :: int
  tickets :: int
  preempt_disabled :: int
  pid :: int
  flags :: "64 word"
  files :: "64 word list"
  mm :: mm_struct
  messages_buffer :: MessagesCircularBuffer
  pending_signals :: "32 word"
  pid_to_wait :: int
  next_ready :: "pcb_ptr option"

text \<open>The zeroed page a new PCB starts from, and \<^verbatim>\<open>INIT_PROCESS\<close>.\<close>

definition zero_pcb :: PCB where
  "zero_pcb = \<lparr>cpu_context = zero_context, state = PROCESS_NONE, counter = 0, priority = 0,
     est_burst = 0, burst_ticks = 0, queue_priority = 0, tickets = 0, preempt_disabled = 0,
     pid = 0, flags = 0, files = replicate MAX_FILES_PER_PROCESS 0, mm = zero_mm,
     messages_buffer = zero_messages, pending_signals = 0, pid_to_wait = 0, next_ready = None\<rparr>"

definition INIT_PROCESS :: PCB where
  "INIT_PROCESS = \<lparr>cpu_context = zero_context, state = PROCESS_NONE, counter = 1, priority = 1,
     est_burst = 0, burst_ticks = 0, queue_priority = 0, tickets = 10, preempt_disabled = 0,
     pid = 0, flags = 0, files = replicate MAX_FILES_PER_PROCESS 0, mm = zero_mm,
     messages_buffer = zero_messages, pending_signals = 0, pid_to_wait = -1, next_ready = None\<rparr>"

record ProcessQueue =
  q_head :: "pcb_ptr option"
  q_tail :: "pcb_ptr option"

definition QUEUE_INIT :: ProcessQueue where
  "QUEUE_INIT = \<lparr>q_head = None, q_tail = None\<rparr>"

subsection \<open>Scheduling algorithm descriptors\<close>

text \<open>
  The function pointers of \<^verbatim>\<open>SchedAlgorithm\<close> are tags here; the dispatchers
  (\<open>enqueue_process\<close>, \<open>schedule_pick\<close>, \<open>on_tick_hook\<close>) apply the
  function a tag names.
\<close>

record MultilevelPolicy =
  n_levels :: int
  quantum :: "int list"
  demote_on_expiry :: bool
  boost_period :: int

datatype enqueue_callback = Enqueue_fifo | Enqueue_sjf | Enqueue_multilevel

datatype pick_callback =
    Schedule_priority_aging
  | Schedule_round_robin
  | Schedule_lottery
  | Schedule_queue_head
  | Schedule_multilevel

datatype tick_callback = Multilevel_on_tick

record SchedAlgorithm =
  enqueue :: enqueue_callback
  pick_next :: pick_callback
  on_tick :: "tick_callback option"
  is_preemptive :: bool
  ml_policy :: "MultilevelPolicy option"

definition ml_policy_mlq :: MultilevelPolicy where
  "ml_policy_mlq = \<lparr>n_levels = 5, quantum = [10, 12, 14, 16, 20],
     demote_on_expiry = False, boost_period = 0\<rparr>"

abbreviation (input) "MLFQ_BOOST_PERIOD \<equiv> (300::int)"

definition ml_policy_mlfq :: MultilevelPolicy where
  "ml_policy_mlfq = \<lparr>n_levels = 5, quantum = [5, 8, 10, 15, 20],
     demote_on_expiry = True, boost_period = MLFQ_BOOST_PERIOD\<rparr>"

definition sched_round_robin :: SchedAlgorithm where
  "sched_round_robin = \<lparr>enqueue = Enqueue_fifo, pick_next = Schedule_round_robin, on_tick = None,
     is_preemptive = True, ml_policy = None\<rparr>"

definition sched_fcfs :: SchedAlgorithm where
  "sched_fcfs = \<lparr>enqueue = Enqueue_fifo, pick_next = Schedule_queue_head, on_tick = None,
     is_preemptive = False, ml_policy = None\<rparr>"

definition sched_sjf :: SchedAlgorithm where
  "sched_sjf = \<lparr>enqueue = Enqueue_sjf, pick_next = Schedule_queue_head, on_tick = None,
     is_preemptive = False, ml_policy = None\<rparr>"

definition sched_lottery :: SchedAlgorithm where
  "sched_lottery = \<lparr>enqueue = Enqueue_fifo, pick_next = Schedule_lottery, on_tick = None,
     is_preemptive = True, ml_policy = None\<rparr>"

definition sched_priority_aging :: SchedAlgorithm where
  "sched_priority_aging = \<lparr>enqueue = Enqueue_fifo, pick_next = Schedule_priority_aging,
     on_tick = None, is_preemptive = True, ml_policy = None\<rparr>"

definition sched_mlq :: SchedAlgorithm where
  "sched_mlq = \<lparr>enqueue = Enqueue_multilevel, pick_next = Schedule_multilevel,
     on_tick = Some Multilevel_on_tick, is_preemptive = True, ml_policy = Some ml_policy_mlq\<rparr>"

definition sched_mlfq :: SchedAlgorithm where
  "sched_mlfq = \<lparr>enqueue = Enqueue_multilevel, pick_next = Schedule_multilevel,
     on_tick = Some Multilevel_on_tick, is_preemptive = True, ml_policy = Some ml_policy_mlfq\<rparr>"

lemmas sched_algorithm_defs =
  sched_round_robin_def sched_fcfs_def sched_sjf_def sched_lottery_def sched_priority_aging_def
  sched_mlq_def sched_mlfq_def

definition single_queue_algorithms :: "SchedAlgorithm list" where
  "single_queue_algorithms = [sched_round_robin, sched_fcfs, sched_sjf, sched_lottery, sched_priority_aging]"

definition sched_algorithms :: "SchedAlgorithm list" where
  "sched_algorithms = [sched_round_robin, sched_fcfs, sched_sjf, sched_lottery,
     sched_priority_aging, sched_mlq, sched_mlfq]"

subsection \<open>Memory and the global variables of the kernel\<close>

text \<open>
  \<open>memory_pages\<close> is the allocation bitmap of \<^verbatim>\<open>libs/mm.c\<close> (its bound \<^verbatim>\<open>N_PAGES\<close> is checked by the
  operations); \<open>mem\<close> is the byte memory behind kernel virtual addresses.
\<close>

record phys_memory =
  memory_pages :: "nat \<Rightarrow> 16 word"
  mem :: "64 word \<Rightarrow> 8 word"

type_synonym pcb_heap = "pcb_ptr \<Rightarrow> PCB"

text \<open>
  \<open>timer_clo\<close> is the hardware: the value the free-running timer register shows at the
  \<open>n\<close>-th read; \<open>timer_reads\<close> counts the reads done so far.
\<close>

record kernel =
  pcbs :: pcb_heap
  current_process :: pcb_ptr
  processes :: "pcb_ptr option list"
  n_processes :: int
  ready_queue :: ProcessQueue
  ml_queues :: "ProcessQueue list"
  queue_level :: "int list"
  active_algorithm :: SchedAlgorithm
  ml_ticks_since_boost :: int
  lottery_rng_state :: "64 word"
  timer_clo :: "nat \<Rightarrow> 32 word"
  timer_reads :: nat
  cpu_regs :: cpu_context
  ttbr0_el1 :: "64 word"
  irq_enabled :: bool
  phys :: phys_memory
  resources :: "64 word \<Rightarrow> FatResource"
  uart_owner :: "pcb_ptr option"
  uart_buffer :: "char list"
  uart_head :: int
  uart_tail :: int
  uart_out :: "char list"

text \<open>The state at boot: the initialisers of the globals, for a given algorithm and hardware.\<close>

definition boot_kernel :: "SchedAlgorithm \<Rightarrow> (nat \<Rightarrow> 32 word) \<Rightarrow> cpu_context \<Rightarrow> (64 word \<Rightarrow> 8 word) \<Rightarrow> kernel" where
  "boot_kernel alg clo regs m = \<lparr>
     pcbs = (\<lambda>p. if p = Init_process then INIT_PROCESS else zero_pcb),
     current_process = Init_process,
     processes = Some Init_process # replicate (N_PROCESSES - 1) None,
     n_processes = 1,
     ready_queue = QUEUE_INIT,
     ml_queues = replicate ML_MAX_LEVELS QUEUE_INIT,
     queue_level = replicate N_PROCESSES 0,
     active_algorithm = alg,
     ml_ticks_since_boost = 0,
     lottery_rng_state = 88172645463325252,
     timer_clo = clo, timer_reads = 0,
     cpu_regs = regs, ttbr0_el1 = 0, irq_enabled = False,
     phys = \<lparr>memory_pages = (\<lambda>_. 0), mem = m\<rparr>,
     resources = (\<lambda>_. \<lparr>resource_type = RESOURCE_TYPE_FILE, resource_ptr = 0\<rparr>),
     uart_owner = None, uart_buffer = replicate 64 (CHR 0x00), uart_head = 0, uart_tail = 0,
     uart_out = []\<rparr>"

subsection \<open>Writing one field of one PCB\<close>

definition upd_pcb :: "pcb_ptr \<Rightarrow> (PCB \<Rightarrow> PCB) \<Rightarrow> pcb_heap \<Rightarrow> pcb_heap" where
  "upd_pcb p f h = h(p := f (h p))"

lemma upd_pcb_same [simp]: "upd_pcb p f h p = f (h p)"
  by (simp add: upd_pcb_def)

lemma upd_pcb_other [simp]: "r \<noteq> p \<Longrightarrow> upd_pcb p f h r = h r"
  by (simp add: upd_pcb_def)

lemma upd_pcb_apply: "upd_pcb p f h r = (if r = p then f (h r) else h r)"
  by (simp add: upd_pcb_def)

lemma upd_pcb_upd_pcb [simp]: "upd_pcb p f (upd_pcb p g h) = upd_pcb p (\<lambda>x. f (g x)) h"
  by (rule ext) (simp add: upd_pcb_apply)

end
