(* ===== verification/Process_Queue.thy ===== *)
theory Process_Queue
  imports Process_State
begin

section \<open>Ready queues: intrusive lists of PCBs\<close>

text \<open>
  The queue operations of \<^verbatim>\<open>libs/scheduler.c\<close>. A \<^verbatim>\<open>ProcessQueue\<close> holds only the
  head and the tail; the links are the \<^verbatim>\<open>next_ready\<close> fields of the PCBs, so every operation
  takes and returns the PCB store. The abstraction is a list of pointers
  (\<open>queue_rep\<close>) together with the store without its links (\<open>core\<close>); each
  operation is shown to refine its list counterpart: append, head/tail, removal, and a stable sorted
  insertion.
\<close>

definition enqueue_process_to :: "pcb_heap \<Rightarrow> ProcessQueue \<Rightarrow> pcb_ptr option \<Rightarrow> pcb_heap \<times> ProcessQueue" where
  "enqueue_process_to h queue process =
     (case process of
        None \<Rightarrow> (h, queue)
      | Some p \<Rightarrow>
          if p = Init_process then (h, queue)
          else
            let h1 = upd_pcb p (\<lambda>x. x\<lparr>next_ready := None\<rparr>) h;
                h2 = upd_pcb p (\<lambda>x. x\<lparr>state := PROCESS_READY\<rparr>) h1
            in case q_tail queue of
                 None \<Rightarrow> (h2, queue\<lparr>q_head := Some p, q_tail := Some p\<rparr>)
               | Some t \<Rightarrow> (upd_pcb t (\<lambda>x. x\<lparr>next_ready := Some p\<rparr>) h2, queue\<lparr>q_tail := Some p\<rparr>))"

definition dequeue_process_from :: "pcb_heap \<Rightarrow> ProcessQueue \<Rightarrow> pcb_ptr option \<times> pcb_heap \<times> ProcessQueue" where
  "dequeue_process_from h queue =
     (case q_head queue of
        None \<Rightarrow> (None, h, queue)
      | Some p \<Rightarrow>
          let q1 = queue\<lparr>q_head := next_ready (h p)\<rparr>;
              q2 = (if q_head q1 = None then q1\<lparr>q_tail := None\<rparr> else q1)
          in (Some p, upd_pcb p (\<lambda>x. x\<lparr>next_ready := None\<rparr>) h, q2))"

definition remove_process_from :: "pcb_heap \<Rightarrow> ProcessQueue \<Rightarrow> pcb_ptr option \<Rightarrow> pcb_ptr \<Rightarrow> pcb_heap \<times> ProcessQueue" where
  "remove_process_from h queue previous process =
     (let (h1, q1) =
        (case previous of
           None \<Rightarrow> (h, queue\<lparr>q_head := next_ready (h process)\<rparr>)
         | Some pr \<Rightarrow> (upd_pcb pr (\<lambda>x. x\<lparr>next_ready := next_ready (h process)\<rparr>) h, queue));
        q2 = (if q_tail q1 = Some process then q1\<lparr>q_tail := previous\<rparr> else q1)
      in (upd_pcb process (\<lambda>x. x\<lparr>next_ready := None\<rparr>) h1, q2))"

text \<open>The traversal of \<^verbatim>\<open>enqueue_sorted_to\<close>: the node after which the new process goes.\<close>

partial_function (option) sorted_insertion_point :: "pcb_heap \<Rightarrow> int \<Rightarrow> pcb_ptr \<Rightarrow> pcb_ptr option" where
  "sorted_insertion_point h est current =
     (case next_ready (h current) of
        None \<Rightarrow> Some current
      | Some n \<Rightarrow> if est < est_burst (h n) then Some current else sorted_insertion_point h est n)"

definition enqueue_sorted_to :: "pcb_heap \<Rightarrow> ProcessQueue \<Rightarrow> pcb_ptr option \<Rightarrow> (pcb_heap \<times> ProcessQueue) option" where
  "enqueue_sorted_to h queue process =
     (case process of
        None \<Rightarrow> Some (h, queue)
      | Some p \<Rightarrow>
          if p = Init_process then Some (h, queue)
          else
            let h1 = upd_pcb p (\<lambda>x. x\<lparr>next_ready := None\<rparr>) h;
                h2 = upd_pcb p (\<lambda>x. x\<lparr>state := PROCESS_READY\<rparr>) h1
            in case q_head queue of
                 None \<Rightarrow> Some (h2, queue\<lparr>q_head := Some p, q_tail := Some p\<rparr>)
               | Some hd_p \<Rightarrow>
                   if est_burst (h2 p) < est_burst (h2 hd_p)
                   then Some (upd_pcb p (\<lambda>x. x\<lparr>next_ready := Some hd_p\<rparr>) h2, queue\<lparr>q_head := Some p\<rparr>)
                   else do {
                     current \<leftarrow> sorted_insertion_point h2 (est_burst (h2 p)) hd_p;
                     let h3 = upd_pcb p (\<lambda>x. x\<lparr>next_ready := next_ready (h2 current)\<rparr>) h2;
                     let h4 = upd_pcb current (\<lambda>x. x\<lparr>next_ready := Some p\<rparr>) h3;
                     Some (h4, if next_ready (h4 p) = None then queue\<lparr>q_tail := Some p\<rparr> else queue)
                   })"

subsection \<open>Abstraction\<close>

text \<open>\<open>links h\<close> is the link field alone, \<open>core h\<close> everything else.\<close>

definition links :: "pcb_heap \<Rightarrow> pcb_ptr \<Rightarrow> pcb_ptr option" where
  "links h = (\<lambda>p. next_ready (h p))"

definition core :: "pcb_heap \<Rightarrow> pcb_heap" where
  "core h = (\<lambda>p. (h p)\<lparr>next_ready := None\<rparr>)"

definition queue_rep :: "pcb_heap \<Rightarrow> ProcessQueue \<Rightarrow> pcb_ptr list \<Rightarrow> bool" where
  "queue_rep h q xs \<longleftrightarrow>
     chain (links h) (q_head q) xs None \<and> q_tail q = (if xs = [] then None else Some (last xs))"

text \<open>Reading any field but the link does not see the links.\<close>

lemma core_fields [simp]:
  "cpu_context (core h p) = cpu_context (h p)" "state (core h p) = state (h p)"
  "counter (core h p) = counter (h p)" "priority (core h p) = priority (h p)"
  "est_burst (core h p) = est_burst (h p)" "burst_ticks (core h p) = burst_ticks (h p)"
  "queue_priority (core h p) = queue_priority (h p)" "tickets (core h p) = tickets (h p)"
  "preempt_disabled (core h p) = preempt_disabled (h p)" "pid (core h p) = pid (h p)"
  "flags (core h p) = flags (h p)" "files (core h p) = files (h p)" "mm (core h p) = mm (h p)"
  "messages_buffer (core h p) = messages_buffer (h p)"
  "pending_signals (core h p) = pending_signals (h p)"
  "pid_to_wait (core h p) = pid_to_wait (h p)"
  by (simp_all add: core_def)

lemma core_eq_fields:
  assumes "core h' = core h"
  shows "state (h' p) = state (h p)" "pid (h' p) = pid (h p)" "est_burst (h' p) = est_burst (h p)"
    "counter (h' p) = counter (h p)" "tickets (h' p) = tickets (h p)"
    "pending_signals (h' p) = pending_signals (h p)" "priority (h' p) = priority (h p)"
  using arg_cong [OF assms, of "\<lambda>c. state (c p)"] arg_cong [OF assms, of "\<lambda>c. pid (c p)"]
    arg_cong [OF assms, of "\<lambda>c. est_burst (c p)"] arg_cong [OF assms, of "\<lambda>c. counter (c p)"]
    arg_cong [OF assms, of "\<lambda>c. tickets (c p)"] arg_cong [OF assms, of "\<lambda>c. pending_signals (c p)"]
    arg_cong [OF assms, of "\<lambda>c. priority (c p)"]
  by simp_all

lemma core_upd_link [simp]: "core (upd_pcb p (\<lambda>x. x\<lparr>next_ready := v x\<rparr>) h) = core h"
  by (rule ext) (simp add: core_def upd_pcb_apply)

lemma links_upd_link [simp]: "links (upd_pcb p (\<lambda>x. x\<lparr>next_ready := v x\<rparr>) h) = (links h)(p := v (h p))"
  by (rule ext) (simp add: links_def upd_pcb_apply)

lemma links_upd_core: "(\<And>x. next_ready (f x) = next_ready x) \<Longrightarrow> links (upd_pcb p f h) = links h"
  by (rule ext) (simp add: links_def upd_pcb_apply)

lemma core_upd_core:
  "(\<And>x. (f x)\<lparr>next_ready := None\<rparr> = f (x\<lparr>next_ready := None\<rparr>)) \<Longrightarrow> core (upd_pcb p f h) = upd_pcb p f (core h)"
  by (rule ext) (simp add: core_def upd_pcb_apply)

lemma core_idem [simp]: "core (core h) = core h"
  by (simp add: core_def)

lemma queue_rep_links: "links h' = links h \<Longrightarrow> queue_rep h' q xs = queue_rep h q xs"
  by (simp add: queue_rep_def)

lemma queue_rep_cong: "(\<And>p. p \<in> set xs \<Longrightarrow> links h' p = links h p) \<Longrightarrow> queue_rep h' q xs = queue_rep h q xs"
  by (auto simp: queue_rep_def cong: chain_cong)

lemma queue_rep_distinct: "queue_rep h q xs \<Longrightarrow> distinct xs"
  by (auto simp: queue_rep_def dest: chain_distinct)

lemma queue_rep_unique: "queue_rep h q xs \<Longrightarrow> queue_rep h q ys \<Longrightarrow> xs = ys"
  by (auto simp: queue_rep_def dest: chain_deterministic)

lemma queue_rep_empty_iff: "queue_rep h q xs \<Longrightarrow> q_head q = None \<longleftrightarrow> xs = []"
  by (cases xs) (auto simp: queue_rep_def)

lemma queue_rep_Nil [simp]: "queue_rep h QUEUE_INIT []"
  by (simp add: queue_rep_def QUEUE_INIT_def)

subsection \<open>Refinement of the list operations\<close>

lemma enqueue_rep:
  assumes "queue_rep h q xs" and "p \<notin> set xs" and "p \<noteq> Init_process"
    and e: "enqueue_process_to h q (Some p) = (h', q')"
  shows "queue_rep h' q' (xs @ [p])"
    and "core h' = upd_pcb p (\<lambda>x. x\<lparr>state := PROCESS_READY\<rparr>) (core h)"
    and "\<And>r. r \<noteq> p \<Longrightarrow> r \<notin> set xs \<Longrightarrow> h' r = h r"
proof -
  let ?f = "\<lambda>x. x\<lparr>state := PROCESS_READY\<rparr>"
  have lk: "links (upd_pcb p ?f h0) = links h0" for h0 by (rule links_upd_core) simp
  have cr: "core (upd_pcb p ?f h0) = upd_pcb p ?f (core h0)" for h0 by (rule core_upd_core) simp
  show "queue_rep h' q' (xs @ [p])"
  proof (cases xs rule: rev_cases)
    case Nil
    with assms show ?thesis
      by (auto simp: queue_rep_def enqueue_process_to_def links_def upd_pcb_apply)
  next
    case (snoc ys t)
    with assms(1) have "chain (links h) (q_head q) (ys @ [t]) None" and t: "q_tail q = Some t"
      by (auto simp: queue_rep_def)
    then have "chain ((links h)(p := None, t := Some p)) (q_head q) (ys @ [t, p]) None"
      using assms(2) snoc by (intro chain_append_node) auto
    with e t assms(3) snoc show ?thesis
      by (auto simp: queue_rep_def enqueue_process_to_def Let_def lk simp del: upd_pcb_upd_pcb)
  qed
  show "core h' = upd_pcb p ?f (core h)"
    using e assms(3)
    by (auto simp: enqueue_process_to_def Let_def cr simp del: upd_pcb_upd_pcb split: option.splits)
  show "h' r = h r" if "r \<noteq> p" "r \<notin> set xs" for r
    using that e assms by (cases xs rule: rev_cases)
      (auto simp: enqueue_process_to_def Let_def queue_rep_def upd_pcb_apply split: option.splits)
qed

lemma dequeue_rep_Nil:
  assumes "queue_rep h q []"
  shows "dequeue_process_from h q = (None, h, q)"
  using assms by (simp add: queue_rep_def dequeue_process_from_def)

lemma dequeue_rep_Cons:
  assumes "queue_rep h q (p # xs)"
  obtains h' q' where "dequeue_process_from h q = (Some p, h', q')"
    and "queue_rep h' q' xs" and "core h' = core h" and "\<And>r. r \<noteq> p \<Longrightarrow> h' r = h r"
proof -
  have p: "p \<notin> set xs" using queue_rep_distinct [OF assms] by simp
  let ?q = "if next_ready (h p) = None then q\<lparr>q_head := None, q_tail := None\<rparr> else q\<lparr>q_head := next_ready (h p)\<rparr>"
  have d: "dequeue_process_from h q = (Some p, upd_pcb p (\<lambda>x. x\<lparr>next_ready := None\<rparr>) h, ?q)"
    using assms by (auto simp: dequeue_process_from_def queue_rep_def Let_def)
  have "queue_rep (upd_pcb p (\<lambda>x. x\<lparr>next_ready := None\<rparr>) h) ?q xs"
    using assms p by (cases xs) (auto simp: queue_rep_def links_def [of h] chain_upd_outside)
  then show thesis by (rule that [OF d]) (simp_all add: upd_pcb_apply)
qed

lemma remove_rep:
  assumes "queue_rep h q (xs @ p # ys)"
    and prev: "previous = (if xs = [] then None else Some (last xs))"
    and r: "remove_process_from h q previous p = (h', q')"
  shows "queue_rep h' q' (xs @ ys)" and "core h' = core h"
    and "\<And>r. r \<noteq> p \<Longrightarrow> r \<notin> set xs \<Longrightarrow> h' r = h r"
proof -
  have d: "distinct (xs @ p # ys)" using queue_rep_distinct [OF assms(1)] .
  show "queue_rep h' q' (xs @ ys)"
  proof (cases xs rule: rev_cases)
    case Nil
    with assms d show ?thesis
      by (cases ys) (auto simp: queue_rep_def remove_process_from_def links_def [of h] chain_upd_outside Let_def)
  next
    case (snoc zs y)
    with assms(1) have "chain (links h) (q_head q) (zs @ y # p # ys) None" by (simp add: queue_rep_def)
    then have c: "chain ((links h)(y := links h p, p := None)) (q_head q) (zs @ y # ys) None"
      by (rule chain_unlink_node)
    have "p \<noteq> y" using d snoc by auto
    have lp: "links h p = next_ready (h p)" by (simp add: links_def)
    have "q_tail q = Some p \<longleftrightarrow> ys = []"
      using assms(1) d by (auto simp: queue_rep_def dest: last_in_set)
    with r prev snoc c lp show ?thesis
      using assms(1) by (auto simp: queue_rep_def remove_process_from_def Let_def)
  qed
  show "core h' = core h"
    using r by (auto simp: remove_process_from_def Let_def split: option.splits)
  show "h' r = h r" if "r \<noteq> p" "r \<notin> set xs" for r
    using that r prev by (cases xs rule: rev_cases)
      (auto simp: remove_process_from_def Let_def upd_pcb_apply split: option.splits)
qed

subsection \<open>Sorted insertion\<close>

text \<open>
  The list counterpart of \<^verbatim>\<open>enqueue_sorted_to\<close>: the new element goes in front of the first one
  with a strictly larger key.
\<close>

primrec insert_by :: "('a \<Rightarrow> int) \<Rightarrow> 'a \<Rightarrow> 'a list \<Rightarrow> 'a list" where
  "insert_by b p [] = [p]"
| "insert_by b p (x # xs) = (if b p < b x then p # x # xs else x # insert_by b p xs)"

lemma set_insert_by [simp]: "set (insert_by b p xs) = insert p (set xs)"
  by (induction xs) auto

lemma insert_by_not_Nil [simp]: "insert_by b p xs \<noteq> []"
  by (cases xs) auto

lemma sorted_insert_by: "sorted (map b xs) \<Longrightarrow> sorted (map b (insert_by b p xs))"
  by (induction xs) auto

lemma insert_by_stable:
  "sorted (map b xs) \<Longrightarrow> filter (\<lambda>x. b x = b p) (insert_by b p xs) = filter (\<lambda>x. b x = b p) xs @ [p]"
proof (induction xs)
  case (Cons x xs)
  show ?case
  proof (cases "b p < b x")
    case True
    with Cons.prems have "\<forall>y \<in> set (x # xs). b y \<noteq> b p" by auto
    with True show ?thesis by (auto simp: filter_empty_conv)
  qed (use Cons in auto)
qed auto

lemma insert_by_other: "p \<notin> set xs \<Longrightarrow> filter (\<lambda>x. x \<noteq> p) (insert_by b p xs) = xs"
  by (induction xs) (auto intro: filter_True)

lemma insert_by_cong: "(\<And>x. x \<in> insert p (set xs) \<Longrightarrow> b x = b' x) \<Longrightarrow> insert_by b p xs = insert_by b' p xs"
  by (induction xs) auto

text \<open>Where the traversal stops.\<close>

lemma sorted_insertion_point_rep:
  assumes "chain (links h) (next_ready (h c)) xs None"
  shows "\<exists>ys zs. xs = ys @ zs \<and> sorted_insertion_point h (b p) c = Some (last (c # ys)) \<and>
           ((\<forall>x \<in> set xs. est_burst (h x) = b x) \<longrightarrow> insert_by b p xs = ys @ p # zs)"
  using assms
proof (induction xs arbitrary: c)
  case Nil
  then show ?case by (auto simp: sorted_insertion_point.simps)
next
  case (Cons x xs)
  then have n: "next_ready (h c) = Some x" and "chain (links h) (next_ready (h x)) xs None"
    by (auto simp: links_def)
  from Cons.IH [OF this(2)] obtain ys zs where IH: "xs = ys @ zs"
      "sorted_insertion_point h (b p) x = Some (last (x # ys))"
      "(\<forall>x \<in> set xs. est_burst (h x) = b x) \<longrightarrow> insert_by b p xs = ys @ p # zs" by blast
  show ?case
  proof (cases "b p < est_burst (h x)")
    case True
    with n show ?thesis
      by (intro exI [of _ "[]"] exI [of _ "x # xs"]) (auto simp: sorted_insertion_point.simps)
  next
    case False
    then show ?thesis using n IH
      by (intro exI [of _ "x # ys"] exI [of _ zs]) (auto simp: sorted_insertion_point.simps [of h _ c])
  qed
qed

lemma enqueue_sorted_rep:
  assumes rep: "queue_rep h q xs" and p: "p \<notin> set xs" "p \<noteq> Init_process"
  obtains h' q' where "enqueue_sorted_to h q (Some p) = Some (h', q')"
    and "queue_rep h' q' (insert_by (\<lambda>x. est_burst (h x)) p xs)"
    and "core h' = upd_pcb p (\<lambda>x. x\<lparr>state := PROCESS_READY\<rparr>) (core h)"
    and "\<And>r. r \<noteq> p \<Longrightarrow> r \<notin> set xs \<Longrightarrow> h' r = h r"
proof -
  let ?f = "\<lambda>x. x\<lparr>state := PROCESS_READY\<rparr>"
  define h2 where "h2 = upd_pcb p ?f (upd_pcb p (\<lambda>x. x\<lparr>next_ready := None\<rparr>) h)"
  have lk: "links h2 = (links h)(p := None)" unfolding h2_def
    by (subst links_upd_core) simp_all
  have cr: "core h2 = upd_pcb p ?f (core h)" unfolding h2_def
    by (subst core_upd_core) simp_all
  have est: "est_burst (h2 x) = est_burst (h x)" for x
    by (simp add: h2_def upd_pcb_apply)
  have fr: "h2 r = h r" if "r \<noteq> p" for r using that by (simp add: h2_def upd_pcb_apply)
  show thesis
  proof (cases xs)
    case Nil
    with rep p show thesis
      by (intro that [of h2 "q\<lparr>q_head := Some p, q_tail := Some p\<rparr>"])
        (auto simp: enqueue_sorted_to_def Let_def h2_def [symmetric] queue_rep_def lk cr fr simp del: upd_pcb_upd_pcb)
  next
    case (Cons y ys)
    with rep have hd: "q_head q = Some y" and c: "chain (links h) (links h y) ys None"
      and tl: "q_tail q = Some (last xs)" by (auto simp: queue_rep_def)
    have yp: "y \<noteq> p" using p Cons by auto
    show thesis
    proof (cases "est_burst (h p) < est_burst (h y)")
      case True
      let ?h = "upd_pcb p (\<lambda>x. x\<lparr>next_ready := Some y\<rparr>) h2"
      have e: "enqueue_sorted_to h q (Some p) = Some (?h, q\<lparr>q_head := Some p\<rparr>)"
        using p hd True by (simp add: enqueue_sorted_to_def Let_def h2_def [symmetric] est del: upd_pcb_upd_pcb)
      have "queue_rep ?h (q\<lparr>q_head := Some p\<rparr>) (p # xs)"
        using p c tl Cons by (auto simp: queue_rep_def lk chain_upd_outside)
      moreover have "core ?h = upd_pcb p ?f (core h)" by (simp add: cr)
      ultimately show thesis using True Cons by (intro that [OF e]) (auto simp: fr)
    next
      case False
      have "chain (links h2) (next_ready (h2 y)) ys None"
        using c p Cons yp lk by (auto simp: chain_upd_outside fr links_def [of h])
      from sorted_insertion_point_rep [OF this, of "\<lambda>x. est_burst (h x)" p]
      obtain us vs where uv: "ys = us @ vs"
          "sorted_insertion_point h2 (est_burst (h p)) y = Some (last (y # us))"
          "insert_by (\<lambda>x. est_burst (h x)) p ys = us @ p # vs" using est by auto
      define cur where "cur = last (y # us)"
      define pre where "pre = butlast (y # us)"
      have pre: "y # us = pre @ [cur]" unfolding cur_def pre_def by (rule append_butlast_last_id [symmetric]) simp
      have xs: "xs = pre @ cur # vs" using Cons uv(1) pre by simp
      have cp: "cur \<noteq> p" using p xs by auto
      let ?h3 = "upd_pcb p (\<lambda>x. x\<lparr>next_ready := next_ready (h2 cur)\<rparr>) h2"
      let ?h4 = "upd_pcb cur (\<lambda>x. x\<lparr>next_ready := Some p\<rparr>) ?h3"
      let ?q = "if next_ready (h2 cur) = None then q\<lparr>q_tail := Some p\<rparr> else q"
      have pt: "sorted_insertion_point h2 (est_burst (h p)) y = Some cur"
        using uv(2) by (simp only: cur_def)
      have e: "enqueue_sorted_to h q (Some p) = Some (?h4, ?q)"
        using p hd False pt cp
        by (simp add: enqueue_sorted_to_def Let_def h2_def [symmetric] est del: upd_pcb_upd_pcb)
      have c0: "chain (links h) (q_head q) (pre @ cur # vs) None"
        using rep xs by (simp add: queue_rep_def)
      then have ch: "chain ((links h)(p := links h cur, cur := Some p)) (q_head q) (pre @ cur # p # vs) None"
        using p xs by (intro chain_insert_node) auto
      have nx: "next_ready (h2 cur) = links h cur" using cp by (simp add: fr links_def)
      have vs: "links h cur = None \<longleftrightarrow> vs = []"
        using c0 by (cases vs) (auto simp: chain_split)
      have "queue_rep ?h4 ?q (pre @ cur # p # vs)"
        using ch tl xs vs cp by (auto simp: queue_rep_def lk nx)
      moreover have "insert_by (\<lambda>x. est_burst (h x)) p xs = pre @ cur # p # vs"
        using False Cons uv(3) pre by simp
      moreover have "core ?h4 = upd_pcb p ?f (core h)" by (simp add: cr)
      moreover have "?h4 r = h r" if "r \<noteq> p" "r \<notin> set xs" for r
        using that xs fr [of r] by (simp add: upd_pcb_apply)
      ultimately show thesis by (intro that [OF e]) auto
    qed
  qed
qed

subsection \<open>The queue interface\<close>

text \<open>
  What the scheduling algorithms rely on: a queue is represented by a list, insertion appends,
  extraction takes the first element.
\<close>

primrec drain :: "('h \<Rightarrow> 'q \<Rightarrow> 'p option \<times> 'h \<times> 'q) \<Rightarrow> nat \<Rightarrow> 'h \<Rightarrow> 'q \<Rightarrow> 'p list" where
  "drain deq 0 h q = []"
| "drain deq (Suc n) h q =
     (case deq h q of (None, _, _) \<Rightarrow> [] | (Some p, h', q') \<Rightarrow> p # drain deq n h' q')"

locale fifo_interface =
  fixes rep :: "'h \<Rightarrow> 'q \<Rightarrow> 'p list \<Rightarrow> bool"
    and admissible :: "'p \<Rightarrow> bool"
    and enq :: "'h \<Rightarrow> 'q \<Rightarrow> 'p \<Rightarrow> 'h \<times> 'q"
    and deq :: "'h \<Rightarrow> 'q \<Rightarrow> 'p option \<times> 'h \<times> 'q"
  assumes enq_appends: "rep h q xs \<Longrightarrow> admissible p \<Longrightarrow> p \<notin> set xs \<Longrightarrow> enq h q p = (h', q') \<Longrightarrow> rep h' q' (xs @ [p])"
    and deq_empty: "rep h q [] \<Longrightarrow> deq h q = (None, h, q)"
    and deq_first: "rep h q (p # xs) \<Longrightarrow> \<exists>h' q'. deq h q = (Some p, h', q') \<and> rep h' q' xs"
begin

lemma enq_all_appends:
  assumes "rep h q xs" and "distinct (xs @ ps)" and "\<forall>p \<in> set ps. admissible p"
    and "fold (\<lambda>p (h, q). enq h q p) ps (h, q) = (h', q')"
  shows "rep h' q' (xs @ ps)"
  using assms
proof (induction ps arbitrary: xs h q)
  case (Cons p ps)
  obtain h1 q1 where e: "enq h q p = (h1, q1)" by (cases "enq h q p")
  with Cons.prems have "rep h1 q1 (xs @ [p])" by (auto intro: enq_appends)
  with Cons.IH [of h1 q1 "xs @ [p]"] Cons.prems e show ?case by simp
qed auto

lemma drain_all: "rep h q xs \<Longrightarrow> length xs \<le> n \<Longrightarrow> drain deq n h q = xs"
proof (induction n arbitrary: h q xs)
  case (Suc n)
  show ?case
  proof (cases xs)
    case Nil
    with Suc.prems show ?thesis by (simp add: deq_empty)
  next
    case (Cons p ps)
    with Suc.prems(1) obtain h' q' where "deq h q = (Some p, h', q')" "rep h' q' ps"
      using deq_first by blast
    with Suc Cons show ?thesis by simp
  qed
qed simp

lemma fifo_order:
  assumes "rep h q xs" and "distinct (xs @ ps)" and "\<forall>p \<in> set ps. admissible p"
    and "fold (\<lambda>p (h, q). enq h q p) ps (h, q) = (h', q')"
  shows "drain deq (length xs + length ps) h' q' = xs @ ps"
  using drain_all [OF enq_all_appends [OF assms]] by simp

end

interpretation ready: fifo_interface queue_rep "\<lambda>p. p \<noteq> Init_process"
  "\<lambda>h q p. enqueue_process_to h q (Some p)" dequeue_process_from
proof
  show "\<exists>h' q'. dequeue_process_from h q = (Some p, h', q') \<and> queue_rep h' q' xs"
    if "queue_rep h q (p # xs)" for h q p xs
    using dequeue_rep_Cons [OF that] by metis
qed (auto intro: enqueue_rep(1) dequeue_rep_Nil)

subsection \<open>Properties\<close>

text \<open>
  The intrusive ready queue is first in, first out: whatever sequence of distinct processes is put into
  a queue that holds xs, taking processes out until the queue is empty yields xs followed by that sequence,
  in order; no process is lost, duplicated or reordered by the pointer updates.
\<close>

lemma ready_queue_is_fifo:
  assumes "queue_rep h q xs" "distinct (xs @ ps)" "Init_process \<notin> set ps"
    and "fold (\<lambda>p (h, q). enqueue_process_to h q (Some p)) ps (h, q) = (h', q')"
  shows "drain dequeue_process_from (length xs + length ps) h' q' = xs @ ps"
  using ready.fifo_order [OF assms(1,2) _ assms(4)] assms(3) by blast

text \<open>
  Sorted insertion (SJF) refines its list counterpart: enqueue_sorted_to always returns, the queue then
  holds the old sequence with the process inserted before the first one whose estimated burst is strictly larger,
  it stays sorted if it was, and among equal estimates the new process is last.
\<close>

lemma sorted_insertion_refines:
  assumes "queue_rep h q xs" "p \<notin> set xs" "p \<noteq> Init_process" "sorted (map (\<lambda>x. est_burst (h x)) xs)"
  shows "\<exists>h' q' ys. enqueue_sorted_to h q (Some p) = Some (h', q') \<and> queue_rep h' q' ys \<and>
    ys = insert_by (\<lambda>x. est_burst (h x)) p xs \<and> sorted (map (\<lambda>x. est_burst (h' x)) ys) \<and>
    filter (\<lambda>x. x \<noteq> p) ys = xs \<and>
    filter (\<lambda>x. est_burst (h x) = est_burst (h p)) ys = filter (\<lambda>x. est_burst (h x) = est_burst (h p)) xs @ [p]"
proof -
  let ?b = "\<lambda>x. est_burst (h x)"
  obtain h' q' where e: "enqueue_sorted_to h q (Some p) = Some (h', q')" "queue_rep h' q' (insert_by ?b p xs)"
    "core h' = upd_pcb p (\<lambda>x. x\<lparr>state := PROCESS_READY\<rparr>) (core h)"
    by (rule enqueue_sorted_rep [OF assms(1-3)])
  have "est_burst (h' x) = ?b x" for x
    using arg_cong [OF e(3), of "\<lambda>f. est_burst (f x)"] by (simp add: upd_pcb_apply split: if_splits)
  then show ?thesis
    using e(1,2) sorted_insert_by [OF assms(4)] insert_by_other [OF assms(2)] insert_by_stable [OF assms(4)] by auto
qed

end
