(* ===== verification/Scheduler.thy ===== *)
theory Scheduler
  imports Process_Queue
begin

section \<open>The scheduler\<close>

text \<open>
  \<^verbatim>\<open>libs/scheduler.c\<close>, operation by operation and in the order of the file: insertion policies and
  router, registration of a process, scheduling parameters, the five selection functions behind the
  seven algorithm descriptors, per-tick bookkeeping, signals, context switch, timer tick
  and process exit. \<^verbatim>\<open>libs/fork_asm.S\<close> contributes the register swap of the context switch.

  A context switch does not return to its caller: control continues in the process that was
  switched to, at the instruction after the switch of \<^emph>\<open>its\<close> last call. The code executed there
  is the rest of a selection function (\<^verbatim>\<open>preempt_enable\<close>), or \<^verbatim>\<open>schedule_tail\<close> for a process that
  runs for the first time, which is the same \<^verbatim>\<open>preempt_enable\<close>. So the sequential text
  \<open>preempt_disable; select; switch; preempt_enable\<close> describes the global state: the first call acts on
  the outgoing, the last on the incoming process.
\<close>

subsection \<open>Access to PCBs and queues\<close>

definition modify_pcb :: "pcb_ptr \<Rightarrow> (PCB \<Rightarrow> PCB) \<Rightarrow> kernel \<Rightarrow> kernel" where
  "modify_pcb p f s = s\<lparr>pcbs := upd_pcb p f (pcbs s)\<rparr>"

text \<open>A \<^verbatim>\<open>ProcessQueue*\<close>: the address of the ready queue or of one of the level queues.\<close>

datatype queue_ref = Ready_queue | Ml_queue int

definition get_queue :: "queue_ref \<Rightarrow> kernel \<Rightarrow> ProcessQueue option" where
  "get_queue r s = (case r of Ready_queue \<Rightarrow> Some (ready_queue s) | Ml_queue i \<Rightarrow> aget (ml_queues s) i)"

definition put_queue :: "queue_ref \<Rightarrow> ProcessQueue \<Rightarrow> kernel \<Rightarrow> kernel" where
  "put_queue r q s = (case r of Ready_queue \<Rightarrow> s\<lparr>ready_queue := q\<rparr>
     | Ml_queue i \<Rightarrow> s\<lparr>ml_queues := (ml_queues s)[nat i := q]\<rparr>)"

definition enqueue_to :: "queue_ref \<Rightarrow> pcb_ptr option \<Rightarrow> kernel \<Rightarrow> kernel option" where
  "enqueue_to r process s = do {
     q \<leftarrow> get_queue r s;
     let (h, q') = enqueue_process_to (pcbs s) q process;
     Some (put_queue r q' (s\<lparr>pcbs := h\<rparr>))
   }"

definition enqueue_sorted :: "queue_ref \<Rightarrow> pcb_ptr option \<Rightarrow> kernel \<Rightarrow> kernel option" where
  "enqueue_sorted r process s = do {
     q \<leftarrow> get_queue r s;
     (h, q') \<leftarrow> enqueue_sorted_to (pcbs s) q process;
     Some (put_queue r q' (s\<lparr>pcbs := h\<rparr>))
   }"

definition dequeue_from :: "queue_ref \<Rightarrow> kernel \<Rightarrow> (pcb_ptr option \<times> kernel) option" where
  "dequeue_from r s = do {
     q \<leftarrow> get_queue r s;
     let (p, h, q') = dequeue_process_from (pcbs s) q;
     Some (p, put_queue r q' (s\<lparr>pcbs := h\<rparr>))
   }"

definition remove_from :: "queue_ref \<Rightarrow> pcb_ptr option \<Rightarrow> pcb_ptr \<Rightarrow> kernel \<Rightarrow> kernel option" where
  "remove_from r previous process s = do {
     q \<leftarrow> get_queue r s;
     let (h, q') = remove_process_from (pcbs s) q previous process;
     Some (put_queue r q' (s\<lparr>pcbs := h\<rparr>))
   }"

subsection \<open>Insertion policies and router\<close>

definition enqueue_fifo :: "pcb_ptr option \<Rightarrow> kernel \<Rightarrow> kernel option" where
  "enqueue_fifo process s = enqueue_to Ready_queue process s"

definition enqueue_sjf :: "pcb_ptr option \<Rightarrow> kernel \<Rightarrow> kernel option" where
  "enqueue_sjf process s = enqueue_sorted Ready_queue process s"

definition enqueue_multilevel :: "pcb_ptr option \<Rightarrow> kernel \<Rightarrow> kernel option" where
  "enqueue_multilevel process s = do {
     p \<leftarrow> process;
     level \<leftarrow> aget (queue_level s) (pid (pcbs s p));
     enqueue_to (Ml_queue level) process s
   }"

definition call_enqueue :: "enqueue_callback \<Rightarrow> pcb_ptr option \<Rightarrow> kernel \<Rightarrow> kernel option" where
  "call_enqueue f process s =
     (case f of Enqueue_fifo \<Rightarrow> enqueue_fifo process s
      | Enqueue_sjf \<Rightarrow> enqueue_sjf process s
      | Enqueue_multilevel \<Rightarrow> enqueue_multilevel process s)"

definition enqueue_process :: "pcb_ptr option \<Rightarrow> kernel \<Rightarrow> kernel option" where
  "enqueue_process process s =
     (if process = None \<or> process = Some Init_process then Some s
      else call_enqueue (enqueue (active_algorithm s)) process s)"

subsection \<open>Registration and scheduling parameters\<close>

text \<open>The level a process starts at: its hint, clamped to the existing levels.\<close>

definition initial_level :: "SchedAlgorithm \<Rightarrow> int \<Rightarrow> int" where
  "initial_level alg l0 =
     (let l1 = (if l0 < 0 then 0 else l0);
          l2 = (if l1 \<ge> int ML_MAX_LEVELS then int ML_MAX_LEVELS - 1 else l1)
      in case ml_policy alg of None \<Rightarrow> l2
         | Some pol \<Rightarrow> if l2 \<ge> n_levels pol then n_levels pol - 1 else l2)"

definition add_process_to_scheduler :: "pcb_ptr \<Rightarrow> kernel \<Rightarrow> (int \<times> kernel) option" where
  "add_process_to_scheduler process s =
     (let pr = pcbs s process in
      if n_processes s \<ge> int N_PROCESSES \<or> pid pr \<ge> int N_PROCESSES then Some (-1, s)
      else do {
        tbl \<leftarrow> aset (processes s) (pid pr) (Some process);
        let s1 = s\<lparr>processes := tbl\<rparr>;
        lvls \<leftarrow> aset (queue_level s1) (pid pr) (initial_level (active_algorithm s) (queue_priority pr));
        let s2 = s1\<lparr>queue_level := lvls\<rparr>;
        s3 \<leftarrow> (if state pr = PROCESS_READY then enqueue_process (Some process) s2 else Some s2);
        Some (0, s3\<lparr>n_processes := n_processes s3 + 1\<rparr>)
      })"

definition preempt_enable :: "kernel \<Rightarrow> kernel" where
  "preempt_enable s = modify_pcb (current_process s) (\<lambda>x. x\<lparr>preempt_disabled := preempt_disabled x - 1\<rparr>) s"

definition preempt_disable :: "kernel \<Rightarrow> kernel" where
  "preempt_disable s = modify_pcb (current_process s) (\<lambda>x. x\<lparr>preempt_disabled := preempt_disabled x + 1\<rparr>) s"

abbreviation (input) "SCHED_PARAM_PRIORITY \<equiv> (0::int)"
abbreviation (input) "SCHED_PARAM_TICKETS \<equiv> (1::int)"
abbreviation (input) "SCHED_PARAM_QUEUE_PRIORITY \<equiv> (2::int)"

definition sched_set_param :: "pcb_ptr option \<Rightarrow> int \<Rightarrow> int \<Rightarrow> kernel \<Rightarrow> (int \<times> kernel) option" where
  "sched_set_param process param val s =
     (case process of
        None \<Rightarrow> Some (-1, s)
      | Some p \<Rightarrow>
          if p = Init_process then Some (-1, s)
          else if param = SCHED_PARAM_PRIORITY then
            (if val < 1 then Some (-1, s) else Some (0, modify_pcb p (\<lambda>x. x\<lparr>priority := val\<rparr>) s))
          else if param = SCHED_PARAM_TICKETS then
            (if val < 1 then Some (-1, s) else Some (0, modify_pcb p (\<lambda>x. x\<lparr>tickets := val\<rparr>) s))
          else if param = SCHED_PARAM_QUEUE_PRIORITY then
            (if val < 0 \<or> val \<ge> int ML_MAX_LEVELS then Some (-1, s)
             else
               let v = (case ml_policy (active_algorithm s) of None \<Rightarrow> val
                        | Some pol \<Rightarrow> if val \<ge> n_levels pol then n_levels pol - 1 else val);
                   s1 = preempt_disable s;
                   s2 = modify_pcb p (\<lambda>x. x\<lparr>queue_priority := v\<rparr>) s1
               in do {
                 lvls \<leftarrow> aset (queue_level s2) (pid (pcbs s2 p)) v;
                 Some (0, preempt_enable (s2\<lparr>queue_level := lvls\<rparr>))
               })
          else Some (-1, s))"

subsection \<open>Signals\<close>

abbreviation (input) "SIGNAL_KILL \<equiv> (1::nat)"
abbreviation (input) "SIGNAL_STOP \<equiv> (2::nat)"
abbreviation (input) "SIGNAL_RESUME \<equiv> (3::nat)"

definition signal_bit :: "nat \<Rightarrow> 32 word" where
  "signal_bit n = push_bit n 1"

definition handle_process_signals :: "pcb_ptr \<Rightarrow> kernel \<Rightarrow> kernel option" where
  "handle_process_signals p s =
     (let sig = pending_signals (pcbs s p) in
      if sig = 0 then Some s
      else if sig AND signal_bit SIGNAL_KILL \<noteq> 0 then
        Some (modify_pcb p (\<lambda>x. x\<lparr>state := PROCESS_ZOMBIE,
                pending_signals := pending_signals x AND NOT (signal_bit SIGNAL_KILL)\<rparr>) s)
      else if sig AND signal_bit SIGNAL_STOP \<noteq> 0 then
        Some (modify_pcb p (\<lambda>x. x\<lparr>state := PROCESS_STOPPED,
                pending_signals := pending_signals x AND NOT (signal_bit SIGNAL_STOP)\<rparr>) s)
      else if sig AND signal_bit SIGNAL_RESUME \<noteq> 0 then
        (let s1 = modify_pcb p (\<lambda>x. x\<lparr>pending_signals :=
                    pending_signals x AND NOT (signal_bit SIGNAL_RESUME)\<rparr>) s
         in if state (pcbs s1 p) = PROCESS_STOPPED
            then enqueue_process (Some p) (modify_pcb p (\<lambda>x. x\<lparr>state := PROCESS_READY\<rparr>) s1)
            else Some s1)
      else Some s)"

subsection \<open>Context switch\<close>

definition set_pgd :: "64 word \<Rightarrow> kernel \<Rightarrow> kernel" where
  "set_pgd v s = s\<lparr>ttbr0_el1 := v\<rparr>"

definition cpu_switch_to_process :: "pcb_ptr \<Rightarrow> pcb_ptr \<Rightarrow> kernel \<Rightarrow> kernel" where
  "cpu_switch_to_process prev nxt s =
     (let s1 = modify_pcb prev (\<lambda>x. x\<lparr>cpu_context := cpu_regs s\<rparr>) s
      in s1\<lparr>cpu_regs := cpu_context (pcbs s1 nxt)\<rparr>)"

definition switch_to_process :: "pcb_ptr \<Rightarrow> kernel \<Rightarrow> kernel" where
  "switch_to_process next_process s =
     (let s1 = modify_pcb next_process (\<lambda>x. x\<lparr>state := PROCESS_RUNNING\<rparr>) s in
      if current_process s1 = next_process then s1
      else
        let previous_process = current_process s1;
            s2 = (if state (pcbs s1 previous_process) = PROCESS_RUNNING
                  then modify_pcb previous_process (\<lambda>x. x\<lparr>state := PROCESS_READY\<rparr>) s1 else s1);
            s3 = s2\<lparr>current_process := next_process\<rparr>;
            s4 = set_pgd (pgd (mm (pcbs s3 next_process))) s3
        in cpu_switch_to_process previous_process next_process s4)"

definition schedule_tail :: "kernel \<Rightarrow> kernel" where
  "schedule_tail s = preempt_enable s"

subsection \<open>Parts the selection functions share\<close>

text \<open>"If the current process is still runnable, put it back": each selection function starts so.\<close>

definition current_runnable :: "kernel \<Rightarrow> bool" where
  "current_runnable s \<longleftrightarrow>
     current_process s \<noteq> Init_process \<and> state (pcbs s (current_process s)) = PROCESS_RUNNING"

text \<open>
  The loop \<^verbatim>\<open>while ((next = dequeue(queue)) != NULL) { signals; if READY break; }\<close>.
\<close>

partial_function (option) dequeue_runnable :: "queue_ref \<Rightarrow> kernel \<Rightarrow> (pcb_ptr option \<times> kernel) option" where
  "dequeue_runnable r s =
     Option.bind (dequeue_from r s) (\<lambda>(np, s1).
       case np of
         None \<Rightarrow> Some (None, s1)
       | Some p \<Rightarrow>
           Option.bind (handle_process_signals p s1) (\<lambda>s2.
             if state (pcbs s2 p) = PROCESS_READY then Some (Some p, s2)
             else dequeue_runnable r s2))"

text \<open>The common ending: fall back to the idle process, or charge the quantum; then dispatch.\<close>

definition dispatch :: "pcb_ptr option \<Rightarrow> int option \<Rightarrow> kernel \<Rightarrow> kernel" where
  "dispatch next_process time_slice s =
     (case next_process of
        None \<Rightarrow> preempt_enable (switch_to_process Init_process s)
      | Some p \<Rightarrow>
          let s1 = (case time_slice of None \<Rightarrow> s | Some n \<Rightarrow> modify_pcb p (\<lambda>x. x\<lparr>counter := n\<rparr>) s)
          in preempt_enable (switch_to_process p s1))"

subsection \<open>Priority with aging\<close>

text \<open>
  One pass over the ready queue: signals, unlinking of processes that are no longer READY, and the
  candidate with the largest counter together with its predecessor.
\<close>

partial_function (option) aging_scan ::
  "pcb_ptr option \<Rightarrow> pcb_ptr option \<Rightarrow> pcb_ptr option \<Rightarrow> pcb_ptr option \<Rightarrow> int \<Rightarrow> kernel
   \<Rightarrow> (pcb_ptr option \<times> pcb_ptr option \<times> kernel) option" where
  "aging_scan node previous best best_previous max_counter s =
     (case node of
        None \<Rightarrow> Some (best, best_previous, s)
      | Some n \<Rightarrow>
          let next_node = next_ready (pcbs s n) in
          Option.bind (handle_process_signals n s) (\<lambda>s1.
            if state (pcbs s1 n) \<noteq> PROCESS_READY then
              Option.bind (remove_from Ready_queue previous n s1) (\<lambda>s2.
                aging_scan next_node previous best best_previous max_counter s2)
            else if counter (pcbs s1 n) > max_counter then
              aging_scan next_node (Some n) (Some n) previous (counter (pcbs s1 n)) s1
            else aging_scan next_node (Some n) best best_previous max_counter s1))"

text \<open>The end of an epoch: \<^verbatim>\<open>counter = (counter >> 1) + priority\<close> for every registered process.\<close>

definition recharge :: "PCB \<Rightarrow> PCB" where
  "recharge x = x\<lparr>counter := counter x div 2 + priority x\<rparr>"

definition aging_recharge :: "kernel \<Rightarrow> kernel" where
  "aging_recharge s =
     s\<lparr>pcbs := fold (\<lambda>slot h. case slot of None \<Rightarrow> h | Some p \<Rightarrow> upd_pcb p recharge h)
                (processes s) (pcbs s)\<rparr>"

partial_function (option) aging_select :: "kernel \<Rightarrow> (pcb_ptr option \<times> kernel) option" where
  "aging_select s =
     Option.bind (aging_scan (q_head (ready_queue s)) None None None 0 s) (\<lambda>(best, best_previous, s1).
       case best of
         Some b \<Rightarrow> Option.bind (remove_from Ready_queue best_previous b s1) (\<lambda>s2. Some (Some b, s2))
       | None \<Rightarrow>
           if q_head (ready_queue s1) = None then Some (None, s1)
           else aging_select (aging_recharge s1))"

definition schedule_priority_aging :: "kernel \<Rightarrow> kernel option" where
  "schedule_priority_aging s = do {
     let s1 = preempt_disable s;
     s2 \<leftarrow> (if current_runnable s1 then enqueue_to Ready_queue (Some (current_process s1)) s1 else Some s1);
     (next_process, s3) \<leftarrow> aging_select s2;
     Some (dispatch next_process None s3)
   }"

subsection \<open>Round Robin\<close>

definition schedule_round_robin :: "kernel \<Rightarrow> kernel option" where
  "schedule_round_robin s = do {
     let s1 = preempt_disable s;
     s2 \<leftarrow> (if current_runnable s1 then enqueue_to Ready_queue (Some (current_process s1)) s1 else Some s1);
     (next_process, s3) \<leftarrow> dequeue_runnable Ready_queue s2;
     Some (dispatch next_process (Some 10) s3)
   }"

subsection \<open>Lottery\<close>

text \<open>The \<^verbatim>\<open>n\<close>-th read of \<^verbatim>\<open>TIMER_CLO\<close> (register offset \<^verbatim>\<open>0x3004\<close>).\<close>

definition mmio_read_clo :: "kernel \<Rightarrow> 32 word \<times> kernel" where
  "mmio_read_clo s = (timer_clo s (timer_reads s), s\<lparr>timer_reads := Suc (timer_reads s)\<rparr>)"

definition xorshift64 :: "64 word \<Rightarrow> 64 word" where
  "xorshift64 x0 =
     (let x1 = x0 XOR push_bit 13 x0;
          x2 = x1 XOR drop_bit 7 x1
      in x2 XOR push_bit 17 x2)"

definition lottery_random :: "kernel \<Rightarrow> 64 word \<times> kernel" where
  "lottery_random s =
     (let (t, s1) = mmio_read_clo s;
          x0 = lottery_rng_state s1 XOR ucast t;
          x1 = (if x0 = 0 then 88172645463325252 else x0);
          x2 = xorshift64 x1
      in (x2, s1\<lparr>lottery_rng_state := x2\<rparr>))"

definition effective_tickets :: "PCB \<Rightarrow> int" where
  "effective_tickets x = (if tickets x > 0 then tickets x else 1)"

text \<open>The sum of the tickets in the queue; a sum that does not fit a \<^verbatim>\<open>long\<close> overflows.\<close>

partial_function (option) total_tickets :: "pcb_heap \<Rightarrow> pcb_ptr option \<Rightarrow> int \<Rightarrow> int option" where
  "total_tickets h p acc =
     (case p of None \<Rightarrow> Some acc
      | Some n \<Rightarrow>
          let t = acc + effective_tickets (h n) in
          if t \<ge> 2 ^ 63 then None else total_tickets h (next_ready (h n)) t)"

partial_function (option) lottery_walk ::
  "pcb_heap \<Rightarrow> int \<Rightarrow> int \<Rightarrow> pcb_ptr option \<Rightarrow> pcb_ptr option \<Rightarrow> (pcb_ptr option \<times> pcb_ptr option) option" where
  "lottery_walk h winner ticket_counter previous candidate =
     (case candidate of
        None \<Rightarrow> Some (previous, None)
      | Some c \<Rightarrow>
          let t = ticket_counter + effective_tickets (h c) in
          if t > winner then Some (previous, Some c)
          else lottery_walk h winner t (Some c) (next_ready (h c)))"

partial_function (option) lottery_draw :: "kernel \<Rightarrow> (pcb_ptr option \<times> kernel) option" where
  "lottery_draw s =
     Option.bind (total_tickets (pcbs s) (q_head (ready_queue s)) 0) (\<lambda>total.
       if total = 0 then Some (None, s)
       else
         let (r, s1) = lottery_random s;
             winner = uint (r mod word_of_int total)
         in Option.bind (lottery_walk (pcbs s1) winner 0 None (q_head (ready_queue s1))) (\<lambda>(previous, candidate).
              Option.bind candidate (\<lambda>c.
                Option.bind (remove_from Ready_queue previous c s1) (\<lambda>s2.
                  Option.bind (handle_process_signals c s2) (\<lambda>s3.
                    if state (pcbs s3 c) = PROCESS_READY then Some (Some c, s3)
                    else lottery_draw s3)))))"

definition schedule_lottery :: "kernel \<Rightarrow> kernel option" where
  "schedule_lottery s = do {
     let s1 = preempt_disable s;
     s2 \<leftarrow> (if current_runnable s1 then enqueue_to Ready_queue (Some (current_process s1)) s1 else Some s1);
     (next_process, s3) \<leftarrow> lottery_draw s2;
     Some (dispatch next_process (Some 10) s3)
   }"

subsection \<open>FCFS and SJF\<close>

definition schedule_queue_head :: "kernel \<Rightarrow> kernel option" where
  "schedule_queue_head s = do {
     let s1 = preempt_disable s;
     s2 \<leftarrow> (if current_runnable s1
            then call_enqueue (enqueue (active_algorithm s1)) (Some (current_process s1)) s1
            else Some s1);
     (next_process, s3) \<leftarrow> dequeue_runnable Ready_queue s2;
     Some (dispatch next_process None s3)
   }"

subsection \<open>Multilevel queues\<close>

text \<open>The cascade over the levels, with the level the process came from.\<close>

primrec ml_cascade :: "int list \<Rightarrow> kernel \<Rightarrow> ((pcb_ptr \<times> int) option \<times> kernel) option" where
  "ml_cascade [] s = Some (None, s)"
| "ml_cascade (q # qs) s =
     Option.bind (dequeue_runnable (Ml_queue q) s) (\<lambda>(np, s1).
       case np of None \<Rightarrow> ml_cascade qs s1 | Some p \<Rightarrow> Some (Some (p, q), s1))"

definition levels :: "MultilevelPolicy \<Rightarrow> int list" where
  "levels policy = map int [0..<nat (n_levels policy)]"

definition schedule_multilevel :: "kernel \<Rightarrow> kernel option" where
  "schedule_multilevel s = do {
     let s1 = preempt_disable s;
     policy \<leftarrow> ml_policy (active_algorithm s1);
     s2 \<leftarrow> (if current_runnable s1 then enqueue_multilevel (Some (current_process s1)) s1 else Some s1);
     (found, s3) \<leftarrow> ml_cascade (levels policy) s2;
     (case found of
        None \<Rightarrow> Some (dispatch None None s3)
      | Some (p, target_level) \<Rightarrow> do {
          time_slice \<leftarrow> aget (quantum policy) target_level;
          Some (dispatch (Some p) (Some time_slice) s3)
        })
   }"

text \<open>The periodic boost: drain every lower level into level 0, then reset all tracked levels.\<close>

partial_function (option) ml_drain :: "int \<Rightarrow> kernel \<Rightarrow> kernel option" where
  "ml_drain q s =
     Option.bind (dequeue_from (Ml_queue q) s) (\<lambda>(np, s1).
       case np of
         None \<Rightarrow> Some s1
       | Some p \<Rightarrow>
           Option.bind (aset (queue_level s1) (pid (pcbs s1 p)) 0) (\<lambda>lvls.
             Option.bind (enqueue_to (Ml_queue 0) (Some p) (s1\<lparr>queue_level := lvls\<rparr>)) (\<lambda>s2.
               ml_drain q s2)))"

primrec ml_drain_all :: "int list \<Rightarrow> kernel \<Rightarrow> kernel option" where
  "ml_drain_all [] s = Some s"
| "ml_drain_all (q # qs) s = Option.bind (ml_drain q s) (ml_drain_all qs)"

definition ml_boost :: "MultilevelPolicy \<Rightarrow> kernel \<Rightarrow> kernel option" where
  "ml_boost policy s = do {
     s1 \<leftarrow> ml_drain_all (tl (levels policy)) s;
     Some (s1\<lparr>queue_level := map (\<lambda>_. 0) (queue_level s1), ml_ticks_since_boost := 0\<rparr>)
   }"

text \<open>The two halves of \<^verbatim>\<open>_multilevel_on_tick\<close>: count towards the boost, then demote on expiry.\<close>

definition ml_boost_tick :: "MultilevelPolicy \<Rightarrow> kernel \<Rightarrow> kernel option" where
  "ml_boost_tick policy s =
     (if boost_period policy > 0 then
        let s0 = s\<lparr>ml_ticks_since_boost := ml_ticks_since_boost s + 1\<rparr> in
        if ml_ticks_since_boost s0 \<ge> boost_period policy then ml_boost policy s0 else Some s0
      else Some s)"

definition ml_demote :: "MultilevelPolicy \<Rightarrow> kernel \<Rightarrow> kernel option" where
  "ml_demote policy s =
     (let cur = pcbs s (current_process s) in
      if demote_on_expiry policy \<and> current_process s \<noteq> Init_process \<and> counter cur \<le> 0
         \<and> preempt_disabled cur = 0
      then do {
        level \<leftarrow> aget (queue_level s) (pid cur);
        if level < n_levels policy - 1 then do {
          lvls \<leftarrow> aset (queue_level s) (pid cur) (level + 1);
          Some (s\<lparr>queue_level := lvls\<rparr>)
        } else Some s
      }
      else Some s)"

definition multilevel_on_tick :: "kernel \<Rightarrow> kernel option" where
  "multilevel_on_tick s = do {
     policy \<leftarrow> ml_policy (active_algorithm s);
     s1 \<leftarrow> ml_boost_tick policy s;
     ml_demote policy s1
   }"

subsection \<open>Central dispatcher, timer tick, exit\<close>

definition schedule_pick :: "kernel \<Rightarrow> kernel option" where
  "schedule_pick s =
     (case pick_next (active_algorithm s) of
        Schedule_priority_aging \<Rightarrow> schedule_priority_aging s
      | Schedule_round_robin \<Rightarrow> schedule_round_robin s
      | Schedule_lottery \<Rightarrow> schedule_lottery s
      | Schedule_queue_head \<Rightarrow> schedule_queue_head s
      | Schedule_multilevel \<Rightarrow> schedule_multilevel s)"

definition schedule :: "kernel \<Rightarrow> kernel option" where
  "schedule s =
     (let c = current_process s;
          s1 = (if c \<noteq> Init_process \<and> state (pcbs s c) \<noteq> PROCESS_RUNNING \<and> state (pcbs s c) \<noteq> PROCESS_READY
                then modify_pcb c (\<lambda>x. x\<lparr>est_burst := (burst_ticks x + est_burst x) sdiv 2, burst_ticks := 0\<rparr>) s
                else s);
          s2 = modify_pcb c (\<lambda>x. x\<lparr>counter := 0\<rparr>) s1
      in schedule_pick s2)"

definition on_tick_hook :: "kernel \<Rightarrow> kernel option" where
  "on_tick_hook s =
     (case on_tick (active_algorithm s) of None \<Rightarrow> Some s | Some Multilevel_on_tick \<Rightarrow> multilevel_on_tick s)"

definition handle_timer_tick :: "kernel \<Rightarrow> kernel option" where
  "handle_timer_tick s = do {
     let s1 = modify_pcb (current_process s) (\<lambda>x. x\<lparr>counter := counter x - 1, burst_ticks := burst_ticks x + 1\<rparr>) s;
     s2 \<leftarrow> on_tick_hook s1;
     let cur = pcbs s2 (current_process s2);
     if counter cur > 0 \<or> preempt_disabled cur > 0 then Some s2
     else
       let s3 = modify_pcb (current_process s2) (\<lambda>x. x\<lparr>counter := 0\<rparr>) s2 in
       if \<not> is_preemptive (active_algorithm s3) then Some s3
       else do {
         s4 \<leftarrow> schedule_pick (s3\<lparr>irq_enabled := True\<rparr>);
         Some (s4\<lparr>irq_enabled := False\<rparr>)
       }
   }"

text \<open>The scan of \<^verbatim>\<open>exit_process\<close> over the slots of the process table.\<close>

primrec wake_waiters :: "int \<Rightarrow> pcb_ptr option list \<Rightarrow> kernel \<Rightarrow> kernel option" where
  "wake_waiters dead [] s = Some s"
| "wake_waiters dead (slot # slots) s =
     (case slot of
        None \<Rightarrow> wake_waiters dead slots s
      | Some p \<Rightarrow>
          if state (pcbs s p) = PROCESS_WAITING_ANOTHER_PROCESS \<and> pid_to_wait (pcbs s p) = dead
          then Option.bind (enqueue_process (Some p)
                 (modify_pcb p (\<lambda>x. x\<lparr>state := PROCESS_READY, pid_to_wait := -1\<rparr>) s)) (wake_waiters dead slots)
          else wake_waiters dead slots s)"

definition exit_process :: "kernel \<Rightarrow> kernel option" where
  "exit_process s = do {
     let s1 = preempt_disable s;
     let s2 = modify_pcb (current_process s1) (\<lambda>x. x\<lparr>state := PROCESS_ZOMBIE\<rparr>) s1;
     s3 \<leftarrow> wake_waiters (pid (pcbs s2 (current_process s2))) (processes s2) s2;
     schedule (preempt_enable s3)
   }"

end
