(* ===== verification/Scheduler_Refinement.thy ===== *)
theory Scheduler_Refinement
  imports Scheduler
begin

section \<open>Abstract view of the scheduler state\<close>

text \<open>
  A kernel state is seen as three parts: the contents \<open>Q\<close> of all ready queues (a list for every
  queue address), the PCBs without their links (\<open>core\<close>), and everything else (\<open>rest\<close>). Each
  queue-manipulating operation of the scheduler is shown to act on these three parts
  as its list counterpart does; the selection loops refine list functions.
\<close>

type_synonym queue_contents = "queue_ref \<Rightarrow> pcb_ptr list"

definition rest :: "kernel \<Rightarrow> kernel" where
  "rest s = s\<lparr>pcbs := (\<lambda>_. zero_pcb), ready_queue := QUEUE_INIT, ml_queues := []\<rparr>"

definition valid_ref :: "queue_ref \<Rightarrow> bool" where
  "valid_ref r = (case r of Ready_queue \<Rightarrow> True | Ml_queue i \<Rightarrow> 0 \<le> i \<and> i < int ML_MAX_LEVELS)"

definition queues_rep :: "kernel \<Rightarrow> queue_contents \<Rightarrow> bool" where
  "queues_rep s Q \<longleftrightarrow>
     length (ml_queues s) = ML_MAX_LEVELS \<and>
     (\<forall>r. valid_ref r \<longrightarrow> (\<exists>q. get_queue r s = Some q \<and> queue_rep (pcbs s) q (Q r))) \<and>
     (\<forall>r. \<not> valid_ref r \<longrightarrow> Q r = []) \<and>
     (\<forall>a b. a \<noteq> b \<longrightarrow> set (Q a) \<inter> set (Q b) = {})"

definition queued :: "queue_contents \<Rightarrow> pcb_ptr \<Rightarrow> bool" where
  "queued Q p \<longleftrightarrow> (\<exists>r. p \<in> set (Q r))"

lemma rest_simps [simp]:
  "rest (modify_pcb p f s) = rest s" "rest (put_queue r q s) = rest s" "rest (s\<lparr>pcbs := h\<rparr>) = rest s"
  "rest (s\<lparr>ready_queue := q'\<rparr>) = rest s" "rest (s\<lparr>ml_queues := m\<rparr>) = rest s"
  by (simp_all add: rest_def modify_pcb_def put_queue_def split: queue_ref.splits)

lemma rest_fields:
  assumes "rest s' = rest s"
  shows "current_process s' = current_process s" "processes s' = processes s"
    "n_processes s' = n_processes s" "queue_level s' = queue_level s"
    "active_algorithm s' = active_algorithm s" "ml_ticks_since_boost s' = ml_ticks_since_boost s"
    "lottery_rng_state s' = lottery_rng_state s" "timer_clo s' = timer_clo s"
    "timer_reads s' = timer_reads s" "cpu_regs s' = cpu_regs s" "ttbr0_el1 s' = ttbr0_el1 s"
    "irq_enabled s' = irq_enabled s" "phys s' = phys s" "resources s' = resources s"
    "uart_owner s' = uart_owner s" "uart_buffer s' = uart_buffer s" "uart_head s' = uart_head s"
    "uart_tail s' = uart_tail s" "uart_out s' = uart_out s"
  using arg_cong [OF assms, of current_process] arg_cong [OF assms, of processes]
    arg_cong [OF assms, of n_processes] arg_cong [OF assms, of queue_level]
    arg_cong [OF assms, of active_algorithm] arg_cong [OF assms, of ml_ticks_since_boost]
    arg_cong [OF assms, of lottery_rng_state] arg_cong [OF assms, of timer_clo]
    arg_cong [OF assms, of timer_reads] arg_cong [OF assms, of cpu_regs]
    arg_cong [OF assms, of ttbr0_el1] arg_cong [OF assms, of irq_enabled]
    arg_cong [OF assms, of phys] arg_cong [OF assms, of resources]
    arg_cong [OF assms, of uart_owner] arg_cong [OF assms, of uart_buffer]
    arg_cong [OF assms, of uart_head] arg_cong [OF assms, of uart_tail]
    arg_cong [OF assms, of uart_out]
  by (simp_all add: rest_def)

lemma modify_pcb_fields [simp]:
  "pcbs (modify_pcb p f s) = upd_pcb p f (pcbs s)"
  "current_process (modify_pcb p f s) = current_process s" "processes (modify_pcb p f s) = processes s"
  "n_processes (modify_pcb p f s) = n_processes s" "queue_level (modify_pcb p f s) = queue_level s"
  "ready_queue (modify_pcb p f s) = ready_queue s" "ml_queues (modify_pcb p f s) = ml_queues s"
  "active_algorithm (modify_pcb p f s) = active_algorithm s"
  "ml_ticks_since_boost (modify_pcb p f s) = ml_ticks_since_boost s"
  "get_queue r (modify_pcb p f s) = get_queue r s"
  by (simp_all add: modify_pcb_def get_queue_def split: queue_ref.splits)

subsection \<open>Queue operations\<close>

lemma queues_repD:
  assumes "queues_rep s Q" and "valid_ref r"
  obtains q where "get_queue r s = Some q" and "queue_rep (pcbs s) q (Q r)"
  using assms by (auto simp: queues_rep_def)

lemma queues_rep_disjoint: "queues_rep s Q \<Longrightarrow> a \<noteq> b \<Longrightarrow> p \<in> set (Q a) \<Longrightarrow> p \<notin> set (Q b)"
  unfolding queues_rep_def by blast

lemma queues_rep_invalid: "queues_rep s Q \<Longrightarrow> \<not> valid_ref r \<Longrightarrow> Q r = []"
  by (auto simp: queues_rep_def)

lemma queues_rep_distinct: "queues_rep s Q \<Longrightarrow> distinct (Q r)"
  by (cases "valid_ref r") (auto simp: queues_rep_def dest: queue_rep_distinct)

lemma get_put_queue:
  assumes "length (ml_queues s) = ML_MAX_LEVELS" "valid_ref r" "valid_ref a"
  shows "get_queue a (put_queue r q s) = (if a = r then Some q else get_queue a s)"
  using assms by (auto simp: get_queue_def put_queue_def valid_ref_def aget_def split: queue_ref.splits)

lemma put_queue_pcbs [simp]: "pcbs (put_queue r q s) = pcbs s"
  by (simp add: put_queue_def split: queue_ref.splits)

lemma length_ml_queues_put [simp]: "length (ml_queues (put_queue r q s)) = length (ml_queues s)"
  by (simp add: put_queue_def split: queue_ref.splits)

lemma get_queue_pcbs [simp]: "get_queue r (s\<lparr>pcbs := h\<rparr>) = get_queue r s"
  by (simp add: get_queue_def split: queue_ref.splits)

text \<open>Replacing one queue, when the links inside the other queues are left alone.\<close>

lemma queues_rep_replace:
  assumes "queues_rep s Q" and "valid_ref r" and "queue_rep h' q' xs'"
    and "\<And>a p. a \<noteq> r \<Longrightarrow> p \<in> set (Q a) \<Longrightarrow> h' p = pcbs s p"
    and "\<And>a p. a \<noteq> r \<Longrightarrow> p \<in> set xs' \<Longrightarrow> p \<notin> set (Q a)"
  shows "queues_rep (put_queue r q' (s\<lparr>pcbs := h'\<rparr>)) (Q(r := xs'))"
proof -
  have "\<exists>q. get_queue a (put_queue r q' (s\<lparr>pcbs := h'\<rparr>)) = Some q \<and> queue_rep h' q ((Q(r := xs')) a)"
    if "valid_ref a" for a
  proof (cases "a = r")
    case True
    with assms that show ?thesis by (simp add: queues_rep_def get_put_queue)
  next
    case False
    from that assms(1) obtain q where q: "get_queue a s = Some q" "queue_rep (pcbs s) q (Q a)"
      by (auto simp: queues_rep_def)
    have "queue_rep h' q (Q a) = queue_rep (pcbs s) q (Q a)"
      using assms(4) False by (intro queue_rep_cong) (simp add: links_def)
    with q False that assms(1,2) show ?thesis by (simp add: queues_rep_def get_put_queue)
  qed
  with assms(1,2,5) show ?thesis by (fastforce simp: queues_rep_def)
qed

lemma enqueue_to_spec:
  assumes Q: "queues_rep s Q" and r: "valid_ref r" and p: "\<not> queued Q p" "p \<noteq> Init_process"
  obtains s' where "enqueue_to r (Some p) s = Some s'" "queues_rep s' (Q(r := Q r @ [p]))"
    "core (pcbs s') = upd_pcb p (\<lambda>x. x\<lparr>state := PROCESS_READY\<rparr>) (core (pcbs s))" "rest s' = rest s"
proof -
  obtain q where q: "get_queue r s = Some q" "queue_rep (pcbs s) q (Q r)" using queues_repD [OF Q r] .
  obtain h' q' where e: "enqueue_process_to (pcbs s) q (Some p) = (h', q')"
    by (cases "enqueue_process_to (pcbs s) q (Some p)")
  have np: "p \<notin> set (Q a)" for a using p by (auto simp: queued_def)
  note E = enqueue_rep [OF q(2) np p(2) e]
  have "queues_rep (put_queue r q' (s\<lparr>pcbs := h'\<rparr>)) (Q(r := Q r @ [p]))"
    using Q r E(1)
  proof (rule queues_rep_replace)
    show "h' a = pcbs s a" if "b \<noteq> r" "a \<in> set (Q b)" for b a
      using that np queues_rep_disjoint [OF Q that] by (intro E(3)) auto
    show "a \<notin> set (Q b)" if "b \<noteq> r" "a \<in> set (Q r @ [p])" for b a
      using that np queues_rep_disjoint [OF Q, of r b] by auto
  qed
  then show thesis using that [of "put_queue r q' (s\<lparr>pcbs := h'\<rparr>)"] q e E(2)
    by (simp add: enqueue_to_def)
qed

lemma enqueue_sorted_spec:
  assumes Q: "queues_rep s Q" and r: "valid_ref r" and p: "\<not> queued Q p" "p \<noteq> Init_process"
  obtains s' where "enqueue_sorted r (Some p) s = Some s'"
    "queues_rep s' (Q(r := insert_by (\<lambda>x. est_burst (pcbs s x)) p (Q r)))"
    "core (pcbs s') = upd_pcb p (\<lambda>x. x\<lparr>state := PROCESS_READY\<rparr>) (core (pcbs s))" "rest s' = rest s"
proof -
  obtain q where q: "get_queue r s = Some q" "queue_rep (pcbs s) q (Q r)" using queues_repD [OF Q r] .
  have np: "p \<notin> set (Q a)" for a using p by (auto simp: queued_def)
  obtain h' q' where E: "enqueue_sorted_to (pcbs s) q (Some p) = Some (h', q')"
    "queue_rep h' q' (insert_by (\<lambda>x. est_burst (pcbs s x)) p (Q r))"
    "core h' = upd_pcb p (\<lambda>x. x\<lparr>state := PROCESS_READY\<rparr>) (core (pcbs s))"
    "\<And>a. a \<noteq> p \<Longrightarrow> a \<notin> set (Q r) \<Longrightarrow> h' a = pcbs s a"
    using enqueue_sorted_rep [OF q(2) np p(2)] by metis
  have "queues_rep (put_queue r q' (s\<lparr>pcbs := h'\<rparr>)) (Q(r := insert_by (\<lambda>x. est_burst (pcbs s x)) p (Q r)))"
    using Q r E(2)
  proof (rule queues_rep_replace)
    show "h' a = pcbs s a" if "b \<noteq> r" "a \<in> set (Q b)" for b a
      using that np queues_rep_disjoint [OF Q that] by (intro E(4)) auto
    show "a \<notin> set (Q b)" if "b \<noteq> r" "a \<in> set (insert_by (\<lambda>x. est_burst (pcbs s x)) p (Q r))" for b a
      using that np queues_rep_disjoint [OF Q, of r b] by auto
  qed
  then show thesis using that [of "put_queue r q' (s\<lparr>pcbs := h'\<rparr>)"] q E(1,3)
    by (simp add: enqueue_sorted_def)
qed

lemma dequeue_from_empty:
  assumes "queues_rep s Q" "valid_ref r" "Q r = []"
  obtains s' where "dequeue_from r s = Some (None, s')" "queues_rep s' Q" "pcbs s' = pcbs s" "rest s' = rest s"
proof -
  obtain q where q: "get_queue r s = Some q" "queue_rep (pcbs s) q []"
    using queues_repD [OF assms(1,2)] assms(3) by metis
  have "queues_rep (put_queue r q (s\<lparr>pcbs := pcbs s\<rparr>)) (Q(r := []))"
    by (rule queues_rep_replace [OF assms(1,2) q(2)]) auto
  moreover have "Q(r := []) = Q" using assms(3) by auto
  ultimately show thesis using that [of "put_queue r q (s\<lparr>pcbs := pcbs s\<rparr>)"] q
    by (simp add: dequeue_from_def dequeue_rep_Nil)
qed

lemma dequeue_from_first:
  assumes Q: "queues_rep s Q" "valid_ref r" "Q r = p # ps"
  obtains s' where "dequeue_from r s = Some (Some p, s')" "queues_rep s' (Q(r := ps))"
    "core (pcbs s') = core (pcbs s)" "rest s' = rest s"
proof -
  obtain q where q: "get_queue r s = Some q" "queue_rep (pcbs s) q (p # ps)"
    using queues_repD [OF Q(1,2)] Q(3) by metis
  obtain h' q' where d: "dequeue_process_from (pcbs s) q = (Some p, h', q')" "queue_rep h' q' ps"
    "core h' = core (pcbs s)" "\<And>a. a \<noteq> p \<Longrightarrow> h' a = pcbs s a" using dequeue_rep_Cons [OF q(2)] by metis
  have "queues_rep (put_queue r q' (s\<lparr>pcbs := h'\<rparr>)) (Q(r := ps))"
    using Q(1,2) d(2)
  proof (rule queues_rep_replace)
    show "h' a = pcbs s a" if "b \<noteq> r" "a \<in> set (Q b)" for b a
      using queues_rep_disjoint [OF Q(1) that] Q(3) by (intro d(4)) auto
    show "a \<notin> set (Q b)" if "b \<noteq> r" "a \<in> set ps" for b a
      using that queues_rep_disjoint [OF Q(1), of r b] Q(3) by auto
  qed
  then show thesis using that [of "put_queue r q' (s\<lparr>pcbs := h'\<rparr>)"] q d(1,3)
    by (simp add: dequeue_from_def)
qed

lemma remove_from_spec:
  assumes Q: "queues_rep s Q" "valid_ref r" "Q r = xs @ p # ys"
    and prev: "previous = (if xs = [] then None else Some (last xs))"
  obtains s' where "remove_from r previous p s = Some s'" "queues_rep s' (Q(r := xs @ ys))"
    "core (pcbs s') = core (pcbs s)" "rest s' = rest s"
    "\<And>a. a \<noteq> p \<Longrightarrow> a \<notin> set xs \<Longrightarrow> pcbs s' a = pcbs s a"
proof -
  obtain q where q: "get_queue r s = Some q" "queue_rep (pcbs s) q (xs @ p # ys)"
    using queues_repD [OF Q(1,2)] Q(3) by metis
  obtain h' q' where e: "remove_process_from (pcbs s) q previous p = (h', q')"
    by (cases "remove_process_from (pcbs s) q previous p")
  note R = remove_rep [OF q(2) prev e]
  let ?s = "put_queue r q' (s\<lparr>pcbs := h'\<rparr>)"
  have 1: "queues_rep ?s (Q(r := xs @ ys))"
    using Q(1,2) R(1)
  proof (rule queues_rep_replace)
    show "h' a = pcbs s a" if "b \<noteq> r" "a \<in> set (Q b)" for b a
      using queues_rep_disjoint [OF Q(1) that] Q(3) by (intro R(3)) auto
    show "a \<notin> set (Q b)" if "b \<noteq> r" "a \<in> set (xs @ ys)" for b a
      using that queues_rep_disjoint [OF Q(1), of r b] Q(3) by auto
  qed
  have 2: "remove_from r previous p s = Some ?s"
    using q(1) e by (simp add: remove_from_def)
  have 3: "pcbs ?s a = pcbs s a" if "a \<noteq> p" "a \<notin> set xs" for a
    using R(3) [OF that] by simp
  have 4: "core (pcbs ?s) = core (pcbs s)" using R(2) by simp
  have 5: "rest ?s = rest s" by simp
  show thesis using 3 by (rule that [OF 2 1 4 5])
qed

text \<open>Changing PCB fields other than the link leaves all queues as they are.\<close>

lemma queues_rep_links:
  assumes "queues_rep s Q" "links (pcbs s') = links (pcbs s)" "ready_queue s' = ready_queue s" "ml_queues s' = ml_queues s"
  shows "queues_rep s' Q"
proof -
  have "get_queue r s' = get_queue r s" for r
    using assms by (simp add: get_queue_def split: queue_ref.splits)
  moreover have "queue_rep (pcbs s') q xs = queue_rep (pcbs s) q xs" for q xs
    using assms(2) by (rule queue_rep_links)
  ultimately show ?thesis using assms(1,4) by (simp add: queues_rep_def)
qed

lemma queues_rep_modify:
  assumes "queues_rep s Q" and "\<And>x. next_ready (f x) = next_ready x"
  shows "queues_rep (modify_pcb p f s) Q"
  using assms by (intro queues_rep_links [OF assms(1)]) (simp_all add: links_upd_core)

end
