(* ===== verification/Scheduler_Selection.thy ===== *)
theory Scheduler_Selection
  imports Scheduler_Refinement "HOL-Library.Sublist"
begin

section \<open>The selection loops\<close>

text \<open>
  What the selection loops of the algorithms do to the queues. \<open>selects s Q np s' Q'\<close> is the
  contract all of them share: the queues only lose elements; whatever leaves a queue is the selected
  process or was killed or stopped by a pending signal; nothing else changes but counters and signal
  masks. Each loop then has a sharper description of \<^emph>\<open>which\<close> process it selects.
\<close>

subsection \<open>Signals of a process that is not stopped\<close>

definition apply_signals :: "PCB \<Rightarrow> PCB" where
  "apply_signals x =
     (let sig = pending_signals x in
      if sig = 0 then x
      else if sig AND signal_bit SIGNAL_KILL \<noteq> 0 then
        x\<lparr>state := PROCESS_ZOMBIE, pending_signals := sig AND NOT (signal_bit SIGNAL_KILL)\<rparr>
      else if sig AND signal_bit SIGNAL_STOP \<noteq> 0 then
        x\<lparr>state := PROCESS_STOPPED, pending_signals := sig AND NOT (signal_bit SIGNAL_STOP)\<rparr>
      else if sig AND signal_bit SIGNAL_RESUME \<noteq> 0 then
        x\<lparr>pending_signals := sig AND NOT (signal_bit SIGNAL_RESUME)\<rparr>
      else x)"

definition doomed :: "PCB \<Rightarrow> bool" where
  "doomed x \<longleftrightarrow> pending_signals x AND (signal_bit SIGNAL_KILL OR signal_bit SIGNAL_STOP) \<noteq> 0"

lemma modify_pcb_cong: "f (pcbs s p) = g (pcbs s p) \<Longrightarrow> modify_pcb p f s = modify_pcb p g s"
  by (simp add: modify_pcb_def upd_pcb_def)

lemma modify_pcb_id: "f (pcbs s p) = pcbs s p \<Longrightarrow> modify_pcb p f s = s"
  by (simp add: modify_pcb_def upd_pcb_def)

lemma handle_signals_not_stopped:
  assumes "state (pcbs s p) \<noteq> PROCESS_STOPPED"
  shows "handle_process_signals p s = Some (modify_pcb p apply_signals s)"
proof -
  have "modify_pcb p apply_signals s = s" if "apply_signals (pcbs s p) = pcbs s p"
    using that by (rule modify_pcb_id)
  with assms show ?thesis
    unfolding handle_process_signals_def Let_def
    by (auto simp: apply_signals_def intro!: modify_pcb_cong)
qed

lemma apply_signals_next [simp]: "next_ready (apply_signals x) = next_ready x"
  by (simp add: apply_signals_def Let_def)

lemma apply_signals_core: "(apply_signals x)\<lparr>next_ready := None\<rparr> = apply_signals (x\<lparr>next_ready := None\<rparr>)"
  by (simp add: apply_signals_def Let_def)

lemma apply_signals_counter [simp]: "counter (apply_signals x) = counter x" "priority (apply_signals x) = priority x"
  "est_burst (apply_signals x) = est_burst x" "tickets (apply_signals x) = tickets x"
  by (simp_all add: apply_signals_def Let_def)

lemma apply_signals_state:
  "state (apply_signals x) = state x \<or> state (apply_signals x) = PROCESS_ZOMBIE \<or> state (apply_signals x) = PROCESS_STOPPED"
  by (simp add: apply_signals_def Let_def)

lemma and_swap: "(a AND b) AND c = (a AND c) AND (b :: 'a::len word)"
  by (simp add: ac_simps)

lemma apply_signals_pending: "doomed (apply_signals x) \<Longrightarrow> doomed x"
  unfolding apply_signals_def Let_def doomed_def
  by (auto simp: bit.conj_disj_distrib or_eq_0_iff and_swap [of _ "NOT (signal_bit _)"] split: if_splits)

lemma apply_signals_doomed:
  "state x = PROCESS_READY \<Longrightarrow> state (apply_signals x) = PROCESS_READY \<longleftrightarrow> \<not> doomed x"
  by (auto simp: apply_signals_def Let_def doomed_def bit.conj_disj_distrib or_eq_0_iff)

subsection \<open>The contract of a selection\<close>

text \<open>The fields no selection touches, and the kernel state outside PCBs, queues and random numbers.\<close>

definition static :: "PCB \<Rightarrow> PCB" where
  "static x = x\<lparr>state := PROCESS_READY, counter := 0, pending_signals := 0, next_ready := None\<rparr>"

definition frame :: "kernel \<Rightarrow> kernel" where
  "frame s = (rest s)\<lparr>lottery_rng_state := 0, timer_reads := 0\<rparr>"

definition selects :: "kernel \<Rightarrow> queue_contents \<Rightarrow> pcb_ptr option \<Rightarrow> kernel \<Rightarrow> queue_contents \<Rightarrow> bool" where
  "selects s Q np s' Q' \<longleftrightarrow>
     queues_rep s' Q' \<and> (\<forall>r. subseq (Q' r) (Q r)) \<and>
     (\<forall>p. queued Q p \<and> \<not> queued Q' p \<longrightarrow>
        np = Some p \<or> (doomed (pcbs s p) \<and> (state (pcbs s' p) = PROCESS_ZOMBIE \<or> state (pcbs s' p) = PROCESS_STOPPED))) \<and>
     (\<forall>p. doomed (pcbs s' p) \<longrightarrow> doomed (pcbs s p)) \<and>
     (\<forall>p. queued Q' p \<longrightarrow> state (pcbs s' p) = PROCESS_READY) \<and>
     (\<forall>p. np = Some p \<longrightarrow> queued Q p \<and> \<not> queued Q' p \<and> state (pcbs s' p) = PROCESS_READY) \<and>
     (\<forall>p. \<not> queued Q p \<longrightarrow> state (pcbs s' p) = state (pcbs s p)) \<and>
     (\<forall>p. static (pcbs s' p) = static (pcbs s p)) \<and>
     frame s' = frame s"

lemma static_fields:
  assumes "static x' = static x"
  shows "cpu_context x' = cpu_context x" "priority x' = priority x" "est_burst x' = est_burst x"
    "burst_ticks x' = burst_ticks x" "queue_priority x' = queue_priority x" "tickets x' = tickets x"
    "preempt_disabled x' = preempt_disabled x" "pid x' = pid x" "flags x' = flags x"
    "files x' = files x" "mm x' = mm x" "messages_buffer x' = messages_buffer x"
    "pid_to_wait x' = pid_to_wait x"
  using arg_cong [OF assms, of cpu_context] arg_cong [OF assms, of priority]
    arg_cong [OF assms, of est_burst] arg_cong [OF assms, of burst_ticks]
    arg_cong [OF assms, of queue_priority] arg_cong [OF assms, of tickets]
    arg_cong [OF assms, of preempt_disabled] arg_cong [OF assms, of pid]
    arg_cong [OF assms, of flags] arg_cong [OF assms, of files] arg_cong [OF assms, of mm]
    arg_cong [OF assms, of messages_buffer] arg_cong [OF assms, of pid_to_wait]
  by (simp_all add: static_def)

lemma static_simps [simp]:
  "static (apply_signals x) = static x" "static (recharge x) = static x" "static (x\<lparr>counter := n\<rparr>) = static x"
  "static (x\<lparr>state := st\<rparr>) = static x" "static (x\<lparr>next_ready := nx\<rparr>) = static x"
  by (simp_all add: static_def apply_signals_def Let_def recharge_def)

lemma static_core [simp]: "static (core h p) = static (h p)"
  by (simp add: core_def)

lemma frame_fields:
  assumes "frame s' = frame s"
  shows "current_process s' = current_process s" "processes s' = processes s"
    "n_processes s' = n_processes s" "queue_level s' = queue_level s"
    "active_algorithm s' = active_algorithm s" "ml_ticks_since_boost s' = ml_ticks_since_boost s"
    "cpu_regs s' = cpu_regs s" "ttbr0_el1 s' = ttbr0_el1 s" "irq_enabled s' = irq_enabled s"
    "phys s' = phys s" "resources s' = resources s" "uart_owner s' = uart_owner s"
    "uart_buffer s' = uart_buffer s" "uart_head s' = uart_head s" "uart_tail s' = uart_tail s" "uart_out s' = uart_out s"
  using arg_cong [OF assms, of current_process] arg_cong [OF assms, of processes]
    arg_cong [OF assms, of n_processes] arg_cong [OF assms, of queue_level]
    arg_cong [OF assms, of active_algorithm] arg_cong [OF assms, of ml_ticks_since_boost]
    arg_cong [OF assms, of cpu_regs] arg_cong [OF assms, of ttbr0_el1]
    arg_cong [OF assms, of irq_enabled] arg_cong [OF assms, of phys]
    arg_cong [OF assms, of resources] arg_cong [OF assms, of uart_owner]
    arg_cong [OF assms, of uart_buffer] arg_cong [OF assms, of uart_head]
    arg_cong [OF assms, of uart_tail] arg_cong [OF assms, of uart_out]
  by (simp_all add: frame_def rest_def)

lemma rest_frame: "rest s' = rest s \<Longrightarrow> frame s' = frame s"
  by (simp add: frame_def)

lemma frame_modify [simp]: "frame (modify_pcb p f s) = frame s"
  by (simp add: frame_def)

lemma core_state: "core h' = c \<Longrightarrow> state (h' p) = state (c p)"
  using core_fields(2) [of h' p] by simp

lemma core_static: "core h' = c \<Longrightarrow> static (h' p) = static (c p)"
  using static_core [of h' p] by simp

lemma subseq_set: "subseq xs ys \<Longrightarrow> x \<in> set xs \<Longrightarrow> x \<in> set ys"
  by (auto dest: list_emb_set)

lemma subseq_delete: "subseq (xs @ ys) (xs @ p # ys)"
  by (induction xs) auto

lemma queued_subseq: "\<forall>r. subseq (Q' r) (Q r) \<Longrightarrow> queued Q' p \<Longrightarrow> queued Q p"
  by (auto simp: queued_def dest: subseq_set)

lemma queuedI: "Q r = xs @ p # ys \<Longrightarrow> queued Q p"
  unfolding queued_def by (rule exI [of _ r]) simp

lemma selects_refl:
  assumes "queues_rep s Q" "\<forall>p. queued Q p \<longrightarrow> state (pcbs s p) = PROCESS_READY"
  shows "selects s Q None s Q"
  using assms by (simp add: selects_def)

lemma selects_trans:
  assumes "selects s Q None s1 Q1" and "selects s1 Q1 np s2 Q2"
  shows "selects s Q np s2 Q2"
proof -
  note A = assms(1) [unfolded selects_def] and B = assms(2) [unfolded selects_def]
  have sub: "\<forall>r. subseq (Q1 r) (Q r)" "\<forall>r. subseq (Q2 r) (Q1 r)" using A B by blast+
  then have s12: "\<forall>r. subseq (Q2 r) (Q r)" using subseq_order.trans by blast
  have q: "queued Q1 p \<Longrightarrow> queued Q p" "queued Q2 p \<Longrightarrow> queued Q1 p" for p
    using sub queued_subseq by blast+
  have left: "np = Some p \<or> doomed (pcbs s p) \<and> (state (pcbs s2 p) = PROCESS_ZOMBIE \<or> state (pcbs s2 p) = PROCESS_STOPPED)"
    if "queued Q p" "\<not> queued Q2 p" for p
  proof (cases "queued Q1 p")
    case False
    with that A have "doomed (pcbs s p) \<and> (state (pcbs s1 p) = PROCESS_ZOMBIE \<or> state (pcbs s1 p) = PROCESS_STOPPED)" by auto
    moreover have "state (pcbs s2 p) = state (pcbs s1 p)" using False B by blast
    ultimately show ?thesis by simp
  next
    case True
    with that B have "np = Some p \<or> doomed (pcbs s1 p) \<and> (state (pcbs s2 p) = PROCESS_ZOMBIE \<or> state (pcbs s2 p) = PROCESS_STOPPED)"
      by blast
    then show ?thesis using A by blast
  qed
  have other: "state (pcbs s2 p) = state (pcbs s p)" if "\<not> queued Q p" for p
  proof -
    have "\<not> queued Q1 p" using that q(1) by blast
    then have "state (pcbs s2 p) = state (pcbs s1 p)" using B by blast
    moreover have "state (pcbs s1 p) = state (pcbs s p)" using that A by blast
    ultimately show ?thesis by simp
  qed
  have stat: "static (pcbs s2 p) = static (pcbs s p)" for p using A B by simp
  have dm: "doomed (pcbs s2 p) \<longrightarrow> doomed (pcbs s p)" for p using A B by blast
  have fr: "frame s2 = frame s" using A B by simp
  have sel: "queued Q p \<and> \<not> queued Q2 p \<and> state (pcbs s2 p) = PROCESS_READY" if "np = Some p" for p
    using that B q(1) by blast
  show ?thesis unfolding selects_def using B s12 left other stat dm fr sel by blast
qed

text \<open>One process is unlinked and handed on, its signals having been applied before.\<close>

lemma queued_delete:
  assumes "queues_rep s Q" "Q r = xs @ p # ys"
  shows "queued (Q(r := xs @ ys)) a \<longleftrightarrow> queued Q a \<and> a \<noteq> p"
  using queues_rep_distinct [OF assms(1), of r] queues_rep_disjoint [OF assms(1), of r] assms(2)
  by (auto simp: queued_def split: if_splits) (metis Un_iff insert_iff list.set(2) set_append)+

lemma selects_take:
  assumes Q: "queues_rep s Q" and ready: "\<forall>p. queued Q p \<longrightarrow> state (pcbs s p) = PROCESS_READY"
    and Q': "queues_rep s' (Q(r := xs @ ys))" "Q r = xs @ p # ys"
    and c: "core (pcbs s') = core (pcbs s)" and fr: "frame s' = frame s"
  shows "selects s Q (Some p) s' (Q(r := xs @ ys))"
proof -
  have st: "state (pcbs s' a) = state (pcbs s a)" for a using core_eq_fields(1) [OF c] .
  have stat: "static (pcbs s' a) = static (pcbs s a)" for a using core_static [OF c, of a] by simp
  have sub: "subseq ((Q(r := xs @ ys)) a) (Q a)" for a using Q'(2) by (simp add: subseq_delete)
  have p: "queued Q p" by (rule queuedI [of Q r xs p ys, OF Q'(2)])
  have dm: "doomed (pcbs s' a) = doomed (pcbs s a)" for a using core_eq_fields(6) [OF c, of a] by (simp add: doomed_def)
  show ?thesis
    unfolding selects_def using Q'(1) sub p st ready stat dm fr queued_delete [OF Q Q'(2)] by auto
qed

text \<open>One process leaves queue \<open>r\<close> and its signals are applied.\<close>

lemma selects_one:
  assumes Q: "queues_rep s Q" and ready: "\<forall>p. queued Q p \<longrightarrow> state (pcbs s p) = PROCESS_READY"
    and Q': "queues_rep s' (Q(r := xs @ ys))" "Q r = xs @ p # ys"
    and c: "core (pcbs s') = upd_pcb p apply_signals (core (pcbs s))" and fr: "frame s' = frame s"
  shows "selects s Q (if doomed (pcbs s p) then None else Some p) s' (Q(r := xs @ ys))"
proof -
  have st: "state (pcbs s' a) = (if a = p then state (apply_signals (core (pcbs s) p)) else state (pcbs s a))" for a
    using core_state [OF c, of a] by (simp add: upd_pcb_apply)
  have p: "queued Q p" "state (pcbs s p) = PROCESS_READY" using queuedI [of Q r xs p ys, OF Q'(2)] ready by auto
  have dm: "doomed (core (pcbs s) p) \<longleftrightarrow> doomed (pcbs s p)" by (simp add: doomed_def)
  have d: "state (pcbs s' p) = PROCESS_READY \<longleftrightarrow> \<not> doomed (pcbs s p)"
    using st [of p] p apply_signals_doomed [of "core (pcbs s) p"] dm by simp
  have z: "doomed (pcbs s p) \<Longrightarrow> state (pcbs s' p) = PROCESS_ZOMBIE \<or> state (pcbs s' p) = PROCESS_STOPPED"
    using st [of p] d p apply_signals_state [of "core (pcbs s) p"] by auto
  have sub: "subseq ((Q(r := xs @ ys)) a) (Q a)" for a
    using Q'(2) by (simp add: subseq_delete)
  have np: "\<not> queued (Q(r := xs @ ys)) p"
    using queues_rep_distinct [OF Q, of r] queues_rep_disjoint [OF Q, of r] Q'(2)
    by (auto simp: queued_def split: if_splits)
  have other: "queued (Q(r := xs @ ys)) a \<longleftrightarrow> queued Q a" if "a \<noteq> p" for a
    using that Q'(2) by (auto simp: queued_def split: if_splits) (metis Q'(2) Un_iff insert_iff list.set(2) set_append)+
  have stat: "static (pcbs s' a) = static (pcbs s a)" for a
    using core_static [OF c, of a] by (simp add: upd_pcb_apply split: if_splits)
  have dmd: "doomed (pcbs s' a) \<longrightarrow> doomed (pcbs s a)" for a
    using arg_cong [OF c, of "\<lambda>f. pending_signals (f a)"] apply_signals_pending [of "core (pcbs s) p"]
    by (auto simp: upd_pcb_apply doomed_def split: if_splits)
  show ?thesis
    unfolding selects_def using Q'(1) sub np other d z p st ready stat dmd fr by (auto split: if_splits)
qed

lemma selects_step:
  assumes "queues_rep s Q" "\<forall>p. queued Q p \<longrightarrow> state (pcbs s p) = PROCESS_READY"
    and s1: "queues_rep s1 (Q(r := xs @ ys))" "Q r = xs @ p # ys"
    and c: "core (pcbs s1) = core (pcbs s)" and fr: "frame s1 = frame s"
  shows "handle_process_signals p s1 = Some (modify_pcb p apply_signals s1)"
    and "selects s Q (if doomed (pcbs s p) then None else Some p) (modify_pcb p apply_signals s1) (Q(r := xs @ ys))"
    and "state (pcbs (modify_pcb p apply_signals s1) p) = PROCESS_READY \<longleftrightarrow> \<not> doomed (pcbs s p)"
proof -
  have rd: "state (pcbs s p) = PROCESS_READY" using assms(2) queuedI [of Q r xs p ys, OF s1(2)] by blast
  then have rd1: "state (pcbs s1 p) = PROCESS_READY" using core_eq_fields(1) [OF c] by simp
  then show "handle_process_signals p s1 = Some (modify_pcb p apply_signals s1)"
    by (simp add: handle_signals_not_stopped)
  have "queues_rep (modify_pcb p apply_signals s1) (Q(r := xs @ ys))"
    by (rule queues_rep_modify [OF s1(1)]) simp
  moreover have "core (pcbs (modify_pcb p apply_signals s1)) = upd_pcb p apply_signals (core (pcbs s))"
    using c by (simp add: core_upd_core apply_signals_core)
  ultimately show "selects s Q (if doomed (pcbs s p) then None else Some p) (modify_pcb p apply_signals s1) (Q(r := xs @ ys))"
    using assms fr by (intro selects_one) simp_all
  have "doomed (pcbs s1 p) = doomed (pcbs s p)" using core_eq_fields(6) [OF c] by (simp add: doomed_def)
  then show "state (pcbs (modify_pcb p apply_signals s1) p) = PROCESS_READY \<longleftrightarrow> \<not> doomed (pcbs s p)"
    using apply_signals_doomed [OF rd1] by simp
qed

subsection \<open>Taking the first process that survives its signals\<close>

lemma selects_ready: "selects s Q np s' Q' \<Longrightarrow> queues_rep s' Q' \<and> (\<forall>p. queued Q' p \<longrightarrow> state (pcbs s' p) = PROCESS_READY)"
  by (simp add: selects_def)

lemma dequeue_runnable_selects:
  assumes "queues_rep s Q" "valid_ref r" "\<forall>p. queued Q p \<longrightarrow> state (pcbs s p) = PROCESS_READY"
  shows "\<exists>s' Q'. dequeue_runnable r s = Some (find (\<lambda>p. \<not> doomed (pcbs s p)) (Q r), s') \<and>
    selects s Q (find (\<lambda>p. \<not> doomed (pcbs s p)) (Q r)) s' Q' \<and>
    Q' = Q(r := tl (dropWhile (\<lambda>p. doomed (pcbs s p)) (Q r))) \<and> rest s' = rest s"
  using assms
proof (induction "Q r" arbitrary: s Q)
  case Nil
  obtain s1 where d: "dequeue_from r s = Some (None, s1)" "queues_rep s1 Q" "pcbs s1 = pcbs s" "rest s1 = rest s"
    using dequeue_from_empty [OF Nil.prems(1,2) Nil.hyps [symmetric]] by metis
  have "frame s1 = frame s" using d(4) by (rule rest_frame)
  with d(2,3) have "selects s Q None s1 Q" using Nil.prems(3) by (simp add: selects_def)
  moreover have "Q(r := []) = Q" using Nil.hyps by auto
  ultimately show ?case using d Nil.hyps [symmetric] by (auto simp: dequeue_runnable.simps)
next
  case (Cons p ps)
  obtain s1 where d: "dequeue_from r s = Some (Some p, s1)" "queues_rep s1 (Q(r := ps))"
    "core (pcbs s1) = core (pcbs s)" "rest s1 = rest s"
    using dequeue_from_first [OF Cons.prems(1,2) Cons.hyps(2) [symmetric]] by metis
  let ?s2 = "modify_pcb p apply_signals s1"
  have fr: "frame s1 = frame s" using d(4) by (rule rest_frame)
  have q1: "queues_rep s1 (Q(r := [] @ ps))" "Q r = [] @ p # ps" using d(2) Cons.hyps(2) by auto
  note S = selects_step [OF Cons.prems(1,3) q1 d(3) fr]
  show ?case
  proof (cases "doomed (pcbs s p)")
    case False
    then have "dequeue_runnable r s = Some (Some p, ?s2)"
      using d(1) S by (subst dequeue_runnable.simps) simp
    with S False d(4) Cons.hyps(2) [symmetric] show ?thesis by auto
  next
    case True
    let ?Q1 = "Q(r := ps)"
    have sel: "selects s Q None ?s2 ?Q1" using S(2) True by simp
    have eq: "dequeue_runnable r s = dequeue_runnable r ?s2"
      using d(1) S True by (subst dequeue_runnable.simps) simp
    have np: "p \<notin> set ps" using queues_rep_distinct [OF Cons.prems(1), of r] Cons.hyps(2) by (metis distinct.simps(2))
    have dm: "doomed (pcbs ?s2 a) = doomed (pcbs s a)" if "a \<in> set ps" for a
      using that np core_eq_fields(6) [OF d(3), of a] by (auto simp: upd_pcb_apply doomed_def)
    have cong: "find (\<lambda>p. \<not> doomed (pcbs ?s2 p)) ps = find (\<lambda>p. \<not> doomed (pcbs s p)) ps"
        "dropWhile (\<lambda>p. doomed (pcbs ?s2 p)) ps = dropWhile (\<lambda>p. doomed (pcbs s p)) ps"
      using dm by (auto intro!: find_cong dropWhile_cong)
    have "\<exists>s' Q'. dequeue_runnable r ?s2 = Some (find (\<lambda>p. \<not> doomed (pcbs ?s2 p)) (?Q1 r), s') \<and>
      selects ?s2 ?Q1 (find (\<lambda>p. \<not> doomed (pcbs ?s2 p)) (?Q1 r)) s' Q' \<and>
      Q' = ?Q1(r := tl (dropWhile (\<lambda>p. doomed (pcbs ?s2 p)) (?Q1 r))) \<and> rest s' = rest ?s2"
      using selects_ready [OF sel] Cons.prems(2) by (intro Cons.hyps(1) [where Q = ?Q1 and s = ?s2]) auto
    then obtain s' where IH: "dequeue_runnable r ?s2 = Some (find (\<lambda>p. \<not> doomed (pcbs s p)) ps, s')"
      "selects ?s2 ?Q1 (find (\<lambda>p. \<not> doomed (pcbs s p)) ps) s' (Q(r := tl (dropWhile (\<lambda>p. doomed (pcbs s p)) ps)))"
      "rest s' = rest ?s2" unfolding fun_upd_same cong fun_upd_upd by blast
    from selects_trans [OF sel IH(2)] IH(1,3) eq True Cons.hyps(2) [symmetric] d(4)
    show ?thesis by auto
  qed
qed

end
