(* ===== verification/Scheduler_Policies.thy ===== *)
theory Scheduler_Policies
  imports Scheduler_Selection
begin

section \<open>Lottery and priority-aging selection\<close>

text \<open>
  The two algorithms that take a process out of the middle of the ready queue. For the lottery:
  the draw picks the process whose ticket interval contains the winning number, every process wins
  exactly as many of the possible numbers as it holds tickets, and the repeated draw ends. For
  priority aging: a pass over the queue finds a process with the largest positive counter, and the
  epoch loop ends because every recharge raises the exhausted counters.
\<close>

definition hd_opt :: "'a list \<Rightarrow> 'a option" where
  "hd_opt xs = (case xs of [] \<Rightarrow> None | x # _ \<Rightarrow> Some x)"

definition last_opt :: "'a list \<Rightarrow> 'a option" where
  "last_opt xs = (if xs = [] then None else Some (last xs))"

lemma hd_opt_simps [simp]: "hd_opt [] = None" "hd_opt (x # xs) = Some x"
  by (simp_all add: hd_opt_def)

lemma last_opt_simps [simp]: "last_opt [] = None" "last_opt (xs @ [x]) = Some x"
  by (simp_all add: last_opt_def)

lemma last_opt_Cons: "last_opt (x # xs) = (if xs = [] then Some x else last_opt xs)"
  by (simp add: last_opt_def)

lemma chain_hd: "chain nxt p xs None \<Longrightarrow> p = hd_opt xs"
  by (cases xs) auto

lemma chain_next: "chain nxt p (us @ x # vs) None \<Longrightarrow> nxt x = hd_opt vs"
  by (auto simp: chain_split dest: chain_hd)

lemma ready_chain:
  assumes "queues_rep s Q"
  shows "chain (links (pcbs s)) (q_head (ready_queue s)) (Q Ready_queue) None"
proof -
  obtain q where "get_queue Ready_queue s = Some q" "queue_rep (pcbs s) q (Q Ready_queue)"
    by (rule queues_repD [OF assms]) (auto simp: valid_ref_def)
  then show ?thesis by (simp add: get_queue_def queue_rep_def)
qed

subsection \<open>Lottery: tickets and the winning interval\<close>

definition ticket_sum :: "pcb_heap \<Rightarrow> pcb_ptr list \<Rightarrow> int" where
  "ticket_sum h xs = (\<Sum>x\<leftarrow>xs. effective_tickets (h x))"

lemma ticket_sum_simps [simp]:
  "ticket_sum h [] = 0" "ticket_sum h (x # xs) = effective_tickets (h x) + ticket_sum h xs"
  "ticket_sum h (xs @ ys) = ticket_sum h xs + ticket_sum h ys"
  by (simp_all add: ticket_sum_def)

lemma effective_tickets_pos: "1 \<le> effective_tickets x"
  by (simp add: effective_tickets_def)

lemma ticket_sum_ge: "int (length xs) \<le> ticket_sum h xs"
  by (induction xs) (auto intro: add_mono effective_tickets_pos simp: add.commute)

lemma ticket_sum_nonneg [simp]: "0 \<le> ticket_sum h xs"
  using ticket_sum_ge [of xs h] by linarith

lemma ticket_sum_0: "ticket_sum h xs = 0 \<longleftrightarrow> xs = []"
  using ticket_sum_ge [of xs h] by (cases xs) auto

lemma total_tickets_chain:
  assumes "chain (links h) p xs None" and "acc + ticket_sum h xs < 2 ^ 63"
  shows "total_tickets h p acc = Some (acc + ticket_sum h xs)"
  using assms
proof (induction xs arbitrary: p acc)
  case Nil
  then show ?case by (simp add: total_tickets.simps)
next
  case (Cons x xs)
  have "acc + effective_tickets (h x) < 2 ^ 63"
    using Cons.prems(2) ticket_sum_nonneg [of h xs] unfolding ticket_sum_simps by linarith
  with Cons show ?case by (subst total_tickets.simps) (simp add: Let_def links_def add.assoc)
qed

lemma lottery_walk_chain:
  assumes "chain (links h) p (us @ c # vs) None"
    and "acc + ticket_sum h us \<le> winner" and "winner < acc + ticket_sum h us + effective_tickets (h c)"
  shows "lottery_walk h winner acc prev p = Some (if us = [] then prev else last_opt us, Some c)"
  using assms
proof (induction us arbitrary: p acc prev)
  case Nil
  then show ?case by (simp add: lottery_walk.simps Let_def)
next
  case (Cons u us)
  have "\<not> acc + effective_tickets (h u) > winner"
    using Cons.prems(2) ticket_sum_nonneg [of h us] unfolding ticket_sum_simps by linarith
  with Cons show ?case
    by (subst lottery_walk.simps) (auto simp: Let_def links_def last_opt_Cons)
qed

lemma ticket_interval:
  assumes "0 \<le> w" "w < ticket_sum h xs"
  shows "\<exists>us c vs. xs = us @ c # vs \<and> ticket_sum h us \<le> w \<and> w < ticket_sum h us + effective_tickets (h c)"
  using assms
proof (induction xs arbitrary: w)
  case (Cons x xs)
  show ?case
  proof (cases "w < effective_tickets (h x)")
    case True
    with Cons.prems show ?thesis by (intro exI [of _ "[]"]) auto
  next
    case False
    with Cons.prems Cons.IH [of "w - effective_tickets (h x)"] obtain us c vs where
      "xs = us @ c # vs" "ticket_sum h us \<le> w - effective_tickets (h x)"
      "w - effective_tickets (h x) < ticket_sum h us + effective_tickets (h c)" by auto
    then show ?thesis by (intro exI [of _ "x # us"] exI [of _ c] exI [of _ vs]) auto
  qed
qed simp

text \<open>The draw is proportional: a process wins exactly \<open>tickets\<close> of the possible numbers.\<close>

lemma lottery_share:
  assumes "chain (links h) p xs None" and "c \<in> set xs"
  shows "card {w. 0 \<le> w \<and> w < ticket_sum h xs \<and> (\<exists>pr. lottery_walk h w 0 None p = Some (pr, Some c))}
         = nat (effective_tickets (h c))"
proof -
  obtain us vs where xs: "xs = us @ c # vs" using assms(2) by (auto simp: in_set_conv_decomp)
  have d: "distinct xs" using assms(1) by (rule chain_distinct)
  have "(0 \<le> w \<and> w < ticket_sum h xs \<and> (\<exists>pr. lottery_walk h w 0 None p = Some (pr, Some c))) \<longleftrightarrow>
        w \<in> {ticket_sum h us ..< ticket_sum h us + effective_tickets (h c)}" for w
  proof
    assume a: "0 \<le> w \<and> w < ticket_sum h xs \<and> (\<exists>pr. lottery_walk h w 0 None p = Some (pr, Some c))"
    then obtain us' c' vs' where i: "xs = us' @ c' # vs'" "ticket_sum h us' \<le> w"
      "w < ticket_sum h us' + effective_tickets (h c')" using ticket_interval by blast
    then have "lottery_walk h w 0 None p = Some (if us' = [] then None else last_opt us', Some c')"
      using assms(1) by (intro lottery_walk_chain) auto
    with a have "c' = c" by auto
    moreover have "us' = us" using distinct_split_unique [of us' c vs' us vs] d xs i(1) \<open>c' = c\<close> by simp
    ultimately show "w \<in> {ticket_sum h us ..< ticket_sum h us + effective_tickets (h c)}" using i by simp
  next
    assume a: "w \<in> {ticket_sum h us ..< ticket_sum h us + effective_tickets (h c)}"
    then have "lottery_walk h w 0 None p = Some (if us = [] then None else last_opt us, Some c)"
      using assms(1) xs by (intro lottery_walk_chain) auto
    moreover have "0 \<le> w" using a ticket_sum_nonneg [of h us] by (simp del: ticket_sum_nonneg)
    moreover have "w < ticket_sum h xs" using a xs ticket_sum_nonneg [of h vs] by (simp del: ticket_sum_nonneg)
    ultimately show "0 \<le> w \<and> w < ticket_sum h xs \<and> (\<exists>pr. lottery_walk h w 0 None p = Some (pr, Some c))"
      by blast
  qed
  then have "{w. 0 \<le> w \<and> w < ticket_sum h xs \<and> (\<exists>pr. lottery_walk h w 0 None p = Some (pr, Some c))}
    = {ticket_sum h us ..< ticket_sum h us + effective_tickets (h c)}" by blast
  then show ?thesis by simp
qed

subsection \<open>The random number generator\<close>

lemma xor_zero_eq:
  fixes x y :: "'a::len word"
  assumes "x XOR y = 0"
  shows "x = y"
  using arg_cong [OF assms, of "\<lambda>z. z XOR y"] by (simp add: xor.assoc)

lemma xor_push_bit_zero:
  fixes x :: "64 word"
  assumes "x XOR push_bit k x = 0" "0 < k"
  shows "x = 0"
proof (rule bit_eqI)
  fix n assume "possible_bit TYPE(64 word) n"
  from assms(1) have eq: "x = push_bit k x" by (rule xor_zero_eq)
  have "\<not> bit x n" for n
  proof (induction n rule: less_induct)
    case (less n)
    have "bit x n \<longleftrightarrow> bit (push_bit k x) n" using eq by simp
    with less assms(2) show ?case by (auto simp: bit_push_bit_iff)
  qed
  then show "bit x n = bit 0 n" by simp
qed

lemma xor_drop_bit_zero:
  fixes x :: "64 word"
  assumes "x XOR drop_bit k x = 0" "0 < k"
  shows "x = 0"
proof (rule bit_eqI)
  fix n assume "possible_bit TYPE(64 word) n"
  from assms(1) have eq: "x = drop_bit k x" by (rule xor_zero_eq)
  have "bit x n \<Longrightarrow> bit x (n + m * k)" for m
  proof (induction m)
    case (Suc m)
    then have "bit (drop_bit k x) (n + m * k)" using eq by simp
    then show ?case by (simp add: bit_drop_bit_eq algebra_simps)
  qed simp
  moreover have "\<not> bit x (n + 64 * k)" using assms(2) by (auto dest!: bit_imp_le_length)
  ultimately show "bit x n = bit 0 n" by auto
qed

lemma xorshift64_nonzero: "x \<noteq> 0 \<Longrightarrow> xorshift64 x \<noteq> 0"
  unfolding xorshift64_def Let_def
  using xor_push_bit_zero [where k = 13] xor_drop_bit_zero [where k = 7] xor_push_bit_zero [where k = 17]
  by (metis zero_less_numeral)

lemma lottery_random_nonzero: "fst (lottery_random s) \<noteq> 0 \<and> lottery_rng_state (snd (lottery_random s)) \<noteq> 0"
  by (auto simp: lottery_random_def Let_def mmio_read_clo_def xorshift64_nonzero)

lemma lottery_random_state:
  assumes "lottery_random s = (r, s1)"
  shows "pcbs s1 = pcbs s" "ready_queue s1 = ready_queue s" "ml_queues s1 = ml_queues s" "frame s1 = frame s"
  using assms by (auto simp: lottery_random_def mmio_read_clo_def Let_def frame_def rest_def)

subsection \<open>The repeated draw\<close>

lemma winner_range:
  fixes r :: "64 word"
  assumes "0 < tot" "tot < 2 ^ 63"
  shows "uint (r mod word_of_int tot) = uint r mod tot"
proof -
  have "uint (word_of_int tot :: 64 word) = tot"
    using assms by (simp add: uint_word_of_int)
  then show ?thesis by (simp add: uint_mod_distrib)
qed

lemma selects_tickets: "selects s Q np s' Q' \<Longrightarrow> effective_tickets (pcbs s' p) = effective_tickets (pcbs s p)"
proof -
  assume "selects s Q np s' Q'"
  then have "static (pcbs s' p) = static (pcbs s p)" by (simp add: selects_def)
  from static_fields(6) [OF this] show ?thesis by (simp add: effective_tickets_def)
qed

lemma ticket_sum_subseq: "subseq xs ys \<Longrightarrow> ticket_sum h xs \<le> ticket_sum h ys"
proof (induction rule: list_emb.induct)
  case (list_emb_Cons xs ys y)
  then show ?case using effective_tickets_pos [of "h y"] by simp
qed auto

lemma ticket_sum_cong: "(\<And>x. x \<in> set xs \<Longrightarrow> effective_tickets (h x) = effective_tickets (h' x)) \<Longrightarrow> ticket_sum h xs = ticket_sum h' xs"
  by (induction xs) auto

lemma selects_ticket_sum:
  assumes "selects s Q np s' Q'"
  shows "ticket_sum (pcbs s') (Q' r) \<le> ticket_sum (pcbs s) (Q r)"
proof -
  have "ticket_sum (pcbs s') (Q' r) = ticket_sum (pcbs s) (Q' r)"
    using selects_tickets [OF assms] by (intro ticket_sum_cong) simp
  also have "\<dots> \<le> ticket_sum (pcbs s) (Q r)"
    using assms by (intro ticket_sum_subseq) (simp add: selects_def)
  finally show ?thesis .
qed

text \<open>One draw: the winner leaves the queue and its signals are handled.\<close>

lemma lottery_draw_once:
  assumes Q: "queues_rep s Q" and ready: "\<forall>p. queued Q p \<longrightarrow> state (pcbs s p) = PROCESS_READY"
    and ne: "Q Ready_queue \<noteq> []" and sum: "ticket_sum (pcbs s) (Q Ready_queue) < 2 ^ 63"
  obtains us c vs s3 where "Q Ready_queue = us @ c # vs"
    "selects s Q (if doomed (pcbs s c) then None else Some c) s3 (Q(Ready_queue := us @ vs))"
    "lottery_draw s = (if doomed (pcbs s c) then lottery_draw s3 else Some (Some c, s3))"
    "ticket_sum (pcbs s) us \<le> uint (fst (lottery_random s)) mod ticket_sum (pcbs s) (Q Ready_queue)"
    "uint (fst (lottery_random s)) mod ticket_sum (pcbs s) (Q Ready_queue) < ticket_sum (pcbs s) us + effective_tickets (pcbs s c)"
proof -
  let ?T = "ticket_sum (pcbs s) (Q Ready_queue)"
  have Tpos: "0 < ?T" using ticket_sum_0 [of "pcbs s" "Q Ready_queue"] ticket_sum_nonneg [of "pcbs s" "Q Ready_queue"] ne
    by (simp del: ticket_sum_nonneg)
  obtain r s1 where lr: "lottery_random s = (r, s1)" by (cases "lottery_random s")
  note S1 = lottery_random_state [OF lr]
  have Q1: "queues_rep s1 Q" by (rule queues_rep_links [OF Q]) (simp_all add: S1)
  have ch: "chain (links (pcbs s)) (q_head (ready_queue s)) (Q Ready_queue) None" by (rule ready_chain [OF Q])
  have tot: "total_tickets (pcbs s) (q_head (ready_queue s)) 0 = Some ?T"
    using total_tickets_chain [OF ch, of 0] sum by simp
  let ?w = "uint r mod ?T"
  have w: "uint (r mod word_of_int ?T) = ?w" using Tpos sum by (rule winner_range)
  obtain us c vs where sp: "Q Ready_queue = us @ c # vs" "ticket_sum (pcbs s) us \<le> ?w"
      "?w < ticket_sum (pcbs s) us + effective_tickets (pcbs s c)"
    using ticket_interval [of ?w "pcbs s" "Q Ready_queue"] Tpos by auto
  have walk: "lottery_walk (pcbs s1) ?w 0 None (q_head (ready_queue s1)) = Some (last_opt us, Some c)"
    using lottery_walk_chain [of "pcbs s" "q_head (ready_queue s)" us c vs 0 ?w None] ch sp S1
    by (auto simp: last_opt_def)
  obtain s2 where rm: "remove_from Ready_queue (last_opt us) c s1 = Some s2"
      "queues_rep s2 (Q(Ready_queue := us @ vs))" "core (pcbs s2) = core (pcbs s1)" "rest s2 = rest s1"
    using remove_from_spec [OF Q1 _ sp(1), of "last_opt us"] by (auto simp: valid_ref_def last_opt_def)
  have fr: "frame s2 = frame s" using rest_frame [OF rm(4)] S1(4) by simp
  have c2: "core (pcbs s2) = core (pcbs s)" using rm(3) S1(1) by simp
  note S = selects_step [OF Q ready rm(2) sp(1) c2 fr]
  have "lottery_draw s = (if doomed (pcbs s c) then lottery_draw (modify_pcb c apply_signals s2)
      else Some (Some c, modify_pcb c apply_signals s2))"
    using tot lr Tpos w walk rm(1) S(1,3) by (subst lottery_draw.simps) simp
  then show thesis using that [OF sp(1) S(2)] sp lr by simp
qed

lemma lottery_draw_selects:
  assumes "queues_rep s Q" "\<forall>p. queued Q p \<longrightarrow> state (pcbs s p) = PROCESS_READY"
    and "ticket_sum (pcbs s) (Q Ready_queue) < 2 ^ 63"
  shows "\<exists>np s' Q'. lottery_draw s = Some (np, s') \<and> selects s Q np s' Q' \<and> (np = None \<longrightarrow> Q' Ready_queue = [])"
  using assms
proof (induction "length (Q Ready_queue)" arbitrary: s Q rule: less_induct)
  case less
  show ?case
  proof (cases "Q Ready_queue = []")
    case True
    then have "total_tickets (pcbs s) (q_head (ready_queue s)) 0 = Some 0"
      using total_tickets_chain [OF ready_chain [OF less.prems(1)], of 0] by simp
    then have "lottery_draw s = Some (None, s)" by (subst lottery_draw.simps) simp
    with True selects_refl [OF less.prems(1,2)] show ?thesis by blast
  next
    case False
    obtain us c vs s3 where d: "Q Ready_queue = us @ c # vs"
      "selects s Q (if doomed (pcbs s c) then None else Some c) s3 (Q(Ready_queue := us @ vs))"
      "lottery_draw s = (if doomed (pcbs s c) then lottery_draw s3 else Some (Some c, s3))"
      by (rule lottery_draw_once [OF less.prems(1,2) False less.prems(3)])
    show ?thesis
    proof (cases "doomed (pcbs s c)")
      case True
      let ?Q1 = "Q(Ready_queue := us @ vs)"
      from d(2) True have sel: "selects s Q None s3 ?Q1" by simp
      have "\<exists>np s' Q'. lottery_draw s3 = Some (np, s') \<and> selects s3 ?Q1 np s' Q' \<and> (np = None \<longrightarrow> Q' Ready_queue = [])"
      proof (rule less.hyps)
        show "length (?Q1 Ready_queue) < length (Q Ready_queue)" using d(1) by simp
        show "ticket_sum (pcbs s3) (?Q1 Ready_queue) < 2 ^ 63"
          using selects_ticket_sum [OF sel, of Ready_queue] less.prems(3) by linarith
      qed (use selects_ready [OF sel] in auto)
      with selects_trans [OF sel] d(3) True show ?thesis by metis
    next
      case False
      with d(2,3) show ?thesis by auto
    qed
  qed
qed

subsection \<open>Priority aging: one pass over the queue\<close>

text \<open>The list counterpart of the search for the largest counter.\<close>

primrec best_counter :: "('a \<Rightarrow> int) \<Rightarrow> 'a option \<Rightarrow> int \<Rightarrow> 'a list \<Rightarrow> 'a option" where
  "best_counter f b m [] = b"
| "best_counter f b m (x # xs) =
     (if f x > m then best_counter f (Some x) (f x) xs else best_counter f b m xs)"

lemma best_counter_cong: "(\<And>x. x \<in> set xs \<Longrightarrow> f x = g x) \<Longrightarrow> best_counter f b m xs = best_counter g b m xs"
  by (induction xs arbitrary: b m) auto

lemma best_counter_None: "best_counter f b m xs = None \<longleftrightarrow> b = None \<and> (\<forall>x \<in> set xs. f x \<le> m)"
  by (induction xs arbitrary: b m) force+

lemma best_counter_max:
  assumes "best_counter f b m xs = Some y" and "\<And>z. b = Some z \<Longrightarrow> f z = m"
  shows "m \<le> f y \<and> (\<forall>x \<in> set xs. f x \<le> f y) \<and> (y \<in> set xs \<and> m < f y \<or> b = Some y)"
  using assms by (induction xs arbitrary: b m) (force split: if_splits)+

lemma selects_signal:
  assumes Q: "queues_rep s Q" and ready: "\<forall>p. queued Q p \<longrightarrow> state (pcbs s p) = PROCESS_READY"
    and p: "queued Q p" "\<not> doomed (pcbs s p)"
  shows "selects s Q None (modify_pcb p apply_signals s) Q"
proof -
  have "state (apply_signals (pcbs s p)) = PROCESS_READY"
    using apply_signals_doomed [of "pcbs s p"] ready p by simp
  moreover have "queues_rep (modify_pcb p apply_signals s) Q" by (rule queues_rep_modify [OF Q]) simp
  ultimately show ?thesis using ready p apply_signals_pending [of "pcbs s p"] by (auto simp: selects_def upd_pcb_apply)
qed

lemma aging_scan_spec:
  fixes mx :: int
  assumes "queues_rep s Q" "\<forall>p. queued Q p \<longrightarrow> state (pcbs s p) = PROCESS_READY"
    and "Q Ready_queue = kept @ xs"
    and "\<forall>b. best = Some b \<longrightarrow> (\<exists>us vs. kept = us @ b # vs \<and> bprev = last_opt us)"
  defines "ys \<equiv> filter (\<lambda>p. \<not> doomed (pcbs s p)) xs"
  defines "best' \<equiv> best_counter (\<lambda>p. counter (pcbs s p)) best mx ys"
  shows "\<exists>s' bprev'. aging_scan (hd_opt xs) (last_opt kept) best bprev mx s = Some (best', bprev', s') \<and>
    selects s Q None s' (Q(Ready_queue := kept @ ys)) \<and> rest s' = rest s \<and>
    (\<forall>p. counter (pcbs s' p) = counter (pcbs s p)) \<and>
    (\<forall>b. best' = Some b \<longrightarrow> (\<exists>us vs. kept @ ys = us @ b # vs \<and> bprev' = last_opt us))"
  using assms(1-4) unfolding ys_def best'_def
proof (induction xs arbitrary: s Q kept best bprev mx)
  case Nil
  have "Q(Ready_queue := kept) = Q" using Nil.prems(3) by auto
  with Nil selects_refl [OF Nil.prems(1,2)] show ?case by (auto simp: aging_scan.simps)
next
  case (Cons n xs)
  let ?s1 = "modify_pcb n apply_signals s"
  have v: "valid_ref Ready_queue" by (simp add: valid_ref_def)
  have qn: "queued Q n" using queuedI [of Q Ready_queue kept n xs] Cons.prems(3) by simp
  have rn: "state (pcbs s n) = PROCESS_READY" using qn Cons.prems(2) by blast
  have nx: "next_ready (pcbs s n) = hd_opt xs"
    using chain_next [of "links (pcbs s)" _ kept n xs] ready_chain [OF Cons.prems(1)] Cons.prems(3)
    by (simp add: links_def)
  have hs: "handle_process_signals n s = Some ?s1" using rn by (simp add: handle_signals_not_stopped)
  have dis: "n \<notin> set xs" using queues_rep_distinct [OF Cons.prems(1), of Ready_queue] Cons.prems(3) by simp
  have st: "state (pcbs ?s1 n) = PROCESS_READY \<longleftrightarrow> \<not> doomed (pcbs s n)"
    using apply_signals_doomed [OF rn] by simp
  have Q1: "queues_rep ?s1 Q" by (rule queues_rep_modify [OF Cons.prems(1)]) simp
  show ?case
  proof (cases "doomed (pcbs s n)")
    case True
    obtain s2 where rm: "remove_from Ready_queue (last_opt kept) n ?s1 = Some s2"
        "queues_rep s2 (Q(Ready_queue := kept @ xs))" "core (pcbs s2) = core (pcbs ?s1)" "rest s2 = rest ?s1"
      using remove_from_spec [OF Q1 v Cons.prems(3), of "last_opt kept"] by (auto simp: last_opt_def)
    let ?Q1 = "Q(Ready_queue := kept @ xs)"
    have c: "core (pcbs s2) = upd_pcb n apply_signals (core (pcbs s))"
      using rm(3) by (simp add: core_upd_core apply_signals_core)
    have fr: "frame s2 = frame s" using rest_frame [OF rm(4)] by simp
    have sel: "selects s Q None s2 ?Q1"
      using selects_one [OF Cons.prems(1,2) rm(2) Cons.prems(3) c fr] True by simp
    have cnt: "counter (pcbs s2 p) = counter (pcbs s p)" for p
      using core_eq_fields(4) [OF rm(3), of p] by (simp add: upd_pcb_apply split: if_splits)
    have dm: "doomed (pcbs s2 p) = doomed (pcbs s p)" if "p \<in> set xs" for p
      using that dis core_eq_fields(6) [OF rm(3), of p] by (auto simp: doomed_def upd_pcb_apply)
    have fl: "filter (\<lambda>p. \<not> doomed (pcbs s2 p)) xs = filter (\<lambda>p. \<not> doomed (pcbs s p)) xs"
      using dm by (auto intro: filter_cong)
    have eq: "aging_scan (hd_opt (n # xs)) (last_opt kept) best bprev mx s = aging_scan (hd_opt xs) (last_opt kept) best bprev mx s2"
      using hs st True rm(1) nx by (subst aging_scan.simps) (simp add: Let_def)
    from selects_ready [OF sel] have "queues_rep s2 ?Q1" "\<forall>p. queued ?Q1 p \<longrightarrow> state (pcbs s2 p) = PROCESS_READY" by auto
    from Cons.IH [OF this fun_upd_same Cons.prems(4), where mx = mx] obtain s' bprev' where
      IH: "aging_scan (hd_opt xs) (last_opt kept) best bprev mx s2 =
             Some (best_counter (\<lambda>p. counter (pcbs s p)) best mx (filter (\<lambda>p. \<not> doomed (pcbs s p)) xs), bprev', s')"
        "selects s2 ?Q1 None s' (?Q1(Ready_queue := kept @ filter (\<lambda>p. \<not> doomed (pcbs s p)) xs))"
        "rest s' = rest s2" "\<forall>p. counter (pcbs s' p) = counter (pcbs s p)"
        "\<forall>b. best_counter (\<lambda>p. counter (pcbs s p)) best mx (filter (\<lambda>p. \<not> doomed (pcbs s p)) xs) = Some b \<longrightarrow>
           (\<exists>us vs. kept @ filter (\<lambda>p. \<not> doomed (pcbs s p)) xs = us @ b # vs \<and> bprev' = last_opt us)"
      unfolding fl cnt fun_upd_upd by blast
    have fn: "filter (\<lambda>p. \<not> doomed (pcbs s p)) (n # xs) = filter (\<lambda>p. \<not> doomed (pcbs s p)) xs" using True by simp
    have "rest s' = rest s" using IH(3) rm(4) by simp
    then show ?thesis unfolding fn eq
      using IH(1,4,5) selects_trans [OF sel IH(2) [unfolded fun_upd_upd]] by blast
  next
    case False
    have sel: "selects s Q None ?s1 Q" by (rule selects_signal [OF Cons.prems(1,2) qn False])
    have cnt: "counter (pcbs ?s1 p) = counter (pcbs s p)" for p by (simp add: upd_pcb_apply)
    have dm: "doomed (pcbs ?s1 p) = doomed (pcbs s p)" if "p \<in> set xs" for p
      using that dis by (auto simp: upd_pcb_apply)
    have fl: "filter (\<lambda>p. \<not> doomed (pcbs ?s1 p)) xs = filter (\<lambda>p. \<not> doomed (pcbs s p)) xs"
      using dm by (auto intro: filter_cong)
    let ?c = "counter (pcbs s n)"
    let ?b = "if ?c > mx then Some n else best"
    let ?bp = "if ?c > mx then last_opt kept else bprev"
    let ?m = "if ?c > mx then ?c else mx"
    have eq: "aging_scan (hd_opt (n # xs)) (last_opt kept) best bprev mx s = aging_scan (hd_opt xs) (last_opt (kept @ [n])) ?b ?bp ?m ?s1"
      using hs st False nx by (subst aging_scan.simps) (simp add: Let_def)
    from selects_ready [OF sel] have r: "queues_rep ?s1 Q" "\<forall>p. queued Q p \<longrightarrow> state (pcbs ?s1 p) = PROCESS_READY" by auto
    have k: "Q Ready_queue = (kept @ [n]) @ xs" using Cons.prems(3) by simp
    have "\<exists>us vs. kept @ [n] = us @ b # vs \<and> ?bp = last_opt us" if "?b = Some b" for b
    proof (cases "?c > mx")
      case True
      with that show ?thesis by auto
    next
      case False
      with that Cons.prems(4) obtain us vs where "kept = us @ b # vs" "bprev = last_opt us" by auto
      then have "kept @ [n] = us @ b # (vs @ [n])" "?bp = last_opt us" using False by simp_all
      then show ?thesis by blast
    qed
    then have bp: "\<forall>b. ?b = Some b \<longrightarrow> (\<exists>us vs. kept @ [n] = us @ b # vs \<and> ?bp = last_opt us)" by blast
    from Cons.IH [OF r k bp, where mx = ?m] obtain s' bprev' where
      IH: "aging_scan (hd_opt xs) (last_opt (kept @ [n])) ?b ?bp ?m ?s1 =
             Some (best_counter (\<lambda>p. counter (pcbs s p)) ?b ?m (filter (\<lambda>p. \<not> doomed (pcbs s p)) xs), bprev', s')"
        "selects ?s1 Q None s' (Q(Ready_queue := (kept @ [n]) @ filter (\<lambda>p. \<not> doomed (pcbs s p)) xs))"
        "rest s' = rest ?s1" "\<forall>p. counter (pcbs s' p) = counter (pcbs s p)"
        "\<forall>b. best_counter (\<lambda>p. counter (pcbs s p)) ?b ?m (filter (\<lambda>p. \<not> doomed (pcbs s p)) xs) = Some b \<longrightarrow>
           (\<exists>us vs. (kept @ [n]) @ filter (\<lambda>p. \<not> doomed (pcbs s p)) xs = us @ b # vs \<and> bprev' = last_opt us)"
      unfolding fl cnt by blast
    have bc: "best_counter (\<lambda>p. counter (pcbs s p)) best mx (filter (\<lambda>p. \<not> doomed (pcbs s p)) (n # xs)) =
        best_counter (\<lambda>p. counter (pcbs s p)) ?b ?m (filter (\<lambda>p. \<not> doomed (pcbs s p)) xs)" using False by simp
    have ks: "kept @ filter (\<lambda>p. \<not> doomed (pcbs s p)) (n # xs) = (kept @ [n]) @ filter (\<lambda>p. \<not> doomed (pcbs s p)) xs"
      using False by simp
    have "rest s' = rest s" using IH(3) by simp
    then show ?thesis unfolding bc ks eq using IH(1,4,5) selects_trans [OF sel IH(2)] by blast
  qed
qed

end
