(* ===== verification/Scheduler_Aging.thy ===== *)
theory Scheduler_Aging
  imports Scheduler_Policies
begin

section \<open>Priority aging: the epoch loop\<close>

text \<open>
  \<^verbatim>\<open>_schedule_priority_aging\<close> scans the ready queue for the largest positive counter and, when there
  is none, recharges every counter and scans again. The loop is shown to end for every queue of
  registered processes with positive priority, and to select a process whose counter is the largest.
\<close>

subsection \<open>Recharging\<close>

abbreviation recharge_slot :: "pcb_ptr option \<Rightarrow> pcb_heap \<Rightarrow> pcb_heap" where
  "recharge_slot \<equiv> \<lambda>slot h. case slot of None \<Rightarrow> h | Some p \<Rightarrow> upd_pcb p recharge h"

lemma recharge_fields [simp]:
  "next_ready (recharge x) = next_ready x" "state (recharge x) = state x" "priority (recharge x) = priority x"
  "pending_signals (recharge x) = pending_signals x" "counter (recharge x) = counter x div 2 + priority x"
  by (simp_all add: recharge_def)

lemma recharge_pow_fields [simp]:
  "next_ready ((recharge ^^ k) x) = next_ready x" "state ((recharge ^^ k) x) = state x"
  "pending_signals ((recharge ^^ k) x) = pending_signals x" "priority ((recharge ^^ k) x) = priority x" "static ((recharge ^^ k) x) = static x"
  by (induction k) simp_all

lemma fold_recharge_slot: "fold recharge_slot tbl h p = (recharge ^^ count_list tbl (Some p)) (h p)"
proof (induction tbl arbitrary: h)
  case (Cons a tbl)
  then show ?case
    by (cases a) (auto simp: upd_pcb_apply funpow_swap1)
qed simp

lemma aging_recharge_pcbs: "pcbs (aging_recharge s) p = (recharge ^^ count_list (processes s) (Some p)) (pcbs s p)"
  by (simp add: aging_recharge_def fold_recharge_slot)

lemma aging_recharge_rest [simp]:
  "rest (aging_recharge s) = rest s" "ready_queue (aging_recharge s) = ready_queue s"
  "ml_queues (aging_recharge s) = ml_queues s" "processes (aging_recharge s) = processes s"
  by (simp_all add: aging_recharge_def)

lemma aging_recharge_links: "links (pcbs (aging_recharge s)) = links (pcbs s)"
  by (rule ext) (simp add: links_def aging_recharge_pcbs)

lemma aging_recharge_selects:
  assumes "queues_rep s Q" "\<forall>p. queued Q p \<longrightarrow> state (pcbs s p) = PROCESS_READY"
  shows "selects s Q None (aging_recharge s) Q"
proof -
  have "queues_rep (aging_recharge s) Q"
    by (rule queues_rep_links [OF assms(1) aging_recharge_links]) simp_all
  moreover have "frame (aging_recharge s) = frame s" by (rule rest_frame) simp
  ultimately show ?thesis using assms(2) by (simp add: selects_def aging_recharge_pcbs doomed_def)
qed

subsection \<open>Termination and outcome of the epoch loop\<close>

definition registered :: "kernel \<Rightarrow> pcb_ptr \<Rightarrow> bool" where
  "registered s p \<longleftrightarrow> count_list (processes s) (Some p) = 1 \<and> 1 \<le> priority (pcbs s p)"

definition exhaustion :: "kernel \<Rightarrow> pcb_ptr list \<Rightarrow> nat" where
  "exhaustion s xs = (\<Sum>p\<leftarrow>xs. nat (1 - counter (pcbs s p)))"

lemma selects_registered:
  assumes "selects s Q np s' Q'"
  shows "registered s' p = registered s p"
proof -
  from assms have "static (pcbs s' p) = static (pcbs s p)" "frame s' = frame s" by (auto simp: selects_def)
  from static_fields(2) [OF this(1)] frame_fields(2) [OF this(2)] show ?thesis by (simp add: registered_def)
qed

lemma exhaustion_recharge:
  assumes "xs \<noteq> []" "\<forall>p \<in> set xs. counter (pcbs s p) \<le> 0 \<and> registered s p"
  shows "exhaustion (aging_recharge s) xs < exhaustion s xs"
proof -
  have step: "nat (1 - counter (pcbs (aging_recharge s) p)) < nat (1 - counter (pcbs s p))" if "p \<in> set xs" for p
  proof -
    from that assms(2) have "counter (pcbs s p) \<le> 0" "1 \<le> priority (pcbs s p)"
      "count_list (processes s) (Some p) = 1" by (auto simp: registered_def)
    then show ?thesis by (simp add: aging_recharge_pcbs)
  qed
  obtain y ys where xs: "xs = y # ys" using assms(1) by (cases xs) auto
  have "exhaustion (aging_recharge s) ys \<le> exhaustion s ys"
    unfolding exhaustion_def using step xs by (intro sum_list_mono) (simp add: less_imp_le)
  moreover have "nat (1 - counter (pcbs (aging_recharge s) y)) < nat (1 - counter (pcbs s y))"
    using step xs by simp
  ultimately show ?thesis unfolding xs exhaustion_def list.map sum_list.Cons by linarith
qed

lemma exhaustion_subseq: "subseq xs ys \<Longrightarrow> exhaustion s xs \<le> exhaustion s ys"
  unfolding exhaustion_def by (induction rule: list_emb.induct) auto

text \<open>The result of a selection by priority aging: the largest counter, which is positive.\<close>

definition aging_choice :: "kernel \<Rightarrow> queue_contents \<Rightarrow> pcb_ptr option \<Rightarrow> bool" where
  "aging_choice s Q np \<longleftrightarrow>
     (case np of None \<Rightarrow> Q Ready_queue = []
      | Some b \<Rightarrow> 0 < counter (pcbs s b) \<and> (\<forall>p \<in> set (Q Ready_queue). counter (pcbs s p) \<le> counter (pcbs s b)))"

lemma aging_select_once:
  assumes Q: "queues_rep s Q" and ready: "\<forall>p. queued Q p \<longrightarrow> state (pcbs s p) = PROCESS_READY"
  obtains (found) b s' Q' where "aging_select s = Some (Some b, s')" "selects s Q (Some b) s' Q'" "aging_choice s' Q' (Some b)"
  | (empty) s' Q' where "aging_select s = Some (None, s')" "selects s Q None s' Q'" "aging_choice s' Q' None"
  | (again) s1 Q1 where "aging_select s = aging_select (aging_recharge s1)" "selects s Q None s1 Q1"
      "Q1 Ready_queue \<noteq> []" "\<forall>p \<in> set (Q1 Ready_queue). counter (pcbs s1 p) \<le> 0"
      "\<forall>p. counter (pcbs s1 p) = counter (pcbs s p)"
proof -
  let ?ys = "filter (\<lambda>p. \<not> doomed (pcbs s p)) (Q Ready_queue)"
  let ?best = "best_counter (\<lambda>p. counter (pcbs s p)) None 0 ?ys"
  let ?Q1 = "Q(Ready_queue := ?ys)"
  have v: "valid_ref Ready_queue" by (simp add: valid_ref_def)
  have hd: "q_head (ready_queue s) = hd_opt (Q Ready_queue)" by (rule chain_hd [OF ready_chain [OF Q]])
  have "\<exists>s' bprev'. aging_scan (hd_opt (Q Ready_queue)) (last_opt []) None None 0 s = Some (?best, bprev', s') \<and>
    selects s Q None s' (Q(Ready_queue := [] @ ?ys)) \<and> rest s' = rest s \<and>
    (\<forall>p. counter (pcbs s' p) = counter (pcbs s p)) \<and>
    (\<forall>b. ?best = Some b \<longrightarrow> (\<exists>us vs. [] @ ?ys = us @ b # vs \<and> bprev' = last_opt us))"
    by (rule aging_scan_spec [OF Q ready]) simp_all
  then obtain s1 bp where sc: "aging_scan (q_head (ready_queue s)) None None None 0 s = Some (?best, bp, s1)"
    "selects s Q None s1 ?Q1" "\<forall>p. counter (pcbs s1 p) = counter (pcbs s p)"
    "\<forall>b. ?best = Some b \<longrightarrow> (\<exists>us vs. ?ys = us @ b # vs \<and> bp = last_opt us)"
    unfolding hd last_opt_simps append_Nil by blast
  note R = selects_ready [OF sc(2)]
  have hd1: "q_head (ready_queue s1) = hd_opt ?ys" using chain_hd [OF ready_chain, of s1 ?Q1] R by simp
  show thesis
  proof (cases ?best)
    case None
    then have le: "\<forall>p \<in> set ?ys. counter (pcbs s p) \<le> 0" unfolding best_counter_None by (rule conjunct2)
    show thesis
    proof (cases "?ys = []")
      case True
      have "aging_select s = Some (None, s1)"
        using sc(1) None hd1 True by (subst aging_select.simps) simp
      moreover have "aging_choice s1 ?Q1 None" using True by (simp add: aging_choice_def)
      ultimately show thesis using sc(2) empty by blast
    next
      case False
      then have "hd_opt ?ys \<noteq> None" by (cases ?ys) simp_all
      then have "aging_select s = aging_select (aging_recharge s1)"
        using sc(1) None hd1 by (subst aging_select.simps) auto
      then show thesis using again [OF _ sc(2)] False le sc(3) by simp
    qed
  next
    case (Some b)
    with sc(4) obtain us vs where sp: "?ys = us @ b # vs" "bp = last_opt us" by blast
    have sp1: "?Q1 Ready_queue = us @ b # vs" using sp(1) by simp
    obtain s2 where rm: "remove_from Ready_queue bp b s1 = Some s2"
        "queues_rep s2 (?Q1(Ready_queue := us @ vs))" "core (pcbs s2) = core (pcbs s1)" "rest s2 = rest s1"
      by (rule remove_from_spec [OF conjunct1 [OF R] v sp1 sp(2) [unfolded last_opt_def]])
    have sel: "aging_select s = Some (Some b, s2)"
      using sc(1) Some rm(1) by (subst aging_select.simps) simp
    have st: "state (pcbs s2 p) = state (pcbs s1 p)" for p using core_eq_fields(1) [OF rm(3)] .
    have sel2: "selects s1 ?Q1 (Some b) s2 (?Q1(Ready_queue := us @ vs))"
      by (rule selects_take [OF conjunct1 [OF R] conjunct2 [OF R] rm(2) sp1 rm(3) rest_frame [OF rm(4)]])
    have mx: "0 < counter (pcbs s b) \<and> (\<forall>p \<in> set ?ys. counter (pcbs s p) \<le> counter (pcbs s b))"
      using best_counter_max [OF Some] by auto
    have cnt: "counter (pcbs s2 p) = counter (pcbs s p)" for p
      using core_eq_fields(4) [OF rm(3), of p] sc(3) by simp
    have "aging_choice s2 (?Q1(Ready_queue := us @ vs)) (Some b)"
      using mx sp(1) by (simp add: aging_choice_def cnt)
    then show thesis using found [OF sel selects_trans [OF sc(2) sel2]] by blast
  qed
qed

lemma aging_select_selects:
  assumes "queues_rep s Q" "\<forall>p. queued Q p \<longrightarrow> state (pcbs s p) = PROCESS_READY"
    and "\<forall>p. queued Q p \<longrightarrow> registered s p"
  shows "\<exists>np s' Q'. aging_select s = Some (np, s') \<and> selects s Q np s' Q' \<and> aging_choice s' Q' np"
  using assms
proof (induction "exhaustion s (Q Ready_queue)" arbitrary: s Q rule: less_induct)
  case less
  from less.prems(1,2) show ?case
  proof (cases rule: aging_select_once)
    case (again s1 Q1)
    let ?s2 = "aging_recharge s1"
    have sel: "selects s Q None ?s2 Q1"
      by (rule selects_trans [OF again(2) aging_recharge_selects])
        (use selects_ready [OF again(2)] in auto)
    have sub: "subseq (Q1 Ready_queue) (Q Ready_queue)" "\<forall>r. subseq (Q1 r) (Q r)"
      using again(2) by (auto simp: selects_def)
    have reg: "\<forall>p. queued Q1 p \<longrightarrow> registered ?s2 p" "\<forall>p. queued Q1 p \<longrightarrow> registered s1 p"
      using less.prems(3) queued_subseq [OF sub(2)] selects_registered [OF sel] selects_registered [OF again(2)]
      by simp_all
    have "exhaustion ?s2 (Q1 Ready_queue) < exhaustion s1 (Q1 Ready_queue)"
      using again(3,4) reg(2) by (intro exhaustion_recharge) (auto simp: queued_def)
    also have "exhaustion s1 (Q1 Ready_queue) = exhaustion s (Q1 Ready_queue)"
      using again(5) by (simp add: exhaustion_def)
    also have "\<dots> \<le> exhaustion s (Q Ready_queue)" by (rule exhaustion_subseq [OF sub(1)])
    finally have lt: "exhaustion ?s2 (Q1 Ready_queue) < exhaustion s (Q Ready_queue)" .
    obtain np s' Q' where "aging_select ?s2 = Some (np, s')" "selects ?s2 Q1 np s' Q'" "aging_choice s' Q' np"
      using less.hyps [of ?s2 Q1, OF lt] selects_ready [OF sel] reg(1) by blast
    then show ?thesis using again(1) selects_trans [OF sel] by auto
  qed blast+
qed

end
