(* ===== verification/Scheduler_Invariant.thy ===== *)
theory Scheduler_Invariant
  imports Scheduler_Aging
begin

section \<open>The scheduler invariant\<close>

text \<open>
  \<open>sched_rep s Q\<close>: the state \<open>s\<close> of the scheduler is well formed and its ready queues hold
  \<open>Q\<close>. The process table is indexed by pid, the queues hold exactly the registered
  processes that are READY (the idle process apart), and nothing but the current process is
  RUNNING. The locale \<open>selection_algorithm\<close> is the contract
  behind the \<^verbatim>\<open>pick_next\<close> callback of a \<^verbatim>\<open>SchedAlgorithm\<close>; what a context switch guarantees is
  proved once from it.
\<close>

definition live :: "kernel \<Rightarrow> pcb_ptr \<Rightarrow> bool" where
  "live s p \<longleftrightarrow> Some p \<in> set (processes s)"

text \<open>
  The bound on tickets keeps the sum over 64 processes inside a \<^verbatim>\<open>long\<close>.
\<close>

definition table_ok :: "kernel \<Rightarrow> bool" where
  "table_ok s \<longleftrightarrow>
     length (processes s) = N_PROCESSES \<and> processes s ! 0 = Some Init_process \<and>
     (\<forall>i < N_PROCESSES. \<forall>p. processes s ! i = Some p \<longrightarrow> pid (pcbs s p) = int i) \<and>
     length (queue_level s) = N_PROCESSES \<and> (\<forall>l \<in> set (queue_level s). 0 \<le> l \<and> l < int ML_MAX_LEVELS) \<and>
     active_algorithm s \<in> set sched_algorithms \<and>
     (\<forall>p. live s p \<longrightarrow> 1 \<le> priority (pcbs s p) \<and> tickets (pcbs s p) < 2 ^ 57)"

definition discipline :: "kernel \<Rightarrow> queue_contents \<Rightarrow> bool" where
  "discipline s Q \<longleftrightarrow>
     (if ml_policy (active_algorithm s) = None then \<forall>i. Q (Ml_queue i) = [] else Q Ready_queue = []) \<and>
     (enqueue (active_algorithm s) = Enqueue_sjf \<longrightarrow> sorted (map (\<lambda>p. est_burst (pcbs s p)) (Q Ready_queue)))"

definition sched_rep :: "kernel \<Rightarrow> queue_contents \<Rightarrow> bool" where
  "sched_rep s Q \<longleftrightarrow>
     queues_rep s Q \<and> table_ok s \<and> discipline s Q \<and> live s (current_process s) \<and>
     (\<forall>p. queued Q p \<longleftrightarrow> p \<noteq> Init_process \<and> live s p \<and> state (pcbs s p) = PROCESS_READY) \<and>
     (\<forall>p. live s p \<and> state (pcbs s p) = PROCESS_RUNNING \<longrightarrow> p = current_process s)"

definition sched_inv :: "kernel \<Rightarrow> bool" where
  "sched_inv s \<longleftrightarrow> (\<exists>Q. sched_rep s Q)"

lemma sched_repD:
  assumes "sched_rep s Q"
  shows "queues_rep s Q" "table_ok s" "discipline s Q" "live s (current_process s)"
    "queued Q p \<longleftrightarrow> p \<noteq> Init_process \<and> live s p \<and> state (pcbs s p) = PROCESS_READY"
    "live s p \<Longrightarrow> state (pcbs s p) = PROCESS_RUNNING \<Longrightarrow> p = current_process s"
    "\<forall>p. queued Q p \<longrightarrow> state (pcbs s p) = PROCESS_READY"
  using assms by (auto simp: sched_rep_def)

subsection \<open>The process table\<close>

lemma live_Init: "table_ok s \<Longrightarrow> live s Init_process"
  unfolding table_ok_def live_def by (metis nth_mem zero_less_numeral)

lemma table_okD:
  assumes "table_ok s"
  shows "length (processes s) = N_PROCESSES" "processes s ! 0 = Some Init_process"
    "length (queue_level s) = N_PROCESSES" "active_algorithm s \<in> set sched_algorithms"
    "l \<in> set (queue_level s) \<Longrightarrow> 0 \<le> l \<and> l < int ML_MAX_LEVELS"
    "live s p \<Longrightarrow> 1 \<le> priority (pcbs s p)" "live s p \<Longrightarrow> tickets (pcbs s p) < 2 ^ 57"
  using assms by (auto simp: table_ok_def)

lemma live_slot:
  assumes "table_ok s" "live s p"
  shows "0 \<le> pid (pcbs s p)" "pid (pcbs s p) < int N_PROCESSES" "processes s ! nat (pid (pcbs s p)) = Some p"
proof -
  obtain i where "i < N_PROCESSES" "processes s ! i = Some p"
    using assms by (auto simp: live_def table_ok_def in_set_conv_nth)
  moreover from this assms(1) have "pid (pcbs s p) = int i" by (auto simp: table_ok_def)
  ultimately show "0 \<le> pid (pcbs s p)" "pid (pcbs s p) < int N_PROCESSES" "processes s ! nat (pid (pcbs s p)) = Some p"
    by simp_all
qed

lemma live_pid_inj:
  "table_ok s \<Longrightarrow> live s p \<Longrightarrow> live s q \<Longrightarrow> pid (pcbs s p) = pid (pcbs s q) \<Longrightarrow> p = q"
  by (metis live_slot(3) option.inject)

lemma live_count:
  assumes "table_ok s" "live s p"
  shows "count_list (processes s) (Some p) = 1"
proof -
  have "{i. i < length (processes s) \<and> Some p = processes s ! i} = {nat (pid (pcbs s p))}"
    using live_slot [OF assms] assms(1) by (auto simp: table_ok_def)
  then have "length (filter ((=) (Some p)) (processes s)) = 1" by (simp add: length_filter_conv_card)
  then show ?thesis by (simp add: count_list_eq_length_filter)
qed

lemma table_ok_cong:
  assumes "table_ok s" "processes s' = processes s" "queue_level s' = queue_level s" "active_algorithm s' = active_algorithm s"
    and "\<And>p. pid (pcbs s' p) = pid (pcbs s p)" "\<And>p. priority (pcbs s' p) = priority (pcbs s p)"
    and "\<And>p. tickets (pcbs s' p) = tickets (pcbs s p)"
  shows "table_ok s'"
  using assms by (simp add: table_ok_def live_def)

lemma live_cong: "processes s' = processes s \<Longrightarrow> live s' p = live s p"
  by (simp add: live_def)

lemma queue_length:
  assumes "table_ok s" "distinct xs" "\<forall>p \<in> set xs. live s p"
  shows "length xs \<le> N_PROCESSES"
proof -
  have "Some ` set xs \<subseteq> set (processes s)" using assms(3) by (auto simp: live_def)
  then have "card (Some ` set xs) \<le> card (set (processes s))" by (rule card_mono [OF finite_set])
  also have "\<dots> \<le> N_PROCESSES" using card_length [of "processes s"] assms(1) by (simp add: table_ok_def)
  finally show ?thesis using assms(2) by (simp add: card_image distinct_card)
qed

lemma ticket_sum_fits:
  assumes "sched_rep s Q"
  shows "ticket_sum (pcbs s) (Q r) < 2 ^ 63"
proof -
  note D = sched_repD [OF assms]
  have lv: "\<forall>p \<in> set (Q r). live s p" using D(5) by (auto simp: queued_def)
  have len: "length (Q r) \<le> 64" using queue_length [OF D(2) queues_rep_distinct [OF D(1)] lv] by simp
  have "ticket_sum (pcbs s) (Q r) \<le> (\<Sum>p\<leftarrow>Q r. 2 ^ 57 - 1)"
    unfolding ticket_sum_def
  proof (rule sum_list_mono)
    fix p assume "p \<in> set (Q r)"
    then have "tickets (pcbs s p) < 2 ^ 57" using lv table_okD(7) [OF D(2)] by blast
    then show "effective_tickets (pcbs s p) \<le> 2 ^ 57 - 1" by (simp add: effective_tickets_def)
  qed
  also have "\<dots> = int (length (Q r)) * (2 ^ 57 - 1)" by (simp add: sum_list_triv)
  also have "\<dots> \<le> 64 * (2 ^ 57 - 1)" using len by (intro mult_right_mono) simp_all
  finally show ?thesis by simp
qed

subsection \<open>Steps that keep the invariant\<close>

lemma sched_rep_modify:
  assumes rep: "sched_rep s Q"
    and keep: "\<And>x. next_ready (f x) = next_ready x" "\<And>x. state (f x) = state x" "\<And>x. pid (f x) = pid x"
      "\<And>x. priority (f x) = priority x" "\<And>x. tickets (f x) = tickets x"
    and eb: "\<not> queued Q p \<or> est_burst (f (pcbs s p)) = est_burst (pcbs s p)"
  shows "sched_rep (modify_pcb p f s) Q"
proof -
  note D = sched_repD [OF rep]
  have "table_ok (modify_pcb p f s)" by (rule table_ok_cong [OF D(2)]) (simp_all add: upd_pcb_apply keep)
  moreover have "queues_rep (modify_pcb p f s) Q" by (rule queues_rep_modify [OF D(1) keep(1)])
  moreover
  have eq: "map (\<lambda>a. est_burst (upd_pcb p f (pcbs s) a)) (Q Ready_queue) = map (\<lambda>a. est_burst (pcbs s a)) (Q Ready_queue)"
    using eb by (auto simp: upd_pcb_apply queued_def)
  have "discipline (modify_pcb p f s) Q" using D(3) by (simp add: discipline_def eq)
  moreover have "state (upd_pcb p f (pcbs s) a) = state (pcbs s a)" for a by (simp add: upd_pcb_apply keep)
  ultimately show ?thesis using rep by (simp add: sched_rep_def live_def)
qed

lemma sched_rep_preempt:
  "sched_rep s Q \<Longrightarrow> sched_rep (preempt_disable s) Q" "sched_rep s Q \<Longrightarrow> sched_rep (preempt_enable s) Q"
  by (auto simp: preempt_disable_def preempt_enable_def intro: sched_rep_modify)

lemma sorted_subseq: "subseq xs ys \<Longrightarrow> sorted (ys :: int list) \<Longrightarrow> sorted xs"
  by (induction rule: list_emb.induct) (auto dest: list_emb_set)

lemma discipline_subseq:
  assumes "discipline s Q" "\<forall>r. subseq (Q' r) (Q r)" "active_algorithm s' = active_algorithm s"
    and "\<And>p. est_burst (pcbs s' p) = est_burst (pcbs s p)"
  shows "discipline s' Q'"
proof -
  have nil: "Q r = [] \<Longrightarrow> Q' r = []" for r using assms(2) by (metis list_emb_Nil2)
  have "sorted (map (\<lambda>p. est_burst (pcbs s p)) (Q Ready_queue)) \<Longrightarrow> sorted (map (\<lambda>p. est_burst (pcbs s p)) (Q' Ready_queue))"
    using assms(2) by (blast intro: sorted_subseq subseq_map)
  with assms nil show ?thesis by (auto simp: discipline_def)
qed

end
