(* ===== verification/Scheduler_Switch.thy ===== *)
theory Scheduler_Switch
  imports Scheduler_Invariant
begin

section \<open>Selection, dispatch and context switch\<close>

text \<open>
  Every \<^verbatim>\<open>pick_next\<close> callback of \<^verbatim>\<open>libs/scheduler.c\<close> disables preemption, puts the current process back
  if it still runs, selects a process and dispatches it. The locale
  \<open>selection_algorithm\<close> states the two laws a callback has to
  provide; totality, the invariant, the effect on registers and on the preemption
  counters follow for all of them.
\<close>

subsection \<open>Putting the current process back\<close>

definition requeued :: "kernel \<Rightarrow> queue_contents \<Rightarrow> kernel \<Rightarrow> queue_contents \<Rightarrow> bool" where
  "requeued s Q s' Q' \<longleftrightarrow>
     queues_rep s' Q' \<and> rest s' = rest s \<and> discipline s' Q' \<and>
     core (pcbs s') = (if current_runnable s
        then upd_pcb (current_process s) (\<lambda>x. x\<lparr>state := PROCESS_READY\<rparr>) (core (pcbs s)) else core (pcbs s)) \<and>
     (\<forall>p. queued Q' p \<longleftrightarrow> queued Q p \<or> current_runnable s \<and> p = current_process s)"

lemma queued_upd: "queued (Q(r := xs)) p \<longleftrightarrow> p \<in> set xs \<or> (\<exists>a. a \<noteq> r \<and> p \<in> set (Q a))"
  unfolding queued_def by (metis fun_upd_apply)

lemma queued_grow: "set xs = insert q (set (Q r)) \<Longrightarrow> queued (Q(r := xs)) p \<longleftrightarrow> queued Q p \<or> p = q"
  by (auto simp: queued_upd) (auto simp: queued_def)

lemma requeued_none: "sched_rep s Q \<Longrightarrow> \<not> current_runnable s \<Longrightarrow> requeued s Q s Q"
  by (simp add: requeued_def sched_rep_def)

lemma requeued_grow:
  assumes "queues_rep s' (Q(r := xs))"
    "core (pcbs s') = upd_pcb (current_process s) (\<lambda>x. x\<lparr>state := PROCESS_READY\<rparr>) (core (pcbs s))"
    "rest s' = rest s" "discipline s' (Q(r := xs))" "current_runnable s" "set xs = insert (current_process s) (set (Q r))"
  shows "requeued s Q s' (Q(r := xs))"
  unfolding requeued_def using assms(1-5) queued_grow [of xs "current_process s" Q r, OF assms(6)]
  by (auto simp only: if_True)

lemma current_not_queued:
  assumes "sched_rep s Q" "current_runnable s"
  shows "\<not> queued Q (current_process s)" "current_process s \<noteq> Init_process"
  using assms sched_repD(5) [OF assms(1), of "current_process s"] by (auto simp: current_runnable_def)

lemma algorithm_cases:
  assumes "a \<in> set sched_algorithms"
  obtains "a = sched_round_robin" | "a = sched_fcfs" | "a = sched_sjf" | "a = sched_lottery"
    | "a = sched_priority_aging" | "a = sched_mlq" | "a = sched_mlfq"
  using assms by (auto simp: sched_algorithms_def)

lemma requeue_fifo:
  assumes rep: "sched_rep s Q" and alg: "ml_policy (active_algorithm s) = None" "enqueue (active_algorithm s) = Enqueue_fifo"
  obtains s' Q' where "(if current_runnable s then enqueue_to Ready_queue (Some (current_process s)) s else Some s) = Some s'"
    "requeued s Q s' Q'"
    "Q' = Q(Ready_queue := Q Ready_queue @ (if current_runnable s then [current_process s] else []))"
proof (cases "current_runnable s")
  case False
  then show thesis using requeued_none [OF rep False] that [of s Q] by simp
next
  case True
  let ?Q' = "Q(Ready_queue := Q Ready_queue @ [current_process s])"
  have v: "valid_ref Ready_queue" by (simp add: valid_ref_def)
  obtain s' where e: "enqueue_to Ready_queue (Some (current_process s)) s = Some s'" "queues_rep s' ?Q'"
    "core (pcbs s') = upd_pcb (current_process s) (\<lambda>x. x\<lparr>state := PROCESS_READY\<rparr>) (core (pcbs s))" "rest s' = rest s"
    by (rule enqueue_to_spec [OF sched_repD(1) [OF rep] v current_not_queued [OF rep True]])
  have "discipline s' ?Q'"
    using sched_repD(3) [OF rep] alg rest_fields(5) [OF e(4)] by (simp add: discipline_def)
  then have req: "requeued s Q s' ?Q'"
    using True by (intro requeued_grow [OF e(2-4)]) simp_all
  show thesis by (rule that [OF _ req]) (simp_all add: True e(1))
qed

lemma requeue_sjf:
  assumes rep: "sched_rep s Q" and alg: "ml_policy (active_algorithm s) = None" "enqueue (active_algorithm s) = Enqueue_sjf"
  obtains s' Q' where "(if current_runnable s then enqueue_sorted Ready_queue (Some (current_process s)) s else Some s) = Some s'"
    "requeued s Q s' Q'"
    "Q' = (if current_runnable s then Q(Ready_queue := insert_by (\<lambda>x. est_burst (pcbs s x)) (current_process s) (Q Ready_queue)) else Q)"
proof (cases "current_runnable s")
  case False
  then show thesis using requeued_none [OF rep False] that [of s Q] by simp
next
  case True
  let ?xs = "insert_by (\<lambda>x. est_burst (pcbs s x)) (current_process s) (Q Ready_queue)"
  let ?Q' = "Q(Ready_queue := ?xs)"
  have v: "valid_ref Ready_queue" by (simp add: valid_ref_def)
  obtain s' where e: "enqueue_sorted Ready_queue (Some (current_process s)) s = Some s'" "queues_rep s' ?Q'"
    "core (pcbs s') = upd_pcb (current_process s) (\<lambda>x. x\<lparr>state := PROCESS_READY\<rparr>) (core (pcbs s))" "rest s' = rest s"
    by (rule enqueue_sorted_spec [OF sched_repD(1) [OF rep] v current_not_queued [OF rep True]])
  have "est_burst (pcbs s' p) = est_burst (pcbs s p)" for p
    using static_fields(3) [OF core_static [OF e(3), of p]] by (simp add: upd_pcb_apply)
  moreover have "sorted (map (\<lambda>p. est_burst (pcbs s p)) ?xs)"
    using sched_repD(3) [OF rep] alg by (intro sorted_insert_by) (simp add: discipline_def)
  ultimately have "discipline s' ?Q'"
    using sched_repD(3) [OF rep] alg rest_fields(5) [OF e(4)] by (simp add: discipline_def)
  then have req: "requeued s Q s' ?Q'"
    using True by (intro requeued_grow [OF e(2-4)]) simp_all
  show thesis by (rule that [OF _ req]) (simp_all add: True e(1))
qed

text \<open>The level of a registered process, as \<^verbatim>\<open>_enqueue_multilevel\<close> reads it.\<close>

definition level_of :: "kernel \<Rightarrow> pcb_ptr \<Rightarrow> int" where
  "level_of s p = queue_level s ! nat (pid (pcbs s p))"

lemma level_of_valid:
  assumes "table_ok s" "live s p"
  shows "aget (queue_level s) (pid (pcbs s p)) = Some (level_of s p)" "valid_ref (Ml_queue (level_of s p))"
proof -
  note P = live_slot [OF assms]
  have len: "nat (pid (pcbs s p)) < length (queue_level s)" using P table_okD(3) [OF assms(1)] by simp
  then show "aget (queue_level s) (pid (pcbs s p)) = Some (level_of s p)" using P by (simp add: aget_def level_of_def)
  show "valid_ref (Ml_queue (level_of s p))"
    using table_okD(5) [OF assms(1) nth_mem [OF len]] by (simp add: valid_ref_def level_of_def)
qed

lemma enqueue_multilevel_spec:
  assumes "queues_rep s Q" "table_ok s" "live s p" "\<not> queued Q p" "p \<noteq> Init_process"
  obtains s' where "enqueue_multilevel (Some p) s = Some s'"
    "queues_rep s' (Q(Ml_queue (level_of s p) := Q (Ml_queue (level_of s p)) @ [p]))"
    "core (pcbs s') = upd_pcb p (\<lambda>x. x\<lparr>state := PROCESS_READY\<rparr>) (core (pcbs s))" "rest s' = rest s"
proof -
  note L = level_of_valid [OF assms(2,3)]
  obtain s' where e: "enqueue_to (Ml_queue (level_of s p)) (Some p) s = Some s'"
    "queues_rep s' (Q(Ml_queue (level_of s p) := Q (Ml_queue (level_of s p)) @ [p]))"
    "core (pcbs s') = upd_pcb p (\<lambda>x. x\<lparr>state := PROCESS_READY\<rparr>) (core (pcbs s))" "rest s' = rest s"
    by (rule enqueue_to_spec [OF assms(1) L(2) assms(4,5)])
  show thesis by (rule that [OF _ e(2,3,4)]) (simp add: enqueue_multilevel_def L(1) e(1))
qed

lemma requeue_multilevel:
  assumes rep: "sched_rep s Q" and alg: "ml_policy (active_algorithm s) \<noteq> None" "enqueue (active_algorithm s) = Enqueue_multilevel"
  obtains s' Q' where "(if current_runnable s then enqueue_multilevel (Some (current_process s)) s else Some s) = Some s'"
    "requeued s Q s' Q'"
    "Q' = (let l = Ml_queue (level_of s (current_process s)) in Q(l := Q l @ (if current_runnable s then [current_process s] else [])))"
proof (cases "current_runnable s")
  case False
  then show thesis using requeued_none [OF rep False] that [of s Q] by simp
next
  case True
  let ?l = "Ml_queue (level_of s (current_process s))"
  let ?Q' = "Q(?l := Q ?l @ [current_process s])"
  obtain s' where e: "enqueue_multilevel (Some (current_process s)) s = Some s'" "queues_rep s' ?Q'"
    "core (pcbs s') = upd_pcb (current_process s) (\<lambda>x. x\<lparr>state := PROCESS_READY\<rparr>) (core (pcbs s))" "rest s' = rest s"
    by (rule enqueue_multilevel_spec [OF sched_repD(1,2,4) [OF rep] current_not_queued [OF rep True]])
  have "discipline s' ?Q'"
    using sched_repD(3) [OF rep] alg rest_fields(5) [OF e(4)] by (auto simp: discipline_def)
  then have req: "requeued s Q s' ?Q'"
    using True by (intro requeued_grow [OF e(2-4)]) simp_all
  show thesis by (rule that [OF _ req]) (simp_all add: True e(1) Let_def)
qed

subsection \<open>The effect of a dispatch\<close>

definition dispatch_target :: "pcb_ptr option \<Rightarrow> pcb_ptr" where
  "dispatch_target np = (case np of None \<Rightarrow> Init_process | Some p \<Rightarrow> p)"

lemmas dispatch_defs = dispatch_def switch_to_process_def cpu_switch_to_process_def set_pgd_def
  preempt_enable_def dispatch_target_def Let_def

lemma dispatch_kernel:
  "current_process (dispatch np ts s) = dispatch_target np"
  "processes (dispatch np ts s) = processes s" "n_processes (dispatch np ts s) = n_processes s"
  "queue_level (dispatch np ts s) = queue_level s" "active_algorithm (dispatch np ts s) = active_algorithm s"
  "ready_queue (dispatch np ts s) = ready_queue s" "ml_queues (dispatch np ts s) = ml_queues s"
  "ml_ticks_since_boost (dispatch np ts s) = ml_ticks_since_boost s"
  "phys (dispatch np ts s) = phys s" "irq_enabled (dispatch np ts s) = irq_enabled s"
  "resources (dispatch np ts s) = resources s" "uart_owner (dispatch np ts s) = uart_owner s"
  "uart_buffer (dispatch np ts s) = uart_buffer s" "uart_head (dispatch np ts s) = uart_head s"
  "uart_tail (dispatch np ts s) = uart_tail s" "uart_out (dispatch np ts s) = uart_out s"
  by (simp_all add: dispatch_defs modify_pcb_def split: option.splits)

lemma dispatch_pcbs:
  "next_ready (pcbs (dispatch np ts s) p) = next_ready (pcbs s p)"
  "pid (pcbs (dispatch np ts s) p) = pid (pcbs s p)"
  "priority (pcbs (dispatch np ts s) p) = priority (pcbs s p)"
  "tickets (pcbs (dispatch np ts s) p) = tickets (pcbs s p)"
  "est_burst (pcbs (dispatch np ts s) p) = est_burst (pcbs s p)"
  "mm (pcbs (dispatch np ts s) p) = mm (pcbs s p)"
  "messages_buffer (pcbs (dispatch np ts s) p) = messages_buffer (pcbs s p)"
  "files (pcbs (dispatch np ts s) p) = files (pcbs s p)"
  "pending_signals (pcbs (dispatch np ts s) p) = pending_signals (pcbs s p)"
  "pid_to_wait (pcbs (dispatch np ts s) p) = pid_to_wait (pcbs s p)"
  by (auto simp: dispatch_defs modify_pcb_def upd_pcb_apply split: option.splits)

lemma dispatch_state:
  "state (pcbs (dispatch np ts s) p) =
     (if p = dispatch_target np then PROCESS_RUNNING
      else if p = current_process s \<and> state (pcbs s p) = PROCESS_RUNNING then PROCESS_READY
      else state (pcbs s p))"
  by (auto simp: dispatch_defs modify_pcb_def upd_pcb_apply split: option.splits)

lemma dispatch_preempt:
  "preempt_disabled (pcbs (dispatch np ts s) p) =
     preempt_disabled (pcbs s p) - (if p = dispatch_target np then 1 else 0)"
  by (auto simp: dispatch_defs modify_pcb_def upd_pcb_apply split: option.splits)

lemma dispatch_context:
  assumes "dispatch_target np \<noteq> current_process s"
  shows "cpu_regs (dispatch np ts s) = cpu_context (pcbs s (dispatch_target np))"
    "cpu_context (pcbs (dispatch np ts s) (current_process s)) = cpu_regs s"
    "p \<noteq> current_process s \<Longrightarrow> cpu_context (pcbs (dispatch np ts s) p) = cpu_context (pcbs s p)"
    "ttbr0_el1 (dispatch np ts s) = pgd (mm (pcbs s (dispatch_target np)))"
  using assms by (auto simp: dispatch_defs modify_pcb_def upd_pcb_apply split: option.splits)

lemma dispatch_same:
  assumes "dispatch_target np = current_process s"
  shows "cpu_regs (dispatch np ts s) = cpu_regs s" "cpu_context (pcbs (dispatch np ts s) p) = cpu_context (pcbs s p)"
    "ttbr0_el1 (dispatch np ts s) = ttbr0_el1 s"
  using assms [symmetric]
  by (cases np; cases ts; simp add: dispatch_defs modify_pcb_def upd_pcb_apply)+

lemma dispatch_counter:
  "counter (pcbs (dispatch np ts s) p) =
     (case ts of Some n \<Rightarrow> if np = Some p then n else counter (pcbs s p) | None \<Rightarrow> counter (pcbs s p))"
  by (cases np; cases ts; simp add: dispatch_defs modify_pcb_def upd_pcb_apply)

end
