(* ===== verification/Scheduler_Algorithms.thy ===== *)
theory Scheduler_Algorithms
  imports Scheduler_Switch
begin

section \<open>The contract of a scheduling algorithm\<close>

text \<open>
  \<open>selection_algorithm\<close> is the interface between the central dispatcher and the \<^verbatim>\<open>pick_next\<close>
  callbacks; it is interpreted for each of the five selection functions of \<^verbatim>\<open>libs/scheduler.c\<close>.
\<close>

subsection \<open>The invariant across a dispatch\<close>

lemma requeued_fields:
  assumes "requeued s Q s' Q'"
  shows "rest s' = rest s" "static (pcbs s' p) = static (pcbs s p)" "discipline s' Q'" "queues_rep s' Q'"
    "queued Q' p \<longleftrightarrow> queued Q p \<or> current_runnable s \<and> p = current_process s"
    "state (pcbs s' p) = (if current_runnable s \<and> p = current_process s then PROCESS_READY else state (pcbs s p))"
proof -
  have c: "core (pcbs s') = (if current_runnable s
        then upd_pcb (current_process s) (\<lambda>x. x\<lparr>state := PROCESS_READY\<rparr>) (core (pcbs s)) else core (pcbs s))"
    using assms by (simp add: requeued_def)
  show "static (pcbs s' p) = static (pcbs s p)" using core_static [OF c, of p] by (simp add: upd_pcb_apply)
  show "state (pcbs s' p) = (if current_runnable s \<and> p = current_process s then PROCESS_READY else state (pcbs s p))"
    using core_state [OF c, of p] by (simp add: upd_pcb_apply)
qed (use assms in \<open>simp_all add: requeued_def\<close>)

lemma requeued_doomed:
  assumes "requeued s Q s' Q'"
  shows "doomed (pcbs s' p) = doomed (pcbs s p)"
proof -
  have "core (pcbs s') = (if current_runnable s
      then upd_pcb (current_process s) (\<lambda>x. x\<lparr>state := PROCESS_READY\<rparr>) (core (pcbs s)) else core (pcbs s))"
    using assms by (simp add: requeued_def)
  then have "pending_signals (core (pcbs s') p) = pending_signals (core (pcbs s) p)" by (simp add: upd_pcb_apply)
  then show ?thesis by (simp add: doomed_def)
qed

text \<open>Between requeueing and dispatch: the selected process is the only READY one outside the queues.\<close>

lemma selected_rep:
  assumes rep: "sched_rep s Q" and req: "requeued s Q s2 Q2" and sel: "selects s2 Q2 np s3 Q3"
  shows "queues_rep s3 Q3" "table_ok s3" "discipline s3 Q3" "current_process s3 = current_process s"
    "processes s3 = processes s"
    "queued Q3 p \<or> np = Some p \<longleftrightarrow> p \<noteq> Init_process \<and> live s p \<and> state (pcbs s3 p) = PROCESS_READY"
    "live s p \<Longrightarrow> state (pcbs s3 p) = PROCESS_RUNNING \<Longrightarrow> p = Init_process \<and> current_process s = Init_process"
    "static (pcbs s3 p) = static (pcbs s p)" "frame s3 = frame s"
    "\<not> queued Q p \<Longrightarrow> p \<noteq> current_process s \<Longrightarrow> state (pcbs s3 p) = state (pcbs s p)"
proof -
  note D = sched_repD [OF rep] and R = requeued_fields [OF req] and S = sel [unfolded selects_def]
  have st: "static (pcbs s3 p) = static (pcbs s p)" for p using S R(2) by simp
  then show "static (pcbs s3 p) = static (pcbs s p)" .
  have fr: "frame s3 = frame s" using S rest_frame [OF R(1)] by simp
  then show "frame s3 = frame s" .
  note F = frame_fields [OF fr] and T = static_fields [OF st]
  show "current_process s3 = current_process s" "processes s3 = processes s" using F by simp_all
  show "queues_rep s3 Q3" using S by blast
  show "table_ok s3" by (rule table_ok_cong [OF D(2)]) (simp_all add: F T)
  show "discipline s3 Q3"
  proof (rule discipline_subseq [OF R(3)])
    show "\<forall>r. subseq (Q3 r) (Q2 r)" using S by blast
    show "active_algorithm s3 = active_algorithm s2" using F(5) rest_fields(5) [OF R(1)] by simp
    show "est_burst (pcbs s3 p) = est_burst (pcbs s2 p)" for p using T(3) static_fields(3) [OF R(2)] by simp
  qed
  have q2: "queued Q2 p \<longleftrightarrow> p \<noteq> Init_process \<and> live s p \<and> state (pcbs s2 p) = PROCESS_READY" for p
    using D(4,5) R(5,6) by (auto simp: current_runnable_def)
  have sub: "queued Q3 p \<Longrightarrow> queued Q2 p" for p using S queued_subseq by blast
  show "queued Q3 p \<or> np = Some p \<longleftrightarrow> p \<noteq> Init_process \<and> live s p \<and> state (pcbs s3 p) = PROCESS_READY"
  proof (cases "queued Q2 p")
    case True
    then have "queued Q3 p \<or> np = Some p \<longleftrightarrow> state (pcbs s3 p) = PROCESS_READY" using S by (metis process_state.distinct)
    with True q2 show ?thesis by blast
  next
    case False
    then have "\<not> queued Q3 p" "np \<noteq> Some p" "state (pcbs s3 p) = state (pcbs s2 p)" using S sub by blast+
    with False q2 show ?thesis by simp
  qed
  show "p = Init_process \<and> current_process s = Init_process"
    if lv: "live s p" and run: "state (pcbs s3 p) = PROCESS_RUNNING"
  proof -
    have nq: "\<not> queued Q2 p" using S run by (metis process_state.distinct)
    then have "state (pcbs s3 p) = state (pcbs s2 p)" using S by blast
    with run have run2: "state (pcbs s2 p) = PROCESS_RUNNING" by simp
    with R(6) [of p] have "state (pcbs s p) = PROCESS_RUNNING" "\<not> (current_runnable s \<and> p = current_process s)"
      by (auto split: if_splits)
    moreover from this lv D(6) have "p = current_process s" by blast
    ultimately show ?thesis by (auto simp: current_runnable_def)
  qed
  show "state (pcbs s3 p) = state (pcbs s p)" if "\<not> queued Q p" "p \<noteq> current_process s"
  proof -
    have "\<not> queued Q2 p" using that R(5) by blast
    then have "state (pcbs s3 p) = state (pcbs s2 p)" using S by blast
    with R(6) [of p] that show ?thesis by simp
  qed
qed

lemma dispatch_rep:
  assumes rep: "sched_rep s Q" and req: "requeued s Q s2 Q2" and sel: "selects s2 Q2 np s3 Q3"
  shows "sched_rep (dispatch np ts s3) Q3"
proof -
  note X = selected_rep [OF rep req sel]
  let ?d = "dispatch np ts s3"
  have lv: "live ?d p = live s p" for p using X(5) by (simp add: live_def dispatch_kernel)
  have "queues_rep ?d Q3"
    by (rule queues_rep_links [OF X(1)]) (auto simp: dispatch_kernel links_def dispatch_pcbs)
  moreover have tb: "table_ok ?d" by (rule table_ok_cong [OF X(2)]) (simp_all add: dispatch_kernel dispatch_pcbs)
  moreover have "discipline ?d Q3" using X(3) by (simp add: discipline_def dispatch_kernel dispatch_pcbs)
  moreover have "live ?d (current_process ?d)"
    using X(6) live_Init [OF tb] lv by (auto simp: dispatch_kernel dispatch_target_def split: option.splits)
  moreover have "queued Q3 p \<longleftrightarrow> p \<noteq> Init_process \<and> live ?d p \<and> state (pcbs ?d p) = PROCESS_READY" for p
  proof -
    have np: "np = Some p \<Longrightarrow> \<not> queued Q3 p" using sel by (simp add: selects_def)
    have "state (pcbs ?d p) = PROCESS_READY \<longleftrightarrow> np \<noteq> Some p \<and> state (pcbs s3 p) = PROCESS_READY"
      if "p \<noteq> Init_process" "live s p"
    proof -
      have "state (pcbs s3 p) \<noteq> PROCESS_RUNNING" using that X(7) by blast
      then show ?thesis using that(1) by (simp add: dispatch_state dispatch_target_def split: option.split)
    qed
    then show ?thesis using X(6) [of p] np lv by blast
  qed
  moreover have "p = current_process ?d" if "live ?d p" "state (pcbs ?d p) = PROCESS_RUNNING" for p
    using that X(4) X(7) [of p] lv by (auto simp: dispatch_state dispatch_kernel split: if_splits)
  ultimately show ?thesis by (simp add: sched_rep_def)
qed

subsection \<open>The interface\<close>

text \<open>
  What every context switch guarantees: the process switched to runs, preemption counters move from the
  outgoing to the incoming process, registers and page table of the two are exchanged.
\<close>

definition switched :: "kernel \<Rightarrow> kernel \<Rightarrow> bool" where
  "switched s s' \<longleftrightarrow>
     state (pcbs s' (current_process s')) = PROCESS_RUNNING \<and>
     (\<forall>p. preempt_disabled (pcbs s' p) = preempt_disabled (pcbs s p)
            + of_bool (p = current_process s) - of_bool (p = current_process s')) \<and>
     (if current_process s' = current_process s then cpu_regs s' = cpu_regs s \<and> ttbr0_el1 s' = ttbr0_el1 s
      else cpu_regs s' = cpu_context (pcbs s (current_process s')) \<and>
        cpu_context (pcbs s' (current_process s)) = cpu_regs s \<and>
        ttbr0_el1 s' = pgd (mm (pcbs s (current_process s')))) \<and>
     (\<forall>p. p \<noteq> current_process s \<longrightarrow> cpu_context (pcbs s' p) = cpu_context (pcbs s p))"

text \<open>The idle process is chosen only when no other registered process is READY.\<close>

definition work_conserving :: "kernel \<Rightarrow> bool" where
  "work_conserving s \<longleftrightarrow>
     (current_process s = Init_process \<longrightarrow> (\<forall>p. live s p \<and> p \<noteq> Init_process \<longrightarrow> state (pcbs s p) \<noteq> PROCESS_READY))"

text \<open>
  A process that waits, is stopped or has exited is left in its state; a runnable process without a
  pending KILL or STOP signal stays runnable.
\<close>

definition blocked_kept :: "kernel \<Rightarrow> kernel \<Rightarrow> bool" where
  "blocked_kept s s' \<longleftrightarrow>
     (\<forall>p. live s p \<and> p \<noteq> Init_process \<and> state (pcbs s p) \<noteq> PROCESS_READY \<and> state (pcbs s p) \<noteq> PROCESS_RUNNING \<longrightarrow>
        state (pcbs s' p) = state (pcbs s p))"

definition runnable_kept :: "kernel \<Rightarrow> kernel \<Rightarrow> bool" where
  "runnable_kept s s' \<longleftrightarrow>
     (\<forall>p. live s p \<and> p \<noteq> Init_process \<and> state (pcbs s p) \<in> {PROCESS_READY, PROCESS_RUNNING} \<longrightarrow>
        state (pcbs s' p) \<in> {PROCESS_READY, PROCESS_RUNNING} \<or>
        doomed (pcbs s p) \<and> state (pcbs s' p) \<in> {PROCESS_ZOMBIE, PROCESS_STOPPED})"

text \<open>What no context switch touches: what a process owns, and the state of the other components.\<close>

definition data_kept :: "kernel \<Rightarrow> kernel \<Rightarrow> bool" where
  "data_kept s s' \<longleftrightarrow>
     (\<forall>p. pid (pcbs s' p) = pid (pcbs s p) \<and> files (pcbs s' p) = files (pcbs s p) \<and> mm (pcbs s' p) = mm (pcbs s p) \<and>
        messages_buffer (pcbs s' p) = messages_buffer (pcbs s p) \<and> pid_to_wait (pcbs s' p) = pid_to_wait (pcbs s p)) \<and>
     n_processes s' = n_processes s \<and> queue_level s' = queue_level s \<and> phys s' = phys s \<and> resources s' = resources s \<and>
     uart_owner s' = uart_owner s \<and> uart_buffer s' = uart_buffer s \<and> uart_head s' = uart_head s \<and>
     uart_tail s' = uart_tail s \<and> uart_out s' = uart_out s"

definition switch_contract :: "kernel \<Rightarrow> kernel \<Rightarrow> bool" where
  "switch_contract s s' \<longleftrightarrow>
     sched_inv s' \<and> switched s s' \<and> work_conserving s' \<and> blocked_kept s s' \<and> runnable_kept s s' \<and> data_kept s s' \<and>
     processes s' = processes s \<and> active_algorithm s' = active_algorithm s"

locale selection_algorithm =
  fixes pick :: "kernel \<Rightarrow> kernel option"
    and serves :: "SchedAlgorithm \<Rightarrow> bool"
  assumes pick_selects:
    "\<lbrakk>sched_rep s Q; serves (active_algorithm s)\<rbrakk> \<Longrightarrow>
       \<exists>s2 Q2 np s3 Q3 ts. requeued (preempt_disable s) Q s2 Q2 \<and> selects s2 Q2 np s3 Q3 \<and>
         (np = None \<longrightarrow> (\<forall>p. \<not> queued Q3 p)) \<and> pick s = Some (dispatch np ts s3)"
begin

lemma pick_correct:
  assumes rep: "sched_rep s Q" and serves: "serves (active_algorithm s)"
  shows "\<exists>s'. pick s = Some s' \<and> switch_contract s s'"
proof -
  let ?s1 = "preempt_disable s"
  obtain s2 Q2 np s3 Q3 ts where P: "requeued ?s1 Q s2 Q2" "selects s2 Q2 np s3 Q3"
    "np = None \<longrightarrow> (\<forall>p. \<not> queued Q3 p)" "pick s = Some (dispatch np ts s3)"
    using pick_selects [OF rep serves] by blast
  let ?d = "dispatch np ts s3"
  have rep1: "sched_rep ?s1 Q" using rep by (rule sched_rep_preempt)
  note X = selected_rep [OF rep1 P(1,2)]
  have rep': "sched_rep ?d Q3" by (rule dispatch_rep [OF rep1 P(1,2)])
  then have "sched_inv ?d" by (auto simp: sched_inv_def)
  moreover have "switched s ?d"
  proof -
    note T = static_fields [OF X(8)] and F = frame_fields [OF X(9)]
    have cur: "current_process s3 = current_process s" using X(4) by (simp add: preempt_disable_def)
    have regs: "cpu_regs s3 = cpu_regs s" "ttbr0_el1 s3 = ttbr0_el1 s"
      using F(7,8) by (simp_all add: preempt_disable_def modify_pcb_def)
    have pd: "preempt_disabled (pcbs s3 p) = preempt_disabled (pcbs s p) + of_bool (p = current_process s)" for p
      using T(7) by (simp add: preempt_disable_def upd_pcb_apply)
    have ctx: "cpu_context (pcbs s3 p) = cpu_context (pcbs s p)" "mm (pcbs s3 p) = mm (pcbs s p)" for p
      using T(1) [of p] T(11) [of p] by (simp_all add: preempt_disable_def upd_pcb_apply split: if_splits)
    show ?thesis
    proof (cases "dispatch_target np = current_process s")
      case True
      with cur have tg: "dispatch_target np = current_process s3" by simp
      show ?thesis using True tg
        by (simp add: switched_def dispatch_kernel dispatch_state dispatch_preempt dispatch_same [OF tg] pd regs ctx)
    next
      case False
      with cur have tg: "dispatch_target np \<noteq> current_process s3" by simp
      show ?thesis using False cur dispatch_context(3) [OF tg, where ts = ts]
        by (simp add: switched_def dispatch_kernel dispatch_state dispatch_preempt pd regs ctx
            dispatch_context(1,2,4) [OF tg, unfolded cur])
    qed
  qed
  moreover have "work_conserving ?d"
  proof -
    have "np = None" if "dispatch_target np = Init_process"
      using that X(6) [of Init_process] by (auto simp: dispatch_target_def split: option.splits)
    then show ?thesis using P(3) sched_repD(5) [OF rep'] by (auto simp: work_conserving_def dispatch_kernel)
  qed
  moreover have "blocked_kept s ?d"
    unfolding blocked_kept_def
  proof (intro allI impI)
    fix p assume p: "live s p \<and> p \<noteq> Init_process \<and> state (pcbs s p) \<noteq> PROCESS_READY \<and> state (pcbs s p) \<noteq> PROCESS_RUNNING"
    have p1: "live ?s1 p" "state (pcbs ?s1 p) = state (pcbs s p)"
      using p by (simp_all add: live_def preempt_disable_def upd_pcb_apply)
    have st3: "state (pcbs s3 p) = state (pcbs s p)"
    proof (cases "p = current_process s")
      case False
      then show ?thesis using p p1 sched_repD(5) [OF rep1, of p] X(10) [of p] by (simp add: preempt_disable_def)
    next
      case True
      have nr: "\<not> current_runnable ?s1" using True p p1 by (simp add: current_runnable_def preempt_disable_def)
      then have nq: "\<not> queued Q2 p" using requeued_fields(5) [OF P(1)] sched_repD(5) [OF rep1, of p] p p1 by simp
      then have "state (pcbs s3 p) = state (pcbs s2 p)" using P(2) by (simp add: selects_def)
      then show ?thesis using requeued_fields(6) [OF P(1), of p] nr p1 by simp
    qed
    then have "dispatch_target np \<noteq> p"
      using X(6) [of p] p by (auto simp: dispatch_target_def split: option.splits)
    then show "state (pcbs ?d p) = state (pcbs s p)" using st3 p by (simp add: dispatch_state)
  qed
  moreover have "runnable_kept s ?d"
    unfolding runnable_kept_def
  proof (intro allI impI)
    fix p assume p: "live s p \<and> p \<noteq> Init_process \<and> state (pcbs s p) \<in> {PROCESS_READY, PROCESS_RUNNING}"
    have p1: "live ?s1 p" "state (pcbs ?s1 p) = state (pcbs s p)" "doomed (pcbs ?s1 p) = doomed (pcbs s p)"
      using p by (simp_all add: live_def preempt_disable_def upd_pcb_apply doomed_def)
    have q2: "queued Q2 p"
      using p p1 sched_repD(5,6) [OF rep1, of p] requeued_fields(5) [OF P(1), of p] by (auto simp: current_runnable_def)
    have "doomed (pcbs s2 p) = doomed (pcbs s p)"
      using requeued_doomed [OF P(1)] p1 by simp
    then have "np = Some p \<or> state (pcbs s3 p) = PROCESS_READY \<or>
        doomed (pcbs s p) \<and> (state (pcbs s3 p) = PROCESS_ZOMBIE \<or> state (pcbs s3 p) = PROCESS_STOPPED)"
      using q2 P(2) unfolding selects_def by blast
    then show "state (pcbs ?d p) \<in> {PROCESS_READY, PROCESS_RUNNING} \<or>
        doomed (pcbs s p) \<and> state (pcbs ?d p) \<in> {PROCESS_ZOMBIE, PROCESS_STOPPED}"
      by (auto simp: dispatch_state dispatch_target_def)
  qed
  moreover have "data_kept s ?d"
  proof -
    note T = static_fields [OF X(8)] and F = frame_fields [OF X(9)]
    show ?thesis unfolding data_kept_def dispatch_pcbs dispatch_kernel F T
      by (simp add: preempt_disable_def modify_pcb_def upd_pcb_apply)
  qed
  moreover have "processes ?d = processes s" "active_algorithm ?d = active_algorithm s"
    using X(5) frame_fields(5) [OF X(9)] by (simp_all add: dispatch_kernel preempt_disable_def)
  ultimately show ?thesis using P(4) unfolding switch_contract_def by blast
qed

end

end
