(* ===== verification/Scheduler_Instances.thy ===== *)
theory Scheduler_Instances
  imports Scheduler_Algorithms
begin

section \<open>The five selection functions meet the contract\<close>

text \<open>
  For each \<^verbatim>\<open>_schedule_*\<close> function of \<^verbatim>\<open>libs/scheduler.c\<close>: which process it dispatches and with which
  quantum, and the interpretation of \<open>selection_algorithm\<close>.
\<close>

lemma single_queue_algorithm:
  "a \<in> set single_queue_algorithms \<Longrightarrow> ml_policy a = None"
  by (auto simp: single_queue_algorithms_def sched_algorithm_defs)

lemma preempt_disable_fields [simp]:
  "active_algorithm (preempt_disable s) = active_algorithm s" "current_process (preempt_disable s) = current_process s"
  "queue_level (preempt_disable s) = queue_level s" "processes (preempt_disable s) = processes s"
  "current_runnable (preempt_disable s) = current_runnable s"
  "doomed (pcbs (preempt_disable s) p) = doomed (pcbs s p)" "pid (pcbs (preempt_disable s) p) = pid (pcbs s p)"
  "est_burst (pcbs (preempt_disable s) p) = est_burst (pcbs s p)"
  by (simp_all add: preempt_disable_def current_runnable_def upd_pcb_apply doomed_def)

lemma requeued_ready: "requeued s Q s' Q' \<Longrightarrow> sched_rep s Q \<Longrightarrow> \<forall>p. queued Q' p \<longrightarrow> state (pcbs s' p) = PROCESS_READY"
  using requeued_fields(5,6) [of s Q s' Q'] sched_repD(7) [of s Q] by auto

lemma single_queue_drained:
  assumes "discipline s Q" "ml_policy (active_algorithm s) = None" "Q Ready_queue = []"
  shows "\<not> queued Q p"
proof
  assume "queued Q p"
  then obtain r where "p \<in> set (Q r)" by (auto simp: queued_def)
  with assms show False by (cases r) (simp_all add: discipline_def)
qed

lemma find_None_tl: "find (\<lambda>x. \<not> P x) xs = None \<Longrightarrow> tl (dropWhile P xs) = []"
  by (induction xs) (auto split: if_splits)

text \<open>Taking the first survivor of the ready queue (Round Robin, FCFS, SJF).\<close>

lemma head_selection:
  assumes rep: "sched_rep s Q" and alg: "ml_policy (active_algorithm s) = None" and req: "requeued s Q s2 Q2"
  obtains s3 Q3 where "dequeue_runnable Ready_queue s2 = Some (find (\<lambda>p. \<not> doomed (pcbs s p)) (Q2 Ready_queue), s3)"
    "selects s2 Q2 (find (\<lambda>p. \<not> doomed (pcbs s p)) (Q2 Ready_queue)) s3 Q3"
    "find (\<lambda>p. \<not> doomed (pcbs s p)) (Q2 Ready_queue) = None \<longrightarrow> (\<forall>p. \<not> queued Q3 p)"
    "Q3 Ready_queue = tl (dropWhile (\<lambda>p. doomed (pcbs s p)) (Q2 Ready_queue))"
proof -
  note R = requeued_fields [OF req]
  have v: "valid_ref Ready_queue" by (simp add: valid_ref_def)
  let ?np = "find (\<lambda>p. \<not> doomed (pcbs s p)) (Q2 Ready_queue)"
  let ?Q3 = "Q2(Ready_queue := tl (dropWhile (\<lambda>p. doomed (pcbs s p)) (Q2 Ready_queue)))"
  obtain s3 where d: "dequeue_runnable Ready_queue s2 = Some (?np, s3)" "selects s2 Q2 ?np s3 ?Q3"
    using dequeue_runnable_selects [OF R(4) v requeued_ready [OF req rep]]
    unfolding requeued_doomed [OF req] by blast
  have "\<not> queued ?Q3 p" if "?np = None" for p
  proof (rule single_queue_drained)
    show "discipline s3 ?Q3" by (rule selected_rep(3) [OF rep req d(2)])
    show "ml_policy (active_algorithm s3) = None"
      using alg frame_fields(5) [OF selected_rep(9) [OF rep req d(2)]] by simp
    show "?Q3 Ready_queue = []" using find_None_tl [OF that] by simp
  qed
  then show thesis using that [OF d] by simp
qed

subsection \<open>Round Robin, FCFS and SJF\<close>

definition rotation :: "kernel \<Rightarrow> queue_contents \<Rightarrow> pcb_ptr list" where
  "rotation s Q = Q Ready_queue @ (if current_runnable s then [current_process s] else [])"

lemma round_robin_spec:
  assumes rep: "sched_rep s Q" and alg: "active_algorithm s = sched_round_robin"
  obtains s2 Q2 s3 Q3 where "requeued (preempt_disable s) Q s2 Q2"
    "selects s2 Q2 (find (\<lambda>p. \<not> doomed (pcbs s p)) (rotation s Q)) s3 Q3"
    "find (\<lambda>p. \<not> doomed (pcbs s p)) (rotation s Q) = None \<longrightarrow> (\<forall>p. \<not> queued Q3 p)"
    "Q3 Ready_queue = tl (dropWhile (\<lambda>p. doomed (pcbs s p)) (rotation s Q))"
    "schedule_round_robin s = Some (dispatch (find (\<lambda>p. \<not> doomed (pcbs s p)) (rotation s Q)) (Some 10) s3)"
proof -
  let ?s1 = "preempt_disable s"
  have rep1: "sched_rep ?s1 Q" using rep by (rule sched_rep_preempt)
  have pol: "ml_policy (active_algorithm ?s1) = None" "enqueue (active_algorithm ?s1) = Enqueue_fifo"
    using alg by (simp_all add: sched_round_robin_def)
  obtain s2 Q2 where e: "(if current_runnable ?s1 then enqueue_to Ready_queue (Some (current_process ?s1)) ?s1 else Some ?s1) = Some s2"
    "requeued ?s1 Q s2 Q2" "Q2 = Q(Ready_queue := Q Ready_queue @ (if current_runnable ?s1 then [current_process ?s1] else []))"
    by (rule requeue_fifo [OF rep1 pol])
  have q2: "Q2 Ready_queue = rotation s Q" using e(3) by (simp add: rotation_def)
  obtain s3 Q3 where d: "dequeue_runnable Ready_queue s2 = Some (find (\<lambda>p. \<not> doomed (pcbs ?s1 p)) (Q2 Ready_queue), s3)"
    "selects s2 Q2 (find (\<lambda>p. \<not> doomed (pcbs ?s1 p)) (Q2 Ready_queue)) s3 Q3"
    "find (\<lambda>p. \<not> doomed (pcbs ?s1 p)) (Q2 Ready_queue) = None \<longrightarrow> (\<forall>p. \<not> queued Q3 p)"
    "Q3 Ready_queue = tl (dropWhile (\<lambda>p. doomed (pcbs ?s1 p)) (Q2 Ready_queue))"
    by (rule head_selection [OF rep1 pol(1) e(2)])
  note d' = d [unfolded q2 preempt_disable_fields]
  show thesis
    by (rule that [OF e(2) d'(2-4)]) (use e(1) d'(1) in \<open>simp_all add: schedule_round_robin_def Let_def\<close>)
qed

interpretation round_robin: selection_algorithm schedule_round_robin "\<lambda>a. a = sched_round_robin"
proof
  fix s Q assume "sched_rep s Q" "active_algorithm s = sched_round_robin"
  then show "\<exists>s2 Q2 np s3 Q3 ts. requeued (preempt_disable s) Q s2 Q2 \<and> selects s2 Q2 np s3 Q3 \<and>
      (np = None \<longrightarrow> (\<forall>p. \<not> queued Q3 p)) \<and> schedule_round_robin s = Some (dispatch np ts s3)"
    by (rule round_robin_spec) (intro exI conjI, assumption+)
qed

text \<open>The line at the counter: the ready queue with the current process put back by the active policy.\<close>

definition waiting_line :: "kernel \<Rightarrow> queue_contents \<Rightarrow> pcb_ptr list" where
  "waiting_line s Q =
     (if \<not> current_runnable s then Q Ready_queue
      else if enqueue (active_algorithm s) = Enqueue_sjf
      then insert_by (\<lambda>p. est_burst (pcbs s p)) (current_process s) (Q Ready_queue)
      else Q Ready_queue @ [current_process s])"

lemma requeue_line:
  assumes rep: "sched_rep s Q" and alg: "active_algorithm s = sched_fcfs \<or> active_algorithm s = sched_sjf"
  obtains s2 Q2 where
    "(if current_runnable s then call_enqueue (enqueue (active_algorithm s)) (Some (current_process s)) s else Some s) = Some s2"
    "requeued s Q s2 Q2" "Q2 Ready_queue = waiting_line s Q"
  using alg
proof
  assume a: "active_algorithm s = sched_fcfs"
  have pol: "ml_policy (active_algorithm s) = None" "enqueue (active_algorithm s) = Enqueue_fifo"
    using a by (simp_all add: sched_fcfs_def)
  obtain s2 Q2 where e: "(if current_runnable s then enqueue_to Ready_queue (Some (current_process s)) s else Some s) = Some s2"
    "requeued s Q s2 Q2" "Q2 = Q(Ready_queue := Q Ready_queue @ (if current_runnable s then [current_process s] else []))"
    by (rule requeue_fifo [OF rep pol])
  show thesis
    by (rule that [OF _ e(2)]) (use e(1,3) pol in \<open>simp_all add: call_enqueue_def enqueue_fifo_def waiting_line_def split: if_splits\<close>)
next
  assume a: "active_algorithm s = sched_sjf"
  have pol: "ml_policy (active_algorithm s) = None" "enqueue (active_algorithm s) = Enqueue_sjf"
    using a by (simp_all add: sched_sjf_def)
  obtain s2 Q2 where e: "(if current_runnable s then enqueue_sorted Ready_queue (Some (current_process s)) s else Some s) = Some s2"
    "requeued s Q s2 Q2"
    "Q2 = (if current_runnable s then Q(Ready_queue := insert_by (\<lambda>x. est_burst (pcbs s x)) (current_process s) (Q Ready_queue)) else Q)"
    by (rule requeue_sjf [OF rep pol])
  show thesis
    by (rule that [OF _ e(2)]) (use e(1,3) pol in \<open>simp_all add: call_enqueue_def enqueue_sjf_def waiting_line_def split: if_splits\<close>)
qed

lemma queue_head_spec:
  assumes rep: "sched_rep s Q" and alg: "active_algorithm s = sched_fcfs \<or> active_algorithm s = sched_sjf"
  obtains s2 Q2 s3 Q3 where "requeued (preempt_disable s) Q s2 Q2"
    "selects s2 Q2 (find (\<lambda>p. \<not> doomed (pcbs s p)) (waiting_line s Q)) s3 Q3"
    "find (\<lambda>p. \<not> doomed (pcbs s p)) (waiting_line s Q) = None \<longrightarrow> (\<forall>p. \<not> queued Q3 p)"
    "Q3 Ready_queue = tl (dropWhile (\<lambda>p. doomed (pcbs s p)) (waiting_line s Q))"
    "schedule_queue_head s = Some (dispatch (find (\<lambda>p. \<not> doomed (pcbs s p)) (waiting_line s Q)) None s3)"
proof -
  let ?s1 = "preempt_disable s"
  have rep1: "sched_rep ?s1 Q" using rep by (rule sched_rep_preempt)
  have alg1: "active_algorithm ?s1 = sched_fcfs \<or> active_algorithm ?s1 = sched_sjf" using alg by simp
  have pol: "ml_policy (active_algorithm ?s1) = None" using alg by (auto simp: sched_fcfs_def sched_sjf_def)
  obtain s2 Q2 where e:
    "(if current_runnable ?s1 then call_enqueue (enqueue (active_algorithm ?s1)) (Some (current_process ?s1)) ?s1 else Some ?s1) = Some s2"
    "requeued ?s1 Q s2 Q2" "Q2 Ready_queue = waiting_line ?s1 Q"
    by (rule requeue_line [OF rep1 alg1])
  have q2: "Q2 Ready_queue = waiting_line s Q" using e(3) by (simp add: waiting_line_def)
  obtain s3 Q3 where d: "dequeue_runnable Ready_queue s2 = Some (find (\<lambda>p. \<not> doomed (pcbs ?s1 p)) (Q2 Ready_queue), s3)"
    "selects s2 Q2 (find (\<lambda>p. \<not> doomed (pcbs ?s1 p)) (Q2 Ready_queue)) s3 Q3"
    "find (\<lambda>p. \<not> doomed (pcbs ?s1 p)) (Q2 Ready_queue) = None \<longrightarrow> (\<forall>p. \<not> queued Q3 p)"
    "Q3 Ready_queue = tl (dropWhile (\<lambda>p. doomed (pcbs ?s1 p)) (Q2 Ready_queue))"
    by (rule head_selection [OF rep1 pol(1) e(2)])
  note d' = d [unfolded q2 preempt_disable_fields]
  show thesis
    by (rule that [OF e(2) d'(2-4)]) (use e(1) d'(1) in \<open>simp_all add: schedule_queue_head_def Let_def\<close>)
qed

interpretation queue_head: selection_algorithm schedule_queue_head "\<lambda>a. a = sched_fcfs \<or> a = sched_sjf"
proof
  fix s Q assume "sched_rep s Q" "active_algorithm s = sched_fcfs \<or> active_algorithm s = sched_sjf"
  then show "\<exists>s2 Q2 np s3 Q3 ts. requeued (preempt_disable s) Q s2 Q2 \<and> selects s2 Q2 np s3 Q3 \<and>
      (np = None \<longrightarrow> (\<forall>p. \<not> queued Q3 p)) \<and> schedule_queue_head s = Some (dispatch np ts s3)"
    by (rule queue_head_spec) (intro exI conjI, assumption+)
qed

subsection \<open>Lottery and priority aging\<close>

lemma requeued_rep:
  assumes rep: "sched_rep s Q" and req: "requeued s Q s2 Q2"
  shows "sched_rep s2 Q2"
proof -
  note D = sched_repD [OF rep] and R = requeued_fields [OF req]
  note F = rest_fields [OF R(1)] and T = static_fields [OF R(2)]
  have "table_ok s2" by (rule table_ok_cong [OF D(2)]) (simp_all add: F T)
  moreover have "live s2 p = live s p" for p using F(2) by (rule live_cong)
  moreover have "queued Q2 p \<longleftrightarrow> p \<noteq> Init_process \<and> live s p \<and> state (pcbs s2 p) = PROCESS_READY" for p
    using D(4,5) R(5,6) by (auto simp: current_runnable_def)
  moreover have "p = current_process s" if "live s p" "state (pcbs s2 p) = PROCESS_RUNNING" for p
    using that D(6) [of p] R(6) [of p] by (auto split: if_splits)
  ultimately show ?thesis using R(3,4) D(4) F(1) by (simp add: sched_rep_def)
qed

lemma requeue_ready_queue:
  assumes rep: "sched_rep s Q" and alg: "ml_policy (active_algorithm s) = None" "enqueue (active_algorithm s) = Enqueue_fifo"
  obtains s2 Q2 where "(if current_runnable s then enqueue_to Ready_queue (Some (current_process s)) (preempt_disable s)
      else Some (preempt_disable s)) = Some s2" "requeued (preempt_disable s) Q s2 Q2"
    "Q2 Ready_queue = rotation s Q" "sched_rep s2 Q2" "ml_policy (active_algorithm s2) = None"
proof -
  let ?s1 = "preempt_disable s"
  have rep1: "sched_rep ?s1 Q" using rep by (rule sched_rep_preempt)
  have pol: "ml_policy (active_algorithm ?s1) = None" "enqueue (active_algorithm ?s1) = Enqueue_fifo" using alg by simp_all
  obtain s2 Q2 where e: "(if current_runnable ?s1 then enqueue_to Ready_queue (Some (current_process ?s1)) ?s1 else Some ?s1) = Some s2"
    "requeued ?s1 Q s2 Q2" "Q2 = Q(Ready_queue := Q Ready_queue @ (if current_runnable ?s1 then [current_process ?s1] else []))"
    by (rule requeue_fifo [OF rep1 pol])
  show thesis
  proof (rule that [OF _ e(2)])
    show "ml_policy (active_algorithm s2) = None" using alg rest_fields(5) [OF requeued_fields(1) [OF e(2)]] by simp
  qed (use e(1,3) [unfolded preempt_disable_fields] requeued_rep [OF rep1 e(2)] in \<open>simp_all add: rotation_def\<close>)
qed

text \<open>The draw among the processes in the rotation, and the quantum of the winner.\<close>

lemma lottery_spec:
  assumes rep: "sched_rep s Q" and alg: "active_algorithm s = sched_lottery"
  obtains s2 Q2 np s3 Q3 where "requeued (preempt_disable s) Q s2 Q2" "Q2 Ready_queue = rotation s Q"
    "lottery_draw s2 = Some (np, s3)" "selects s2 Q2 np s3 Q3" "np = None \<longrightarrow> (\<forall>p. \<not> queued Q3 p)"
    "schedule_lottery s = Some (dispatch np (Some 10) s3)"
proof -
  have pol: "ml_policy (active_algorithm s) = None" "enqueue (active_algorithm s) = Enqueue_fifo"
    using alg by (simp_all add: sched_lottery_def)
  obtain s2 Q2 where e: "(if current_runnable s then enqueue_to Ready_queue (Some (current_process s)) (preempt_disable s)
      else Some (preempt_disable s)) = Some s2" "requeued (preempt_disable s) Q s2 Q2"
    "Q2 Ready_queue = rotation s Q" "sched_rep s2 Q2" "ml_policy (active_algorithm s2) = None"
    by (rule requeue_ready_queue [OF rep pol])
  note D = sched_repD [OF e(4)]
  obtain np s3 Q3 where d: "lottery_draw s2 = Some (np, s3)" "selects s2 Q2 np s3 Q3" "np = None \<longrightarrow> Q3 Ready_queue = []"
    using lottery_draw_selects [OF D(1,7) ticket_sum_fits [OF e(4)]] by blast
  have "\<not> queued Q3 p" if "np = None" for p
  proof (rule single_queue_drained)
    show "discipline s3 Q3" by (rule selected_rep(3) [OF sched_rep_preempt(1) [OF rep] e(2) d(2)])
    show "ml_policy (active_algorithm s3) = None" using e(5) d(2) frame_fields(5) [of s3 s2] by (simp add: selects_def)
    show "Q3 Ready_queue = []" using d(3) that by blast
  qed
  then show thesis
    by (intro that [OF e(2,3) d(1,2)]) (use e(1) d(1) in \<open>simp_all add: schedule_lottery_def Let_def split: if_splits\<close>)
qed

interpretation lottery: selection_algorithm schedule_lottery "\<lambda>a. a = sched_lottery"
proof
  fix s Q assume "sched_rep s Q" "active_algorithm s = sched_lottery"
  then show "\<exists>s2 Q2 np s3 Q3 ts. requeued (preempt_disable s) Q s2 Q2 \<and> selects s2 Q2 np s3 Q3 \<and>
      (np = None \<longrightarrow> (\<forall>p. \<not> queued Q3 p)) \<and> schedule_lottery s = Some (dispatch np ts s3)"
    by (rule lottery_spec) (intro exI conjI, assumption+)
qed

lemma priority_aging_spec:
  assumes rep: "sched_rep s Q" and alg: "active_algorithm s = sched_priority_aging"
  obtains s2 Q2 np s3 Q3 where "requeued (preempt_disable s) Q s2 Q2" "Q2 Ready_queue = rotation s Q"
    "selects s2 Q2 np s3 Q3" "aging_choice s3 Q3 np" "np = None \<longrightarrow> (\<forall>p. \<not> queued Q3 p)"
    "schedule_priority_aging s = Some (dispatch np None s3)"
proof -
  have pol: "ml_policy (active_algorithm s) = None" "enqueue (active_algorithm s) = Enqueue_fifo"
    using alg by (simp_all add: sched_priority_aging_def)
  obtain s2 Q2 where e: "(if current_runnable s then enqueue_to Ready_queue (Some (current_process s)) (preempt_disable s)
      else Some (preempt_disable s)) = Some s2" "requeued (preempt_disable s) Q s2 Q2"
    "Q2 Ready_queue = rotation s Q" "sched_rep s2 Q2" "ml_policy (active_algorithm s2) = None"
    by (rule requeue_ready_queue [OF rep pol])
  note D = sched_repD [OF e(4)]
  have reg: "\<forall>p. queued Q2 p \<longrightarrow> registered s2 p"
    using D(5) live_count [OF D(2)] table_okD(6) [OF D(2)] by (simp add: registered_def)
  obtain np s3 Q3 where d: "aging_select s2 = Some (np, s3)" "selects s2 Q2 np s3 Q3" "aging_choice s3 Q3 np"
    using aging_select_selects [OF D(1,7) reg] by blast
  have "\<not> queued Q3 p" if "np = None" for p
  proof (rule single_queue_drained)
    show "discipline s3 Q3" by (rule selected_rep(3) [OF sched_rep_preempt(1) [OF rep] e(2) d(2)])
    show "ml_policy (active_algorithm s3) = None" using e(5) d(2) frame_fields(5) [of s3 s2] by (simp add: selects_def)
    show "Q3 Ready_queue = []" using d(3) that by (simp add: aging_choice_def)
  qed
  then show thesis
    by (intro that [OF e(2,3) d(2,3)]) (use e(1) d(1) in \<open>simp_all add: schedule_priority_aging_def Let_def split: if_splits\<close>)
qed

interpretation priority_aging: selection_algorithm schedule_priority_aging "\<lambda>a. a = sched_priority_aging"
proof
  fix s Q assume "sched_rep s Q" "active_algorithm s = sched_priority_aging"
  then show "\<exists>s2 Q2 np s3 Q3 ts. requeued (preempt_disable s) Q s2 Q2 \<and> selects s2 Q2 np s3 Q3 \<and>
      (np = None \<longrightarrow> (\<forall>p. \<not> queued Q3 p)) \<and> schedule_priority_aging s = Some (dispatch np ts s3)"
    by (rule priority_aging_spec) (intro exI conjI, assumption+)
qed

end
