(* ===== verification/Scheduler_Multilevel.thy ===== *)
theory Scheduler_Multilevel
  imports Scheduler_Instances
begin

section \<open>Multilevel queues: cascade, boost and demotion\<close>

text \<open>
  The MLQ and MLFQ algorithms of \<^verbatim>\<open>libs/scheduler.c\<close>. The cascade takes the first survivor of the
  lowest-numbered level that has one; the boost moves every queued process to level 0 in
  order and resets all levels; a process that used up its quantum is demoted by one level.
\<close>

lemma ml_cascade_selects:
  assumes "queues_rep s Q" "\<forall>p. queued Q p \<longrightarrow> state (pcbs s p) = PROCESS_READY"
    and "\<forall>q \<in> set qs. valid_ref (Ml_queue q)" "sorted_wrt (<) qs"
  shows "\<exists>found s' Q'. ml_cascade qs s = Some (found, s') \<and> selects s Q (map_option fst found) s' Q' \<and>
    (case found of None \<Rightarrow> \<forall>q \<in> set qs. Q' (Ml_queue q) = []
     | Some (p, l) \<Rightarrow> l \<in> set qs \<and> p \<in> set (Q (Ml_queue l)) \<and> (\<forall>q \<in> set qs. q < l \<longrightarrow> Q' (Ml_queue q) = []))"
  using assms
proof (induction qs arbitrary: s Q)
  case Nil
  then have "selects s Q None s Q" by (intro selects_refl)
  then show ?case by auto
next
  case (Cons q qs)
  have v: "valid_ref (Ml_queue q)" using Cons.prems(3) by simp
  let ?np = "find (\<lambda>p. \<not> doomed (pcbs s p)) (Q (Ml_queue q))"
  let ?Q1 = "Q(Ml_queue q := tl (dropWhile (\<lambda>p. doomed (pcbs s p)) (Q (Ml_queue q))))"
  obtain s1 where d: "dequeue_runnable (Ml_queue q) s = Some (?np, s1)" "selects s Q ?np s1 ?Q1"
    using dequeue_runnable_selects [OF Cons.prems(1) v Cons.prems(2)] by blast
  show ?case
  proof (cases ?np)
    case (Some p)
    then have mem: "p \<in> set (Q (Ml_queue q))" by (auto simp: find_Some_iff)
    have "ml_cascade (q # qs) s = Some (Some (p, q), s1)" using d(1) Some by simp
    moreover have "selects s Q (map_option fst (Some (p, q))) s1 ?Q1" using d(2) Some by simp
    moreover have "case Some (p, q) of None \<Rightarrow> \<forall>a \<in> set (q # qs). ?Q1 (Ml_queue a) = []
      | Some (p, l) \<Rightarrow> l \<in> set (q # qs) \<and> p \<in> set (Q (Ml_queue l)) \<and> (\<forall>a \<in> set (q # qs). a < l \<longrightarrow> ?Q1 (Ml_queue a) = [])"
      using Cons.prems(4) mem by auto
    ultimately show ?thesis by blast
  next
    case None
    have emp: "?Q1 (Ml_queue q) = []" using find_None_tl [OF None] by simp
    have sel: "selects s Q None s1 ?Q1" using d(2) None by simp
    from selects_ready [OF sel] have r: "queues_rep s1 ?Q1" "\<forall>p. queued ?Q1 p \<longrightarrow> state (pcbs s1 p) = PROCESS_READY"
      by auto
    have vs: "\<forall>a \<in> set qs. valid_ref (Ml_queue a)" "sorted_wrt (<) qs" using Cons.prems(3,4) by simp_all
    obtain found s' Q' where IH: "ml_cascade qs s1 = Some (found, s')" "selects s1 ?Q1 (map_option fst found) s' Q'"
      "case found of None \<Rightarrow> \<forall>a \<in> set qs. Q' (Ml_queue a) = []
       | Some (p, l) \<Rightarrow> l \<in> set qs \<and> p \<in> set (?Q1 (Ml_queue l)) \<and> (\<forall>a \<in> set qs. a < l \<longrightarrow> Q' (Ml_queue a) = [])"
      using Cons.IH [OF r vs] by blast
    have "subseq (Q' (Ml_queue q)) (?Q1 (Ml_queue q))" using IH(2) by (simp only: selects_def)
    with emp have emp': "Q' (Ml_queue q) = []" by (simp only: list_emb_Nil2)
    have lt: "\<forall>a \<in> set qs. q \<noteq> a" using Cons.prems(4) by auto
    have run: "ml_cascade (q # qs) s = Some (found, s')" using d(1) None IH(1) by simp
    show ?thesis
    proof (cases found)
      case None
      with IH(3) emp' run selects_trans [OF sel IH(2)] show ?thesis by (intro exI [of _ None]) auto
    next
      case (Some pl)
      obtain p l where pl: "pl = (p, l)" by (cases pl)
      with Some IH(3) lt have "l \<in> set qs" "p \<in> set (Q (Ml_queue l))" "\<forall>a \<in> set qs. a < l \<longrightarrow> Q' (Ml_queue a) = []"
        by auto
      with Some pl emp' run selects_trans [OF sel IH(2)] show ?thesis by (intro exI [of _ found]) auto
    qed
  qed
qed

lemma ml_algorithm:
  assumes "a = sched_mlq \<or> a = sched_mlfq"
  obtains pol where "ml_policy a = Some pol" "n_levels pol = 5" "length (quantum pol) = 5" "levels pol = [0, 1, 2, 3, 4]"
    "enqueue a = Enqueue_multilevel" "pick_next a = Schedule_multilevel" "on_tick a = Some Multilevel_on_tick" "is_preemptive a"
    "\<forall>l \<in> set (levels pol). \<exists>n. aget (quantum pol) l = Some n \<and> 0 < n"
proof -
  have u: "[0..<5] = [0, 1, 2, 3, 4]" by (simp add: upt_rec)
  from assms show thesis
    by (elim disjE)
      (auto intro!: that simp: sched_mlq_def sched_mlfq_def ml_policy_mlq_def ml_policy_mlfq_def levels_def u aget_def)
qed

lemma multilevel_drained:
  assumes "queues_rep s Q" "discipline s Q" "ml_policy (active_algorithm s) \<noteq> None"
    and "\<forall>q \<in> set [0, 1, 2, 3, 4]. Q (Ml_queue q) = []"
  shows "\<not> queued Q p"
proof
  assume "queued Q p"
  then obtain r where r: "p \<in> set (Q r)" by (auto simp: queued_def)
  then have "valid_ref r" using queues_rep_invalid [OF assms(1)] by fastforce
  then show False
  proof (cases r)
    case Ready_queue
    then show False using r assms(2,3) by (auto simp: discipline_def)
  next
    case (Ml_queue i)
    with \<open>valid_ref r\<close> have "i \<in> set [0, 1, 2, 3, 4]" by (auto simp: valid_ref_def)
    then show False using r Ml_queue bspec [OF assms(4), of i] by simp
  qed
qed

text \<open>
  The contract of \<^verbatim>\<open>_schedule_multilevel\<close>: the process comes from level \<open>l\<close>, all higher
  levels are empty afterwards, and the quantum is the one of level \<open>l\<close>.
\<close>

definition level_line :: "kernel \<Rightarrow> queue_contents \<Rightarrow> int \<Rightarrow> pcb_ptr list" where
  "level_line s Q l = Q (Ml_queue l) @
     (if current_runnable s \<and> level_of s (current_process s) = l then [current_process s] else [])"

lemma multilevel_spec:
  assumes rep: "sched_rep s Q" and alg: "active_algorithm s = sched_mlq \<or> active_algorithm s = sched_mlfq"
  obtains (run) s2 Q2 s3 Q3 p l ts pol where "requeued (preempt_disable s) Q s2 Q2" "selects s2 Q2 (Some p) s3 Q3"
      "ml_policy (active_algorithm s) = Some pol" "aget (quantum pol) l = Some ts"
      "p \<in> set (level_line s Q l)" "\<forall>q < l. Q3 (Ml_queue q) = []"
      "schedule_multilevel s = Some (dispatch (Some p) (Some ts) s3)"
  | (idle) s2 Q2 s3 Q3 where "requeued (preempt_disable s) Q s2 Q2" "selects s2 Q2 None s3 Q3"
      "\<forall>p. \<not> queued Q3 p" "schedule_multilevel s = Some (dispatch None None s3)"
proof -
  let ?s1 = "preempt_disable s"
  have rep1: "sched_rep ?s1 Q" using rep by (rule sched_rep_preempt)
  obtain pol where pol: "ml_policy (active_algorithm s) = Some pol" "n_levels pol = 5" "length (quantum pol) = 5"
      "levels pol = [0, 1, 2, 3, 4]" "enqueue (active_algorithm s) = Enqueue_multilevel"
      "\<forall>l \<in> set (levels pol). \<exists>n. aget (quantum pol) l = Some n \<and> 0 < n"
    by (rule ml_algorithm [OF alg])
  have pol1: "ml_policy (active_algorithm ?s1) \<noteq> None" "enqueue (active_algorithm ?s1) = Enqueue_multilevel"
    using pol by simp_all
  obtain s2 Q2 where e: "(if current_runnable ?s1 then enqueue_multilevel (Some (current_process ?s1)) ?s1 else Some ?s1) = Some s2"
    "requeued ?s1 Q s2 Q2"
    "Q2 = (let l = Ml_queue (level_of ?s1 (current_process ?s1)) in Q(l := Q l @ (if current_runnable ?s1 then [current_process ?s1] else [])))"
    by (rule requeue_multilevel [OF rep1 pol1])
  have line: "Q2 (Ml_queue l) = level_line s Q l" for l
    using e(3) by (simp add: Let_def level_line_def level_of_def)
  note e' = e(1) [unfolded preempt_disable_fields]
  note D = sched_repD [OF requeued_rep [OF rep1 e(2)]]
  have v: "\<forall>q \<in> set (levels pol). valid_ref (Ml_queue q)" "sorted_wrt (<) (levels pol)"
    using pol(4) by (simp_all add: valid_ref_def)
  obtain found s3 Q3 where c: "ml_cascade (levels pol) s2 = Some (found, s3)" "selects s2 Q2 (map_option fst found) s3 Q3"
    "case found of None \<Rightarrow> \<forall>q \<in> set (levels pol). Q3 (Ml_queue q) = []
     | Some (p, l) \<Rightarrow> l \<in> set (levels pol) \<and> p \<in> set (Q2 (Ml_queue l)) \<and>
         (\<forall>q \<in> set (levels pol). q < l \<longrightarrow> Q3 (Ml_queue q) = [])"
    using ml_cascade_selects [OF D(1,7) v] by blast
  note X = selected_rep [OF rep1 e(2) c(2)]
  show thesis
  proof (cases found)
    case None
    have "\<not> queued Q3 p" for p
    proof (rule multilevel_drained [OF X(1,3)])
      show "ml_policy (active_algorithm s3) \<noteq> None" using pol(1) frame_fields(5) [OF X(9)] by simp
      show "\<forall>q \<in> set [0, 1, 2, 3, 4]. Q3 (Ml_queue q) = []" using c(3) None pol(4) by (simp del: set_simps)
    qed
    moreover have "schedule_multilevel s = Some (dispatch None None s3)"
      using e' c(1) None pol(1) by (simp add: schedule_multilevel_def Let_def split: if_splits)
    ultimately show thesis using idle [OF e(2)] c(2) None by simp
  next
    case (Some pl)
    obtain p l where pl: "pl = (p, l)" by (cases pl)
    with Some c(3) have l: "l \<in> set (levels pol)" "p \<in> set (Q2 (Ml_queue l))"
      "\<forall>q \<in> set (levels pol). q < l \<longrightarrow> Q3 (Ml_queue q) = []" by simp_all
    obtain ts where ts: "aget (quantum pol) l = Some ts" using pol(6) l(1) by blast
    have "Q3 (Ml_queue q) = []" if "q < l" for q
    proof (cases "valid_ref (Ml_queue q)")
      case True
      then have "q \<in> set (levels pol)" using pol(4) by (auto simp: valid_ref_def)
      then show ?thesis using l(3) that by blast
    qed (use X(1) queues_rep_invalid in blast)
    moreover have "schedule_multilevel s = Some (dispatch (Some p) (Some ts) s3)"
      using e' c(1) Some pl pol(1) ts by (simp add: schedule_multilevel_def Let_def split: if_splits)
    moreover have "selects s2 Q2 (Some p) s3 Q3" using c(2) Some pl by simp
    ultimately show thesis using run [OF e(2) _ pol(1) ts l(2) [unfolded line]] by blast
  qed
qed

interpretation multilevel: selection_algorithm schedule_multilevel "\<lambda>a. a = sched_mlq \<or> a = sched_mlfq"
proof
  fix s Q assume "sched_rep s Q" "active_algorithm s = sched_mlq \<or> active_algorithm s = sched_mlfq"
  then show "\<exists>s2 Q2 np s3 Q3 ts. requeued (preempt_disable s) Q s2 Q2 \<and> selects s2 Q2 np s3 Q3 \<and>
      (np = None \<longrightarrow> (\<forall>p. \<not> queued Q3 p)) \<and> schedule_multilevel s = Some (dispatch np ts s3)"
  proof (cases rule: multilevel_spec)
    case run
    then show ?thesis by (metis option.distinct(1))
  next
    case idle
    then show ?thesis by metis
  qed
qed

subsection \<open>The periodic boost\<close>

lemma core_ready: "state (h p) = PROCESS_READY \<Longrightarrow> upd_pcb p (\<lambda>x. x\<lparr>state := PROCESS_READY\<rparr>) (core h) = core h"
  by (rule ext) (simp add: upd_pcb_apply core_def)

lemma rest_levels: "rest (s\<lparr>queue_level := l\<rparr>) = (rest s)\<lparr>queue_level := l\<rparr>"
  by (simp add: rest_def)

lemma queues_rep_kernel:
  assumes "queues_rep s Q" "pcbs s' = pcbs s" "ready_queue s' = ready_queue s" "ml_queues s' = ml_queues s"
  shows "queues_rep s' Q"
  by (rule queues_rep_links [OF assms(1) _ assms(3,4)]) (simp add: assms(2))

definition drainable :: "kernel \<Rightarrow> queue_contents \<Rightarrow> bool" where
  "drainable s Q \<longleftrightarrow> queues_rep s Q \<and> length (queue_level s) = N_PROCESSES \<and>
     (\<forall>p. queued Q p \<longrightarrow> p \<noteq> Init_process \<and> state (pcbs s p) = PROCESS_READY \<and>
        0 \<le> pid (pcbs s p) \<and> pid (pcbs s p) < int N_PROCESSES)"

lemma ml_drain_step:
  assumes dr: "drainable s Q" and q: "valid_ref (Ml_queue q)" "q \<noteq> 0" and Q: "Q (Ml_queue q) = p # ps"
  obtains s2 l where "ml_drain q s = ml_drain q s2" "drainable s2 (Q(Ml_queue q := ps, Ml_queue 0 := Q (Ml_queue 0) @ [p]))"
    "core (pcbs s2) = core (pcbs s)" "rest s2 = (rest s)\<lparr>queue_level := l\<rparr>"
proof -
  let ?Q1 = "Q(Ml_queue q := ps)"
  let ?Q2 = "Q(Ml_queue q := ps, Ml_queue 0 := Q (Ml_queue 0) @ [p])"
  have rep: "queues_rep s Q" using dr by (simp add: drainable_def)
  have qp: "queued Q p" using queuedI [of Q "Ml_queue q" "[]" p ps] Q by simp
  with dr have p: "p \<noteq> Init_process" "state (pcbs s p) = PROCESS_READY" "0 \<le> pid (pcbs s p)" "pid (pcbs s p) < int N_PROCESSES"
    by (auto simp: drainable_def)
  obtain s1 where d: "dequeue_from (Ml_queue q) s = Some (Some p, s1)" "queues_rep s1 ?Q1"
      "core (pcbs s1) = core (pcbs s)" "rest s1 = rest s"
    by (rule dequeue_from_first [OF rep q(1) Q])
  let ?l = "(queue_level s)[nat (pid (pcbs s p)) := 0]"
  have pid1: "pid (pcbs s1 x) = pid (pcbs s x)" "state (pcbs s1 x) = state (pcbs s x)" for x
    using core_static [OF d(3), of x] core_eq_fields(1) [OF d(3), of x] static_fields(8) [of "pcbs s1 x" "pcbs s x"]
    by simp_all
  have lv: "aset (queue_level s1) (pid (pcbs s1 p)) 0 = Some ?l"
    using p dr rest_fields(4) [OF d(4)] pid1 by (simp add: aset_def drainable_def)
  let ?s1 = "s1\<lparr>queue_level := ?l\<rparr>"
  have rep1: "queues_rep ?s1 ?Q1" by (rule queues_rep_kernel [OF d(2)]) simp_all
  have nq: "\<not> queued ?Q1 p" using queued_delete [OF rep, of "Ml_queue q" "[]" p ps p] Q by simp
  have v0: "valid_ref (Ml_queue 0)" by (simp add: valid_ref_def)
  obtain s2 where e: "enqueue_to (Ml_queue 0) (Some p) ?s1 = Some s2"
      "queues_rep s2 (?Q1(Ml_queue 0 := ?Q1 (Ml_queue 0) @ [p]))"
      "core (pcbs s2) = upd_pcb p (\<lambda>x. x\<lparr>state := PROCESS_READY\<rparr>) (core (pcbs ?s1))" "rest s2 = rest ?s1"
    by (rule enqueue_to_spec [OF rep1 v0 nq p(1)])
  have Q2: "?Q1(Ml_queue 0 := ?Q1 (Ml_queue 0) @ [p]) = ?Q2" using q(2) by simp
  have c: "core (pcbs s2) = core (pcbs s)"
    using e(3) d(3) core_ready [of "pcbs s1" p] pid1 p(2) by simp
  have r: "rest s2 = (rest s)\<lparr>queue_level := ?l\<rparr>" using e(4) d(4) by (simp add: rest_levels)
  have f2: "state (pcbs s2 x) = state (pcbs s x)" "pid (pcbs s2 x) = pid (pcbs s x)" for x
    using core_eq_fields(1) [OF c, of x] core_static [OF c, of x] static_fields(8) [of "pcbs s2 x" "pcbs s x"] by simp_all
  have sub: "queued ?Q2 x \<Longrightarrow> queued Q x" for x
    using Q qp by (auto simp: queued_upd) (auto simp: queued_def split: if_splits, metis list.set_intros(2))
  have "length (queue_level s2) = N_PROCESSES"
    using arg_cong [OF r, of queue_level] dr by (simp add: rest_def drainable_def)
  then have "drainable s2 ?Q2"
    using e(2) [unfolded Q2] dr sub f2 by (simp add: drainable_def)
  moreover have "ml_drain q s = ml_drain q s2" using d(1) lv e(1) by (subst ml_drain.simps) simp
  ultimately show thesis using c r that by blast
qed

lemma ml_drain_spec:
  assumes "drainable s Q" "valid_ref (Ml_queue q)" "q \<noteq> 0"
  shows "\<exists>s' l. ml_drain q s = Some s' \<and>
    drainable s' (Q(Ml_queue q := [], Ml_queue 0 := Q (Ml_queue 0) @ Q (Ml_queue q))) \<and>
    core (pcbs s') = core (pcbs s) \<and> rest s' = (rest s)\<lparr>queue_level := l\<rparr>"
  using assms
proof (induction "Q (Ml_queue q)" arbitrary: s Q)
  case Nil
  have rep: "queues_rep s Q" using Nil.prems(1) by (simp add: drainable_def)
  obtain s1 where d: "dequeue_from (Ml_queue q) s = Some (None, s1)" "queues_rep s1 Q" "pcbs s1 = pcbs s" "rest s1 = rest s"
    by (rule dequeue_from_empty [OF rep Nil.prems(2) Nil.hyps [symmetric]])
  have "Q(Ml_queue q := [], Ml_queue 0 := Q (Ml_queue 0) @ Q (Ml_queue q)) = Q" using Nil.hyps [symmetric] by auto
  moreover have "drainable s1 Q" using Nil.prems(1) d rest_fields(4) [OF d(4)] by (simp add: drainable_def)
  moreover have "ml_drain q s = Some s1" using d(1) by (subst ml_drain.simps) simp
  moreover have "rest s1 = (rest s)\<lparr>queue_level := queue_level (rest s)\<rparr>" using d(4) by simp
  ultimately show ?case using d(3) by (metis (no_types))
next
  case (Cons p ps)
  let ?Q2 = "Q(Ml_queue q := ps, Ml_queue 0 := Q (Ml_queue 0) @ [p])"
  obtain s2 l where st: "ml_drain q s = ml_drain q s2" "drainable s2 ?Q2"
    "core (pcbs s2) = core (pcbs s)" "rest s2 = (rest s)\<lparr>queue_level := l\<rparr>"
    by (rule ml_drain_step [OF Cons.prems Cons.hyps(2) [symmetric]])
  have ps: "ps = ?Q2 (Ml_queue q)" using Cons.prems(3) by simp
  obtain s' l' where IH: "ml_drain q s2 = Some s'"
    "drainable s' (?Q2(Ml_queue q := [], Ml_queue 0 := ?Q2 (Ml_queue 0) @ ?Q2 (Ml_queue q)))"
    "core (pcbs s') = core (pcbs s2)" "rest s' = (rest s2)\<lparr>queue_level := l'\<rparr>"
    using Cons.hyps(1) [OF ps st(2) Cons.prems(2,3)] by blast
  have "?Q2(Ml_queue q := [], Ml_queue 0 := ?Q2 (Ml_queue 0) @ ?Q2 (Ml_queue q))
      = Q(Ml_queue q := [], Ml_queue 0 := Q (Ml_queue 0) @ Q (Ml_queue q))"
    using Cons.prems(3) Cons.hyps(2) [symmetric] by auto
  with IH(2) have "drainable s' (Q(Ml_queue q := [], Ml_queue 0 := Q (Ml_queue 0) @ Q (Ml_queue q)))" by simp
  moreover have "rest s' = (rest s)\<lparr>queue_level := l'\<rparr>" using IH(4) st(4) by simp
  ultimately show ?case using IH(1,3) st(1,3) by metis
qed

lemma ml_drain_all_spec:
  assumes "drainable s Q" "\<forall>q \<in> set qs. valid_ref (Ml_queue q) \<and> q \<noteq> 0" "distinct qs"
  shows "\<exists>s' l. ml_drain_all qs s = Some s' \<and>
    drainable s' (\<lambda>r. if r = Ml_queue 0 then Q r @ concat (map (\<lambda>q. Q (Ml_queue q)) qs)
                     else if r \<in> Ml_queue ` set qs then [] else Q r) \<and>
    core (pcbs s') = core (pcbs s) \<and> rest s' = (rest s)\<lparr>queue_level := l\<rparr>"
  using assms
proof (induction qs arbitrary: s Q)
  case Nil
  have "rest s = (rest s)\<lparr>queue_level := queue_level (rest s)\<rparr>" by simp
  moreover have "(\<lambda>r. if r = Ml_queue 0 then Q r @ concat (map (\<lambda>q. Q (Ml_queue q)) [])
      else if r \<in> Ml_queue ` set [] then [] else Q r) = Q" by auto
  ultimately show ?case using Nil.prems by (metis ml_drain_all.simps(1))
next
  case (Cons q qs)
  let ?Q1 = "Q(Ml_queue q := [], Ml_queue 0 := Q (Ml_queue 0) @ Q (Ml_queue q))"
  obtain s1 l where d: "ml_drain q s = Some s1" "drainable s1 ?Q1" "core (pcbs s1) = core (pcbs s)"
    "rest s1 = (rest s)\<lparr>queue_level := l\<rparr>"
    using ml_drain_spec [OF Cons.prems(1), of q] Cons.prems(2) by auto
  obtain s' l' where IH: "ml_drain_all qs s1 = Some s'"
    "drainable s' (\<lambda>r. if r = Ml_queue 0 then ?Q1 r @ concat (map (\<lambda>q. ?Q1 (Ml_queue q)) qs)
                     else if r \<in> Ml_queue ` set qs then [] else ?Q1 r)"
    "core (pcbs s') = core (pcbs s1)" "rest s' = (rest s1)\<lparr>queue_level := l'\<rparr>"
    using Cons.IH [OF d(2)] Cons.prems(2,3) by auto
  have q0: "q \<noteq> 0" using Cons.prems(2) by simp
  have m: "map (\<lambda>a. ?Q1 (Ml_queue a)) qs = map (\<lambda>a. Q (Ml_queue a)) qs" using Cons.prems(2,3) by auto
  have "(\<lambda>r. if r = Ml_queue 0 then ?Q1 r @ concat (map (\<lambda>a. ?Q1 (Ml_queue a)) qs)
                     else if r \<in> Ml_queue ` set qs then [] else ?Q1 r)
     = (\<lambda>r. if r = Ml_queue 0 then Q r @ concat (map (\<lambda>a. Q (Ml_queue a)) (q # qs))
                     else if r \<in> Ml_queue ` set (q # qs) then [] else Q r)"
    unfolding m using q0 by (intro ext) auto
  with IH d show ?case by (intro exI [of _ s'] exI [of _ l']) auto
qed

end
