(* ===== verification/Scheduler_Correctness.thy ===== *)
theory Scheduler_Correctness
  imports Scheduler_Multilevel
begin

section \<open>Correctness of the scheduler\<close>

text \<open>
  The entry points of \<^verbatim>\<open>libs/scheduler.c\<close> \<^verbatim>\<open>schedule\<close>, \<^verbatim>\<open>handle_timer_tick\<close>, \<^verbatim>\<open>exit_process\<close>,
  \<^verbatim>\<open>add_process_to_scheduler\<close> and \<^verbatim>\<open>sched_set_param\<close> have a defined outcome in every state that
  satisfies the scheduler invariant, keep it, and do what the algorithms promise.
\<close>

subsection \<open>Changes the invariant does not see\<close>

lemma sched_rep_cong:
  assumes rep: "sched_rep s Q"
    and eq: "links (pcbs s') = links (pcbs s)" "ready_queue s' = ready_queue s" "ml_queues s' = ml_queues s"
      "processes s' = processes s" "active_algorithm s' = active_algorithm s" "current_process s' = current_process s"
    and lv: "length (queue_level s') = N_PROCESSES" "\<forall>l \<in> set (queue_level s'). 0 \<le> l \<and> l < int ML_MAX_LEVELS"
    and pcb: "\<And>p. state (pcbs s' p) = state (pcbs s p)" "\<And>p. pid (pcbs s' p) = pid (pcbs s p)"
      "\<And>p. priority (pcbs s' p) = priority (pcbs s p)" "\<And>p. tickets (pcbs s' p) = tickets (pcbs s p)"
      "\<And>p. est_burst (pcbs s' p) = est_burst (pcbs s p)"
  shows "sched_rep s' Q"
proof -
  note D = sched_repD [OF rep]
  have "queues_rep s' Q" by (rule queues_rep_links [OF D(1) eq(1-3)])
  moreover have "table_ok s'" using D(2) lv by (simp add: table_ok_def live_def eq pcb)
  moreover have "discipline s' Q" using D(3) by (simp add: discipline_def eq pcb)
  ultimately show ?thesis using rep by (simp add: sched_rep_def live_def eq pcb)
qed

lemma sched_rep_kernel:
  assumes "sched_rep s Q"
  shows "sched_rep (s\<lparr>ml_ticks_since_boost := n\<rparr>) Q" "sched_rep (s\<lparr>irq_enabled := b\<rparr>) Q"
    "length l = N_PROCESSES \<Longrightarrow> \<forall>x \<in> set l. 0 \<le> x \<and> x < int ML_MAX_LEVELS \<Longrightarrow> sched_rep (s\<lparr>queue_level := l\<rparr>) Q"
  using table_okD(3,5) [OF sched_repD(2) [OF assms]]
  by (auto intro!: sched_rep_cong [OF assms])

subsection \<open>The central dispatcher\<close>

lemma schedule_pick_correct:
  assumes "sched_rep s Q"
  shows "\<exists>s'. schedule_pick s = Some s' \<and> switch_contract s s'"
proof -
  have "active_algorithm s \<in> set sched_algorithms" using table_okD(4) [OF sched_repD(2) [OF assms]] .
  then show ?thesis
  proof (cases rule: algorithm_cases)
    case 1
    then have "schedule_pick s = schedule_round_robin s" by (simp add: schedule_pick_def sched_round_robin_def)
    with round_robin.pick_correct [OF assms 1] show ?thesis by simp
  next
    case 2
    then have "schedule_pick s = schedule_queue_head s" by (simp add: schedule_pick_def sched_fcfs_def)
    with queue_head.pick_correct [OF assms] 2 show ?thesis by simp
  next
    case 3
    then have "schedule_pick s = schedule_queue_head s" by (simp add: schedule_pick_def sched_sjf_def)
    with queue_head.pick_correct [OF assms] 3 show ?thesis by simp
  next
    case 4
    then have "schedule_pick s = schedule_lottery s" by (simp add: schedule_pick_def sched_lottery_def)
    with lottery.pick_correct [OF assms 4] show ?thesis by simp
  next
    case 5
    then have "schedule_pick s = schedule_priority_aging s" by (simp add: schedule_pick_def sched_priority_aging_def)
    with priority_aging.pick_correct [OF assms 5] show ?thesis by simp
  next
    case 6
    then have "schedule_pick s = schedule_multilevel s" by (simp add: schedule_pick_def sched_mlq_def)
    with multilevel.pick_correct [OF assms] 6 show ?thesis by simp
  next
    case 7
    then have "schedule_pick s = schedule_multilevel s" by (simp add: schedule_pick_def sched_mlfq_def)
    with multilevel.pick_correct [OF assms] 7 show ?thesis by simp
  qed
qed

text \<open>The preparation of \<^verbatim>\<open>schedule\<close>: burst estimate and counter of the outgoing process.\<close>

definition schedule_entry :: "kernel \<Rightarrow> kernel" where
  "schedule_entry s =
     (let c = current_process s;
          s1 = (if c \<noteq> Init_process \<and> state (pcbs s c) \<noteq> PROCESS_RUNNING \<and> state (pcbs s c) \<noteq> PROCESS_READY
                then modify_pcb c (\<lambda>x. x\<lparr>est_burst := (burst_ticks x + est_burst x) sdiv 2, burst_ticks := 0\<rparr>) s
                else s)
      in modify_pcb c (\<lambda>x. x\<lparr>counter := 0\<rparr>) s1)"

lemma schedule_eq: "schedule s = schedule_pick (schedule_entry s)"
  by (simp add: schedule_def schedule_entry_def Let_def)

lemma schedule_entry_rep:
  assumes "sched_rep s Q"
  shows "sched_rep (schedule_entry s) Q"
proof -
  have 1: "sched_rep (modify_pcb p (\<lambda>x. x\<lparr>counter := 0\<rparr>) s') Q" if "sched_rep s' Q" for s' p
    using that by (rule sched_rep_modify) simp_all
  have 2: "sched_rep (modify_pcb (current_process s) (\<lambda>x. x\<lparr>est_burst := (burst_ticks x + est_burst x) sdiv 2, burst_ticks := 0\<rparr>) s) Q"
    if "state (pcbs s (current_process s)) \<noteq> PROCESS_READY"
    using assms by (rule sched_rep_modify) (use that sched_repD(5) [OF assms] in simp_all)
  show ?thesis unfolding schedule_entry_def Let_def using 1 2 assms by auto
qed

lemma schedule_entry_fields:
  "current_process (schedule_entry s) = current_process s" "processes (schedule_entry s) = processes s"
  "active_algorithm (schedule_entry s) = active_algorithm s" "queue_level (schedule_entry s) = queue_level s"
  "cpu_regs (schedule_entry s) = cpu_regs s" "ttbr0_el1 (schedule_entry s) = ttbr0_el1 s"
  "state (pcbs (schedule_entry s) p) = state (pcbs s p)" "doomed (pcbs (schedule_entry s) p) = doomed (pcbs s p)"
  "preempt_disabled (pcbs (schedule_entry s) p) = preempt_disabled (pcbs s p)"
  "cpu_context (pcbs (schedule_entry s) p) = cpu_context (pcbs s p)" "mm (pcbs (schedule_entry s) p) = mm (pcbs s p)"
  "pid (pcbs (schedule_entry s) p) = pid (pcbs s p)" "current_runnable (schedule_entry s) = current_runnable s"
  "pid_to_wait (pcbs (schedule_entry s) p) = pid_to_wait (pcbs s p)"
  "lottery_rng_state (schedule_entry s) = lottery_rng_state s" "timer_clo (schedule_entry s) = timer_clo s"
  "timer_reads (schedule_entry s) = timer_reads s" "tickets (pcbs (schedule_entry s) p) = tickets (pcbs s p)"
  "files (pcbs (schedule_entry s) p) = files (pcbs s p)"
  "messages_buffer (pcbs (schedule_entry s) p) = messages_buffer (pcbs s p)"
  "n_processes (schedule_entry s) = n_processes s" "phys (schedule_entry s) = phys s"
  "resources (schedule_entry s) = resources s" "uart_owner (schedule_entry s) = uart_owner s"
  "uart_buffer (schedule_entry s) = uart_buffer s" "uart_head (schedule_entry s) = uart_head s"
  "uart_tail (schedule_entry s) = uart_tail s" "uart_out (schedule_entry s) = uart_out s"
  by (simp_all add: schedule_entry_def Let_def upd_pcb_apply doomed_def current_runnable_def modify_pcb_def)

lemma schedule_correct:
  assumes "sched_rep s Q"
  shows "\<exists>s'. schedule s = Some s' \<and> switch_contract s s'"
proof -
  obtain s' where s': "schedule_pick (schedule_entry s) = Some s'" "switch_contract (schedule_entry s) s'"
    using schedule_pick_correct [OF schedule_entry_rep [OF assms]] by blast
  have "switch_contract s s'"
    using s'(2) unfolding switch_contract_def switched_def blocked_kept_def runnable_kept_def data_kept_def live_def schedule_entry_fields .
  with s'(1) show ?thesis by (simp add: schedule_eq)
qed

lemma switch_contractD:
  assumes "switch_contract s s'"
  shows "sched_inv s'" "work_conserving s'" "processes s' = processes s" "active_algorithm s' = active_algorithm s"
    "state (pcbs s' (current_process s')) = PROCESS_RUNNING"
    "live s p \<Longrightarrow> p \<noteq> Init_process \<Longrightarrow> state (pcbs s p) \<notin> {PROCESS_READY, PROCESS_RUNNING} \<Longrightarrow>
       state (pcbs s' p) = state (pcbs s p)"
    "live s p \<Longrightarrow> p \<noteq> Init_process \<Longrightarrow> state (pcbs s p) \<in> {PROCESS_READY, PROCESS_RUNNING} \<Longrightarrow>
       state (pcbs s' p) \<in> {PROCESS_READY, PROCESS_RUNNING} \<or>
       doomed (pcbs s p) \<and> state (pcbs s' p) \<in> {PROCESS_ZOMBIE, PROCESS_STOPPED}"
    "data_kept s s'"
  using assms by (simp_all add: switch_contract_def switched_def blocked_kept_def runnable_kept_def)

subsection \<open>Registration of a READY process\<close>

text \<open>A process that becomes READY and is handed to the router joins exactly one queue.\<close>

lemma call_enqueue_spec:
  assumes Q: "queues_rep s Q" "table_ok s" "discipline s Q" and p: "live s p" "\<not> queued Q p" "p \<noteq> Init_process"
  obtains s' Q' where "call_enqueue (enqueue (active_algorithm s)) (Some p) s = Some s'" "queues_rep s' Q'" "discipline s' Q'"
    "core (pcbs s') = upd_pcb p (\<lambda>x. x\<lparr>state := PROCESS_READY\<rparr>) (core (pcbs s))" "rest s' = rest s"
    "\<forall>a. queued Q' a \<longleftrightarrow> queued Q a \<or> a = p"
proof -
  have v: "valid_ref Ready_queue" by (simp add: valid_ref_def)
  let ?eb = "\<lambda>x. est_burst (pcbs s x)"
  show thesis
  proof (cases "enqueue (active_algorithm s)")
    case Enqueue_fifo
    have pol: "ml_policy (active_algorithm s) = None"
      using Enqueue_fifo table_okD(4) [OF Q(2)] by (auto simp: sched_algorithms_def sched_algorithm_defs)
    obtain s' where e: "enqueue_to Ready_queue (Some p) s = Some s'" "queues_rep s' (Q(Ready_queue := Q Ready_queue @ [p]))"
      "core (pcbs s') = upd_pcb p (\<lambda>x. x\<lparr>state := PROCESS_READY\<rparr>) (core (pcbs s))" "rest s' = rest s"
      by (rule enqueue_to_spec [OF Q(1) v p(2,3)])
    have "discipline s' (Q(Ready_queue := Q Ready_queue @ [p]))"
      using Q(3) pol Enqueue_fifo rest_fields(5) [OF e(4)] by (simp add: discipline_def)
    then show thesis
      using that [OF _ e(2) _ e(3,4)] e(1) Enqueue_fifo queued_grow [of "Q Ready_queue @ [p]" p Q Ready_queue]
      by (simp add: call_enqueue_def enqueue_fifo_def)
  next
    case Enqueue_sjf
    have pol: "ml_policy (active_algorithm s) = None"
      using Enqueue_sjf table_okD(4) [OF Q(2)] by (auto simp: sched_algorithms_def sched_algorithm_defs)
    let ?xs = "insert_by ?eb p (Q Ready_queue)"
    obtain s' where e: "enqueue_sorted Ready_queue (Some p) s = Some s'" "queues_rep s' (Q(Ready_queue := ?xs))"
      "core (pcbs s') = upd_pcb p (\<lambda>x. x\<lparr>state := PROCESS_READY\<rparr>) (core (pcbs s))" "rest s' = rest s"
      by (rule enqueue_sorted_spec [OF Q(1) v p(2,3)])
    have "est_burst (pcbs s' a) = ?eb a" for a
      using static_fields(3) [OF core_static [OF e(3), of a]] by (simp add: upd_pcb_apply)
    then have "discipline s' (Q(Ready_queue := ?xs))"
      using Q(3) pol Enqueue_sjf rest_fields(5) [OF e(4)] sorted_insert_by [of ?eb "Q Ready_queue" p]
      by (simp add: discipline_def)
    then show thesis
      using that [OF _ e(2) _ e(3,4)] e(1) Enqueue_sjf queued_grow [of ?xs p Q Ready_queue]
      by (simp add: call_enqueue_def enqueue_sjf_def)
  next
    case Enqueue_multilevel
    have pol: "ml_policy (active_algorithm s) \<noteq> None"
      using Enqueue_multilevel table_okD(4) [OF Q(2)] by (auto simp: sched_algorithms_def sched_algorithm_defs)
    let ?r = "Ml_queue (level_of s p)"
    obtain s' where e: "enqueue_multilevel (Some p) s = Some s'" "queues_rep s' (Q(?r := Q ?r @ [p]))"
      "core (pcbs s') = upd_pcb p (\<lambda>x. x\<lparr>state := PROCESS_READY\<rparr>) (core (pcbs s))" "rest s' = rest s"
      by (rule enqueue_multilevel_spec [OF Q(1,2) p])
    have "discipline s' (Q(?r := Q ?r @ [p]))"
      using Q(3) pol Enqueue_multilevel rest_fields(5) [OF e(4)] by (auto simp: discipline_def)
    then show thesis
      using that [OF _ e(2) _ e(3,4)] e(1) Enqueue_multilevel queued_grow [of "Q ?r @ [p]" p Q ?r]
      by (simp add: call_enqueue_def)
  qed
qed

text \<open>The state just before a READY process is handed to the router: only this process is missing.\<close>

definition almost_rep :: "kernel \<Rightarrow> queue_contents \<Rightarrow> pcb_ptr \<Rightarrow> bool" where
  "almost_rep s Q p \<longleftrightarrow>
     queues_rep s Q \<and> table_ok s \<and> discipline s Q \<and> live s (current_process s) \<and> live s p \<and> \<not> queued Q p \<and>
     state (pcbs s p) = PROCESS_READY \<and>
     (\<forall>a. a \<noteq> p \<longrightarrow> queued Q a = (a \<noteq> Init_process \<and> live s a \<and> state (pcbs s a) = PROCESS_READY)) \<and>
     (\<forall>a. live s a \<and> state (pcbs s a) = PROCESS_RUNNING \<longrightarrow> a = current_process s)"

lemma enqueue_ready:
  assumes "almost_rep s Q p"
  shows "\<exists>s' Q'. enqueue_process (Some p) s = Some s' \<and> sched_rep s' Q' \<and> core (pcbs s') = core (pcbs s) \<and> rest s' = rest s"
proof (cases "p = Init_process")
  case True
  then have "sched_rep s Q" using assms unfolding almost_rep_def sched_rep_def by metis
  then show ?thesis using True by (auto simp: enqueue_process_def)
next
  case False
  note A = assms [unfolded almost_rep_def]
  obtain s' Q' where e: "call_enqueue (enqueue (active_algorithm s)) (Some p) s = Some s'" "queues_rep s' Q'" "discipline s' Q'"
    "core (pcbs s') = upd_pcb p (\<lambda>x. x\<lparr>state := PROCESS_READY\<rparr>) (core (pcbs s))" "rest s' = rest s"
    "\<forall>a. queued Q' a \<longleftrightarrow> queued Q a \<or> a = p"
    by (rule call_enqueue_spec [of s Q p]) (use A False in blast)+
  have c: "core (pcbs s') = core (pcbs s)" using e(4) core_ready [of "pcbs s" p] A by simp
  have st: "state (pcbs s' a) = state (pcbs s a)" for a using core_eq_fields(1) [OF c] .
  have stat: "static (pcbs s' a) = static (pcbs s a)" for a using core_static [OF c, of a] by simp
  note T = static_fields [OF stat] and F = rest_fields [OF e(5)]
  have "table_ok s'" by (rule table_ok_cong [of s]) (use A in \<open>simp_all add: T F\<close>)
  moreover have lv: "live s' a = live s a" for a using F(2) by (rule live_cong)
  moreover have "queued Q' a \<longleftrightarrow> a \<noteq> Init_process \<and> live s a \<and> state (pcbs s' a) = PROCESS_READY" for a
    using e(6) A False st by (cases "a = p") auto
  ultimately have "sched_rep s' Q'" using A e(2,3) st F(1) by (simp add: sched_rep_def)
  then show ?thesis using e(1,5) c False by (auto simp: enqueue_process_def)
qed

lemma wake_almost:
  assumes rep: "sched_rep s Q" and p: "live s p" "state (pcbs s p) \<noteq> PROCESS_READY"
    and f: "\<And>x. next_ready (f x) = next_ready x" "\<And>x. state (f x) = PROCESS_READY" "\<And>x. pid (f x) = pid x"
      "\<And>x. priority (f x) = priority x" "\<And>x. tickets (f x) = tickets x" "\<And>x. est_burst (f x) = est_burst x"
  shows "almost_rep (modify_pcb p f s) Q p"
proof -
  note D = sched_repD [OF rep]
  have "table_ok (modify_pcb p f s)" by (rule table_ok_cong [OF D(2)]) (simp_all add: upd_pcb_apply f)
  moreover have "queues_rep (modify_pcb p f s) Q" by (rule queues_rep_modify [OF D(1) f(1)])
  moreover have "est_burst (upd_pcb p f (pcbs s) a) = est_burst (pcbs s a)" for a by (simp add: upd_pcb_apply f)
  then have "discipline (modify_pcb p f s) Q" using D(3) by (simp add: discipline_def)
  moreover have "\<not> queued Q p" using D(5) p(2) by blast
  ultimately show ?thesis using rep p f(2) by (auto simp: almost_rep_def sched_rep_def live_def upd_pcb_apply)
qed

subsection \<open>Exit\<close>

definition waits_for :: "int \<Rightarrow> PCB \<Rightarrow> bool" where
  "waits_for dead x \<longleftrightarrow> state x = PROCESS_WAITING_ANOTHER_PROCESS \<and> pid_to_wait x = dead"

text \<open>The scan wakes the waiting processes of the table and touches nothing else.\<close>

lemma wake_waiters_spec:
  assumes "sched_rep s Q" "\<forall>p. Some p \<in> set slots \<longrightarrow> live s p"
  shows "\<exists>s' Q'. wake_waiters dead slots s = Some s' \<and> sched_rep s' Q' \<and> rest s' = rest s \<and>
    (\<forall>p. core (pcbs s') p =
       (if Some p \<in> set slots \<and> waits_for dead (pcbs s p)
        then (core (pcbs s) p)\<lparr>state := PROCESS_READY, pid_to_wait := -1\<rparr> else core (pcbs s) p))"
  using assms
proof (induction slots arbitrary: s Q)
  case Nil
  then show ?case by auto
next
  case (Cons slot slots)
  show ?case
  proof (cases "\<exists>p. slot = Some p \<and> waits_for dead (pcbs s p)")
    case False
    then have eq: "wake_waiters dead (slot # slots) s = wake_waiters dead slots s"
      by (auto simp: waits_for_def split: option.splits)
    have "Some p \<in> set (slot # slots) \<and> waits_for dead (pcbs s p) \<longleftrightarrow> Some p \<in> set slots \<and> waits_for dead (pcbs s p)" for p
      using False by auto
    with Cons.IH [OF Cons.prems(1)] Cons.prems(2) show ?thesis unfolding eq by simp
  next
    case True
    then obtain p where p: "slot = Some p" "waits_for dead (pcbs s p)" by blast
    let ?f = "\<lambda>x. x\<lparr>state := PROCESS_READY, pid_to_wait := -1\<rparr>"
    have "almost_rep (modify_pcb p ?f s) Q p"
      using Cons.prems p by (intro wake_almost) (simp_all add: waits_for_def)
    then obtain s1 Q1 where e: "enqueue_process (Some p) (modify_pcb p ?f s) = Some s1" "sched_rep s1 Q1"
      "core (pcbs s1) = core (pcbs (modify_pcb p ?f s))" "rest s1 = rest (modify_pcb p ?f s)"
      using enqueue_ready by blast
    have eq: "wake_waiters dead (slot # slots) s = wake_waiters dead slots s1"
      using p e(1) by (simp add: waits_for_def)
    have c1: "core (pcbs s1) a = (if a = p then ?f (core (pcbs s) a) else core (pcbs s) a)" for a
      using e(3) by (simp add: core_upd_core upd_pcb_apply)
    have w1: "waits_for dead (pcbs s1 a) \<longleftrightarrow> a \<noteq> p \<and> waits_for dead (pcbs s a)" for a
      using arg_cong [OF c1 [of a], of state] arg_cong [OF c1 [of a], of pid_to_wait]
      by (auto simp: waits_for_def core_def)
    have lv: "\<forall>a. Some a \<in> set slots \<longrightarrow> live s1 a"
      using Cons.prems(2) rest_fields(2) [OF e(4)] by (simp add: live_def)
    obtain s' Q' where IH: "wake_waiters dead slots s1 = Some s'" "sched_rep s' Q'" "rest s' = rest s1"
      "\<forall>a. core (pcbs s') a = (if Some a \<in> set slots \<and> waits_for dead (pcbs s1 a) then ?f (core (pcbs s1) a) else core (pcbs s1) a)"
      using Cons.IH [OF e(2) lv] by blast
    have "core (pcbs s') a = (if Some a \<in> set (slot # slots) \<and> waits_for dead (pcbs s a) then ?f (core (pcbs s) a) else core (pcbs s) a)" for a
      using IH(4) [rule_format, of a] w1 [of a] c1 [of a] p by auto
    then show ?thesis using eq IH e(4) by auto
  qed
qed

end
