(* ===== verification/Scheduler_Operations.thy ===== *)
theory Scheduler_Operations
  imports Scheduler_Correctness
begin

section \<open>Exit, registration, parameters and the timer tick\<close>

text \<open>
  The remaining entry points of \<^verbatim>\<open>libs/scheduler.c\<close>, each with its functional description and
  the preservation of the scheduler invariant.
\<close>

subsection \<open>Exit\<close>

text \<open>The running process leaves the CPU for a waiting or final state; the queues are not concerned.\<close>

lemma sched_rep_block:
  assumes rep: "sched_rep s Q" and run: "state (pcbs s (current_process s)) = PROCESS_RUNNING"
    and f: "\<And>x. next_ready (f x) = next_ready x" "\<And>x. pid (f x) = pid x" "\<And>x. priority (f x) = priority x"
      "\<And>x. tickets (f x) = tickets x" "\<And>x. state (f x) \<noteq> PROCESS_READY \<and> state (f x) \<noteq> PROCESS_RUNNING"
  shows "sched_rep (modify_pcb (current_process s) f s) Q"
proof -
  let ?c = "current_process s"
  note D = sched_repD [OF rep]
  have nq: "\<not> queued Q ?c" using D(5) run by simp
  have "table_ok (modify_pcb ?c f s)" by (rule table_ok_cong [OF D(2)]) (simp_all add: upd_pcb_apply f)
  moreover have "queues_rep (modify_pcb ?c f s) Q" by (rule queues_rep_modify [OF D(1) f(1)])
  moreover
  have eq: "map (\<lambda>a. est_burst (upd_pcb ?c f (pcbs s) a)) (Q Ready_queue) = map (\<lambda>a. est_burst (pcbs s a)) (Q Ready_queue)"
    using nq by (auto simp: upd_pcb_apply queued_def)
  have "discipline (modify_pcb ?c f s) Q" using D(3) by (simp add: discipline_def eq)
  moreover have "queued Q p \<longleftrightarrow> p \<noteq> Init_process \<and> live s p \<and> state (upd_pcb ?c f (pcbs s) p) = PROCESS_READY" for p
    using D(5) nq f(5) by (auto simp: upd_pcb_apply)
  moreover have "p = ?c" if "live s p" "state (upd_pcb ?c f (pcbs s) p) = PROCESS_RUNNING" for p
    using that D(6) by (auto simp: upd_pcb_apply split: if_splits)
  ultimately show ?thesis using D(4) by (simp add: sched_rep_def live_def)
qed

definition exit_contract :: "kernel \<Rightarrow> kernel \<Rightarrow> bool" where
  "exit_contract s s' \<longleftrightarrow>
     sched_inv s' \<and> work_conserving s' \<and> processes s' = processes s \<and>
     state (pcbs s' (current_process s)) = PROCESS_ZOMBIE \<and> current_process s' \<noteq> current_process s \<and>
     (\<forall>p. live s p \<and> p \<noteq> Init_process \<and> waits_for (pid (pcbs s (current_process s))) (pcbs s p) \<longrightarrow>
        state (pcbs s' p) \<in> {PROCESS_READY, PROCESS_RUNNING} \<or>
        doomed (pcbs s p) \<and> state (pcbs s' p) \<in> {PROCESS_ZOMBIE, PROCESS_STOPPED}) \<and>
     (\<forall>p. live s p \<and> p \<noteq> Init_process \<and> p \<noteq> current_process s \<and> state (pcbs s p) \<noteq> PROCESS_READY \<and>
        \<not> waits_for (pid (pcbs s (current_process s))) (pcbs s p) \<longrightarrow> state (pcbs s' p) = state (pcbs s p))"

text \<open>The part of \<^verbatim>\<open>exit_process\<close> before the final \<^verbatim>\<open>schedule()\<close>.\<close>

lemma exit_prepare:
  assumes rep: "sched_rep s Q" and c: "state (pcbs s (current_process s)) = PROCESS_RUNNING"
  obtains s4 Q4 where "exit_process s = schedule s4" "sched_rep s4 Q4"
    "current_process s4 = current_process s" "processes s4 = processes s"
    "\<And>p. state (pcbs s4 p) = (if p = current_process s then PROCESS_ZOMBIE
        else if live s p \<and> waits_for (pid (pcbs s (current_process s))) (pcbs s p) then PROCESS_READY else state (pcbs s p))"
    "\<And>p. doomed (pcbs s4 p) = doomed (pcbs s p)"
proof -
  let ?c = "current_process s" and ?s1 = "preempt_disable s"
  let ?s2 = "modify_pcb ?c (\<lambda>x. x\<lparr>state := PROCESS_ZOMBIE\<rparr>) ?s1"
  let ?dead = "pid (pcbs s ?c)"
  have rep1: "sched_rep ?s1 Q" using rep by (rule sched_rep_preempt)
  have "state (pcbs ?s1 (current_process ?s1)) = PROCESS_RUNNING" using c by (simp add: preempt_disable_def)
  then have rep2: "sched_rep ?s2 Q" using sched_rep_block [OF rep1, of "\<lambda>x. x\<lparr>state := PROCESS_ZOMBIE\<rparr>"] by simp
  have lv: "\<forall>p. Some p \<in> set (processes ?s2) \<longrightarrow> live ?s2 p" by (simp add: live_def)
  obtain s3 Q3 where w: "wake_waiters ?dead (processes ?s2) ?s2 = Some s3" "sched_rep s3 Q3" "rest s3 = rest ?s2"
    "\<forall>p. core (pcbs s3) p = (if Some p \<in> set (processes ?s2) \<and> waits_for ?dead (pcbs ?s2 p)
        then (core (pcbs ?s2) p)\<lparr>state := PROCESS_READY, pid_to_wait := -1\<rparr> else core (pcbs ?s2) p)"
    using wake_waiters_spec [OF rep2 lv] by blast
  have st2: "state (pcbs ?s2 p) = (if p = ?c then PROCESS_ZOMBIE else state (pcbs s p))"
    "waits_for ?dead (pcbs ?s2 p) \<longleftrightarrow> p \<noteq> ?c \<and> waits_for ?dead (pcbs s p)" "doomed (pcbs ?s2 p) = doomed (pcbs s p)" for p
    by (auto simp: upd_pcb_apply preempt_disable_def waits_for_def doomed_def)
  have st3: "state (pcbs s3 p) = (if live s p \<and> waits_for ?dead (pcbs ?s2 p) then PROCESS_READY else state (pcbs ?s2 p))"
    "doomed (pcbs s3 p) = doomed (pcbs ?s2 p)" for p
    using arg_cong [OF w(4) [rule_format], of state p] arg_cong [OF w(4) [rule_format], of doomed p]
    by (simp_all add: live_def doomed_def split: if_splits)
  show thesis
  proof (rule that [OF _ sched_rep_preempt(2) [OF w(2)]])
    show "exit_process s = schedule (preempt_enable s3)" using w(1)
      by (simp add: exit_process_def Let_def upd_pcb_apply)
    show "current_process (preempt_enable s3) = ?c" "processes (preempt_enable s3) = processes s"
      using rest_fields(1,2) [OF w(3)] by (simp_all add: preempt_enable_def)
    fix p
    have "state (pcbs (preempt_enable s3) p) = state (pcbs s3 p)" by (simp add: preempt_enable_def upd_pcb_apply)
    then show "state (pcbs (preempt_enable s3) p) = (if p = ?c then PROCESS_ZOMBIE
        else if live s p \<and> waits_for ?dead (pcbs s p) then PROCESS_READY else state (pcbs s p))"
      unfolding st3 st2 by simp
    have "doomed (pcbs (preempt_enable s3) p) = doomed (pcbs s3 p)" by (simp add: preempt_enable_def upd_pcb_apply doomed_def)
    then show "doomed (pcbs (preempt_enable s3) p) = doomed (pcbs s p)" unfolding st3 st2 by simp
  qed
qed

lemma exit_process_contract:
  assumes rep: "sched_rep s Q" and c: "current_process s \<noteq> Init_process" "state (pcbs s (current_process s)) = PROCESS_RUNNING"
  shows "\<exists>s'. exit_process s = Some s' \<and> exit_contract s s'"
proof -
  let ?c = "current_process s" and ?dead = "pid (pcbs s (current_process s))"
  obtain s4 Q4 where P: "exit_process s = schedule s4" "sched_rep s4 Q4" "current_process s4 = ?c" "processes s4 = processes s"
    "\<And>p. state (pcbs s4 p) = (if p = ?c then PROCESS_ZOMBIE
        else if live s p \<and> waits_for ?dead (pcbs s p) then PROCESS_READY else state (pcbs s p))"
    "\<And>p. doomed (pcbs s4 p) = doomed (pcbs s p)"
    by (rule exit_prepare [OF rep c(2)]) blast
  obtain s' where s': "schedule s4 = Some s'" "switch_contract s4 s'" using schedule_correct [OF P(2)] by blast
  have lv4: "live s4 p = live s p" for p using P(4) by (rule live_cong)
  note S = switch_contractD [OF s'(2), unfolded lv4 P(6)]
  have lc: "live s ?c" using sched_repD(4) [OF rep] .
  have z: "state (pcbs s' ?c) = PROCESS_ZOMBIE" using S(6) [OF lc c(1)] by (simp add: P(5))
  have woken: "state (pcbs s' p) \<in> {PROCESS_READY, PROCESS_RUNNING} \<or>
        doomed (pcbs s p) \<and> state (pcbs s' p) \<in> {PROCESS_ZOMBIE, PROCESS_STOPPED}"
    if "live s p" "p \<noteq> Init_process" "waits_for ?dead (pcbs s p)" for p
  proof -
    have "p \<noteq> ?c" using that(3) c(2) by (auto simp: waits_for_def)
    then have "state (pcbs s4 p) \<in> {PROCESS_READY, PROCESS_RUNNING}" using P(5) [of p] that by simp
    then show ?thesis using S(7) that by blast
  qed
  have others: "state (pcbs s' p) = state (pcbs s p)"
    if "live s p" "p \<noteq> Init_process" "p \<noteq> ?c" "state (pcbs s p) \<noteq> PROCESS_READY" "\<not> waits_for ?dead (pcbs s p)" for p
  proof -
    have "state (pcbs s p) \<noteq> PROCESS_RUNNING" using that(1,3) sched_repD(6) [OF rep] by blast
    moreover have "state (pcbs s4 p) = state (pcbs s p)" using P(5) [of p] that by simp
    ultimately show ?thesis using S(6) [OF that(1,2)] that(4) by simp
  qed
  have "current_process s' \<noteq> ?c" using S(5) z by auto
  then have "exit_contract s s'"
    unfolding exit_contract_def using S(1-3) z woken others P(4) by simp
  then show ?thesis using P(1) s'(1) by simp
qed

subsection \<open>The boost\<close>

text \<open>All levels gathered in level 0, in the order of the levels.\<close>

definition boosted :: "queue_contents \<Rightarrow> queue_contents" where
  "boosted Q r = (if r = Ml_queue 0 then concat (map (\<lambda>q. Q (Ml_queue q)) [0, 1, 2, 3, 4])
                  else if r \<in> Ml_queue ` {1, 2, 3, 4} then [] else Q r)"

lemma queued_boosted: "queued (boosted Q) p \<longleftrightarrow> queued Q p"
proof
  assume "queued (boosted Q) p"
  then obtain r where "p \<in> set (boosted Q r)" by (auto simp: queued_def)
  then show "queued Q p" by (auto simp: boosted_def queued_def split: if_splits)
next
  assume "queued Q p"
  then obtain r where r: "p \<in> set (Q r)" by (auto simp: queued_def)
  show "queued (boosted Q) p"
  proof (cases "r \<in> Ml_queue ` {0, 1, 2, 3, 4}")
    case True
    with r have "p \<in> set (boosted Q (Ml_queue 0))" by (auto simp: boosted_def)
    then show ?thesis unfolding queued_def by blast
  next
    case False
    with r have "p \<in> set (boosted Q r)" by (auto simp: boosted_def)
    then show ?thesis unfolding queued_def by blast
  qed
qed

lemma sched_rep_drainable: "sched_rep s Q \<Longrightarrow> drainable s Q"
  using sched_repD(1,5) [of s Q] table_okD(3) [OF sched_repD(2) [of s Q]] live_slot(1,2) [OF sched_repD(2) [of s Q]]
  by (auto simp: drainable_def)

lemma ml_boost_spec:
  assumes rep: "sched_rep s Q" and pol: "ml_policy (active_algorithm s) = Some pol" "levels pol = [0, 1, 2, 3, 4]"
  obtains s' where "ml_boost pol s = Some s'" "sched_rep s' (boosted Q)" "queue_level s' = replicate N_PROCESSES 0"
    "ml_ticks_since_boost s' = 0" "core (pcbs s') = core (pcbs s)"
    "current_process s' = current_process s" "active_algorithm s' = active_algorithm s" "processes s' = processes s"
proof -
  note D = sched_repD [OF rep]
  have v: "\<forall>q \<in> set [1, 2, 3, 4]. valid_ref (Ml_queue q) \<and> q \<noteq> 0" "distinct [1, 2, 3, 4 :: int]"
    by (simp_all add: valid_ref_def)
  have bq: "(\<lambda>r. if r = Ml_queue 0 then Q r @ concat (map (\<lambda>q. Q (Ml_queue q)) [1, 2, 3, 4])
                     else if r \<in> Ml_queue ` set [1, 2, 3, 4] then [] else Q r) = boosted Q"
    by (rule ext) (simp add: boosted_def)
  obtain s1 l where d: "ml_drain_all [1, 2, 3, 4] s = Some s1" "drainable s1 (boosted Q)" "core (pcbs s1) = core (pcbs s)"
    "rest s1 = (rest s)\<lparr>queue_level := l\<rparr>"
    using ml_drain_all_spec [OF sched_rep_drainable [OF rep] v] unfolding bq by blast
  let ?s' = "s1\<lparr>queue_level := map (\<lambda>_. 0) (queue_level s1), ml_ticks_since_boost := 0\<rparr>"
  have F: "current_process s1 = current_process s" "active_algorithm s1 = active_algorithm s" "processes s1 = processes s"
    using arg_cong [OF d(4), of current_process] arg_cong [OF d(4), of active_algorithm] arg_cong [OF d(4), of processes]
    by (simp_all add: rest_def)
  have stat: "static (pcbs s1 p) = static (pcbs s p)" "state (pcbs s1 p) = state (pcbs s p)" for p
    using core_static [OF d(3), of p] core_eq_fields(1) [OF d(3), of p] by simp_all
  note T = static_fields [OF stat(1)]
  have len: "length (queue_level s1) = N_PROCESSES" using d(2) by (simp add: drainable_def)
  have "queues_rep ?s' (boosted Q)"
    by (rule queues_rep_kernel [of s1]) (use d(2) in \<open>simp_all add: drainable_def\<close>)
  moreover have "table_ok ?s'"
    using D(2) len by (auto simp: table_ok_def live_def F T)
  moreover have "discipline ?s' (boosted Q)"
    using D(3) pol(1) by (auto simp: discipline_def F T boosted_def split: if_splits)
  ultimately have "sched_rep ?s' (boosted Q)"
    using rep by (simp add: sched_rep_def queued_boosted live_def F stat)
  moreover have "queue_level ?s' = replicate N_PROCESSES 0" using len by (simp add: map_replicate_const)
  moreover have "ml_boost pol s = Some ?s'" using d(1) pol(2) by (simp add: ml_boost_def)
  ultimately show thesis using that [of ?s'] d(3) F by simp
qed

subsection \<open>The timer tick\<close>

lemma length_levels: "sched_rep s Q \<Longrightarrow> length (queue_level s) = N_PROCESSES"
  using table_okD(3) [OF sched_repD(2)] .

lemma ml_boost_tick_spec:
  assumes rep: "sched_rep s Q" and pol: "ml_policy (active_algorithm s) = Some pol" "levels pol = [0, 1, 2, 3, 4]"
  shows "\<exists>s' Q'. ml_boost_tick pol s = Some s' \<and> sched_rep s' Q' \<and> core (pcbs s') = core (pcbs s) \<and>
    current_process s' = current_process s \<and> active_algorithm s' = active_algorithm s"
proof -
  let ?tick = "s\<lparr>ml_ticks_since_boost := ml_ticks_since_boost s + 1\<rparr>"
  have rt: "sched_rep ?tick Q" using rep by (rule sched_rep_kernel)
  have pt: "ml_policy (active_algorithm ?tick) = Some pol" using pol(1) by simp
  obtain s1 where b: "ml_boost pol ?tick = Some s1" "sched_rep s1 (boosted Q)" "core (pcbs s1) = core (pcbs ?tick)"
    "current_process s1 = current_process ?tick" "active_algorithm s1 = active_algorithm ?tick"
    by (rule ml_boost_spec [OF rt pt pol(2)])
  consider "ml_boost_tick pol s = Some s1" | "ml_boost_tick pol s = Some ?tick" | "ml_boost_tick pol s = Some s"
    unfolding ml_boost_tick_def Let_def using b(1) by (metis (full_types))
  then show ?thesis
  proof cases
    case 1
    then show ?thesis using b by auto
  next
    case 2
    then show ?thesis using rt by auto
  next
    case 3
    then show ?thesis using rep by auto
  qed
qed

text \<open>Demotion: exactly one level down, never past the last, only at expiry and with preemption enabled.\<close>

lemma ml_demote_spec:
  assumes rep: "sched_rep s Q" and n: "n_levels pol = 5"
  obtains s' where "ml_demote pol s = Some s'" "sched_rep s' Q" "pcbs s' = pcbs s"
    "current_process s' = current_process s" "active_algorithm s' = active_algorithm s"
    "queue_level s' = (if demote_on_expiry pol \<and> current_process s \<noteq> Init_process \<and>
        counter (pcbs s (current_process s)) \<le> 0 \<and> preempt_disabled (pcbs s (current_process s)) = 0
      then (queue_level s)[nat (pid (pcbs s (current_process s))) := min 4 (level_of s (current_process s) + 1)]
      else queue_level s)"
proof -
  let ?c = "current_process s"
  note D = sched_repD [OF rep]
  note L = level_of_valid [OF D(2,4)] and P = live_slot [OF D(2,4)] and N = table_okD(3) [OF D(2)]
  show thesis
  proof (cases "demote_on_expiry pol \<and> ?c \<noteq> Init_process \<and> counter (pcbs s ?c) \<le> 0 \<and> preempt_disabled (pcbs s ?c) = 0")
    case False
    then have "ml_demote pol s = Some s" by (auto simp: ml_demote_def Let_def)
    then show thesis using False rep by (intro that [of s]) auto
  next
    case True
    let ?lv = "(queue_level s)[nat (pid (pcbs s ?c)) := min 4 (level_of s ?c + 1)]"
    have "\<forall>x \<in> set ?lv. 0 \<le> x \<and> x < int ML_MAX_LEVELS"
      using set_update_subset_insert [of "queue_level s"] table_okD(5) [OF D(2)] L(2) by (fastforce simp: valid_ref_def)
    then have rep': "sched_rep (s\<lparr>queue_level := ?lv\<rparr>) Q" using N by (intro sched_rep_kernel(3) [OF rep]) simp_all
    have "ml_demote pol s = Some (s\<lparr>queue_level := ?lv\<rparr>)"
    proof (cases "level_of s ?c < 4")
      case True
      then show ?thesis using \<open>demote_on_expiry pol \<and> _\<close> L(1) n P N by (simp add: ml_demote_def Let_def aset_def)
    next
      case False
      with L(2) have four: "level_of s ?c = 4" by (simp add: valid_ref_def)
      then have "min 4 (level_of s ?c + 1) = queue_level s ! nat (pid (pcbs s ?c))" by (simp add: level_of_def)
      then have "?lv = queue_level s" by (simp only: list_update_id)
      moreover note four
      ultimately show ?thesis using \<open>demote_on_expiry pol \<and> _\<close> L(1) n by (simp add: ml_demote_def Let_def)
    qed
    then show thesis using True rep' by (intro that [of "s\<lparr>queue_level := ?lv\<rparr>"]) simp_all
  qed
qed

lemma on_tick_hook_spec:
  assumes rep: "sched_rep s Q"
  shows "\<exists>s' Q'. on_tick_hook s = Some s' \<and> sched_rep s' Q' \<and> core (pcbs s') = core (pcbs s) \<and>
    current_process s' = current_process s \<and> active_algorithm s' = active_algorithm s"
proof (cases "active_algorithm s = sched_mlq \<or> active_algorithm s = sched_mlfq")
  case False
  then have "on_tick (active_algorithm s) = None"
    using table_okD(4) [OF sched_repD(2) [OF rep]] by (auto simp: sched_algorithms_def sched_algorithm_defs)
  then show ?thesis using rep by (auto simp: on_tick_hook_def)
next
  case True
  obtain pol where pol: "ml_policy (active_algorithm s) = Some pol" "levels pol = [0, 1, 2, 3, 4]" "n_levels pol = 5"
      "on_tick (active_algorithm s) = Some Multilevel_on_tick"
    by (rule ml_algorithm [OF True])
  obtain s1 Q1 where b: "ml_boost_tick pol s = Some s1" "sched_rep s1 Q1" "core (pcbs s1) = core (pcbs s)"
    "current_process s1 = current_process s" "active_algorithm s1 = active_algorithm s"
    using ml_boost_tick_spec [OF rep pol(1,2)] by blast
  obtain s2 where d: "ml_demote pol s1 = Some s2" "sched_rep s2 Q1" "pcbs s2 = pcbs s1"
    "current_process s2 = current_process s1" "active_algorithm s2 = active_algorithm s1"
    by (rule ml_demote_spec [OF b(2) pol(3)])
  have "on_tick_hook s = Some s2" using pol b(1) d(1) by (simp add: on_tick_hook_def multilevel_on_tick_def)
  then show ?thesis using b d by auto
qed

text \<open>
  A tick either only counts, or, when the quantum of the current process is used up, preemption is
  enabled and the algorithm is preemptive, switches as \<open>schedule_pick\<close> does.
\<close>

definition tick_keeps :: "kernel \<Rightarrow> bool" where
  "tick_keeps s \<longleftrightarrow>
     counter (pcbs s (current_process s)) > 1 \<or> preempt_disabled (pcbs s (current_process s)) > 0 \<or>
     \<not> is_preemptive (active_algorithm s)"

lemma timer_tick_contract:
  assumes rep: "sched_rep s Q"
  shows "\<exists>s'. handle_timer_tick s = Some s' \<and> sched_inv s' \<and>
    (if tick_keeps s then current_process s' = current_process s \<and> (\<forall>p. state (pcbs s' p) = state (pcbs s p))
     else state (pcbs s' (current_process s')) = PROCESS_RUNNING \<and> work_conserving s')"
proof -
  let ?c = "current_process s"
  let ?s1 = "modify_pcb ?c (\<lambda>x. x\<lparr>counter := counter x - 1, burst_ticks := burst_ticks x + 1\<rparr>) s"
  have rep1: "sched_rep ?s1 Q" using rep by (rule sched_rep_modify) simp_all
  obtain s2 Q2 where h: "on_tick_hook ?s1 = Some s2" "sched_rep s2 Q2" "core (pcbs s2) = core (pcbs ?s1)"
    "current_process s2 = ?c" "active_algorithm s2 = active_algorithm s"
    using on_tick_hook_spec [OF rep1] by auto
  note C = core_eq_fields [OF h(3)]
  have pd: "preempt_disabled (pcbs s2 ?c) = preempt_disabled (pcbs s ?c)"
    using static_fields(7) [OF core_static [OF h(3), of ?c]] by simp
  have cn: "counter (pcbs s2 ?c) = counter (pcbs s ?c) - 1" using C(4) [of ?c] by simp
  have st: "state (pcbs s2 p) = state (pcbs s p)" for p using C(1) [of p] by (simp add: upd_pcb_apply split: if_splits)
  let ?s3 = "modify_pcb ?c (\<lambda>x. x\<lparr>counter := 0\<rparr>) s2"
  have rep3: "sched_rep ?s3 Q2" using h(2) by (rule sched_rep_modify) simp_all
  have st3: "state (pcbs ?s3 p) = state (pcbs s p)" for p using st by (simp add: upd_pcb_apply)
  show ?thesis
  proof (cases "tick_keeps s")
    case True
    then have "handle_timer_tick s = Some s2 \<or> handle_timer_tick s = Some ?s3"
      using h cn pd by (auto simp: handle_timer_tick_def Let_def tick_keeps_def)
    then show ?thesis using True h rep3 st st3 by (auto simp: sched_inv_def)
  next
    case False
    have "sched_rep (?s3\<lparr>irq_enabled := True\<rparr>) Q2" using rep3 by (rule sched_rep_kernel)
    then obtain s4 where s4: "schedule_pick (?s3\<lparr>irq_enabled := True\<rparr>) = Some s4"
      "switch_contract (?s3\<lparr>irq_enabled := True\<rparr>) s4" using schedule_pick_correct by blast
    have "handle_timer_tick s = Some (s4\<lparr>irq_enabled := False\<rparr>)"
      using False h cn pd s4(1) by (auto simp: handle_timer_tick_def Let_def tick_keeps_def)
    moreover have "sched_inv (s4\<lparr>irq_enabled := False\<rparr>)"
      using switch_contractD(1) [OF s4(2)] sched_rep_kernel(2) by (auto simp: sched_inv_def)
    ultimately show ?thesis
      using False switch_contractD(2,5) [OF s4(2)] by (simp add: work_conserving_def live_def)
  qed
qed

end
