(* ===== verification/Scheduler_Registration.thy ===== *)
theory Scheduler_Registration
  imports Scheduler_Operations
begin

section \<open>Boot, registration and scheduling parameters\<close>

text \<open>
  The initial state satisfies the scheduler invariant for each of the seven algorithms;
  \<^verbatim>\<open>add_process_to_scheduler\<close> and \<^verbatim>\<open>sched_set_param\<close> keep it.
\<close>

lemma boot_rep:
  assumes "alg \<in> set sched_algorithms"
  shows "sched_rep (boot_kernel alg clo regs m) (\<lambda>_. [])"
proof -
  let ?b = "boot_kernel alg clo regs m"
  have lv: "live ?b p \<longleftrightarrow> p = Init_process" for p
    by (auto simp: live_def boot_kernel_def)
  have "get_queue r ?b = Some QUEUE_INIT" if "valid_ref r" for r
    using that by (cases r) (auto simp: get_queue_def boot_kernel_def valid_ref_def aget_def)
  moreover have "length (ml_queues ?b) = ML_MAX_LEVELS" by (simp add: boot_kernel_def)
  ultimately have "queues_rep ?b (\<lambda>_. [])" by (auto simp: queues_rep_def)
  moreover have "table_ok ?b"
    using assms lv by (auto simp: table_ok_def boot_kernel_def INIT_PROCESS_def nth_Cons split: nat.splits)
  ultimately show ?thesis
    using lv by (simp add: sched_rep_def discipline_def queued_def) (simp add: boot_kernel_def)
qed

subsection \<open>Registration\<close>

definition registrable :: "pcb_ptr \<Rightarrow> kernel \<Rightarrow> bool" where
  "registrable p s \<longleftrightarrow>
     p \<noteq> Init_process \<and> \<not> live s p \<and> 0 \<le> pid (pcbs s p) \<and> pid (pcbs s p) < int N_PROCESSES \<and>
     processes s ! nat (pid (pcbs s p)) = None \<and> state (pcbs s p) \<noteq> PROCESS_RUNNING \<and>
     1 \<le> priority (pcbs s p) \<and> tickets (pcbs s p) < 2 ^ 57"

definition clamp_level :: "int \<Rightarrow> int" where
  "clamp_level l = max 0 (min 4 l)"

lemma initial_level_clamped: "a \<in> set sched_algorithms \<Longrightarrow> initial_level a l = clamp_level l"
  by (auto simp: initial_level_def Let_def sched_algorithms_def sched_algorithm_defs ml_policy_mlq_def
      ml_policy_mlfq_def clamp_level_def)

lemma set_update_Some:
  assumes "xs ! i = None" "i < length xs"
  shows "Some a \<in> set (xs[i := Some p]) \<longleftrightarrow> Some a \<in> set xs \<or> a = p"
proof
  assume "Some a \<in> set (xs[i := Some p])"
  then show "Some a \<in> set xs \<or> a = p" using set_update_subset_insert [of xs i "Some p"] by auto
next
  assume r: "Some a \<in> set xs \<or> a = p"
  show "Some a \<in> set (xs[i := Some p])"
  proof (cases "a = p")
    case True
    then show ?thesis using assms(2) by (simp add: set_update_memI)
  next
    case False
    with r obtain j where "j < length xs" "xs ! j = Some a" by (auto simp: in_set_conv_nth)
    then show ?thesis using assms by (metis length_list_update nth_list_update_neq nth_mem option.distinct(1))
  qed
qed

text \<open>The state after the process table and the level array have been written.\<close>

lemma registered_state:
  fixes l :: int
  assumes rep: "sched_rep s Q" and p: "registrable p s"
  defines "i \<equiv> nat (pid (pcbs s p))"
  defines "s2 \<equiv> s\<lparr>processes := (processes s)[i := Some p], queue_level := (queue_level s)[i := clamp_level l]\<rparr>"
  shows "queues_rep s2 Q" "table_ok s2" "discipline s2 Q" "live s2 (current_process s2)"
    "live s2 a \<longleftrightarrow> live s a \<or> a = p" "pcbs s2 = pcbs s"
proof -
  note D = sched_repD [OF rep] and P = p [unfolded registrable_def]
  have i: "i < N_PROCESSES" "pid (pcbs s p) = int i" "processes s ! i = None" using P by (auto simp: i_def)
  have len: "length (processes s) = N_PROCESSES" "length (queue_level s) = N_PROCESSES" "processes s ! 0 = Some Init_process"
    using table_okD [OF D(2)] by simp_all
  have lv: "live s2 a \<longleftrightarrow> live s a \<or> a = p" for a
    using set_update_Some [of "processes s" i a p] i len by (simp add: live_def s2_def)
  then show "live s2 a \<longleftrightarrow> live s a \<or> a = p" .
  show "pcbs s2 = pcbs s" by (simp add: s2_def)
  show "queues_rep s2 Q" by (rule queues_rep_kernel [OF D(1)]) (simp_all add: s2_def)
  show "discipline s2 Q" using D(3) by (simp add: discipline_def s2_def)
  show "live s2 (current_process s2)" using D(4) lv by (simp add: s2_def)
  have "i \<noteq> 0" using i(3) len(3) by (metis option.distinct(1))
  then have "processes s2 ! 0 = Some Init_process" using len by (simp add: s2_def)
  moreover have "pid (pcbs s2 a) = int j" if "j < N_PROCESSES" "processes s2 ! j = Some a" for a j
    using that i len D(2) by (auto simp: s2_def table_ok_def nth_list_update split: if_splits)
  moreover have "0 \<le> x \<and> x < int ML_MAX_LEVELS" if "x \<in> set (queue_level s2)" for x
    using that set_update_subset_insert [of "queue_level s" i "clamp_level l"] table_okD(5) [OF D(2)]
    by (fastforce simp: s2_def clamp_level_def)
  moreover have "1 \<le> priority (pcbs s2 a) \<and> tickets (pcbs s2 a) < 2 ^ 57" if "live s2 a" for a
    using that lv [of a] P table_okD(6,7) [OF D(2)] by (auto simp: s2_def)
  ultimately show "table_ok s2"
    using len table_okD(4) [OF D(2)] by (simp add: table_ok_def) (simp add: s2_def)
qed

lemma add_process_spec:
  assumes rep: "sched_rep s Q" and p: "registrable p s" and room: "n_processes s < int N_PROCESSES"
  shows "\<exists>s' Q'. add_process_to_scheduler p s = Some (0, s') \<and> sched_rep s' Q' \<and>
    n_processes s' = n_processes s + 1 \<and> live s' p \<and> (\<forall>a. live s a \<longrightarrow> live s' a) \<and>
    level_of s' p = clamp_level (queue_priority (pcbs s p)) \<and> core (pcbs s') = core (pcbs s) \<and>
    current_process s' = current_process s \<and> phys s' = phys s \<and>
    processes s' = (processes s)[nat (pid (pcbs s p)) := Some p] \<and>
    (queued Q' p \<longleftrightarrow> state (pcbs s p) = PROCESS_READY)"
proof -
  note D = sched_repD [OF rep] and P = p [unfolded registrable_def]
  let ?i = "nat (pid (pcbs s p))"
  let ?l = "clamp_level (queue_priority (pcbs s p))"
  let ?s2 = "s\<lparr>processes := (processes s)[?i := Some p], queue_level := (queue_level s)[?i := ?l]\<rparr>"
  note R = registered_state [OF rep p, of "queue_priority (pcbs s p)"]
  have len: "length (processes s) = N_PROCESSES" "length (queue_level s) = N_PROCESSES" using table_okD [OF D(2)] by simp_all
  have nq: "\<not> queued Q p" using D(5) P by blast
  have ex: "\<exists>s3 Q3. (if state (pcbs s p) = PROCESS_READY then enqueue_process (Some p) ?s2 else Some ?s2) = Some s3 \<and>
      sched_rep s3 Q3 \<and> core (pcbs s3) = core (pcbs ?s2) \<and> rest s3 = rest ?s2"
  proof (cases "state (pcbs s p) = PROCESS_READY")
    case True
    have "almost_rep ?s2 Q p"
      unfolding almost_rep_def
      using R D(5,6) nq True P by auto
    from enqueue_ready [OF this] show ?thesis using True by simp
  next
    case False
    have "sched_rep ?s2 Q" unfolding sched_rep_def using R D(5,6) False P by auto
    then show ?thesis using False by auto
  qed
  then obtain s3 Q3 where s3: "(if state (pcbs s p) = PROCESS_READY then enqueue_process (Some p) ?s2 else Some ?s2) = Some s3"
      "sched_rep s3 Q3" "core (pcbs s3) = core (pcbs ?s2)" "rest s3 = rest ?s2" by blast
  let ?s' = "s3\<lparr>n_processes := n_processes s3 + 1\<rparr>"
  note F = rest_fields [OF s3(4)]
  have i: "nat (pid (pcbs s p)) < N_PROCESSES" using P by linarith
  have add: "add_process_to_scheduler p s = Some (0, ?s')"
    using P i room len s3(1) initial_level_clamped [OF table_okD(4) [OF D(2)]]
    by (simp add: add_process_to_scheduler_def Let_def aset_def)
  have rep': "sched_rep ?s' Q3"
    using table_okD(3,5) [OF sched_repD(2) [OF s3(2)]] by (intro sched_rep_cong [OF s3(2)]) auto
  have pid3: "pid (pcbs s3 p) = pid (pcbs s p)" "state (pcbs s3 p) = state (pcbs s p)"
    using static_fields(8) [OF core_static [OF s3(3), of p]] core_eq_fields(1) [OF s3(3), of p] by simp_all
  have lv: "live ?s' a \<longleftrightarrow> live s a \<or> a = p" for a using R(5) [of a] F(2) by (simp add: live_def)
  have "level_of ?s' p = ?l" using F(4) pid3 i len by (simp add: level_of_def nth_list_update)
  moreover have "queued Q3 p \<longleftrightarrow> state (pcbs s p) = PROCESS_READY"
    using sched_repD(5) [OF rep', of p] lv P pid3 by simp
  ultimately show ?thesis using add rep' lv F(1,2,3,13) s3(3) by auto
qed

subsection \<open>Scheduling parameters\<close>

lemma sched_rep_params:
  assumes rep: "sched_rep s Q"
    and keep: "\<And>x. next_ready (f x) = next_ready x" "\<And>x. state (f x) = state x" "\<And>x. pid (f x) = pid x"
      "\<And>x. est_burst (f x) = est_burst x"
    and ok: "live s p \<longrightarrow> 1 \<le> priority (f (pcbs s p)) \<and> tickets (f (pcbs s p)) < 2 ^ 57"
  shows "sched_rep (modify_pcb p f s) Q"
proof -
  note D = sched_repD [OF rep]
  have "table_ok (modify_pcb p f s)" using D(2) ok by (auto simp: table_ok_def live_def upd_pcb_apply keep)
  moreover have "queues_rep (modify_pcb p f s) Q" by (rule queues_rep_modify [OF D(1) keep(1)])
  moreover have "est_burst (upd_pcb p f (pcbs s) a) = est_burst (pcbs s a)" for a by (simp add: upd_pcb_apply keep)
  then have "discipline (modify_pcb p f s) Q" using D(3) by (simp add: discipline_def)
  moreover have "state (upd_pcb p f (pcbs s) a) = state (pcbs s a)" for a by (simp add: upd_pcb_apply keep)
  ultimately show ?thesis using rep by (simp add: sched_rep_def live_def)
qed

lemma preempt_round_trip: "preempt_enable ((modify_pcb p f (preempt_disable s))\<lparr>queue_level := l\<rparr>) =
    (modify_pcb p f s)\<lparr>queue_level := l\<rparr>"
  if "\<And>x n. f (x\<lparr>preempt_disabled := n\<rparr>) = (f x)\<lparr>preempt_disabled := n\<rparr>" "\<And>x. preempt_disabled (f x) = preempt_disabled x"
proof -
  have "upd_pcb c (\<lambda>x. x\<lparr>preempt_disabled := preempt_disabled x - 1\<rparr>)
          (upd_pcb p f (upd_pcb c (\<lambda>x. x\<lparr>preempt_disabled := preempt_disabled x + 1\<rparr>) h)) = upd_pcb p f h" for c h
    by (rule ext) (simp add: upd_pcb_apply that)
  then show ?thesis by (simp add: preempt_enable_def preempt_disable_def modify_pcb_def)
qed

text \<open>Which requests \<^verbatim>\<open>sched_set_param\<close> accepts.\<close>

definition accepts_param :: "int \<Rightarrow> int \<Rightarrow> bool" where
  "accepts_param param val \<longleftrightarrow>
     (param = SCHED_PARAM_PRIORITY \<or> param = SCHED_PARAM_TICKETS) \<and> 1 \<le> val \<or>
     param = SCHED_PARAM_QUEUE_PRIORITY \<and> 0 \<le> val \<and> val < int ML_MAX_LEVELS"

lemma set_param_spec:
  assumes rep: "sched_rep s Q" and p: "live s p" "p \<noteq> Init_process"
  shows "accepts_param param val \<Longrightarrow> val < 2 ^ 57 \<Longrightarrow>
      \<exists>s'. sched_set_param (Some p) param val s = Some (0, s') \<and> sched_rep s' Q \<and>
        current_process s' = current_process s \<and>
        (param = SCHED_PARAM_PRIORITY \<longrightarrow> priority (pcbs s' p) = val) \<and>
        (param = SCHED_PARAM_TICKETS \<longrightarrow> tickets (pcbs s' p) = val) \<and>
        (param = SCHED_PARAM_QUEUE_PRIORITY \<longrightarrow> queue_priority (pcbs s' p) = val \<and> level_of s' p = val) \<and>
        (\<forall>a. preempt_disabled (pcbs s' a) = preempt_disabled (pcbs s a))"
    and "\<not> accepts_param param val \<Longrightarrow> sched_set_param (Some p) param val s = Some (-1, s)"
proof -
  note D = sched_repD [OF rep] and P = live_slot [OF sched_repD(2) [OF rep] p(1)]
  have len: "length (queue_level s) = N_PROCESSES" using table_okD(3) [OF D(2)] .
  assume acc: "accepts_param param val" and small: "val < 2 ^ 57"
  consider (prio) "param = SCHED_PARAM_PRIORITY" "1 \<le> val" | (tick) "param = SCHED_PARAM_TICKETS" "1 \<le> val"
    | (queue) "param = SCHED_PARAM_QUEUE_PRIORITY" "0 \<le> val" "val < 5"
    using acc by (auto simp: accepts_param_def)
  then show "\<exists>s'. sched_set_param (Some p) param val s = Some (0, s') \<and> sched_rep s' Q \<and>
        current_process s' = current_process s \<and>
        (param = SCHED_PARAM_PRIORITY \<longrightarrow> priority (pcbs s' p) = val) \<and>
        (param = SCHED_PARAM_TICKETS \<longrightarrow> tickets (pcbs s' p) = val) \<and>
        (param = SCHED_PARAM_QUEUE_PRIORITY \<longrightarrow> queue_priority (pcbs s' p) = val \<and> level_of s' p = val) \<and>
        (\<forall>a. preempt_disabled (pcbs s' a) = preempt_disabled (pcbs s a))"
  proof cases
    case prio
    have "sched_rep (modify_pcb p (\<lambda>x. x\<lparr>priority := val\<rparr>) s) Q"
      using table_okD(7) [OF D(2)] prio by (intro sched_rep_params [OF rep]) simp_all
    then show ?thesis using prio p by (auto simp: sched_set_param_def upd_pcb_apply)
  next
    case tick
    have "sched_rep (modify_pcb p (\<lambda>x. x\<lparr>tickets := val\<rparr>) s) Q"
      using table_okD(6) [OF D(2)] tick small by (intro sched_rep_params [OF rep]) simp_all
    then show ?thesis using tick p by (auto simp: sched_set_param_def upd_pcb_apply)
  next
    case queue
    have v: "(case ml_policy (active_algorithm s) of None \<Rightarrow> val | Some pol \<Rightarrow> if val \<ge> n_levels pol then n_levels pol - 1 else val) = val"
      using queue table_okD(4) [OF D(2)]
      by (auto simp: sched_algorithms_def sched_algorithm_defs ml_policy_mlq_def ml_policy_mlfq_def)
    let ?lv = "(queue_level s)[nat (pid (pcbs s p)) := val]"
    let ?s' = "(modify_pcb p (\<lambda>x. x\<lparr>queue_priority := val\<rparr>) s)\<lparr>queue_level := ?lv\<rparr>"
    have rep1: "sched_rep (modify_pcb p (\<lambda>x. x\<lparr>queue_priority := val\<rparr>) s) Q" using rep by (rule sched_rep_modify) simp_all
    have "\<forall>x \<in> set ?lv. 0 \<le> x \<and> x < int ML_MAX_LEVELS"
      using set_update_subset_insert [of "queue_level s"] table_okD(5) [OF D(2)] queue by fastforce
    then have "sched_rep ?s' Q" using len by (intro sched_rep_kernel(3) [OF rep1]) simp_all
    moreover have "sched_set_param (Some p) param val s = Some (0, ?s')"
      using queue p v P len
      by (simp add: sched_set_param_def Let_def aset_def upd_pcb_apply preempt_round_trip
          del: modify_pcb_fields(1)) (simp add: upd_pcb_apply)
    ultimately show ?thesis using queue P len by (auto simp: upd_pcb_apply level_of_def)
  qed
next
  assume "\<not> accepts_param param val"
  then show "sched_set_param (Some p) param val s = Some (-1, s)"
    using p by (auto simp: sched_set_param_def accepts_param_def)
qed

end
