(* ===== verification/Scheduler_Properties.thy ===== *)
theory Scheduler_Properties
  imports Scheduler_Registration
begin

section \<open>The properties of the scheduler\<close>

text \<open>
  What \<^verbatim>\<open>libs/scheduler.c\<close> promises, stated over its entry points, with witnesses on a
  concrete kernel state that has a running, two ready and a waiting process.
\<close>

subsection \<open>A concrete state\<close>

definition demo_pcb :: "int \<Rightarrow> process_state \<Rightarrow> int \<Rightarrow> int \<Rightarrow> int \<Rightarrow> pcb_ptr option \<Rightarrow> PCB" where
  "demo_pcb n st cnt burst tick nxt = zero_pcb\<lparr>pid := n, state := st, counter := cnt, priority := 1,
     est_burst := burst, tickets := tick, preempt_disabled := (if st = PROCESS_RUNNING then 0 else 1),
     pid_to_wait := -1, next_ready := nxt\<rparr>"

definition demo_heap :: pcb_heap where
  "demo_heap = (\<lambda>_. zero_pcb)(Init_process := INIT_PROCESS,
     Pcb_at 1 := demo_pcb 1 PROCESS_READY 4 2 10 (Some (Pcb_at 2)),
     Pcb_at 2 := demo_pcb 2 PROCESS_READY 7 5 30 None,
     Pcb_at 3 := demo_pcb 3 PROCESS_RUNNING 1 3 20 None,
     Pcb_at 4 := (demo_pcb 4 PROCESS_WAITING_ANOTHER_PROCESS 1 1 10 None)\<lparr>pid_to_wait := 3\<rparr>)"

definition demo_kernel :: "SchedAlgorithm \<Rightarrow> kernel" where
  "demo_kernel alg = (boot_kernel alg (\<lambda>_. 0) zero_context (\<lambda>_. 0))\<lparr>
     pcbs := demo_heap, current_process := Pcb_at 3, n_processes := 5,
     processes := [Some Init_process, Some (Pcb_at 1), Some (Pcb_at 2), Some (Pcb_at 3), Some (Pcb_at 4)]
       @ replicate 59 None,
     ready_queue := \<lparr>q_head = Some (Pcb_at 1), q_tail = Some (Pcb_at 2)\<rparr>\<rparr>"

definition demo_queues :: queue_contents where
  "demo_queues r = (if r = Ready_queue then [Pcb_at 1, Pcb_at 2] else [])"

text \<open>The same processes under a multilevel algorithm, both ready ones on level 2.\<close>

definition demo_ml_kernel :: "SchedAlgorithm \<Rightarrow> kernel" where
  "demo_ml_kernel alg = (demo_kernel alg)\<lparr>ready_queue := QUEUE_INIT,
     ml_queues := [QUEUE_INIT, QUEUE_INIT, \<lparr>q_head = Some (Pcb_at 1), q_tail = Some (Pcb_at 2)\<rparr>, QUEUE_INIT, QUEUE_INIT],
     queue_level := [0, 2, 2, 3] @ replicate 60 0\<rparr>"

definition demo_ml_queues :: queue_contents where
  "demo_ml_queues r = (if r = Ml_queue 2 then [Pcb_at 1, Pcb_at 2] else [])"

lemma demo_pcb_simps [simp]:
  "pid (demo_pcb n st cnt b tk nx) = n" "state (demo_pcb n st cnt b tk nx) = st" "counter (demo_pcb n st cnt b tk nx) = cnt"
  "priority (demo_pcb n st cnt b tk nx) = 1" "est_burst (demo_pcb n st cnt b tk nx) = b" "tickets (demo_pcb n st cnt b tk nx) = tk"
  "next_ready (demo_pcb n st cnt b tk nx) = nx" "pending_signals (demo_pcb n st cnt b tk nx) = 0"
  "preempt_disabled (demo_pcb n st cnt b tk nx) = (if st = PROCESS_RUNNING then 0 else 1)" "pid_to_wait (demo_pcb n st cnt b tk nx) = -1"
  by (simp_all add: demo_pcb_def zero_pcb_def)

lemma demo_heap_simps [simp]:
  "demo_heap Init_process = INIT_PROCESS"
  "demo_heap (Pcb_at 1) = demo_pcb 1 PROCESS_READY 4 2 10 (Some (Pcb_at 2))"
  "demo_heap (Pcb_at 2) = demo_pcb 2 PROCESS_READY 7 5 30 None"
  "demo_heap (Pcb_at 3) = demo_pcb 3 PROCESS_RUNNING 1 3 20 None"
  "demo_heap (Pcb_at 4) = (demo_pcb 4 PROCESS_WAITING_ANOTHER_PROCESS 1 1 10 None)\<lparr>pid_to_wait := 3\<rparr>"
  by (simp_all add: demo_heap_def)

lemma demo_kernel_simps [simp]:
  "pcbs (demo_kernel alg) = demo_heap" "current_process (demo_kernel alg) = Pcb_at 3"
  "processes (demo_kernel alg) = [Some Init_process, Some (Pcb_at 1), Some (Pcb_at 2), Some (Pcb_at 3), Some (Pcb_at 4)] @ replicate 59 None"
  "queue_level (demo_kernel alg) = replicate 64 0" "active_algorithm (demo_kernel alg) = alg"
  "ready_queue (demo_kernel alg) = \<lparr>q_head = Some (Pcb_at 1), q_tail = Some (Pcb_at 2)\<rparr>"
  "ml_queues (demo_kernel alg) = replicate 5 QUEUE_INIT" "n_processes (demo_kernel alg) = 5"
  "lottery_rng_state (demo_kernel alg) = 88172645463325252" "timer_clo (demo_kernel alg) = (\<lambda>_. 0)"
  "ml_ticks_since_boost (demo_kernel alg) = 0"
  by (simp_all add: demo_kernel_def boot_kernel_def)

lemma demo_ml_simps [simp]:
  "pcbs (demo_ml_kernel alg) = demo_heap" "current_process (demo_ml_kernel alg) = Pcb_at 3"
  "processes (demo_ml_kernel alg) = [Some Init_process, Some (Pcb_at 1), Some (Pcb_at 2), Some (Pcb_at 3), Some (Pcb_at 4)] @ replicate 59 None"
  "queue_level (demo_ml_kernel alg) = [0, 2, 2, 3] @ replicate 60 0" "active_algorithm (demo_ml_kernel alg) = alg"
  "ready_queue (demo_ml_kernel alg) = QUEUE_INIT"
  "ml_queues (demo_ml_kernel alg) =
     [QUEUE_INIT, QUEUE_INIT, \<lparr>q_head = Some (Pcb_at 1), q_tail = Some (Pcb_at 2)\<rparr>, QUEUE_INIT, QUEUE_INIT]"
  by (simp_all add: demo_ml_kernel_def)

lemma init_simps [simp]: "pid INIT_PROCESS = 0" "state INIT_PROCESS = PROCESS_NONE" "priority INIT_PROCESS = 1"
  "tickets INIT_PROCESS = 10" "pending_signals INIT_PROCESS = 0"
  by (simp_all add: INIT_PROCESS_def)

lemma demo_flags [simp]: "current_runnable (demo_kernel alg)" "current_runnable (demo_ml_kernel alg)"
  "\<not> doomed (demo_pcb n st cnt b tk nx)"
  by (simp_all add: current_runnable_def doomed_def)

lemma demo_live: "live (demo_kernel alg) p \<longleftrightarrow> p = Init_process \<or> p = Pcb_at 1 \<or> p = Pcb_at 2 \<or> p = Pcb_at 3 \<or> p = Pcb_at 4"
  by (auto simp: live_def)

lemma padded_slot: "(xs @ replicate n None) ! i = Some p \<Longrightarrow> i < length xs + n \<Longrightarrow> i < length xs \<and> xs ! i = Some p"
  by (auto simp: nth_append split: if_splits)

lemma demo_slot:
  assumes "processes (demo_kernel alg) ! i = Some p" "i < 64"
  shows "pid (demo_heap p) = int i"
proof -
  let ?xs = "[Some Init_process, Some (Pcb_at 1), Some (Pcb_at 2), Some (Pcb_at 3), Some (Pcb_at 4)]"
  have xs: "i < length ?xs \<and> ?xs ! i = Some p"
    using assms by (intro padded_slot [of ?xs 59]) simp_all
  then have "i = 0 \<or> i = 1 \<or> i = 2 \<or> i = 3 \<or> i = 4" by auto
  with xs show ?thesis by auto
qed

lemma demo_table:
  assumes "alg \<in> set sched_algorithms"
  shows "table_ok (demo_kernel alg)"
proof -
  have "1 \<le> priority (demo_heap p) \<and> tickets (demo_heap p) < 2 ^ 57" if "live (demo_kernel alg) p" for p
    using that unfolding demo_live by auto
  moreover have "pid (pcbs (demo_kernel alg) p) = int i" if "i < 64" "processes (demo_kernel alg) ! i = Some p" for i p
    using demo_slot that by simp
  ultimately show ?thesis using assms unfolding table_ok_def by simp
qed

lemma demo_queue_rep: "queue_rep demo_heap \<lparr>q_head = Some (Pcb_at 1), q_tail = Some (Pcb_at 2)\<rparr> [Pcb_at 1, Pcb_at 2]"
  by (simp add: queue_rep_def links_def)

lemma demo_states:
  assumes "live (demo_kernel alg) p"
  shows "p \<noteq> Init_process \<and> state (demo_heap p) = PROCESS_READY \<longleftrightarrow> p = Pcb_at 1 \<or> p = Pcb_at 2"
    "state (demo_heap p) = PROCESS_RUNNING \<longleftrightarrow> p = Pcb_at 3"
  using assms unfolding demo_live by auto

lemma demo_rep:
  assumes "alg \<in> set single_queue_algorithms"
  shows "sched_rep (demo_kernel alg) demo_queues"
proof -
  have alg: "alg \<in> set sched_algorithms" "ml_policy alg = None"
    using assms by (auto simp: single_queue_algorithms_def sched_algorithms_def single_queue_algorithm)
  have "get_queue r (demo_kernel alg) = Some (if r = Ready_queue then \<lparr>q_head = Some (Pcb_at 1), q_tail = Some (Pcb_at 2)\<rparr> else QUEUE_INIT)"
    if "valid_ref r" for r
    using that by (cases r) (auto simp: get_queue_def valid_ref_def aget_def)
  then have "queues_rep (demo_kernel alg) demo_queues"
    using demo_queue_rep by (auto simp: queues_rep_def demo_queues_def valid_ref_def)
  moreover have "discipline (demo_kernel alg) demo_queues"
    using alg by (simp add: discipline_def demo_queues_def)
  moreover have "queued demo_queues p \<longleftrightarrow> p = Pcb_at 1 \<or> p = Pcb_at 2" for p
    by (auto simp: queued_def demo_queues_def)
  ultimately show ?thesis
    using demo_table [OF alg(1)] demo_states [of alg] demo_live [of alg] by (auto simp: sched_rep_def)
qed

lemma demo_ml_rep:
  assumes "alg = sched_mlq \<or> alg = sched_mlfq"
  shows "sched_rep (demo_ml_kernel alg) demo_ml_queues"
proof -
  have alg: "alg \<in> set sched_algorithms" "ml_policy alg \<noteq> None" "enqueue alg = Enqueue_multilevel"
    using assms by (auto simp: sched_algorithms_def sched_mlq_def sched_mlfq_def)
  have "get_queue r (demo_ml_kernel alg) = Some (if r = Ml_queue 2 then \<lparr>q_head = Some (Pcb_at 1), q_tail = Some (Pcb_at 2)\<rparr> else QUEUE_INIT)"
    if "valid_ref r" for r
  proof (cases r)
    case Ready_queue
    then show ?thesis by (simp add: get_queue_def)
  next
    case (Ml_queue i)
    with that have "i = 0 \<or> i = 1 \<or> i = 2 \<or> i = 3 \<or> i = 4" by (auto simp: valid_ref_def)
    with Ml_queue show ?thesis by (auto simp: get_queue_def aget_def)
  qed
  then have "queues_rep (demo_ml_kernel alg) demo_ml_queues"
    using demo_queue_rep by (auto simp: queues_rep_def demo_ml_queues_def valid_ref_def)
  moreover have lv: "live (demo_ml_kernel alg) p = live (demo_kernel alg) p" for p by (rule live_cong) simp
  moreover have "discipline (demo_ml_kernel alg) demo_ml_queues"
    using alg by (auto simp: discipline_def demo_ml_queues_def)
  moreover have "queued demo_ml_queues p \<longleftrightarrow> p = Pcb_at 1 \<or> p = Pcb_at 2" for p
    by (auto simp: queued_def demo_ml_queues_def)
  moreover have "table_ok (demo_ml_kernel alg)"
    using demo_table [OF alg(1)] lv unfolding table_ok_def by auto
  ultimately show ?thesis
    using demo_states [of alg] demo_live [of alg] by (auto simp: sched_rep_def)
qed

lemma sched_rep_idle:
  assumes rep: "sched_rep s (\<lambda>_. [])" and tb: "table_ok s'"
    and eq: "ready_queue s' = ready_queue s" "ml_queues s' = ml_queues s" "active_algorithm s' = active_algorithm s"
      "current_process s' = Init_process"
    and idle: "\<forall>p. live s' p \<longrightarrow> (p = Init_process \<or> state (pcbs s' p) \<noteq> PROCESS_READY) \<and> state (pcbs s' p) \<noteq> PROCESS_RUNNING"
  shows "sched_rep s' (\<lambda>_. [])"
proof -
  have "get_queue r s' = get_queue r s" for r using eq by (simp add: get_queue_def split: queue_ref.splits)
  then have "queues_rep s' (\<lambda>_. [])"
    using sched_repD(1) [OF rep] eq(2) by (simp add: queues_rep_def queue_rep_def)
  then show ?thesis using tb idle live_Init [OF tb] by (auto simp: sched_rep_def discipline_def queued_def eq(4))
qed

text \<open>Only the waiting process is registered; the idle process runs.\<close>

definition demo_idle_kernel :: "SchedAlgorithm \<Rightarrow> kernel" where
  "demo_idle_kernel alg = (boot_kernel alg (\<lambda>_. 0) zero_context (\<lambda>_. 0))\<lparr>
     pcbs := demo_heap, n_processes := 2,
     processes := [Some Init_process, None, None, None, Some (Pcb_at 4)] @ replicate 59 None\<rparr>"

lemma demo_idle_rep:
  assumes "alg \<in> set sched_algorithms"
  shows "sched_rep (demo_idle_kernel alg) (\<lambda>_. [])"
proof -
  let ?d = "demo_idle_kernel alg" and ?xs = "[Some Init_process, None, None, None, Some (Pcb_at 4)]"
  have F: "pcbs ?d = demo_heap" "processes ?d = ?xs @ replicate 59 None" "current_process ?d = Init_process"
    "queue_level ?d = replicate 64 0" "active_algorithm ?d = alg"
    by (simp_all add: demo_idle_kernel_def boot_kernel_def)
  have lv: "live ?d p \<longleftrightarrow> p = Init_process \<or> p = Pcb_at 4" for p by (auto simp: live_def F)
  have slot: "pid (demo_heap p) = int i" if "i < 64" "processes ?d ! i = Some p" for i p
  proof -
    have xs: "i < length ?xs \<and> ?xs ! i = Some p" using that by (intro padded_slot [of ?xs 59]) (simp_all add: F)
    then have "i = 0 \<or> i = 1 \<or> i = 2 \<or> i = 3 \<or> i = 4" by auto
    with xs show ?thesis by auto
  qed
  have "1 \<le> priority (demo_heap p) \<and> tickets (demo_heap p) < 2 ^ 57" if "live ?d p" for p
    using that unfolding lv by auto
  then have tb: "table_ok ?d" using assms slot unfolding table_ok_def F by (simp add: F)
  show ?thesis
  proof (rule sched_rep_idle [OF boot_rep [OF assms, of "\<lambda>_. 0" zero_context "\<lambda>_. 0"] tb])
    show "\<forall>p. live ?d p \<longrightarrow> (p = Init_process \<or> state (pcbs ?d p) \<noteq> PROCESS_READY) \<and> state (pcbs ?d p) \<noteq> PROCESS_RUNNING"
      unfolding lv F by auto
  qed (simp_all add: demo_idle_kernel_def boot_kernel_def)
qed

text \<open>Writing a PCB that is not registered, or one that is blocked before and after.\<close>

lemma sched_rep_fresh:
  assumes rep: "sched_rep s Q" and nl: "\<not> live s p" and nx: "next_ready (f (pcbs s p)) = next_ready (pcbs s p)"
  shows "sched_rep (modify_pcb p f s) Q"
proof -
  note D = sched_repD [OF rep]
  have nq: "\<not> queued Q p" using D(5) nl by blast
  have other: "live s a \<Longrightarrow> upd_pcb p f (pcbs s) a = pcbs s a" for a using nl by (auto simp: upd_pcb_apply)
  have "links (pcbs (modify_pcb p f s)) = links (pcbs s)" using nx by (auto simp: links_def upd_pcb_apply)
  then have "queues_rep (modify_pcb p f s) Q" by (rule queues_rep_links [OF D(1)]) simp_all
  moreover have slot: "pid (upd_pcb p f (pcbs s) a) = int i" if "i < N_PROCESSES" "processes s ! i = Some a" for i a
  proof -
    have "live s a" using that table_okD(1) [OF D(2)] by (metis live_def nth_mem)
    then show ?thesis using other that D(2) by (simp add: table_ok_def)
  qed
  have slots: "\<forall>i < N_PROCESSES. \<forall>a. processes s ! i = Some a \<longrightarrow> pid (upd_pcb p f (pcbs s) a) = int i"
    using slot by blast
  have bounds: "\<forall>a. live s a \<longrightarrow> 1 \<le> priority (upd_pcb p f (pcbs s) a) \<and> tickets (upd_pcb p f (pcbs s) a) < 2 ^ 57"
    using other D(2) by (simp add: table_ok_def)
  have lv: "live (modify_pcb p f s) a = live s a" for a by (simp add: live_def)
  have "table_ok (modify_pcb p f s)"
    using D(2) bounds slots unfolding table_ok_def modify_pcb_fields lv by (elim conjE) (intro conjI, assumption+)
  moreover
  have eq: "map (\<lambda>a. est_burst (upd_pcb p f (pcbs s) a)) (Q Ready_queue) = map (\<lambda>a. est_burst (pcbs s a)) (Q Ready_queue)"
    using nq by (auto simp: upd_pcb_apply queued_def)
  have "discipline (modify_pcb p f s) Q" using D(3) by (simp add: discipline_def eq)
  ultimately show ?thesis using rep other by (auto simp: sched_rep_def live_def)
qed

lemma sched_rep_blocked_state:
  assumes rep: "sched_rep s Q" and p: "state (pcbs s p) \<noteq> PROCESS_READY"
    and f: "state (f (pcbs s p)) \<noteq> PROCESS_READY" "state (f (pcbs s p)) \<noteq> PROCESS_RUNNING"
      "\<And>x. next_ready (f x) = next_ready x" "\<And>x. pid (f x) = pid x" "\<And>x. priority (f x) = priority x"
      "\<And>x. tickets (f x) = tickets x"
  shows "sched_rep (modify_pcb p f s) Q"
proof -
  note D = sched_repD [OF rep]
  have nq: "\<not> queued Q p" using D(5) p by blast
  have "table_ok (modify_pcb p f s)" by (rule table_ok_cong [OF D(2)]) (simp_all add: upd_pcb_apply f)
  moreover have "queues_rep (modify_pcb p f s) Q" by (rule queues_rep_modify [OF D(1) f(3)])
  moreover
  have eq: "map (\<lambda>a. est_burst (upd_pcb p f (pcbs s) a)) (Q Ready_queue) = map (\<lambda>a. est_burst (pcbs s a)) (Q Ready_queue)"
    using nq by (auto simp: upd_pcb_apply queued_def)
  have "discipline (modify_pcb p f s) Q" using D(3) by (simp add: discipline_def eq)
  moreover have "queued Q a \<longleftrightarrow> a \<noteq> Init_process \<and> live s a \<and> state (upd_pcb p f (pcbs s) a) = PROCESS_READY" for a
    using D(5) nq f(1) by (auto simp: upd_pcb_apply)
  moreover have "\<forall>a. live s a \<and> state (upd_pcb p f (pcbs s) a) = PROCESS_RUNNING \<longrightarrow> a = current_process s"
  proof (intro allI impI)
    fix a assume a: "live s a \<and> state (upd_pcb p f (pcbs s) a) = PROCESS_RUNNING"
    then have "a \<noteq> p" using f(2) by auto
    then show "a = current_process s" using a D(6) [of a] by simp
  qed
  ultimately show ?thesis using D(4) by (simp add: sched_rep_def live_def)
qed

subsection \<open>Any algorithm\<close>

lemma sched_invE: "sched_inv s \<Longrightarrow> (\<And>Q. sched_rep s Q \<Longrightarrow> thesis) \<Longrightarrow> thesis"
  by (auto simp: sched_inv_def)

lemma demo_inv: "alg \<in> set single_queue_algorithms \<Longrightarrow> sched_inv (demo_kernel alg)"
  using demo_rep by (auto simp: sched_inv_def)

lemma in_single_queue [simp]:
  "sched_round_robin \<in> set single_queue_algorithms" "sched_fcfs \<in> set single_queue_algorithms"
  "sched_sjf \<in> set single_queue_algorithms" "sched_lottery \<in> set single_queue_algorithms"
  "sched_priority_aging \<in> set single_queue_algorithms"
  by (simp_all add: single_queue_algorithms_def)

lemma schedule_result:
  assumes "sched_inv s" "schedule s = Some s'"
  shows "switch_contract s s'"
proof -
  from assms(1) obtain Q where "sched_rep s Q" by (rule sched_invE)
  with schedule_correct assms(2) show ?thesis by fastforce
qed

text \<open>
  C1. schedule() of libs/scheduler.c is total: from every well-formed kernel state, under any of the
  seven algorithms, it returns (no NULL dereference, no index outside an array, no endless selection
  loop), the new state is well formed, and in it exactly the current process is RUNNING.
\<close>

theorem schedule_total_and_invariant:
  assumes "sched_inv s"
  shows "\<exists>s'. schedule s = Some s' \<and> sched_inv s' \<and>
           (\<forall>p. live s' p \<longrightarrow> (state (pcbs s' p) = PROCESS_RUNNING \<longleftrightarrow> p = current_process s'))"
proof -
  from assms obtain Q where "sched_rep s Q" by (rule sched_invE)
  then obtain s' where s': "schedule s = Some s'" "switch_contract s s'" using schedule_correct by blast
  from switch_contractD(1) [OF s'(2)] obtain Q' where rep': "sched_rep s' Q'" by (rule sched_invE)
  have "live s' p \<longrightarrow> (state (pcbs s' p) = PROCESS_RUNNING \<longleftrightarrow> p = current_process s')" for p
    using sched_repD(6) [OF rep'] switch_contractD(5) [OF s'(2)] by blast
  then show ?thesis using s'(1) switch_contractD(1) [OF s'(2)] by blast
qed

theorem schedule_total_witness:
  "\<exists>s'. schedule (demo_kernel sched_sjf) = Some s' \<and> sched_inv s' \<and>
     (\<forall>p. live s' p \<longrightarrow> (state (pcbs s' p) = PROCESS_RUNNING \<longleftrightarrow> p = current_process s'))"
  using schedule_total_and_invariant [OF demo_inv [of sched_sjf]] by simp

text \<open>
  C3. A context switch saves and restores: the registers of the outgoing process end up in its PCB, the
  CPU and the translation table base hold the values of the incoming process, all other saved contexts are
  untouched, and the preemption counter is incremented for the outgoing and decremented for the
  incoming process, so that a process that is switched back to finds it as it left it.
\<close>

theorem schedule_context_switch:
  assumes "sched_inv s" "schedule s = Some s'" "current_process s' \<noteq> current_process s"
  shows "cpu_context (pcbs s' (current_process s)) = cpu_regs s \<and>
    cpu_regs s' = cpu_context (pcbs s (current_process s')) \<and>
    ttbr0_el1 s' = pgd (mm (pcbs s (current_process s'))) \<and>
    (\<forall>p. p \<noteq> current_process s \<longrightarrow> cpu_context (pcbs s' p) = cpu_context (pcbs s p)) \<and>
    preempt_disabled (pcbs s' (current_process s)) = preempt_disabled (pcbs s (current_process s)) + 1 \<and>
    preempt_disabled (pcbs s' (current_process s')) = preempt_disabled (pcbs s (current_process s')) - 1"
  using schedule_result [OF assms(1,2)] assms(3) by (simp add: switch_contract_def switched_def)

text \<open>
  C2. No process is lost. A registered READY or RUNNING process is still READY or RUNNING after
  schedule(), unless a pending KILL or STOP signal made it ZOMBIE or STOPPED; a process that waits, is
  stopped or has exited keeps its state.
\<close>

theorem schedule_loses_nobody:
  assumes "sched_inv s" "schedule s = Some s'" "live s p" "p \<noteq> Init_process"
  shows "if state (pcbs s p) = PROCESS_READY \<or> state (pcbs s p) = PROCESS_RUNNING
    then state (pcbs s' p) \<in> {PROCESS_READY, PROCESS_RUNNING} \<or>
         doomed (pcbs s p) \<and> state (pcbs s' p) \<in> {PROCESS_ZOMBIE, PROCESS_STOPPED}
    else state (pcbs s' p) = state (pcbs s p)"
  using switch_contractD(6,7) [OF schedule_result [OF assms(1,2)] assms(3,4)] by auto

text \<open>
  The scheduler is work conserving: it falls back to the idle process only when no other
  registered process is READY.
\<close>

lemma schedule_idles_last:
  assumes "sched_inv s" "schedule s = Some s'" "current_process s' = Init_process" "live s' p" "p \<noteq> Init_process"
  shows "state (pcbs s' p) \<noteq> PROCESS_READY"
  using switch_contractD(2) [OF schedule_result [OF assms(1,2)]] assms(3-5) by (simp add: work_conserving_def)

subsection \<open>Round Robin, FCFS, SJF\<close>

lemma rotation_entry: "rotation (schedule_entry s) Q = rotation s Q"
  by (simp add: rotation_def schedule_entry_fields)

lemma entry_est_burst: "current_runnable s \<Longrightarrow> est_burst (pcbs (schedule_entry s) p) = est_burst (pcbs s p)"
  by (simp add: schedule_entry_def Let_def upd_pcb_apply current_runnable_def)

lemma waiting_line_entry: "waiting_line (schedule_entry s) Q = waiting_line s Q"
proof (cases "current_runnable s")
  case True
  then have "(\<lambda>p. est_burst (pcbs (schedule_entry s) p)) = (\<lambda>p. est_burst (pcbs s p))" by (intro ext entry_est_burst)
  then show ?thesis by (simp add: waiting_line_def schedule_entry_fields)
qed (simp add: waiting_line_def schedule_entry_fields)

lemma find_entry: "find (\<lambda>p. \<not> doomed (pcbs (schedule_entry s) p)) xs = find (\<lambda>p. \<not> doomed (pcbs s p)) xs"
  "dropWhile (\<lambda>p. doomed (pcbs (schedule_entry s) p)) xs = dropWhile (\<lambda>p. doomed (pcbs s p)) xs"
  by (simp_all add: schedule_entry_fields)

lemma rr_schedule:
  assumes "sched_rep s Q" "active_algorithm s = sched_round_robin"
  shows "\<exists>s' Q'. schedule s = Some s' \<and> sched_rep s' Q' \<and>
    current_process s' = (case find (\<lambda>p. \<not> doomed (pcbs s p)) (rotation s Q) of None \<Rightarrow> Init_process | Some p \<Rightarrow> p) \<and>
    Q' Ready_queue = tl (dropWhile (\<lambda>p. doomed (pcbs s p)) (rotation s Q)) \<and>
    (current_process s' \<noteq> Init_process \<longrightarrow> counter (pcbs s' (current_process s')) = 10)"
proof -
  let ?e = "schedule_entry s" and ?np = "find (\<lambda>p. \<not> doomed (pcbs s p)) (rotation s Q)"
  have rep: "sched_rep ?e Q" by (rule schedule_entry_rep [OF assms(1)])
  have alg: "active_algorithm ?e = sched_round_robin" using assms(2) by (simp add: schedule_entry_fields)
  obtain s2 Q2 s3 Q3 where R: "requeued (preempt_disable ?e) Q s2 Q2" "selects s2 Q2 ?np s3 Q3"
    "Q3 Ready_queue = tl (dropWhile (\<lambda>p. doomed (pcbs s p)) (rotation s Q))"
    "schedule_round_robin ?e = Some (dispatch ?np (Some 10) s3)"
    by (rule round_robin_spec [OF rep alg, unfolded rotation_entry find_entry])
  have rep': "sched_rep (dispatch ?np (Some 10) s3) Q3"
    by (rule dispatch_rep [OF sched_rep_preempt(1) [OF rep] R(1,2)])
  have "schedule s = Some (dispatch ?np (Some 10) s3)"
    using R(4) alg by (simp add: schedule_eq schedule_pick_def sched_round_robin_def)
  then show ?thesis
    using rep' R(3) by (auto simp: dispatch_kernel dispatch_target_def dispatch_counter split: option.splits)
qed

text \<open>
  C19. Round Robin: schedule() runs the first process of the rotation (the ready queue with the still
  runnable current process at its end) that no KILL or STOP signal removes, gives it a quantum of 10
  ticks, and leaves the rest of the rotation, in order, as the new ready queue.
\<close>

theorem round_robin_rotates:
  assumes "sched_rep s Q" "active_algorithm s = sched_round_robin"
  shows "\<exists>s' Q'. schedule s = Some s' \<and> sched_rep s' Q' \<and>
    current_process s' = (case find (\<lambda>p. \<not> doomed (pcbs s p)) (rotation s Q) of None \<Rightarrow> Init_process | Some p \<Rightarrow> p) \<and>
    Q' Ready_queue = tl (dropWhile (\<lambda>p. doomed (pcbs s p)) (rotation s Q)) \<and>
    (current_process s' \<noteq> Init_process \<longrightarrow> counter (pcbs s' (current_process s')) = 10)"
  using assms by (rule rr_schedule)

theorem round_robin_witness:
  "\<exists>s'. schedule (demo_kernel sched_round_robin) = Some s' \<and> current_process s' = Pcb_at 1"
proof -
  have rot: "rotation (demo_kernel sched_round_robin) demo_queues = [Pcb_at 1, Pcb_at 2, Pcb_at 3]"
    by (simp add: rotation_def demo_queues_def)
  show ?thesis
    using round_robin_rotates [OF demo_rep [of sched_round_robin]] by (auto simp: rot)
qed

lemma find_Some_iff_split: "find P xs = Some q \<Longrightarrow> \<exists>us vs. xs = us @ q # vs \<and> (\<forall>u \<in> set us. \<not> P u)"
proof (induction xs)
  case (Cons x xs)
  show ?case
  proof (cases "P x")
    case True
    with Cons.prems show ?thesis by (intro exI [of _ "[]"] exI [of _ xs]) auto
  next
    case False
    with Cons obtain us vs where "xs = us @ q # vs" "\<forall>u \<in> set us. \<not> P u" by auto
    with False show ?thesis by (intro exI [of _ "x # us"] exI [of _ vs]) auto
  qed
qed simp

lemma queue_head_schedule:
  assumes "sched_rep s Q" "active_algorithm s = sched_fcfs \<or> active_algorithm s = sched_sjf"
  obtains s' Q' where "schedule s = Some s'" "sched_rep s' Q'"
    "current_process s' = (case find (\<lambda>p. \<not> doomed (pcbs s p)) (waiting_line s Q) of None \<Rightarrow> Init_process | Some p \<Rightarrow> p)"
    "Q' Ready_queue = tl (dropWhile (\<lambda>p. doomed (pcbs s p)) (waiting_line s Q))"
proof -
  let ?e = "schedule_entry s" and ?np = "find (\<lambda>p. \<not> doomed (pcbs s p)) (waiting_line s Q)"
  have rep: "sched_rep ?e Q" by (rule schedule_entry_rep [OF assms(1)])
  have alg: "active_algorithm ?e = sched_fcfs \<or> active_algorithm ?e = sched_sjf" using assms(2) by (simp add: schedule_entry_fields)
  obtain s2 Q2 s3 Q3 where R: "requeued (preempt_disable ?e) Q s2 Q2" "selects s2 Q2 ?np s3 Q3"
    "Q3 Ready_queue = tl (dropWhile (\<lambda>p. doomed (pcbs s p)) (waiting_line s Q))"
    "schedule_queue_head ?e = Some (dispatch ?np None s3)"
    by (rule queue_head_spec [OF rep alg, unfolded waiting_line_entry find_entry])
  have rep': "sched_rep (dispatch ?np None s3) Q3"
    by (rule dispatch_rep [OF sched_rep_preempt(1) [OF rep] R(1,2)])
  have "schedule s = Some (dispatch ?np None s3)"
    using R(4) alg by (auto simp: schedule_eq schedule_pick_def sched_fcfs_def sched_sjf_def)
  then show thesis by (rule that [OF _ rep' _ R(3)]) (simp add: dispatch_kernel dispatch_target_def)
qed

text \<open>
  First come, first served: schedule() runs the process that has waited longest among those no
  signal removes, and the others keep their order.
\<close>

lemma fcfs_runs_longest_waiting:
  assumes "sched_rep s Q" "active_algorithm s = sched_fcfs"
    and "Q Ready_queue = ds @ p # ps" "\<forall>d \<in> set ds. doomed (pcbs s d)" "\<not> doomed (pcbs s p)"
  shows "\<exists>s' Q'. schedule s = Some s' \<and> sched_rep s' Q' \<and> current_process s' = p \<and>
    Q' Ready_queue = ps @ (if current_runnable s then [current_process s] else [])"
proof -
  have line: "waiting_line s Q = ds @ p # (ps @ (if current_runnable s then [current_process s] else []))"
    using assms(2,3) by (simp add: waiting_line_def sched_fcfs_def)
  have f: "find (\<lambda>p. \<not> doomed (pcbs s p)) (ds @ p # xs) = Some p" "dropWhile (\<lambda>p. doomed (pcbs s p)) (ds @ p # xs) = p # xs" for xs
    using assms(4,5) by (induction ds) auto
  obtain s' Q' where "schedule s = Some s'" "sched_rep s' Q'"
    "current_process s' = (case find (\<lambda>p. \<not> doomed (pcbs s p)) (waiting_line s Q) of None \<Rightarrow> Init_process | Some p \<Rightarrow> p)"
    "Q' Ready_queue = tl (dropWhile (\<lambda>p. doomed (pcbs s p)) (waiting_line s Q))"
    using queue_head_schedule [OF assms(1)] assms(2) by blast
  then show ?thesis unfolding line f by auto
qed

text \<open>
  Shortest job first: the process schedule() runs has the smallest estimated burst of all
  waiting processes that no signal removes (the current one included if it is still runnable).
\<close>

lemma sjf_runs_shortest:
  assumes "sched_rep s Q" "active_algorithm s = sched_sjf"
    and "p \<in> set (Q Ready_queue) \<or> current_runnable s \<and> p = current_process s" "\<not> doomed (pcbs s p)"
  shows "\<exists>s'. schedule s = Some s' \<and> current_process s' \<noteq> Init_process \<and>
    est_burst (pcbs s (current_process s')) \<le> est_burst (pcbs s p)"
proof -
  let ?b = "\<lambda>p. est_burst (pcbs s p)" and ?line = "waiting_line s Q"
  have sjf: "enqueue (active_algorithm s) = Enqueue_sjf" using assms(2) by (simp add: sched_sjf_def)
  have srt: "sorted (map ?b ?line)"
    using sched_repD(3) [OF assms(1)] sjf by (auto simp: waiting_line_def discipline_def intro!: sorted_insert_by)
  have mem: "p \<in> set ?line" using assms(3) sjf by (auto simp: waiting_line_def)
  obtain q where q: "find (\<lambda>p. \<not> doomed (pcbs s p)) ?line = Some q"
    using mem assms(4) by (metis find_None_iff option.exhaust)
  obtain us vs where sp: "?line = us @ q # vs" "\<forall>u \<in> set us. doomed (pcbs s u)"
    using find_Some_iff_split [OF q] by auto
  have "p \<notin> set us" using sp(2) assms(4) by blast
  then have "?b q \<le> ?b p" using srt mem sp(1) by (auto simp: sorted_append)
  moreover obtain s' Q' where "schedule s = Some s'" "current_process s' = q"
    by (rule queue_head_schedule [OF assms(1) disjI2 [OF assms(2)], unfolded q option.case])
  moreover have "q \<noteq> Init_process"
  proof -
    have "q \<in> set ?line" using sp(1) by simp
    then have "queued Q q \<or> current_runnable s \<and> q = current_process s"
      using sjf by (auto simp: waiting_line_def queued_def split: if_splits)
    moreover have "queued Q q \<Longrightarrow> q \<noteq> Init_process" using sched_repD(5) [OF assms(1), of q] by blast
    moreover have "current_runnable s \<Longrightarrow> current_process s \<noteq> Init_process" by (simp add: current_runnable_def)
    ultimately show ?thesis by metis
  qed
  ultimately show ?thesis by blast
qed

subsection \<open>Lottery\<close>

lemma interval_unique:
  assumes "us @ c # vs = us' @ c' # vs'"
    and "ticket_sum h us \<le> w" "w < ticket_sum h us + effective_tickets (h c)"
    and "ticket_sum h us' \<le> w" "w < ticket_sum h us' + effective_tickets (h c')"
  shows "c = c'"
  using assms
proof (induction us arbitrary: us' w)
  case Nil
  then show ?case using ticket_sum_nonneg [of h "tl us'"] by (cases us') (auto simp del: ticket_sum_nonneg)
next
  case (Cons u us)
  show ?case
  proof (cases us')
    case Nil
    then show ?thesis using Cons.prems ticket_sum_nonneg [of h us] by (auto simp del: ticket_sum_nonneg)
  next
    case (Cons u' us'')
    then show ?thesis using Cons.prems Cons.IH [of us'' "w - effective_tickets (h u)"] by auto
  qed
qed

text \<open>The number drawn in state \<open>s\<close>, as \<^verbatim>\<open>lottery_random() % total_tickets\<close> computes it.\<close>

definition winning_number :: "kernel \<Rightarrow> queue_contents \<Rightarrow> int" where
  "winning_number s Q = uint (fst (lottery_random s)) mod ticket_sum (pcbs s) (rotation s Q)"

lemma lottery_random_cong:
  assumes "rest s' = rest s"
  shows "fst (lottery_random s') = fst (lottery_random s)"
  using rest_fields(7-9) [OF assms] by (simp add: lottery_random_def mmio_read_clo_def Let_def)

lemma lottery_random_entry: "fst (lottery_random (preempt_disable (schedule_entry s))) = fst (lottery_random s)"
  by (simp add: lottery_random_def mmio_read_clo_def Let_def preempt_disable_def modify_pcb_def
      schedule_entry_def)

lemma entry_tickets: "tickets (pcbs (preempt_disable (schedule_entry s)) p) = tickets (pcbs s p)"
  by (simp add: preempt_disable_def upd_pcb_apply schedule_entry_fields)

text \<open>
  C20. Lottery: the drawn number decides. If the ticket interval of process c in the rotation contains the
  winning number and no signal removes c, schedule() runs c and gives it 10 ticks.
\<close>

theorem lottery_runs_winner:
  assumes rep: "sched_rep s Q" and alg: "active_algorithm s = sched_lottery"
    and line: "rotation s Q = us @ c # vs" and c: "\<not> doomed (pcbs s c)"
    and win: "ticket_sum (pcbs s) us \<le> winning_number s Q"
      "winning_number s Q < ticket_sum (pcbs s) us + effective_tickets (pcbs s c)"
  shows "\<exists>s'. schedule s = Some s' \<and> current_process s' = c \<and> counter (pcbs s' c) = 10"
proof -
  let ?e = "schedule_entry s" and ?p = "preempt_disable (schedule_entry s)"
  have repe: "sched_rep ?e Q" by (rule schedule_entry_rep [OF rep])
  have alge: "active_algorithm ?e = sched_lottery" using alg by (simp add: schedule_entry_fields)
  obtain s2 Q2 np s3 Q3 where R: "requeued ?p Q s2 Q2" "Q2 Ready_queue = rotation s Q"
    "lottery_draw s2 = Some (np, s3)" "schedule_lottery ?e = Some (dispatch np (Some 10) s3)"
    by (rule lottery_spec [OF repe alge, unfolded rotation_entry])
  have rep2: "sched_rep s2 Q2" by (rule requeued_rep [OF sched_rep_preempt(1) [OF repe] R(1)])
  note D = sched_repD [OF rep2]
  have tk: "effective_tickets (pcbs s2 x) = effective_tickets (pcbs s x)" for x
    using static_fields(6) [OF requeued_fields(2) [OF R(1), of x]] entry_tickets [of s x] unfolding effective_tickets_def by simp
  have ts: "ticket_sum (pcbs s2) xs = ticket_sum (pcbs s) xs" for xs by (rule ticket_sum_cong) (rule tk)
  have num: "uint (fst (lottery_random s2)) mod ticket_sum (pcbs s) (Q2 Ready_queue) = winning_number s Q"
    using lottery_random_cong [OF requeued_fields(1) [OF R(1)]] by (simp add: winning_number_def R(2) lottery_random_entry)
  have ne: "Q2 Ready_queue \<noteq> []" using R(2) line by simp
  obtain us' c' vs' s4 where o: "Q2 Ready_queue = us' @ c' # vs'"
      "lottery_draw s2 = (if doomed (pcbs s2 c') then lottery_draw s4 else Some (Some c', s4))"
      "ticket_sum (pcbs s) us' \<le> winning_number s Q" "winning_number s Q < ticket_sum (pcbs s) us' + effective_tickets (pcbs s c')"
    by (rule lottery_draw_once [OF D(1,7) ne ticket_sum_fits [OF rep2], unfolded num ts tk])
  have "c = c'" using interval_unique [OF _ win o(3,4)] o(1) R(2) line by simp
  moreover have "doomed (pcbs s2 c) = doomed (pcbs s c)"
    using requeued_doomed [OF R(1), of c] by (simp add: schedule_entry_fields)
  ultimately have "np = Some c" using o(2) R(3) c by simp
  moreover have "schedule s = Some (dispatch np (Some 10) s3)"
    using R(4) alge by (simp add: schedule_eq schedule_pick_def sched_lottery_def)
  ultimately show ?thesis by (auto simp: dispatch_kernel dispatch_target_def dispatch_counter)
qed

text \<open>
  Lottery is proportional: of the numbers below the total, exactly as many make the walk over the
  ready queue stop at process c as c holds tickets (one if its ticket field is not positive).
\<close>

lemma lottery_is_proportional:
  assumes "sched_rep s Q" "c \<in> set (Q Ready_queue)"
  shows "card {w. 0 \<le> w \<and> w < ticket_sum (pcbs s) (Q Ready_queue) \<and>
      (\<exists>pr. lottery_walk (pcbs s) w 0 None (q_head (ready_queue s)) = Some (pr, Some c))}
    = nat (effective_tickets (pcbs s c))"
  using lottery_share [OF ready_chain [OF sched_repD(1) [OF assms(1)]] assms(2)] .

text \<open>
  The lottery generator never degenerates: its state is non-zero after every draw, whatever the
  timer register shows and even if the state was zero before (zero is the fixed point of xorshift64).
\<close>

lemma lottery_state_nonzero:
  "lottery_rng_state (snd (lottery_random s)) \<noteq> 0 \<and> fst (lottery_random s) \<noteq> 0 \<and> xorshift64 0 = 0"
  using lottery_random_nonzero by (simp add: xorshift64_def)

subsection \<open>Priority with aging\<close>

text \<open>
  C17. Priority aging: the process schedule() runs has a positive counter that is maximal among all
  ready processes; if it runs the idle process the ready queue is empty. (That the epoch loop, which
  recharges the counters until one is positive, ends is part of the statement: the result exists.)
\<close>

theorem priority_aging_runs_maximal:
  assumes "sched_rep s Q" "active_algorithm s = sched_priority_aging"
  shows "\<exists>s' Q'. schedule s = Some s' \<and> sched_rep s' Q' \<and>
    (if current_process s' = Init_process then Q' Ready_queue = []
     else 0 < counter (pcbs s' (current_process s')) \<and>
       (\<forall>p \<in> set (Q' Ready_queue). counter (pcbs s' p) \<le> counter (pcbs s' (current_process s'))))"
proof -
  let ?e = "schedule_entry s"
  have rep: "sched_rep ?e Q" by (rule schedule_entry_rep [OF assms(1)])
  have alg: "active_algorithm ?e = sched_priority_aging" using assms(2) by (simp add: schedule_entry_fields)
  obtain s2 Q2 np s3 Q3 where R: "requeued (preempt_disable ?e) Q s2 Q2" "selects s2 Q2 np s3 Q3" "aging_choice s3 Q3 np"
    "schedule_priority_aging ?e = Some (dispatch np None s3)"
    by (rule priority_aging_spec [OF rep alg])
  have rep': "sched_rep (dispatch np None s3) Q3"
    by (rule dispatch_rep [OF sched_rep_preempt(1) [OF rep] R(1,2)])
  have "np \<noteq> Some Init_process"
    using R(2) sched_repD(5) [OF requeued_rep [OF sched_rep_preempt(1) [OF rep] R(1)]] by (auto simp: selects_def)
  then have "if current_process (dispatch np None s3) = Init_process then Q3 Ready_queue = []
     else 0 < counter (pcbs (dispatch np None s3) (current_process (dispatch np None s3))) \<and>
       (\<forall>p \<in> set (Q3 Ready_queue). counter (pcbs (dispatch np None s3) p) \<le>
          counter (pcbs (dispatch np None s3) (current_process (dispatch np None s3))))"
    using R(3) by (cases np) (auto simp: aging_choice_def dispatch_kernel dispatch_target_def dispatch_counter)
  moreover have "schedule s = Some (dispatch np None s3)"
    using R(4) alg by (simp add: schedule_eq schedule_pick_def sched_priority_aging_def)
  ultimately show ?thesis using rep' by blast
qed

theorem priority_aging_witness:
  "\<exists>s' Q'. schedule (demo_kernel sched_priority_aging) = Some s' \<and> sched_rep s' Q' \<and>
    (if current_process s' = Init_process then Q' Ready_queue = []
     else 0 < counter (pcbs s' (current_process s')) \<and>
       (\<forall>p \<in> set (Q' Ready_queue). counter (pcbs s' p) \<le> counter (pcbs s' (current_process s'))))"
  by (rule priority_aging_runs_maximal [OF demo_rep]) simp_all

subsection \<open>Multilevel queues\<close>

lemma level_line_entry: "level_line (schedule_entry s) Q l = level_line s Q l"
  by (simp add: level_line_def level_of_def schedule_entry_fields)

text \<open>
  C18. Multilevel queues: the process schedule() runs comes from a level l such that all levels above l
  are empty afterwards, and its quantum is the one the policy gives level l; the idle process runs
  only when every level is empty.
\<close>

theorem multilevel_respects_levels:
  assumes "sched_rep s Q" "active_algorithm s = sched_mlq \<or> active_algorithm s = sched_mlfq"
  shows "\<exists>s' Q'. schedule s = Some s' \<and> sched_rep s' Q' \<and>
    (if current_process s' = Init_process then \<forall>r. Q' r = []
     else \<exists>l pol. ml_policy (active_algorithm s) = Some pol \<and> current_process s' \<in> set (level_line s Q l) \<and>
       (\<forall>q < l. Q' (Ml_queue q) = []) \<and> aget (quantum pol) l = Some (counter (pcbs s' (current_process s'))))"
proof -
  let ?e = "schedule_entry s"
  have rep: "sched_rep ?e Q" by (rule schedule_entry_rep [OF assms(1)])
  have alg: "active_algorithm ?e = sched_mlq \<or> active_algorithm ?e = sched_mlfq" using assms(2) by (simp add: schedule_entry_fields)
  have sc: "schedule s = schedule_multilevel ?e"
    using alg by (auto simp: schedule_eq schedule_pick_def sched_mlq_def sched_mlfq_def)
  from rep alg show ?thesis
  proof (cases rule: multilevel_spec)
    case (run s2 Q2 s3 Q3 p l ts pol)
    have rep': "sched_rep (dispatch (Some p) (Some ts) s3) Q3"
      by (rule dispatch_rep [OF sched_rep_preempt(1) [OF rep] run(1,2)])
    have "p \<noteq> Init_process"
      using run(2) sched_repD(5) [OF requeued_rep [OF sched_rep_preempt(1) [OF rep] run(1)]] by (auto simp: selects_def)
    then show ?thesis
      using sc run(3-7) rep' by (auto simp: schedule_entry_fields level_line_entry dispatch_kernel dispatch_target_def dispatch_counter)
  next
    case (idle s2 Q2 s3 Q3)
    have rep': "sched_rep (dispatch None None s3) Q3"
      by (rule dispatch_rep [OF sched_rep_preempt(1) [OF rep] idle(1,2)])
    have "\<forall>r. Q3 r = []" using idle(3) by (auto simp: queued_def) (metis list.set_intros(1) neq_Nil_conv)
    then show ?thesis using sc idle(4) rep' by (auto simp: dispatch_kernel dispatch_target_def)
  qed
qed

theorem multilevel_respects_levels_witness:
  "\<exists>s' Q'. schedule (demo_ml_kernel sched_mlq) = Some s' \<and> sched_rep s' Q' \<and>
    (if current_process s' = Init_process then \<forall>r. Q' r = []
     else \<exists>l pol. ml_policy sched_mlq = Some pol \<and> current_process s' \<in> set (level_line (demo_ml_kernel sched_mlq) demo_ml_queues l) \<and>
       (\<forall>q < l. Q' (Ml_queue q) = []) \<and> aget (quantum pol) l = Some (counter (pcbs s' (current_process s'))))"
  using multilevel_respects_levels [OF demo_ml_rep [of sched_mlq]] unfolding demo_ml_simps by blast

text \<open>
  The MLFQ boost: once the boost counter reaches the period of the policy, the next tick moves
  every process of every level into level 0 in the order of the levels, assigns level 0 to
  all processes and restarts the counter; no process is lost and no other PCB field changes.
\<close>

lemma boost_gathers_all_levels:
  assumes "sched_rep s Q" "active_algorithm s = sched_mlfq" "ml_ticks_since_boost s + 1 \<ge> 300"
  shows "\<exists>s'. ml_boost_tick ml_policy_mlfq s = Some s' \<and> sched_rep s' (boosted Q) \<and>
    boosted Q (Ml_queue 0) = concat (map (\<lambda>q. Q (Ml_queue q)) [0, 1, 2, 3, 4]) \<and>
    (\<forall>l \<in> {1, 2, 3, 4}. boosted Q (Ml_queue l) = []) \<and> (\<forall>p. queued (boosted Q) p = queued Q p) \<and>
    queue_level s' = replicate 64 0 \<and> ml_ticks_since_boost s' = 0 \<and> core (pcbs s') = core (pcbs s)"
proof -
  let ?t = "s\<lparr>ml_ticks_since_boost := ml_ticks_since_boost s + 1\<rparr>"
  have rep: "sched_rep ?t Q" using assms(1) by (rule sched_rep_kernel)
  have u: "[0..<5] = [0, 1, 2, 3, 4]" by (simp add: upt_rec)
  have pol: "ml_policy (active_algorithm ?t) = Some ml_policy_mlfq" "levels ml_policy_mlfq = [0, 1, 2, 3, 4]"
    using assms(2) by (simp_all add: sched_mlfq_def levels_def ml_policy_mlfq_def u)
  obtain s' where b: "ml_boost ml_policy_mlfq ?t = Some s'" "sched_rep s' (boosted Q)" "queue_level s' = replicate N_PROCESSES 0"
    "ml_ticks_since_boost s' = 0" "core (pcbs s') = core (pcbs ?t)"
    by (rule ml_boost_spec [OF rep pol])
  have "ml_boost_tick ml_policy_mlfq s = Some s'"
    using b(1) assms(3) by (simp add: ml_boost_tick_def Let_def ml_policy_mlfq_def)
  then show ?thesis using b queued_boosted by (auto simp: boosted_def)
qed



subsection \<open>Witnesses over any algorithm\<close>

lemma demo_switch:
  obtains s' where "schedule (demo_kernel sched_round_robin) = Some s'" "current_process s' = Pcb_at 1"
proof -
  have "rotation (demo_kernel sched_round_robin) demo_queues = [Pcb_at 1, Pcb_at 2, Pcb_at 3]"
    by (simp add: rotation_def demo_queues_def)
  then show thesis using rr_schedule [OF demo_rep [of sched_round_robin]] that by auto
qed

theorem schedule_context_switch_witness:
  "\<exists>s'. schedule (demo_kernel sched_round_robin) = Some s' \<and>
    cpu_context (pcbs s' (Pcb_at 3)) = cpu_regs (demo_kernel sched_round_robin) \<and>
    preempt_disabled (pcbs s' (Pcb_at 3)) = 1 \<and> preempt_disabled (pcbs s' (Pcb_at 1)) = 0"
proof -
  obtain s' where s': "schedule (demo_kernel sched_round_robin) = Some s'" "current_process s' = Pcb_at 1" by (rule demo_switch)
  show ?thesis
    using schedule_context_switch [OF demo_inv [of sched_round_robin] s'(1)] s' by simp
qed

theorem schedule_loses_nobody_witness:
  "\<exists>s'. schedule (demo_kernel sched_round_robin) = Some s' \<and> state (pcbs s' (Pcb_at 2)) \<in> {PROCESS_READY, PROCESS_RUNNING}"
proof -
  obtain s' where s': "schedule (demo_kernel sched_round_robin) = Some s'" by (rule demo_switch)
  show ?thesis
    using schedule_loses_nobody [OF demo_inv [of sched_round_robin] s', of "Pcb_at 2"] s' by (simp add: demo_live)
qed

lemma demo_draw: "winning_number (demo_kernel sched_lottery) demo_queues = 32"
proof -
  have "ticket_sum demo_heap (rotation (demo_kernel sched_lottery) demo_queues) = 60"
    by (simp add: rotation_def demo_queues_def effective_tickets_def)
  then show ?thesis
    by (simp add: winning_number_def lottery_random_def mmio_read_clo_def Let_def xorshift64_def)
qed

theorem lottery_runs_winner_witness:
  "\<exists>s'. schedule (demo_kernel sched_lottery) = Some s' \<and> current_process s' = Pcb_at 2 \<and> counter (pcbs s' (Pcb_at 2)) = 10"
  by (rule lottery_runs_winner [OF demo_rep, of sched_lottery "[Pcb_at 1]" "Pcb_at 2" "[Pcb_at 3]"])
    (simp_all add: rotation_def demo_queues_def demo_draw effective_tickets_def)

subsection \<open>Tick, exit, registration, parameters, boot\<close>



text \<open>
  C5. Exit: the exiting process becomes ZOMBIE and is not current any more, every process that waits for
  its pid becomes runnable (or takes a pending KILL or STOP), and every other process that is not
  READY keeps its state; the call does not return to the process, and the new state is well formed.
\<close>

theorem exit_wakes_the_waiting:
  assumes "sched_inv s" "current_process s \<noteq> Init_process" "state (pcbs s (current_process s)) = PROCESS_RUNNING"
  shows "\<exists>s'. exit_process s = Some s' \<and> sched_inv s' \<and>
    state (pcbs s' (current_process s)) = PROCESS_ZOMBIE \<and> current_process s' \<noteq> current_process s \<and>
    (\<forall>p. live s p \<and> p \<noteq> Init_process \<and> p \<noteq> current_process s \<and> state (pcbs s p) \<noteq> PROCESS_READY \<longrightarrow>
       (if state (pcbs s p) = PROCESS_WAITING_ANOTHER_PROCESS \<and> pid_to_wait (pcbs s p) = pid (pcbs s (current_process s))
        then state (pcbs s' p) \<in> {PROCESS_READY, PROCESS_RUNNING} \<or>
             doomed (pcbs s p) \<and> state (pcbs s' p) \<in> {PROCESS_ZOMBIE, PROCESS_STOPPED}
        else state (pcbs s' p) = state (pcbs s p)))"
proof -
  from assms(1) obtain Q where "sched_rep s Q" by (rule sched_invE)
  then obtain s' where s': "exit_process s = Some s'" "exit_contract s s'"
    using exit_process_contract assms(2,3) by blast
  show ?thesis
    by (rule exI [of _ s']) (use s' in \<open>auto simp: exit_contract_def waits_for_def\<close>)
qed

theorem exit_witness:
  "\<exists>s'. exit_process (demo_kernel sched_round_robin) = Some s' \<and> state (pcbs s' (Pcb_at 3)) = PROCESS_ZOMBIE \<and>
    state (pcbs s' (Pcb_at 4)) \<in> {PROCESS_READY, PROCESS_RUNNING}"
proof -
  have "\<not> doomed (demo_heap (Pcb_at 4))" by (simp add: doomed_def)
  moreover have "live (demo_kernel sched_round_robin) (Pcb_at 4)" by (simp add: demo_live)
  ultimately show ?thesis
    using exit_wakes_the_waiting [OF demo_inv [of sched_round_robin]] by fastforce
qed

text \<open>
  Registration: add_process_to_scheduler on a free slot with room in the table succeeds, keeps the
  state well formed, registers exactly one more process, sets its level to its hint clamped
  to 0..4, and queues it exactly when it is READY; with the table full it reports -1 and changes
  nothing.
\<close>

lemma registration_correct:
  assumes "sched_rep s Q" "registrable p s"
  shows "if n_processes s < 64
    then \<exists>s' Q'. add_process_to_scheduler p s = Some (0, s') \<and> sched_rep s' Q' \<and>
      n_processes s' = n_processes s + 1 \<and> live s' p \<and> (\<forall>a. live s a \<longrightarrow> live s' a) \<and>
      level_of s' p = clamp_level (queue_priority (pcbs s p)) \<and>
      (queued Q' p \<longleftrightarrow> state (pcbs s p) = PROCESS_READY)
    else add_process_to_scheduler p s = Some (-1, s)"
proof (cases "n_processes s < 64")
  case True
  then show ?thesis using add_process_spec [OF assms] unfolding if_P [OF True] by fastforce
next
  case False
  then show ?thesis by (simp add: add_process_to_scheduler_def Let_def)
qed

definition demo_arrival :: "SchedAlgorithm \<Rightarrow> kernel" where
  "demo_arrival alg = modify_pcb (Pcb_at 5) (\<lambda>x. demo_pcb 5 PROCESS_READY 1 1 10 None) (demo_kernel alg)"

text \<open>
  sched_set_param on a registered process accepts exactly priorities and tickets of at least 1 and
  levels 0..4; an accepted request sets the parameter (a level also in the level table), keeps the
  state well formed, the current process and all preemption counters; a refused one
  returns -1 and changes nothing. (Ticket values below 2^57 keep the ticket sum inside a long.)
\<close>

lemma set_param_correct:
  assumes "sched_rep s Q" "live s p" "p \<noteq> Init_process" "val < 2 ^ 57"
  shows "if accepts_param param val
    then \<exists>s'. sched_set_param (Some p) param val s = Some (0, s') \<and> sched_rep s' Q \<and>
      current_process s' = current_process s \<and>
      (param = SCHED_PARAM_PRIORITY \<longrightarrow> priority (pcbs s' p) = val) \<and>
      (param = SCHED_PARAM_TICKETS \<longrightarrow> tickets (pcbs s' p) = val) \<and>
      (param = SCHED_PARAM_QUEUE_PRIORITY \<longrightarrow> queue_priority (pcbs s' p) = val \<and> level_of s' p = val) \<and>
      (\<forall>a. preempt_disabled (pcbs s' a) = preempt_disabled (pcbs s a))
    else sched_set_param (Some p) param val s = Some (-1, s)"
  using set_param_spec [OF assms(1-3)] assms(4) by (cases "accepts_param param val") simp_all

text \<open>
  The kernel boots into a well-formed scheduler state under each of the seven algorithms: only the
  idle process is registered, and all ready queues are empty.
\<close>

lemma boot_is_well_formed:
  assumes "alg \<in> set sched_algorithms"
  shows "sched_rep (boot_kernel alg clo regs m) (\<lambda>_. []) \<and> sched_inv (boot_kernel alg clo regs m)"
  using boot_rep [OF assms] by (auto simp: sched_inv_def)


definition demo_stopped :: kernel where
  "demo_stopped = modify_pcb (Pcb_at 4) (\<lambda>x. x\<lparr>state := PROCESS_STOPPED, pending_signals := signal_bit SIGNAL_RESUME\<rparr>)
     (demo_kernel sched_fcfs)"


end
