(* ===== verification/Wakeup.thy ===== *)
theory Wakeup
  imports Scheduler_Registration
begin

section \<open>Waking the processes blocked on an event\<close>

text \<open>
  The loop that the UART interrupt (\<^verbatim>\<open>handle_uart_irq\<close>) and \<^verbatim>\<open>receive_message\<close> share: over a range of
  slots of the process table, every process in a given waiting state becomes READY and is handed to
  the router. The loop reads \<^verbatim>\<open>processes[i]->state\<close> without testing the slot: an empty one is a NULL
  dereference.
\<close>

primrec wake_blocked :: "process_state \<Rightarrow> int list \<Rightarrow> kernel \<Rightarrow> kernel option" where
  "wake_blocked w [] s = Some s"
| "wake_blocked w (i # is) s = do {
     slot \<leftarrow> aget (processes s) i;
     p \<leftarrow> slot;
     s1 \<leftarrow> (if state (pcbs s p) = w
            then enqueue_process (Some p) (modify_pcb p (\<lambda>x. x\<lparr>state := PROCESS_READY\<rparr>) s)
            else Some s);
     wake_blocked w is s1
   }"

definition slots_below :: "int \<Rightarrow> int list" where
  "slots_below n = map int [0..<nat n]"

text \<open>Processes are registered under consecutive pids, so the table is filled from the front.\<close>

definition packed :: "kernel \<Rightarrow> bool" where
  "packed s \<longleftrightarrow> 0 \<le> n_processes s \<and> n_processes s \<le> int N_PROCESSES \<and>
     (\<forall>i < N_PROCESSES. processes s ! i = None \<longleftrightarrow> n_processes s \<le> int i)"

lemma packed_slot:
  assumes "packed s" "table_ok s" "i \<in> set (slots_below (n_processes s))"
  shows "\<exists>p. aget (processes s) i = Some (Some p) \<and> live s p"
proof -
  obtain k where k: "k < nat (n_processes s)" "i = int k" using assms(3) by (auto simp: slots_below_def)
  then have n: "k < N_PROCESSES" "k < length (processes s)" using assms(1,2) by (auto simp: packed_def table_ok_def)
  then have "processes s ! k \<noteq> None" using assms(1) k by (auto simp: packed_def)
  then obtain p where "processes s ! k = Some p" by blast
  then show ?thesis using k n nth_mem [of k "processes s"] by (auto simp: live_def)
qed

lemma packed_live:
  assumes "packed s" "table_ok s"
  shows "{p. \<exists>i \<in> set (slots_below (n_processes s)). aget (processes s) i = Some (Some p)} = {p. live s p}" (is "?L = ?R")
proof
  show "?L \<subseteq> ?R" using packed_slot [OF assms] by fastforce
  show "?R \<subseteq> ?L"
  proof
    fix p assume "p \<in> ?R"
    then have l: "live s p" by simp
    note S = live_slot [OF assms(2) l]
    have "processes s ! nat (pid (pcbs s p)) \<noteq> None" "nat (pid (pcbs s p)) < N_PROCESSES" using S by auto
    then have "pid (pcbs s p) < n_processes s" using assms(1) S(1) by (auto simp: packed_def)
    then have "pid (pcbs s p) \<in> set (slots_below (n_processes s))" using S(1) by (auto simp: slots_below_def image_iff intro!: bexI [of _ "nat (pid (pcbs s p))"])
    moreover have "aget (processes s) (pid (pcbs s p)) = Some (Some p)"
      using S table_okD(1) [OF assms(2)] by (simp add: aget_def)
    ultimately show "p \<in> ?L" by blast
  qed
qed

text \<open>What waking changes: the state of the processes in \<open>P\<close> that wait for the event, nothing else.\<close>

definition woken :: "process_state \<Rightarrow> pcb_ptr set \<Rightarrow> kernel \<Rightarrow> kernel \<Rightarrow> bool" where
  "woken w P s s' \<longleftrightarrow> rest s' = rest s \<and>
     (\<forall>p. core (pcbs s') p = (if p \<in> P \<and> state (pcbs s p) = w then (core (pcbs s) p)\<lparr>state := PROCESS_READY\<rparr> else core (pcbs s) p))"

lemma wokenD:
  assumes "woken w P s s'"
  shows "rest s' = rest s" "processes s' = processes s" "current_process s' = current_process s"
    "state (pcbs s' p) = (if p \<in> P \<and> state (pcbs s p) = w then PROCESS_READY else state (pcbs s p))"
    "messages_buffer (pcbs s' p) = messages_buffer (pcbs s p)"
    "pid (pcbs s' p) = pid (pcbs s p)"
proof -
  note A = assms [unfolded woken_def, THEN conjunct2, rule_format, of p]
  show "rest s' = rest s" using assms by (simp add: woken_def)
  then show "processes s' = processes s" "current_process s' = current_process s" by (auto dest: rest_fields)
  show "state (pcbs s' p) = (if p \<in> P \<and> state (pcbs s p) = w then PROCESS_READY else state (pcbs s p))"
    using arg_cong [OF A, of state] by (auto simp: core_def)
  show "messages_buffer (pcbs s' p) = messages_buffer (pcbs s p)" "pid (pcbs s' p) = pid (pcbs s p)"
    using arg_cong [OF A, of messages_buffer] arg_cong [OF A, of pid] by (auto simp: core_def split: if_splits)
qed

lemma wake_one:
  assumes rep: "sched_rep s Q" and p: "live s p" "state (pcbs s p) \<noteq> PROCESS_READY"
  shows "\<exists>s' Q'. enqueue_process (Some p) (modify_pcb p (\<lambda>x. x\<lparr>state := PROCESS_READY\<rparr>) s) = Some s' \<and>
    sched_rep s' Q' \<and> woken (state (pcbs s p)) {p} s s'"
proof -
  let ?f = "\<lambda>x. x\<lparr>state := PROCESS_READY\<rparr>"
  have "almost_rep (modify_pcb p ?f s) Q p" using rep p by (intro wake_almost) simp_all
  then obtain s1 Q1 where e: "enqueue_process (Some p) (modify_pcb p ?f s) = Some s1" "sched_rep s1 Q1"
    "core (pcbs s1) = core (pcbs (modify_pcb p ?f s))" "rest s1 = rest (modify_pcb p ?f s)"
    using enqueue_ready by blast
  have "core (pcbs s1) a = (if a = p then ?f (core (pcbs s) a) else core (pcbs s) a)" for a
    using e(3) by (simp add: core_upd_core upd_pcb_apply)
  then have "woken (state (pcbs s p)) {p} s s1" using e(4) by (auto simp: woken_def)
  with e(1,2) show ?thesis by blast
qed

lemma woken_trans:
  assumes "woken w P s s1" "woken w P' s1 s2" "w \<noteq> PROCESS_READY"
  shows "woken w (P \<union> P') s s2"
proof -
  note A = assms(1) [unfolded woken_def] and B = assms(2) [unfolded woken_def]
  have "core (pcbs s2) p = (if p \<in> P \<union> P' \<and> state (pcbs s p) = w then (core (pcbs s) p)\<lparr>state := PROCESS_READY\<rparr> else core (pcbs s) p)" for p
    using conjunct2 [OF A, rule_format, of p] conjunct2 [OF B, rule_format, of p] wokenD(4) [OF assms(1), of p] assms(3)
    by (auto split: if_splits)
  then show ?thesis using A B by (simp add: woken_def)
qed

lemma woken_refl: "woken w {} s s"
  by (simp add: woken_def)

lemma wake_blocked_spec:
  assumes w: "w \<noteq> PROCESS_READY"
  shows "sched_rep s Q \<Longrightarrow> \<forall>i \<in> set is. \<exists>p. aget (processes s) i = Some (Some p) \<and> live s p \<Longrightarrow>
    \<exists>s' Q'. wake_blocked w is s = Some s' \<and> sched_rep s' Q' \<and>
      woken w {p. \<exists>i \<in> set is. aget (processes s) i = Some (Some p)} s s'"
proof (induction "is" arbitrary: s Q)
  case Nil
  then show ?case by (auto simp: woken_def)
next
  case (Cons i "is")
  from Cons.prems(2) obtain p where p: "aget (processes s) i = Some (Some p)" "live s p" by auto
  have "\<exists>s1 Q1. (if state (pcbs s p) = w
            then enqueue_process (Some p) (modify_pcb p (\<lambda>x. x\<lparr>state := PROCESS_READY\<rparr>) s)
            else Some s) = Some s1 \<and> sched_rep s1 Q1 \<and> woken w {p} s s1"
  proof (cases "state (pcbs s p) = w")
    case True
    then show ?thesis using wake_one [OF Cons.prems(1) p(2)] w by auto
  next
    case False
    then show ?thesis using Cons.prems(1) by (auto simp: woken_def)
  qed
  then obtain s1 Q1 where s1: "(if state (pcbs s p) = w
            then enqueue_process (Some p) (modify_pcb p (\<lambda>x. x\<lparr>state := PROCESS_READY\<rparr>) s)
            else Some s) = Some s1" "sched_rep s1 Q1" "woken w {p} s s1" by blast
  note pr = wokenD(2) [OF s1(3)]
  have "\<forall>i \<in> set is. \<exists>p. aget (processes s1) i = Some (Some p) \<and> live s1 p"
    using Cons.prems(2) pr by (simp add: live_def)
  then obtain s' Q' where IH: "wake_blocked w is s1 = Some s'" "sched_rep s' Q'"
    "woken w {p. \<exists>i \<in> set is. aget (processes s) i = Some (Some p)} s1 s'"
    using Cons.IH [OF s1(2)] unfolding pr by blast
  have "{p} \<union> {p. \<exists>i \<in> set is. aget (processes s) i = Some (Some p)} = {p. \<exists>i \<in> set (i # is). aget (processes s) i = Some (Some p)}"
    using p(1) by auto
  with woken_trans [OF s1(3) IH(3) w] have "woken w {p. \<exists>i \<in> set (i # is). aget (processes s) i = Some (Some p)} s s'" by simp
  moreover have "wake_blocked w (i # is) s = Some s'" using p(1) s1(1) IH(1) by (simp del: wake_blocked.simps add: wake_blocked.simps(2))
  ultimately show ?case using IH(2) by blast
qed

text \<open>A NULL slot in the scanned range is dereferenced, whatever was woken before.\<close>

lemma enqueue_process_processes: "enqueue_process p s = Some s' \<Longrightarrow> processes s' = processes s"
proof -
  have pq: "processes (put_queue r q s) = processes s" for r q and s :: kernel
    by (simp add: put_queue_def split: queue_ref.splits)
  have "enqueue_to r p s = Some s' \<Longrightarrow> processes s' = processes s" for r
    by (cases "get_queue r s") (auto simp: enqueue_to_def pq Let_def split: prod.splits)
  moreover have "enqueue_sorted r p s = Some s' \<Longrightarrow> processes s' = processes s" for r
    by (auto simp: enqueue_sorted_def bind_eq_Some pq)
  ultimately show "enqueue_process p s = Some s' \<Longrightarrow> processes s' = processes s"
    by (auto simp: enqueue_process_def call_enqueue_def enqueue_fifo_def enqueue_sjf_def enqueue_multilevel_def
        bind_eq_Some split: enqueue_callback.splits if_splits)
qed

lemma wake_blocked_null:
  assumes "i \<in> set is" "aget (processes s) i = Some None"
  shows "wake_blocked w is s = None"
  using assms
proof (induction "is" arbitrary: s)
  case (Cons j "is")
  show ?case
  proof (cases "\<exists>p. aget (processes s) j = Some (Some p)")
    case False
    then show ?thesis by (cases "aget (processes s) j") auto
  next
    case True
    then obtain p where p: "aget (processes s) j = Some (Some p)" by blast
    then have i: "i \<in> set is" using Cons.prems by auto
    let ?m = "if state (pcbs s p) = w
            then enqueue_process (Some p) (modify_pcb p (\<lambda>x. x\<lparr>state := PROCESS_READY\<rparr>) s)
            else Some s"
    have n: "Option.bind ?m (wake_blocked w is) = None"
    proof (cases ?m)
      case (Some s1)
      then have "processes s1 = processes s" by (auto split: if_splits dest: enqueue_process_processes)
      then show ?thesis using Cons.IH [OF i, of s1] Cons.prems(2) Some by simp
    qed simp
    have "wake_blocked w (j # is) s = Option.bind ?m (wake_blocked w is)"
      using p by (simp del: wake_blocked.simps add: wake_blocked.simps(2))
    then show ?thesis using n by simp
  qed
qed simp

subsection \<open>Blocking\<close>

text \<open>A running process that gives up the CPU in a waiting state stays there, and another one runs.\<close>

definition blocked_in :: "process_state \<Rightarrow> kernel \<Rightarrow> kernel \<Rightarrow> bool" where
  "blocked_in w s s' \<longleftrightarrow> sched_inv s' \<and> work_conserving s' \<and> processes s' = processes s \<and>
     state (pcbs s' (current_process s)) = w \<and> current_process s' \<noteq> current_process s \<and>
     state (pcbs s' (current_process s')) = PROCESS_RUNNING \<and>
     (\<forall>p. live s p \<and> p \<noteq> Init_process \<and> p \<noteq> current_process s \<and> state (pcbs s p) \<noteq> PROCESS_READY \<longrightarrow>
        state (pcbs s' p) = state (pcbs s p))"

lemma block_switch:
  assumes rep: "sched_rep s Q" and c: "current_process s \<noteq> Init_process" "state (pcbs s (current_process s)) = PROCESS_RUNNING"
    and f: "\<And>x. next_ready (f x) = next_ready x" "\<And>x. pid (f x) = pid x" "\<And>x. priority (f x) = priority x"
      "\<And>x. tickets (f x) = tickets x" "\<And>x. state (f x) = w" and w: "w \<noteq> PROCESS_READY" "w \<noteq> PROCESS_RUNNING"
  shows "\<exists>s'. schedule (modify_pcb (current_process s) f s) = Some s' \<and> blocked_in w s s' \<and>
    data_kept (modify_pcb (current_process s) f s) s'"
proof -
  let ?c = "current_process s" and ?s1 = "modify_pcb (current_process s) f s"
  have r1: "sched_rep ?s1 Q" by (rule sched_rep_block [OF rep c(2)]) (use f w in simp_all)
  obtain s' where s': "schedule ?s1 = Some s'" "switch_contract ?s1 s'" using schedule_correct [OF r1] by blast
  note S = switch_contractD [OF s'(2)]
  have lv: "live ?s1 p = live s p" for p by (simp add: live_def)
  have lc: "live ?s1 ?c" using sched_repD(4) [OF rep] lv by simp
  have z: "state (pcbs s' ?c) = w" using S(6) [OF lc c(1)] by (simp add: f(5) w)
  then have "current_process s' \<noteq> ?c" using S(5) w(2) by auto
  moreover have "state (pcbs s' p) = state (pcbs s p)"
    if "live s p" "p \<noteq> Init_process" "p \<noteq> ?c" "state (pcbs s p) \<noteq> PROCESS_READY" for p
  proof -
    have "state (pcbs s p) \<noteq> PROCESS_RUNNING" using that(1,3) sched_repD(6) [OF rep] by blast
    then show ?thesis using S(6) [of p] that lv by simp
  qed
  ultimately have "blocked_in w s s'" unfolding blocked_in_def using S(1,2,3,5) z by simp
  then show ?thesis using s'(1) S(8) by blast
qed

end
