(* ===== verification/Ring_Buffer.thy ===== *)
theory Ring_Buffer
  imports Kernel_Prelude
begin

section \<open>Ring buffers addressed by head and tail\<close>

text \<open>
  The pattern of \<^verbatim>\<open>push_message\<close>/\<^verbatim>\<open>pop_message\<close> (\<^verbatim>\<open>libs/ipc.c\<close>) and of the UART receive buffer
  (\<^verbatim>\<open>drivers/uart/uart.c\<close>, \<^verbatim>\<open>syscall_input\<close>): an array, the index of the next write, the index of the
  next read, and \<open>positions\<close> index values that both run through cyclically. The ring is full
  when advancing the head would meet the tail. The locale does not assume that there are as many cells as
  positions; where there are, every push is in bounds.
\<close>

definition ring_used :: "int \<Rightarrow> int \<Rightarrow> int \<Rightarrow> int" where
  "ring_used n head tail = (head - tail) mod n"

definition ring_contents :: "int \<Rightarrow> int \<Rightarrow> int \<Rightarrow> 'a list \<Rightarrow> 'a list" where
  "ring_contents n head tail cells = map (\<lambda>k. cells ! nat ((tail + int k) mod n)) [0..<nat (ring_used n head tail)]"

locale ring =
  fixes positions :: int
    and advance :: "int \<Rightarrow> int"
  assumes at_least_two: "2 \<le> positions"
    and advance_mod: "\<lbrakk>0 \<le> i; i < positions\<rbrakk> \<Longrightarrow> advance i = (i + 1) mod positions"
begin

lemma advance_range: "0 \<le> i \<Longrightarrow> i < positions \<Longrightarrow> 0 \<le> advance i \<and> advance i < positions"
  using at_least_two by (simp add: advance_mod)

lemma used_range: "0 \<le> ring_used positions h t \<and> ring_used positions h t < positions"
  using at_least_two by (simp add: ring_used_def)

lemma empty_iff:
  assumes "0 \<le> h" "h < positions" "0 \<le> t" "t < positions"
  shows "h = t \<longleftrightarrow> ring_contents positions h t cells = []"
proof -
  have "h = t \<longleftrightarrow> (h - t) mod positions = 0"
  proof
    assume "(h - t) mod positions = 0"
    then have "h mod positions = t mod positions" by (simp add: mod_eq_dvd_iff mod_0_imp_dvd)
    then show "h = t" using assms by simp
  qed simp
  also have "\<dots> \<longleftrightarrow> nat (ring_used positions h t) = 0"
    using used_range [of h t] unfolding ring_used_def by linarith
  finally show ?thesis by (simp add: ring_contents_def)
qed

lemma used_advance:
  assumes "0 \<le> h" "h < positions" "advance h \<noteq> t" "0 \<le> t" "t < positions"
  shows "ring_used positions (advance h) t = ring_used positions h t + 1"
proof -
  let ?u = "(h - t) mod positions"
  have a: "advance h = (h + 1) mod positions" using assms by (simp add: advance_mod)
  have u: "ring_used positions (advance h) t = (?u + 1) mod positions"
    by (simp add: ring_used_def a) (simp add: algebra_simps mod_simps)
  have "?u + 1 \<noteq> positions"
  proof
    assume "?u + 1 = positions"
    then have "(?u + 1) mod positions = 0" by simp
    then have "((h + 1) - t) mod positions = 0" by (simp add: algebra_simps mod_simps)
    then have "(h + 1) mod positions = t mod positions" by (simp add: mod_eq_dvd_iff mod_0_imp_dvd)
    then show False using a assms by simp
  qed
  then have "?u + 1 < positions" using used_range [of h t] by (simp add: ring_used_def)
  then show ?thesis using u used_range [of h t] by (simp add: ring_used_def)
qed

lemma position_inj:
  assumes "0 \<le> j" "j < positions" "0 \<le> k" "k < positions" "(t + j) mod positions = (t + k) mod positions"
  shows "j = k"
proof -
  have "((t + j) - (t + k)) mod positions = 0"
    using assms(5) by (simp add: mod_eq_dvd_iff)
  then have "j mod positions = k mod positions" by (simp add: mod_eq_dvd_iff mod_0_imp_dvd)
  then show ?thesis using assms by simp
qed

text \<open>A push that is in bounds appends.\<close>

lemma push_appends:
  assumes h: "0 \<le> h" "h < positions" "nat h < length cells" and t: "0 \<le> t" "t < positions" and "advance h \<noteq> t"
  shows "ring_contents positions (advance h) t (cells[nat h := x]) = ring_contents positions h t cells @ [x]"
proof -
  let ?u = "ring_used positions h t"
  note U = used_range [of h t]
  have last: "(t + ?u) mod positions = h"
    using h by (simp add: ring_used_def mod_add_right_eq)
  have other: "(cells[nat h := x]) ! nat ((t + int k) mod positions) = cells ! nat ((t + int k) mod positions)"
    if "k < nat ?u" for k
  proof -
    have "(t + int k) mod positions \<noteq> (t + ?u) mod positions"
    proof -
      have "int k < ?u" "int k < positions" using that U by linarith+
      then show ?thesis using position_inj [of "int k" ?u t] U by auto
    qed
    then have "nat ((t + int k) mod positions) \<noteq> nat h"
      using last h at_least_two by (auto simp: nat_eq_iff2)
    then show ?thesis by simp
  qed
  have "ring_used positions (advance h) t = ?u + 1" using assms by (intro used_advance) auto
  then have "nat (ring_used positions (advance h) t) = Suc (nat ?u)" using U by linarith
  then show ?thesis
    using other last h U by (simp add: ring_contents_def)
qed

text \<open>A pop takes the first element.\<close>

lemma pop_first:
  assumes h: "0 \<le> h" "h < positions" and t: "0 \<le> t" "t < positions" and "h \<noteq> t"
  shows "ring_contents positions h t cells = cells ! nat t # ring_contents positions h (advance t) cells"
proof -
  let ?u = "ring_used positions h t"
  have ne: "?u \<noteq> 0" using empty_iff [of h t cells] assms used_range [of h t] by (auto simp: ring_contents_def)
  have a: "advance t = (t + 1) mod positions" using t by (simp add: advance_mod)
  have "ring_used positions h (advance t) = (?u - 1) mod positions"
    by (simp add: ring_used_def a) (simp add: algebra_simps mod_simps)
  also have "\<dots> = ?u - 1" using ne used_range [of h t] by (intro mod_pos_pos_trivial) auto
  finally have u: "nat ?u = Suc (nat (ring_used positions h (advance t)))" using ne used_range [of h t] by linarith
  have shift: "(advance t + int k) mod positions = (t + int (Suc k)) mod positions" for k
    by (simp add: a) (simp add: algebra_simps mod_simps)
  show ?thesis
    unfolding ring_contents_def u upt_conv_Cons [OF zero_less_Suc] map_Suc_upt [symmetric]
    using t by (simp add: shift del: of_nat_Suc upt_Suc)
qed

lemma capacity: "int (length (ring_contents positions h t cells)) \<le> positions - 1"
  using used_range [of h t] by (simp add: ring_contents_def)

lemma full_iff:
  assumes "0 \<le> h" "h < positions" "0 \<le> t" "t < positions"
  shows "advance h = t \<longleftrightarrow> int (length (ring_contents positions h t cells)) = positions - 1"
proof
  assume f: "advance h = t"
  then have "(h + 1) mod positions = t" using assms by (simp add: advance_mod)
  then have "((h - t) + 1) mod positions = 0"
    using assms by (metis add_diff_eq add.commute diff_self mod_0 mod_diff_left_eq)
  then have z: "(ring_used positions h t + 1) mod positions = 0" by (simp add: ring_used_def mod_simps)
  have "ring_used positions h t + 1 = positions"
  proof (rule ccontr)
    assume "ring_used positions h t + 1 \<noteq> positions"
    then have "ring_used positions h t + 1 < positions" using used_range [of h t] by linarith
    then show False using z used_range [of h t] by simp
  qed
  then show "int (length (ring_contents positions h t cells)) = positions - 1"
    using used_range [of h t] by (simp add: ring_contents_def)
next
  assume l: "int (length (ring_contents positions h t cells)) = positions - 1"
  show "advance h = t"
  proof (rule ccontr)
    assume "advance h \<noteq> t"
    then have "ring_used positions (advance h) t = ring_used positions h t + 1" using assms by (intro used_advance) auto
    with l used_range [of h t] used_range [of "advance h" t] show False by (simp add: ring_contents_def)
  qed
qed

end

end
