(* ===== verification/C_String.thy ===== *)
theory C_String
  imports Kernel_Prelude
begin

section \<open>C strings\<close>

text \<open>
  \<^verbatim>\<open>common/string.c\<close>. A \<^verbatim>\<open>char*\<close> argument is the array it points into, from the pointed-to character
  on; a pointer that only walks forward over its source is the rest of that array, and a pointer that
  is written through is an index into its array. Reading or writing past an array is \<open>None\<close>.
  \<open>cstr\<close> is the abstraction: the text up to the first NUL, if there is one.
\<close>

abbreviation (input) NUL :: char where "NUL \<equiv> CHR 0x00"
abbreviation (input) CR :: char where "CR \<equiv> CHR 0x0D"
abbreviation (input) LF :: char where "LF \<equiv> CHR 0x0A"

primrec cstr :: "char list \<Rightarrow> string option" where
  "cstr [] = None"
| "cstr (c # cs) = (if c = NUL then Some [] else map_option ((#) c) (cstr cs))"

primrec strlen :: "char list \<Rightarrow> nat option" where
  "strlen [] = None"
| "strlen (c # cs) = (if c \<noteq> NUL then map_option Suc (strlen cs) else Some 0)"

text \<open>Both copying loops: \<open>i\<close> is the offset of \<^verbatim>\<open>dest\<close> (\<^verbatim>\<open>pointer\<close> in \<^verbatim>\<open>strcat\<close>).\<close>

primrec copy_string :: "char list \<Rightarrow> nat \<Rightarrow> char list \<Rightarrow> char list option" where
  "copy_string [] i dest = None"
| "copy_string (c # cs) i dest =
     (if c \<noteq> NUL
      then Option.bind (aset dest (int i) c) (copy_string cs (Suc i))
      else aset dest (int i) NUL)"

definition strcpy :: "char list \<Rightarrow> char list \<Rightarrow> char list option" where
  "strcpy dest src = copy_string src 0 dest"

definition strcat :: "char list \<Rightarrow> char list \<Rightarrow> char list option" where
  "strcat dest src = do {
     pointer \<leftarrow> strlen dest;
     copy_string src pointer dest
   }"

definition line_end :: "char \<Rightarrow> bool" where
  "line_end c \<longleftrightarrow> c = NUL \<or> c = CR \<or> c = LF"

primrec split_tail :: "char list \<Rightarrow> nat \<Rightarrow> char list \<Rightarrow> char list option" where
  "split_tail [] j dest2 = None"
| "split_tail (c # cs) j dest2 =
     (if \<not> line_end c then Option.bind (aset dest2 (int j) c) (split_tail cs (Suc j)) else Some dest2)"

text \<open>
  The outer loop stops with the inner one, which leaves \<^verbatim>\<open>pointer\<close> at the end of the line.
\<close>

primrec split_loop :: "char list \<Rightarrow> char \<Rightarrow> nat \<Rightarrow> char list \<Rightarrow> char list \<Rightarrow> (char list \<times> char list) option" where
  "split_loop [] delimiter i dest1 dest2 = None"
| "split_loop (c # cs) delimiter i dest1 dest2 =
     (if line_end c then Some (dest1, dest2)
      else if c = delimiter then do {
        d1 \<leftarrow> aset dest1 (int i) NUL;
        d2 \<leftarrow> split_tail cs 0 dest2;
        Some (d1, d2)
      }
      else Option.bind (aset dest1 (int i) c) (\<lambda>d1. split_loop cs delimiter (Suc i) d1 dest2))"

definition strsplit :: "char list \<Rightarrow> char \<Rightarrow> char list \<Rightarrow> char list \<Rightarrow> (char list \<times> char list) option" where
  "strsplit src delimiter dest1 dest2 = split_loop src delimiter 0 dest1 dest2"

fun compare_from :: "nat \<Rightarrow> char list \<Rightarrow> char list \<Rightarrow> int option" where
  "compare_from 0 src1 src2 = Some 0"
| "compare_from (Suc n) (a # as) (b # bs) = (if a \<noteq> b then Some 1 else compare_from n as bs)"
| "compare_from (Suc n) _ _ = None"

definition strcmp :: "char list \<Rightarrow> char list \<Rightarrow> int \<Rightarrow> int option" where
  "strcmp src1 src2 n = compare_from (nat n) src1 src2"

subsection \<open>Text up to the terminator\<close>

lemma cstr_eq: "cstr xs = (if NUL \<in> set xs then Some (takeWhile (\<lambda>c. c \<noteq> NUL) xs) else None)"
  by (induction xs) auto

lemma cstr_SomeD: "cstr xs = Some s \<Longrightarrow> NUL \<notin> set s \<and> (\<exists>rest. xs = s @ NUL # rest)"
proof (induction xs arbitrary: s)
  case (Cons c cs)
  then show ?case by (auto split: if_splits)
qed simp

lemma cstr_append [simp]: "NUL \<notin> set s \<Longrightarrow> cstr (s @ NUL # rest) = Some s"
  by (induction s) auto

lemma strlen_cstr: "strlen xs = map_option length (cstr xs)"
  by (induction xs) (auto simp: option.map_comp comp_def)

text \<open>Copying writes the text and its terminator at the offset, and is defined exactly if they fit.\<close>

lemma copy_string_text:
  assumes "NUL \<notin> set s"
  shows "copy_string (s @ NUL # rest) i dest =
    (if i + length s < length dest then Some (take i dest @ s @ NUL # drop (Suc (i + length s)) dest) else None)"
  using assms
proof (induction s arbitrary: i dest)
  case Nil
  then show ?case by (simp add: upd_conv_take_nth_drop)
next
  case (Cons c s)
  then show ?case
    by (auto simp: take_Suc_conv_app_nth upd_conv_take_nth_drop ac_simps)
qed

lemma copy_string_cstr:
  "cstr src = Some s \<Longrightarrow> copy_string src i dest =
    (if i + length s < length dest then Some (take i dest @ s @ NUL # drop (Suc (i + length s)) dest) else None)"
  by (auto dest!: cstr_SomeD simp: copy_string_text)

lemma copy_string_unterminated: "cstr src = None \<Longrightarrow> copy_string src i dest = None"
  by (induction src arbitrary: i dest) (auto simp: bind_eq_None_conv split: if_splits)

lemma strcpy_cstr:
  "cstr src = Some s \<Longrightarrow> strcpy dest src =
    (if length s < length dest then Some (s @ NUL # drop (Suc (length s)) dest) else None)"
  by (simp add: strcpy_def copy_string_cstr)

lemma strcpy_unterminated: "cstr src = None \<Longrightarrow> strcpy dest src = None"
  by (simp add: strcpy_def copy_string_unterminated)

lemma strcpy_Some:
  "strcpy dest src = Some d \<longleftrightarrow>
     (\<exists>s. cstr src = Some s \<and> length s < length dest \<and> d = s @ NUL # drop (Suc (length s)) dest)"
  by (cases "cstr src") (auto simp: strcpy_cstr strcpy_unterminated)

lemma strcpy_keeps_length: "strcpy dest src = Some d \<Longrightarrow> length d = length dest \<and> cstr d = cstr src"
  by (auto simp: strcpy_Some dest: cstr_SomeD)

subsection \<open>Splitting a line\<close>

lemma split_tail_text:
  assumes "\<forall>c \<in> set r. \<not> line_end c" "line_end t"
  shows "split_tail (r @ t # rest) j dest2 =
    (if j + length r \<le> length dest2 \<or> r = [] then Some (take j dest2 @ r @ drop (j + length r) dest2) else None)"
  using assms
proof (induction r arbitrary: j dest2)
  case (Cons c r)
  then show ?case
    by (auto simp: take_Suc_conv_app_nth upd_conv_take_nth_drop ac_simps)
qed simp

lemma split_loop_text:
  assumes "\<forall>c \<in> set w. \<not> line_end c \<and> c \<noteq> delimiter"
  shows "split_loop (w @ more) delimiter i dest1 dest2 =
    (if i + length w \<le> length dest1 \<or> w = []
     then split_loop more delimiter (i + length w) (take i dest1 @ w @ drop (i + length w) dest1) dest2
     else None)"
  using assms
proof (induction w arbitrary: i dest1)
  case (Cons c w)
  then show ?case
    by (auto simp: take_Suc_conv_app_nth upd_conv_take_nth_drop ac_simps)
qed simp

subsection \<open>Properties\<close>

text \<open>
  strcpy copies exactly when the text with its terminator fits: the destination then holds the
  source's text, and its bytes behind the terminator are untouched. A text that is as long as the destination,
  or a source without a terminator, runs out of bounds.
\<close>

lemma strcpy_exact:
  "strcpy dest src = (case cstr src of None \<Rightarrow> None
     | Some s \<Rightarrow> if length s < length dest then Some (s @ NUL # drop (Suc (length s)) dest) else None)"
  by (cases "cstr src") (simp_all add: strcpy_cstr strcpy_unterminated)

text \<open>With room for both texts and one terminator, \<^verbatim>\<open>strcat\<close> leaves the concatenation.\<close>

lemma strcat_cstr:
  assumes "cstr dest = Some a" "cstr src = Some b" "length a + length b < length dest"
  shows "strcat dest src = Some (a @ b @ NUL # drop (Suc (length a + length b)) dest)"
proof -
  have "take (length a) dest = a" using assms(1) by (auto dest!: cstr_SomeD)
  then show ?thesis using assms by (simp add: strcat_def strlen_cstr copy_string_cstr)
qed

lemma strcat_appends:
  assumes "cstr dest = Some a" "cstr src = Some b" "length a + length b < length dest"
  shows "\<exists>d. strcat dest src = Some d \<and> cstr d = Some (a @ b) \<and> strlen d = Some (length a + length b) \<and> length d = length dest"
proof -
  have n: "NUL \<notin> set (a @ b)" using assms by (auto dest!: cstr_SomeD)
  let ?d = "a @ b @ NUL # drop (Suc (length a + length b)) dest"
  have "cstr ?d = Some (a @ b)" using cstr_append [OF n] by simp
  then show ?thesis using strcat_cstr [OF assms] assms(3) by (simp add: strlen_cstr)
qed

text \<open>
  strsplit cuts a line at its first delimiter. On a line w, delimiter, r (ended by NUL, CR or LF) that fits,
  the first destination holds the text w, terminated; the second one starts with r, but is not terminated:
  its remaining bytes stay as they were. A line without the delimiter leaves both without a terminator.
\<close>

lemma strsplit_cuts:
  assumes "\<forall>c \<in> set w. \<not> line_end c \<and> c \<noteq> delimiter" "\<forall>c \<in> set r. \<not> line_end c" "line_end t" "\<not> line_end delimiter"
    and "length w < length dest1" "length r \<le> length dest2"
  shows "(\<exists>d1. strsplit (w @ delimiter # r @ t # more) delimiter dest1 dest2 = Some (d1, r @ drop (length r) dest2) \<and> cstr d1 = Some w) \<and>
    strsplit (w @ t # more) delimiter dest1 dest2 = Some (w @ drop (length w) dest1, dest2)"
proof
  have n: "NUL \<notin> set w" using assms(1) by (auto simp: line_end_def)
  have "(w @ drop (length w) dest1)[length w := NUL] = w @ NUL # drop (Suc (length w)) dest1"
    using assms(5) by (simp add: list_update_append Cons_nth_drop_Suc [symmetric])
  then show "\<exists>d1. strsplit (w @ delimiter # r @ t # more) delimiter dest1 dest2 = Some (d1, r @ drop (length r) dest2) \<and> cstr d1 = Some w"
    using assms n by (simp add: strsplit_def split_loop_text split_tail_text)
  show "strsplit (w @ t # more) delimiter dest1 dest2 = Some (w @ drop (length w) dest1, dest2)"
    using assms by (simp add: strsplit_def split_loop_text)
qed

lemma strcmp_zero_iff:
  "int (length xs) \<ge> n \<Longrightarrow> int (length ys) \<ge> n \<Longrightarrow> strcmp xs ys n = Some (if take (nat n) xs = take (nat n) ys then 0 else 1)"
proof -
  have "length xs \<ge> k \<Longrightarrow> length ys \<ge> k \<Longrightarrow> compare_from k xs ys = Some (if take k xs = take k ys then 0 else 1)" for k
    by (induction k xs ys rule: compare_from.induct) auto
  then show "int (length xs) \<ge> n \<Longrightarrow> int (length ys) \<ge> n \<Longrightarrow> ?thesis" by (simp add: strcmp_def nat_le_iff)
qed

end
