(* ===== verification/Uart.thy ===== *)
theory Uart
  imports Wakeup Ring_Buffer C_String Scheduler_Properties
begin

section \<open>The UART driver\<close>

text \<open>
  \<^verbatim>\<open>drivers/uart/uart.c\<close>. The hardware is the record \<open>uart_device\<close>: the masked interrupt
  status, the interrupt mask, the values written to the interrupt clear register, and what the
  receive FIFO delivers: \<open>rx_fifo\<close> are the words read from \<^verbatim>\<open>UART0_DR\<close> until \<^verbatim>\<open>UART0_FR\<close> reports
  it empty in the loop for the receive interrupt, \<open>timeout_fifo\<close> those of the loop for the receive
  timeout. The kernel's \<open>uart_out\<close> is the sequence of values written to \<^verbatim>\<open>UART0_DR\<close>; the busy-wait
  before a write ends because the transmitter drains its FIFO.
\<close>

record uart_device =
  UART0_MIS :: "32 word"
  UART0_IMSC :: "32 word"
  UART0_ICR :: "32 word list"
  rx_fifo :: "32 word list"
  timeout_fifo :: "32 word list"

subsection \<open>Output\<close>

definition uart_putc :: "char \<Rightarrow> kernel \<Rightarrow> kernel" where
  "uart_putc c s = s\<lparr>uart_out := uart_out s @ [c]\<rparr>"

primrec uart_puts :: "char list \<Rightarrow> kernel \<Rightarrow> kernel option" where
  "uart_puts [] s = None"
| "uart_puts (c # cs) s = (if c \<noteq> NUL then uart_puts cs (uart_putc c s) else Some s)"

definition hex_digit :: "64 word \<Rightarrow> nat \<Rightarrow> char" where
  "hex_digit num i = ''0123456789ABCDEF'' ! unat (drop_bit i num AND 0xF)"

definition uart_hex :: "64 word \<Rightarrow> kernel \<Rightarrow> kernel option" where
  "uart_hex num s = do {
     s1 \<leftarrow> uart_puts (''0x'' @ [NUL]) s;
     Some (fold (\<lambda>i. uart_putc (hex_digit num i)) (rev (map ((*) 4) [0..<16])) s1)
   }"

subsection \<open>The interrupt handler\<close>

abbreviation (input) "UART_BUFFER_SIZE \<equiv> (64::nat)"

definition advance_uart :: "int \<Rightarrow> int" where
  "advance_uart i = (i + 1) smod int UART_BUFFER_SIZE"

definition rx_error :: "32 word \<Rightarrow> 32 word" where
  "rx_error dr = drop_bit 8 dr AND 0xF"

definition rx_char :: "32 word \<Rightarrow> char" where
  "rx_char dr = char_of (unat (dr AND 0xFF))"

definition buffer_char :: "char \<Rightarrow> kernel \<Rightarrow> kernel option" where
  "buffer_char c s =
     (let next_head = advance_uart (uart_head s) in
      if next_head \<noteq> uart_tail s then do {
        b \<leftarrow> aset (uart_buffer s) (uart_head s) c;
        Some (s\<lparr>uart_buffer := b, uart_head := next_head\<rparr>)
      } else Some s)"

definition receive_word :: "32 word \<Rightarrow> kernel \<Rightarrow> kernel option" where
  "receive_word dr s =
     (if rx_error dr \<noteq> 0 then do {
        s1 \<leftarrow> uart_puts (''UART RX error '' @ [NUL]) s;
        s2 \<leftarrow> uart_hex (ucast (rx_error dr)) s1;
        uart_puts [CR, LF, NUL] s2
      } else do {
        s1 \<leftarrow> buffer_char (rx_char dr) s;
        wake_blocked PROCESS_WAITING_UART_INPUT (slots_below (n_processes s1)) s1
      })"

primrec receive_words :: "32 word list \<Rightarrow> kernel \<Rightarrow> kernel option" where
  "receive_words [] s = Some s"
| "receive_words (dr # drs) s = Option.bind (receive_word dr s) (receive_words drs)"

primrec echo_words :: "32 word list \<Rightarrow> kernel \<Rightarrow> kernel option" where
  "echo_words [] s = Some s"
| "echo_words (dr # drs) s = Option.bind (uart_puts [LF, NUL] (uart_putc (rx_char dr) s)) (echo_words drs)"

definition handle_uart_irq :: "uart_device \<Rightarrow> kernel \<Rightarrow> (kernel \<times> uart_device) option" where
  "handle_uart_irq d s = do {
     let mis = UART0_MIS d;
     (s1, d1) \<leftarrow> (if mis AND push_bit 4 1 \<noteq> 0
        then do {
          s1 \<leftarrow> receive_words (rx_fifo d) s;
          Some (s1, d\<lparr>rx_fifo := [], UART0_ICR := UART0_ICR d @ [push_bit 4 1]\<rparr>)
        } else Some (s, d));
     let d2 = (if mis AND push_bit 5 1 \<noteq> 0
        then d1\<lparr>UART0_IMSC := UART0_IMSC d1 AND NOT (push_bit 5 1), UART0_ICR := UART0_ICR d1 @ [push_bit 5 1]\<rparr>
        else d1);
     if mis AND push_bit 6 1 \<noteq> 0
     then do {
       s2 \<leftarrow> uart_puts ('': timeout'' @ [CR, LF, NUL]) s1;
       s3 \<leftarrow> echo_words (timeout_fifo d2) s2;
       Some (s3, d2\<lparr>timeout_fifo := [], UART0_ICR := UART0_ICR d2 @ [push_bit 6 1]\<rparr>)
     } else Some (s1, d2)
   }"

subsection \<open>The receive buffer is a ring\<close>

interpretation uart_ring: ring "int UART_BUFFER_SIZE" advance_uart
  by unfold_locales (simp_all add: advance_uart_def signed_modulo_int_def sgn_if)

definition uart_ok :: "kernel \<Rightarrow> bool" where
  "uart_ok s \<longleftrightarrow> length (uart_buffer s) = UART_BUFFER_SIZE \<and>
     0 \<le> uart_head s \<and> uart_head s < int UART_BUFFER_SIZE \<and> 0 \<le> uart_tail s \<and> uart_tail s < int UART_BUFFER_SIZE"

definition uart_input :: "kernel \<Rightarrow> char list" where
  "uart_input s = ring_contents (int UART_BUFFER_SIZE) (uart_head s) (uart_tail s) (uart_buffer s)"

lemma uart_cong:
  assumes "uart_buffer s' = uart_buffer s" "uart_head s' = uart_head s" "uart_tail s' = uart_tail s"
  shows "uart_ok s' = uart_ok s" "uart_input s' = uart_input s"
  using assms by (simp_all add: uart_ok_def uart_input_def)

lemma uart_input_length: "length (uart_input s) \<le> 63"
  using uart_ring.capacity [of "uart_head s" "uart_tail s" "uart_buffer s"] by (simp add: uart_input_def)

lemma buffer_char_spec:
  assumes "uart_ok s"
  shows "\<exists>s'. buffer_char c s = Some s' \<and> uart_ok s' \<and> uart_input s' = take 63 (uart_input s @ [c]) \<and>
    (\<exists>b h. s' = s\<lparr>uart_buffer := b, uart_head := h\<rparr>)"
proof (cases "advance_uart (uart_head s) = uart_tail s")
  case True
  have "int (length (uart_input s)) = 63"
    using uart_ring.full_iff [of "uart_head s" "uart_tail s" "uart_buffer s"] True assms by (simp add: uart_ok_def uart_input_def)
  moreover have "s = s\<lparr>uart_buffer := uart_buffer s, uart_head := uart_head s\<rparr>" by simp
  moreover have "buffer_char c s = Some s" using True by (simp add: buffer_char_def)
  ultimately show ?thesis using assms by (intro exI [of _ s] conjI) (simp, simp, simp, blast)
next
  case False
  let ?s' = "s\<lparr>uart_buffer := (uart_buffer s)[nat (uart_head s) := c], uart_head := advance_uart (uart_head s)\<rparr>"
  have len: "length (uart_input s) < 63"
    using uart_ring.full_iff [of "uart_head s" "uart_tail s" "uart_buffer s"] False assms uart_input_length [of s]
    by (simp add: uart_ok_def uart_input_def)
  have "uart_input ?s' = uart_input s @ [c]"
    using uart_ring.push_appends [of "uart_head s" "uart_buffer s" "uart_tail s" c] False assms
    by (simp add: uart_ok_def uart_input_def nat_less_iff)
  moreover have "uart_ok ?s'" using assms uart_ring.advance_range [of "uart_head s"] by (simp add: uart_ok_def)
  moreover have "buffer_char c s = Some ?s'" using False assms by (simp add: buffer_char_def uart_ok_def aset_def nat_less_iff)
  ultimately show ?thesis using len by (intro exI [of _ ?s'] conjI) (simp, simp, simp, blast)
qed

lemma buffer_pop:
  assumes "uart_ok s" "uart_tail s \<noteq> uart_head s"
  shows "aget (uart_buffer s) (uart_tail s) = Some (hd (uart_input s))"
    and "uart_input (s\<lparr>uart_tail := advance_uart (uart_tail s)\<rparr>) = tl (uart_input s)"
    and "uart_ok (s\<lparr>uart_tail := advance_uart (uart_tail s)\<rparr>)" "uart_input s \<noteq> []"
  using assms uart_ring.pop_first [of "uart_head s" "uart_tail s" "uart_buffer s"] uart_ring.advance_range [of "uart_tail s"]
  by (simp_all add: uart_ok_def uart_input_def aget_def nat_less_iff)

lemma uart_input_empty: "uart_ok s \<Longrightarrow> uart_head s = uart_tail s \<longleftrightarrow> uart_input s = []"
  using uart_ring.empty_iff [of "uart_head s" "uart_tail s" "uart_buffer s"] by (simp add: uart_ok_def uart_input_def)

subsection \<open>What the interrupt does to the kernel\<close>

text \<open>The driver's own variables are not the scheduler's business.\<close>

definition uart_erase :: "kernel \<Rightarrow> kernel" where
  "uart_erase s = s\<lparr>uart_buffer := [], uart_head := 0, uart_tail := 0, uart_out := [], uart_owner := None\<rparr>"

definition uart_frame :: "kernel \<Rightarrow> kernel \<Rightarrow> bool" where
  "uart_frame s s' \<longleftrightarrow> uart_erase s' = uart_erase s"

lemma uart_frame_fields [simp]:
  "uart_erase (s\<lparr>uart_buffer := b\<rparr>) = uart_erase s" "uart_erase (s\<lparr>uart_head := h\<rparr>) = uart_erase s"
  "uart_erase (s\<lparr>uart_tail := h\<rparr>) = uart_erase s" "uart_erase (s\<lparr>uart_out := out\<rparr>) = uart_erase s"
  "uart_erase (s\<lparr>uart_owner := p\<rparr>) = uart_erase s"
  by (simp_all add: uart_erase_def)

lemma uart_frameD:
  assumes "uart_frame s s'"
  shows "pcbs s' = pcbs s" "processes s' = processes s" "n_processes s' = n_processes s" "current_process s' = current_process s"
    "sched_rep s Q \<Longrightarrow> sched_rep s' Q" "packed s \<Longrightarrow> packed s'" "phys s' = phys s"
proof -
  note E = assms [unfolded uart_frame_def]
  have F: "pcbs s' = pcbs s" "processes s' = processes s" "n_processes s' = n_processes s" "current_process s' = current_process s"
    "phys s' = phys s" "ready_queue s' = ready_queue s" "ml_queues s' = ml_queues s" "active_algorithm s' = active_algorithm s"
    "queue_level s' = queue_level s"
    using arg_cong [OF E, of pcbs] arg_cong [OF E, of processes] arg_cong [OF E, of n_processes]
      arg_cong [OF E, of current_process] arg_cong [OF E, of phys] arg_cong [OF E, of ready_queue]
      arg_cong [OF E, of ml_queues] arg_cong [OF E, of active_algorithm] arg_cong [OF E, of queue_level]
    by (simp_all add: uart_erase_def)
  then show "pcbs s' = pcbs s" "processes s' = processes s" "n_processes s' = n_processes s" "current_process s' = current_process s"
    "phys s' = phys s" "packed s \<Longrightarrow> packed s'"
    by (auto simp: packed_def)
  assume rep: "sched_rep s Q"
  show "sched_rep s' Q"
    by (rule sched_rep_cong [OF rep]) (use table_okD(3,5) [OF sched_repD(2) [OF rep]] in \<open>simp_all add: F\<close>)
qed

lemma uart_frame_trans [trans]: "uart_frame a b \<Longrightarrow> uart_frame b c \<Longrightarrow> uart_frame a c"
  by (simp add: uart_frame_def)

lemma uart_puts_text: "NUL \<notin> set str \<Longrightarrow> uart_puts (str @ NUL # tail) s = Some (s\<lparr>uart_out := uart_out s @ str\<rparr>)"
  by (induction str arbitrary: s) (auto simp: uart_putc_def)

lemma uart_putc_fold: "fold (\<lambda>i. uart_putc (f i)) is s = s\<lparr>uart_out := uart_out s @ map f is\<rparr>"
  by (induction "is" arbitrary: s) (simp_all add: uart_putc_def)

lemma uart_hex_text: "uart_hex num s = Some (s\<lparr>uart_out := uart_out s @ ''0x'' @ map (hex_digit num) (rev (map ((*) 4) [0..<16]))\<rparr>)"
proof -
  have "uart_puts (''0x'' @ [NUL]) s = Some (s\<lparr>uart_out := uart_out s @ ''0x''\<rparr>)" by (rule uart_puts_text) simp
  then show ?thesis by (simp add: uart_hex_def uart_putc_fold)
qed

lemma receive_word_error:
  assumes "rx_error dr \<noteq> 0"
  shows "\<exists>out. receive_word dr s = Some (s\<lparr>uart_out := out\<rparr>)"
proof -
  have e: "uart_puts (''UART RX error '' @ [NUL]) s = Some (s\<lparr>uart_out := uart_out s @ ''UART RX error ''\<rparr>)" for s
    by (rule uart_puts_text) simp
  from assms show ?thesis unfolding receive_word_def e uart_hex_text by (simp add: uart_putc_def) blast
qed

definition rx_good :: "32 word list \<Rightarrow> char list" where
  "rx_good drs = map rx_char (filter (\<lambda>dr. rx_error dr = 0) drs)"

text \<open>Received: the buffer has taken \<open>cs\<close>, and if there is a character the readers are awake.\<close>

definition received :: "char list \<Rightarrow> kernel \<Rightarrow> kernel \<Rightarrow> bool" where
  "received cs s s' \<longleftrightarrow> sched_inv s' \<and> packed s' \<and> uart_ok s' \<and> uart_input s' = take 63 (uart_input s @ cs) \<and>
     processes s' = processes s \<and> current_process s' = current_process s \<and>
     (\<forall>p. live s p \<longrightarrow> state (pcbs s' p) =
        (if cs \<noteq> [] \<and> state (pcbs s p) = PROCESS_WAITING_UART_INPUT then PROCESS_READY else state (pcbs s p)))"

lemma received_refl:
  "sched_inv s \<Longrightarrow> packed s \<Longrightarrow> uart_ok s \<Longrightarrow> received [] s s"
  using uart_input_length [of s] by (simp add: received_def)

lemma received_frame:
  assumes "received cs s s'" "uart_frame s' s''" "uart_ok s'' = uart_ok s'" "uart_input s'' = uart_input s'"
  shows "received cs s s''"
  using assms uart_frameD [OF assms(2)] by (auto simp: received_def sched_inv_def)

lemma receive_word_spec:
  assumes "sched_rep s Q" "packed s" "uart_ok s"
  shows "\<exists>s'. receive_word dr s = Some s' \<and> received (rx_good [dr]) s s'"
proof (cases "rx_error dr = 0")
  case False
  then obtain out where e: "receive_word dr s = Some (s\<lparr>uart_out := out\<rparr>)" using receive_word_error by blast
  have fr: "uart_frame s (s\<lparr>uart_out := out\<rparr>)" by (simp add: uart_frame_def)
  show ?thesis
    using received_frame [OF received_refl fr] assms e False uart_cong [of s "s\<lparr>uart_out := out\<rparr>"]
    by (auto simp: rx_good_def sched_inv_def)
next
  case True
  obtain s1 b h where b: "buffer_char (rx_char dr) s = Some s1" "uart_ok s1" "uart_input s1 = take 63 (uart_input s @ [rx_char dr])"
    "s1 = s\<lparr>uart_buffer := b, uart_head := h\<rparr>"
    using buffer_char_spec [OF assms(3)] by blast
  have fr: "uart_frame s s1" unfolding b(4) by (simp add: uart_frame_def)
  note F = uart_frameD [OF fr]
  note R = F(5) [OF assms(1)] and P = F(6) [OF assms(2)]
  note T = sched_repD(2) [OF R]
  have ne: "PROCESS_WAITING_UART_INPUT \<noteq> PROCESS_READY" by simp
  have sl: "\<forall>i \<in> set (slots_below (n_processes s1)). \<exists>p. aget (processes s1) i = Some (Some p) \<and> live s1 p"
    using packed_slot [OF P T] by blast
  from wake_blocked_spec [OF ne R sl, unfolded packed_live [OF P T]]
  obtain s' Q' where w: "wake_blocked PROCESS_WAITING_UART_INPUT (slots_below (n_processes s1)) s1 = Some s'" "sched_rep s' Q'"
    "woken PROCESS_WAITING_UART_INPUT {p. live s1 p} s1 s'" by blast
  note W = wokenD [OF w(3)]
  have "packed s'" using P rest_fields(2,3) [OF W(1)] by (simp add: packed_def)
  moreover have "uart_ok s'" "uart_input s' = uart_input s1"
    using uart_cong [OF rest_fields(16,17,18) [OF W(1)]] b(2) by simp_all
  moreover have "state (pcbs s' p) = (if state (pcbs s p) = PROCESS_WAITING_UART_INPUT then PROCESS_READY else state (pcbs s p))"
    if "live s p" for p
    using W(4) [of p] that F(1,2) by (simp add: live_def)
  moreover have "receive_word dr s = Some s'" using True b(1) w(1) by (simp add: receive_word_def)
  moreover have "rx_good [dr] = [rx_char dr]" using True by (simp add: rx_good_def)
  ultimately show ?thesis using w(2) W(2,3) F b(3) by (auto simp: received_def sched_inv_def)
qed

lemma received_trans:
  assumes "received cs s s1" "received cs' s1 s2"
  shows "received (cs @ cs') s s2"
proof -
  note A = assms(1) [unfolded received_def] and B = assms(2) [unfolded received_def]
  have lv: "live s1 p = live s p" for p using A by (simp add: live_def)
  have "take 63 (take 63 (uart_input s @ cs) @ cs') = take 63 (uart_input s @ cs @ cs')"
    by (cases "length (uart_input s @ cs) \<ge> 63") (auto simp: min_def)
  then show ?thesis using A B lv by (auto simp: received_def)
qed

lemma receive_words_spec:
  "sched_inv s \<Longrightarrow> packed s \<Longrightarrow> uart_ok s \<Longrightarrow> \<exists>s'. receive_words drs s = Some s' \<and> received (rx_good drs) s s'"
proof (induction drs arbitrary: s)
  case Nil
  then show ?case using received_refl by (simp add: rx_good_def)
next
  case (Cons dr drs)
  then obtain Q where "sched_rep s Q" by (auto simp: sched_inv_def)
  then obtain s1 where s1: "receive_word dr s = Some s1" "received (rx_good [dr]) s s1"
    using receive_word_spec Cons.prems by blast
  then obtain s2 where s2: "receive_words drs s1 = Some s2" "received (rx_good drs) s1 s2"
    using Cons.IH [of s1] by (auto simp: received_def)
  have "rx_good (dr # drs) = rx_good [dr] @ rx_good drs" by (simp add: rx_good_def)
  then show ?case using s1(1) s2(1) received_trans [OF s1(2) s2(2)] by simp
qed

lemma echo_words_frame: "\<exists>s'. echo_words drs s = Some s' \<and> uart_frame s s' \<and> uart_ok s' = uart_ok s \<and> uart_input s' = uart_input s"
proof -
  have "\<exists>out. echo_words drs s = Some (s\<lparr>uart_out := out\<rparr>)"
  proof (induction drs arbitrary: s)
    case Nil
    show ?case by (rule exI [of _ "uart_out s"]) simp
  next
    case (Cons dr drs)
    from Cons [of "s\<lparr>uart_out := uart_out s @ [rx_char dr, LF]\<rparr>"] show ?case by (auto simp: uart_putc_def)
  qed
  then obtain out where o: "echo_words drs s = Some (s\<lparr>uart_out := out\<rparr>)" by blast
  have "uart_frame s (s\<lparr>uart_out := out\<rparr>)" by (simp add: uart_frame_def)
  with o show ?thesis by (auto simp: uart_ok_def uart_input_def)
qed

subsection \<open>Hexadecimal output\<close>

definition digit_value :: "char \<Rightarrow> nat" where
  "digit_value c = (let n = of_char c in if n < 58 then n - 48 else n - 55)"

definition hex_value :: "char list \<Rightarrow> nat" where
  "hex_value cs = foldl (\<lambda>a c. 16 * a + digit_value c) 0 cs"

lemma digit_value_hex: "n < 16 \<Longrightarrow> digit_value (''0123456789ABCDEF'' ! n) = n"
proof -
  have "\<forall>n \<in> set [0..<16]. digit_value (''0123456789ABCDEF'' ! n) = n" by code_simp
  then show "n < 16 \<Longrightarrow> ?thesis" by simp
qed

lemma nibble: "unat (drop_bit i (num :: 64 word) AND 0xF) = unat num div 2 ^ i mod 16"
proof -
  have "drop_bit i num AND 0xF = take_bit 4 (drop_bit i num)" by (simp add: take_bit_eq_mask mask_numeral)
  then have "unat (drop_bit i num AND 0xF) = take_bit 4 (drop_bit i (unat num))"
    by (simp only: unsigned_take_bit_eq unat_drop_bit_eq)
  also have "\<dots> = unat num div 2 ^ i mod 16" by (simp add: drop_bit_eq_div take_bit_eq_mod)
  finally show ?thesis .
qed

lemma digit_value_nibble: "digit_value (hex_digit num i) = unat num div 2 ^ i mod 16"
  unfolding hex_digit_def nibble by (rule digit_value_hex) simp

lemma hex_value_nibbles:
  "foldl (\<lambda>a c. 16 * a + digit_value c) acc (map (hex_digit num) (rev (map ((*) 4) [0..<n])))
     = acc * 16 ^ n + unat num mod 16 ^ n"
proof (induction n arbitrary: acc)
  case (Suc n)
  have p: "(2 :: nat) ^ (n * 4) = 16 ^ n" by (simp add: mult.commute [of n] power_mult)
  have "unat num mod 16 ^ Suc n = 16 ^ n * (unat num div 16 ^ n mod 16) + unat num mod 16 ^ n"
    using mod_mult2_eq [of "unat num" "16 ^ n" 16] by (simp add: mult.commute)
  then show ?case using Suc by (simp add: digit_value_nibble p algebra_simps)
qed simp

lemma hex_value_unat: "hex_value (map (hex_digit num) (rev (map ((*) 4) [0..<16]))) = unat num"
proof -
  have "unat num < 16 ^ 16" using unsigned_less [of num] by simp
  then show ?thesis unfolding hex_value_def hex_value_nibbles by simp
qed

text \<open>
  uart_hex prints numbers faithfully: it writes "0x" and sixteen digits whose hexadecimal value is
  the number, and changes nothing else.
\<close>

lemma uart_hex_roundtrip:
  "\<exists>digits. uart_hex num s = Some (s\<lparr>uart_out := uart_out s @ ''0x'' @ digits\<rparr>) \<and> length digits = 16 \<and>
     hex_value digits = unat num"
  using uart_hex_text [of num s] hex_value_unat [of num] by auto

subsection \<open>The receive interrupt\<close>

lemma uart_interrupt_ok:
  assumes "sched_inv s" "packed s" "uart_ok s"
  shows "\<exists>s' d'. handle_uart_irq d s = Some (s', d') \<and> sched_inv s' \<and> packed s' \<and> uart_ok s' \<and>
    (let cs = (if bit (UART0_MIS d) 4 then rx_good (rx_fifo d) else []) in
       uart_input s' = take 63 (uart_input s @ cs) \<and>
       (\<forall>p. live s p \<longrightarrow> state (pcbs s' p) =
          (if cs \<noteq> [] \<and> state (pcbs s p) = PROCESS_WAITING_UART_INPUT then PROCESS_READY else state (pcbs s p)))) \<and>
    UART0_ICR d' = UART0_ICR d @ map (\<lambda>b. push_bit b 1) (filter (bit (UART0_MIS d)) [4, 5, 6]) \<and>
    UART0_IMSC d' = (if bit (UART0_MIS d) 5 then UART0_IMSC d AND NOT (push_bit 5 1) else UART0_IMSC d)"
proof -
  have b: "UART0_MIS d AND push_bit n 1 \<noteq> 0 \<longleftrightarrow> bit (UART0_MIS d) n" for n
    by (simp only: push_bit_of_1 and_exp_eq_0_iff_not_bit not_not)
  note bits = b [of 4] b [of 5] b [of 6]
  let ?cs = "if bit (UART0_MIS d) 4 then rx_good (rx_fifo d) else []"
  obtain s1 where s1: "receive_words (rx_fifo d) s = Some s1" "received (rx_good (rx_fifo d)) s s1"
    using receive_words_spec [OF assms] by blast
  let ?s1 = "if bit (UART0_MIS d) 4 then s1 else s"
  have r1: "received ?cs s ?s1" using s1 received_refl [OF assms] by simp
  have p: "uart_puts ('': timeout'' @ [CR, LF, NUL]) ?s1 = Some (?s1\<lparr>uart_out := uart_out ?s1 @ '': timeout'' @ [CR, LF]\<rparr>)"
    using uart_puts_text [of "'': timeout'' @ [CR, LF]" "[]" ?s1] by simp
  let ?s2 = "?s1\<lparr>uart_out := uart_out ?s1 @ '': timeout'' @ [CR, LF]\<rparr>"
  obtain s3 where s3: "echo_words (timeout_fifo d) ?s2 = Some s3" "uart_frame ?s2 s3" "uart_ok s3 = uart_ok ?s2" "uart_input s3 = uart_input ?s2"
    using echo_words_frame by blast
  have "uart_frame ?s1 s3" using s3(2) by (simp add: uart_frame_def)
  then have r3: "received ?cs s s3"
    by (rule received_frame [OF r1]) (use s3(3,4) in \<open>simp_all add: uart_ok_def uart_input_def\<close>)
  let ?s' = "if bit (UART0_MIS d) 6 then s3 else ?s1"
  have "received ?cs s ?s'" using r1 r3 by simp
  moreover have "\<exists>d'. handle_uart_irq d s = Some (?s', d') \<and>
    UART0_ICR d' = UART0_ICR d @ map (\<lambda>b. push_bit b 1) (filter (bit (UART0_MIS d)) [4, 5, 6]) \<and>
    UART0_IMSC d' = (if bit (UART0_MIS d) 5 then UART0_IMSC d AND NOT (push_bit 5 1) else UART0_IMSC d)"
    using s1(1) p s3(1) unfolding handle_uart_irq_def Let_def bits by (simp split: if_splits)
  ultimately show ?thesis unfolding received_def Let_def by blast
qed

text \<open>
  C28. The UART interrupt in every well-formed state with a gap-free process table: it always completes; the receive
  buffer gains the characters received without a line error, in order, as long as its 63
  places last (later ones are dropped, none is overwritten); if there was one, every process blocked on input becomes READY
  and is in a ready queue, and no other state changes; the raised interrupts, and only they,
  are acknowledged, and the transmit interrupt is masked when it was raised.
\<close>

theorem uart_interrupt_correct:
  assumes "sched_inv s" "packed s" "uart_ok s"
  shows "\<exists>s' d'. handle_uart_irq d s = Some (s', d') \<and> sched_inv s' \<and> packed s' \<and> uart_ok s' \<and>
    (let cs = (if bit (UART0_MIS d) 4 then rx_good (rx_fifo d) else []) in
       uart_input s' = take 63 (uart_input s @ cs) \<and>
       (\<forall>p. live s p \<longrightarrow> state (pcbs s' p) =
          (if cs \<noteq> [] \<and> state (pcbs s p) = PROCESS_WAITING_UART_INPUT then PROCESS_READY else state (pcbs s p)))) \<and>
    UART0_ICR d' = UART0_ICR d @ map (\<lambda>b. push_bit b 1) (filter (bit (UART0_MIS d)) [4, 5, 6]) \<and>
    UART0_IMSC d' = (if bit (UART0_MIS d) 5 then UART0_IMSC d AND NOT (push_bit 5 1) else UART0_IMSC d)"
  using uart_interrupt_ok [OF assms] .


theorem uart_interrupt_witness:
  "\<exists>s' d'. handle_uart_irq \<lparr>UART0_MIS = push_bit 4 1, UART0_IMSC = 0, UART0_ICR = [], rx_fifo = [0x68, 0x169, 0x21], timeout_fifo = []\<rparr>
      (demo_kernel sched_sjf) = Some (s', d') \<and> uart_input s' = ''h!'' \<and> UART0_ICR d' = [push_bit 4 1]"
proof -
  have "packed (demo_kernel sched_sjf)"
    by (auto simp: packed_def nth_append nth_Cons' split: if_splits)
  moreover have "uart_ok (demo_kernel sched_sjf)" "uart_input (demo_kernel sched_sjf) = []"
    by (simp_all add: uart_ok_def uart_input_def ring_contents_def ring_used_def demo_kernel_def boot_kernel_def)
  moreover have "rx_good [0x68, 0x169, 0x21] = ''h!''" by code_simp
  moreover have "bit (push_bit 4 1 :: 32 word) 4" "\<not> bit (push_bit 4 1 :: 32 word) 5" "\<not> bit (push_bit 4 1 :: 32 word) 6"
    by (simp_all add: bit_push_bit_iff)
  ultimately show ?thesis
    using uart_interrupt_correct [OF demo_inv [of sched_sjf], of "\<lparr>UART0_MIS = push_bit 4 1, UART0_IMSC = 0, UART0_ICR = [],
        rx_fifo = [0x68, 0x169, 0x21], timeout_fifo = []\<rparr>"] by auto
qed

end
