(* ===== verification/Ipc.thy ===== *)
theory Ipc
  imports Uart
begin

section \<open>Messages and signals\<close>

text \<open>
  \<^verbatim>\<open>libs/ipc.c\<close>. A \<^verbatim>\<open>struct MessagesCircularBuffer*\<close> is the buffer of the process that owns it. A
  call that blocks does so inside a loop: one pass that either finishes or changes the state of
  the process and calls \<^verbatim>\<open>schedule()\<close>, to be repeated when the process is dispatched again. The model is the pass;
  its result tells the two outcomes apart. The uninitialised local \<^verbatim>\<open>struct Message\<close> is a parameter.
\<close>

datatype 'a progress = Finished 'a | Suspended

subsection \<open>The circular buffer\<close>

definition next_message_index :: "int \<Rightarrow> int" where
  "next_message_index i = (let n = i + 1 in if n > int MAX_MESSAGES_PER_PROCESS then 0 else n)"

definition push_message :: "pcb_ptr \<Rightarrow> Message \<Rightarrow> kernel \<Rightarrow> (int \<times> kernel) option" where
  "push_message owner message s =
     (let buffer = messages_buffer (pcbs s owner);
          next_head = next_message_index (mb_head buffer)
      in if next_head = mb_tail buffer then Some (-1, s)
         else do {
           cells \<leftarrow> aset (mb_buffer buffer) (mb_head buffer) message;
           let s1 = modify_pcb owner (\<lambda>x. x\<lparr>messages_buffer := buffer\<lparr>mb_buffer := cells, mb_head := next_head\<rparr>\<rparr>) s;
           d \<leftarrow> destination_process message;
           if state (pcbs s1 d) = PROCESS_WAITING_TO_RECEIVE_MESSAGE
           then do {
             s2 \<leftarrow> enqueue_process (Some d) (modify_pcb d (\<lambda>x. x\<lparr>state := PROCESS_READY\<rparr>) s1);
             Some (0, s2)
           } else Some (0, s1)
         })"

definition pop_message :: "pcb_ptr \<Rightarrow> Message \<Rightarrow> kernel \<Rightarrow> (int \<times> Message \<times> kernel) option" where
  "pop_message owner message s =
     (let buffer = messages_buffer (pcbs s owner) in
      if mb_head buffer = mb_tail buffer then Some (-1, message, s)
      else do {
        cell \<leftarrow> aget (mb_buffer buffer) (mb_tail buffer);
        str \<leftarrow> strcpy (body message) (body cell);
        Some (0, \<lparr>source_process = source_process cell, destination_process = destination_process cell, body = str\<rparr>,
          modify_pcb owner (\<lambda>x. x\<lparr>messages_buffer := buffer\<lparr>mb_tail := next_message_index (mb_tail buffer)\<rparr>\<rparr>) s)
      })"

subsection \<open>Sending and receiving\<close>

definition send_pass :: "pcb_ptr \<Rightarrow> pcb_ptr \<Rightarrow> Message \<Rightarrow> kernel \<Rightarrow> (int progress \<times> kernel) option" where
  "send_pass source dest message s = do {
     (push_ok, s1) \<leftarrow> push_message dest message s;
     if push_ok = -1
     then do {
       s2 \<leftarrow> schedule (modify_pcb source (\<lambda>x. x\<lparr>state := PROCESS_WAITING_TO_SEND_MESSAGE\<rparr>) s1);
       Some (Suspended, s2)
     } else Some (Finished 0, s1)
   }"

definition send_message :: "char list \<Rightarrow> pcb_ptr \<Rightarrow> pcb_ptr \<Rightarrow> char list \<Rightarrow> kernel \<Rightarrow> (int progress \<times> kernel) option" where
  "send_message uninit source dest str s = do {
     b \<leftarrow> strcpy uninit str;
     send_pass source dest \<lparr>source_process = Some (current_process s), destination_process = Some dest, body = b\<rparr> s
   }"

definition receive_pass :: "Message \<Rightarrow> pcb_ptr \<Rightarrow> char list \<Rightarrow> kernel \<Rightarrow> (char list progress \<times> kernel) option" where
  "receive_pass uninit dest out s = do {
     (pop_ok, received_message, s1) \<leftarrow> pop_message dest uninit s;
     if pop_ok = 0
     then do {
       out' \<leftarrow> strcpy out (body received_message);
       s2 \<leftarrow> wake_blocked PROCESS_WAITING_TO_SEND_MESSAGE (slots_below (int N_PROCESSES)) s1;
       Some (Finished out', s2)
     } else do {
       s2 \<leftarrow> schedule (modify_pcb (current_process s1) (\<lambda>x. x\<lparr>state := PROCESS_WAITING_TO_RECEIVE_MESSAGE\<rparr>) s1);
       Some (Suspended, s2)
     }
   }"

subsection \<open>Signals and the debugging output\<close>

definition send_signal :: "pcb_ptr \<Rightarrow> int \<Rightarrow> kernel \<Rightarrow> (int \<times> kernel) option" where
  "send_signal dest signal_flag s =
     (if signal_flag < 0 \<or> signal_flag \<ge> 32 then None
      else Some (0, modify_pcb dest
             (\<lambda>x. x\<lparr>pending_signals := pending_signals x OR signal_bit (nat signal_flag)\<rparr>) s))"

primrec print_cells :: "nat \<Rightarrow> Message list \<Rightarrow> kernel \<Rightarrow> kernel option" where
  "print_cells i [] s = Some s"
| "print_cells i (c # cs) s = do {
     s1 \<leftarrow> uart_hex (of_nat i) s;
     s2 \<leftarrow> uart_puts [CHR 0x09, NUL] s1;
     s3 \<leftarrow> uart_puts (body c) s2;
     s4 \<leftarrow> uart_puts [LF, NUL] s3;
     print_cells (Suc i) cs s4
   }"

definition print_circular_buffer :: "MessagesCircularBuffer \<Rightarrow> kernel \<Rightarrow> kernel option" where
  "print_circular_buffer buffer s = do {
     s1 \<leftarrow> uart_puts (''[BUFFER] Head: '' @ [NUL]) s;
     s2 \<leftarrow> uart_hex (word_of_int (mb_head buffer)) s1;
     s3 \<leftarrow> uart_puts ('' | Tail: '' @ [NUL]) s2;
     s4 \<leftarrow> uart_hex (word_of_int (mb_tail buffer)) s3;
     s5 \<leftarrow> uart_puts [LF, NUL] s4;
     print_cells 0 (mb_buffer buffer) s5
   }"

subsection \<open>The buffer is a ring of five positions over four cells\<close>

interpretation message_ring: ring "int MAX_MESSAGES_PER_PROCESS + 1" next_message_index
proof unfold_locales
  fix i :: int assume "0 \<le> i" "i < int MAX_MESSAGES_PER_PROCESS + 1"
  then show "next_message_index i = (i + 1) mod (int MAX_MESSAGES_PER_PROCESS + 1)"
    by (cases "i = 4") (simp_all add: next_message_index_def)
qed simp

definition inbox :: "kernel \<Rightarrow> pcb_ptr \<Rightarrow> Message list" where
  "inbox s p = (let b = messages_buffer (pcbs s p)
     in ring_contents (int MAX_MESSAGES_PER_PROCESS + 1) (mb_head b) (mb_tail b) (mb_buffer b))"

definition buffer_ok :: "MessagesCircularBuffer \<Rightarrow> bool" where
  "buffer_ok b \<longleftrightarrow> length (mb_buffer b) = MAX_MESSAGES_PER_PROCESS \<and>
     0 \<le> mb_head b \<and> mb_head b \<le> int MAX_MESSAGES_PER_PROCESS \<and> 0 \<le> mb_tail b \<and> mb_tail b \<le> int MAX_MESSAGES_PER_PROCESS"

abbreviation (input) box_ok :: "kernel \<Rightarrow> pcb_ptr \<Rightarrow> bool" where
  "box_ok s p \<equiv> buffer_ok (messages_buffer (pcbs s p))"

lemma inbox_cong: "messages_buffer (pcbs s' p) = messages_buffer (pcbs s p) \<Longrightarrow> inbox s' p = inbox s p"
  by (simp add: inbox_def)

lemma inbox_length: "length (inbox s p) \<le> MAX_MESSAGES_PER_PROCESS"
  using message_ring.capacity [of "mb_head (messages_buffer (pcbs s p))" "mb_tail (messages_buffer (pcbs s p))"
      "mb_buffer (messages_buffer (pcbs s p))"] by (simp add: inbox_def Let_def)

lemma inbox_full:
  "box_ok s p \<Longrightarrow> next_message_index (mb_head (messages_buffer (pcbs s p))) = mb_tail (messages_buffer (pcbs s p)) \<longleftrightarrow>
     length (inbox s p) = MAX_MESSAGES_PER_PROCESS"
  using message_ring.full_iff [of "mb_head (messages_buffer (pcbs s p))" "mb_tail (messages_buffer (pcbs s p))"
      "mb_buffer (messages_buffer (pcbs s p))"]
  by (simp add: buffer_ok_def inbox_def Let_def)

lemma inbox_empty:
  "box_ok s p \<Longrightarrow> mb_head (messages_buffer (pcbs s p)) = mb_tail (messages_buffer (pcbs s p)) \<longleftrightarrow> inbox s p = []"
  using message_ring.empty_iff [of "mb_head (messages_buffer (pcbs s p))" "mb_tail (messages_buffer (pcbs s p))"
      "mb_buffer (messages_buffer (pcbs s p))"]
  by (simp add: buffer_ok_def inbox_def Let_def)

lemma push_full:
  "box_ok s p \<Longrightarrow> length (inbox s p) = MAX_MESSAGES_PER_PROCESS \<Longrightarrow> push_message p m s = Some (-1, s)"
  by (simp add: push_message_def inbox_full)

text \<open>Writing one message buffer is invisible to the scheduler.\<close>

lemma sched_rep_buffer:
  "sched_rep s Q \<Longrightarrow> sched_rep (modify_pcb p (\<lambda>x. x\<lparr>messages_buffer := b\<rparr>) s) Q"
  by (rule sched_rep_modify) simp_all

lemma push_spec:
  assumes rep: "sched_rep s Q" and box: "box_ok s p" "mb_head (messages_buffer (pcbs s p)) \<noteq> int MAX_MESSAGES_PER_PROCESS"
    and room: "length (inbox s p) < MAX_MESSAGES_PER_PROCESS" and d: "destination_process m = Some p" "live s p"
  shows "\<exists>s' Q'. push_message p m s = Some (0, s') \<and> sched_rep s' Q' \<and> box_ok s' p \<and> inbox s' p = inbox s p @ [m] \<and>
    (\<forall>a. a \<noteq> p \<longrightarrow> inbox s' a = inbox s a \<and> state (pcbs s' a) = state (pcbs s a)) \<and>
    state (pcbs s' p) = (if state (pcbs s p) = PROCESS_WAITING_TO_RECEIVE_MESSAGE then PROCESS_READY else state (pcbs s p)) \<and>
    rest s' = rest s"
proof -
  let ?b = "messages_buffer (pcbs s p)"
  let ?b' = "?b\<lparr>mb_buffer := (mb_buffer ?b)[nat (mb_head ?b) := m], mb_head := next_message_index (mb_head ?b)\<rparr>"
  let ?s1 = "modify_pcb p (\<lambda>x. x\<lparr>messages_buffer := ?b'\<rparr>) s"
  note B = box(1) [unfolded buffer_ok_def]
  have nf: "next_message_index (mb_head ?b) \<noteq> mb_tail ?b" using inbox_full [OF box(1)] room by simp
  have h: "nat (mb_head ?b) < length (mb_buffer ?b)" using B box(2) by (simp add: nat_less_iff)
  have r1: "sched_rep ?s1 Q" using rep by (rule sched_rep_buffer)
  have ok1: "box_ok ?s1 p" using B message_ring.advance_range [of "mb_head ?b"] by (simp add: buffer_ok_def)
  have in1: "inbox ?s1 p = inbox s p @ [m]"
    using message_ring.push_appends [of "mb_head ?b" "mb_buffer ?b" "mb_tail ?b" m] B nf h
    by (simp add: inbox_def Let_def)
  have oth1: "inbox ?s1 a = inbox s a \<and> state (pcbs ?s1 a) = state (pcbs s a)" if "a \<noteq> p" for a
    using that by (simp add: inbox_def)
  have st1: "state (pcbs ?s1 p) = state (pcbs s p)" by simp
  have cells: "aset (mb_buffer ?b) (mb_head ?b) m = Some ((mb_buffer ?b)[nat (mb_head ?b) := m])"
    using B h by (simp add: aset_def)
  show ?thesis
  proof (cases "state (pcbs s p) = PROCESS_WAITING_TO_RECEIVE_MESSAGE")
    case False
    then have "push_message p m s = Some (0, ?s1)" using nf cells d by (simp add: push_message_def Let_def)
    moreover have "rest ?s1 = rest s" by (simp add: rest_def modify_pcb_def)
    ultimately show ?thesis using r1 ok1 in1 oth1 st1 False
      by (intro exI [of _ ?s1] exI [of _ Q] conjI) simp_all
  next
    case True
    have l1: "live ?s1 p" using d(2) by (simp add: live_def)
    have nr: "state (pcbs ?s1 p) \<noteq> PROCESS_READY" using True by simp
    obtain s' Q' where w: "enqueue_process (Some p) (modify_pcb p (\<lambda>x. x\<lparr>state := PROCESS_READY\<rparr>) ?s1) = Some s'"
      "sched_rep s' Q'" "woken (state (pcbs ?s1 p)) {p} ?s1 s'"
      using wake_one [OF r1 l1 nr] by blast
    note W = wokenD [OF w(3)]
    have "push_message p m s = Some (0, s')" using nf cells d True w(1) by (simp add: push_message_def Let_def)
    moreover have "rest s' = rest s" using W(1) by (simp add: rest_def modify_pcb_def)
    moreover have "box_ok s' p" using ok1 W(5) [of p] by simp
    moreover have "inbox s' p = inbox s p @ [m]" using inbox_cong [OF W(5) [of p]] in1 by simp
    moreover have "inbox s' a = inbox s a \<and> state (pcbs s' a) = state (pcbs s a)" if "a \<noteq> p" for a
      using inbox_cong [OF W(5) [of a]] W(4) [of a] oth1 [OF that] that by simp
    moreover have "state (pcbs s' p) = PROCESS_READY" using W(4) [of p] by simp
    ultimately show ?thesis using w(2) True by (intro exI [of _ s'] exI [of _ Q'] conjI) simp_all
  qed
qed


lemma pop_spec:
  assumes rep: "sched_rep s Q" and box: "box_ok s p" "mb_tail (messages_buffer (pcbs s p)) \<noteq> int MAX_MESSAGES_PER_PROCESS"
    and ne: "inbox s p \<noteq> []" and msg: "cstr (body (hd (inbox s p))) = Some t" "length t < length (body m)"
  shows "\<exists>m' s'. pop_message p m s = Some (0, m', s') \<and> sched_rep s' Q \<and> box_ok s' p \<and> inbox s' p = tl (inbox s p) \<and>
    cstr (body m') = Some t \<and> (\<forall>a. a \<noteq> p \<longrightarrow> inbox s' a = inbox s a) \<and> (\<forall>a. state (pcbs s' a) = state (pcbs s a)) \<and>
    rest s' = rest s"
proof -
  let ?b = "messages_buffer (pcbs s p)"
  let ?s' = "modify_pcb p (\<lambda>x. x\<lparr>messages_buffer := ?b\<lparr>mb_tail := next_message_index (mb_tail ?b)\<rparr>\<rparr>) s"
  note B = box(1) [unfolded buffer_ok_def]
  have he: "mb_head ?b \<noteq> mb_tail ?b" using inbox_empty [OF box(1)] ne by simp
  have first: "inbox s p = mb_buffer ?b ! nat (mb_tail ?b) #
      ring_contents (int MAX_MESSAGES_PER_PROCESS + 1) (mb_head ?b) (next_message_index (mb_tail ?b)) (mb_buffer ?b)"
    using message_ring.pop_first [of "mb_head ?b" "mb_tail ?b" "mb_buffer ?b"] B he by (simp add: inbox_def Let_def)
  have cell: "aget (mb_buffer ?b) (mb_tail ?b) = Some (hd (inbox s p))"
    unfolding first using B box(2) by (simp add: aget_def nat_less_iff)
  obtain d where d: "strcpy (body m) (body (hd (inbox s p))) = Some d" "cstr d = Some t"
    using strcpy_cstr [OF msg(1), of "body m"] msg(2) strcpy_keeps_length msg(1) by fastforce
  have "pop_message p m s = Some (0, \<lparr>source_process = source_process (hd (inbox s p)),
      destination_process = destination_process (hd (inbox s p)), body = d\<rparr>, ?s')"
    using he cell d(1) by (simp add: pop_message_def Let_def)
  moreover have "sched_rep ?s' Q" using rep by (rule sched_rep_buffer)
  moreover have "box_ok ?s' p" using B message_ring.advance_range [of "mb_tail ?b"] by (simp add: buffer_ok_def)
  moreover have "inbox ?s' p = tl (inbox s p)" unfolding first by (simp add: inbox_def)
  moreover have "inbox ?s' a = inbox s a" if "a \<noteq> p" for a using that by (simp add: inbox_def)
  moreover have "state (pcbs ?s' a) = state (pcbs s a)" for a by (simp add: upd_pcb_apply)
  moreover have "rest ?s' = rest s" by (simp add: rest_def modify_pcb_def)
  ultimately show ?thesis using d(2) by auto
qed


subsection \<open>Properties\<close>

lemma demo_inbox:
  assumes "p = Pcb_at 3 \<or> p = Pcb_at 4"
  shows "messages_buffer (demo_heap p) = zero_messages" "inbox (demo_kernel alg) p = []" "buffer_ok (messages_buffer (demo_heap p))"
proof -
  show z: "messages_buffer (demo_heap p) = zero_messages"
    using assms by (auto simp: demo_pcb_def zero_pcb_def)
  show "inbox (demo_kernel alg) p = []" "buffer_ok (messages_buffer (demo_heap p))"
    by (simp_all add: inbox_def z zero_messages_def ring_contents_def ring_used_def buffer_ok_def)
qed

text \<open>
  Sending: in a well-formed state the running process sends a text that fits a message to a registered
  process. If the receiver's buffer holds fewer than four messages (and its head is inside the array) the call
  completes: the message, with the sender and the text, is the last of the inbox; a receiver that waited for
  it is READY and queued, and nothing else changes. If the buffer is full, the sender blocks, no inbox changes,
  and another process runs.
\<close>

lemma send_message_correct:
  assumes "sched_inv s" "current_process s \<noteq> Init_process" "state (pcbs s (current_process s)) = PROCESS_RUNNING"
    and "live s dest" "box_ok s dest" "cstr str = Some t" "length t < length uninit"
    and "length (inbox s dest) < 4 \<longrightarrow> mb_head (messages_buffer (pcbs s dest)) < 4"
  shows "if length (inbox s dest) < 4
    then \<exists>s' m. send_message uninit (current_process s) dest str s = Some (Finished 0, s') \<and> sched_inv s' \<and>
      inbox s' dest = inbox s dest @ [m] \<and> source_process m = Some (current_process s) \<and> cstr (body m) = Some t \<and>
      (\<forall>a. a \<noteq> dest \<longrightarrow> inbox s' a = inbox s a \<and> state (pcbs s' a) = state (pcbs s a)) \<and>
      state (pcbs s' dest) = (if state (pcbs s dest) = PROCESS_WAITING_TO_RECEIVE_MESSAGE then PROCESS_READY else state (pcbs s dest))
    else \<exists>s'. send_message uninit (current_process s) dest str s = Some (Suspended, s') \<and> sched_inv s' \<and>
      state (pcbs s' (current_process s)) = PROCESS_WAITING_TO_SEND_MESSAGE \<and> current_process s' \<noteq> current_process s \<and>
      (\<forall>a. inbox s' a = inbox s a)"
proof -
  obtain Q where rep: "sched_rep s Q" using assms(1) by (auto simp: sched_inv_def)
  obtain b where b: "strcpy uninit str = Some b" "cstr b = Some t"
    using strcpy_cstr [OF assms(6), of uninit] assms(6,7) strcpy_keeps_length by fastforce
  let ?m = "\<lparr>source_process = Some (current_process s), destination_process = Some dest, body = b\<rparr>"
  show ?thesis
  proof (cases "length (inbox s dest) < 4")
    case True
    have "mb_head (messages_buffer (pcbs s dest)) \<noteq> 4" using assms(8) True by simp
    then obtain s' Q' where p: "push_message dest ?m s = Some (0, s')" "sched_rep s' Q'" "inbox s' dest = inbox s dest @ [?m]"
      "\<forall>a. a \<noteq> dest \<longrightarrow> inbox s' a = inbox s a \<and> state (pcbs s' a) = state (pcbs s a)"
      "state (pcbs s' dest) = (if state (pcbs s dest) = PROCESS_WAITING_TO_RECEIVE_MESSAGE then PROCESS_READY else state (pcbs s dest))"
      using push_spec [OF rep assms(5), of ?m] True assms(4) by auto
    then show ?thesis using True b by (auto simp: send_message_def send_pass_def sched_inv_def)
  next
    case False
    then have "push_message dest ?m s = Some (-1, s)" using push_full [OF assms(5)] inbox_length [of s dest] by simp
    moreover obtain s' where s': "schedule (modify_pcb (current_process s) (\<lambda>x. x\<lparr>state := PROCESS_WAITING_TO_SEND_MESSAGE\<rparr>) s) = Some s'"
      "blocked_in PROCESS_WAITING_TO_SEND_MESSAGE s s'"
      "data_kept (modify_pcb (current_process s) (\<lambda>x. x\<lparr>state := PROCESS_WAITING_TO_SEND_MESSAGE\<rparr>) s) s'"
      using block_switch [OF rep assms(2,3), of "\<lambda>x. x\<lparr>state := PROCESS_WAITING_TO_SEND_MESSAGE\<rparr>" PROCESS_WAITING_TO_SEND_MESSAGE] by auto
    moreover have "inbox s' a = inbox s a" for a
      by (rule inbox_cong) (use s'(3) in \<open>simp add: data_kept_def upd_pcb_apply\<close>)
    ultimately show ?thesis using False b by (simp add: send_message_def send_pass_def blocked_in_def)
  qed
qed



text \<open>One push in terms of the indices.\<close>

lemma push_step:
  assumes "messages_buffer (pcbs s p) = \<lparr>mb_head = h, mb_tail = t, mb_buffer = cells\<rparr>"
    and "state (pcbs s p) \<noteq> PROCESS_WAITING_TO_RECEIVE_MESSAGE" "destination_process m = Some p"
    and "next_message_index h \<noteq> t" "0 \<le> h"
  shows "push_message p m s = (if h < int (length cells)
    then Some (0, modify_pcb p (\<lambda>x. x\<lparr>messages_buffer := \<lparr>mb_head = next_message_index h, mb_tail = t, mb_buffer = cells[nat h := m]\<rparr>\<rparr>) s)
    else None)"
  using assms by (simp add: push_message_def Let_def aset_def nat_less_iff)

lemma message_indices [simp]:
  "next_message_index 0 = 1" "next_message_index 1 = 2" "next_message_index 2 = 3" "next_message_index 3 = 4" "next_message_index 4 = 0"
  by (simp_all add: next_message_index_def)

text \<open>
  C29. The message ring is one position too long for its array. Four messages fill a fresh buffer and leave the
  head at index 4; once one of them has been received, the next send writes the cell behind the last.
\<close>

theorem fifth_message_out_of_bounds:
  assumes "messages_buffer (pcbs s p) = zero_messages" "state (pcbs s p) \<noteq> PROCESS_WAITING_TO_RECEIVE_MESSAGE"
    and "\<forall>m \<in> {m1, m2, m3, m4, m5}. destination_process m = Some p \<and> cstr (body m) = Some t" "length t < length (body uninit)"
  shows "\<exists>s4 s5 m. do { (r1, a) \<leftarrow> push_message p m1 s; (r2, b) \<leftarrow> push_message p m2 a; (r3, c) \<leftarrow> push_message p m3 b;
        (r4, d) \<leftarrow> push_message p m4 c; Some ([r1, r2, r3, r4], d) } = Some ([0, 0, 0, 0], s4) \<and>
      pop_message p uninit s4 = Some (0, m, s5) \<and> push_message p m5 s5 = None"
proof -
  let ?put = "\<lambda>h cells s. modify_pcb p (\<lambda>x. x\<lparr>messages_buffer := \<lparr>mb_head = h, mb_tail = 0, mb_buffer = cells\<rparr>\<rparr>) s"
  let ?z = zero_message
  let ?a = "?put 1 [m1, ?z, ?z, ?z] s" and ?b = "\<lambda>s. ?put 2 [m1, m2, ?z, ?z] s" and ?c = "\<lambda>s. ?put 3 [m1, m2, m3, ?z] s"
    and ?d = "\<lambda>s. ?put 4 [m1, m2, m3, m4] s"
  let ?s4 = "?d (?c (?b ?a))"
  have z: "messages_buffer (pcbs s p) = \<lparr>mb_head = 0, mb_tail = 0, mb_buffer = [?z, ?z, ?z, ?z]\<rparr>"
    using assms(1) by (simp add: zero_messages_def numeral_eq_Suc)
  have p1: "push_message p m1 s = Some (0, ?a)"
    using push_step [OF z assms(2), of m1] assms(3) by simp
  have p2: "push_message p m2 ?a = Some (0, ?b ?a)"
    using push_step [of ?a p 1 0 "[m1, ?z, ?z, ?z]" m2] assms(2,3) by simp
  have p3: "push_message p m3 (?b ?a) = Some (0, ?c (?b ?a))"
    using push_step [of "?b ?a" p 2 0 "[m1, m2, ?z, ?z]" m3] assms(2,3) by (simp add: numeral_eq_Suc)
  have p4: "push_message p m4 (?c (?b ?a)) = Some (0, ?s4)"
    using push_step [of "?c (?b ?a)" p 3 0 "[m1, m2, m3, ?z]" m4] assms(2,3) by (simp add: numeral_eq_Suc)
  obtain d where d: "strcpy (body uninit) (body m1) = Some d"
    using strcpy_cstr [of "body m1" t "body uninit"] assms(3,4) by simp
  let ?s5 = "modify_pcb p (\<lambda>x. x\<lparr>messages_buffer := \<lparr>mb_head = 4, mb_tail = 1, mb_buffer = [m1, m2, m3, m4]\<rparr>\<rparr>) ?s4"
  let ?m = "\<lparr>source_process = source_process m1, destination_process = destination_process m1, body = d\<rparr>"
  have p5: "pop_message p uninit ?s4 = Some (0, ?m, ?s5)" using d by (simp add: pop_message_def aget_def)
  have p6: "push_message p m5 ?s5 = None"
    using push_step [of ?s5 p 4 1 "[m1, m2, m3, m4]" m5] assms(2,3) by simp
  have "do { (r1, a) \<leftarrow> push_message p m1 s; (r2, b) \<leftarrow> push_message p m2 a; (r3, c) \<leftarrow> push_message p m3 b;
        (r4, d) \<leftarrow> push_message p m4 c; Some ([r1, r2, r3, r4], d) } = Some ([0, 0, 0, 0], ?s4)"
    by (simp only: p1 p2 p3 p4 bind.bind_lunit prod.case)
  with p5 p6 show ?thesis by blast
qed

theorem fifth_message_witness:
  "\<exists>s4 s5 m. pop_message (Pcb_at 3) zero_message s4 = Some (0, m, s5) \<and>
     push_message (Pcb_at 3) (zero_message\<lparr>destination_process := Some (Pcb_at 3)\<rparr>) s5 = None"
proof -
  let ?m = "zero_message\<lparr>destination_process := Some (Pcb_at 3)\<rparr>"
  have c: "cstr (body zero_message) = Some []" by (simp add: zero_message_def numeral_eq_Suc)
  have "length (body zero_message) = 256" by (simp add: zero_message_def)
  then show ?thesis
    using fifth_message_out_of_bounds [where s = "demo_kernel sched_fcfs" and p = "Pcb_at 3" and ?m1.0 = ?m and ?m2.0 = ?m
        and ?m3.0 = ?m and ?m4.0 = ?m and ?m5.0 = ?m and t = "[]" and uninit = zero_message]
      demo_inbox [of "Pcb_at 3"] c by simp blast
qed

end
