(* ===== verification/Byte_Memory.thy ===== *)
theory Byte_Memory
  imports Process_State
begin

section \<open>Byte memory\<close>

text \<open>
  Memory as a function from addresses to bytes; 64-bit accesses are little endian, as the
  processor is configured. The routines of \<^verbatim>\<open>common/memory.S\<close> are loops that test at the end: each copies or clears once
  before it looks at its counter. \<^verbatim>\<open>memzero\<close> compares the full 64-bit counter, \<^verbatim>\<open>memcpy\<close> only its low 32 bits,
  both as signed numbers; the counters are integers here.
\<close>

type_synonym bytes = "64 word \<Rightarrow> 8 word"

primrec load_bytes :: "nat \<Rightarrow> 64 word \<Rightarrow> bytes \<Rightarrow> 64 word" where
  "load_bytes 0 a m = 0"
| "load_bytes (Suc k) a m = ucast (m a) OR push_bit 8 (load_bytes k (a + 1) m)"

primrec store_bytes :: "nat \<Rightarrow> 64 word \<Rightarrow> 64 word \<Rightarrow> bytes \<Rightarrow> bytes" where
  "store_bytes 0 a v m = m"
| "store_bytes (Suc k) a v m = store_bytes k (a + 1) (drop_bit 8 v) (m(a := ucast v))"

definition load64 :: "64 word \<Rightarrow> bytes \<Rightarrow> 64 word" where
  "load64 a m = load_bytes 8 a m"

definition store64 :: "64 word \<Rightarrow> 64 word \<Rightarrow> bytes \<Rightarrow> bytes" where
  "store64 a v m = store_bytes 8 a v m"

function memzero :: "64 word \<Rightarrow> int \<Rightarrow> bytes \<Rightarrow> bytes" where
  "memzero a n m =
     (let m1 = store64 a 0 m; n1 = n - 8
      in if n1 > 0 then memzero (a + 8) n1 m1 else m1)"
  by auto
termination by (relation "measure (\<lambda>(a, n, m). nat n)") auto

declare memzero.simps [simp del]

function memcpy :: "64 word \<Rightarrow> 64 word \<Rightarrow> int \<Rightarrow> bytes \<Rightarrow> bytes" where
  "memcpy dest src n m =
     (let m1 = m(dest := m src); n1 = n - 1
      in if n1 > 0 then memcpy (dest + 1) (src + 1) n1 m1 else m1)"
  by auto
termination by (relation "measure (\<lambda>(d, s, n, m). nat n)") auto

declare memcpy.simps [simp del]

primrec memcmp :: "64 word \<Rightarrow> 64 word \<Rightarrow> nat \<Rightarrow> bytes \<Rightarrow> 32 word" where
  "memcmp a b 0 m = 0"
| "memcmp a b (Suc n) m =
     (let d = ucast (m a) - ucast (m b) :: 32 word
      in if d \<noteq> 0 then d else memcmp (a + 1) (b + 1) n m)"

primrec memset :: "64 word \<Rightarrow> 8 word \<Rightarrow> nat \<Rightarrow> bytes \<Rightarrow> bytes" where
  "memset a c 0 m = m"
| "memset a c (Suc n) m = memset (a + 1) c n (m(a := c))"

subsection \<open>Offsets\<close>

lemma offset_Suc:
  fixes a b :: "64 word"
  assumes "b \<noteq> a"
  shows "unat (b - a) = Suc (unat (b - (a + 1)))"
proof -
  have ne: "b - a \<noteq> 0" using assms by simp
  have "b - (a + 1) = (b - a) - 1" by simp
  then have "unat (b - (a + 1)) = unat (b - a) - 1" using unat_minus_one [OF ne] by metis
  moreover have "unat (b - a) \<noteq> 0" using ne by (simp add: unat_eq_0)
  ultimately show ?thesis by simp
qed

lemma unat_numeral_8: "unat (8 :: 64 word) = 8"
  by simp

lemma offset_before [simp]: "unat (a - (a + 1) :: 64 word) = 2 ^ 64 - 1"
proof -
  have "a - (a + 1) = - 1" by simp
  then show ?thesis by (simp add: unsigned_minus_1_eq_mask mask_eq_exp_minus_1)
qed

lemma offset_self: "unat ((a + of_nat i) - a :: 64 word) = i" if "i < 2 ^ 64"
  using that by (simp add: unat_of_nat)

subsection \<open>Loads and stores\<close>

lemma store_bytes_apply:
  "k \<le> 8 \<Longrightarrow> store_bytes k a v m b =
     (if unat (b - a) < k then ucast (drop_bit (8 * unat (b - a)) v) else m b)"
proof (induction k arbitrary: a v m)
  case (Suc k)
  show ?case
  proof (cases "b = a")
    case True
    then show ?thesis using Suc offset_before [of a] by simp
  next
    case False
    then show ?thesis using Suc offset_Suc [OF False] by (simp add: drop_bit_drop_bit add.commute)
  qed
qed simp

lemma store64_apply:
  "store64 a v m b = (if unat (b - a) < 8 then ucast (drop_bit (8 * unat (b - a)) v) else m b)"
  by (simp add: store64_def store_bytes_apply)

lemma load_bytes_cong:
  "(\<And>i. i < k \<Longrightarrow> m (a + of_nat i) = m' (a + of_nat i)) \<Longrightarrow> load_bytes k a m = load_bytes k a m'"
proof (induction k arbitrary: a)
  case (Suc k)
  have "load_bytes k (a + 1) m = load_bytes k (a + 1) m'"
    using Suc.IH [of "a + 1"] Suc.prems [of "Suc i" for i] by (simp add: add.assoc)
  moreover have "m a = m' a" using Suc.prems [of 0] by simp
  ultimately show ?case by simp
qed simp

lemma load_bytes_split:
  "(\<And>i. i < k \<Longrightarrow> m (a + of_nat i) = ucast (drop_bit (8 * i) v)) \<Longrightarrow> load_bytes k a m = take_bit (8 * k) v"
proof (induction k arbitrary: a v)
  case (Suc k)
  have "load_bytes k (a + 1) m = take_bit (8 * k) (drop_bit 8 v)"
  proof (rule Suc.IH)
    fix i assume "i < k"
    then show "m (a + 1 + of_nat i) = ucast (drop_bit (8 * i) (drop_bit 8 v))"
      using Suc.prems [of "Suc i"] by (simp add: add.assoc drop_bit_drop_bit add.commute [of 8])
  qed
  moreover have "m a = ucast v" using Suc.prems [of 0] by simp
  ultimately show ?case
    by (intro bit_eqI) (auto simp: bit_or_iff bit_push_bit_iff bit_take_bit_iff bit_drop_bit_eq bit_ucast_iff)
qed simp

lemma load_store_same [simp]: "load64 a (store64 a v m) = v"
proof -
  have "store64 a v m (a + of_nat i) = ucast (drop_bit (8 * i) v)" if "i < 8" for i
    using that offset_self [of i a] by (simp add: store64_apply)
  then show ?thesis unfolding load64_def by (subst load_bytes_split [where v = v]) (simp_all add: take_bit_word_eq_self)
qed

lemma load64_cong: "(\<And>i. i < 8 \<Longrightarrow> m' (a + of_nat i) = m (a + of_nat i)) \<Longrightarrow> load64 a m' = load64 a m"
  unfolding load64_def by (rule load_bytes_cong)

subsection \<open>Clearing and copying\<close>

lemma memzero_apply:
  "1 \<le> k \<Longrightarrow> 8 * k < 2 ^ 63 \<Longrightarrow> memzero a (8 * int k) m b = (if unat (b - a) < 8 * k then 0 else m b)"
proof (induction k arbitrary: a m)
  case (Suc k)
  show ?case
  proof (cases "k = 0")
    case True
    then show ?thesis by (simp add: memzero.simps [of a] store64_apply)
  next
    case False
    have "memzero a (8 * int (Suc k)) m b = memzero (a + 8) (8 * int k) (store64 a 0 m) b"
      using False by (subst memzero.simps) (simp add: Let_def)
    also have "\<dots> = (if unat (b - (a + 8)) < 8 * k then 0 else store64 a 0 m b)"
      using Suc False by simp
    also have "\<dots> = (if unat (b - a) < 8 * Suc k then 0 else m b)"
    proof (cases "unat (b - a) < 8")
      case True
      then show ?thesis by (simp add: store64_apply)
    next
      case False
      then have "8 \<le> b - a" by (simp add: word_le_nat_alt)
      then have "unat ((b - a) - 8) = unat (b - a) - unat (8 :: 64 word)" by (rule unat_sub)
      moreover have "b - (a + 8) = (b - a) - 8" by simp
      ultimately have "unat (b - (a + 8)) = unat (b - a) - 8" by (metis unat_numeral_8)
      then show ?thesis using False by (auto simp: store64_apply)
    qed
    finally show ?thesis .
  qed
qed simp

lemma memzero_page: "memzero a 4096 m b = (if unat (b - a) < 4096 then 0 else m b)"
  using memzero_apply [of 512 a m b] by simp

lemma memcpy_apply:
  "1 \<le> n \<Longrightarrow> n < 2 ^ 63 \<Longrightarrow> (\<forall>i < n. \<forall>j < n. dest + of_nat i \<noteq> src + of_nat j) \<Longrightarrow>
   memcpy dest src (int n) m b = (if unat (b - dest) < n then m (src + (b - dest)) else m b)"
proof (induction n arbitrary: dest src m)
  case (Suc n)
  show ?case
  proof (cases "n = 0")
    case True
    show ?thesis using True by (cases "b = dest") (simp_all add: memcpy.simps [of dest] unat_eq_0)
  next
    case False
    have dis: "\<forall>i < n. \<forall>j < n. (dest + 1) + of_nat i \<noteq> (src + 1) + of_nat j"
    proof (intro allI impI)
      fix i j assume "i < n" "j < n"
      then have "dest + of_nat (Suc i) \<noteq> src + of_nat (Suc j)" using Suc.prems(3) Suc_less_eq by blast
      then show "(dest + 1) + of_nat i \<noteq> (src + 1) + of_nat j" by (simp add: add.assoc)
    qed
    have "memcpy dest src (int (Suc n)) m b = memcpy (dest + 1) (src + 1) (int n) (m(dest := m src)) b"
      using False by (subst memcpy.simps) (simp add: Let_def)
    also have "\<dots> = (if unat (b - (dest + 1)) < n then (m(dest := m src)) (src + 1 + (b - (dest + 1))) else (m(dest := m src)) b)"
      by (rule Suc.IH) (use False Suc.prems(2) dis in simp_all)
    also have "\<dots> = (if unat (b - dest) < Suc n then m (src + (b - dest)) else m b)"
    proof (cases "b = dest")
      case True
      then show ?thesis using offset_before [of dest] Suc.prems by simp
    next
      case b: False
      have s: "src + 1 + (b - (dest + 1)) = src + (b - dest)" by simp
      have "src + (b - dest) \<noteq> dest" if "unat (b - dest) < Suc n"
        using Suc.prems(3) [rule_format, of 0 "unat (b - dest)"] that by simp
      then show ?thesis using offset_Suc [OF b] b unfolding s by auto
    qed
    finally show ?thesis .
  qed
qed simp

lemma memset_apply: "n < 2 ^ 63 \<Longrightarrow> memset a c n m b = (if unat (b - a) < n then c else m b)"
proof (induction n arbitrary: a m)
  case (Suc n)
  show ?case
  proof (cases "b = a")
    case True
    then show ?thesis using Suc offset_before [of a] by simp
  next
    case False
    then show ?thesis using Suc offset_Suc [OF False] by simp
  qed
qed simp

end
