(* ===== verification/Memory.thy ===== *)
theory Memory
  imports Scheduler Byte_Memory
begin

section \<open>Physical pages and page tables\<close>

text \<open>
  \<^verbatim>\<open>libs/mm.c\<close>. A physical page with address \<open>pa\<close> is reached by the kernel at \<open>pa + VA_START\<close>. Page
  table entries are 64-bit words in byte memory. The page list of a process is in its PCB record. An
  index outside \<^verbatim>\<open>memory_pages\<close>, \<^verbatim>\<open>kernel_pages\<close> or \<^verbatim>\<open>user_pages\<close> is \<open>None\<close>. As in the C code,
  the page table code does not test whether \<^verbatim>\<open>get_free_page\<close> failed.
\<close>

abbreviation (input) VA_START :: "64 word" where "VA_START \<equiv> 0xffff000000000000"
abbreviation (input) PAGE_MASK :: "64 word" where "PAGE_MASK \<equiv> 0xfffffffffffff000"
abbreviation (input) PAGE_SIZE :: int where "PAGE_SIZE \<equiv> 4096"
abbreviation (input) LOW_MEMORY :: nat where "LOW_MEMORY \<equiv> 0x400000"
abbreviation (input) N_PAGES :: nat where "N_PAGES \<equiv> 257024"
abbreviation (input) PAGE_SHIFT :: nat where "PAGE_SHIFT \<equiv> 12"
abbreviation (input) PMD_SHIFT :: nat where "PMD_SHIFT \<equiv> 21"
abbreviation (input) PUD_SHIFT :: nat where "PUD_SHIFT \<equiv> 30"
abbreviation (input) PGD_SHIFT :: nat where "PGD_SHIFT \<equiv> 39"
abbreviation (input) SECTION_SHIFT :: nat where "SECTION_SHIFT \<equiv> 21"
abbreviation (input) MM_TYPE_PAGE_TABLE :: "64 word" where "MM_TYPE_PAGE_TABLE \<equiv> 3"

text \<open>\<^verbatim>\<open>MM_TYPE_PAGE | (MT_NORMAL_NC << 2) | MM_ACCESS | MM_ACCESS_PERMISSION\<close>\<close>

abbreviation (input) MMU_PTE_FLAGS :: "64 word" where "MMU_PTE_FLAGS \<equiv> 0x447"

subsection \<open>The page allocator\<close>

function find_free_page :: "(nat \<Rightarrow> 16 word) \<Rightarrow> nat \<Rightarrow> nat option" where
  "find_free_page used i =
     (if i < N_PAGES then if used i = 0 then Some i else find_free_page used (Suc i) else None)"
  by auto
termination by (relation "measure (\<lambda>(u, i). N_PAGES - i)") auto

declare find_free_page.simps [simp del]

definition page_address :: "nat \<Rightarrow> 64 word" where
  "page_address i = of_nat (LOW_MEMORY + i * 4096)"

definition get_free_page :: "phys_memory \<Rightarrow> 64 word \<times> phys_memory" where
  "get_free_page ph =
     (case find_free_page (memory_pages ph) 0 of
        None \<Rightarrow> (0, ph)
      | Some i \<Rightarrow> (page_address i, \<lparr>memory_pages = (memory_pages ph)(i := 1),
          mem = memzero (page_address i + VA_START) PAGE_SIZE (mem ph)\<rparr>))"

definition free_page :: "64 word \<Rightarrow> phys_memory \<Rightarrow> (int \<times> phys_memory) option" where
  "free_page a ph =
     (if a mod 4096 \<noteq> 0 then Some (-1, ph)
      else
        let i = unat ((a - VA_START - of_nat LOW_MEMORY) div 4096)
        in if i < N_PAGES
           then Some (0, \<lparr>memory_pages = (memory_pages ph)(i := 0), mem = memzero a PAGE_SIZE (mem ph)\<rparr>)
           else None)"

definition allocate_kernel_page :: "kernel \<Rightarrow> 64 word \<times> kernel" where
  "allocate_kernel_page s =
     (let (page, ph) = get_free_page (phys s)
      in (if page = 0 then 0 else page + VA_START, s\<lparr>phys := ph\<rparr>))"

subsection \<open>Page tables\<close>

definition table_index :: "64 word \<Rightarrow> nat \<Rightarrow> 64 word" where
  "table_index va index_shift = drop_bit index_shift va AND 511"

definition map_table :: "64 word \<Rightarrow> nat \<Rightarrow> 64 word \<Rightarrow> phys_memory \<Rightarrow> 64 word \<times> bool \<times> phys_memory" where
  "map_table table index_shift va ph =
     (let slot = table + 8 * table_index va index_shift;
          old = load64 slot (mem ph)
      in if old = 0
         then
           let (next_level_table, ph1) = get_free_page ph;
               m = memzero (next_level_table + VA_START) PAGE_SIZE (mem ph1)
           in (next_level_table, True,
               ph1\<lparr>mem := store64 slot (next_level_table OR MM_TYPE_PAGE_TABLE) m\<rparr>)
         else (old AND PAGE_MASK, False, ph))"

definition map_table_entry :: "64 word \<Rightarrow> 64 word \<Rightarrow> 64 word \<Rightarrow> phys_memory \<Rightarrow> phys_memory" where
  "map_table_entry pte va page_physical_address ph =
     ph\<lparr>mem := store64 (pte + 8 * table_index va PAGE_SHIFT)
                 (page_physical_address OR MMU_PTE_FLAGS) (mem ph)\<rparr>"

definition track_kernel_page :: "64 word \<Rightarrow> mm_struct \<Rightarrow> mm_struct option" where
  "track_kernel_page page mm0 = do {
     pages \<leftarrow> aset (kernel_pages mm0) (n_kernel_pages mm0) page;
     Some (mm0\<lparr>kernel_pages := pages, n_kernel_pages := n_kernel_pages mm0 + 1\<rparr>)
   }"

definition track_user_page :: "user_page \<Rightarrow> mm_struct \<Rightarrow> mm_struct option" where
  "track_user_page page mm0 = do {
     pages \<leftarrow> aset (user_pages mm0) (n_user_pages mm0) page;
     Some (mm0\<lparr>user_pages := pages, n_user_pages := n_user_pages mm0 + 1\<rparr>)
   }"

text \<open>One level of \<^verbatim>\<open>map_page\<close>: the next table, tracked if it is new.\<close>

definition map_level :: "64 word \<Rightarrow> nat \<Rightarrow> 64 word \<Rightarrow> mm_struct \<times> phys_memory \<Rightarrow> (64 word \<times> mm_struct \<times> phys_memory) option" where
  "map_level table index_shift va = (\<lambda>(mm0, ph0). do {
     let (next_table, created, ph1) = map_table (table + VA_START) index_shift va ph0;
     mm1 \<leftarrow> (if created then track_kernel_page next_table mm0 else Some mm0);
     Some (next_table, mm1, ph1)
   })"

definition map_page_mm :: "64 word \<Rightarrow> 64 word \<Rightarrow> mm_struct \<times> phys_memory \<Rightarrow> (mm_struct \<times> phys_memory) option" where
  "map_page_mm va page_physical_address = (\<lambda>(mm0, ph0). do {
     (mm1, ph1) \<leftarrow> (if pgd mm0 = 0
        then let (page, ph1) = get_free_page ph0 in do {
          mm1 \<leftarrow> track_kernel_page page (mm0\<lparr>pgd := page\<rparr>);
          Some (mm1, ph1\<lparr>mem := memzero (page + VA_START) PAGE_SIZE (mem ph1)\<rparr>)
        }
        else Some (mm0, ph0));
     (pud, mm2, ph2) \<leftarrow> map_level (pgd mm1) PGD_SHIFT va (mm1, ph1);
     (pmd, mm3, ph3) \<leftarrow> map_level pud PUD_SHIFT va (mm2, ph2);
     (pte, mm4, ph4) \<leftarrow> map_level pmd PMD_SHIFT va (mm3, ph3);
     let ph5 = map_table_entry (pte + VA_START) va page_physical_address ph4;
     mm5 \<leftarrow> track_user_page \<lparr>physical_address = page_physical_address, virtual_address = va\<rparr> mm4;
     Some (mm5, ph5)
   })"

definition map_page :: "pcb_ptr \<Rightarrow> 64 word \<Rightarrow> 64 word \<Rightarrow> kernel \<Rightarrow> kernel option" where
  "map_page process va page s = do {
     (mm1, ph1) \<leftarrow> map_page_mm va page (mm (pcbs s process), phys s);
     Some (modify_pcb process (\<lambda>x. x\<lparr>mm := mm1\<rparr>) (s\<lparr>phys := ph1\<rparr>))
   }"

definition allocate_user_page :: "pcb_ptr \<Rightarrow> 64 word \<Rightarrow> kernel \<Rightarrow> (64 word \<times> kernel) option" where
  "allocate_user_page process va s =
     (let (page, ph) = get_free_page (phys s); s1 = s\<lparr>phys := ph\<rparr>
      in if page = 0 then Some (0, s1)
         else do {
           s2 \<leftarrow> map_page process va page s1;
           Some (page + VA_START, s2)
         })"

text \<open>\<^verbatim>\<open>map_sector\<close>: the loop over the entries of the PMD, with the descriptor advancing by one section.\<close>

primrec map_sections :: "nat list \<Rightarrow> 64 word \<Rightarrow> 64 word \<Rightarrow> bytes \<Rightarrow> bytes" where
  "map_sections [] pmd descriptor m = m"
| "map_sections (i # is) pmd descriptor m =
     map_sections is pmd (descriptor + 0x200000) (store64 (pmd + 8 * of_nat i) descriptor m)"

definition map_sector :: "pcb_ptr \<Rightarrow> 64 word \<Rightarrow> 64 word \<Rightarrow> 64 word \<Rightarrow> 64 word \<Rightarrow> kernel \<Rightarrow> int \<times> kernel" where
  "map_sector process start_va end_va page sector_flags s =
     (let first_index = table_index start_va SECTION_SHIFT;
          last_index = table_index end_va SECTION_SHIFT;
          descriptor = push_bit SECTION_SHIFT (drop_bit SECTION_SHIFT page) OR sector_flags;
          m = mem (phys s);
          pgd_va = pgd (mm (pcbs s process)) + VA_START;
          pud_phys = load64 (pgd_va + 8 * table_index start_va PGD_SHIFT) m
      in if pud_phys AND 1 = 0 then (-1, s)
         else
           let pud_va = (pud_phys AND PAGE_MASK) + VA_START;
               pmd_phys = load64 (pud_va + 8 * table_index start_va PUD_SHIFT) m
           in if pmd_phys AND 1 = 0 then (-1, s)
              else (0, s\<lparr>phys := (phys s)\<lparr>mem := map_sections [unat first_index..<Suc (unat last_index)]
                       ((pmd_phys AND PAGE_MASK) + VA_START) descriptor m\<rparr>\<rparr>))"

text \<open>\<^verbatim>\<open>do_mem_abort\<close>, with its static counter \<^verbatim>\<open>index\<close> as an argument.\<close>

definition do_mem_abort :: "64 word \<Rightarrow> 64 word \<Rightarrow> int \<Rightarrow> kernel \<Rightarrow> (int \<times> int \<times> kernel) option" where
  "do_mem_abort address esr index s =
     (let dfs = esr AND 0x3F in
      if dfs div 0x3C = 4
      then let (page, ph) = get_free_page (phys s); s1 = s\<lparr>phys := ph\<rparr>
           in if page = 0 then Some (-1, index, s1)
              else do {
                s2 \<leftarrow> map_page (current_process s1) (address AND PAGE_MASK) page s1;
                Some (if index + 1 > 2 then -1 else 0, index + 1, s2)
              }
      else Some (-1, index, s))"

text \<open>
  \<^verbatim>\<open>copy_virtual_memory\<close>: the loop body for page \<open>i\<close> of the current process, and the loop, which
  reads its bound again before every pass. An index past the page array is a fault, so it ends.
\<close>

definition copy_user_page :: "pcb_ptr \<Rightarrow> int \<Rightarrow> kernel \<Rightarrow> (int \<times> kernel) option" where
  "copy_user_page dest i s = do {
     source_page \<leftarrow> aget (user_pages (mm (pcbs s (current_process s)))) i;
     (address, s1) \<leftarrow> allocate_user_page dest (virtual_address source_page) s;
     if address = 0 then Some (-1, s1)
     else do {
       source_page1 \<leftarrow> aget (user_pages (mm (pcbs s1 (current_process s1)))) i;
       let m = memzero address PAGE_SIZE (mem (phys s1));
       Some (0, s1\<lparr>phys := (phys s1)\<lparr>mem := memcpy address (physical_address source_page1 + VA_START) PAGE_SIZE m\<rparr>\<rparr>)
     }
   }"

partial_function (option) copy_user_pages :: "pcb_ptr \<Rightarrow> int \<Rightarrow> kernel \<Rightarrow> (int \<times> kernel) option" where
  "copy_user_pages dest i s =
     (if i < n_user_pages (mm (pcbs s (current_process s)))
      then Option.bind (copy_user_page dest i s) (\<lambda>(r, s1). if r \<noteq> 0 then Some (r, s1) else copy_user_pages dest (i + 1) s1)
      else Some (0, s))"

definition copy_virtual_memory :: "pcb_ptr \<Rightarrow> kernel \<Rightarrow> (int \<times> kernel) option" where
  "copy_virtual_memory dest s = copy_user_pages dest 0 s"

end
