(* ===== verification/Page_Allocator.thy ===== *)
theory Page_Allocator
  imports Memory
begin

section \<open>The page allocator\<close>

text \<open>
  What \<^verbatim>\<open>get_free_page\<close> and \<^verbatim>\<open>free_page\<close> do to the allocation map and to memory. The pages the
  allocator hands out are named by their index; \<open>page_base i\<close> is the kernel address of page \<open>i\<close>.
\<close>

definition page_base :: "nat \<Rightarrow> 64 word" where
  "page_base i = page_address i + VA_START"

definition in_page :: "nat \<Rightarrow> 64 word \<Rightarrow> bool" where
  "in_page i b \<longleftrightarrow> unat (b - page_base i) < 4096"

subsection \<open>Addresses\<close>

lemma within_iff:
  fixes a b :: "64 word"
  assumes "unat a + n \<le> 2 ^ 64" "0 < n"
  shows "unat (b - a) < n \<longleftrightarrow> unat a \<le> unat b \<and> unat b < unat a + n"
  using assms by (auto simp: unat_sub_if_size word_size)

lemma unat_of_nat_small: "n < 2 ^ 64 \<Longrightarrow> unat (of_nat n :: 64 word) = n"
  by (simp add: unat_of_nat)

lemma unat_page_address: "i < N_PAGES \<Longrightarrow> unat (page_address i) = LOW_MEMORY + 4096 * i"
  unfolding page_address_def by (subst unat_of_nat_small) simp_all

lemma page_address_nonzero [simp]: "i < N_PAGES \<Longrightarrow> page_address i \<noteq> 0"
  using unat_page_address [of i] by force

lemma page_address_inj:
  assumes "i < N_PAGES" "j < N_PAGES"
  shows "page_address i = page_address j \<longleftrightarrow> i = j"
proof
  assume "page_address i = page_address j"
  then have "unat (page_address i) = unat (page_address j)" by (rule arg_cong)
  then show "i = j" unfolding unat_page_address [OF assms(1)] unat_page_address [OF assms(2)] by simp
qed simp

lemma unat_page_base: "i < N_PAGES \<Longrightarrow> unat (page_base i) = 0xffff000000000000 + LOW_MEMORY + 4096 * i"
  by (simp add: page_base_def unat_plus_if_size word_size unat_page_address)

lemma in_page_iff:
  "i < N_PAGES \<Longrightarrow> in_page i b \<longleftrightarrow> unat (page_base i) \<le> unat b \<and> unat b < unat (page_base i) + 4096"
  unfolding in_page_def by (rule within_iff) (simp_all add: unat_page_base)

lemma in_page_unique: "i < N_PAGES \<Longrightarrow> j < N_PAGES \<Longrightarrow> in_page i b \<Longrightarrow> in_page j b \<Longrightarrow> i = j"
  by (simp add: in_page_iff unat_page_base)

lemma memzero_in_page: "memzero (page_address i + VA_START) PAGE_SIZE m b = (if in_page i b then 0 else m b)"
  by (simp add: memzero_page in_page_def page_base_def)

subsection \<open>Searching the allocation map\<close>

lemma find_free_page_None: "find_free_page used i = None \<longleftrightarrow> (\<forall>k. i \<le> k \<and> k < N_PAGES \<longrightarrow> used k \<noteq> 0)"
proof (induction used i rule: find_free_page.induct)
  case (1 used i)
  show ?case
  proof (cases "i < N_PAGES \<and> used i \<noteq> 0")
    case True
    then have "find_free_page used i = None \<longleftrightarrow> (\<forall>k. Suc i \<le> k \<and> k < N_PAGES \<longrightarrow> used k \<noteq> 0)"
      using 1 by (simp add: find_free_page.simps [of used i])
    also have "\<dots> \<longleftrightarrow> (\<forall>k. i \<le> k \<and> k < N_PAGES \<longrightarrow> used k \<noteq> 0)"
      using True by (metis Suc_leD Suc_leI le_neq_implies_less)
    finally show ?thesis .
  qed (auto simp: find_free_page.simps [of used i])
qed

lemma find_free_page_Some:
  "find_free_page used i = Some j \<Longrightarrow> i \<le> j \<and> j < N_PAGES \<and> used j = 0 \<and> (\<forall>k. i \<le> k \<and> k < j \<longrightarrow> used k \<noteq> 0)"
proof (induction used i rule: find_free_page.induct)
  case (1 used i)
  show ?case
  proof (cases "i < N_PAGES \<and> used i \<noteq> 0")
    case True
    then have "find_free_page used (Suc i) = Some j" using 1(2) by (simp add: find_free_page.simps [of used i])
    with 1(1) True have "Suc i \<le> j \<and> j < N_PAGES \<and> used j = 0 \<and> (\<forall>k. Suc i \<le> k \<and> k < j \<longrightarrow> used k \<noteq> 0)" by simp
    then show ?thesis using True by (metis Suc_leD Suc_leI le_neq_implies_less)
  next
    case False
    then have "i < N_PAGES \<and> used i = 0 \<and> j = i"
      using 1(2) by (simp add: find_free_page.simps [of used i] split: if_splits)
    then show ?thesis by auto
  qed
qed

definition free_pages :: "phys_memory \<Rightarrow> nat set" where
  "free_pages ph = {i. i < N_PAGES \<and> memory_pages ph i = 0}"

lemma finite_free_pages [simp]: "finite (free_pages ph)"
  by (simp add: free_pages_def)

lemma get_free_page_none: "free_pages ph = {} \<Longrightarrow> get_free_page ph = (0, ph)"
  using find_free_page_None [of "memory_pages ph" 0] by (auto simp: get_free_page_def free_pages_def split: option.splits)

lemma get_free_page_some:
  assumes "free_pages ph \<noteq> {}"
  obtains i ph' where "get_free_page ph = (page_address i, ph')" "i \<in> free_pages ph" "i < N_PAGES"
    "\<forall>k < i. k \<notin> free_pages ph" "memory_pages ph' = (memory_pages ph)(i := 1)"
    "\<forall>b. mem ph' b = (if in_page i b then 0 else mem ph b)" "free_pages ph' = free_pages ph - {i}"
proof -
  have "find_free_page (memory_pages ph) 0 \<noteq> None"
    using assms by (auto simp: find_free_page_None free_pages_def)
  then obtain i where i: "find_free_page (memory_pages ph) 0 = Some i" by blast
  note S = find_free_page_Some [OF i]
  let ?ph' = "\<lparr>memory_pages = (memory_pages ph)(i := 1), mem = memzero (page_address i + VA_START) PAGE_SIZE (mem ph)\<rparr>"
  show thesis
  proof (rule that [of i ?ph'])
    show "get_free_page ph = (page_address i, ?ph')" using i by (simp add: get_free_page_def)
    show "\<forall>b. mem ?ph' b = (if in_page i b then 0 else mem ph b)" by (simp add: memzero_in_page)
  qed (use S in \<open>auto simp: free_pages_def\<close>)
qed

subsection \<open>Properties\<close>

lemma free_page_base:
  assumes "i < N_PAGES"
  shows "free_page (page_base i) ph =
    Some (0, \<lparr>memory_pages = (memory_pages ph)(i := 0), mem = memzero (page_base i) PAGE_SIZE (mem ph)\<rparr>)"
proof -
  have al: "page_base i mod 4096 = 0"
    using unat_page_base [OF assms] by (simp add: word_arith_nat_mod flip: unat_eq_0)
  have "unat (page_address i - of_nat LOW_MEMORY) = 4096 * i"
    using unat_page_address [OF assms] by (simp add: unat_sub_if_size word_size)
  then have "unat ((page_base i - VA_START - of_nat LOW_MEMORY) div 4096) = i" by (simp add: page_base_def unat_div)
  then show ?thesis using al assms by (simp add: free_page_def Let_def)
qed

text \<open>
  The page allocator returns the free page with the lowest index, marked as used and cleared, and touches
  nothing else; only when every one of the 257024 pages is in use it returns 0 and changes nothing.
\<close>

lemma get_free_page_correct:
  "if \<exists>i. i \<in> free_pages ph
   then \<exists>i ph'. get_free_page ph = (page_address i, ph') \<and> i \<in> free_pages ph \<and> (\<forall>k. k \<in> free_pages ph \<longrightarrow> i \<le> k) \<and>
     page_address i \<noteq> 0 \<and> memory_pages ph' = (memory_pages ph)(i := 1) \<and>
     (\<forall>b. mem ph' b = (if in_page i b then 0 else mem ph b))
   else get_free_page ph = (0, ph)"
proof (cases "free_pages ph = {}")
  case True
  then show ?thesis by (simp add: get_free_page_none)
next
  case False
  then obtain i ph' where "get_free_page ph = (page_address i, ph')" "i \<in> free_pages ph" "i < N_PAGES"
    "\<forall>k < i. k \<notin> free_pages ph" "memory_pages ph' = (memory_pages ph)(i := 1)"
    "\<forall>b. mem ph' b = (if in_page i b then 0 else mem ph b)" "free_pages ph' = free_pages ph - {i}"
    by (rule get_free_page_some)
  then show ?thesis using False by (auto simp: not_less [symmetric])
qed

text \<open>
  C34. free_page undoes an allocation: freeing the kernel address that an allocation returned succeeds and restores the
  allocation map; an address that is not page aligned is refused with -1 and changes
  nothing; NULL, which is page aligned, indexes memory_pages far out of bounds.
\<close>

theorem free_page_correct:
  "(\<forall>page ph1. get_free_page ph = (page, ph1) \<and> page \<noteq> 0 \<longrightarrow>
      (\<exists>ph2. free_page (page + VA_START) ph1 = Some (0, ph2) \<and> memory_pages ph2 = memory_pages ph)) \<and>
   (a mod 4096 \<noteq> 0 \<longrightarrow> free_page a ph = Some (-1, ph)) \<and> free_page 0 ph = None"
proof (intro conjI allI impI)
  fix page ph1 assume a: "get_free_page ph = (page, ph1) \<and> page \<noteq> 0"
  then have "free_pages ph \<noteq> {}" using get_free_page_none by fastforce
  then obtain i ph' where g: "get_free_page ph = (page_address i, ph')" "i \<in> free_pages ph" "i < N_PAGES"
    "memory_pages ph' = (memory_pages ph)(i := 1)"
    by (rule get_free_page_some)
  then show "\<exists>ph2. free_page (page + VA_START) ph1 = Some (0, ph2) \<and> memory_pages ph2 = memory_pages ph"
    using a free_page_base [OF g(3)] by (auto simp: page_base_def free_pages_def fun_upd_idem)
qed (simp_all add: free_page_def Let_def)

theorem free_page_witness:
  "\<exists>ph1 ph2. get_free_page \<lparr>memory_pages = (\<lambda>i. if i = 0 then 1 else 0), mem = (\<lambda>_. 7)\<rparr> = (page_address 1, ph1) \<and>
     free_page (page_address 1 + VA_START) ph1 = Some (0, ph2) \<and> memory_pages ph2 1 = 0 \<and> free_page 5 ph2 = Some (-1, ph2)"
proof -
  let ?ph = "\<lparr>memory_pages = (\<lambda>i. if i = 0 then 1 else 0), mem = (\<lambda>_. 7)\<rparr>"
  have "find_free_page (memory_pages ?ph) 0 = Some 1" by (simp add: find_free_page.simps)
  then obtain ph1 where g: "get_free_page ?ph = (page_address 1, ph1)" by (simp add: get_free_page_def)
  then obtain ph2 where "free_page (page_address 1 + VA_START) ph1 = Some (0, ph2)" "memory_pages ph2 = memory_pages ?ph"
    using free_page_correct [of ?ph 5] by fastforce
  moreover have "free_page 5 ph2 = Some (-1, ph2)" using free_page_correct [of ph2 5] by simp
  ultimately show ?thesis using g by auto
qed

end
