(* ===== verification/Page_Tables.thy ===== *)
theory Page_Tables
  imports Page_Allocator
begin

section \<open>Four-level page tables\<close>

text \<open>
  The abstraction of the page tables that \<^verbatim>\<open>map_page\<close> builds: a tree of table pages. A table is named by the
  indices that lead to it from the root, so the root is \<open>[]\<close> and a last-level table has
  three. \<open>table_rep m T\<close> says that memory \<open>m\<close> holds the tree \<open>T\<close>, and \<open>translate\<close> is what the
  MMU makes of it (descriptor bits 47..12, both type bits set).
\<close>

type_synonym table_tree = "nat list \<Rightarrow> nat option"

definition slot :: "nat \<Rightarrow> nat \<Rightarrow> 64 word" where
  "slot t x = page_base t + 8 * of_nat x"

definition entry :: "bytes \<Rightarrow> nat \<Rightarrow> nat \<Rightarrow> 64 word" where
  "entry m t x = load64 (slot t x) m"

definition table_rep :: "bytes \<Rightarrow> table_tree \<Rightarrow> bool" where
  "table_rep m T \<longleftrightarrow>
     (\<forall>p t. T p = Some t \<longrightarrow> t < N_PAGES \<and> length p \<le> 3) \<and>
     (\<forall>p q t. T p = Some t \<and> T q = Some t \<longrightarrow> p = q) \<and>
     (\<forall>p x. T (p @ [x]) \<noteq> None \<longrightarrow> T p \<noteq> None \<and> x < 512) \<and>
     (\<forall>p t x. T p = Some t \<and> length p < 3 \<and> x < 512 \<longrightarrow>
        entry m t x = (case T (p @ [x]) of None \<Rightarrow> 0 | Some u \<Rightarrow> page_address u OR MM_TYPE_PAGE_TABLE))"

definition path_index :: "64 word \<Rightarrow> nat \<Rightarrow> nat" where
  "path_index va shift = unat (table_index va shift)"

definition table_path :: "64 word \<Rightarrow> nat list" where
  "table_path va = [path_index va PGD_SHIFT, path_index va PUD_SHIFT, path_index va PMD_SHIFT]"

definition descend :: "bytes \<Rightarrow> 64 word \<Rightarrow> 64 word \<Rightarrow> nat \<Rightarrow> 64 word option" where
  "descend m table va shift =
     (let e = load64 (table + VA_START + 8 * table_index va shift) m
      in if e AND 3 = 3 then Some (e AND 0x0000fffffffff000) else None)"

definition translate :: "bytes \<Rightarrow> 64 word \<Rightarrow> 64 word \<Rightarrow> 64 word option" where
  "translate m root va = do {
     pud \<leftarrow> descend m root va PGD_SHIFT;
     pmd \<leftarrow> descend m pud va PUD_SHIFT;
     pte \<leftarrow> descend m pmd va PMD_SHIFT;
     page \<leftarrow> descend m pte va PAGE_SHIFT;
     Some (page OR (va AND 0xfff))
   }"

subsection \<open>Entries and memory updates\<close>

lemma path_index_bound: "path_index va shift < 512"
proof -
  have "table_index va shift = take_bit 9 (drop_bit shift va)"
    by (simp add: table_index_def take_bit_eq_mask mask_numeral)
  then have "path_index va shift = take_bit 9 (unat (drop_bit shift va))"
    by (simp only: path_index_def unsigned_take_bit_eq)
  then show ?thesis by (simp add: take_bit_eq_mod)
qed

lemma slot_index: "page_address t + VA_START + 8 * table_index va shift = slot t (path_index va shift)"
  by (simp add: slot_def page_base_def path_index_def)

lemma unat_slot: "t < N_PAGES \<Longrightarrow> x < 512 \<Longrightarrow> unat (slot t x) = unat (page_base t) + 8 * x"
proof -
  assume a: "t < N_PAGES" "x < 512"
  have "slot t x = page_base t + of_nat (8 * x)" by (simp add: slot_def)
  moreover have "unat (of_nat (8 * x) :: 64 word) = 8 * x" using a(2) by (intro unat_of_nat_small) simp
  ultimately show ?thesis using a by (simp add: unat_plus_if_size word_size unat_page_base)
qed

lemma unat_in_slot:
  assumes "t < N_PAGES" "x < 512" "i < 8"
  shows "unat (slot t x + of_nat i) = unat (page_base t) + 8 * x + i"
  using assms by (simp add: unat_plus_if_size word_size unat_slot unat_page_base unat_of_nat_small)

lemma slot_in_page:
  assumes "t < N_PAGES" "x < 512" "i < 8" "u < N_PAGES"
  shows "in_page u (slot t x + of_nat i) \<longleftrightarrow> u = t"
proof -
  have "in_page t (slot t x + of_nat i)" unfolding in_page_iff [OF assms(1)] unat_in_slot [OF assms(1-3)] using assms by simp
  then show ?thesis using in_page_unique assms by blast
qed

lemma entry_cong: "(\<And>b. in_page t b \<Longrightarrow> m' b = m b) \<Longrightarrow> t < N_PAGES \<Longrightarrow> x < 512 \<Longrightarrow> entry m' t x = entry m t x"
  unfolding entry_def by (rule load64_cong) (simp add: slot_in_page)

lemma entry_cleared: "(\<And>b. in_page t b \<Longrightarrow> m b = 0) \<Longrightarrow> t < N_PAGES \<Longrightarrow> x < 512 \<Longrightarrow> entry m t x = 0"
proof -
  assume a: "\<And>b. in_page t b \<Longrightarrow> m b = 0" "t < N_PAGES" "x < 512"
  have "entry m t x = entry (\<lambda>_. 0) t x" by (rule entry_cong) (use a in simp_all)
  also have "\<dots> = 0"
  proof -
    have "load_bytes k a (\<lambda>_. 0) = 0" for k a by (induction k arbitrary: a) simp_all
    then show ?thesis by (simp add: entry_def load64_def)
  qed
  finally show ?thesis .
qed

lemma entry_store:
  assumes "t < N_PAGES" "x < 512" "u < N_PAGES" "y < 512"
  shows "entry (store64 (slot u y) v m) t x = (if t = u \<and> x = y then v else entry m t x)"
proof (cases "t = u \<and> x = y")
  case False
  have out: "\<not> unat (slot t x + of_nat i - slot u y) < 8" if "i < 8" for i
  proof -
    have w: "unat (slot t x + of_nat i - slot u y) < 8 \<longleftrightarrow>
        unat (slot u y) \<le> unat (slot t x + of_nat i) \<and> unat (slot t x + of_nat i) < unat (slot u y) + 8"
      by (rule within_iff) (use assms in \<open>simp_all add: unat_slot unat_page_base\<close>)
    have neq: "512 * t + x \<noteq> 512 * u + y"
    proof
      assume e: "512 * t + x = 512 * u + y"
      then have "(512 * t + x) div 512 = (512 * u + y) div 512" "(512 * t + x) mod 512 = (512 * u + y) mod 512" by simp_all
      then show False using False assms(2,4) by simp
    qed
    show ?thesis unfolding w unat_in_slot [OF assms(1,2) that] unat_slot [OF assms(3,4)]
        unat_page_base [OF assms(1)] unat_page_base [OF assms(3)]
      using neq that by (cases "512 * t + x" "512 * u + y" rule: linorder_cases) linarith+
  qed
  have "load64 (slot t x) (store64 (slot u y) v m) = load64 (slot t x) m"
    by (rule load64_cong) (simp add: store64_apply out)
  then show ?thesis using False by (auto simp: entry_def)
next
  case True
  then show ?thesis by (simp add: entry_def)
qed

lemma store_in_page:
  assumes "t < N_PAGES" "x < 512" "store64 (slot t x) v m b \<noteq> m b"
  shows "in_page t b"
proof -
  have "unat (b - slot t x) < 8" using assms(3) by (simp add: store64_apply split: if_splits)
  moreover have "unat (b - slot t x) < 8 \<longleftrightarrow> unat (slot t x) \<le> unat b \<and> unat b < unat (slot t x) + 8"
    by (rule within_iff) (use assms in \<open>simp_all add: unat_slot unat_page_base\<close>)
  ultimately have "unat (slot t x) \<le> unat b" "unat b < unat (slot t x) + 8" by simp_all
  then show ?thesis using assms(1,2) by (simp add: in_page_iff unat_slot)
qed

subsection \<open>Descriptors\<close>

lemma page_address_aligned: "i < N_PAGES \<Longrightarrow> take_bit 12 (page_address i) = 0"
proof -
  assume i: "i < N_PAGES"
  have "unat (take_bit 12 (page_address i)) = take_bit 12 (unat (page_address i))" by (simp only: unsigned_take_bit_eq)
  also have "\<dots> = 0" unfolding unat_page_address [OF i] by (simp add: take_bit_eq_mod mod_mult_self2)
  finally show ?thesis by (simp add: unat_eq_0)
qed

lemma page_address_small: "i < N_PAGES \<Longrightarrow> take_bit 48 (page_address i) = page_address i"
proof -
  assume i: "i < N_PAGES"
  have "unat (take_bit 48 (page_address i)) = take_bit 48 (unat (page_address i))" by (simp only: unsigned_take_bit_eq)
  also have "\<dots> = unat (page_address i)" unfolding unat_page_address [OF i] using i by (simp add: take_bit_eq_mod)
  finally show ?thesis by (simp only: word_unat_eq_iff)
qed

lemma page_address_bit: "i < N_PAGES \<Longrightarrow> bit (page_address i) n \<Longrightarrow> 12 \<le> n \<and> n < 48"
proof -
  assume i: "i < N_PAGES" "bit (page_address i) n"
  have "bit (take_bit 48 (page_address i)) n" using i(2) unfolding page_address_small [OF i(1)] .
  moreover have "\<not> bit (take_bit 12 (page_address i)) n" unfolding page_address_aligned [OF i(1)] by simp
  ultimately show ?thesis using i(2) by (auto simp: bit_take_bit_iff)
qed


lemma table_entry:
  assumes "i < N_PAGES"
  shows "page_address i OR 3 \<noteq> 0" "(page_address i OR 3) AND PAGE_MASK = page_address i"
    "(page_address i OR 3) AND 3 = 3" "(page_address i OR 3) AND 0x0000fffffffff000 = page_address i"
    "(page_address i OR 0x447) AND 3 = 3" "(page_address i OR 0x447) AND 0x0000fffffffff000 = page_address i"
proof -
  have three: "bit (3 :: 64 word) n \<longleftrightarrow> n < 2" for n
    using bit_mask_iff [of 2 n, where ?'a = "64 word"] by (auto simp: mask_numeral)
  have fff: "(PAGE_MASK :: 64 word) = NOT (mask 12)" "(0x0000fffffffff000 :: 64 word) = mask 48 AND NOT (mask 12)"
    by (simp_all add: mask_numeral)
  have flags: "(0x447 :: 64 word) = take_bit 12 0x447" by (simp add: take_bit_eq_mask mask_numeral)
  have fl: "bit (0x447 :: 64 word) n \<Longrightarrow> n < 12" for n
    using flags by (metis bit_take_bit_iff)
  have low: "(x OR y) AND NOT (mask 12) = x AND NOT (mask 12)" if "\<And>n. bit y n \<Longrightarrow> n < 12" for x y :: "64 word"
    by (intro bit_eqI) (use that in \<open>auto simp: bit_and_iff bit_or_iff bit_not_iff bit_mask_iff\<close>)
  have pb: "bit (page_address i) n \<Longrightarrow> \<not> n < 12" "bit (page_address i) n \<Longrightarrow> n < 48" "bit (page_address i) n \<Longrightarrow> \<not> n < 2" for n
    using page_address_bit [OF assms, of n] by auto
  have hi: "page_address i AND NOT (mask 12) = page_address i" "page_address i AND (mask 48 AND NOT (mask 12)) = page_address i"
    using pb by (auto intro!: bit_eqI simp: bit_and_iff bit_not_iff bit_mask_iff)
  have t3: "(page_address i OR y) AND 3 = y AND 3" for y
    using pb(3) three by (intro bit_eqI) (auto simp: bit_and_iff bit_or_iff)
  show "page_address i OR 3 \<noteq> 0" using page_address_nonzero [OF assms] by (simp add: or_eq_0_iff)
  show "(page_address i OR 3) AND PAGE_MASK = page_address i"
    unfolding fff by (subst low) (use three hi in auto)
  show "(page_address i OR 3) AND 3 = 3" "(page_address i OR 0x447) AND 3 = 3" unfolding t3 by simp_all
  have th: "n < 12" if "bit (3 :: 64 word) n" for n
  proof -
    have "n < 2" using that three by blast
    then show ?thesis by simp
  qed
  have r: "(page_address i OR y) AND (mask 48 AND NOT (mask 12)) = page_address i" if "\<And>n. bit y n \<Longrightarrow> n < 12" for y
  proof -
    have "(page_address i OR y) AND (mask 48 AND NOT (mask 12)) = ((page_address i OR y) AND NOT (mask 12)) AND mask 48"
      by (simp add: ac_simps)
    also have "\<dots> = (page_address i AND NOT (mask 12)) AND mask 48" by (simp only: low [OF that])
    also have "\<dots> = page_address i AND (mask 48 AND NOT (mask 12))" by (simp add: ac_simps)
    finally show ?thesis using hi by simp
  qed
  show "(page_address i OR 3) AND 0x0000fffffffff000 = page_address i" unfolding fff using th by (rule r)
  show "(page_address i OR 0x447) AND 0x0000fffffffff000 = page_address i" unfolding fff using fl by (rule r)
qed

subsection \<open>Growing the tree\<close>

definition tables_ok :: "phys_memory \<Rightarrow> table_tree \<Rightarrow> bool" where
  "tables_ok ph T \<longleftrightarrow> table_rep (mem ph) T \<and> (\<forall>p t. T p = Some t \<longrightarrow> t \<notin> free_pages ph)"

text \<open>
  What building tables does: the tree only grows, by pages that were free; existing last-level entries
  keep their value, new tables are empty, and memory outside the tables is untouched.
\<close>

definition grown :: "table_tree \<Rightarrow> phys_memory \<Rightarrow> table_tree \<Rightarrow> phys_memory \<Rightarrow> bool" where
  "grown T ph T' ph' \<longleftrightarrow>
     (\<forall>p t. T p = Some t \<longrightarrow> T' p = Some t) \<and>
     (\<forall>p t. T p = None \<and> T' p = Some t \<longrightarrow> t \<in> free_pages ph) \<and>
     free_pages ph' \<subseteq> free_pages ph \<and>
     (\<forall>p t x. T' p = Some t \<and> length p = 3 \<and> x < 512 \<longrightarrow> entry (mem ph') t x = (if T p = None then 0 else entry (mem ph) t x)) \<and>
     (\<forall>b. (\<forall>p t. T' p = Some t \<longrightarrow> \<not> in_page t b) \<longrightarrow> mem ph' b = mem ph b)"

lemma grown_refl: "grown T ph T ph"
  by (auto simp: grown_def)

lemma grown_trans:
  assumes "grown T ph T' ph'" "grown T' ph' T'' ph''"
  shows "grown T ph T'' ph''"
proof -
  note A = assms(1) [unfolded grown_def] and B = assms(2) [unfolded grown_def]
  have 1: "T'' p = Some t" if "T p = Some t" for p t using A B that by blast
  have 2: "t \<in> free_pages ph" if "T p = None" "T'' p = Some t" for p t
  proof (cases "T' p")
    case None
    then have "t \<in> free_pages ph'" using B that(2) by blast
    then show ?thesis using A by blast
  next
    case (Some u)
    then have "u = t" using B that(2) by force
    then show ?thesis using A that(1) Some by blast
  qed
  have 4: "entry (mem ph'') t x = (if T p = None then 0 else entry (mem ph) t x)"
    if "T'' p = Some t" "length p = 3" "x < 512" for p t x
  proof (cases "T' p")
    case None
    then have "T p = None" using A by (metis not_None_eq)
    then show ?thesis using B that None by auto
  next
    case (Some u)
    then have Tp: "T' p = Some t" using B that(1) by force
    have "entry (mem ph'') t x = (if T' p = None then 0 else entry (mem ph') t x)" using B that by blast
    also have "\<dots> = entry (mem ph') t x" using Tp by simp
    also have "\<dots> = (if T p = None then 0 else entry (mem ph) t x)" using A Tp that(2,3) by blast
    finally show ?thesis .
  qed
  have 5: "mem ph'' b = mem ph b" if "\<forall>p t. T'' p = Some t \<longrightarrow> \<not> in_page t b" for b
  proof -
    have "mem ph'' b = mem ph' b" using B that by blast
    moreover have "\<forall>p t. T' p = Some t \<longrightarrow> \<not> in_page t b" using B that by blast
    ultimately show ?thesis using A by simp
  qed
  have "free_pages ph'' \<subseteq> free_pages ph" using A B by blast
  then show ?thesis unfolding grown_def using 1 2 4 5 by blast
qed

lemma tables_okD:
  assumes "tables_ok ph T"
  shows "T p = Some t \<Longrightarrow> t < N_PAGES" "T p = Some t \<Longrightarrow> length p \<le> 3" "T p = Some t \<Longrightarrow> t \<notin> free_pages ph"
    "T p = Some t \<Longrightarrow> T q = Some t \<Longrightarrow> p = q" "T p = None \<Longrightarrow> T (p @ [x]) = None"
    "T p = Some t \<Longrightarrow> length p < 3 \<Longrightarrow> x < 512 \<Longrightarrow>
       entry (mem ph) t x = (case T (p @ [x]) of None \<Rightarrow> 0 | Some u \<Rightarrow> page_address u OR MM_TYPE_PAGE_TABLE)"
  using assms unfolding tables_ok_def table_rep_def by (blast | metis)+

lemma new_table:
  assumes ok: "tables_ok ph T" and p: "T p = Some t" "length p < 3" "x < 512" and new: "T (p @ [x]) = None"
    and u: "u \<in> free_pages ph" "u < N_PAGES"
    and m1: "mem ph1 = store64 (slot t x) (page_address u OR 3) m0" "m0 = (\<lambda>b. if in_page u b then 0 else mem ph b)"
    and fr: "free_pages ph1 = free_pages ph - {u}"
  shows "tables_ok ph1 (T(p @ [x] \<mapsto> u))" "grown T ph (T(p @ [x] \<mapsto> u)) ph1"
proof -
  let ?T = "T(p @ [x] \<mapsto> u)"
  note D = tables_okD [OF ok]
  have t: "t < N_PAGES" "t \<noteq> u" using D(1,3) p(1) u(1) by blast+
  have nu: "w \<noteq> u" if "T q = Some w" for q w using D(3) that u(1) by blast
  have old: "entry (mem ph1) w y = (if w = t \<and> y = x then page_address u OR 3 else entry (mem ph) w y)"
    if "T q = Some w" "y < 512" for q w y
  proof -
    have w: "w < N_PAGES" using D(1) that(1) by blast
    have "entry m0 w y = entry (mem ph) w y"
      by (rule entry_cong) (use in_page_unique [OF w u(2)] nu [OF that(1)] that(2) w in \<open>auto simp: m1(2)\<close>)
    then show ?thesis using entry_store [OF w that(2) t(1) p(3)] by (simp add: m1(1))
  qed
  have cleared: "entry (mem ph1) u y = 0" if "y < 512" for y
  proof -
    have "entry m0 u y = 0" by (rule entry_cleared) (use u that in \<open>auto simp: m1(2)\<close>)
    then show ?thesis using entry_store [OF u(2) that t(1) p(3)] t(2) by (simp add: m1(1))
  qed
  have sub: "T (p @ [x] @ [y]) = None" for y using D(5) [OF new] by simp
  have ent: "entry (mem ph1) w y = (case ?T (q @ [y]) of None \<Rightarrow> 0 | Some v \<Rightarrow> page_address v OR MM_TYPE_PAGE_TABLE)"
    if q: "?T q = Some w" "length q < 3" "y < 512" for q w y
  proof (cases "q = p @ [x]")
    case True
    then show ?thesis using q cleared sub by auto
  next
    case False
    then have Tq: "T q = Some w" using q(1) by (simp split: if_splits)
    have wt: "w = t \<longleftrightarrow> q = p"
    proof
      assume "w = t"
      then have "T p = Some w" using p(1) by simp
      then show "q = p" by (rule D(4) [OF Tq])
    next
      assume "q = p"
      then show "w = t" using Tq p(1) by simp
    qed
    show ?thesis unfolding old [OF Tq q(3)] D(6) [OF Tq q(2,3)] wt using False by auto
  qed
  have "table_rep (mem ph1) ?T"
    unfolding table_rep_def
  proof (intro conjI allI impI)
    fix q w assume "?T q = Some w"
    then show "w < N_PAGES" "length q \<le> 3" using D(1,2) u(2) p(2) by (auto split: if_splits)
  next
    fix q q' w assume "?T q = Some w \<and> ?T q' = Some w"
    then show "q = q'" by (cases "q = p @ [x]"; cases "q' = p @ [x]") (simp_all, (use D(4) nu in blast)+)
  next
    fix q and y :: nat assume a: "?T (q @ [y]) \<noteq> None"
    show "?T q \<noteq> None" "y < 512"
    proof -
      have "q = p \<and> y = x \<or> T (q @ [y]) \<noteq> None" using a by (auto split: if_splits)
      moreover have "T (q @ [y]) \<noteq> None \<Longrightarrow> T q \<noteq> None \<and> y < 512"
        using ok unfolding tables_ok_def table_rep_def by blast
      ultimately show "?T q \<noteq> None" "y < 512" using p by auto
    qed
  next
    fix q w and y :: nat assume "?T q = Some w \<and> length q < 3 \<and> y < 512"
    then show "entry (mem ph1) w y = (case ?T (q @ [y]) of None \<Rightarrow> 0 | Some v \<Rightarrow> page_address v OR MM_TYPE_PAGE_TABLE)"
      using ent by blast
  qed
  moreover have "\<forall>q w. ?T q = Some w \<longrightarrow> w \<notin> free_pages ph1" using D(3) fr by (auto split: if_splits)
  ultimately show "tables_ok ph1 ?T" by (simp add: tables_ok_def)
  have leaf: "entry (mem ph1) w y = (if T q = None then 0 else entry (mem ph) w y)"
    if q: "?T q = Some w" "length q = 3" "y < 512" for q w y
  proof (cases "q = p @ [x]")
    case True
    then show ?thesis using q cleared new by simp
  next
    case False
    then have Tq: "T q = Some w" using q(1) by (simp split: if_splits)
    have "w \<noteq> t"
    proof
      assume "w = t"
      then have "T p = Some w" using p(1) by simp
      then have "q = p" by (rule D(4) [OF Tq])
      then show False using p(2) q(2) by simp
    qed
    then show ?thesis using old [OF Tq q(3)] Tq by simp
  qed
  have data: "mem ph1 b = mem ph b" if "\<forall>q w. ?T q = Some w \<longrightarrow> \<not> in_page w b" for b
  proof -
    have "\<not> in_page t b" "\<not> in_page u b"
      using that [rule_format, of p t] that [rule_format, of "p @ [x]" u] p(1) new by auto
    then show ?thesis using store_in_page [OF t(1) p(3), of "page_address u OR 3" m0 b] by (auto simp: m1)
  qed
  have "\<forall>q w. T q = Some w \<longrightarrow> ?T q = Some w" using new by auto
  moreover have "\<forall>q w. T q = None \<and> ?T q = Some w \<longrightarrow> w \<in> free_pages ph" using u(1) by auto
  moreover have "free_pages ph1 \<subseteq> free_pages ph" using fr by auto
  ultimately show "grown T ph ?T ph1" unfolding grown_def using leaf data by blast
qed

subsection \<open>One level of the walk\<close>

definition mm_room :: "nat \<Rightarrow> mm_struct \<Rightarrow> bool" where
  "mm_room k mm0 \<longleftrightarrow> length (kernel_pages mm0) = MAX_PROCESS_PAGES \<and> 0 \<le> n_kernel_pages mm0 \<and>
     n_kernel_pages mm0 + int k \<le> int MAX_PROCESS_PAGES"

definition same_user_pages :: "mm_struct \<Rightarrow> mm_struct \<Rightarrow> bool" where
  "same_user_pages mm0 mm1 \<longleftrightarrow> user_pages mm1 = user_pages mm0 \<and> n_user_pages mm1 = n_user_pages mm0"

lemma track_kernel_page_spec:
  assumes "mm_room (Suc k) mm0"
  shows "\<exists>mm1. track_kernel_page page mm0 = Some mm1 \<and> mm_room k mm1 \<and> pgd mm1 = pgd mm0 \<and> same_user_pages mm0 mm1"
  using assms by (auto simp: track_kernel_page_def mm_room_def aset_def same_user_pages_def)

lemma map_level_spec:
  assumes ok: "tables_ok ph T" and p: "T p = Some t" "length p < 3" and room: "mm_room (Suc k) mm0"
    and free: "Suc n \<le> card (free_pages ph)"
  shows "\<exists>u T' mm1 ph1. map_level (page_address t) shift va (mm0, ph) = Some (page_address u, mm1, ph1) \<and>
    tables_ok ph1 T' \<and> grown T ph T' ph1 \<and> T' (p @ [path_index va shift]) = Some u \<and>
    mm_room k mm1 \<and> pgd mm1 = pgd mm0 \<and> same_user_pages mm0 mm1 \<and> n \<le> card (free_pages ph1)"
proof -
  let ?x = "path_index va shift"
  note D = tables_okD [OF ok]
  have x: "?x < 512" by (rule path_index_bound)
  have e: "load64 (page_address t + VA_START + 8 * table_index va shift) (mem ph) = entry (mem ph) t ?x"
    by (simp only: slot_index entry_def)
  have ev: "entry (mem ph) t ?x = (case T (p @ [?x]) of None \<Rightarrow> 0 | Some u \<Rightarrow> page_address u OR MM_TYPE_PAGE_TABLE)"
    by (rule D(6) [OF p x])
  have room': "mm_room k mm0" using room by (simp add: mm_room_def)
  show ?thesis
  proof (cases "T (p @ [?x])")
    case (Some u)
    have u: "u < N_PAGES" using D(1) Some by blast
    have "map_level (page_address t) shift va (mm0, ph) = Some (page_address u, mm0, ph)"
      using ev Some table_entry(1,2) [OF u] by (simp add: map_level_def map_table_def e)
    then show ?thesis using ok Some room' free grown_refl by (auto simp: same_user_pages_def)
  next
    case None
    have "free_pages ph \<noteq> {}" using free by auto
    then obtain u ph' where g: "get_free_page ph = (page_address u, ph')" "u \<in> free_pages ph" "u < N_PAGES"
      "memory_pages ph' = (memory_pages ph)(u := 1)"
      "\<forall>b. mem ph' b = (if in_page u b then 0 else mem ph b)" "free_pages ph' = free_pages ph - {u}"
      by (rule get_free_page_some)
    let ?m0 = "memzero (page_address u + VA_START) PAGE_SIZE (mem ph')"
    have m0: "?m0 = (\<lambda>b. if in_page u b then 0 else mem ph b)"
      by (rule ext) (simp only: memzero_in_page g(5) [rule_format] if_cancel split: if_split, simp)
    let ?ph1 = "ph'\<lparr>mem := store64 (slot t ?x) (page_address u OR 3) ?m0\<rparr>"
    obtain mm1 where mm1: "track_kernel_page (page_address u) mm0 = Some mm1" "mm_room k mm1" "pgd mm1 = pgd mm0" "same_user_pages mm0 mm1"
      using track_kernel_page_spec [OF room] by blast
    have fr: "free_pages ?ph1 = free_pages ph - {u}" using g(6) by (simp add: free_pages_def)
    note N = new_table [OF ok p x None g(2,3), of ?ph1 ?m0, OF _ m0 fr]
    have "map_level (page_address t) shift va (mm0, ph) = Some (page_address u, mm1, ?ph1)"
      using ev None mm1(1) g(1) by (simp add: map_level_def map_table_def Let_def slot_index flip: entry_def)
    moreover have "n \<le> card (free_pages ?ph1)" unfolding fr using free g(2) by (simp add: card_Diff_singleton)
    ultimately show ?thesis using N mm1 by (intro exI conjI) (assumption | simp)+
  qed
qed

end
