(* ===== verification/Page_Mapping.thy ===== *)
theory Page_Mapping
  imports Page_Tables
begin

section \<open>Mapping a page\<close>

text \<open>
  \<^verbatim>\<open>map_page\<close> as an operation on the tree of tables, and what the MMU translates afterwards.
\<close>

definition rooted :: "mm_struct \<Rightarrow> table_tree \<Rightarrow> bool" where
  "rooted mm0 T \<longleftrightarrow> (if pgd mm0 = 0 then T = Map.empty else \<exists>r. T [] = Some r \<and> pgd mm0 = page_address r)"

text \<open>The tree has grown, one last-level entry is written, and nothing else has changed.\<close>

definition mapped :: "64 word \<Rightarrow> 64 word \<Rightarrow> table_tree \<Rightarrow> phys_memory \<Rightarrow> table_tree \<Rightarrow> phys_memory \<Rightarrow> bool" where
  "mapped va page T ph T' ph' \<longleftrightarrow>
     (\<forall>p t. T p = Some t \<longrightarrow> T' p = Some t) \<and> T' (table_path va) \<noteq> None \<and>
     (\<forall>p t. T p = None \<and> T' p = Some t \<longrightarrow> t \<in> free_pages ph) \<and> free_pages ph' \<subseteq> free_pages ph \<and>
     (\<forall>p t x. T' p = Some t \<and> length p = 3 \<and> x < 512 \<longrightarrow> entry (mem ph') t x =
        (if p = table_path va \<and> x = path_index va PAGE_SHIFT then page OR MMU_PTE_FLAGS
         else if T p = None then 0 else entry (mem ph) t x)) \<and>
     (\<forall>b. (\<forall>p t. T' p = Some t \<longrightarrow> \<not> in_page t b) \<longrightarrow> mem ph' b = mem ph b)"

definition user_room :: "mm_struct \<Rightarrow> bool" where
  "user_room mm0 \<longleftrightarrow> length (user_pages mm0) = MAX_PROCESS_PAGES \<and> 0 \<le> n_user_pages mm0 \<and>
     n_user_pages mm0 < int MAX_PROCESS_PAGES"

definition user_page_added :: "user_page \<Rightarrow> mm_struct \<Rightarrow> mm_struct \<Rightarrow> bool" where
  "user_page_added pg mm0 mm1 \<longleftrightarrow> n_user_pages mm1 = n_user_pages mm0 + 1 \<and>
     user_pages mm1 = (user_pages mm0)[nat (n_user_pages mm0) := pg]"

subsection \<open>The root table\<close>

definition get_root :: "mm_struct \<times> phys_memory \<Rightarrow> (mm_struct \<times> phys_memory) option" where
  "get_root = (\<lambda>(mm0, ph0).
     if pgd mm0 = 0
     then let (page, ph1) = get_free_page ph0 in do {
       mm1 \<leftarrow> track_kernel_page page (mm0\<lparr>pgd := page\<rparr>);
       Some (mm1, ph1\<lparr>mem := memzero (page + VA_START) PAGE_SIZE (mem ph1)\<rparr>)
     }
     else Some (mm0, ph0))"

lemma get_root_spec:
  assumes ok: "tables_ok ph T" "rooted mm0 T" and room: "mm_room (Suc k) mm0" and free: "Suc n \<le> card (free_pages ph)"
  shows "\<exists>r T' mm1 ph1. get_root (mm0, ph) = Some (mm1, ph1) \<and> tables_ok ph1 T' \<and> grown T ph T' ph1 \<and>
    T' [] = Some r \<and> pgd mm1 = page_address r \<and> mm_room k mm1 \<and> same_user_pages mm0 mm1 \<and> n \<le> card (free_pages ph1)"
proof (cases "pgd mm0 = 0")
  case False
  then obtain r where "T [] = Some r" "pgd mm0 = page_address r" using ok(2) by (auto simp: rooted_def)
  moreover have "mm_room k mm0" using room by (simp add: mm_room_def)
  ultimately show ?thesis using False ok(1) free grown_refl by (auto simp: get_root_def same_user_pages_def)
next
  case True
  then have T: "T = Map.empty" using ok(2) by (simp add: rooted_def)
  have "free_pages ph \<noteq> {}" using free by auto
  then obtain u ph' where g: "get_free_page ph = (page_address u, ph')" "u \<in> free_pages ph" "u < N_PAGES"
    "memory_pages ph' = (memory_pages ph)(u := 1)"
    "\<forall>b. mem ph' b = (if in_page u b then 0 else mem ph b)" "free_pages ph' = free_pages ph - {u}"
    by (rule get_free_page_some)
  let ?ph1 = "ph'\<lparr>mem := memzero (page_address u + VA_START) PAGE_SIZE (mem ph')\<rparr>"
  have m1: "mem ?ph1 b = (if in_page u b then 0 else mem ph b)" for b
    using g(5) by (simp add: memzero_in_page)
  have fr: "free_pages ?ph1 = free_pages ph - {u}" using g(6) by (simp add: free_pages_def)
  have "mm_room (Suc k) (mm0\<lparr>pgd := page_address u\<rparr>)" using room by (simp add: mm_room_def)
  then obtain mm1 where mm1: "track_kernel_page (page_address u) (mm0\<lparr>pgd := page_address u\<rparr>) = Some mm1" "mm_room k mm1"
      "pgd mm1 = page_address u" "same_user_pages (mm0\<lparr>pgd := page_address u\<rparr>) mm1"
    using track_kernel_page_spec [of k "mm0\<lparr>pgd := page_address u\<rparr>"] by auto
  have "entry (mem ?ph1) u x = 0" if "x < 512" for x
    by (rule entry_cleared) (use m1 g(3) that in simp_all)
  then have "tables_ok ?ph1 [[] \<mapsto> u]" using g(3) unfolding tables_ok_def table_rep_def fr by auto
  moreover have "grown T ph [[] \<mapsto> u] ?ph1" using T g(2) m1 fr by (auto simp: grown_def)
  moreover have "get_root (mm0, ph) = Some (mm1, ?ph1)" using True g(1) mm1(1) by (simp add: get_root_def)
  moreover have "n \<le> card (free_pages ?ph1)" unfolding fr using free g(2) by (simp add: card_Diff_singleton)
  ultimately show ?thesis using mm1(2-4) by (intro exI conjI) (assumption | simp add: same_user_pages_def)+
qed

subsection \<open>The whole operation\<close>

lemma map_page_mm_eq:
  "map_page_mm va page (mm0, ph0) = do {
     (mm1, ph1) \<leftarrow> get_root (mm0, ph0);
     (pud, mm2, ph2) \<leftarrow> map_level (pgd mm1) PGD_SHIFT va (mm1, ph1);
     (pmd, mm3, ph3) \<leftarrow> map_level pud PUD_SHIFT va (mm2, ph2);
     (pte, mm4, ph4) \<leftarrow> map_level pmd PMD_SHIFT va (mm3, ph3);
     mm5 \<leftarrow> track_user_page \<lparr>physical_address = page, virtual_address = va\<rparr> mm4;
     Some (mm5, map_table_entry (pte + VA_START) va page ph4)
   }"
  by (simp add: map_page_mm_def get_root_def)

lemma track_user_page_spec:
  assumes "user_room mm0"
  shows "\<exists>mm1. track_user_page pg mm0 = Some mm1 \<and> user_page_added pg mm0 mm1 \<and> pgd mm1 = pgd mm0"
  using assms by (auto simp: track_user_page_def user_room_def aset_def user_page_added_def nat_less_iff)

lemma last_level_store:
  assumes ok: "tables_ok ph T" and p: "T p = Some t" "length p = 3" "x < 512"
    and m: "ph' = ph\<lparr>mem := store64 (slot t x) v (mem ph)\<rparr>"
  shows "tables_ok ph' T" "free_pages ph' = free_pages ph"
    "\<And>q w y. T q = Some w \<Longrightarrow> y < 512 \<Longrightarrow> entry (mem ph') w y = (if q = p \<and> y = x then v else entry (mem ph) w y)"
    "\<And>b. \<not> in_page t b \<Longrightarrow> mem ph' b = mem ph b"
proof -
  note D = tables_okD [OF ok]
  have t: "t < N_PAGES" using D(1) p(1) by blast
  show ent: "entry (mem ph') w y = (if q = p \<and> y = x then v else entry (mem ph) w y)" if q: "T q = Some w" "y < 512" for q w y
  proof -
    have w: "w < N_PAGES" using D(1) q(1) by blast
    have "w = t \<longleftrightarrow> q = p"
    proof
      assume "w = t"
      then have "T p = Some w" using p(1) by simp
      then show "q = p" by (rule D(4) [OF q(1)])
    next
      assume "q = p"
      then show "w = t" using q(1) p(1) by simp
    qed
    then show ?thesis using entry_store [OF w q(2) t p(3)] by (auto simp: m)
  qed
  show fr: "free_pages ph' = free_pages ph" by (simp add: m free_pages_def)
  show "mem ph' b = mem ph b" if "\<not> in_page t b" for b
    using store_in_page [OF t p(3), of v "mem ph" b] that by (auto simp: m)
  have "entry (mem ph') w y = entry (mem ph) w y" if "T q = Some w" "length q < 3" "y < 512" for q w y
    using ent [OF that(1,3)] that(2) p(2) by auto
  then have "table_rep (mem ph') T"
    using ok unfolding tables_ok_def table_rep_def by (elim conjE) (intro conjI, assumption+, metis)
  then show "tables_ok ph' T" using ok unfolding tables_ok_def fr by simp
qed

lemma map_page_mm_spec:
  assumes ok: "tables_ok ph T" "rooted mm0 T" and room: "mm_room 4 mm0" "user_room mm0" and free: "4 + n \<le> card (free_pages ph)"
  shows "\<exists>mm1 ph1 T'. map_page_mm va page (mm0, ph) = Some (mm1, ph1) \<and> tables_ok ph1 T' \<and> rooted mm1 T' \<and> pgd mm1 \<noteq> 0 \<and> n \<le> card (free_pages ph1) \<and>
    mapped va page T ph T' ph1 \<and> user_page_added \<lparr>physical_address = page, virtual_address = va\<rparr> mm0 mm1"
proof -
  let ?i = "path_index va PGD_SHIFT" and ?j = "path_index va PUD_SHIFT" and ?k = "path_index va PMD_SHIFT" and ?l = "path_index va PAGE_SHIFT"
  have r4: "mm_room (Suc 3) mm0" "Suc (3 + n) \<le> card (free_pages ph)" using room free by simp_all
  obtain r T1 mm1 ph1 where 1: "get_root (mm0, ph) = Some (mm1, ph1)" "tables_ok ph1 T1" "grown T ph T1 ph1"
    "T1 [] = Some r" "pgd mm1 = page_address r" "mm_room 3 mm1" "same_user_pages mm0 mm1" "3 + n \<le> card (free_pages ph1)"
    using get_root_spec [OF ok r4] by blast
  have r3: "mm_room (Suc 2) mm1" "Suc (2 + n) \<le> card (free_pages ph1)" using 1(6,8) by simp_all
  obtain a T2 mm2 ph2 where 2: "map_level (page_address r) PGD_SHIFT va (mm1, ph1) = Some (page_address a, mm2, ph2)"
    "tables_ok ph2 T2" "grown T1 ph1 T2 ph2" "T2 ([] @ [?i]) = Some a" "mm_room 2 mm2" "pgd mm2 = pgd mm1"
    "same_user_pages mm1 mm2" "2 + n \<le> card (free_pages ph2)"
    using map_level_spec [OF 1(2,4) _ r3, of PGD_SHIFT va] by auto
  have r2: "mm_room (Suc 1) mm2" "Suc (1 + n) \<le> card (free_pages ph2)" using 2(5,8) by (simp_all add: mm_room_def)
  obtain b T3 mm3 ph3 where 3: "map_level (page_address a) PUD_SHIFT va (mm2, ph2) = Some (page_address b, mm3, ph3)"
    "tables_ok ph3 T3" "grown T2 ph2 T3 ph3" "T3 (([] @ [?i]) @ [?j]) = Some b" "mm_room 1 mm3" "pgd mm3 = pgd mm2"
    "same_user_pages mm2 mm3" "1 + n \<le> card (free_pages ph3)"
    using map_level_spec [OF 2(2,4) _ r2, of PUD_SHIFT va] by auto
  have r1: "mm_room (Suc 0) mm3" "Suc n \<le> card (free_pages ph3)" using 3(5,8) by (simp_all add: mm_room_def)
  obtain c T4 mm4 ph4 where 4: "map_level (page_address b) PMD_SHIFT va (mm3, ph3) = Some (page_address c, mm4, ph4)"
    "tables_ok ph4 T4" "grown T3 ph3 T4 ph4" "T4 ((([] @ [?i]) @ [?j]) @ [?k]) = Some c" "pgd mm4 = pgd mm3"
    "same_user_pages mm3 mm4" "n \<le> card (free_pages ph4)"
    using map_level_spec [OF 3(2,4) _ r1, of PMD_SHIFT va] by auto
  have g: "grown T ph T4 ph4" using grown_trans [OF grown_trans [OF grown_trans [OF 1(3) 2(3)] 3(3)] 4(3)] .
  have path: "T4 (table_path va) = Some c" "length (table_path va) = 3" using 4(4) by (simp_all add: table_path_def)
  have su: "same_user_pages mm0 mm4" using 1(7) 2(7) 3(7) 4(6) by (simp add: same_user_pages_def)
  then have "user_room mm4" using room(2) by (simp add: same_user_pages_def user_room_def)
  then obtain mm5 where 5: "track_user_page \<lparr>physical_address = page, virtual_address = va\<rparr> mm4 = Some mm5"
      "user_page_added \<lparr>physical_address = page, virtual_address = va\<rparr> mm4 mm5" "pgd mm5 = pgd mm4"
    using track_user_page_spec by blast
  have l: "?l < 512" by (rule path_index_bound)
  let ?ph5 = "map_table_entry (page_address c + VA_START) va page ph4"
  have ph5: "?ph5 = ph4\<lparr>mem := store64 (slot c ?l) (page OR MMU_PTE_FLAGS) (mem ph4)\<rparr>"
    by (simp add: map_table_entry_def slot_index)
  note L = last_level_store [OF 4(2) path l ph5]
  have pg: "pgd mm5 = page_address r" using 5(3) 4(5) 3(6) 2(6) 1(5) by simp
  have c4: "T4 [] = Some r" using 1(4) 2(3) 3(3) 4(3) by (simp add: grown_def)
  have rN: "r < N_PAGES" using tables_okD(1) [OF 4(2) c4] .
  note G = g [unfolded grown_def]
  have "mapped va page T ph T4 ?ph5"
    unfolding mapped_def
  proof (intro conjI allI impI)
    show "free_pages ?ph5 \<subseteq> free_pages ph" using G L(2) by simp
    show "T4 (table_path va) \<noteq> None" using path by simp
  next
    fix p t and x :: nat assume a: "T4 p = Some t \<and> length p = 3 \<and> x < 512"
    have "entry (mem ph4) t x = (if T p = None then 0 else entry (mem ph) t x)" using G a by blast
    moreover have "entry (mem ?ph5) t x = (if p = table_path va \<and> x = ?l then page OR MMU_PTE_FLAGS else entry (mem ph4) t x)"
      by (rule L(3)) (use a in simp_all)
    ultimately show "entry (mem ?ph5) t x = (if p = table_path va \<and> x = ?l then page OR MMU_PTE_FLAGS
         else if T p = None then 0 else entry (mem ph) t x)" by simp
  next
    fix d assume a: "\<forall>p t. T4 p = Some t \<longrightarrow> \<not> in_page t d"
    have "mem ?ph5 d = mem ph4 d" using L(4) a path(1) by blast
    also have "\<dots> = mem ph d" using G a by blast
    finally show "mem ?ph5 d = mem ph d" .
  qed (use G in blast)+
  moreover have "map_page_mm va page (mm0, ph) = Some (mm5, ?ph5)"
    unfolding map_page_mm_eq using 1(1,5) 2(1) 3(1) 4(1) 5(1) by simp
  moreover have "rooted mm5 T4" "pgd mm5 \<noteq> 0" using pg c4 page_address_nonzero [OF rN] by (auto simp: rooted_def)
  moreover have "user_page_added \<lparr>physical_address = page, virtual_address = va\<rparr> mm0 mm5"
    using 5(2) su by (simp add: user_page_added_def same_user_pages_def)
  moreover have "n \<le> card (free_pages ?ph5)" using 4(7) L(2) by simp
  ultimately show ?thesis using L(1) by blast
qed

text \<open>When the tables of the path exist, only the last-level entry is written.\<close>

lemma map_level_existing:
  assumes ok: "tables_ok ph T" and p: "T p = Some t" "length p < 3" and u: "T (p @ [path_index va shift]) = Some u"
  shows "map_level (page_address t) shift va (mm0, ph) = Some (page_address u, mm0, ph)"
proof -
  note D = tables_okD [OF ok]
  have e: "load64 (slot t (path_index va shift)) (mem ph) = page_address u OR 3"
    using D(6) [OF p path_index_bound [of va shift]] u by (simp add: entry_def)
  show ?thesis using table_entry(1,2) [OF D(1) [OF u]] by (simp add: map_level_def map_table_def slot_index e)
qed

lemma tables_prefix:
  assumes "tables_ok ph T" "T (table_path va) = Some c"
  obtains r a b where "T [] = Some r" "T ([] @ [path_index va PGD_SHIFT]) = Some a"
    "T (([] @ [path_index va PGD_SHIFT]) @ [path_index va PUD_SHIFT]) = Some b"
    "T ((([] @ [path_index va PGD_SHIFT]) @ [path_index va PUD_SHIFT]) @ [path_index va PMD_SHIFT]) = Some c"
proof -
  note D = tables_okD(5) [OF assms(1)]
  have c: "T ((([] @ [path_index va PGD_SHIFT]) @ [path_index va PUD_SHIFT]) @ [path_index va PMD_SHIFT]) = Some c"
    using assms(2) by (simp add: table_path_def)
  then obtain b where b: "T (([] @ [path_index va PGD_SHIFT]) @ [path_index va PUD_SHIFT]) = Some b" using D by (metis option.exhaust option.distinct(1))
  then obtain a where a: "T ([] @ [path_index va PGD_SHIFT]) = Some a" using D by (metis option.exhaust option.distinct(1))
  then obtain r where "T [] = Some r" using D by (metis option.exhaust option.distinct(1))
  with a b c show thesis using that by blast
qed

lemma map_page_mm_existing:
  assumes ok: "tables_ok ph T" "rooted mm0 T" "pgd mm0 \<noteq> 0" and path: "T (table_path va) = Some c" and room: "user_room mm0"
  shows "\<exists>mm1 ph1. map_page_mm va page (mm0, ph) = Some (mm1, ph1) \<and> tables_ok ph1 T \<and> pgd mm1 = pgd mm0 \<and>
    mapped va page T ph T ph1 \<and> free_pages ph1 = free_pages ph \<and>
    user_page_added \<lparr>physical_address = page, virtual_address = va\<rparr> mm0 mm1"
proof -
  obtain r a b where t: "T [] = Some r" "T ([] @ [path_index va PGD_SHIFT]) = Some a"
    "T (([] @ [path_index va PGD_SHIFT]) @ [path_index va PUD_SHIFT]) = Some b"
    "T ((([] @ [path_index va PGD_SHIFT]) @ [path_index va PUD_SHIFT]) @ [path_index va PMD_SHIFT]) = Some c"
    by (rule tables_prefix [OF ok(1) path])
  have root: "pgd mm0 = page_address r" using ok(2,3) t(1) by (auto simp: rooted_def)
  obtain mm5 where 5: "track_user_page \<lparr>physical_address = page, virtual_address = va\<rparr> mm0 = Some mm5"
      "user_page_added \<lparr>physical_address = page, virtual_address = va\<rparr> mm0 mm5" "pgd mm5 = pgd mm0"
    using track_user_page_spec [OF room] by blast
  let ?l = "path_index va PAGE_SHIFT" and ?ph5 = "map_table_entry (page_address c + VA_START) va page ph"
  have l: "?l < 512" by (rule path_index_bound)
  have ph5: "?ph5 = ph\<lparr>mem := store64 (slot c ?l) (page OR MMU_PTE_FLAGS) (mem ph)\<rparr>"
    by (simp add: map_table_entry_def slot_index)
  note L = last_level_store [OF ok(1) path _ l ph5]
  have len: "length (table_path va) = 3" by (simp add: table_path_def)
  have "map_page_mm va page (mm0, ph) = Some (mm5, ?ph5)"
    using 5(1) ok(3) map_level_existing [OF ok(1) t(1) _ t(2), of mm0] map_level_existing [OF ok(1) t(2) _ t(3), of mm0]
      map_level_existing [OF ok(1) t(3) _ t(4), of mm0]
    by (simp add: map_page_mm_eq get_root_def root)
  moreover have "mapped va page T ph T ?ph5"
    unfolding mapped_def
  proof (intro conjI allI impI)
    fix p t and x :: nat assume a: "T p = Some t \<and> length p = 3 \<and> x < 512"
    have "entry (mem ?ph5) t x = (if p = table_path va \<and> x = ?l then page OR MMU_PTE_FLAGS else entry (mem ph) t x)"
      by (rule L(3) [OF len]) (use a in simp_all)
    then show "entry (mem ?ph5) t x = (if p = table_path va \<and> x = ?l then page OR MMU_PTE_FLAGS
         else if T p = None then 0 else entry (mem ph) t x)" using a by simp
  next
    fix d assume "\<forall>p t. T p = Some t \<longrightarrow> \<not> in_page t d"
    then show "mem ?ph5 d = mem ph d" using L(4) [OF len] path by blast
  next
    show "T (table_path va) \<noteq> None" using path by simp
    show "free_pages ?ph5 \<subseteq> free_pages ph" using L(2) [OF len] by simp
  qed (simp | force)+
  ultimately show ?thesis using L(1,2) [OF len] 5(2,3) by auto
qed

subsection \<open>Translation\<close>

lemma descend_table:
  assumes ok: "tables_ok ph T" and p: "T p = Some t" "length p < 3"
  shows "descend (mem ph) (page_address t) va shift = map_option page_address (T (p @ [path_index va shift]))"
proof -
  note D = tables_okD [OF ok]
  have e: "load64 (slot t (path_index va shift)) (mem ph) =
      (case T (p @ [path_index va shift]) of None \<Rightarrow> 0 | Some u \<Rightarrow> page_address u OR 3)"
    using D(6) [OF p path_index_bound [of va shift]] by (simp add: entry_def)
  show ?thesis
  proof (cases "T (p @ [path_index va shift])")
    case None
    then show ?thesis by (simp add: descend_def slot_index e)
  next
    case (Some u)
    then show ?thesis using table_entry(3,4) [OF D(1) [OF Some]] by (simp add: descend_def slot_index e)
  qed
qed

definition leaf :: "64 word \<Rightarrow> 64 word option" where
  "leaf e = (if e AND 3 = 3 then Some (e AND 0x0000fffffffff000) else None)"

lemma translate_tree:
  assumes ok: "tables_ok ph T" and r: "T [] = Some r"
  shows "translate (mem ph) (page_address r) va =
    Option.bind (T (table_path va)) (\<lambda>v.
      Option.bind (leaf (entry (mem ph) v (path_index va PAGE_SHIFT))) (\<lambda>page. Some (page OR (va AND 0xfff))))"
proof -
  let ?i = "path_index va PGD_SHIFT" and ?j = "path_index va PUD_SHIFT" and ?k = "path_index va PMD_SHIFT"
  note D = tables_okD(5) [OF ok]
  have d1: "descend (mem ph) (page_address r) va PGD_SHIFT = map_option page_address (T [?i])"
    using descend_table [OF ok r] by simp
  show ?thesis
  proof (cases "T [?i]")
    case None
    then have "T (table_path va) = None" using D [of "[?i]" ?j] D [of "[?i, ?j]" ?k] by (simp add: table_path_def)
    then show ?thesis using None d1 by (simp add: translate_def)
  next
    case a: (Some a)
    have d2: "descend (mem ph) (page_address a) va PUD_SHIFT = map_option page_address (T [?i, ?j])"
      using descend_table [OF ok a] by simp
    show ?thesis
    proof (cases "T [?i, ?j]")
      case None
      then have "T (table_path va) = None" using D [of "[?i, ?j]" ?k] by (simp add: table_path_def)
      then show ?thesis using None a d1 d2 by (simp add: translate_def)
    next
      case b: (Some b)
      have d3: "descend (mem ph) (page_address b) va PMD_SHIFT = map_option page_address (T (table_path va))"
        using descend_table [OF ok b] by (simp add: table_path_def)
      have d4: "descend (mem ph) (page_address c) va PAGE_SHIFT = leaf (entry (mem ph) c (path_index va PAGE_SHIFT))" for c
        by (simp add: descend_def leaf_def slot_index flip: entry_def)
      show ?thesis using a b d1 d2 d3 by (cases "T (table_path va)") (simp_all add: translate_def d4)
    qed
  qed
qed

text \<open>Addresses with the same indices are in the same page of the 48-bit address space.\<close>

definition same_page :: "64 word \<Rightarrow> 64 word \<Rightarrow> bool" where
  "same_page va va' \<longleftrightarrow> drop_bit 12 (take_bit 48 va) = drop_bit 12 (take_bit 48 va')"

lemma path_index_bits: "path_index va shift = path_index va' shift \<longleftrightarrow> (\<forall>n < 9. bit va (shift + n) = bit va' (shift + n))"
proof -
  have t: "table_index va shift = take_bit 9 (drop_bit shift va)" for va
    by (simp add: table_index_def take_bit_eq_mask mask_numeral)
  have "path_index va shift = path_index va' shift \<longleftrightarrow> table_index va shift = table_index va' shift"
    unfolding path_index_def by (simp only: word_unat_eq_iff)
  also have "\<dots> \<longleftrightarrow> (\<forall>n < 9. bit va (shift + n) = bit va' (shift + n))"
  proof
    assume e: "table_index va shift = table_index va' shift"
    show "\<forall>n < 9. bit va (shift + n) = bit va' (shift + n)"
    proof (intro allI impI)
      fix n :: nat assume "n < 9"
      moreover have "bit (table_index va shift) n = bit (table_index va' shift) n" using e by simp
      ultimately show "bit va (shift + n) = bit va' (shift + n)" by (simp add: t bit_take_bit_iff bit_drop_bit_eq)
    qed
  next
    assume "\<forall>n < 9. bit va (shift + n) = bit va' (shift + n)"
    then show "table_index va shift = table_index va' shift"
      by (intro bit_eqI) (auto simp: t bit_take_bit_iff bit_drop_bit_eq)
  qed
  finally show ?thesis .
qed

lemma same_page_path:
  "same_page va va' \<longleftrightarrow> table_path va = table_path va' \<and> path_index va PAGE_SHIFT = path_index va' PAGE_SHIFT"
proof
  assume s: "same_page va va'"
  have bits: "bit va (12 + n) = bit va' (12 + n)" if "n < 36" for n
  proof -
    have "bit (drop_bit 12 (take_bit 48 va)) n = bit (drop_bit 12 (take_bit 48 va')) n"
      using s by (simp add: same_page_def)
    then show ?thesis using that by (simp add: bit_take_bit_iff bit_drop_bit_eq)
  qed
  have "bit va (sh + n) = bit va' (sh + n)" if "n < 9" "12 \<le> sh" "sh \<le> 39" for sh n
    using bits [of "sh - 12 + n"] that by simp
  then show "table_path va = table_path va' \<and> path_index va PAGE_SHIFT = path_index va' PAGE_SHIFT"
    unfolding table_path_def list.inject path_index_bits by simp
next
  assume "table_path va = table_path va' \<and> path_index va PAGE_SHIFT = path_index va' PAGE_SHIFT"
  then have i: "\<forall>n < 9. bit va (39 + n) = bit va' (39 + n)" "\<forall>n < 9. bit va (30 + n) = bit va' (30 + n)"
    "\<forall>n < 9. bit va (21 + n) = bit va' (21 + n)" "\<forall>n < 9. bit va (12 + n) = bit va' (12 + n)"
    unfolding table_path_def list.inject path_index_bits by simp_all
  have "bit va m = bit va' m" if "12 \<le> m" "m < 48" for m
  proof -
    consider "m < 21" | "21 \<le> m" "m < 30" | "30 \<le> m" "m < 39" | "39 \<le> m" by linarith
    then show ?thesis
    proof cases
      case 1
      then show ?thesis using i(4) [rule_format, of "m - 12"] that by simp
    next
      case 2
      then show ?thesis using i(3) [rule_format, of "m - 21"] that by simp
    next
      case 3
      then show ?thesis using i(2) [rule_format, of "m - 30"] that by simp
    next
      case 4
      then show ?thesis using i(1) [rule_format, of "m - 39"] that by simp
    qed
  qed
  then show "same_page va va'"
    unfolding same_page_def by (intro bit_eqI) (auto simp: bit_take_bit_iff bit_drop_bit_eq)
qed

lemma mapped_translate:
  assumes ok: "tables_ok ph T" "rooted mm0 T" and ok': "tables_ok ph' T'" "rooted mm1 T'" "pgd mm1 \<noteq> 0"
    and m: "mapped va page T ph T' ph'" and pg: "page = page_address i" "i < N_PAGES"
  shows "translate (mem ph') (pgd mm1) va' =
    (if same_page va va' then Some (page OR (va' AND 0xfff))
     else if pgd mm0 = 0 then None else translate (mem ph) (pgd mm0) va')"
proof -
  obtain r where r: "T' [] = Some r" "pgd mm1 = page_address r" using ok'(2,3) by (auto simp: rooted_def)
  note M = m [unfolded mapped_def]
  have tr: "translate (mem ph') (pgd mm1) va' = Option.bind (T' (table_path va')) (\<lambda>v.
      Option.bind (leaf (entry (mem ph') v (path_index va' PAGE_SHIFT))) (\<lambda>page. Some (page OR (va' AND 0xfff))))"
    unfolding r(2) by (rule translate_tree [OF ok'(1) r(1)])
  have ent: "entry (mem ph') v (path_index va' PAGE_SHIFT) = (if same_page va va' then page OR MMU_PTE_FLAGS
      else if T (table_path va') = None then 0 else entry (mem ph) v (path_index va' PAGE_SHIFT))"
    if "T' (table_path va') = Some v" for v
  proof -
    have "length (table_path va') = 3" by (simp add: table_path_def)
    then have "entry (mem ph') v (path_index va' PAGE_SHIFT) =
        (if table_path va' = table_path va \<and> path_index va' PAGE_SHIFT = path_index va PAGE_SHIFT then page OR MMU_PTE_FLAGS
         else if T (table_path va') = None then 0 else entry (mem ph) v (path_index va' PAGE_SHIFT))"
      using M that path_index_bound by blast
    then show ?thesis unfolding same_page_path by (auto split: if_splits)
  qed
  show ?thesis
  proof (cases "same_page va va'")
    case True
    then have p: "table_path va' = table_path va" unfolding same_page_path by simp
    obtain v where "T' (table_path va') = Some v" using M unfolding p by blast
    then show ?thesis unfolding tr using True ent table_entry(5,6) [OF pg(2)] by (simp add: leaf_def pg(1))
  next
    case False
    have z: "leaf 0 = None" by (simp add: leaf_def)
    have e: "translate (mem ph') (pgd mm1) va' = Option.bind (T (table_path va')) (\<lambda>v.
      Option.bind (leaf (entry (mem ph) v (path_index va' PAGE_SHIFT))) (\<lambda>page. Some (page OR (va' AND 0xfff))))"
    proof (cases "T' (table_path va')")
      case None
      then have "T (table_path va') = None" using M by (metis option.exhaust)
      then show ?thesis unfolding tr using None by simp
    next
      case (Some v)
      show ?thesis
      proof (cases "T (table_path va')")
        case None
        then show ?thesis unfolding tr using Some ent [OF Some] False z by simp
      next
        case (Some w)
        then have "T' (table_path va') = Some w" using M by blast
        then show ?thesis unfolding tr using Some ent False by simp
      qed
    qed
    show ?thesis
    proof (cases "pgd mm0 = 0")
      case True
      then have "T = Map.empty" using ok(2) by (simp add: rooted_def)
      then show ?thesis unfolding e using True False by simp
    next
      case nz: False
      then obtain r0 where r0: "T [] = Some r0" "pgd mm0 = page_address r0" using ok(2) by (auto simp: rooted_def)
      show ?thesis unfolding e using nz False translate_tree [OF ok(1) r0(1)] r0(2) by simp
    qed
  qed
qed

end
