(* ===== verification/Memory_Copy.thy ===== *)
theory Memory_Copy
  imports Page_Mapping
begin

section \<open>User pages: allocation and the copy for a new process\<close>

text \<open>
  \<^verbatim>\<open>allocate_user_page\<close> and \<^verbatim>\<open>copy_virtual_memory\<close> on the tree of tables.
\<close>

subsection \<open>Memory outside the tables\<close>

lemma tables_frame:
  assumes ok: "tables_ok ph T" and m: "\<forall>p t b. T p = Some t \<and> in_page t b \<longrightarrow> mem ph' b = mem ph b"
    and fr: "free_pages ph' \<subseteq> free_pages ph"
  shows "tables_ok ph' T" "T p = Some t \<Longrightarrow> x < 512 \<Longrightarrow> entry (mem ph') t x = entry (mem ph) t x"
proof -
  have e: "entry (mem ph') t x = entry (mem ph) t x" if "T p = Some t" "x < 512" for p t x
    by (rule entry_cong) (use m that tables_okD(1) [OF ok] in blast)+
  then show "T p = Some t \<Longrightarrow> x < 512 \<Longrightarrow> entry (mem ph') t x = entry (mem ph) t x" .
  have "table_rep (mem ph') T"
    using ok e unfolding tables_ok_def table_rep_def by (elim conjE) (intro conjI, assumption+, metis)
  moreover have "\<forall>p t. T p = Some t \<longrightarrow> t \<notin> free_pages ph'" using tables_okD(3) [OF ok] fr by blast
  ultimately show "tables_ok ph' T" by (simp add: tables_ok_def)
qed

lemma translate_frame:
  assumes ok: "tables_ok ph T" and m: "\<forall>p t b. T p = Some t \<and> in_page t b \<longrightarrow> mem ph' b = mem ph b"
    and fr: "free_pages ph' \<subseteq> free_pages ph" and r: "T [] = Some r"
  shows "translate (mem ph') (page_address r) va = translate (mem ph) (page_address r) va"
proof -
  note F = tables_frame [OF ok m fr]
  have "entry (mem ph') v (path_index va PAGE_SHIFT) = entry (mem ph) v (path_index va PAGE_SHIFT)"
    if "T (table_path va) = Some v" for v
    by (rule F(2) [OF that path_index_bound])
  then show ?thesis unfolding translate_tree [OF F(1) r] translate_tree [OF ok r]
    by (cases "T (table_path va)") simp_all
qed

subsection \<open>One user page\<close>

definition fresh_page_mapped ::
  "64 word \<Rightarrow> nat \<Rightarrow> mm_struct \<Rightarrow> table_tree \<Rightarrow> phys_memory \<Rightarrow> mm_struct \<Rightarrow> table_tree \<Rightarrow> phys_memory \<Rightarrow> bool" where
  "fresh_page_mapped va u mm0 T ph mm1 T' ph1 \<longleftrightarrow>
     u \<in> free_pages ph \<and> free_pages ph1 \<subseteq> free_pages ph - {u} \<and>
     tables_ok ph1 T' \<and> rooted mm1 T' \<and> pgd mm1 \<noteq> 0 \<and> T' (table_path va) \<noteq> None \<and> (\<forall>q. T' q \<noteq> Some u) \<and>
     (\<forall>q t. T q = Some t \<longrightarrow> T' q = Some t) \<and> (\<forall>q t. T q = None \<and> T' q = Some t \<longrightarrow> t \<in> free_pages ph) \<and>
     user_page_added \<lparr>physical_address = page_address u, virtual_address = va\<rparr> mm0 mm1 \<and>
     (\<forall>b. \<not> in_page u b \<and> (\<forall>q t. T' q = Some t \<longrightarrow> \<not> in_page t b) \<longrightarrow> mem ph1 b = mem ph b) \<and>
     (\<forall>va'. translate (mem ph1) (pgd mm1) va' =
        (if same_page va va' then Some (page_address u OR (va' AND 0xfff))
         else if pgd mm0 = 0 then None else translate (mem ph) (pgd mm0) va'))"

lemma allocate_user_page_spec:
  assumes ok: "tables_ok (phys s) T" "rooted (mm (pcbs s p)) T" and room: "user_room (mm (pcbs s p))"
    and tables: "mm_room 4 (mm (pcbs s p)) \<and> 5 + n \<le> card (free_pages (phys s)) \<or>
      pgd (mm (pcbs s p)) \<noteq> 0 \<and> T (table_path va) \<noteq> None \<and> 1 + n \<le> card (free_pages (phys s))"
  shows "\<exists>u mm1 ph1 T'. allocate_user_page p va s = Some (page_base u, modify_pcb p (\<lambda>x. x\<lparr>mm := mm1\<rparr>) (s\<lparr>phys := ph1\<rparr>)) \<and>
    page_base u \<noteq> 0 \<and> n \<le> card (free_pages ph1) \<and> fresh_page_mapped va u (mm (pcbs s p)) T (phys s) mm1 T' ph1"
proof -
  let ?mm = "mm (pcbs s p)" and ?ph = "phys s"
  have "free_pages ?ph \<noteq> {}" using tables by auto
  then obtain u ph0 where g: "get_free_page ?ph = (page_address u, ph0)" "u \<in> free_pages ?ph" "u < N_PAGES"
    "memory_pages ph0 = (memory_pages ?ph)(u := 1)"
    "\<forall>b. mem ph0 b = (if in_page u b then 0 else mem ?ph b)" "free_pages ph0 = free_pages ?ph - {u}"
    by (rule get_free_page_some)
  have nu: "T q \<noteq> Some u" for q using tables_okD(3) [OF ok(1)] g(2) by blast
  have m0: "\<forall>q t b. T q = Some t \<and> in_page t b \<longrightarrow> mem ph0 b = mem ?ph b"
  proof (intro allI impI)
    fix q t b assume a: "T q = Some t \<and> in_page t b"
    then have "t \<noteq> u" "t < N_PAGES" using nu tables_okD(1) [OF ok(1)] by blast+
    then have "\<not> in_page u b" using in_page_unique [of t u b] a g(3) by blast
    then show "mem ph0 b = mem ?ph b" using g(5) by simp
  qed
  have fr0: "free_pages ph0 \<subseteq> free_pages ?ph" using g(6) by blast
  note F = tables_frame [OF ok(1) m0 fr0]
  have c0: "card (free_pages ph0) = card (free_pages ?ph) - 1" using g(2,6) by (simp add: card_Diff_singleton)
  have "\<exists>mm1 ph1 T'. map_page_mm va (page_address u) (?mm, ph0) = Some (mm1, ph1) \<and> tables_ok ph1 T' \<and> rooted mm1 T' \<and> pgd mm1 \<noteq> 0 \<and>
    n \<le> card (free_pages ph1) \<and>
    mapped va (page_address u) T ph0 T' ph1 \<and> user_page_added \<lparr>physical_address = page_address u, virtual_address = va\<rparr> ?mm mm1"
    using tables
  proof
    assume a: "mm_room 4 ?mm \<and> 5 + n \<le> card (free_pages ?ph)"
    then have "4 + n \<le> card (free_pages ph0)" using c0 by linarith
    then show ?thesis using map_page_mm_spec [OF F(1) ok(2) _ room] a by blast
  next
    assume a: "pgd ?mm \<noteq> 0 \<and> T (table_path va) \<noteq> None \<and> 1 + n \<le> card (free_pages ?ph)"
    then obtain c where c: "T (table_path va) = Some c" "pgd ?mm \<noteq> 0" by blast
    obtain mm1 ph1 where "map_page_mm va (page_address u) (?mm, ph0) = Some (mm1, ph1)" "tables_ok ph1 T" "pgd mm1 = pgd ?mm"
      "mapped va (page_address u) T ph0 T ph1" "free_pages ph1 = free_pages ph0" "user_page_added \<lparr>physical_address = page_address u, virtual_address = va\<rparr> ?mm mm1"
      using map_page_mm_existing [OF F(1) ok(2) c(2,1) room] by blast
    moreover from this have "rooted mm1 T" "pgd mm1 \<noteq> 0" using ok(2) c(2) by (simp_all add: rooted_def)
    moreover have "n \<le> card (free_pages ph0)" using a c0 by linarith
    ultimately show ?thesis by (intro exI conjI) (assumption | simp)+
  qed
  then obtain mm1 ph1 T' where m: "map_page_mm va (page_address u) (?mm, ph0) = Some (mm1, ph1)" "tables_ok ph1 T'" "rooted mm1 T'"
    "pgd mm1 \<noteq> 0" "mapped va (page_address u) T ph0 T' ph1"
    "user_page_added \<lparr>physical_address = page_address u, virtual_address = va\<rparr> ?mm mm1" "n \<le> card (free_pages ph1)" by (elim exE conjE) blast
  note M = m(5) [unfolded mapped_def]
  have nu': "T' q \<noteq> Some u" for q
  proof
    assume q: "T' q = Some u"
    show False
    proof (cases "T q")
      case None
      then have "u \<in> free_pages ph0" using M q by blast
      then show False using g(6) by blast
    next
      case (Some t)
      then have "T' q = Some t" using M by blast
      then show False using q Some nu by simp
    qed
  qed
  have tr: "translate (mem ph1) (pgd mm1) va' =
      (if same_page va va' then Some (page_address u OR (va' AND 0xfff))
       else if pgd ?mm = 0 then None else translate (mem ?ph) (pgd ?mm) va')" for va'
  proof (cases "pgd ?mm = 0")
    case True
    then show ?thesis using mapped_translate [OF F(1) ok(2) m(2-5) refl g(3)] by simp
  next
    case False
    then obtain r where r: "T [] = Some r" "pgd ?mm = page_address r" using ok(2) by (auto simp: rooted_def)
    show ?thesis unfolding mapped_translate [OF F(1) ok(2) m(2-5) refl g(3)]
      using translate_frame [OF ok(1) m0 fr0 r(1)] False r(2) by simp
  qed
  have data: "mem ph1 b = mem ?ph b" if "\<not> in_page u b" "\<forall>q t. T' q = Some t \<longrightarrow> \<not> in_page t b" for b
    using M that g(5) by simp
  have "fresh_page_mapped va u ?mm T ?ph mm1 T' ph1"
    unfolding fresh_page_mapped_def using g(2,6) m(2-4,6) nu' tr data M by (intro conjI) blast+
  moreover have "page_base u \<noteq> 0" using unat_page_base [OF g(3)] by force
  moreover have "allocate_user_page p va s = Some (page_base u, modify_pcb p (\<lambda>x. x\<lparr>mm := mm1\<rparr>) (s\<lparr>phys := ph1\<rparr>))"
    using g(1,3) m(1) by (simp add: allocate_user_page_def map_page_def page_base_def)
  ultimately show ?thesis using m(7) by blast
qed

subsection \<open>Copying one page\<close>

lemma page_offsets:
  assumes "u < N_PAGES" "in_page u b"
  shows "\<exists>d < 4096. b = page_base u + of_nat d"
  using assms by (intro exI [of _ "unat (b - page_base u)"]) (simp add: in_page_def)

lemma in_page_offset: "u < N_PAGES \<Longrightarrow> d < 4096 \<Longrightarrow> in_page u (page_base u + of_nat d)"
  by (simp add: in_page_def unat_of_nat_small)

lemma copy_page:
  assumes "u < N_PAGES" "k < N_PAGES" "u \<noteq> k"
  shows "memcpy (page_base u) (page_base k) PAGE_SIZE (memzero (page_base u) PAGE_SIZE m) b =
    (if in_page u b then m (page_base k + (b - page_base u)) else m b)"
proof -
  let ?m = "memzero (page_base u) PAGE_SIZE m"
  have dis: "\<forall>i < 4096. \<forall>j < 4096. page_base u + of_nat i \<noteq> page_base k + of_nat j"
    using in_page_offset in_page_unique assms by metis
  have "memcpy (page_base u) (page_base k) (int 4096) ?m b =
      (if unat (b - page_base u) < 4096 then ?m (page_base k + (b - page_base u)) else ?m b)"
    by (rule memcpy_apply [OF _ _ dis]) simp_all
  also have "\<dots> = (if in_page u b then ?m (page_base k + (b - page_base u)) else ?m b)" by (simp add: in_page_def)
  also have "\<dots> = (if in_page u b then m (page_base k + (b - page_base u)) else m b)"
  proof -
    have z: "?m c = (if in_page u c then 0 else m c)" for c by (simp add: memzero_page in_page_def)
    have "\<not> in_page u (page_base k + (b - page_base u))" if ip: "in_page u b"
    proof -
      obtain d where d: "d < 4096" "b = page_base u + of_nat d" using page_offsets [OF assms(1) ip] by blast
      then have "page_base k + (b - page_base u) = page_base k + of_nat d" by simp
      then show ?thesis using in_page_offset [OF assms(2) d(1)] in_page_unique assms by metis
    qed
    then show ?thesis by (simp add: z)
  qed
  finally show ?thesis by simp
qed

subsection \<open>The copy loop\<close>

text \<open>
  \<open>copied\<close>: after \<open>i\<close> passes. \<open>F\<close> are the pages that were free at the start, \<open>va\<close> and \<open>K\<close> the
  virtual address and the physical page of each source page, \<open>f\<close> the new pages.
\<close>

definition copied_page ::
  "bytes \<Rightarrow> 64 word \<Rightarrow> nat \<Rightarrow> nat \<Rightarrow> mm_struct \<Rightarrow> table_tree \<Rightarrow> phys_memory \<Rightarrow> nat set \<Rightarrow> nat \<Rightarrow> bool" where
  "copied_page m0 va K j m T ph F u \<longleftrightarrow>
     user_pages m ! j = \<lparr>physical_address = page_address u, virtual_address = va\<rparr> \<and>
     u \<in> F \<and> u \<notin> free_pages ph \<and> (\<forall>q. T q \<noteq> Some u) \<and>
     (\<forall>va'. same_page va va' \<longrightarrow> translate (mem ph) (pgd m) va' = Some (page_address u OR (va' AND 0xfff))) \<and>
     (\<forall>d < 4096. mem ph (page_base u + of_nat d) = m0 (page_base K + of_nat d))"

definition copied ::
  "bytes \<Rightarrow> (nat \<Rightarrow> 64 word) \<Rightarrow> (nat \<Rightarrow> nat) \<Rightarrow> nat list \<Rightarrow> nat \<Rightarrow> nat \<Rightarrow> mm_struct \<Rightarrow> table_tree \<Rightarrow> phys_memory \<Rightarrow> nat set \<Rightarrow> (nat \<Rightarrow> nat) \<Rightarrow> bool" where
  "copied m0 va K P n i m T ph F f \<longleftrightarrow>
     tables_ok ph T \<and> rooted m T \<and> (if i = 0 then mm_room 4 m \<and> pgd m = 0 else pgd m \<noteq> 0 \<and> T P \<noteq> None) \<and>
     length (user_pages m) = MAX_PROCESS_PAGES \<and> n_user_pages m = int i \<and>
     (\<forall>j < i. copied_page m0 (va j) (K j) j m T ph F (f j)) \<and>
     (\<forall>q t. T q = Some t \<longrightarrow> t \<in> F) \<and> free_pages ph \<subseteq> F \<and>
     (if i = 0 then 4 else 0) + (n - i) \<le> card (free_pages ph) \<and>
     (\<forall>b. (\<forall>k \<in> F. \<not> in_page k b) \<longrightarrow> mem ph b = m0 b)"

lemma same_page_trans: "same_page a c \<Longrightarrow> same_page b c \<Longrightarrow> same_page a b"
  by (simp add: same_page_def)

lemma copied_step:
  assumes inv: "copied m0 va K P n i m T ph F f" and i: "i < n" "n \<le> MAX_PROCESS_PAGES"
    and F: "\<forall>k \<in> F. k < N_PAGES" and src: "K i < N_PAGES" "K i \<notin> F" and path: "table_path (va i) = P"
    and apart: "\<forall>j < i. \<not> same_page (va j) (va i)"
    and fp: "fresh_page_mapped (va i) u m T ph m1 T1 ph1" and cd: "n - Suc i \<le> card (free_pages ph1)"
    and ph2: "ph2 = ph1\<lparr>mem := memcpy (page_base u) (page_base (K i)) PAGE_SIZE (memzero (page_base u) PAGE_SIZE (mem ph1))\<rparr>"
  shows "copied m0 va K P n (Suc i) m1 T1 ph2 F (f(i := u))"
proof -
  note I = inv [unfolded copied_def] and A = fp [unfolded fresh_page_mapped_def]
  have u: "u \<in> F" "u < N_PAGES" "u \<noteq> K i" "u \<in> free_pages ph" using I A F src by blast+
  have T1F: "t \<in> F" if "T1 q = Some t" for q t
  proof (cases "T q")
    case None
    then show ?thesis using A I that by blast
  next
    case (Some v)
    then have "T1 q = Some v" using A by blast
    then show ?thesis using I that Some by simp
  qed
  have fr: "free_pages ph2 = free_pages ph1" by (simp add: ph2 free_pages_def)
  have m2: "mem ph2 b = (if in_page u b then mem ph1 (page_base (K i) + (b - page_base u)) else mem ph1 b)" for b
    using copy_page [OF u(2) src(1) u(3)] by (simp add: ph2)
  have t2: "\<forall>q t b. T1 q = Some t \<and> in_page t b \<longrightarrow> mem ph2 b = mem ph1 b"
  proof (intro allI impI)
    fix q t b assume a: "T1 q = Some t \<and> in_page t b"
    then have "t \<noteq> u" "t < N_PAGES" using A T1F F by blast+
    then have "\<not> in_page u b" using in_page_unique [of t u b] a u(2) by blast
    then show "mem ph2 b = mem ph1 b" using m2 by simp
  qed
  have ok1: "tables_ok ph1 T1" "rooted m1 T1" "pgd m1 \<noteq> 0" using A by blast+
  have fr2: "free_pages ph2 \<subseteq> free_pages ph1" using fr by simp
  have ok2: "tables_ok ph2 T1" by (rule tables_frame(1) [OF ok1(1) t2 fr2])
  obtain r where r: "T1 [] = Some r" "pgd m1 = page_address r" using ok1(2,3) by (auto simp: rooted_def)
  have tr2: "translate (mem ph2) (pgd m1) va' = translate (mem ph1) (pgd m1) va'" for va'
    unfolding r(2) by (rule translate_frame [OF ok1(1) t2 fr2 r(1)])
  have data: "mem ph1 b = mem ph b" if "k < N_PAGES" "in_page k b" "k \<noteq> u" "\<forall>q. T1 q \<noteq> Some k" for k b
  proof -
    have "\<not> in_page u b" using in_page_unique [of k u b] that u(2) by blast
    moreover have "\<forall>q t. T1 q = Some t \<longrightarrow> \<not> in_page t b"
    proof (intro allI impI notI)
      fix q t assume "T1 q = Some t" "in_page t b"
      then have "t = k" using in_page_unique [of t k b] that(1,2) T1F F by blast
      then show False using that(4) \<open>T1 q = Some t\<close> by blast
    qed
    ultimately show ?thesis using A by blast
  qed
  have outside: "mem ph2 b = m0 b" if b: "\<forall>k \<in> F. \<not> in_page k b" for b
  proof -
    have "\<not> in_page u b" "\<forall>q t. T1 q = Some t \<longrightarrow> \<not> in_page t b" using b u(1) T1F by blast+
    then have "mem ph2 b = mem ph b" using m2 A by simp
    also have "\<dots> = m0 b" using I b by blast
    finally show ?thesis .
  qed
  have outF: "mem ph2 b = m0 b" if "k \<notin> F" "k < N_PAGES" "in_page k b" for k b
    using outside in_page_unique that F by blast
  have len: "length (user_pages m) = MAX_PROCESS_PAGES" "n_user_pages m = int i" using I by simp_all
  have pages: "user_pages m1 = (user_pages m)[i := \<lparr>physical_address = page_address u, virtual_address = va i\<rparr>]"
    "n_user_pages m1 = int (Suc i)" using A len by (simp_all add: user_page_added_def)
  have i16: "i < MAX_PROCESS_PAGES" using i by simp
  have new: "copied_page m0 (va i) (K i) i m1 T1 ph2 F u"
    unfolding copied_page_def
  proof (intro conjI allI impI)
    show "user_pages m1 ! i = \<lparr>physical_address = page_address u, virtual_address = va i\<rparr>" using pages len i16 by simp
    show "u \<in> F" by (rule u(1))
    show "u \<notin> free_pages ph2" "T1 q \<noteq> Some u" for q using A fr by blast+
    show "translate (mem ph2) (pgd m1) va' = Some (page_address u OR (va' AND 0xfff))" if "same_page (va i) va'" for va'
      unfolding tr2 using A that by simp
    fix d :: nat assume d: "d < 4096"
    have "mem ph2 (page_base u + of_nat d) = mem ph1 (page_base (K i) + of_nat d)"
      using m2 in_page_offset [OF u(2) d] by simp
    also have "\<dots> = mem ph (page_base (K i) + of_nat d)"
      by (rule data [OF src(1) in_page_offset [OF src(1) d]]) (use u(3) src(2) T1F in blast)+
    also have "\<dots> = m0 (page_base (K i) + of_nat d)"
    proof -
      have "\<forall>k \<in> F. \<not> in_page k (page_base (K i) + of_nat d)"
        using in_page_unique [OF _ src(1) _ in_page_offset [OF src(1) d]] F src(2) by blast
      then show ?thesis using I by blast
    qed
    finally show "mem ph2 (page_base u + of_nat d) = m0 (page_base (K i) + of_nat d)" .
  qed
  have old: "copied_page m0 (va j) (K j) j m1 T1 ph2 F (f j)" if j: "j < i" for j
  proof -
    have "copied_page m0 (va j) (K j) j m T ph F (f j)" using I j by blast
    note C = this [unfolded copied_page_def]
    have fj: "f j < N_PAGES" "f j \<noteq> u" using C F u(4) by blast+
    have nT: "T1 q \<noteq> Some (f j)" for q
    proof
      assume q: "T1 q = Some (f j)"
      show False
      proof (cases "T q")
        case None
        then show False using A C q by blast
      next
        case (Some v)
        then have "T1 q = Some v" using A by blast
        then show False using q C Some by simp
      qed
    qed
    show ?thesis
      unfolding copied_page_def
    proof (intro conjI allI impI)
      show "user_pages m1 ! j = \<lparr>physical_address = page_address (f j), virtual_address = va j\<rparr>" using C pages j by simp
      show "f j \<in> F" using C by blast
      show "f j \<notin> free_pages ph2" using C A fr by blast
      show "T1 q \<noteq> Some (f j)" for q by (rule nT)
    next
      fix va' assume s: "same_page (va j) va'"
      have "\<not> same_page (va i) va'" using same_page_trans [OF s] apart j by blast
      moreover have "pgd m \<noteq> 0" using I j by simp
      ultimately show "translate (mem ph2) (pgd m1) va' = Some (page_address (f j) OR (va' AND 0xfff))"
        unfolding tr2 using A C s by simp
    next
      fix d :: nat assume d: "d < 4096"
      have "\<not> in_page u (page_base (f j) + of_nat d)"
        using in_page_unique [OF fj(1) u(2) in_page_offset [OF fj(1) d]] fj(2) by blast
      then have "mem ph2 (page_base (f j) + of_nat d) = mem ph1 (page_base (f j) + of_nat d)" using m2 by simp
      also have "\<dots> = mem ph (page_base (f j) + of_nat d)"
        by (rule data [OF fj(1) in_page_offset [OF fj(1) d] fj(2)]) (use nT in blast)
      also have "\<dots> = m0 (page_base (K j) + of_nat d)" using C d by blast
      finally show "mem ph2 (page_base (f j) + of_nat d) = m0 (page_base (K j) + of_nat d)" .
    qed
  qed
  have all: "copied_page m0 (va j) (K j) j m1 T1 ph2 F ((f(i := u)) j)" if "j < Suc i" for j
    using new old that by (cases "j = i") simp_all
  show ?thesis
    unfolding copied_def
  proof (intro conjI)
    show "rooted m1 T1" by (rule ok1(2))
    show "if Suc i = 0 then mm_room 4 m1 \<and> pgd m1 = 0 else pgd m1 \<noteq> 0 \<and> T1 P \<noteq> None" using A path by simp
    show "length (user_pages m1) = MAX_PROCESS_PAGES" using pages len by simp
    show "\<forall>j<Suc i. copied_page m0 (va j) (K j) j m1 T1 ph2 F ((f(i := u)) j)" using all by blast
    show "free_pages ph2 \<subseteq> F" using fr A I by blast
    show "(if Suc i = 0 then 4 else 0) + (n - Suc i) \<le> card (free_pages ph2)" using cd fr by simp
    show "\<forall>b. (\<forall>k\<in>F. \<not> in_page k b) \<longrightarrow> mem ph2 b = m0 b" using outside by blast
  qed (use ok2 T1F pages in blast)+
qed

subsection \<open>The whole copy\<close>

text \<open>The user pages of a process: as the copy needs them, and what a process reads at an address.\<close>

definition source_pages_ok :: "nat \<Rightarrow> nat list \<Rightarrow> mm_struct \<Rightarrow> phys_memory \<Rightarrow> bool" where
  "source_pages_ok n P m ph \<longleftrightarrow>
     n \<le> MAX_PROCESS_PAGES \<and> n_user_pages m = int n \<and> length (user_pages m) = MAX_PROCESS_PAGES \<and>
     (\<forall>i < n. \<exists>k. k < N_PAGES \<and> k \<notin> free_pages ph \<and> physical_address (user_pages m ! i) = page_address k) \<and>
     (\<forall>i < n. table_path (virtual_address (user_pages m ! i)) = P) \<and>
     (\<forall>i < n. \<forall>j < i. \<not> same_page (virtual_address (user_pages m ! j)) (virtual_address (user_pages m ! i)))"

definition no_pages :: "mm_struct \<Rightarrow> bool" where
  "no_pages m \<longleftrightarrow> pgd m = 0 \<and> mm_room 4 m \<and> n_user_pages m = 0 \<and> length (user_pages m) = MAX_PROCESS_PAGES"

definition user_byte :: "kernel \<Rightarrow> pcb_ptr \<Rightarrow> 64 word \<Rightarrow> 8 word option" where
  "user_byte s p va = map_option (\<lambda>pa. mem (phys s) (pa + VA_START)) (translate (mem (phys s)) (pgd (mm (pcbs s p))) va)"

definition with_mm :: "pcb_ptr \<Rightarrow> mm_struct \<Rightarrow> phys_memory \<Rightarrow> kernel \<Rightarrow> kernel" where
  "with_mm p m ph s = modify_pcb p (\<lambda>x. x\<lparr>mm := m\<rparr>) (s\<lparr>phys := ph\<rparr>)"

lemma with_mm_simps [simp]:
  "phys (with_mm p m ph s) = ph" "mm (pcbs (with_mm p m ph s) p) = m" "current_process (with_mm p m ph s) = current_process s"
  "q \<noteq> p \<Longrightarrow> pcbs (with_mm p m ph s) q = pcbs s q" "(with_mm p m ph s)\<lparr>phys := ph'\<rparr> = with_mm p m ph' s"
  "modify_pcb p (\<lambda>x. x\<lparr>mm := m'\<rparr>) (with_mm p m ph s) = with_mm p m' ph s"
  "with_mm p (mm (pcbs s p)) (phys s) s = s"
  by (simp_all add: with_mm_def modify_pcb_def upd_pcb_def)

lemma with_mm_pcb: "pcbs (with_mm p m ph s) q = (if q = p then (pcbs s p)\<lparr>mm := m\<rparr> else pcbs s q)"
  by (simp add: with_mm_def upd_pcb_apply modify_pcb_def)

lemma copy_user_page_step:
  assumes src: "source_pages_ok n P (mm (pcbs s (current_process s))) (phys s)" and d: "dest \<noteq> current_process s"
    and inv: "copied (mem (phys s)) (\<lambda>i. virtual_address (user_pages (mm (pcbs s (current_process s))) ! i)) K P n i m T ph (free_pages (phys s)) f"
    and K: "\<forall>i < n. K i < N_PAGES \<and> K i \<notin> free_pages (phys s) \<and> physical_address (user_pages (mm (pcbs s (current_process s))) ! i) = page_address (K i)"
    and i: "i < n"
  shows "\<exists>m' T' ph' f'. copy_user_page dest (int i) (with_mm dest m ph s) = Some (0, with_mm dest m' ph' s) \<and>
    copied (mem (phys s)) (\<lambda>i. virtual_address (user_pages (mm (pcbs s (current_process s))) ! i)) K P n (Suc i) m' T' ph' (free_pages (phys s)) f'"
proof -
  let ?c = "current_process s" and ?s = "with_mm dest m ph s"
  let ?va = "\<lambda>i. virtual_address (user_pages (mm (pcbs s ?c)) ! i)" and ?F = "free_pages (phys s)"
  note I = inv [unfolded copied_def] and S = src [unfolded source_pages_ok_def]
  have c: "pcbs ?s ?c = pcbs s ?c" using d by auto
  have n: "n \<le> MAX_PROCESS_PAGES" using S by blast
  have ok: "tables_ok (phys ?s) T" "rooted (mm (pcbs ?s dest)) T" using I by simp_all
  have room: "user_room (mm (pcbs ?s dest))" using I i n by (auto simp: user_room_def)
  have path: "table_path (?va i) = P" using S i by blast
  have need: "mm_room 4 (mm (pcbs ?s dest)) \<and> 5 + (n - Suc i) \<le> card (free_pages (phys ?s)) \<or>
      pgd (mm (pcbs ?s dest)) \<noteq> 0 \<and> T (table_path (?va i)) \<noteq> None \<and> 1 + (n - Suc i) \<le> card (free_pages (phys ?s))"
    using I i path by (auto split: if_splits)
  obtain u m1 ph1 T1 where a: "allocate_user_page dest (?va i) ?s = Some (page_base u, modify_pcb dest (\<lambda>x. x\<lparr>mm := m1\<rparr>) (?s\<lparr>phys := ph1\<rparr>))"
    "page_base u \<noteq> 0" "n - Suc i \<le> card (free_pages ph1)" "fresh_page_mapped (?va i) u (mm (pcbs ?s dest)) T (phys ?s) m1 T1 ph1"
    using allocate_user_page_spec [OF ok room need] by blast
  have a1: "allocate_user_page dest (?va i) ?s = Some (page_base u, with_mm dest m1 ph1 s)" using a(1) by simp
  have fp: "fresh_page_mapped (?va i) u m T ph m1 T1 ph1" using a(4) by simp
  let ?ph2 = "ph1\<lparr>mem := memcpy (page_base u) (page_base (K i)) PAGE_SIZE (memzero (page_base u) PAGE_SIZE (mem ph1))\<rparr>"
  have F: "\<forall>k \<in> ?F. k < N_PAGES" by (simp add: free_pages_def)
  have Ki: "K i < N_PAGES" "K i \<notin> ?F" "physical_address (user_pages (mm (pcbs s ?c)) ! i) = page_address (K i)" using K i by blast+
  have apart: "\<forall>j < i. \<not> same_page (?va j) (?va i)" using S i by blast
  have "copied (mem (phys s)) ?va K P n (Suc i) m1 T1 ?ph2 ?F (f(i := u))"
    by (rule copied_step [OF inv i n F Ki(1,2) path apart fp a(3) refl])
  moreover have "i < length (user_pages (mm (pcbs s ?c)))" using S i n by simp
  then have "copy_user_page dest (int i) ?s = Some (0, with_mm dest m1 ?ph2 s)"
    using d c a1 a(2) Ki(3) by (simp add: copy_user_page_def page_base_def)
  ultimately show ?thesis by blast
qed

lemma copy_loop:
  assumes src: "source_pages_ok n P (mm (pcbs s (current_process s))) (phys s)" and d: "dest \<noteq> current_process s"
    and K: "\<forall>i < n. K i < N_PAGES \<and> K i \<notin> free_pages (phys s) \<and> physical_address (user_pages (mm (pcbs s (current_process s))) ! i) = page_address (K i)"
  shows "i \<le> n \<Longrightarrow> copied (mem (phys s)) (\<lambda>i. virtual_address (user_pages (mm (pcbs s (current_process s))) ! i)) K P n i m T ph (free_pages (phys s)) f \<Longrightarrow>
    \<exists>m' T' ph' f'. copy_user_pages dest (int i) (with_mm dest m ph s) = Some (0, with_mm dest m' ph' s) \<and>
      copied (mem (phys s)) (\<lambda>i. virtual_address (user_pages (mm (pcbs s (current_process s))) ! i)) K P n n m' T' ph' (free_pages (phys s)) f'"
proof (induction "n - i" arbitrary: i m T ph f)
  case 0
  then have "i = n" by simp
  moreover have "n_user_pages (mm (pcbs (with_mm dest m ph s) (current_process s))) = int n"
    using src d by (auto simp: source_pages_ok_def with_mm_pcb)
  ultimately show ?case using 0 by (subst copy_user_pages.simps) auto
next
  case (Suc k)
  then have i: "i < n" by simp
  obtain m1 T1 ph1 f1 where st: "copy_user_page dest (int i) (with_mm dest m ph s) = Some (0, with_mm dest m1 ph1 s)"
    "copied (mem (phys s)) (\<lambda>i. virtual_address (user_pages (mm (pcbs s (current_process s))) ! i)) K P n (Suc i) m1 T1 ph1 (free_pages (phys s)) f1"
    using copy_user_page_step [OF src d Suc.prems(2) K i] by blast
  have b: "int i < n_user_pages (mm (pcbs (with_mm dest m ph s) (current_process s)))"
    using src d i by (auto simp: source_pages_ok_def with_mm_pcb)
  have "copy_user_pages dest (int i) (with_mm dest m ph s) = copy_user_pages dest (int (Suc i)) (with_mm dest m1 ph1 s)"
    using b st(1) by (subst copy_user_pages.simps) (simp add: add.commute)
  then show ?case using Suc.hyps(1) [OF _ _ st(2)] Suc.hyps(2) i by simp
qed

lemma low12: "va AND 0xfff = take_bit 12 (va :: 64 word)"
  by (simp add: take_bit_eq_mask mask_numeral)

lemma page_address_or: "u < N_PAGES \<Longrightarrow> page_address u OR (va AND 0xfff) = page_address u + (va AND 0xfff)"
proof -
  assume u: "u < N_PAGES"
  have "\<not> bit (page_address u) n \<or> \<not> bit (va AND 0xfff) n" for n
    using page_address_bit [OF u, of n] by (auto simp: low12 bit_take_bit_iff)
  then show ?thesis by (simp add: disjunctive_add)
qed

lemma copied_user_byte:
  assumes C: "copied_page m0 va K j (mm (pcbs s p)) T (phys s) F u" and F: "\<forall>k \<in> F. k < N_PAGES" and v: "same_page va va'"
  shows "user_byte s p va' = Some (m0 (page_base K + (va' AND 0xfff)))"
proof -
  note C = C [unfolded copied_page_def]
  have u: "u < N_PAGES" using C F by blast
  have off: "unat (va' AND 0xfff) < 4096"
  proof -
    have "unat (va' AND 0xfff) = take_bit 12 (unat va')" by (simp only: low12 unsigned_take_bit_eq)
    then show ?thesis by (simp add: take_bit_eq_mod)
  qed
  have "translate (mem (phys s)) (pgd (mm (pcbs s p))) va' = Some (page_address u OR (va' AND 0xfff))" using C v by blast
  moreover have "(page_address u OR (va' AND 0xfff)) + VA_START = page_base u + of_nat (unat (va' AND 0xfff))"
    using page_address_or [OF u] by (simp add: page_base_def)
  moreover have "mem (phys s) (page_base u + of_nat (unat (va' AND 0xfff))) = m0 (page_base K + of_nat (unat (va' AND 0xfff)))"
    using C off by blast
  ultimately show ?thesis by (simp add: user_byte_def)
qed

lemma copy_virtual_memory_spec:
  assumes src: "source_pages_ok n P (mm (pcbs s (current_process s))) (phys s)" and d: "dest \<noteq> current_process s"
    and dest: "no_pages (mm (pcbs s dest))" and free: "n + 4 \<le> card (free_pages (phys s))"
  shows "\<exists>m' ph'. copy_virtual_memory dest s = Some (0, with_mm dest m' ph' s) \<and> n_user_pages m' = int n \<and>
    (\<forall>i < n. virtual_address (user_pages m' ! i) = virtual_address (user_pages (mm (pcbs s (current_process s))) ! i) \<and>
      (\<forall>va. same_page (virtual_address (user_pages (mm (pcbs s (current_process s))) ! i)) va \<longrightarrow>
        user_byte (with_mm dest m' ph' s) dest va =
          Some (mem (phys s) (physical_address (user_pages (mm (pcbs s (current_process s))) ! i) + VA_START + (va AND 0xfff))))) \<and>
    (\<forall>b. (\<forall>k \<in> free_pages (phys s). \<not> in_page k b) \<longrightarrow> mem ph' b = mem (phys s) b)"
proof -
  let ?sp = "user_pages (mm (pcbs s (current_process s)))" and ?F = "free_pages (phys s)"
  define K where "K i = (SOME k. k < N_PAGES \<and> k \<notin> ?F \<and> physical_address (?sp ! i) = page_address k)" for i
  have K: "\<forall>i < n. K i < N_PAGES \<and> K i \<notin> ?F \<and> physical_address (?sp ! i) = page_address (K i)"
  proof (intro allI impI)
    fix i assume "i < n"
    then have "\<exists>k. k < N_PAGES \<and> k \<notin> ?F \<and> physical_address (?sp ! i) = page_address k"
      using src by (simp add: source_pages_ok_def)
    then show "K i < N_PAGES \<and> K i \<notin> ?F \<and> physical_address (?sp ! i) = page_address (K i)"
      unfolding K_def by (rule someI_ex)
  qed
  let ?va = "\<lambda>i. virtual_address (?sp ! i)"
  have F: "\<forall>k \<in> ?F. k < N_PAGES" by (simp add: free_pages_def)
  have "tables_ok (phys s) Map.empty" by (simp add: tables_ok_def table_rep_def)
  then have "copied (mem (phys s)) ?va K P n 0 (mm (pcbs s dest)) Map.empty (phys s) ?F (\<lambda>_. 0)"
    using dest free by (simp add: copied_def no_pages_def rooted_def)
  then obtain m' T' ph' f' where c: "copy_user_pages dest (int 0) (with_mm dest (mm (pcbs s dest)) (phys s) s) = Some (0, with_mm dest m' ph' s)"
    "copied (mem (phys s)) ?va K P n n m' T' ph' ?F f'"
    using copy_loop [OF src d K, of 0] by blast
  note C = c(2) [unfolded copied_def]
  have e: "copy_virtual_memory dest s = Some (0, with_mm dest m' ph' s)"
    using c(1) by (simp add: copy_virtual_memory_def)
  have pg: "virtual_address (user_pages m' ! i) = ?va i \<and> (\<forall>va. same_page (?va i) va \<longrightarrow>
        user_byte (with_mm dest m' ph' s) dest va = Some (mem (phys s) (physical_address (?sp ! i) + VA_START + (va AND 0xfff))))"
    if i: "i < n" for i
  proof -
    have cp: "copied_page (mem (phys s)) (?va i) (K i) i m' T' ph' ?F (f' i)" using C i by blast
    have "user_byte (with_mm dest m' ph' s) dest va = Some (mem (phys s) (page_base (K i) + (va AND 0xfff)))" if "same_page (?va i) va" for va
      by (rule copied_user_byte [OF _ F that, where T = T' and u = "f' i"]) (use cp in simp)
    moreover have "page_base (K i) = physical_address (?sp ! i) + VA_START" using K i by (simp add: page_base_def)
    ultimately show ?thesis using cp by (simp add: copied_page_def)
  qed
  have "n_user_pages m' = int n" "\<forall>b. (\<forall>k \<in> ?F. \<not> in_page k b) \<longrightarrow> mem ph' b = mem (phys s) b" using C by blast+
  then show ?thesis using e pg by (intro exI [of _ m'] exI [of _ ph'] conjI) blast+
qed

subsection \<open>Properties\<close>

text \<open>
  C25. Mapping a page: with room in the page lists of the process and four free pages, map_page succeeds and
  afterwards the MMU, walking the four levels from the process's root, translates every address of the
  virtual page to the given physical page; every other address translates as before (to nothing, if the
  process had no tables). The tables stay a tree of separate allocated pages.
\<close>

theorem map_page_translates:
  assumes "tables_ok (phys s) T" "rooted (mm (pcbs s p)) T" "mm_room 4 (mm (pcbs s p))" "user_room (mm (pcbs s p))"
    and "4 \<le> card (free_pages (phys s))" "i < N_PAGES"
  shows "\<exists>s' T'. map_page p va (page_address i) s = Some s' \<and> tables_ok (phys s') T' \<and> rooted (mm (pcbs s' p)) T' \<and>
    (\<forall>va'. translate (mem (phys s')) (pgd (mm (pcbs s' p))) va' =
       (if drop_bit 12 (take_bit 48 va') = drop_bit 12 (take_bit 48 va) then Some (page_address i OR (va' AND 0xfff))
        else if pgd (mm (pcbs s p)) = 0 then None else translate (mem (phys s)) (pgd (mm (pcbs s p))) va'))"
proof -
  have fr: "4 + 0 \<le> card (free_pages (phys s))" using assms(5) by simp
  obtain mm1 ph1 T' where m: "map_page_mm va (page_address i) (mm (pcbs s p), phys s) = Some (mm1, ph1)" "tables_ok ph1 T'"
    "rooted mm1 T'" "pgd mm1 \<noteq> 0" "mapped va (page_address i) T (phys s) T' ph1"
    using map_page_mm_spec [OF assms(1-4) fr] by blast
  let ?s' = "modify_pcb p (\<lambda>x. x\<lparr>mm := mm1\<rparr>) (s\<lparr>phys := ph1\<rparr>)"
  have f: "phys ?s' = ph1" "mm (pcbs ?s' p) = mm1" by (simp_all add: modify_pcb_def)
  have "map_page p va (page_address i) s = Some ?s'" using m(1) by (simp add: map_page_def)
  moreover have "translate (mem ph1) (pgd mm1) va' =
     (if drop_bit 12 (take_bit 48 va') = drop_bit 12 (take_bit 48 va) then Some (page_address i OR (va' AND 0xfff))
      else if pgd (mm (pcbs s p)) = 0 then None else translate (mem (phys s)) (pgd (mm (pcbs s p))) va')" for va'
    using mapped_translate [OF assms(1,2) m(2-5) refl assms(6), of va'] by (auto simp: same_page_def)
  ultimately show ?thesis using m(2,3) by (intro exI [of _ ?s'] exI [of _ T']) (simp add: f)
qed

definition all_free :: phys_memory where
  "all_free = \<lparr>memory_pages = (\<lambda>_. 0), mem = (\<lambda>_. 0)\<rparr>"

lemma all_free_ok: "tables_ok all_free Map.empty" "card (free_pages all_free) = 257024"
proof -
  show "tables_ok all_free Map.empty" by (simp add: tables_ok_def table_rep_def)
  have "free_pages all_free = {..<257024}" by (auto simp: free_pages_def all_free_def)
  then show "card (free_pages all_free) = 257024" by simp
qed

lemma zero_mm_ok: "rooted zero_mm Map.empty" "mm_room 4 zero_mm" "user_room zero_mm"
  by (simp_all add: rooted_def zero_mm_def mm_room_def user_room_def)

theorem map_page_witness:
  "\<exists>s'. map_page (Pcb_at 9) 0x3000 (page_address 7) (boot_kernel sched_sjf (\<lambda>_. 0) zero_context (\<lambda>_. 0)) = Some s' \<and>
     translate (mem (phys s')) (pgd (mm (pcbs s' (Pcb_at 9)))) 0x3abc = Some (page_address 7 OR 0xabc) \<and>
     translate (mem (phys s')) (pgd (mm (pcbs s' (Pcb_at 9)))) 0x4abc = None"
proof -
  let ?s = "boot_kernel sched_sjf (\<lambda>_. 0) zero_context (\<lambda>_. 0)"
  have f: "phys ?s = all_free" "mm (pcbs ?s (Pcb_at 9)) = zero_mm" by (simp_all add: boot_kernel_def zero_pcb_def all_free_def)
  have z: "pgd zero_mm = 0" by (simp add: zero_mm_def)
  have d: "drop_bit 12 (take_bit 48 (0x3abc :: 64 word)) = drop_bit 12 (take_bit 48 0x3000)"
    "drop_bit 12 (take_bit 48 (0x4abc :: 64 word)) \<noteq> drop_bit 12 (take_bit 48 0x3000)" "(0x3abc :: 64 word) AND 0xfff = 0xabc"
    by (simp_all add: take_bit_eq_mod drop_bit_eq_div)
  show ?thesis
    using map_page_translates [where s = ?s and T = Map.empty and p = "Pcb_at 9" and i = 7 and va = "0x3000"]
      all_free_ok zero_mm_ok z d unfolding f by auto
qed

end
