(* ===== verification/Fork.thy ===== *)
theory Fork
  imports Memory_Copy Wakeup Scheduler_Properties
begin

section \<open>Creating processes\<close>

text \<open>
  \<^verbatim>\<open>libs/fork.c\<close>. A new PCB occupies a freshly cleared page: the record at \<open>Pcb_at a\<close> stands for its
  beginning, and byte memory holds the saved user registers (\<^verbatim>\<open>struct pt_regs\<close>, 34 words) at its end. The
  static \<^verbatim>\<open>init_process\<close> has no such page. \<open>ret_from_fork\<close> is the address of the assembly entry.
\<close>

abbreviation (input) PF_KTHREAD :: "64 word" where "PF_KTHREAD \<equiv> 2"
abbreviation (input) THREAD_SIZE :: "64 word" where "THREAD_SIZE \<equiv> 4096"
abbreviation (input) PT_REGS_SIZE :: nat where "PT_REGS_SIZE \<equiv> 272"

definition task_pt_regs :: "pcb_ptr \<Rightarrow> 64 word option" where
  "task_pt_regs process =
     (case process of Init_process \<Rightarrow> None | Pcb_at p \<Rightarrow> Some (p + THREAD_SIZE - of_nat PT_REGS_SIZE))"

text \<open>A structure assignment.\<close>

definition copy_struct :: "64 word \<Rightarrow> 64 word \<Rightarrow> nat \<Rightarrow> bytes \<Rightarrow> bytes" where
  "copy_struct dest src n m = (\<lambda>b. if unat (b - dest) < n then m (src + (b - dest)) else m b)"

definition set_mem :: "(bytes \<Rightarrow> bytes) \<Rightarrow> kernel \<Rightarrow> kernel" where
  "set_mem f s = s\<lparr>phys := (phys s)\<lparr>mem := f (mem (phys s))\<rparr>\<rparr>"

text \<open>The registers of a new process: those of a kernel thread, or a copy of the parent's frame and pages.\<close>

definition copy_registers :: "64 word \<Rightarrow> 64 word \<Rightarrow> 64 word \<Rightarrow> pcb_ptr \<Rightarrow> 64 word \<Rightarrow> kernel \<Rightarrow> kernel option" where
  "copy_registers clone_flags fn argument p child_registers s =
     (if clone_flags AND PF_KTHREAD \<noteq> 0
      then Some (modify_pcb p (\<lambda>x. x\<lparr>cpu_context := (cpu_context x)\<lparr>ctx_x19 := fn, ctx_x20 := argument\<rparr>\<rparr>) s)
      else do {
        current_registers \<leftarrow> task_pt_regs (current_process s);
        let s1 = set_mem (copy_struct child_registers current_registers PT_REGS_SIZE) s;
        let s2 = set_mem (store64 child_registers 0) s1;
        (error, s3) \<leftarrow> copy_virtual_memory p s2;
        Some s3
      })"

text \<open>The fields of the new PCB that are derived from the parent.\<close>

definition inherit :: "64 word \<Rightarrow> 64 word \<Rightarrow> 64 word \<Rightarrow> int \<Rightarrow> PCB \<Rightarrow> PCB \<Rightarrow> PCB" where
  "inherit ret_from_fork clone_flags child_registers process_id parent x = x\<lparr>
     flags := clone_flags, priority := priority parent, state := PROCESS_READY, counter := 10,
     est_burst := est_burst parent, burst_ticks := 0, queue_priority := queue_priority parent,
     tickets := tickets parent, preempt_disabled := 1, pid := process_id,
     cpu_context := (cpu_context x)\<lparr>ctx_pc := ret_from_fork, ctx_sp := child_registers\<rparr>\<rparr>"

definition copy_process :: "64 word \<Rightarrow> 64 word \<Rightarrow> 64 word \<Rightarrow> 64 word \<Rightarrow> kernel \<Rightarrow> (int \<times> kernel) option" where
  "copy_process ret_from_fork clone_flags fn argument s = (
     let s1 = preempt_disable s;
         (a, s2) = allocate_kernel_page s1
     in if a = 0 \<or> n_processes s2 \<ge> int N_PROCESSES then Some (-1, s2)
        else do {
          let p = Pcb_at a;
          child_registers \<leftarrow> task_pt_regs p;
          let s3 = set_mem (memzero child_registers (int PT_REGS_SIZE)) (modify_pcb p (\<lambda>_. zero_pcb) s2);
          let s4 = modify_pcb p (\<lambda>x. x\<lparr>cpu_context := zero_context, files := replicate MAX_FILES_PER_PROCESS 0\<rparr>) s3;
          s5 \<leftarrow> copy_registers clone_flags fn argument p child_registers s4;
          let process_id = n_processes s5;
          let s6 = modify_pcb p (inherit ret_from_fork clone_flags child_registers process_id (pcbs s5 (current_process s5))) s5;
          (error, s7) \<leftarrow> add_process_to_scheduler p s6;
          if error < 0 then Some (-1, s7) else Some (process_id, preempt_enable s7)
        })"

text \<open>The loop of \<^verbatim>\<open>copy_code\<close> over the 16 code pages, with the number of bytes copied so far.\<close>

primrec copy_code_pages :: "nat list \<Rightarrow> pcb_ptr \<Rightarrow> 64 word \<Rightarrow> 64 word \<Rightarrow> 64 word \<Rightarrow> kernel \<Rightarrow> kernel option" where
  "copy_code_pages [] process buffer code_size copied_bytes s = Some s"
| "copy_code_pages (i # is) process buffer code_size copied_bytes s = do {
     (address, s1) \<leftarrow> allocate_user_page process (of_nat i * 4096) s;
     if copied_bytes < code_size
     then
       let left = code_size - copied_bytes;
           bytes_to_copy = (if left > 4096 then 4096 else left)
       in copy_code_pages is process buffer code_size (copied_bytes + bytes_to_copy)
            (set_mem (memcpy address (buffer + copied_bytes) (uint bytes_to_copy)) s1)
     else copy_code_pages is process buffer code_size copied_bytes s1
   }"

definition copy_code :: "pcb_ptr \<Rightarrow> 64 word \<Rightarrow> 64 word \<Rightarrow> kernel \<Rightarrow> kernel option" where
  "copy_code process buffer code_size s = copy_code_pages [0..<16] process buffer code_size 0 s"

definition move_to_user_mode :: "64 word \<Rightarrow> 64 word \<Rightarrow> 64 word \<Rightarrow> kernel \<Rightarrow> (int \<times> kernel) option" where
  "move_to_user_mode start code_size pc s = do {
     regs \<leftarrow> task_pt_regs (current_process s);
     let s1 = set_mem (memzero regs (int PT_REGS_SIZE)) s;
     let s2 = set_mem (store64 (regs + 264) 0) s1;
     let s3 = set_mem (store64 (regs + 256) pc) s2;
     let s4 = set_mem (store64 (regs + 248) (16 * 4096)) s3;
     s5 \<leftarrow> copy_code (current_process s4) start code_size s4;
     Some (0, set_pgd (pgd (mm (pcbs s5 (current_process s5)))) s5)
   }"

subsection \<open>An unregistered PCB is invisible to the scheduler\<close>

lemma sched_rep_unregistered:
  assumes rep: "sched_rep s Q" and nl: "\<not> live s p"
  shows "sched_rep (modify_pcb p f s) Q"
proof -
  note D = sched_repD [OF rep]
  have nq: "\<not> queued Q p" using D(5) nl by blast
  have other: "a \<noteq> p \<Longrightarrow> upd_pcb p f (pcbs s) a = pcbs s a" for a by simp
  have lp: "live s a \<Longrightarrow> a \<noteq> p" for a using nl by blast
  have "queue_rep (upd_pcb p f (pcbs s)) q (Q r) = queue_rep (pcbs s) q (Q r)" for q r
    by (rule queue_rep_cong) (use nq in \<open>auto simp: links_def upd_pcb_apply queued_def\<close>)
  then have "queues_rep (modify_pcb p f s) Q" using D(1) by (simp add: queues_rep_def)
  moreover have slots: "\<forall>i < N_PROCESSES. \<forall>a. processes s ! i = Some a \<longrightarrow> pid (upd_pcb p f (pcbs s) a) = int i"
  proof (intro allI impI)
    fix i a assume i: "i < N_PROCESSES" "processes s ! i = Some a"
    then have "live s a" using table_okD(1) [OF D(2)] by (metis live_def nth_mem)
    then show "pid (upd_pcb p f (pcbs s) a) = int i" using other lp i D(2) by (simp add: table_ok_def)
  qed
  have bounds: "\<forall>a. live s a \<longrightarrow> 1 \<le> priority (upd_pcb p f (pcbs s) a) \<and> tickets (upd_pcb p f (pcbs s) a) < 2 ^ 57"
    using other lp D(2) by (simp add: table_ok_def)
  have lv: "live (modify_pcb p f s) a = live s a" for a by (simp add: live_def)
  have "table_ok (modify_pcb p f s)"
    using D(2) bounds slots unfolding table_ok_def modify_pcb_fields lv by (elim conjE) (intro conjI, assumption+)
  moreover
  have eq: "map (\<lambda>a. est_burst (upd_pcb p f (pcbs s) a)) (Q Ready_queue) = map (\<lambda>a. est_burst (pcbs s a)) (Q Ready_queue)"
    using nq by (auto simp: upd_pcb_apply queued_def)
  have "discipline (modify_pcb p f s) Q" using D(3) by (simp add: discipline_def eq)
  ultimately show ?thesis using rep other lp by (auto simp: sched_rep_def lv)
qed

lemma sched_rep_phys: "sched_rep s Q \<Longrightarrow> sched_rep (s\<lparr>phys := ph\<rparr>) Q"
  by (rule sched_rep_cong) (use table_okD(3,5) [OF sched_repD(2)] in auto)

lemma modify_pcb_phys [simp]: "phys (modify_pcb p f s) = phys s"
  by (simp add: modify_pcb_def)

lemma set_mem_simps [simp]:
  "pcbs (set_mem f s) = pcbs s" "current_process (set_mem f s) = current_process s" "processes (set_mem f s) = processes s"
  "n_processes (set_mem f s) = n_processes s" "memory_pages (phys (set_mem f s)) = memory_pages (phys s)"
  "mem (phys (set_mem f s)) = f (mem (phys s))" "free_pages (phys (set_mem f s)) = free_pages (phys s)"
  by (simp_all add: set_mem_def free_pages_def)

lemma sched_rep_set_mem: "sched_rep s Q \<Longrightarrow> sched_rep (set_mem f s) Q"
  unfolding set_mem_def by (rule sched_rep_phys)

subsection \<open>The page of the new PCB\<close>

lemma pt_regs_in_page:
  assumes u: "u < N_PAGES" and b: "unat (b - (page_base u + THREAD_SIZE - of_nat PT_REGS_SIZE)) < PT_REGS_SIZE"
  shows "in_page u b"
proof -
  let ?r = "page_base u + THREAD_SIZE - of_nat PT_REGS_SIZE"
  have e: "?r = page_base u + of_nat 3824" by simp
  have r: "unat ?r = unat (page_base u) + 3824"
    unfolding e using u by (simp add: unat_plus_if_size word_size unat_page_base)
  have "unat (b - ?r) < PT_REGS_SIZE \<longleftrightarrow> unat ?r \<le> unat b \<and> unat b < unat ?r + PT_REGS_SIZE"
  proof (rule within_iff)
    show "unat ?r + PT_REGS_SIZE \<le> 2 ^ 64" unfolding r using u by (simp add: unat_page_base)
  qed simp
  then have "unat ?r \<le> unat b" "unat b < unat ?r + PT_REGS_SIZE" using b by blast+
  then show ?thesis unfolding in_page_iff [OF u] r by linarith
qed

lemma set_up_outside:
  assumes u: "u < N_PAGES" and b: "\<not> in_page u b" and r: "r = page_base u + THREAD_SIZE - of_nat PT_REGS_SIZE"
  shows "memzero r (int PT_REGS_SIZE) m b = m b" "copy_struct r src PT_REGS_SIZE m b = m b" "store64 r v m b = m b"
proof -
  have n: "\<not> unat (b - r) < PT_REGS_SIZE" using pt_regs_in_page [OF u] b r by blast
  have "memzero r (8 * int 34) m b = (if unat (b - r) < 8 * 34 then 0 else m b)" by (rule memzero_apply) simp_all
  then show "memzero r (int PT_REGS_SIZE) m b = m b" using n by simp
  show "copy_struct r src PT_REGS_SIZE m b = m b" using n by (simp add: copy_struct_def)
  show "store64 r v m b = m b" using n by (simp add: store64_apply)
qed

lemma allocate_kernel_page_none: "free_pages (phys s) = {} \<Longrightarrow> allocate_kernel_page s = (0, s\<lparr>phys := phys s\<rparr>)"
  by (simp add: allocate_kernel_page_def get_free_page_none)

lemma allocate_kernel_page_some:
  assumes "free_pages (phys s) \<noteq> {}"
  obtains u ph where "allocate_kernel_page s = (page_base u, s\<lparr>phys := ph\<rparr>)" "page_base u \<noteq> 0" "u \<in> free_pages (phys s)" "u < N_PAGES"
    "\<forall>b. mem ph b = (if in_page u b then 0 else mem (phys s) b)" "free_pages ph = free_pages (phys s) - {u}"
proof -
  obtain u ph where g: "get_free_page (phys s) = (page_address u, ph)" "u \<in> free_pages (phys s)" "u < N_PAGES"
    "\<forall>b. mem ph b = (if in_page u b then 0 else mem (phys s) b)" "free_pages ph = free_pages (phys s) - {u}"
    by (rule get_free_page_some [OF assms])
  show thesis
  proof (rule that [of u ph])
    show "allocate_kernel_page s = (page_base u, s\<lparr>phys := ph\<rparr>)"
      using g(1,3) by (simp add: allocate_kernel_page_def page_base_def)
    show "page_base u \<noteq> 0" using unat_page_base [OF g(3)] by force
  qed (use g in auto)
qed

subsection \<open>Properties\<close>

text \<open>
  C35. A refused fork leaks. With the process table full, or no free page, copy_process returns -1 and registers
  nobody, but the preemption counter of the caller stays incremented (so the timer never preempts it again), and
  with the table full the page of the new PCB stays allocated.
\<close>

theorem refused_fork_leaks:
  assumes "free_pages (phys s) = {} \<or> n_processes s \<ge> 64"
  shows "\<exists>s'. copy_process entry_address clone_flags fn argument s = Some (-1, s') \<and> processes s' = processes s \<and>
    current_process s' = current_process s \<and>
    preempt_disabled (pcbs s' (current_process s)) = preempt_disabled (pcbs s (current_process s)) + 1 \<and>
    card (free_pages (phys s')) = card (free_pages (phys s)) - 1"
proof (cases "free_pages (phys s) = {}")
  case True
  then have "free_pages (phys (preempt_disable s)) = {}" by (simp add: preempt_disable_def modify_pcb_def)
  then have "copy_process entry_address clone_flags fn argument s = Some (-1, preempt_disable s)"
    by (simp add: copy_process_def allocate_kernel_page_none Let_def)
  then show ?thesis using True by (simp add: preempt_disable_def modify_pcb_def)
next
  case False
  then have f: "free_pages (phys (preempt_disable s)) \<noteq> {}" by (simp add: preempt_disable_def modify_pcb_def)
  obtain u ph where a: "allocate_kernel_page (preempt_disable s) = (page_base u, (preempt_disable s)\<lparr>phys := ph\<rparr>)"
    "u \<in> free_pages (phys (preempt_disable s))" "free_pages ph = free_pages (phys (preempt_disable s)) - {u}"
    by (rule allocate_kernel_page_some [OF f])
  have "copy_process entry_address clone_flags fn argument s = Some (-1, (preempt_disable s)\<lparr>phys := ph\<rparr>)"
    using assms False a(1) by (simp add: copy_process_def Let_def preempt_disable_def)
  then show ?thesis using a(2,3) by (simp add: preempt_disable_def modify_pcb_def card_Diff_singleton)
qed

theorem refused_fork_witness:
  "\<exists>s'. copy_process 0 0 0 0 ((boot_kernel sched_sjf (\<lambda>_. 0) zero_context (\<lambda>_. 0))\<lparr>n_processes := 64\<rparr>) = Some (-1, s') \<and>
     preempt_disabled (pcbs s' Init_process) = 1"
  using refused_fork_leaks [of "(boot_kernel sched_sjf (\<lambda>_. 0) zero_context (\<lambda>_. 0))\<lparr>n_processes := 64\<rparr>" 0 0 0 0]
  by (auto simp: boot_kernel_def INIT_PROCESS_def)

text \<open>
  What the kernel must have before a fork: its PCBs in allocated pages, a caller with a page of its own, and
  the caller's user pages in allocated pages inside one 2 MB region.
\<close>

definition fork_ready :: "nat \<Rightarrow> nat list \<Rightarrow> nat \<Rightarrow> kernel \<Rightarrow> bool" where
  "fork_ready n P c s \<longleftrightarrow>
     current_process s = Pcb_at (page_base c) \<and> n_processes s < int N_PROCESSES \<and> packed s \<and>
     (\<forall>w. live s (Pcb_at w) \<longrightarrow> (\<exists>k < N_PAGES. w = page_base k \<and> k \<notin> free_pages (phys s))) \<and> c < N_PAGES \<and>
     source_pages_ok n P (mm (pcbs s (current_process s))) (phys s) \<and> n + 5 \<le> card (free_pages (phys s))"

lemma source_pages_shrink:
  "source_pages_ok n P m ph \<Longrightarrow> free_pages ph' \<subseteq> free_pages ph \<Longrightarrow> source_pages_ok n P m ph'"
  unfolding source_pages_ok_def by blast

lemma page_base_inj: "i < N_PAGES \<Longrightarrow> j < N_PAGES \<Longrightarrow> page_base i = page_base j \<Longrightarrow> i = j"
  using page_address_inj by (simp add: page_base_def)

lemma zero_mm_no_pages: "no_pages zero_mm"
  by (simp add: no_pages_def zero_mm_def mm_room_def)

lemma load_bytes_shift:
  "(\<And>i. i < k \<Longrightarrow> m (a + of_nat i) = m' (a' + of_nat i)) \<Longrightarrow> load_bytes k a m = load_bytes k a' m'"
proof (induction k arbitrary: a a')
  case (Suc k)
  have "load_bytes k (a + 1) m = load_bytes k (a' + 1) m'"
  proof (rule Suc.IH)
    fix i assume "i < k"
    then show "m (a + 1 + of_nat i) = m' (a' + 1 + of_nat i)" using Suc.prems [of "Suc i"] by (simp add: add.assoc)
  qed
  then show ?case using Suc.prems [of 0] by simp
qed simp

text \<open>
  The user registers saved in the page of a PCB; register 0 comes first.
\<close>

definition saved_register :: "bytes \<Rightarrow> nat \<Rightarrow> nat \<Rightarrow> 64 word" where
  "saved_register m c i = load64 (page_base c + THREAD_SIZE - of_nat PT_REGS_SIZE + 8 * of_nat i) m"

lemma saved_register_byte:
  assumes u: "u < N_PAGES" and i: "i < 34" "k < 8"
  shows "in_page u (page_base u + THREAD_SIZE - of_nat PT_REGS_SIZE + 8 * of_nat i + of_nat k)"
    "unat (page_base u + THREAD_SIZE - of_nat PT_REGS_SIZE + 8 * of_nat i + of_nat k
       - (page_base u + THREAD_SIZE - of_nat PT_REGS_SIZE)) = 8 * i + k"
proof -
  let ?r = "page_base u + THREAD_SIZE - of_nat PT_REGS_SIZE"
  have "?r + 8 * of_nat i + of_nat k - ?r = of_nat (8 * i + k)" by simp
  moreover have "unat (of_nat (8 * i + k) :: 64 word) = 8 * i + k" using i by (intro unat_of_nat_small) simp
  ultimately show off: "unat (?r + 8 * of_nat i + of_nat k - ?r) = 8 * i + k" by simp
  show "in_page u (?r + 8 * of_nat i + of_nat k)" by (rule pt_regs_in_page [OF u]) (simp only: off, use i in simp)
qed

lemma copied_frame:
  assumes u: "u < N_PAGES" and c: "c < N_PAGES" "c \<noteq> u" and i: "i < 34"
    and m: "\<forall>b. \<not> in_page u b \<longrightarrow> m b = m0 b"
    and r: "r = page_base u + THREAD_SIZE - of_nat PT_REGS_SIZE"
    and m': "m' = store64 r 0 (copy_struct r (page_base c + THREAD_SIZE - of_nat PT_REGS_SIZE) PT_REGS_SIZE m)"
  shows "saved_register m' u i = (if i = 0 then 0 else saved_register m0 c i)"
proof (cases "i = 0")
  case True
  then show ?thesis by (simp add: saved_register_def m' r)
next
  case False
  let ?c = "page_base c + THREAD_SIZE - of_nat PT_REGS_SIZE"
  have eq: "m' (r + 8 * of_nat i + of_nat k) = m0 (?c + 8 * of_nat i + of_nat k)" if k: "k < 8" for k
  proof -
    note S = saved_register_byte [OF u i k, folded r] and C = saved_register_byte [OF c(1) i k]
    have "m' (r + 8 * of_nat i + of_nat k) = copy_struct r ?c PT_REGS_SIZE m (r + 8 * of_nat i + of_nat k)"
      using S(2) False by (simp only: m' store64_apply) simp
    also have "\<dots> = m (?c + (r + 8 * of_nat i + of_nat k - r))"
      using S(2) i k by (simp only: copy_struct_def) simp
    also have "?c + (r + 8 * of_nat i + of_nat k - r) = ?c + 8 * of_nat i + of_nat k" by simp
    also have "m \<dots> = m0 \<dots>" using m in_page_unique [OF c(1) u C(1)] c(2) by blast
    finally show ?thesis .
  qed
  have "load_bytes 8 (r + 8 * of_nat i) m' = load_bytes 8 (?c + 8 * of_nat i) m0"
    by (rule load_bytes_shift) (rule eq)
  then show ?thesis unfolding saved_register_def load64_def r [symmetric] if_not_P [OF False] .
qed

lemma fork_setup:
  assumes rep: "sched_rep s Q" and ready: "fork_ready n P c s" and flags0: "clone_flags AND PF_KTHREAD = 0"
  shows "\<exists>u t. u \<in> free_pages (phys s) \<and> u < N_PAGES \<and> u \<noteq> c \<and> \<not> live s (Pcb_at (page_base u)) \<and>
    copy_process entry_address clone_flags fn argument s = do {
      (error, s5) \<leftarrow> copy_virtual_memory (Pcb_at (page_base u)) t;
      let process_id = n_processes s5;
      let s6 = modify_pcb (Pcb_at (page_base u)) (inherit entry_address clone_flags (page_base u + THREAD_SIZE - of_nat PT_REGS_SIZE)
          process_id (pcbs s5 (current_process s5))) s5;
      (error, s7) \<leftarrow> add_process_to_scheduler (Pcb_at (page_base u)) s6;
      if error < 0 then Some (-1, s7) else Some (process_id, preempt_enable s7)
    } \<and>
    sched_rep t Q \<and> current_process t = current_process s \<and> processes t = processes s \<and> n_processes t = n_processes s \<and>
    (\<forall>q. q \<noteq> Pcb_at (page_base u) \<longrightarrow> pcbs t q = pcbs (preempt_disable s) q) \<and> pcbs t (Pcb_at (page_base u)) = zero_pcb \<and>
    free_pages (phys t) = free_pages (phys s) - {u} \<and> (\<forall>b. \<not> in_page u b \<longrightarrow> mem (phys t) b = mem (phys s) b) \<and>
    (\<forall>i < 34. saved_register (mem (phys t)) u i = (if i = 0 then 0 else saved_register (mem (phys s)) c i))"
proof -
  note R = ready [unfolded fork_ready_def]
  let ?s1 = "preempt_disable s"
  have ph1: "phys ?s1 = phys s" by (simp add: preempt_disable_def modify_pcb_def)
  have "free_pages (phys ?s1) \<noteq> {}" using R by (auto simp: ph1)
  then obtain u ph where a: "allocate_kernel_page ?s1 = (page_base u, ?s1\<lparr>phys := ph\<rparr>)" "page_base u \<noteq> 0" "u \<in> free_pages (phys ?s1)"
    "u < N_PAGES" "\<forall>b. mem ph b = (if in_page u b then 0 else mem (phys ?s1) b)" "free_pages ph = free_pages (phys ?s1) - {u}"
    by (rule allocate_kernel_page_some)
  let ?p = "Pcb_at (page_base u)" and ?r = "page_base u + THREAD_SIZE - of_nat PT_REGS_SIZE"
    and ?rc = "page_base c + THREAD_SIZE - of_nat PT_REGS_SIZE"
  have nl: "\<not> live s ?p"
  proof
    assume "live s ?p"
    then obtain k where "k < N_PAGES" "page_base u = page_base k" "k \<notin> free_pages (phys s)" using R by blast
    then show False using page_base_inj [OF a(4)] a(3) ph1 by auto
  qed
  have cur: "current_process s = Pcb_at (page_base c)" "live s (current_process s)" "c < N_PAGES"
    using R sched_repD(4) [OF rep] by blast+
  have uc: "u \<noteq> c" using nl cur(1,2) by auto
  let ?s3 = "set_mem (memzero ?r (int PT_REGS_SIZE)) (modify_pcb ?p (\<lambda>_. zero_pcb) (?s1\<lparr>phys := ph\<rparr>))"
  let ?s4 = "modify_pcb ?p (\<lambda>x. x\<lparr>cpu_context := zero_context, files := replicate MAX_FILES_PER_PROCESS 0\<rparr>) ?s3"
  let ?t = "set_mem (store64 ?r 0) (set_mem (copy_struct ?r ?rc PT_REGS_SIZE) ?s4)"
  have c1: "current_process ?s1 = current_process s" "processes ?s1 = processes s" "n_processes ?s1 = n_processes s"
    by (simp_all add: preempt_disable_def)
  have "sched_rep (?s1\<lparr>phys := ph\<rparr>) Q" using rep by (intro sched_rep_phys sched_rep_preempt)
  moreover have l: "\<not> live (?s1\<lparr>phys := ph\<rparr>) ?p" using nl c1 by (simp add: live_def)
  ultimately have "sched_rep (modify_pcb ?p (\<lambda>_. zero_pcb) (?s1\<lparr>phys := ph\<rparr>)) Q" by (rule sched_rep_unregistered)
  then have r3: "sched_rep ?s3 Q" by (rule sched_rep_set_mem)
  have l3: "\<not> live ?s3 ?p" using l by (simp add: live_def)
  have rt: "sched_rep ?t Q" by (intro sched_rep_set_mem sched_rep_unregistered [OF r3 l3])
  have phs: "phys ?s4 = ph\<lparr>mem := memzero ?r (int PT_REGS_SIZE) (mem ph)\<rparr>" by (simp add: set_mem_def)
  have mt: "mem (phys ?t) = store64 ?r 0 (copy_struct ?r ?rc PT_REGS_SIZE (memzero ?r (int PT_REGS_SIZE) (mem ph)))"
    by simp
  have keep: "memzero ?r (int PT_REGS_SIZE) (mem ph) b = mem (phys s) b" if "\<not> in_page u b" for b
    using set_up_outside(1) [OF a(4) that refl] a(5) that ph1 by simp
  have "copy_registers clone_flags fn argument ?p ?r ?s4 = Option.bind (copy_virtual_memory ?p ?t) (\<lambda>(error, s3). Some s3)"
    using flags0 cur(1) c1(1) by (simp add: copy_registers_def task_pt_regs_def)
  moreover have "n_processes (?s1\<lparr>phys := ph\<rparr>) < int N_PROCESSES" using R c1(3) by simp
  ultimately have e: "copy_process entry_address clone_flags fn argument s = do {
      (error, s5) \<leftarrow> copy_virtual_memory ?p ?t;
      let process_id = n_processes s5;
      let s6 = modify_pcb ?p (inherit entry_address clone_flags ?r process_id (pcbs s5 (current_process s5))) s5;
      (error, s7) \<leftarrow> add_process_to_scheduler ?p s6;
      if error < 0 then Some (-1, s7) else Some (process_id, preempt_enable s7)
    }"
    using a(1,2) by (simp add: copy_process_def Let_def task_pt_regs_def case_prod_beta' Option.bind_assoc)
  have "pcbs ?t ?p = zero_pcb" by (simp add: zero_pcb_def)
  moreover have "pcbs ?t q = pcbs ?s1 q" if "q \<noteq> ?p" for q using that by simp
  moreover have "free_pages (phys ?t) = free_pages (phys s) - {u}"
    using a(6) ph1 by simp
  moreover have "mem (phys ?t) b = mem (phys s) b" if "\<not> in_page u b" for b
    unfolding mt using set_up_outside(2,3) [OF a(4) that refl] keep [OF that] by simp
  moreover have "saved_register (mem (phys ?t)) u i = (if i = 0 then 0 else saved_register (mem (phys s)) c i)" if "i < 34" for i
    by (rule copied_frame [OF a(4) cur(3) _ that _ refl mt]) (use uc keep in auto)
  ultimately show ?thesis using e rt nl uc a(3,4) ph1 c1 by (intro exI [of _ u] exI [of _ ?t] conjI) (assumption | simp)+
qed

text \<open>The last part: registration of a filled PCB under the next pid.\<close>

lemma register_child:
  assumes rep: "sched_rep t Q" and pk: "packed t" "n_processes t < int N_PROCESSES" and nl: "\<not> live t p" "p \<noteq> Init_process"
    and par: "1 \<le> priority par" "tickets par < 2 ^ 57"
  shows "\<exists>s7 Q7. add_process_to_scheduler p (modify_pcb p (inherit e fl r (n_processes t) par) t) = Some (0, s7) \<and>
    sched_rep s7 Q7 \<and> packed s7 \<and> n_processes s7 = n_processes t + 1 \<and> live s7 p \<and> (\<forall>a. live t a \<longrightarrow> live s7 a) \<and>
    core (pcbs s7) = core (pcbs (modify_pcb p (inherit e fl r (n_processes t) par) t)) \<and>
    current_process s7 = current_process t \<and> phys s7 = phys t"
proof -
  let ?s6 = "modify_pcb p (inherit e fl r (n_processes t) par) t"
  have r6: "sched_rep ?s6 Q" by (rule sched_rep_unregistered [OF rep nl(1)])
  have pid6: "pid (pcbs ?s6 p) = n_processes t" by (simp add: inherit_def)
  have len: "length (processes t) = N_PROCESSES" using table_okD(1) [OF sched_repD(2) [OF rep]] .
  have reg: "registrable p ?s6"
    using nl pk par by (auto simp: registrable_def live_def inherit_def packed_def nat_less_iff)
  obtain s7 Q7 where a: "add_process_to_scheduler p ?s6 = Some (0, s7)" "sched_rep s7 Q7" "n_processes s7 = n_processes ?s6 + 1"
    "live s7 p" "\<forall>a. live ?s6 a \<longrightarrow> live s7 a" "core (pcbs s7) = core (pcbs ?s6)" "current_process s7 = current_process ?s6"
    "phys s7 = phys ?s6" "processes s7 = (processes ?s6)[nat (pid (pcbs ?s6 p)) := Some p]"
    using add_process_spec [OF r6 reg] pk(2) by auto
  have "packed s7"
    using pk len a(3,9) unfolding packed_def pid6 by (auto simp: nth_list_update)
  then show ?thesis using a by (auto simp: live_def)
qed

lemma fork_ready_page:
  assumes "sched_rep s Q" "fork_ready n P c s"
  shows "c < N_PAGES \<and> c \<notin> free_pages (phys s)"
proof -
  note R = assms(2) [unfolded fork_ready_def]
  have "live s (Pcb_at (page_base c))" using sched_repD(4) [OF assms(1)] R by simp
  then obtain k where "k < N_PAGES" "page_base c = page_base k" "k \<notin> free_pages (phys s)" using R by blast
  then show ?thesis using page_base_inj [of c k] R by blast
qed

lemma copy_process_fork:
  assumes "sched_inv s" "fork_ready n P c s" "clone_flags AND 2 = 0"
  shows "\<exists>s' u. copy_process entry_address clone_flags fn argument s = Some (n_processes s, s') \<and>
    sched_inv s' \<and> packed s' \<and> n_processes s' = n_processes s + 1 \<and>
    u < N_PAGES \<and> u \<noteq> c \<and> (\<forall>b. in_page c b \<longrightarrow> mem (phys s') b = mem (phys s) b) \<and>
    \<not> live s (Pcb_at (page_base u)) \<and> live s' (Pcb_at (page_base u)) \<and> (\<forall>p. live s p \<longrightarrow> live s' p) \<and>
    pid (pcbs s' (Pcb_at (page_base u))) = n_processes s \<and> state (pcbs s' (Pcb_at (page_base u))) = PROCESS_READY \<and>
    priority (pcbs s' (Pcb_at (page_base u))) = priority (pcbs s (current_process s)) \<and>
    tickets (pcbs s' (Pcb_at (page_base u))) = tickets (pcbs s (current_process s)) \<and>
    est_burst (pcbs s' (Pcb_at (page_base u))) = est_burst (pcbs s (current_process s)) \<and>
    current_process s' = current_process s \<and>
    preempt_disabled (pcbs s' (current_process s)) = preempt_disabled (pcbs s (current_process s)) \<and>
    (\<forall>i < 34. saved_register (mem (phys s')) u i = (if i = 0 then 0 else saved_register (mem (phys s)) c i)) \<and>
    (\<forall>i < n. \<forall>va. same_page (virtual_address (user_pages (mm (pcbs s (current_process s))) ! i)) va \<longrightarrow>
      user_byte s' (Pcb_at (page_base u)) va =
        Some (mem (phys s) (physical_address (user_pages (mm (pcbs s (current_process s))) ! i) + VA_START + (va AND 0xfff))))"
proof -
  obtain Q where rep: "sched_rep s Q" using assms(1) by (auto simp: sched_inv_def)
  note R = assms(2) [unfolded fork_ready_def]
  let ?c = "current_process s"
  obtain u t where F: "u \<in> free_pages (phys s)" "u < N_PAGES" "u \<noteq> c" "\<not> live s (Pcb_at (page_base u))"
    "copy_process entry_address clone_flags fn argument s = do {
      (error, s5) \<leftarrow> copy_virtual_memory (Pcb_at (page_base u)) t;
      let process_id = n_processes s5;
      let s6 = modify_pcb (Pcb_at (page_base u)) (inherit entry_address clone_flags (page_base u + THREAD_SIZE - of_nat PT_REGS_SIZE)
          process_id (pcbs s5 (current_process s5))) s5;
      (error, s7) \<leftarrow> add_process_to_scheduler (Pcb_at (page_base u)) s6;
      if error < 0 then Some (-1, s7) else Some (process_id, preempt_enable s7)
    }"
    "sched_rep t Q" "current_process t = ?c" "processes t = processes s" "n_processes t = n_processes s"
    "\<forall>q. q \<noteq> Pcb_at (page_base u) \<longrightarrow> pcbs t q = pcbs (preempt_disable s) q" "pcbs t (Pcb_at (page_base u)) = zero_pcb"
    "free_pages (phys t) = free_pages (phys s) - {u}" "\<forall>b. \<not> in_page u b \<longrightarrow> mem (phys t) b = mem (phys s) b"
    "\<forall>i < 34. saved_register (mem (phys t)) u i = (if i = 0 then 0 else saved_register (mem (phys s)) c i)"
    using fork_setup [OF rep assms(2,3), of entry_address fn argument] by (elim exE conjE) (rule that)
  let ?p = "Pcb_at (page_base u)" and ?r = "page_base u + THREAD_SIZE - of_nat PT_REGS_SIZE"
  have lc: "live s ?c" using sched_repD(4) [OF rep] .
  then have pc: "?p \<noteq> ?c" using F(4) by auto
  have mmc: "mm (pcbs t ?c) = mm (pcbs s ?c)" using F(10) pc by (simp add: preempt_disable_def)
  let ?sp = "user_pages (mm (pcbs s ?c))"
  have src: "source_pages_ok n P (mm (pcbs t (current_process t))) (phys t)"
    unfolding F(7) mmc by (rule source_pages_shrink [where ph = "phys s"]) (use R in blast, use F(12) in blast)
  have d: "?p \<noteq> current_process t" using pc F(7) by simp
  have dest: "no_pages (mm (pcbs t ?p))" unfolding F(11) using zero_mm_no_pages by (simp add: zero_pcb_def)
  have "card (free_pages (phys t)) = card (free_pages (phys s)) - 1" using F(1,12) by simp
  moreover have "n + 5 \<le> card (free_pages (phys s))" using R by blast
  ultimately have free: "n + 4 \<le> card (free_pages (phys t))" by linarith
  obtain m' ph' where C: "copy_virtual_memory ?p t = Some (0, with_mm ?p m' ph' t)"
    "\<forall>i < n. virtual_address (user_pages m' ! i) = virtual_address (?sp ! i) \<and>
      (\<forall>va. same_page (virtual_address (?sp ! i)) va \<longrightarrow>
        user_byte (with_mm ?p m' ph' t) ?p va = Some (mem (phys t) (physical_address (?sp ! i) + VA_START + (va AND 0xfff))))"
    "\<forall>b. (\<forall>k \<in> free_pages (phys t). \<not> in_page k b) \<longrightarrow> mem ph' b = mem (phys t) b"
    using copy_virtual_memory_spec [OF src d dest free] unfolding F(7) mmc by blast
  let ?t5 = "with_mm ?p m' ph' t" and ?par = "pcbs (with_mm ?p m' ph' t) ?c"
  have lt: "\<not> live t ?p" using F(4,8) by (simp add: live_def)
  have r5: "sched_rep ?t5 Q" unfolding with_mm_def
    by (rule sched_rep_unregistered [OF sched_rep_phys [OF F(6)]]) (use lt in \<open>simp add: live_def\<close>)
  have pr5: "processes ?t5 = processes s" "n_processes ?t5 = n_processes s" by (simp_all add: with_mm_def F(8,9))
  have pk5: "packed ?t5" "n_processes ?t5 < int N_PROCESSES" using R pr5 by (simp_all add: packed_def)
  have l5: "\<not> live ?t5 ?p" using F(4) pr5 by (simp add: live_def)
  have par: "?par = pcbs (preempt_disable s) ?c" using pc F(10) by simp
  have par': "priority ?par = priority (pcbs s ?c)" "tickets ?par = tickets (pcbs s ?c)" "est_burst ?par = est_burst (pcbs s ?c)"
    unfolding par by (simp_all add: preempt_disable_def)
  have ok: "1 \<le> priority ?par" "tickets ?par < 2 ^ 57"
    unfolding par' using table_okD(6,7) [OF sched_repD(2) [OF rep] lc] by simp_all
  obtain s7 Q7 where A: "add_process_to_scheduler ?p (modify_pcb ?p (inherit entry_address clone_flags ?r (n_processes ?t5) ?par) ?t5) = Some (0, s7)"
    "sched_rep s7 Q7" "packed s7" "n_processes s7 = n_processes ?t5 + 1" "live s7 ?p" "\<forall>a. live ?t5 a \<longrightarrow> live s7 a"
    "core (pcbs s7) = core (pcbs (modify_pcb ?p (inherit entry_address clone_flags ?r (n_processes ?t5) ?par) ?t5))"
    "current_process s7 = current_process ?t5" "phys s7 = phys ?t5"
    using register_child [OF r5 pk5 l5 _ ok] by blast
  let ?s' = "preempt_enable s7"
  have cp: "copy_process entry_address clone_flags fn argument s = Some (n_processes s, ?s')"
    unfolding F(5) C(1) using A(1) F(7) pr5 by simp
  have cur7: "current_process s7 = ?c" using A(8) F(7) by simp
  have child: "core (pcbs s7) ?p = (inherit entry_address clone_flags ?r (n_processes s) ?par (pcbs ?t5 ?p))\<lparr>next_ready := None\<rparr>"
    using A(7) pr5 by (simp add: core_def)
  have ch: "pid (pcbs s7 ?p) = n_processes s" "state (pcbs s7 ?p) = PROCESS_READY" "priority (pcbs s7 ?p) = priority (pcbs s ?c)"
    "tickets (pcbs s7 ?p) = tickets (pcbs s ?c)" "est_burst (pcbs s7 ?p) = est_burst (pcbs s ?c)" "mm (pcbs s7 ?p) = m'"
    using arg_cong [OF child, of pid] arg_cong [OF child, of state] arg_cong [OF child, of priority]
      arg_cong [OF child, of tickets] arg_cong [OF child, of est_burst] arg_cong [OF child, of mm]
    by (simp_all add: core_def inherit_def par')
  have other: "core (pcbs s7) ?c = (pcbs (preempt_disable s) ?c)\<lparr>next_ready := None\<rparr>"
    using A(7) pc par by (simp add: core_def)
  have "preempt_disabled (pcbs s7 ?c) = preempt_disabled (pcbs s ?c) + 1"
    using arg_cong [OF other, of preempt_disabled] by (simp add: core_def preempt_disable_def)
  then have pd: "preempt_disabled (pcbs ?s' ?c) = preempt_disabled (pcbs s ?c)" using cur7 by (simp add: preempt_enable_def)
  have ph: "phys ?s' = ph'" using A(9) by (simp add: preempt_enable_def)
  have fields: "pid (pcbs ?s' ?p) = n_processes s" "state (pcbs ?s' ?p) = PROCESS_READY" "priority (pcbs ?s' ?p) = priority (pcbs s ?c)"
    "tickets (pcbs ?s' ?p) = tickets (pcbs s ?c)" "est_burst (pcbs ?s' ?p) = est_burst (pcbs s ?c)" "mm (pcbs ?s' ?p) = m'"
    using pc cur7 ch by (simp_all add: preempt_enable_def)
  have regs: "saved_register (mem (phys ?s')) u i = (if i = 0 then 0 else saved_register (mem (phys s)) c i)" if i: "i < 34" for i
  proof -
    have "mem ph' b = mem (phys t) b" if "in_page u b" for b
    proof -
      have "\<forall>k \<in> free_pages (phys t). \<not> in_page k b"
        using in_page_unique [OF _ F(2) _ that] F(12) by (auto simp: free_pages_def)
      then show ?thesis using C(3) by blast
    qed
    then have "saved_register (mem ph') u i = saved_register (mem (phys t)) u i"
      unfolding saved_register_def by (intro load64_cong) (use saved_register_byte(1) [OF F(2) i] in blast)
    then show ?thesis using F(14) i ph by simp
  qed
  have data: "user_byte ?s' ?p va = Some (mem (phys s) (physical_address (?sp ! i) + VA_START + (va AND 0xfff)))" if i: "i < n" "same_page (virtual_address (?sp ! i)) va" for i va
  proof -
    obtain k where k: "k < N_PAGES" "k \<notin> free_pages (phys s)" "physical_address (?sp ! i) = page_address k"
      using R i(1) by (auto simp: source_pages_ok_def)
    have off: "unat (va AND 0xfff) < 4096"
      by (simp only: low12 unsigned_take_bit_eq) (simp add: take_bit_eq_mod)
    let ?a = "physical_address (?sp ! i) + VA_START + (va AND 0xfff)"
    have "in_page k ?a" using in_page_offset [OF k(1) off] by (simp add: k(3) page_base_def)
    then have "\<not> in_page u ?a" using in_page_unique [OF k(1) F(2)] k(2) F(1) by blast
    then have "mem (phys t) ?a = mem (phys s) ?a" using F(13) by blast
    moreover have "user_byte ?s' ?p va = user_byte ?t5 ?p va" by (simp add: user_byte_def ph fields(6))
    ultimately show ?thesis using C(2) i by simp
  qed
  have own: "mem (phys ?s') b = mem (phys s) b" if b: "in_page c b" for b
  proof -
    have c: "c < N_PAGES" "c \<notin> free_pages (phys s)" using fork_ready_page [OF rep assms(2)] by simp_all
    have "\<forall>k \<in> free_pages (phys t). \<not> in_page k b"
      using in_page_unique [OF _ c(1) _ b] c(2) F(12) by (auto simp: free_pages_def)
    then have "mem ph' b = mem (phys t) b" using C(3) by blast
    also have "\<dots> = mem (phys s) b" using in_page_unique [OF F(2) c(1) _ b] F(3,13) by blast
    finally show ?thesis using ph by simp
  qed
  have "sched_inv ?s'" using sched_rep_preempt(2) [OF A(2)] by (auto simp: sched_inv_def)
  moreover have "packed ?s'" "n_processes ?s' = n_processes s + 1" "live ?s' ?p" "\<forall>p. live s p \<longrightarrow> live ?s' p" "current_process ?s' = ?c"
    using A(3-6) pr5 cur7 by (simp_all add: preempt_enable_def packed_def live_def)
  ultimately show ?thesis using cp F(2-4) own fields pd regs data by (intro exI [of _ ?s'] exI [of _ u] conjI) blast+
qed



text \<open>
  A parent that occupies page 0 and has one user page, page 1, mapped at virtual address 0x3000. Its saved
  register 8 holds 12, the number of the fork system call.
\<close>

definition fork_memory :: phys_memory where
  "fork_memory = \<lparr>memory_pages = (\<lambda>_. 0)(0 := 1, 1 := 1), mem = (\<lambda>_. 0)(page_base 0 + 3888 := 12)\<rparr>"

definition parent_kernel :: "mm_struct \<Rightarrow> phys_memory \<Rightarrow> kernel" where
  "parent_kernel m ph = (boot_kernel sched_sjf (\<lambda>_. 0) zero_context (\<lambda>_. 0))\<lparr>
     pcbs := (\<lambda>_. zero_pcb)(Init_process := INIT_PROCESS,
       Pcb_at (page_base 0) := (demo_pcb 1 PROCESS_RUNNING 4 2 10 None)\<lparr>mm := m\<rparr>),
     current_process := Pcb_at (page_base 0), n_processes := 2,
     processes := [Some Init_process, Some (Pcb_at (page_base 0))] @ replicate 62 None, phys := ph\<rparr>"

lemma parent_kernel_simps [simp]:
  "pcbs (parent_kernel m ph) (Pcb_at (page_base 0)) = (demo_pcb 1 PROCESS_RUNNING 4 2 10 None)\<lparr>mm := m\<rparr>"
  "pcbs (parent_kernel m ph) Init_process = INIT_PROCESS"
  "current_process (parent_kernel m ph) = Pcb_at (page_base 0)" "n_processes (parent_kernel m ph) = 2"
  "processes (parent_kernel m ph) = [Some Init_process, Some (Pcb_at (page_base 0))] @ replicate 62 None"
  "phys (parent_kernel m ph) = ph" "active_algorithm (parent_kernel m ph) = sched_sjf"
  "queue_level (parent_kernel m ph) = replicate 64 0"
  by (simp_all add: parent_kernel_def boot_kernel_def)

lemma parent_live: "live (parent_kernel m ph) p \<longleftrightarrow> p = Init_process \<or> p = Pcb_at (page_base 0)"
  by (auto simp: live_def)

lemma parent_rep: "sched_rep (parent_kernel m ph) (\<lambda>_. [])"
proof -
  let ?s = "parent_kernel m ph" and ?xs = "[Some Init_process, Some (Pcb_at (page_base 0))]"
  have slot: "pid (pcbs ?s p) = int i" if "i < 64" "processes ?s ! i = Some p" for i p
  proof -
    have xs: "i < length ?xs \<and> ?xs ! i = Some p" using that by (intro padded_slot [of ?xs 62]) simp_all
    then have "i = 0 \<or> i = 1" by auto
    with xs show ?thesis by auto
  qed
  have "1 \<le> priority (pcbs ?s p) \<and> tickets (pcbs ?s p) < 2 ^ 57" if "live ?s p" for p
    using that unfolding parent_live by auto
  then have tb: "table_ok ?s" using slot unfolding table_ok_def by (simp add: sched_algorithms_def)
  have "get_queue r ?s = get_queue r (boot_kernel sched_sjf (\<lambda>_. 0) zero_context (\<lambda>_. 0))" for r
    by (simp add: get_queue_def parent_kernel_def split: queue_ref.splits)
  moreover have "sched_rep (boot_kernel sched_sjf (\<lambda>_. 0) zero_context (\<lambda>_. 0)) (\<lambda>_. [])"
    by (rule boot_rep) (simp add: sched_algorithms_def)
  ultimately have "queues_rep ?s (\<lambda>_. [])"
    using sched_repD(1) by (fastforce simp: queues_rep_def queue_rep_def parent_kernel_def)
  then show ?thesis using tb by (auto simp: sched_rep_def discipline_def queued_def parent_live)
qed

lemma parent_ready:
  "\<exists>m ph. sched_inv (parent_kernel m ph) \<and> fork_ready 1 (table_path 0x3000) 0 (parent_kernel m ph) \<and>
     user_pages m ! 0 = \<lparr>physical_address = page_address 1, virtual_address = 0x3000\<rparr> \<and>
     (\<forall>va. same_page 0x3000 va \<longrightarrow> user_byte (parent_kernel m ph) (Pcb_at (page_base 0)) va =
        Some (mem ph (page_address 1 + VA_START + (va AND 0xfff)))) \<and>
     (\<forall>b. in_page 0 b \<longrightarrow> mem ph b = mem fork_memory b)"
proof -
  have free: "free_pages fork_memory = {..<257024} - {0, 1}" by (auto simp: free_pages_def fork_memory_def)
  have ok: "tables_ok fork_memory Map.empty" by (simp add: tables_ok_def table_rep_def)
  have c: "4 + 100 \<le> card (free_pages fork_memory)" unfolding free by (simp add: card_Diff_subset)
  obtain m ph T where m: "map_page_mm 0x3000 (page_address 1) (zero_mm, fork_memory) = Some (m, ph)" "tables_ok ph T" "rooted m T"
    "pgd m \<noteq> 0" "100 \<le> card (free_pages ph)" "mapped 0x3000 (page_address 1) Map.empty fork_memory T ph"
    "user_page_added \<lparr>physical_address = page_address 1, virtual_address = 0x3000\<rparr> zero_mm m"
    using map_page_mm_spec [OF ok zero_mm_ok c, of "0x3000" "page_address 1"] by blast
  let ?s = "parent_kernel m ph" and ?va = "0x3000 :: 64 word"
  have sub: "free_pages ph \<subseteq> {..<257024} - {0, 1}" using m(6) unfolding mapped_def free by blast
  have pages: "n_user_pages m = 1" "user_pages m ! 0 = \<lparr>physical_address = page_address 1, virtual_address = ?va\<rparr>"
    "length (user_pages m) = MAX_PROCESS_PAGES"
    using m(7) by (simp_all add: user_page_added_def zero_mm_def)
  have tr: "translate (mem ph) (pgd m) va = Some (page_address 1 OR (va AND 0xfff))" if "same_page ?va va" for va
    using mapped_translate [OF ok zero_mm_ok(1) m(2-4,6) refl, of va] that by simp
  have ub: "user_byte ?s (Pcb_at (page_base 0)) va = Some (mem ph (page_address 1 + VA_START + (va AND 0xfff)))" if "same_page ?va va" for va
    using tr [OF that] page_address_or [of 1 va] by (simp add: user_byte_def algebra_simps)
  have src: "source_pages_ok 1 (table_path ?va) m ph"
    using pages sub by (auto simp: source_pages_ok_def intro!: exI [of _ 1])
  have pk: "packed ?s" by (auto simp: packed_def nth_append nth_Cons' split: if_splits)
  have lv: "\<forall>w. live ?s (Pcb_at w) \<longrightarrow> (\<exists>k < N_PAGES. w = page_base k \<and> k \<notin> free_pages ph)"
    using sub by (auto simp: parent_live intro!: exI [of _ 0])
  have ready: "fork_ready 1 (table_path ?va) 0 ?s"
    unfolding fork_ready_def using src pk lv m(5) by simp
  have inv: "sched_inv ?s" using parent_rep by (auto simp: sched_inv_def)
  have own: "mem ph b = mem fork_memory b" if b: "in_page 0 b" for b
  proof -
    have "\<not> in_page t b" if t: "T p = Some t" for p t
    proof
      assume "in_page t b"
      moreover have "t \<in> free_pages fork_memory" using m(6) t by (simp add: mapped_def)
      ultimately show False using in_page_unique [of t 0 b] b unfolding free by simp
    qed
    then show ?thesis using m(6) unfolding mapped_def by blast
  qed
  show ?thesis using inv ready pages ub own by (intro exI [of _ m] exI [of _ ph]) simp
qed


end
