(* ===== verification/User_Memory.thy ===== *)
theory User_Memory
  imports Page_Mapping Uart
begin

section \<open>Memory through pointers\<close>

text \<open>
  How the kernel reaches the bytes behind a pointer while it runs for a process: an address from
  \<^verbatim>\<open>VA_START\<close> on is in the linear map that \<^verbatim>\<open>boot/start.S\<close> sets up over the RAM, a lower one is
  translated by the tables in \<^verbatim>\<open>TTBR0_EL1\<close>. \<open>None\<close> is a fault (or a device register). The kernel
  uses the pointers of a system call as they are, without a check of their range.
\<close>

definition kernel_address :: "64 word \<Rightarrow> bool" where
  "kernel_address a \<longleftrightarrow> VA_START \<le> a"

definition byte_address :: "bytes \<Rightarrow> 64 word \<Rightarrow> 64 word \<Rightarrow> 64 word option" where
  "byte_address m ttbr0 a =
     (if kernel_address a then (if a - VA_START < 0x3F000000 then Some a else None)
      else map_option (\<lambda>pa. pa + VA_START) (translate m ttbr0 a))"

definition load_byte :: "64 word \<Rightarrow> kernel \<Rightarrow> 8 word option" where
  "load_byte a s = map_option (mem (phys s)) (byte_address (mem (phys s)) (ttbr0_el1 s) a)"

definition store_byte :: "64 word \<Rightarrow> 8 word \<Rightarrow> kernel \<Rightarrow> kernel option" where
  "store_byte a b s =
     map_option (\<lambda>k. s\<lparr>phys := (phys s)\<lparr>mem := (mem (phys s))(k := b)\<rparr>\<rparr>) (byte_address (mem (phys s)) (ttbr0_el1 s) a)"

primrec store_string :: "64 word \<Rightarrow> 8 word list \<Rightarrow> kernel \<Rightarrow> kernel option" where
  "store_string a [] s = Some s"
| "store_string a (b # bs) s = Option.bind (store_byte a b s) (store_string (a + 1) bs)"

primrec load_block :: "64 word \<Rightarrow> nat \<Rightarrow> kernel \<Rightarrow> 8 word list option" where
  "load_block a 0 s = Some []"
| "load_block a (Suc n) s = do {
     b \<leftarrow> load_byte a s;
     bs \<leftarrow> load_block (a + 1) n s;
     Some (b # bs)
   }"

abbreviation (input) to_char :: "8 word \<Rightarrow> char" where "to_char b \<equiv> char_of (unat b)"
abbreviation (input) to_byte :: "char \<Rightarrow> 8 word" where "to_byte c \<equiv> of_char c"

text \<open>A C string, with its terminator.\<close>

partial_function (option) load_string :: "64 word \<Rightarrow> kernel \<Rightarrow> char list option" where
  "load_string a s = do {
     b \<leftarrow> load_byte a s;
     if b = 0 then Some [NUL]
     else do {
       cs \<leftarrow> load_string (a + 1) s;
       Some (to_char b # cs)
     }
   }"

text \<open>A 32-bit \<^verbatim>\<open>int\<close>, little endian.\<close>

definition store_int :: "64 word \<Rightarrow> int \<Rightarrow> kernel \<Rightarrow> kernel option" where
  "store_int a v s = (let w = word_of_int v :: 32 word in
     store_string a [ucast w, ucast (drop_bit 8 w), ucast (drop_bit 16 w), ucast (drop_bit 24 w)] s)"

subsection \<open>Buffers\<close>

text \<open>
  \<open>buffer_at f a n s\<close>: the \<open>n\<close> bytes at pointer \<open>a\<close> are the distinct bytes \<open>f 0\<close> to \<open>f (n - 1)\<close> of
  memory, and writing to them does not change their own translation.
\<close>

definition buffer_at :: "(nat \<Rightarrow> 64 word) \<Rightarrow> 64 word \<Rightarrow> nat \<Rightarrow> kernel \<Rightarrow> bool" where
  "buffer_at f a n s \<longleftrightarrow> inj_on f {..<n} \<and>
     (\<forall>m. (\<forall>x. x \<notin> f ` {..<n} \<longrightarrow> m x = mem (phys s) x) \<longrightarrow>
        (\<forall>i < n. byte_address m (ttbr0_el1 s) (a + of_nat i) = Some (f i)))"

lemma buffer_at_store:
  assumes "buffer_at f a n s" "i < n"
  shows "store_byte (a + of_nat i) b s = Some (s\<lparr>phys := (phys s)\<lparr>mem := (mem (phys s))(f i := b)\<rparr>\<rparr>)"
    "buffer_at f a n (s\<lparr>phys := (phys s)\<lparr>mem := (mem (phys s))(f i := b)\<rparr>\<rparr>)"
proof -
  have "byte_address (mem (phys s)) (ttbr0_el1 s) (a + of_nat i) = Some (f i)"
    using assms by (simp add: buffer_at_def)
  then show "store_byte (a + of_nat i) b s = Some (s\<lparr>phys := (phys s)\<lparr>mem := (mem (phys s))(f i := b)\<rparr>\<rparr>)"
    by (simp add: store_byte_def)
  have "f i \<in> f ` {..<n}" using assms(2) by simp
  then show "buffer_at f a n (s\<lparr>phys := (phys s)\<lparr>mem := (mem (phys s))(f i := b)\<rparr>\<rparr>)"
    using assms(1) unfolding buffer_at_def by (auto simp: fun_upd_def)
qed

lemma buffer_at_cong:
  "mem (phys s') = mem (phys s) \<Longrightarrow> ttbr0_el1 s' = ttbr0_el1 s \<Longrightarrow> buffer_at f a n s' = buffer_at f a n s"
  by (simp add: buffer_at_def)

text \<open>A buffer inside the kernel's linear map.\<close>

lemma kernel_buffer:
  assumes "VA_START \<le> a" "unat (a - VA_START) + n \<le> 0x3F000000"
  shows "buffer_at (\<lambda>i. a + of_nat i) a n s"
proof -
  have sz: "unat (a + of_nat i) = unat a + i" "unat (a + of_nat i - VA_START) = unat (a - VA_START) + i" if "i < n" for i
  proof -
    have d: "unat (a - VA_START) = unat a - unat VA_START" using assms(1) by (simp add: unat_sub)
    have le: "unat VA_START \<le> unat a" using assms(1) by (simp add: word_le_nat_alt)
    have "unat (of_nat i :: 64 word) = i" using assms(2) that by (intro unat_of_nat_small) simp
    moreover have "unat a + i < 2 ^ 64" using assms(2) that d le by simp
    ultimately show s: "unat (a + of_nat i) = unat a + i" by (simp add: unat_plus_if_size word_size)
    have "VA_START \<le> a + of_nat i" using s le by (simp add: word_le_nat_alt)
    then have "unat (a + of_nat i - VA_START) = unat (a + of_nat i) - unat VA_START" by (rule unat_sub)
    then show "unat (a + of_nat i - VA_START) = unat (a - VA_START) + i" using s d le by linarith
  qed
  have "byte_address m t (a + of_nat i) = Some (a + of_nat i)" if i: "i < n" for m t i
  proof -
    have "VA_START \<le> a + of_nat i" using sz(1) [OF i] assms(1) by (simp add: word_le_nat_alt)
    moreover have "a + of_nat i - VA_START < 0x3F000000" using sz(2) [OF i] assms(2) i by (simp add: word_less_nat_alt)
    ultimately show ?thesis by (simp add: byte_address_def kernel_address_def)
  qed
  moreover have "inj_on (\<lambda>i. a + of_nat i) {..<n}"
    by (rule inj_onI) (use sz(1) in \<open>metis lessThan_iff add_left_cancel\<close>)
  ultimately show ?thesis by (simp add: buffer_at_def)
qed

end
