(* ===== verification/Fat_State.thy ===== *)
theory Fat_State
  imports Kernel_Prelude
begin

section \<open>The state of the FAT32 library\<close>

text \<open>
  The structs of \<^verbatim>\<open>libs/fat32/fat.h\<close> and the globals of \<^verbatim>\<open>libs/fat32/fat.c\<close>. The disk behind the callbacks of a
  volume is a state \<open>'d\<close>. A \<^verbatim>\<open>Fat*\<close> is a number into the store of volumes, a \<^verbatim>\<open>File*\<close> an address, and a \<^verbatim>\<open>Dir*\<close> an address or one of the
  local variables \<^verbatim>\<open>dir\<close> and \<^verbatim>\<open>tmp\<close>. An operation on the state has no defined outcome (\<open>None\<close>), or
  ends with an error code (\<open>Inl\<close>) or with a value (\<open>Inr\<close>; \<^verbatim>\<open>FAT_ERR_NONE\<close>), and in both cases with a new state.
\<close>

record Timestamp =
  ts_hour :: "8 word"
  ts_min :: "8 word"
  ts_sec :: "8 word"
  ts_day :: "8 word"
  ts_month :: "8 word"
  ts_year :: "16 word"

record 'd DiskOps =
  op_read :: "8 word list \<Rightarrow> 32 word \<Rightarrow> 'd \<Rightarrow> bool \<times> 8 word list \<times> 'd"
  op_write :: "8 word list \<Rightarrow> 32 word \<Rightarrow> 'd \<Rightarrow> bool \<times> 'd"

record 'd Fat =
  f_next :: "nat option"
  f_ops :: "'d DiskOps"
  f_clust_msk :: "32 word"
  f_clust_cnt :: "32 word"
  f_info_sect :: "32 word"
  f_fat_sect0 :: "32 word"
  f_fat_sect1 :: "32 word"
  f_data_sect :: "32 word"
  f_root_clust :: "32 word"
  f_last_used :: "32 word"
  f_free_cnt :: "32 word"
  f_sect :: "32 word"
  f_buf :: "8 word list"
  f_flags :: "8 word"
  f_clust_shift :: "8 word"
  f_name_len :: "8 word"
  f_name :: "8 word list"

record DirInfo =
  info_created :: Timestamp
  info_modified :: Timestamp
  info_size :: "32 word"
  info_attr :: "8 word"
  info_name :: "8 word list"
  info_name_len :: "8 word"

record Dir =
  d_fat :: "nat option"
  d_sclust :: "32 word"
  d_clust :: "32 word"
  d_sect :: "32 word"
  d_idx :: "16 word"

record File =
  fl_fat :: "nat option"
  fl_dir_sect :: "32 word"
  fl_sclust :: "32 word"
  fl_clust :: "32 word"
  fl_sect :: "32 word"
  fl_size :: "32 word"
  fl_offset :: "32 word"
  fl_dir_idx :: "16 word"
  fl_attr :: "8 word"
  fl_flags :: "8 word"
  fl_buf :: "8 word list"

record Loc =
  loc_sect :: "32 word"
  loc_idx :: "16 word"

datatype dir_handle = Local_Dir | Local_Tmp | Dir_At "64 word"

text \<open>The local \<^verbatim>\<open>Loc loc\<close> of \<^verbatim>\<open>fat_stat\<close> and \<^verbatim>\<open>fat_unlink\<close> is the field \<open>fs_loc\<close>, uninitialised at first.\<close>

record 'd fat_state =
  fs_fats :: "nat \<Rightarrow> 'd Fat"
  fs_dirs :: "dir_handle \<Rightarrow> Dir"
  fs_files :: "64 word \<Rightarrow> File"
  fs_list :: "nat option"
  fs_buf :: "8 word list"
  fs_len :: "16 word"
  fs_crc :: "8 word"
  fs_loc :: "Loc option"
  fs_disk :: 'd

abbreviation (input) FAT_ERR_NOFAT :: int where "FAT_ERR_NOFAT \<equiv> -1"
abbreviation (input) FAT_ERR_BROKEN :: int where "FAT_ERR_BROKEN \<equiv> -2"
abbreviation (input) FAT_ERR_IO :: int where "FAT_ERR_IO \<equiv> -3"
abbreviation (input) FAT_ERR_PARAM :: int where "FAT_ERR_PARAM \<equiv> -4"
abbreviation (input) FAT_ERR_PATH :: int where "FAT_ERR_PATH \<equiv> -5"
abbreviation (input) FAT_ERR_EOF :: int where "FAT_ERR_EOF \<equiv> -6"
abbreviation (input) FAT_ERR_DENIED :: int where "FAT_ERR_DENIED \<equiv> -7"
abbreviation (input) FAT_ERR_FULL :: int where "FAT_ERR_FULL \<equiv> -8"

subsection \<open>Operations\<close>

type_synonym ('a, 'd) fat_op = "'d fat_state \<Rightarrow> ((int + 'a) \<times> 'd fat_state) option"

named_theorems fat_run \<open>running operations of the library\<close>

definition fs_return :: "'a \<Rightarrow> ('a, 'd) fat_op" where
  "fs_return a s = Some (Inr a, s)"

definition fs_fail :: "int \<Rightarrow> ('a, 'd) fat_op" where
  "fs_fail e s = Some (Inl e, s)"

definition fs_get :: "('d fat_state \<Rightarrow> 'a) \<Rightarrow> ('a, 'd) fat_op" where
  "fs_get f s = Some (Inr (f s), s)"

definition fs_modify :: "('d fat_state \<Rightarrow> 'd fat_state) \<Rightarrow> (unit, 'd) fat_op" where
  "fs_modify f s = Some (Inr (), f s)"

definition fs_lift :: "'a option \<Rightarrow> ('a, 'd) fat_op" where
  "fs_lift r s = map_option (\<lambda>a. (Inr a, s)) r"

text \<open>\<^verbatim>\<open>err = m(); if (err) return err; ...\<close>\<close>

definition fs_bind :: "('a, 'd) fat_op \<Rightarrow> ('a \<Rightarrow> ('b, 'd) fat_op) \<Rightarrow> ('b, 'd) fat_op" where
  "fs_bind m k s = (case m s of
     None \<Rightarrow> None
   | Some (Inl e, s1) \<Rightarrow> Some (Inl e, s1)
   | Some (Inr a, s1) \<Rightarrow> k a s1)"

definition fs_then :: "(unit, 'd) fat_op \<Rightarrow> ('b, 'd) fat_op \<Rightarrow> ('b, 'd) fat_op" where
  "fs_then m k = fs_bind m (\<lambda>_. k)"

definition fs_when :: "bool \<Rightarrow> (unit, 'd) fat_op \<Rightarrow> (unit, 'd) fat_op" where
  "fs_when b m = (if b then m else fs_return ())"

text \<open>The error code as a value: \<^verbatim>\<open>int err = m();\<close>.\<close>

definition fs_code :: "(unit, 'd) fat_op \<Rightarrow> (int, 'd) fat_op" where
  "fs_code m s = map_option (\<lambda>(r, s1). (Inr (case r of Inl e \<Rightarrow> e | Inr _ \<Rightarrow> 0), s1)) (m s)"

lemma fs_basic [fat_run]:
  "fs_return a s = Some (Inr a, s)" "fs_fail e s = Some (Inl e, s)" "fs_get f s = Some (Inr (f s), s)"
  "fs_modify g s = Some (Inr (), g s)" "fs_lift (Some a) s = Some (Inr a, s)" "fs_lift None s = None"
  by (simp_all add: fs_return_def fs_fail_def fs_get_def fs_modify_def fs_lift_def)

lemma fs_bind_run [fat_run]:
  "m s = Some (Inr a, s1) \<Longrightarrow> fs_bind m k s = k a s1"
  "m s = Some (Inl e, s1) \<Longrightarrow> fs_bind m k s = Some (Inl e, s1)"
  "m s = None \<Longrightarrow> fs_bind m k s = None"
  by (simp_all add: fs_bind_def)

lemma fs_then_run [fat_run]:
  "m s = Some (Inr a, s1) \<Longrightarrow> fs_then m k s = k s1"
  "m s = Some (Inl e, s1) \<Longrightarrow> fs_then m k s = Some (Inl e, s1)"
  "m s = None \<Longrightarrow> fs_then m k s = None"
  by (simp_all add: fs_then_def fs_bind_def)

lemma fs_when_run [fat_run]: "fs_when True m = m" "fs_when False m = fs_return ()"
  by (simp_all add: fs_when_def)

lemma fs_code_run [fat_run]:
  "m s = Some (Inr (), s1) \<Longrightarrow> fs_code m s = Some (Inr 0, s1)"
  "m s = Some (Inl e, s1) \<Longrightarrow> fs_code m s = Some (Inr e, s1)"
  by (simp_all add: fs_code_def)

lemma fs_bind_Inr:
  "fs_bind m k s = Some (Inr b, s2) \<longleftrightarrow> (\<exists>a s1. m s = Some (Inr a, s1) \<and> k a s1 = Some (Inr b, s2))"
  by (auto simp: fs_bind_def split: option.splits sum.splits)

text \<open>Loops over such operations are partial functions; these rules establish that their bodies are monotone.\<close>

lemma fs_bind_mono [partial_function_mono]:
  assumes "mono_option (\<lambda>f. m f s)" "\<And>a s1. mono_option (\<lambda>f. k f a s1)"
  shows "mono_option (\<lambda>f. fs_bind (m f) (k f) s)"
proof -
  have e: "fs_bind (m f) (k f) s = Option.bind (m f s) (\<lambda>(r, s1). case r of Inl e \<Rightarrow> Some (Inl e, s1) | Inr a \<Rightarrow> k f a s1)" for f
    by (auto simp: fs_bind_def split: option.splits sum.splits)
  have "mono_option (\<lambda>f. (case x of (r, s1) \<Rightarrow> (case r of Inl e \<Rightarrow> Some (Inl e, s1) | Inr a \<Rightarrow> k f a s1)))" for x
    by (cases x; cases "fst x") (simp_all add: option.const_mono assms(2))
  then show ?thesis unfolding e by (rule bind_mono [OF assms(1)])
qed

lemma fs_then_mono [partial_function_mono]:
  "mono_option (\<lambda>f. m f s) \<Longrightarrow> (\<And>s1. mono_option (\<lambda>f. k f s1)) \<Longrightarrow> mono_option (\<lambda>f. fs_then (m f) (k f) s)"
  unfolding fs_then_def by (rule fs_bind_mono)

lemma fs_if_mono [partial_function_mono]:
  "mono_option (\<lambda>f. m f s) \<Longrightarrow> mono_option (\<lambda>f. k f s) \<Longrightarrow> mono_option (\<lambda>f. (if b then m f else k f) s)"
  by (cases b) simp_all

lemma fs_prod_mono [partial_function_mono]:
  "(\<And>a b. mono_option (\<lambda>f. k f a b s)) \<Longrightarrow> mono_option (\<lambda>f. (case x of (a, b) \<Rightarrow> k f a b) s)"
  by (cases x) simp

subsection \<open>Volumes, directories and files by pointer\<close>

definition upd_fat :: "nat \<Rightarrow> ('d Fat \<Rightarrow> 'd Fat) \<Rightarrow> 'd fat_state \<Rightarrow> 'd fat_state" where
  "upd_fat p g s = s\<lparr>fs_fats := (fs_fats s)(p := g (fs_fats s p))\<rparr>"

definition upd_dir :: "dir_handle \<Rightarrow> (Dir \<Rightarrow> Dir) \<Rightarrow> 'd fat_state \<Rightarrow> 'd fat_state" where
  "upd_dir q g s = s\<lparr>fs_dirs := (fs_dirs s)(q := g (fs_dirs s q))\<rparr>"

definition upd_file :: "64 word \<Rightarrow> (File \<Rightarrow> File) \<Rightarrow> 'd fat_state \<Rightarrow> 'd fat_state" where
  "upd_file a g s = s\<lparr>fs_files := (fs_files s)(a := g (fs_files s a))\<rparr>"

definition the_fat :: "nat \<Rightarrow> ('d Fat, 'd) fat_op" where
  "the_fat p = fs_get (\<lambda>s. fs_fats s p)"

definition the_dir :: "dir_handle \<Rightarrow> (Dir, 'd) fat_op" where
  "the_dir q = fs_get (\<lambda>s. fs_dirs s q)"

definition the_file :: "64 word \<Rightarrow> (File, 'd) fat_op" where
  "the_file a = fs_get (\<lambda>s. fs_files s a)"

text \<open>\<^verbatim>\<open>dir->fat\<close>, about to be dereferenced.\<close>

definition dir_fat :: "dir_handle \<Rightarrow> (nat, 'd) fat_op" where
  "dir_fat q = fs_bind (the_dir q) (\<lambda>dr. fs_lift (d_fat dr))"

lemma the_run [fat_run]:
  "the_fat p s = Some (Inr (fs_fats s p), s)" "the_dir q s = Some (Inr (fs_dirs s q), s)"
  "the_file a s = Some (Inr (fs_files s a), s)"
  "d_fat (fs_dirs s q) = Some p \<Longrightarrow> dir_fat q s = Some (Inr p, s)"
  by (simp_all add: the_fat_def the_dir_def the_file_def dir_fat_def fat_run)

lemma upd_fat_simps [simp]:
  "fs_fats (upd_fat p g s) = (fs_fats s)(p := g (fs_fats s p))" "fs_dirs (upd_fat p g s) = fs_dirs s"
  "fs_files (upd_fat p g s) = fs_files s" "fs_disk (upd_fat p g s) = fs_disk s" "fs_list (upd_fat p g s) = fs_list s"
  "fs_buf (upd_fat p g s) = fs_buf s" "fs_len (upd_fat p g s) = fs_len s" "fs_crc (upd_fat p g s) = fs_crc s" "fs_loc (upd_fat p g s) = fs_loc s"
  by (simp_all add: upd_fat_def)

lemma upd_dir_simps [simp]:
  "fs_dirs (upd_dir q g s) = (fs_dirs s)(q := g (fs_dirs s q))" "fs_fats (upd_dir q g s) = fs_fats s"
  "fs_files (upd_dir q g s) = fs_files s" "fs_disk (upd_dir q g s) = fs_disk s" "fs_list (upd_dir q g s) = fs_list s"
  "fs_buf (upd_dir q g s) = fs_buf s" "fs_len (upd_dir q g s) = fs_len s" "fs_crc (upd_dir q g s) = fs_crc s" "fs_loc (upd_dir q g s) = fs_loc s"
  by (simp_all add: upd_dir_def)

lemma upd_file_simps [simp]:
  "fs_files (upd_file a g s) = (fs_files s)(a := g (fs_files s a))" "fs_fats (upd_file a g s) = fs_fats s"
  "fs_dirs (upd_file a g s) = fs_dirs s" "fs_disk (upd_file a g s) = fs_disk s" "fs_list (upd_file a g s) = fs_list s"
  "fs_buf (upd_file a g s) = fs_buf s" "fs_len (upd_file a g s) = fs_len s" "fs_crc (upd_file a g s) = fs_crc s" "fs_loc (upd_file a g s) = fs_loc s"
  by (simp_all add: upd_file_def)

subsection \<open>Little-endian fields of a sector\<close>

definition rd8 :: "8 word list \<Rightarrow> nat \<Rightarrow> 8 word option" where
  "rd8 b i = (if i < length b then Some (b ! i) else None)"

definition rd16 :: "8 word list \<Rightarrow> nat \<Rightarrow> 16 word option" where
  "rd16 b i = (if i + 1 < length b then Some (ucast (b ! i) OR push_bit 8 (ucast (b ! (i + 1)))) else None)"

definition rd32 :: "8 word list \<Rightarrow> nat \<Rightarrow> 32 word option" where
  "rd32 b i = (if i + 3 < length b
     then Some (ucast (b ! i) OR push_bit 8 (ucast (b ! (i + 1))) OR push_bit 16 (ucast (b ! (i + 2))) OR push_bit 24 (ucast (b ! (i + 3))))
     else None)"

definition wr8 :: "8 word list \<Rightarrow> nat \<Rightarrow> 8 word \<Rightarrow> 8 word list option" where
  "wr8 b i v = (if i < length b then Some (b[i := v]) else None)"

definition wr16 :: "8 word list \<Rightarrow> nat \<Rightarrow> 16 word \<Rightarrow> 8 word list option" where
  "wr16 b i v = (if i + 1 < length b then Some (b[i := ucast v, i + 1 := ucast (drop_bit 8 v)]) else None)"

definition wr32 :: "8 word list \<Rightarrow> nat \<Rightarrow> 32 word \<Rightarrow> 8 word list option" where
  "wr32 b i v = (if i + 3 < length b
     then Some (b[i := ucast v, i + 1 := ucast (drop_bit 8 v), i + 2 := ucast (drop_bit 16 v), i + 3 := ucast (drop_bit 24 v)])
     else None)"

lemma wr_length: "wr8 b i v = Some b' \<Longrightarrow> length b' = length b" "wr16 b i u = Some b' \<Longrightarrow> length b' = length b"
  "wr32 b i w = Some b' \<Longrightarrow> length b' = length b"
  by (auto simp: wr8_def wr16_def wr32_def split: if_splits)

lemma word16_bytes: "(ucast (ucast v :: 8 word) :: 16 word) OR push_bit 8 (ucast (ucast (drop_bit 8 v) :: 8 word)) = v"
  by (rule bit_word_eqI) (auto simp: bit_simps)

lemma word32_bytes:
  "(ucast (ucast v :: 8 word) :: 32 word) OR push_bit 8 (ucast (ucast (drop_bit 8 v) :: 8 word)) OR
    push_bit 16 (ucast (ucast (drop_bit 16 v) :: 8 word)) OR push_bit 24 (ucast (ucast (drop_bit 24 v) :: 8 word)) = v"
  (is "?w = v")
proof (rule bit_word_eqI)
  fix n assume "n < LENGTH(32)"
  then show "bit ?w n = bit v n"
    by (cases "n < 8"; cases "n < 16"; cases "n < 24") (auto simp: bit_simps)
qed

lemma rd32_wr32: "wr32 b i v = Some b' \<Longrightarrow> rd32 b' i = Some v"
  using word32_bytes [of v] by (auto simp: rd32_def wr32_def split: if_splits)

lemma rd16_wr16: "wr16 b i v = Some b' \<Longrightarrow> rd16 b' i = Some v"
  using word16_bytes [of v] by (auto simp: rd16_def wr16_def split: if_splits)

lemma rd32_wr32_other: "wr32 b i v = Some b' \<Longrightarrow> i + 4 \<le> j \<or> j + 4 \<le> i \<Longrightarrow> rd32 b' j = rd32 b j"
  by (auto simp: rd32_def wr32_def split: if_splits)

lemma rd_inside: "i < length b \<Longrightarrow> rd8 b i = Some (b ! i)" "i + 1 < length b \<Longrightarrow> \<exists>v. rd16 b i = Some v"
  "i + 3 < length b \<Longrightarrow> \<exists>v. rd32 b i = Some v"
  by (simp_all add: rd8_def rd16_def rd32_def)

lemma wr_inside: "i < length b \<Longrightarrow> \<exists>b'. wr8 b i v = Some b'" "i + 1 < length b \<Longrightarrow> \<exists>b'. wr16 b i u = Some b'"
  "i + 3 < length b \<Longrightarrow> \<exists>b'. wr32 b i w = Some b'"
  by (simp_all add: wr8_def wr16_def wr32_def)

lemma take_bit_small: "unat x < 2 ^ n \<Longrightarrow> take_bit n x = (x :: 'a :: len word)"
  by (metis take_bit_nat_eq_self unsigned_take_bit_eq unsigned_word_eqI)

end
