(* ===== verification/Filesystem.thy ===== *)
theory Filesystem
  imports User_Memory Fork Fat_State
begin

section \<open>The file system layer\<close>

text \<open>
  \<^verbatim>\<open>libs/filesystem.c\<close>, between the system calls and the FAT32 library. The library
  (\<^verbatim>\<open>libs/fat32/fat.c\<close>) and the SD card driver enter as a record of operations on a state
  \<open>'d\<close> that holds the card and the \<^verbatim>\<open>File\<close> and \<^verbatim>\<open>Dir\<close> objects, named by their addresses; Fat_Library supplies the record from the models of both. A path handed to the library is the array
  that holds it. The uninitialised \<^verbatim>\<open>char complete_path[128]\<close> is a parameter.
\<close>

abbreviation (input) FAT_MAX_PATH_SIZE :: nat where "FAT_MAX_PATH_SIZE \<equiv> 128"

record 'd sd_driver =
  sd_init :: "'d \<Rightarrow> int \<times> 'd"
  sd_readblock :: "32 word \<Rightarrow> 'd \<Rightarrow> int \<times> 8 word list \<times> 'd"
  sd_writeblock :: "8 word list \<Rightarrow> 32 word \<Rightarrow> 'd \<Rightarrow> int \<times> 'd"

record 'd fat_library = "'d sd_driver" +
  fat_probe :: "'d \<Rightarrow> int \<times> 'd"
  fat_mount :: "char list \<Rightarrow> 'd \<Rightarrow> int \<times> 'd"
  fat_dir_create :: "64 word \<Rightarrow> char list \<Rightarrow> 'd \<Rightarrow> int \<times> 'd"
  fat_dir_open :: "64 word \<Rightarrow> char list \<Rightarrow> 'd \<Rightarrow> int \<times> 'd"
  fat_file_open :: "64 word \<Rightarrow> char list \<Rightarrow> 8 word \<Rightarrow> 'd \<Rightarrow> int \<times> 'd"
  fat_file_close :: "64 word \<Rightarrow> 'd \<Rightarrow> int \<times> 'd"
  fat_file_read :: "64 word \<Rightarrow> int \<Rightarrow> 'd \<Rightarrow> int \<times> 8 word list \<times> 'd"
  fat_file_write :: "64 word \<Rightarrow> 8 word list \<Rightarrow> int \<Rightarrow> 'd \<Rightarrow> int \<times> int \<times> 'd"
  fat_file_seek :: "64 word \<Rightarrow> int \<Rightarrow> 'd \<Rightarrow> int \<times> 'd"
  fat_dir_read :: "64 word \<Rightarrow> 'd \<Rightarrow> int \<times> DirInfo \<times> 'd"
  fat_dir_next :: "64 word \<Rightarrow> 'd \<Rightarrow> int \<times> 'd"

subsection \<open>Mounting\<close>

definition sd_read_adapter :: "('d, 'm) sd_driver_scheme \<Rightarrow> 32 word \<Rightarrow> 'd \<Rightarrow> bool \<times> 8 word list \<times> 'd" where
  "sd_read_adapter L sector d = (let (res, bytes, d1) = sd_readblock L sector d in (res \<noteq> 0, bytes, d1))"

definition sd_write_adapter :: "('d, 'm) sd_driver_scheme \<Rightarrow> 8 word list \<Rightarrow> 32 word \<Rightarrow> 'd \<Rightarrow> bool \<times> 'd" where
  "sd_write_adapter L bytes sector d = (let (res, d1) = sd_writeblock L bytes sector d in (res \<noteq> 0, d1))"

abbreviation (input) SD_OK :: int where "SD_OK \<equiv> 0"
abbreviation (input) SD_FILESYSTEM_INIT_OK :: int where "SD_FILESYSTEM_INIT_OK \<equiv> 0"
abbreviation (input) SD_FILESYSTEM_INIT_ERROR :: int where "SD_FILESYSTEM_INIT_ERROR \<equiv> 1"

definition sd_filesystem_init :: "'d fat_library \<Rightarrow> 'd \<Rightarrow> int \<times> 'd" where
  "sd_filesystem_init L d = (
     let (sd_result, d1) = sd_init L d in
     if sd_result \<noteq> SD_OK then (SD_FILESYSTEM_INIT_ERROR, d1)
     else let (probe_error, d2) = fat_probe L d1 in
     if probe_error \<noteq> 0 then (SD_FILESYSTEM_INIT_ERROR, d2)
     else let (mount_error, d3) = fat_mount L (''mnt'' @ [NUL, NUL]) d2 in
     if mount_error \<noteq> 0 then (SD_FILESYSTEM_INIT_ERROR, d3)
     else (SD_FILESYSTEM_INIT_OK, d3))"

subsection \<open>Paths\<close>

text \<open>The common beginning of the three functions; \<open>Some None\<close> is the early return of \<^verbatim>\<open>-1\<close>.\<close>

definition build_path :: "char list \<Rightarrow> char list \<Rightarrow> char list option option" where
  "build_path uninit path = do {
     complete_path \<leftarrow> strcpy uninit (''/mnt/'' @ [NUL]);
     n \<leftarrow> strlen complete_path;
     k \<leftarrow> strlen path;
     if n + k \<ge> FAT_MAX_PATH_SIZE then Some None
     else do {
       full \<leftarrow> strcat complete_path path;
       Some (Some full)
     }
   }"

definition create_dir :: "'d fat_library \<Rightarrow> char list \<Rightarrow> char list \<Rightarrow> 64 word \<Rightarrow> 'd \<Rightarrow> (int \<times> 'd) option" where
  "create_dir L uninit dir_path created_dir d = do {
     complete_path \<leftarrow> build_path uninit dir_path;
     case complete_path of
       None \<Rightarrow> Some (-1, d)
   | Some full \<Rightarrow> if created_dir = 0 then None else Some (fat_dir_create L created_dir full d)
   }"

definition open_dir :: "'d fat_library \<Rightarrow> char list \<Rightarrow> char list \<Rightarrow> 64 word \<Rightarrow> 'd \<Rightarrow> (int \<times> 'd) option" where
  "open_dir L uninit dir_path dir d = do {
     complete_path \<leftarrow> build_path uninit dir_path;
     case complete_path of
       None \<Rightarrow> Some (-1, d)
   | Some full \<Rightarrow> if dir = 0 then None else Some (fat_dir_open L dir full d)
   }"

definition open_file :: "'d fat_library \<Rightarrow> char list \<Rightarrow> char list \<Rightarrow> 8 word \<Rightarrow> 64 word \<Rightarrow> 'd \<Rightarrow> (int \<times> 'd) option" where
  "open_file L uninit file_path open_flags file d = do {
     complete_path \<leftarrow> build_path uninit file_path;
     case complete_path of
       None \<Rightarrow> Some (-1, d)
   | Some full \<Rightarrow> if file = 0 then None else Some (fat_file_open L file full open_flags d)
   }"

subsection \<open>Properties\<close>

lemma build_path_spec:
  assumes "cstr path = Some p" "length uninit = FAT_MAX_PATH_SIZE"
  shows "(length p < 123 \<longrightarrow> (\<exists>full. build_path uninit path = Some (Some full) \<and> cstr full = Some (''/mnt/'' @ p) \<and> length full = FAT_MAX_PATH_SIZE)) \<and>
    (123 \<le> length p \<longrightarrow> build_path uninit path = Some None)"
proof -
  have m: "cstr (''/mnt/'' @ [NUL]) = Some ''/mnt/''" by (rule cstr_append) simp
  obtain b where b: "strcpy uninit (''/mnt/'' @ [NUL]) = Some b" "cstr b = Some ''/mnt/''" "length b = FAT_MAX_PATH_SIZE"
    using strcpy_cstr [OF m, of uninit] strcpy_keeps_length [of uninit "''/mnt/'' @ [NUL]"] m assms(2) by auto
  have e: "build_path uninit path = (if 5 + length p \<ge> FAT_MAX_PATH_SIZE then Some None
      else do { full \<leftarrow> strcat b path; Some (Some full) })"
    using b assms(1) unfolding build_path_def by (simp add: strlen_cstr)
  show ?thesis
  proof (intro conjI impI)
    assume l: "length p < 123"
    let ?d = "''/mnt/'' @ p @ NUL # drop (Suc (length ''/mnt/'' + length p)) b"
    have t: "take (length ''/mnt/'') b = ''/mnt/''" using b(2) by (auto dest!: cstr_SomeD)
    have "strcat b path = Some ?d" using assms(1) b t l by (simp add: strcat_def strlen_cstr copy_string_cstr)
    moreover have "cstr ?d = Some (''/mnt/'' @ p)"
      using cstr_append [of "''/mnt/'' @ p"] assms(1) by (auto dest!: cstr_SomeD)
    moreover have "length ?d = FAT_MAX_PATH_SIZE" using l b(3) by simp
    ultimately show "\<exists>full. build_path uninit path = Some (Some full) \<and> cstr full = Some (''/mnt/'' @ p) \<and> length full = FAT_MAX_PATH_SIZE"
      using e l by simp
  qed (simp add: e)
qed

text \<open>
  Paths stay inside their buffer. Whatever terminated path a process passes, open_file never writes outside
  its 128-byte array: a path of less than 123 characters reaches the library as /mnt/ followed by the path, and a longer
  one is refused with -1 before the library is called.
\<close>

lemma paths_are_bounded:
  assumes "cstr file_path = Some p" "length uninit = FAT_MAX_PATH_SIZE" "file \<noteq> 0"
  shows "(length p < 123 \<longrightarrow> (\<exists>full. open_file L uninit file_path open_flags file d = Some (fat_file_open L file full open_flags d) \<and>
      cstr full = Some (''/mnt/'' @ p) \<and> length full = FAT_MAX_PATH_SIZE)) \<and>
    (123 \<le> length p \<longrightarrow> open_file L uninit file_path open_flags file d = Some (-1, d))"
  using build_path_spec [OF assms(1,2)] assms(3) by (auto simp: open_file_def)

text \<open>A library that refuses everything, for the witnesses.\<close>

definition empty_info :: DirInfo where
  "empty_info = \<lparr>info_created = Timestamp.make 0 0 0 1 1 1980, info_modified = Timestamp.make 0 0 0 1 1 1980, info_size = 0, info_attr = 0, info_name = replicate 255 0, info_name_len = 0\<rparr>"

definition no_files :: "unit fat_library" where
  "no_files = \<lparr>sd_init = Pair 0, sd_readblock = (\<lambda>_ d. (0, [], d)), sd_writeblock = (\<lambda>_ _. Pair 0),
     fat_probe = Pair (-1), fat_mount = (\<lambda>_. Pair (-1)), fat_dir_create = (\<lambda>_ _. Pair (-5)),
     fat_dir_open = (\<lambda>_ _. Pair (-5)), fat_file_open = (\<lambda>_ _ _. Pair (-5)), fat_file_close = (\<lambda>_. Pair (-4)),
     fat_file_read = (\<lambda>_ _ d. (-4, [], d)), fat_file_write = (\<lambda>_ _ _ d. (-4, 0, d)), fat_file_seek = (\<lambda>_ _. Pair (-4)),
     fat_dir_read = (\<lambda>_ d. (-4, empty_info, d)), fat_dir_next = (\<lambda>_. Pair (-4))\<rparr>"

end
