(* ===== verification/Syscalls.thy ===== *)
theory Syscalls
  imports Filesystem Ipc
begin

section \<open>System calls\<close>

text \<open>
  \<^verbatim>\<open>libs/syscalls.c\<close>. The handlers work on the kernel and on the state of the file system library. A handler
  that calls \<^verbatim>\<open>schedule()\<close> gives up the processor: \<open>Switched v\<close> means that it returns \<open>v\<close> once the process is
  dispatched again, \<open>Blocked n\<close> that it then repeats its loop (with the progress \<open>n\<close>, the length of the line for
  \<^verbatim>\<open>syscall_input\<close>). Pointers are addresses; the dispatcher reads and writes the saved registers
  of the caller in byte memory. Interrupts that arrive while a handler runs are steps of their own, before or after it.
\<close>

datatype 'a outcome = Returned 'a | Switched 'a | Blocked int

text \<open>What the handlers take from elsewhere: the library, \<^verbatim>\<open>ret_from_fork\<close> and the uninitialised locals.\<close>

record 'd environment =
  library :: "'d fat_library"
  ret_from_fork :: "64 word"
  stack_path :: "char list"
  stack_message :: Message

definition progress_outcome :: "'a progress \<Rightarrow> 'a outcome" where
  "progress_outcome r = (case r of Finished v \<Rightarrow> Returned v | Suspended \<Rightarrow> Blocked 0)"

subsection \<open>Output, memory and processes\<close>

definition syscall_write :: "char list \<Rightarrow> kernel \<Rightarrow> kernel option" where
  "syscall_write buffer s = uart_puts buffer s"

definition syscall_write_hex :: "int \<Rightarrow> kernel \<Rightarrow> kernel option" where
  "syscall_write_hex number s = uart_hex (word_of_int number) s"

definition syscall_clone :: "64 word \<Rightarrow> kernel \<Rightarrow> (int \<times> kernel) option" where
  "syscall_clone entry_address s = copy_process entry_address 0 0 0 s"

definition syscall_malloc :: "kernel \<Rightarrow> 64 word \<times> kernel" where
  "syscall_malloc s = (let (address, s1) = allocate_kernel_page s in
     if address = 0 then (- 1, s1) else (address, s1))"

definition syscall_exit :: "kernel \<Rightarrow> kernel option" where
  "syscall_exit s = exit_process s"

definition syscall_yield :: "kernel \<Rightarrow> kernel option" where
  "syscall_yield s = schedule (modify_pcb (current_process s) (\<lambda>x. x\<lparr>counter := 0\<rparr>) s)"

definition syscall_fork :: "64 word \<Rightarrow> kernel \<Rightarrow> (int \<times> kernel) option" where
  "syscall_fork entry_address s = copy_process entry_address 0 0 0 s"

definition syscall_get_time :: "kernel \<Rightarrow> 64 word \<times> kernel" where
  "syscall_get_time s = (let (t, s1) = mmio_read_clo s in (ucast t, s1))"

primrec search_slots :: "int \<Rightarrow> pcb_ptr option list \<Rightarrow> pcb_heap \<Rightarrow> pcb_ptr option" where
  "search_slots n [] h = None"
| "search_slots n (x # xs) h =
     (case x of
        None \<Rightarrow> search_slots n xs h
      | Some p \<Rightarrow> if pid (h p) = n then Some p else search_slots n xs h)"

definition search_process :: "int \<Rightarrow> kernel \<Rightarrow> pcb_ptr option" where
  "search_process n s = search_slots n (processes s) (pcbs s)"

definition syscall_wait :: "int \<Rightarrow> kernel \<Rightarrow> (int outcome \<times> kernel) option" where
  "syscall_wait n s =
     (case search_process n s of
        None \<Rightarrow> Some (Returned (-1), s)
      | Some p \<Rightarrow>
          if state (pcbs s p) = PROCESS_ZOMBIE then Some (Returned 0, s)
          else do {
            s1 \<leftarrow> schedule (modify_pcb (current_process s)
              (\<lambda>x. x\<lparr>state := PROCESS_WAITING_ANOTHER_PROCESS, pid_to_wait := n\<rparr>) s);
            Some (Switched 0, s1)
          })"

definition syscall_set_sched_param :: "int \<Rightarrow> int \<Rightarrow> int \<Rightarrow> kernel \<Rightarrow> (int \<times> kernel) option" where
  "syscall_set_sched_param n param v s =
     (case search_process n s of
        None \<Rightarrow> Some (-1, s)
      | Some p \<Rightarrow> sched_set_param (Some p) param v s)"

subsection \<open>Messages and signals\<close>

definition syscall_send_message :: "char list \<Rightarrow> int \<Rightarrow> char list \<Rightarrow> kernel \<Rightarrow> (int outcome \<times> kernel) option" where
  "syscall_send_message uninit n str s =
     (case search_process n s of
        None \<Rightarrow> Some (Returned (-1), s)
      | Some p \<Rightarrow> do {
          (r, s1) \<leftarrow> send_message uninit (current_process s) p str s;
          Some (progress_outcome r, s1)
        })"

text \<open>The message goes to the caller's buffer \<open>out\<close>, an array of the size of a message body.\<close>

definition syscall_receive_message :: "Message \<Rightarrow> char list \<Rightarrow> kernel \<Rightarrow> (char list outcome \<times> kernel) option" where
  "syscall_receive_message uninit out s = do {
     (r, s1) \<leftarrow> receive_pass uninit (current_process s) out s;
     Some (progress_outcome r, s1)
   }"

definition syscall_send_signal :: "int \<Rightarrow> int \<Rightarrow> kernel \<Rightarrow> (int \<times> kernel) option" where
  "syscall_send_signal n signal_flag s =
     (case search_process n s of
        None \<Rightarrow> Some (-1, s)
      | Some p \<Rightarrow> send_signal p signal_flag s)"

subsection \<open>Reading a line\<close>

datatype input_result = Line int | More int

partial_function (option) input_chars :: "64 word \<Rightarrow> int \<Rightarrow> int \<Rightarrow> kernel \<Rightarrow> (input_result \<times> kernel) option" where
  "input_chars buffer max_len current_len s =
     (if uart_tail s = uart_head s then Some (More current_len, s)
      else do {
        c \<leftarrow> aget (uart_buffer s) (uart_tail s);
        let s1 = uart_putc c (s\<lparr>uart_tail := advance_uart (uart_tail s)\<rparr>);
        if c = CR \<or> c = LF
        then do {
          s2 \<leftarrow> store_byte (buffer + word_of_int current_len) 0 (s1\<lparr>uart_owner := None\<rparr>);
          Some (Line current_len, s2)
        }
        else if c = CHR 0x7F
        then if current_len > 0
             then do {
               s2 \<leftarrow> uart_puts [CHR 0x08, CHR '' '', CHR 0x08, NUL] s1;
               s3 \<leftarrow> store_byte (buffer + word_of_int (current_len - 1)) 0 s2;
               input_chars buffer max_len (current_len - 1) s3
             }
             else input_chars buffer max_len current_len s1
        else if current_len < max_len
        then do {
          s2 \<leftarrow> store_byte (buffer + word_of_int current_len) (to_byte c) s1;
          s3 \<leftarrow> store_byte (buffer + word_of_int (current_len + 1)) 0 s2;
          input_chars buffer max_len (current_len + 1) s3
        }
        else input_chars buffer max_len current_len s1
      })"

definition input_pass :: "64 word \<Rightarrow> int \<Rightarrow> int \<Rightarrow> kernel \<Rightarrow> (int outcome \<times> kernel) option" where
  "input_pass buffer max_len current_len s = do {
     (r, s1) \<leftarrow> input_chars buffer max_len current_len s;
     case r of
       Line n \<Rightarrow> Some (Returned n, s1)
     | More n \<Rightarrow> do {
         s2 \<leftarrow> schedule (modify_pcb (current_process s1) (\<lambda>x. x\<lparr>state := PROCESS_WAITING_UART_INPUT\<rparr>) s1);
         Some (Blocked n, s2)
       }
   }"

definition input_max :: "int \<Rightarrow> int" where
  "input_max len = (if len > 0 then len - 1 else 0)"

definition syscall_input :: "64 word \<Rightarrow> int \<Rightarrow> kernel \<Rightarrow> (int outcome \<times> kernel) option" where
  "syscall_input buffer len s =
     (if uart_owner s \<noteq> None \<and> uart_owner s \<noteq> Some (current_process s)
      then do {
        s1 \<leftarrow> schedule s;
        Some (Blocked 0, s1)
      }
      else input_pass buffer (input_max len) 0 (s\<lparr>uart_owner := Some (current_process s)\<rparr>))"

end
