(* ===== verification/File_Syscalls.thy ===== *)
theory File_Syscalls
  imports Syscalls
begin

section \<open>System calls on files\<close>

text \<open>
  The descriptor part of \<^verbatim>\<open>libs/syscalls.c\<close>, and \<^verbatim>\<open>syscall_exec\<close>. A descriptor is an index into the \<^verbatim>\<open>files\<close> of
  the current process, which holds the address of a \<^verbatim>\<open>FatResource\<close>, 0 for NULL. Following a NULL pointer
  or an index outside the array is \<open>None\<close>.
\<close>

subsection \<open>Descriptors\<close>

primrec first_null :: "int \<Rightarrow> 64 word list \<Rightarrow> int" where
  "first_null i [] = -1"
| "first_null i (a # as) = (if a = 0 then i else first_null (i + 1) as)"

definition get_first_free_file_descriptor :: "pcb_ptr \<Rightarrow> kernel \<Rightarrow> int" where
  "get_first_free_file_descriptor process s = first_null 0 (files (pcbs s process))"

definition give_back :: "64 word \<Rightarrow> kernel \<Rightarrow> kernel option" where
  "give_back a s = do {
     (r, ph) \<leftarrow> free_page a (phys s);
     Some (s\<lparr>phys := ph\<rparr>)
   }"

text \<open>A new \<^verbatim>\<open>FatResource\<close> page at a descriptor of the current process.\<close>

definition set_resource :: "int \<Rightarrow> ResourceType \<Rightarrow> 64 word \<Rightarrow> kernel \<Rightarrow> kernel option" where
  "set_resource fd ty object s = (
     let (a, s1) = allocate_kernel_page s in do {
       fs \<leftarrow> aset (files (pcbs s1 (current_process s1))) fd a;
       let s2 = modify_pcb (current_process s1) (\<lambda>x. x\<lparr>files := fs\<rparr>) s1;
       if a = 0 then None
       else Some (s2\<lparr>resources := (resources s2)(a := \<lparr>resource_type = ty, resource_ptr = object\<rparr>)\<rparr>)
     })"

definition get_resource :: "int \<Rightarrow> kernel \<Rightarrow> FatResource option" where
  "get_resource fd s = do {
     a \<leftarrow> aget (files (pcbs s (current_process s))) fd;
     if a = 0 then None else Some (resources s a)
   }"

definition syscall_create_dir :: "'d environment \<Rightarrow> char list \<Rightarrow> kernel \<Rightarrow> 'd \<Rightarrow> (int \<times> kernel \<times> 'd) option" where
  "syscall_create_dir E dir_path s d = (
     let file_descriptor = get_first_free_file_descriptor (current_process s) s in
     if file_descriptor = -1 then Some (-1, s, d)
     else let (created_dir, s1) = allocate_kernel_page s in do {
       (error, d1) \<leftarrow> create_dir (library E) (stack_path E) dir_path created_dir d;
       if error \<noteq> 0
       then do {
         s2 \<leftarrow> give_back created_dir s1;
         Some (error, s2, d1)
       }
       else do {
         s2 \<leftarrow> set_resource file_descriptor RESOURCE_TYPE_FOLDER created_dir s1;
         Some (file_descriptor, s2, d1)
       }
     })"

definition syscall_open_dir :: "'d environment \<Rightarrow> char list \<Rightarrow> kernel \<Rightarrow> 'd \<Rightarrow> (int \<times> kernel \<times> 'd) option" where
  "syscall_open_dir E dir_path s d = (
     let file_descriptor = get_first_free_file_descriptor (current_process s) s in
     if file_descriptor = -1 then Some (-1, s, d)
     else let (dir, s1) = allocate_kernel_page s in do {
       (error, d1) \<leftarrow> open_dir (library E) (stack_path E) dir_path dir d;
       if error \<noteq> 0
       then do {
         s2 \<leftarrow> give_back dir s1;
         Some (-1, s2, d1)
       }
       else do {
         s2 \<leftarrow> set_resource file_descriptor RESOURCE_TYPE_FOLDER dir s1;
         Some (file_descriptor, s2, d1)
       }
     })"

definition syscall_open_file :: "'d environment \<Rightarrow> char list \<Rightarrow> 8 word \<Rightarrow> kernel \<Rightarrow> 'd \<Rightarrow> (int \<times> kernel \<times> 'd) option" where
  "syscall_open_file E file_path open_flags s d = (
     let file_descriptor = get_first_free_file_descriptor (current_process s) s in
     if file_descriptor = -1 then Some (-1, s, d)
     else let (file, s1) = allocate_kernel_page s in do {
       (error, d1) \<leftarrow> open_file (library E) (stack_path E) file_path open_flags file d;
       if error \<noteq> 0
       then do {
         s2 \<leftarrow> give_back file s1;
         Some (-1, s2, d1)
       }
       else do {
         s2 \<leftarrow> set_resource file_descriptor RESOURCE_TYPE_FILE file s1;
         Some (file_descriptor, s2, d1)
       }
     })"

definition syscall_close_file :: "'d environment \<Rightarrow> int \<Rightarrow> kernel \<Rightarrow> 'd \<Rightarrow> (int \<times> kernel \<times> 'd) option" where
  "syscall_close_file E file_descriptor s d =
     (if file_descriptor < 0 \<or> file_descriptor \<ge> int MAX_FILES_PER_PROCESS then Some (-1, s, d)
      else do {
        r \<leftarrow> get_resource file_descriptor s;
        let file = resource_ptr r;
        if file = 0 then None
        else
          let (error, d1) = fat_file_close (library E) file d in
          if error \<noteq> 0 then Some (error, s, d1)
          else do {
            s1 \<leftarrow> give_back file s;
            s2 \<leftarrow> set_resource file_descriptor RESOURCE_TYPE_FILE 0 s1;
            Some (0, s2, d1)
          }
      })"

subsection \<open>Data\<close>

definition syscall_write_file :: "'d environment \<Rightarrow> int \<Rightarrow> 64 word \<Rightarrow> int \<Rightarrow> 64 word \<Rightarrow> kernel \<Rightarrow> 'd \<Rightarrow> (int \<times> kernel \<times> 'd) option" where
  "syscall_write_file E file_descriptor buffer len count s d = do {
     a \<leftarrow> aget (files (pcbs s (current_process s))) file_descriptor;
     if a = 0 then Some (-1, s, d)
     else
       let file = resource_ptr (resources s a) in
       if file = 0 then None
       else do {
         bs \<leftarrow> load_block buffer (nat len) s;
         let (error, n, d1) = fat_file_write (library E) file bs len d;
         s1 \<leftarrow> store_int count n s;
         Some (error, s1, d1)
       }
   }"

text \<open>The transfer of \<^verbatim>\<open>syscall_read_file\<close>, before the byte count is stored.\<close>

definition read_file_to :: "'d environment \<Rightarrow> int \<Rightarrow> 64 word \<Rightarrow> int \<Rightarrow> kernel \<Rightarrow> 'd \<Rightarrow> (int \<times> int \<times> kernel \<times> 'd) option" where
  "read_file_to E file_descriptor buffer len s d = do {
     r \<leftarrow> get_resource file_descriptor s;
     let file = resource_ptr r;
     if file = 0 then None
     else do {
       let (seek_error, d1) = fat_file_seek (library E) file 0 d;
       let (error, bs, d2) = fat_file_read (library E) file len d1;
       s1 \<leftarrow> store_string buffer bs s;
       Some (error, int (length bs), s1, d2)
     }
   }"

definition syscall_read_file :: "'d environment \<Rightarrow> int \<Rightarrow> 64 word \<Rightarrow> int \<Rightarrow> 64 word \<Rightarrow> kernel \<Rightarrow> 'd \<Rightarrow> (int \<times> kernel \<times> 'd) option" where
  "syscall_read_file E file_descriptor buffer len count s d = do {
     (error, n, s1, d1) \<leftarrow> read_file_to E file_descriptor buffer len s d;
     s2 \<leftarrow> store_int count n s1;
     Some (error, s2, d1)
   }"

text \<open>\<^verbatim>\<open>FatEntryInfo\<close> has its name at offset 4 and \<^verbatim>\<open>is_dir\<close> at offset 68.\<close>

abbreviation (input) FAT_ATTR_DIR :: "8 word" where "FAT_ATTR_DIR \<equiv> 0x10"

definition syscall_get_next_entry :: "'d environment \<Rightarrow> int \<Rightarrow> 64 word \<Rightarrow> kernel \<Rightarrow> 'd \<Rightarrow> (int \<times> kernel \<times> 'd) option" where
  "syscall_get_next_entry E file_descriptor entry_info s d = do {
     r \<leftarrow> get_resource file_descriptor s;
     let dir = resource_ptr r;
     if dir = 0 then Some (-1, s, d)
     else
       let (error, info, d1) = fat_dir_read (library E) dir d in
       if error \<noteq> 0 then Some (-1, s, d1)
       else do {
         let size = (if unat (info_name_len info) < 255 then unat (info_name_len info) else 255);
         s1 \<leftarrow> store_string (entry_info + 4) (take size (info_name info)) s;
         s2 \<leftarrow> store_byte (entry_info + 68) (if info_attr info AND FAT_ATTR_DIR \<noteq> 0 then 1 else 0) s1;
         let (error, d2) = fat_dir_next (library E) dir d1;
         Some (if error \<noteq> 0 then -1 else 0, s2, d2)
       }
   }"

subsection \<open>Running a program\<close>

abbreviation (input) SYSCALL_EXEC_ARGUMENT_DIMENSION :: nat where "SYSCALL_EXEC_ARGUMENT_DIMENSION \<equiv> 64"
abbreviation (input) FAT_READ :: "8 word" where "FAT_READ \<equiv> 2"

definition set_register :: "64 word \<Rightarrow> nat \<Rightarrow> 64 word \<Rightarrow> kernel \<Rightarrow> kernel" where
  "set_register trap_frame i v s = set_mem (store64 (trap_frame + of_nat (8 * i)) v) s"

definition register :: "64 word \<Rightarrow> nat \<Rightarrow> kernel \<Rightarrow> 64 word" where
  "register trap_frame i s = load64 (trap_frame + of_nat (8 * i)) (mem (phys s))"

primrec save_arguments :: "nat list \<Rightarrow> 64 word \<Rightarrow> kernel \<Rightarrow> char list list option" where
  "save_arguments [] arguments s = Some []"
| "save_arguments (i # is) arguments s = do {
     str \<leftarrow> load_string (arguments + of_nat (SYSCALL_EXEC_ARGUMENT_DIMENSION * i)) s;
     safe \<leftarrow> strcpy (replicate SYSCALL_EXEC_ARGUMENT_DIMENSION NUL) str;
     rest \<leftarrow> save_arguments is arguments s;
     Some (safe # rest)
   }"

primrec free_user_pages :: "int list \<Rightarrow> kernel \<Rightarrow> kernel option" where
  "free_user_pages [] s = Some s"
| "free_user_pages (i # is) s = do {
     pg \<leftarrow> aget (user_pages (mm (pcbs s (current_process s)))) i;
     s1 \<leftarrow> give_back (physical_address pg + VA_START) s;
     pgs \<leftarrow> aset (user_pages (mm (pcbs s1 (current_process s1)))) i \<lparr>physical_address = 0, virtual_address = 0\<rparr>;
     free_user_pages is (modify_pcb (current_process s1)
       (\<lambda>x. x\<lparr>mm := (mm x)\<lparr>n_user_pages := n_user_pages (mm x) - 1, user_pages := pgs\<rparr>\<rparr>) s1)
   }"

primrec push_arguments :: "char list list \<Rightarrow> nat \<Rightarrow> 64 word \<Rightarrow> 64 word \<Rightarrow> kernel \<Rightarrow> (64 word \<times> kernel) option" where
  "push_arguments [] i stack_pointer trap_frame s = Some (stack_pointer, s)"
| "push_arguments (a # as) i stack_pointer trap_frame s = do {
     let sp' = stack_pointer - of_nat SYSCALL_EXEC_ARGUMENT_DIMENSION;
     str \<leftarrow> cstr a;
     s1 \<leftarrow> store_string sp' (map (\<lambda>c. to_byte c) (str @ [NUL])) s;
     push_arguments as (Suc i) sp' trap_frame (set_register trap_frame (i + 1) sp' s1)
   }"

definition syscall_exec :: "'d environment \<Rightarrow> char list \<Rightarrow> 64 word \<Rightarrow> int \<Rightarrow> 64 word \<Rightarrow> kernel \<Rightarrow> 'd \<Rightarrow> (int \<times> kernel \<times> 'd) option" where
  "syscall_exec E path trap_frame n_arguments arguments s d = do {
     (fd, s1, d1) \<leftarrow> syscall_open_file E path FAT_READ s d;
     if fd = -1 then Some (-1, s1, d1)
     else do {
       let (buffer, s2) = allocate_kernel_page s1;
       (read_error, read_bytes, s3, d2) \<leftarrow> read_file_to E fd buffer (PAGE_SIZE * 16) s2 d1;
       (close_error, s4, d3) \<leftarrow> syscall_close_file E fd s3 d2;
       if read_bytes > PAGE_SIZE * 15 then Some (-1, s4, d3)
       else if n_arguments < 0 then None
       else do {
         safe_arguments \<leftarrow> save_arguments [0..<nat n_arguments] arguments s4;
         s5 \<leftarrow> free_user_pages [0..n_user_pages (mm (pcbs s4 (current_process s4))) - 1] s4;
         s6 \<leftarrow> copy_code (current_process s5) buffer (word_of_int read_bytes) s5;
         let s7 = set_register trap_frame 0 (word_of_int n_arguments) s6;
         (stack_pointer, s8) \<leftarrow> push_arguments safe_arguments 0 (16 * 4096) trap_frame s7;
         let s9 = modify_pcb (current_process s8)
           (\<lambda>x. x\<lparr>cpu_context := (cpu_context x)\<lparr>ctx_pc := 0, ctx_sp := stack_pointer\<rparr>\<rparr>) s8;
         Some (0, set_register trap_frame 32 0 (set_register trap_frame 31 stack_pointer s9), d3)
       }
     }
   }"

end
