(* ===== verification/Dispatcher.thy ===== *)
theory Dispatcher
  imports File_Syscalls
begin

section \<open>The dispatcher\<close>

text \<open>
  \<^verbatim>\<open>syscall_dispatcher\<close>. \<open>run_syscall\<close> is its switch: the arguments come from the saved registers at \<open>trap_frame\<close>, with
  the casts of the source (\<open>int_arg\<close> is \<^verbatim>\<open>(int)\<close>); the value, if there is one, is what the source assigns to \<^verbatim>\<open>registers[0]\<close>.
  An \<^verbatim>\<open>int\<close> result is sign-extended. The value of a \<open>Switched\<close> outcome is written when the process is dispatched again.
\<close>

abbreviation (input) SYSCALLS_NUMBER :: "64 word" where "SYSCALLS_NUMBER \<equiv> 21"

definition int_arg :: "64 word \<Rightarrow> nat \<Rightarrow> kernel \<Rightarrow> int" where
  "int_arg trap_frame i s = sint (ucast (register trap_frame i s) :: 32 word)"

definition int_result :: "int \<Rightarrow> 64 word option" where
  "int_result v = Some (word_of_int v)"

definition int_outcome :: "int outcome \<Rightarrow> 64 word option outcome" where
  "int_outcome r = (case r of Returned v \<Rightarrow> Returned (int_result v) | Switched v \<Rightarrow> Switched (int_result v) | Blocked n \<Rightarrow> Blocked n)"

definition run_syscall :: "'d environment \<Rightarrow> 64 word \<Rightarrow> 64 word \<Rightarrow> kernel \<Rightarrow> 'd \<Rightarrow> (64 word option outcome \<times> kernel \<times> 'd) option" where
  "run_syscall E number f s d =
     (if number = 0 then do {
        str \<leftarrow> load_string (register f 0 s) s;
        s1 \<leftarrow> syscall_write str s;
        Some (Returned None, s1, d)
      }
      else if number = 18 then do {
        s1 \<leftarrow> syscall_write_hex (int_arg f 0 s) s;
        Some (Returned None, s1, d)
      }
      else if number = 1 then let (v, s1) = syscall_malloc s in Some (Returned (Some v), s1, d)
      else if number = 2 then do {
        s1 \<leftarrow> syscall_exit s;
        Some (Switched None, s1, d)
      }
      else if number = 3 then do {
        str \<leftarrow> load_string (register f 0 s) s;
        (v, s1, d1) \<leftarrow> syscall_create_dir E str s d;
        Some (Returned (int_result v), s1, d1)
      }
      else if number = 4 then do {
        str \<leftarrow> load_string (register f 0 s) s;
        (v, s1, d1) \<leftarrow> syscall_open_dir E str s d;
        Some (Returned (int_result v), s1, d1)
      }
      else if number = 5 then do {
        str \<leftarrow> load_string (register f 0 s) s;
        (v, s1, d1) \<leftarrow> syscall_open_file E str (ucast (register f 1 s)) s d;
        Some (Returned (int_result v), s1, d1)
      }
      else if number = 6 then do {
        (v, s1, d1) \<leftarrow> syscall_close_file E (int_arg f 0 s) s d;
        Some (Returned (int_result v), s1, d1)
      }
      else if number = 7 then do {
        (v, s1, d1) \<leftarrow> syscall_write_file E (int_arg f 0 s) (register f 1 s) (int_arg f 2 s) (register f 3 s) s d;
        Some (Returned (int_result v), s1, d1)
      }
      else if number = 8 then do {
        (v, s1, d1) \<leftarrow> syscall_read_file E (int_arg f 0 s) (register f 1 s) (int_arg f 2 s) (register f 3 s) s d;
        Some (Returned (int_result v), s1, d1)
      }
      else if number = 9 then do {
        s1 \<leftarrow> syscall_yield s;
        Some (Switched None, s1, d)
      }
      else if number = 10 then do {
        (r, s1) \<leftarrow> syscall_input (register f 0 s) (int_arg f 1 s) s;
        Some (int_outcome r, s1, d)
      }
      else if number = 11 then do {
        (v, s1, d1) \<leftarrow> syscall_get_next_entry E (int_arg f 0 s) (register f 1 s) s d;
        Some (Returned (int_result v), s1, d1)
      }
      else if number = 12 then do {
        (v, s1) \<leftarrow> syscall_fork (ret_from_fork E) s;
        Some (Returned (int_result v), s1, d)
      }
      else if number = 13 then do {
        str \<leftarrow> load_string (register f 1 s) s;
        (r, s1) \<leftarrow> syscall_send_message (body (stack_message E)) (int_arg f 0 s) str s;
        Some (int_outcome r, s1, d)
      }
      else if number = 14 then do {
        (r, s1) \<leftarrow> syscall_receive_message (stack_message E) (replicate MAX_MESSAGES_BODY_SIZE NUL) s;
        case r of
          Returned out \<Rightarrow> do {
            str \<leftarrow> cstr out;
            s2 \<leftarrow> store_string (register f 0 s) (map (\<lambda>c. to_byte c) (str @ [NUL])) s1;
            Some (Returned None, s2, d)
          }
        | Switched out \<Rightarrow> Some (Switched None, s1, d)
        | Blocked n \<Rightarrow> Some (Blocked n, s1, d)
      }
      else if number = 15 then do {
        (v, s1) \<leftarrow> syscall_send_signal (int_arg f 0 s) (int_arg f 1 s) s;
        Some (Returned (int_result v), s1, d)
      }
      else if number = 16 then do {
        str \<leftarrow> load_string (register f 0 s) s;
        (v, s1, d1) \<leftarrow> syscall_exec E str f (int_arg f 1 s) (register f 2 s) s d;
        Some (Returned None, s1, d1)
      }
      else if number = 17 then do {
        (r, s1) \<leftarrow> syscall_wait (int_arg f 0 s) s;
        Some (int_outcome r, s1, d)
      }
      else if number = 19 then let (v, s1) = syscall_get_time s in Some (Returned (Some v), s1, d)
      else if number = 20 then do {
        (v, s1) \<leftarrow> syscall_set_sched_param (int_arg f 0 s) (int_arg f 1 s) (int_arg f 2 s) s;
        Some (Returned (int_result v), s1, d)
      }
      else Some (Returned None, s, d))"

definition syscall_return :: "64 word \<Rightarrow> 64 word option outcome \<Rightarrow> kernel \<Rightarrow> kernel" where
  "syscall_return trap_frame r s =
     (case r of Returned (Some v) \<Rightarrow> set_register trap_frame 0 v s | _ \<Rightarrow> s)"

definition syscall_dispatcher :: "'d environment \<Rightarrow> 64 word \<Rightarrow> kernel \<Rightarrow> 'd \<Rightarrow> (64 word option outcome \<times> kernel \<times> 'd) option" where
  "syscall_dispatcher E trap_frame s d = (
     let syscall_number = register trap_frame 8 s in
     if syscall_number > SYSCALLS_NUMBER then Some (Returned None, s, d)
     else do {
       (r, s1, d1) \<leftarrow> run_syscall E syscall_number trap_frame s d;
       Some (r, syscall_return trap_frame r s1, d1)
     })"

end
