(* ===== verification/Syscall_Properties.thy ===== *)
theory Syscall_Properties
  imports Dispatcher
begin

section \<open>The properties of the system calls\<close>

subsection \<open>Finding a process\<close>

lemma search_slots_Some:
  "search_slots n xs h = Some p \<longleftrightarrow> (\<exists>i < length xs. xs ! i = Some p \<and> pid (h p) = n \<and>
     (\<forall>j < i. \<forall>q. xs ! j = Some q \<longrightarrow> pid (h q) \<noteq> n))"
proof (induction xs)
  case (Cons x xs)
  have split: "(\<exists>i < length (x # xs). P i) \<longleftrightarrow> P 0 \<or> (\<exists>i < length xs. P (Suc i))" for P
    by (auto simp: less_Suc_eq_0_disj)
  have all: "(\<forall>j < Suc i. P j) \<longleftrightarrow> P 0 \<and> (\<forall>j < i. P (Suc j))" for P and i :: nat
    by (auto simp: less_Suc_eq_0_disj)
  show ?case using Cons unfolding split all by (cases x) auto
qed simp

text \<open>In a well-formed process table the search finds exactly the registered process with that pid.\<close>

lemma search_process_iff:
  assumes "table_ok s"
  shows "search_process n s = Some p \<longleftrightarrow> live s p \<and> pid (pcbs s p) = n"
proof
  assume "search_process n s = Some p"
  then show "live s p \<and> pid (pcbs s p) = n"
    unfolding search_process_def search_slots_Some live_def by (metis nth_mem)
next
  assume l: "live s p \<and> pid (pcbs s p) = n"
  then obtain i where i: "i < length (processes s)" "processes s ! i = Some p" by (auto simp: live_def in_set_conv_nth)
  have "\<not> (\<exists>q. processes s ! j = Some q \<and> pid (pcbs s q) = n)" if "j < i" for j
  proof
    assume "\<exists>q. processes s ! j = Some q \<and> pid (pcbs s q) = n"
    then obtain q where "processes s ! j = Some q" "pid (pcbs s q) = n" by blast
    moreover from this have "j < N_PROCESSES" "i < N_PROCESSES" using i(1) that table_okD(1) [OF assms] by simp_all
    moreover have "\<forall>k < N_PROCESSES. \<forall>p. processes s ! k = Some p \<longrightarrow> pid (pcbs s p) = int k"
      using assms by (simp add: table_ok_def)
    ultimately have "n = int j" "n = int i" using i(2) l by auto
    then show False using that by simp
  qed
  then show "search_process n s = Some p"
    unfolding search_process_def search_slots_Some using i l by blast
qed

lemma search_process_None: "table_ok s \<Longrightarrow> search_process n s = None \<longleftrightarrow> (\<forall>p. live s p \<longrightarrow> pid (pcbs s p) \<noteq> n)"
  using search_process_iff by (metis not_None_eq)

subsection \<open>Waiting for a process\<close>

text \<open>
  C31. Waiting. From a well-formed state, syscall_wait for a pid that no registered process has returns -1 at once,
  and for a zombie it returns 0 at once, both without any change. Otherwise the caller is left waiting for that pid,
  another process runs, the state stays well formed, and the processes that were not ready keep their states.
\<close>

theorem wait_correct:
  assumes "sched_inv s" "current_process s \<noteq> Init_process" "state (pcbs s (current_process s)) = PROCESS_RUNNING"
  shows "((\<forall>p. live s p \<longrightarrow> pid (pcbs s p) \<noteq> n) \<longrightarrow> syscall_wait n s = Some (Returned (-1), s)) \<and>
    (\<forall>p. live s p \<and> pid (pcbs s p) = n \<and> state (pcbs s p) = PROCESS_ZOMBIE \<longrightarrow> syscall_wait n s = Some (Returned 0, s)) \<and>
    (\<forall>p. live s p \<and> pid (pcbs s p) = n \<and> state (pcbs s p) \<noteq> PROCESS_ZOMBIE \<longrightarrow>
       (\<exists>s'. syscall_wait n s = Some (Switched 0, s') \<and> blocked_in PROCESS_WAITING_ANOTHER_PROCESS s s' \<and>
          pid_to_wait (pcbs s' (current_process s)) = n))"
proof -
  obtain Q where rep: "sched_rep s Q" using assms(1) by (auto simp: sched_inv_def)
  note t = sched_repD(2) [OF rep]
  let ?c = "current_process s"
  let ?f = "\<lambda>x. x\<lparr>state := PROCESS_WAITING_ANOTHER_PROCESS, pid_to_wait := n\<rparr>"
  obtain s' where s': "schedule (modify_pcb ?c ?f s) = Some s'" "blocked_in PROCESS_WAITING_ANOTHER_PROCESS s s'"
    "data_kept (modify_pcb ?c ?f s) s'"
    using block_switch [OF rep assms(2,3), of ?f PROCESS_WAITING_ANOTHER_PROCESS] by auto
  have "pid_to_wait (pcbs s' ?c) = n" using s'(3) by (simp add: data_kept_def)
  then have "syscall_wait n s = Some (Switched 0, s') \<and> blocked_in PROCESS_WAITING_ANOTHER_PROCESS s s' \<and> pid_to_wait (pcbs s' ?c) = n"
    if "live s p \<and> pid (pcbs s p) = n \<and> state (pcbs s p) \<noteq> PROCESS_ZOMBIE" for p
    using that s'(1,2) search_process_iff [OF t, of n p] by (simp add: syscall_wait_def)
  moreover have "syscall_wait n s = Some (Returned 0, s)"
    if "live s p \<and> pid (pcbs s p) = n \<and> state (pcbs s p) = PROCESS_ZOMBIE" for p
    using that search_process_iff [OF t, of n p] by (simp add: syscall_wait_def)
  moreover have "syscall_wait n s = Some (Returned (-1), s)" if "\<forall>p. live s p \<longrightarrow> pid (pcbs s p) \<noteq> n"
    using that search_process_None [OF t, of n] by (simp add: syscall_wait_def)
  ultimately show ?thesis by blast
qed

theorem wait_witness:
  "syscall_wait 9 (demo_kernel sched_sjf) = Some (Returned (-1), demo_kernel sched_sjf) \<and>
   (\<exists>s'. syscall_wait 1 (demo_kernel sched_sjf) = Some (Switched 0, s') \<and> state (pcbs s' (Pcb_at 3)) = PROCESS_WAITING_ANOTHER_PROCESS)"
proof -
  have inv: "sched_inv (demo_kernel sched_sjf)"
    using demo_rep [of sched_sjf] by (auto simp: sched_inv_def single_queue_algorithms_def)
  have c: "current_process (demo_kernel sched_sjf) \<noteq> Init_process"
    "state (pcbs (demo_kernel sched_sjf) (current_process (demo_kernel sched_sjf))) = PROCESS_RUNNING" by simp_all
  note w = wait_correct [OF inv c]
  have "\<forall>p. live (demo_kernel sched_sjf) p \<longrightarrow> pid (pcbs (demo_kernel sched_sjf) p) \<noteq> 9" by (auto simp: demo_live)
  then have "syscall_wait 9 (demo_kernel sched_sjf) = Some (Returned (-1), demo_kernel sched_sjf)" using w [of 9] by blast
  moreover have "live (demo_kernel sched_sjf) (Pcb_at 1) \<and> pid (pcbs (demo_kernel sched_sjf) (Pcb_at 1)) = 1 \<and>
      state (pcbs (demo_kernel sched_sjf) (Pcb_at 1)) \<noteq> PROCESS_ZOMBIE" by (simp add: demo_live)
  then obtain s' where "syscall_wait 1 (demo_kernel sched_sjf) = Some (Switched 0, s')"
    "blocked_in PROCESS_WAITING_ANOTHER_PROCESS (demo_kernel sched_sjf) s'" using w [of 1] by blast
  ultimately show ?thesis by (auto simp: blocked_in_def)
qed

subsection \<open>Forking through the dispatcher\<close>

lemma register_saved:
  "f = page_base c + THREAD_SIZE - of_nat PT_REGS_SIZE \<Longrightarrow> register f i s = saved_register (mem (phys s)) c i"
  by (simp add: register_def saved_register_def)

lemma set_register_other_page:
  assumes f: "f = page_base c + THREAD_SIZE - of_nat PT_REGS_SIZE" and u: "c < N_PAGES" "u < N_PAGES" "u \<noteq> c" and i: "i < 34"
  shows "saved_register (mem (phys (set_register f 0 v s))) u i = saved_register (mem (phys s)) u i"
  unfolding saved_register_def
proof (rule load64_cong)
  fix k :: nat assume "k < 8"
  then have "in_page u (page_base u + THREAD_SIZE - of_nat PT_REGS_SIZE + 8 * of_nat i + of_nat k)"
    by (rule saved_register_byte(1) [OF u(2) i])
  then have n: "\<not> in_page c (page_base u + THREAD_SIZE - of_nat PT_REGS_SIZE + 8 * of_nat i + of_nat k)"
    using in_page_unique u by blast
  show "mem (phys (set_register f 0 v s)) (page_base u + THREAD_SIZE - of_nat PT_REGS_SIZE + 8 * of_nat i + of_nat k) =
      mem (phys s) (page_base u + THREAD_SIZE - of_nat PT_REGS_SIZE + 8 * of_nat i + of_nat k)"
    using set_up_outside(3) [OF u(1) n f] by (simp add: set_register_def)
qed

lemma set_register_same_page:
  assumes f: "f = page_base c + THREAD_SIZE - of_nat PT_REGS_SIZE" and c: "c < N_PAGES" and i: "i < 34" "i \<noteq> 0"
  shows "register f i (set_register f 0 v s) = register f i s"
  unfolding register_def
proof (rule load64_cong)
  fix k :: nat assume k: "k < 8"
  have "unat (f + of_nat (8 * i) + of_nat k - f) = 8 * i + k"
    using saved_register_byte(2) [OF c i(1) k] by (simp add: f)
  then show "mem (phys (set_register f 0 v s)) (f + of_nat (8 * i) + of_nat k) = mem (phys s) (f + of_nat (8 * i) + of_nat k)"
    using i(2) by (simp add: set_register_def store64_apply)
qed

text \<open>
  C23. Fork returns twice. When a process of a well-formed state makes system call 12, with room in the process table
  and enough free pages, the dispatcher leaves the pid of the new process in the caller's saved register 0 and 0 in the
  saved register 0 of the child; the other 33 saved words of both are those the caller had. The child is a
  READY process under the next free pid.
\<close>

theorem fork_returns_twice:
  assumes "sched_inv s" "fork_ready n P c s" "f = page_base c + THREAD_SIZE - of_nat PT_REGS_SIZE" "register f 8 s = 12"
  shows "\<exists>s' u. syscall_dispatcher E f s d = Some (Returned (Some (word_of_int (n_processes s))), s', d) \<and>
    register f 0 s' = word_of_int (n_processes s) \<and> (\<forall>i. 0 < i \<and> i < 34 \<longrightarrow> register f i s' = register f i s) \<and>
    saved_register (mem (phys s')) u 0 = 0 \<and> (\<forall>i. 0 < i \<and> i < 34 \<longrightarrow> saved_register (mem (phys s')) u i = register f i s) \<and>
    \<not> live s (Pcb_at (page_base u)) \<and> live s' (Pcb_at (page_base u)) \<and>
    pid (pcbs s' (Pcb_at (page_base u))) = n_processes s \<and> state (pcbs s' (Pcb_at (page_base u))) = PROCESS_READY \<and>
    current_process s' = current_process s \<and> sched_inv s'"
proof -
  have z: "(0 :: 64 word) AND 2 = 0" by simp
  obtain s1 u where F: "copy_process (ret_from_fork E) 0 0 0 s = Some (n_processes s, s1)" "sched_inv s1"
    "u < N_PAGES" "u \<noteq> c" "\<forall>b. in_page c b \<longrightarrow> mem (phys s1) b = mem (phys s) b"
    "\<not> live s (Pcb_at (page_base u))" "live s1 (Pcb_at (page_base u))"
    "pid (pcbs s1 (Pcb_at (page_base u))) = n_processes s" "state (pcbs s1 (Pcb_at (page_base u))) = PROCESS_READY"
    "current_process s1 = current_process s"
    "\<forall>i < 34. saved_register (mem (phys s1)) u i = (if i = 0 then 0 else saved_register (mem (phys s)) c i)"
    using copy_process_fork [OF assms(1,2) z, of "ret_from_fork E" 0 0] by (elim exE conjE) (rule that)
  obtain Q where rep: "sched_rep s Q" using assms(1) by (auto simp: sched_inv_def)
  have c: "c < N_PAGES" using fork_ready_page [OF rep assms(2)] by simp
  let ?v = "word_of_int (n_processes s) :: 64 word"
  let ?s' = "set_register f 0 ?v s1"
  have own: "register f i s1 = register f i s" if "i < 34" for i
  proof -
    have "saved_register (mem (phys s1)) c i = saved_register (mem (phys s)) c i"
      unfolding saved_register_def by (rule load64_cong) (use F(5) saved_register_byte(1) [OF c that] in blast)
    then show ?thesis by (simp add: register_saved [OF assms(3)])
  qed
  have "syscall_dispatcher E f s d = Some (Returned (Some ?v), ?s', d)"
    using F(1) assms(4) by (simp add: syscall_dispatcher_def run_syscall_def syscall_fork_def int_result_def syscall_return_def)
  moreover have "register f 0 ?s' = ?v" by (simp add: register_def set_register_def)
  moreover have "register f i ?s' = register f i s" if "0 < i" "i < 34" for i
    using set_register_same_page [OF assms(3) c that(2)] own [OF that(2)] that(1) by simp
  moreover have "saved_register (mem (phys ?s')) u i = (if i = 0 then 0 else register f i s)" if "i < 34" for i
    using set_register_other_page [OF assms(3) c F(3,4) that] F(11) that by (simp add: register_saved [OF assms(3)])
  moreover have "sched_inv ?s'" using F(2) sched_rep_set_mem unfolding sched_inv_def set_register_def by blast
  moreover have "live ?s' p = live s1 p" for p by (simp add: live_def set_register_def)
  ultimately show ?thesis using F(6-10) by (intro exI [of _ ?s'] exI [of _ u]) (simp add: set_register_def)
qed

lemma load64_single: "load64 a ((\<lambda>_. 0)(a := b)) = ucast b"
proof -
  have "((\<lambda>_. 0)(a := b)) (a + of_nat i) = ucast (drop_bit (8 * i) (ucast b :: 64 word))" if i: "i < 8" for i
  proof (cases "i = 0")
    case True
    have "ucast (ucast b :: 64 word) = b" by (rule bit_word_eqI) (simp add: bit_simps)
    then show ?thesis using True by simp
  next
    case False
    have "\<not> bit b (8 * i + n)" for n using False by (auto dest: bit_imp_le_length)
    then have "drop_bit (8 * i) (ucast b :: 64 word) = 0" by (intro bit_word_eqI) (simp add: bit_simps)
    moreover have "a + of_nat i \<noteq> a"
    proof
      assume "a + of_nat i = a"
      then have "unat ((a + of_nat i) - a) = 0" by simp
      then show False using offset_self [of i a] False i by simp
    qed
    ultimately show ?thesis by simp
  qed
  then show ?thesis unfolding load64_def by (subst load_bytes_split [where v = "ucast b"]) (simp_all add: take_bit_word_eq_self)
qed

lemma fork_number: "register (page_base 0 + THREAD_SIZE - of_nat PT_REGS_SIZE) 8 s = 12"
  if own: "\<forall>b. in_page 0 b \<longrightarrow> mem (phys s) b = mem fork_memory b"
proof -
  have "saved_register (mem (phys s)) 0 8 = saved_register (mem fork_memory) 0 8"
    unfolding saved_register_def by (rule load64_cong) (use own saved_register_byte(1) [of 0 8] in simp)
  also have "\<dots> = 12"
  proof -
    have "page_base 0 + THREAD_SIZE - of_nat PT_REGS_SIZE + 8 * of_nat 8 = page_base 0 + 3888" by simp
    then show ?thesis using load64_single [of "page_base 0 + 3888" 12] by (simp only: saved_register_def fork_memory_def phys_memory.simps) simp
  qed
  finally show ?thesis by (simp add: register_saved)
qed

definition demo_environment :: "unit environment" where
  "demo_environment = \<lparr>library = no_files, ret_from_fork = 0x80000, stack_path = replicate 128 NUL, stack_message = zero_message\<rparr>"

theorem fork_returns_twice_witness:
  "\<exists>s s' u. syscall_dispatcher demo_environment (page_base 0 + THREAD_SIZE - of_nat PT_REGS_SIZE) s () =
       Some (Returned (Some 2), s', ()) \<and>
     register (page_base 0 + THREAD_SIZE - of_nat PT_REGS_SIZE) 0 s' = 2 \<and> saved_register (mem (phys s')) u 0 = 0 \<and>
     saved_register (mem (phys s')) u 8 = 12"
proof -
  obtain m ph where P: "sched_inv (parent_kernel m ph)" "fork_ready 1 (table_path 0x3000) 0 (parent_kernel m ph)"
    "\<forall>b. in_page 0 b \<longrightarrow> mem ph b = mem fork_memory b" using parent_ready by blast
  let ?s = "parent_kernel m ph" and ?f = "page_base 0 + THREAD_SIZE - of_nat PT_REGS_SIZE"
  have r: "register ?f 8 ?s = 12" by (rule fork_number) (use P(3) in simp)
  obtain s' u where R: "syscall_dispatcher demo_environment ?f ?s () = Some (Returned (Some (word_of_int (n_processes ?s))), s', ())"
    "register ?f 0 s' = word_of_int (n_processes ?s)" "saved_register (mem (phys s')) u 0 = 0"
    "\<forall>i. 0 < i \<and> i < 34 \<longrightarrow> saved_register (mem (phys s')) u i = register ?f i ?s"
    using fork_returns_twice [OF P(1,2) refl r, of demo_environment "()"] by (elim exE conjE) (rule that)
  have w: "word_of_int (n_processes ?s) = (2 :: 64 word)" by simp
  have "saved_register (mem (phys s')) u 8 = 12" using R(4) r by simp
  then show ?thesis using R(1-3) unfolding w by blast
qed

end
