(* ===== verification/Line_Input.thy ===== *)
theory Line_Input
  imports Syscalls
begin

section \<open>Line editing\<close>

text \<open>
  What \<^verbatim>\<open>syscall_input\<close> promises, as a function on the typed characters: a line ends at CR or LF, DEL erases the last
  character, and characters beyond the capacity are dropped. The result is the line and, if it is complete,
  the input behind it.
\<close>

fun edit_line :: "nat \<Rightarrow> char list \<Rightarrow> char list \<Rightarrow> char list \<times> char list option" where
  "edit_line m acc [] = (acc, None)"
| "edit_line m acc (c # cs) =
     (if c = CR \<or> c = LF then (acc, Some cs)
      else if c = CHR 0x7F then edit_line m (butlast acc) cs
      else if length acc < m then edit_line m (acc @ [c]) cs
      else edit_line m acc cs)"

lemma edit_line_length: "length acc \<le> m \<Longrightarrow> length (fst (edit_line m acc cs)) \<le> m"
  by (induction m acc cs rule: edit_line.induct) auto

lemma edit_line_plain:
  "\<forall>c \<in> set w. c \<noteq> CR \<and> c \<noteq> LF \<and> c \<noteq> CHR 0x7F \<Longrightarrow> length acc + length w \<le> m \<Longrightarrow> e = CR \<or> e = LF \<Longrightarrow>
     edit_line m acc (w @ e # later) = (acc @ w, Some later)"
  by (induction w arbitrary: acc) auto

subsection \<open>The loop implements it\<close>

definition poke :: "64 word \<Rightarrow> 8 word \<Rightarrow> kernel \<Rightarrow> kernel" where
  "poke k b s = s\<lparr>phys := (phys s)\<lparr>mem := (mem (phys s))(k := b)\<rparr>\<rparr>"

lemma poke_simps [simp]:
  "mem (phys (poke k b s)) = (mem (phys s))(k := b)" "ttbr0_el1 (poke k b s) = ttbr0_el1 s"
  "uart_buffer (poke k b s) = uart_buffer s" "uart_head (poke k b s) = uart_head s" "uart_tail (poke k b s) = uart_tail s"
  "uart_owner (poke k b s) = uart_owner s" "current_process (poke k b s) = current_process s" "pcbs (poke k b s) = pcbs s"
  by (simp_all add: poke_def)

lemma poke_uart: "uart_ok (poke k b s) = uart_ok s" "uart_input (poke k b s) = uart_input s"
  by (rule uart_cong; simp)+

lemma buffer_poke:
  assumes "buffer_at f a n s" "i < n"
  shows "store_byte (a + of_nat i) b s = Some (poke (f i) b s)" "buffer_at f a n (poke (f i) b s)"
  using buffer_at_store [OF assms, of b] by (simp_all add: poke_def)

text \<open>The first bytes of the buffer are the characters of a line.\<close>

definition holds :: "kernel \<Rightarrow> (nat \<Rightarrow> 64 word) \<Rightarrow> char list \<Rightarrow> bool" where
  "holds s f w \<longleftrightarrow> (\<forall>i < length w. mem (phys s) (f i) = to_byte (w ! i))"

lemma holds_cong: "mem (phys s') = mem (phys s) \<Longrightarrow> holds s' f w = holds s f w"
  by (simp add: holds_def)

lemma holds_poke:
  assumes "holds s f w" "inj_on f {..<n}" "length w < n" "i = length w"
  shows "holds (poke (f i) b s) f w"
proof -
  have "f j \<noteq> f i" if "j < length w" for j
    using inj_onD [OF assms(2), of j i] that assms(3,4) by auto
  then show ?thesis using assms(1) by (simp add: holds_def)
qed

text \<open>What the loop may change: the memory of the buffer and the UART's tail, output and owner.\<close>

definition line_frame :: "(nat \<Rightarrow> 64 word) \<Rightarrow> nat \<Rightarrow> kernel \<Rightarrow> kernel \<Rightarrow> bool" where
  "line_frame f n s s' \<longleftrightarrow> (\<forall>x. x \<notin> f ` {..<n} \<longrightarrow> mem (phys s') x = mem (phys s) x) \<and>
     (\<exists>i out ow m. s' = s\<lparr>uart_tail := i, uart_out := out, uart_owner := ow, phys := (phys s)\<lparr>mem := m\<rparr>\<rparr>)"

lemma line_frame_trans: "line_frame f n s s1 \<Longrightarrow> line_frame f n s1 s2 \<Longrightarrow> line_frame f n s s2"
  unfolding line_frame_def by (elim conjE exE, intro conjI, simp, simp, blast)

lemma line_frameI:
  "s' = s\<lparr>uart_tail := i, uart_out := out, uart_owner := ow, phys := (phys s)\<lparr>mem := m\<rparr>\<rparr> \<Longrightarrow>
     \<forall>x. x \<notin> f ` {..<n} \<longrightarrow> m x = mem (phys s) x \<Longrightarrow> line_frame f n s s'"
  unfolding line_frame_def by (intro conjI, simp, blast)

lemma line_frame_refl: "line_frame f n s s"
  by (rule line_frameI [where i = "uart_tail s" and out = "uart_out s" and ow = "uart_owner s" and m = "mem (phys s)"]) simp_all

lemma line_frame_poke: "i < n \<Longrightarrow> line_frame f n s (poke (f i) b s)"
  by (rule line_frameI [where i = "uart_tail s" and out = "uart_out s" and ow = "uart_owner s" and m = "(mem (phys s))(f i := b)"]) (auto simp: poke_def)

lemma line_frame_uart: "line_frame f n s (s\<lparr>uart_tail := i, uart_out := out\<rparr>)"
  by (rule line_frameI [where i = i and out = out and ow = "uart_owner s" and m = "mem (phys s)"]) simp_all

lemma line_frame_owner: "line_frame f n s (s\<lparr>uart_owner := ow\<rparr>)"
  by (rule line_frameI [where i = "uart_tail s" and out = "uart_out s" and ow = ow and m = "mem (phys s)"]) simp_all

lemma line_frame_out: "line_frame f n s (s\<lparr>uart_out := out\<rparr>)"
  by (rule line_frameI [where i = "uart_tail s" and out = out and ow = "uart_owner s" and m = "mem (phys s)"]) simp_all

definition input_done :: "char list \<Rightarrow> char list option \<Rightarrow> (nat \<Rightarrow> 64 word) \<Rightarrow> 64 word \<Rightarrow> nat \<Rightarrow> kernel \<Rightarrow> bool" where
  "input_done line later f buffer n s' \<longleftrightarrow> holds s' f line \<and> uart_ok s' \<and> buffer_at f buffer n s' \<and> length line < n \<and>
     (case later of None \<Rightarrow> uart_input s' = []
      | Some r \<Rightarrow> uart_input s' = r \<and> uart_owner s' = None \<and> mem (phys s') (f (length line)) = 0)"

definition input_answer :: "char list \<times> char list option \<Rightarrow> input_result" where
  "input_answer e = (case snd e of None \<Rightarrow> More (int (length (fst e))) | Some r \<Rightarrow> Line (int (length (fst e))))"

lemma input_chars_spec:
  assumes "uart_input s = cs" "uart_ok s" "buffer_at f buffer (Suc m) s" "holds s f acc" "length acc \<le> m"
  shows "\<exists>s'. input_chars buffer (int m) (int (length acc)) s = Some (input_answer (edit_line m acc cs), s') \<and>
    input_done (fst (edit_line m acc cs)) (snd (edit_line m acc cs)) f buffer (Suc m) s' \<and> line_frame f (Suc m) s s' \<and>
    (snd (edit_line m acc cs) = None \<longrightarrow> uart_owner s' = uart_owner s)"
  using assms
proof (induction cs arbitrary: s acc)
  case Nil
  then have "uart_tail s = uart_head s" using buffer_pop(4) by blast
  then have "input_chars buffer (int m) (int (length acc)) s = Some (More (int (length acc)), s)"
    by (subst input_chars.simps) simp
  then show ?case using Nil line_frame_refl by (auto simp: input_answer_def input_done_def)
next
  case (Cons c cs)
  have ne: "uart_tail s \<noteq> uart_head s"
  proof
    assume "uart_tail s = uart_head s"
    then have "uart_input s = []" using uart_ring.empty_iff [of "uart_head s" "uart_tail s" "uart_buffer s"] Cons.prems(2)
      by (simp add: uart_input_def uart_ok_def)
    then show False using Cons.prems(1) by simp
  qed
  note pop = buffer_pop [OF Cons.prems(2) ne, unfolded Cons.prems(1) list.sel]
  let ?s1 = "uart_putc c (s\<lparr>uart_tail := advance_uart (uart_tail s)\<rparr>)"
  have u1: "uart_ok ?s1" "uart_input ?s1 = cs"
    using pop(2,3) uart_cong [of ?s1 "s\<lparr>uart_tail := advance_uart (uart_tail s)\<rparr>"] by (simp_all add: uart_putc_def)
  have m1: "mem (phys ?s1) = mem (phys s)" "ttbr0_el1 ?s1 = ttbr0_el1 s" by (simp_all add: uart_putc_def)
  have b1: "buffer_at f buffer (Suc m) ?s1" "holds ?s1 f acc"
    using Cons.prems(3,4) buffer_at_cong [OF m1] holds_cong [OF m1(1)] by simp_all
  have f1: "line_frame f (Suc m) s ?s1" unfolding uart_putc_def by (simp add: line_frame_uart)
  have owner: "uart_owner ?s1 = uart_owner s" by (simp add: uart_putc_def)
  have inj: "inj_on f {..<Suc m}" using Cons.prems(3) by (simp add: buffer_at_def)
  have lt: "length acc < Suc m" using Cons.prems(5) by simp
  consider (eol) "c = CR \<or> c = LF" | (erase) "c = CHR 0x7F" "acc \<noteq> []" | (empty) "c = CHR 0x7F" "acc = []"
    | (room) "c \<noteq> CR" "c \<noteq> LF" "c \<noteq> CHR 0x7F" "length acc < m" | (full) "c \<noteq> CR" "c \<noteq> LF" "c \<noteq> CHR 0x7F" "\<not> length acc < m"
    by blast
  then show ?case
  proof cases
    case eol
    let ?s2 = "?s1\<lparr>uart_owner := None\<rparr>"
    have b2: "buffer_at f buffer (Suc m) ?s2" "holds ?s2 f acc" using b1 by (simp_all add: buffer_at_def holds_def)
    have u2: "uart_ok ?s2" "uart_input ?s2 = cs" using u1 uart_cong [of ?s2 ?s1] by simp_all
    let ?s3 = "poke (f (length acc)) 0 ?s2"
    have "input_chars buffer (int m) (int (length acc)) s = Some (Line (int (length acc)), ?s3)"
      using ne pop(1) eol buffer_poke(1) [OF b2(1) lt, of 0] by (subst input_chars.simps) simp
    moreover have "input_done acc (Some cs) f buffer (Suc m) ?s3"
      using u2 buffer_poke(2) [OF b2(1) lt] holds_poke [OF b2(2) inj lt refl] lt by (simp add: input_done_def poke_uart)
    moreover have "line_frame f (Suc m) s ?s3"
      by (rule line_frame_trans [OF line_frame_trans [OF f1 line_frame_owner] line_frame_poke [OF lt]])
    ultimately show ?thesis using eol by (auto simp: input_answer_def)
  next
    case erase
    let ?out = "uart_out ?s1 @ [CHR 0x08, CHR '' '', CHR 0x08]"
    let ?s2 = "?s1\<lparr>uart_out := ?out\<rparr>" and ?k = "length acc - 1"
    have p: "uart_puts [CHR 0x08, CHR '' '', CHR 0x08, NUL] ?s1 = Some ?s2" by (simp add: uart_putc_def)
    have k: "?k < Suc m" "length (butlast acc) = ?k" using lt by simp_all
    have b2: "buffer_at f buffer (Suc m) ?s2" using b1(1) by (simp add: buffer_at_def)
    have h2: "holds ?s2 f (butlast acc)" using b1(2) by (auto simp: holds_def nth_butlast)
    have u2: "uart_ok ?s2" "uart_input ?s2 = cs" using u1 uart_cong [of ?s2 ?s1] by simp_all
    let ?s3 = "poke (f ?k) 0 ?s2"
    have w: "int (length (butlast acc)) = int (length acc) - 1" "0 < length acc" using erase(2) by (cases acc; simp)+
    have "word_of_int (int (length acc) - 1) = (of_nat ?k :: 64 word)" using w k(2) by (metis of_int_of_nat_eq)
    then have st: "store_byte (buffer + word_of_int (int (length acc) - 1)) 0 ?s2 = Some ?s3" using buffer_poke(1) [OF b2 k(1), of 0] by simp
    have e: "input_chars buffer (int m) (int (length acc)) s = input_chars buffer (int m) (int (length (butlast acc))) ?s3"
      unfolding w(1) using ne pop(1) erase(1) p st w(2) by (subst input_chars.simps) simp
    have h3: "holds ?s3 f (butlast acc)" by (rule holds_poke [OF h2 inj]) (use k in simp_all)
    have f3: "line_frame f (Suc m) s ?s3"
      by (rule line_frame_trans [OF line_frame_trans [OF f1 line_frame_out] line_frame_poke [OF k(1)]])
    have l3: "length (butlast acc) \<le> m" using k by simp
    have i3: "uart_input ?s3 = cs" "uart_ok ?s3" using u2 by (simp_all add: poke_uart)
    show ?thesis using Cons.IH [OF i3 buffer_poke(2) [OF b2 k(1)] h3 l3] erase(1) owner line_frame_trans [OF f3] unfolding e by auto
  next
    case empty
    have e: "input_chars buffer (int m) (int (length acc)) s = input_chars buffer (int m) (int (length acc)) ?s1"
      using ne pop(1) empty by (subst input_chars.simps) simp
    show ?thesis using Cons.IH [OF u1(2,1) b1 Cons.prems(5)] empty owner line_frame_trans [OF f1] unfolding e by auto
  next
    case room
    let ?k = "length acc"
    let ?s2 = "poke (f ?k) (to_byte c) ?s1"
    let ?s3 = "poke (f (Suc ?k)) 0 ?s2"
    have k: "Suc ?k < Suc m" using room(4) by simp
    have w: "int ?k + 1 = int (Suc ?k)" by simp
    have b2: "buffer_at f buffer (Suc m) ?s2" by (rule buffer_poke(2) [OF b1(1) lt])
    have st: "store_byte (buffer + word_of_int (int ?k)) (to_byte c) ?s1 = Some ?s2"
      "store_byte (buffer + word_of_int (int ?k + 1)) 0 ?s2 = Some ?s3"
      using buffer_poke(1) [OF b1(1) lt, of "to_byte c"] buffer_poke(1) [OF b2 k, of 0] unfolding w by simp_all
    have e: "input_chars buffer (int m) (int ?k) s = input_chars buffer (int m) (int (length (acc @ [c]))) ?s3"
      using ne pop(1) room st by (subst input_chars.simps) (simp add: add.commute)
    have h2: "holds ?s2 f (acc @ [c])"
      using holds_poke [OF b1(2) inj lt refl, of "to_byte c"] by (auto simp: holds_def nth_append less_Suc_eq)
    have h3: "holds ?s3 f (acc @ [c])" by (rule holds_poke [OF h2 inj]) (use k in simp_all)
    have f3: "line_frame f (Suc m) s ?s3"
      by (rule line_frame_trans [OF line_frame_trans [OF f1 line_frame_poke [OF lt]] line_frame_poke [OF k]])
    have l3: "length (acc @ [c]) \<le> m" using room(4) by simp
    have i3: "uart_input ?s3 = cs" "uart_ok ?s3" using u1 by (simp_all add: poke_uart)
    show ?thesis using Cons.IH [OF i3 buffer_poke(2) [OF b2 k] h3 l3] room owner line_frame_trans [OF f3] unfolding e by auto
  next
    case full
    have e: "input_chars buffer (int m) (int (length acc)) s = input_chars buffer (int m) (int (length acc)) ?s1"
      using ne pop(1) full by (subst input_chars.simps) simp
    show ?thesis using Cons.IH [OF u1(2,1) b1 Cons.prems(5)] full owner line_frame_trans [OF f1] unfolding e by auto
  qed
qed

lemma edit_line_append:
  "edit_line m acc xs = (line, None) \<Longrightarrow> edit_line m acc (xs @ ys) = edit_line m line ys"
  by (induction m acc xs rule: edit_line.induct) (auto split: if_splits)

lemma input_max_nat: "input_max len = int (nat (input_max len))"
  by (simp add: input_max_def)

lemma line_frame_fields:
  assumes "line_frame f n s s'"
  shows "pcbs s' = pcbs s" "processes s' = processes s" "current_process s' = current_process s"
    "ready_queue s' = ready_queue s" "ml_queues s' = ml_queues s" "queue_level s' = queue_level s"
    "active_algorithm s' = active_algorithm s"
  using assms by (auto simp: line_frame_def)

lemma sched_rep_line_frame:
  assumes "line_frame f n s s'" "sched_rep s Q"
  shows "sched_rep s' Q"
  by (rule sched_rep_cong [OF assms(2)]) (use line_frame_fields [OF assms(1)] table_okD(3,5) [OF sched_repD(2) [OF assms(2)]] in auto)

subsection \<open>Properties\<close>

text \<open>
  C26. Reading a complete line. When the UART is free or the caller's, and the received characters contain a line end,
  syscall_input returns the length of the edited line: DEL has erased the character before it, and characters
  beyond len - 1 are dropped. The buffer holds exactly these characters and a terminating 0, no other byte of memory changes,
  the input behind the line end stays queued, and the UART is free for another process.
\<close>

theorem input_line_correct:
  assumes "uart_ok s" "uart_owner s = None \<or> uart_owner s = Some (current_process s)"
    and "buffer_at f buffer (Suc (nat (input_max len))) s"
    and "edit_line (nat (input_max len)) [] (uart_input s) = (line, Some later)"
  shows "\<exists>s'. syscall_input buffer len s = Some (Returned (int (length line)), s') \<and> int (length line) \<le> input_max len \<and>
    (\<forall>i < length line. mem (phys s') (f i) = to_byte (line ! i)) \<and> mem (phys s') (f (length line)) = 0 \<and>
    (\<forall>x. x \<notin> f ` {..nat (input_max len)} \<longrightarrow> mem (phys s') x = mem (phys s) x) \<and>
    uart_ok s' \<and> uart_input s' = later \<and> uart_owner s' = None \<and> pcbs s' = pcbs s"
proof -
  let ?m = "nat (input_max len)"
  let ?s = "s\<lparr>uart_owner := Some (current_process s)\<rparr>"
  have u: "uart_input ?s = uart_input s" "uart_ok ?s" using assms(1) uart_cong [of ?s s] by simp_all
  have b: "buffer_at f buffer (Suc ?m) ?s" using assms(3) by (simp add: buffer_at_def)
  have z: "holds ?s f []" "length ([] :: char list) \<le> ?m" by (simp_all add: holds_def)
  obtain s' where s': "input_chars buffer (int ?m) 0 ?s = Some (Line (int (length line)), s')"
    "input_done line (Some later) f buffer (Suc ?m) s'" "line_frame f (Suc ?m) ?s s'"
    using input_chars_spec [OF u b z] assms(4) by (auto simp: input_answer_def)
  have "syscall_input buffer len s = input_pass buffer (input_max len) 0 ?s"
    using assms(2) by (auto simp: syscall_input_def)
  also have "\<dots> = Some (Returned (int (length line)), s')"
    using s'(1) input_max_nat [of len] by (simp add: input_pass_def)
  finally have r: "syscall_input buffer len s = Some (Returned (int (length line)), s')" .
  have "\<forall>x. x \<notin> f ` {..?m} \<longrightarrow> mem (phys s') x = mem (phys s) x"
    using s'(3) by (simp add: line_frame_def lessThan_Suc_atMost)
  moreover have "int (length line) \<le> input_max len"
  proof -
    have "length line \<le> ?m" using s'(2) by (simp add: input_done_def)
    then have "int (length line) \<le> int ?m" by (rule of_nat_mono)
    then show ?thesis by (simp only: input_max_nat [symmetric])
  qed
  ultimately show ?thesis using r s'(2) line_frame_fields(1) [OF s'(3)] by (auto simp: input_done_def holds_def)
qed

text \<open>A process at the terminal: \<open>typed\<close> has been received, the buffer is an array in the kernel's RAM.\<close>

definition terminal_kernel :: "char list \<Rightarrow> kernel" where
  "terminal_kernel typed = (demo_kernel sched_sjf)\<lparr>uart_buffer := typed @ replicate (64 - length typed) NUL,
     uart_head := int (length typed)\<rparr>"

abbreviation (input) "demo_array \<equiv> 0xffff000000500000 :: 64 word"

lemma terminal_simps [simp]:
  "uart_buffer (terminal_kernel typed) = typed @ replicate (64 - length typed) NUL" "uart_head (terminal_kernel typed) = int (length typed)"
  "uart_tail (terminal_kernel typed) = 0" "uart_owner (terminal_kernel typed) = None"
  "current_process (terminal_kernel typed) = Pcb_at 3" "pcbs (terminal_kernel typed) = demo_heap"
  by (simp_all add: terminal_kernel_def) (simp_all add: demo_kernel_def boot_kernel_def)

lemma terminal_input:
  assumes "length typed < 64"
  shows "uart_ok (terminal_kernel typed)" "uart_input (terminal_kernel typed) = typed"
proof -
  show "uart_ok (terminal_kernel typed)" using assms by (simp add: uart_ok_def)
  show "uart_input (terminal_kernel typed) = typed"
    using assms by (auto simp: uart_input_def ring_contents_def ring_used_def nth_append intro!: nth_equalityI)
qed

lemma terminal_buffer: "n \<le> 4096 \<Longrightarrow> buffer_at (\<lambda>i. demo_array + of_nat i) demo_array n s"
  by (rule kernel_buffer) simp_all

theorem input_line_witness:
  "\<exists>s'. syscall_input demo_array 8 (terminal_kernel [CHR ''a'', CHR ''b'', CHR 0x7F, CHR ''c'', CR, CHR ''z'']) = Some (Returned 2, s') \<and>
     mem (phys s') demo_array = 97 \<and> mem (phys s') (demo_array + 1) = 99 \<and> mem (phys s') (demo_array + 2) = 0 \<and>
     uart_input s' = ''z''"
proof -
  let ?t = "[CHR ''a'', CHR ''b'', CHR 0x7F, CHR ''c'', CR, CHR ''z'']"
  let ?s = "terminal_kernel ?t" and ?f = "\<lambda>i. demo_array + of_nat i"
  have i: "uart_ok ?s" "uart_input ?s = ?t" by (rule terminal_input; simp)+
  have b: "buffer_at ?f demo_array (Suc (nat (input_max 8))) ?s" by (rule terminal_buffer) (simp add: input_max_def)
  have e: "edit_line (nat (input_max 8)) [] (uart_input ?s) = (''ac'', Some ''z'')" unfolding i(2) by (simp add: input_max_def)
  have o: "uart_owner ?s = None \<or> uart_owner ?s = Some (current_process ?s)" by simp
  have two: "(0 :: nat) < 2" "(1 :: nat) < 2" by simp_all
  obtain s' where s': "syscall_input demo_array 8 ?s = Some (Returned (int (length ''ac'')), s')"
    "\<forall>i < length ''ac''. mem (phys s') (?f i) = to_byte (''ac'' ! i)" "mem (phys s') (?f (length ''ac'')) = 0" "uart_input s' = ''z''"
    using input_line_correct [OF i(1) o b e] by blast
  have "mem (phys s') demo_array = 97" using s'(2) [rule_format, of 0] by (simp add: of_char_def)
  moreover have "mem (phys s') (demo_array + 1) = 99" using s'(2) [rule_format, of 1] by (simp add: of_char_def)
  ultimately show ?thesis using s'(1,3,4) by (intro exI [of _ s']) (simp add: of_char_def)
qed

text \<open>
  C27. Reading an incomplete line. If the received characters do not contain a line end, the caller keeps the UART and is left
  waiting for input while another process runs, with the characters typed so far in its buffer and all input taken; the repeated
  pass continues from them, so that lines typed in several pieces are edited as a whole.
\<close>

theorem input_waits_for_the_line_end:
  assumes "sched_inv s" "current_process s \<noteq> Init_process" "state (pcbs s (current_process s)) = PROCESS_RUNNING"
    and "uart_ok s" "buffer_at f buffer (Suc m) s" "holds s f acc" "length acc \<le> m"
    and "edit_line m acc (uart_input s) = (line, None)"
  shows "\<exists>s'. input_pass buffer (int m) (int (length acc)) s = Some (Blocked (int (length line)), s') \<and>
    blocked_in PROCESS_WAITING_UART_INPUT s s' \<and> uart_owner s' = uart_owner s \<and>
    uart_ok s' \<and> uart_input s' = [] \<and> holds s' f line \<and> length line \<le> m \<and>
    (\<forall>ys. edit_line m acc (uart_input s @ ys) = edit_line m line ys)"
proof -
  obtain s1 where s1: "input_chars buffer (int m) (int (length acc)) s = Some (More (int (length line)), s1)"
    "input_done line None f buffer (Suc m) s1" "line_frame f (Suc m) s s1" "uart_owner s1 = uart_owner s"
    using input_chars_spec [OF refl assms(4-7)] assms(8) by (auto simp: input_answer_def)
  note F = line_frame_fields [OF s1(3)]
  obtain Q where "sched_rep s Q" using assms(1) by (auto simp: sched_inv_def)
  then have rep: "sched_rep s1 Q" by (rule sched_rep_line_frame [OF s1(3)])
  have c: "current_process s1 \<noteq> Init_process" "state (pcbs s1 (current_process s1)) = PROCESS_RUNNING" using assms(2,3) F by simp_all
  let ?f = "\<lambda>x. x\<lparr>state := PROCESS_WAITING_UART_INPUT\<rparr>"
  obtain s' where s': "schedule (modify_pcb (current_process s1) ?f s1) = Some s'" "blocked_in PROCESS_WAITING_UART_INPUT s1 s'"
    "data_kept (modify_pcb (current_process s1) ?f s1) s'"
    using block_switch [OF rep c, of ?f PROCESS_WAITING_UART_INPUT] by auto
  have k: "uart_owner s' = uart_owner s1" "phys s' = phys s1" "uart_buffer s' = uart_buffer s1" "uart_head s' = uart_head s1"
    "uart_tail s' = uart_tail s1"
    using s'(3) by (simp_all add: data_kept_def modify_pcb_def)
  have "input_pass buffer (int m) (int (length acc)) s = Some (Blocked (int (length line)), s')"
    using s1(1) s'(1) by (simp add: input_pass_def)
  moreover have "blocked_in PROCESS_WAITING_UART_INPUT s s'"
    using s'(2) F by (simp add: blocked_in_def live_def)
  moreover have "uart_ok s'" "uart_input s' = []" using s1(2) uart_cong [OF k(3-5)] by (simp_all add: input_done_def)
  moreover have "holds s' f line" "length line \<le> m" using s1(2) k(2) by (simp_all add: input_done_def holds_def)
  moreover have "\<forall>ys. edit_line m acc (uart_input s @ ys) = edit_line m line ys" using edit_line_append [OF assms(8)] by blast
  moreover have "uart_owner s' = uart_owner s" using k(1) s1(4) by simp
  ultimately show ?thesis by blast
qed

theorem input_waits_witness:
  "\<exists>s'. input_pass demo_array 7 0 (terminal_kernel ''ls'') = Some (Blocked 2, s') \<and>
     state (pcbs s' (Pcb_at 3)) = PROCESS_WAITING_UART_INPUT \<and> current_process s' \<noteq> Pcb_at 3"
proof -
  let ?s = "terminal_kernel ''ls''" and ?f = "\<lambda>i. demo_array + of_nat i"
  have i: "uart_ok ?s" "uart_input ?s = ''ls''" by (rule terminal_input; simp)+
  have b: "buffer_at ?f demo_array (Suc 7) ?s" by (rule terminal_buffer) simp
  have e: "edit_line 7 [] (uart_input ?s) = (''ls'', None)" unfolding i(2) by simp
  have rep: "sched_rep (demo_kernel sched_sjf) demo_queues" by (rule demo_rep) (simp add: single_queue_algorithms_def)
  have "sched_rep ?s demo_queues"
    by (rule sched_rep_cong [OF rep]) (simp_all add: terminal_kernel_def sched_algorithms_def)
  then have inv: "sched_inv ?s" by (auto simp: sched_inv_def)
  have c: "current_process ?s \<noteq> Init_process" "state (pcbs ?s (current_process ?s)) = PROCESS_RUNNING" by simp_all
  have h: "holds ?s ?f []" "length ([] :: char list) \<le> 7" by (simp_all add: holds_def)
  obtain s' where "input_pass demo_array (int 7) (int (length ([] :: char list))) ?s = Some (Blocked (int (length ''ls'')), s')"
    "blocked_in PROCESS_WAITING_UART_INPUT ?s s'"
    using input_waits_for_the_line_end [OF inv c i(1) b h e] by blast
  then show ?thesis by (auto simp: blocked_in_def)
qed

end
