(* ===== verification/File_Properties.thy ===== *)
theory File_Properties
  imports File_Syscalls
begin

section \<open>The properties of file descriptors\<close>

lemma first_null_spec:
  "0 \<le> k \<Longrightarrow> (first_null k as = -1 \<and> 0 \<notin> set as) \<or>
     (\<exists>i < length as. first_null k as = k + int i \<and> as ! i = 0 \<and> (\<forall>j < i. as ! j \<noteq> 0))"
proof (induction as arbitrary: k)
  case (Cons a as)
  show ?case
  proof (cases "a = 0")
    case True
    then show ?thesis by (intro disjI2 exI [of _ 0]) simp
  next
    case False
    from Cons.IH [of "k + 1"] Cons.prems
    consider "first_null (k + 1) as = -1" "0 \<notin> set as"
      | i where "i < length as" "first_null (k + 1) as = k + 1 + int i" "as ! i = 0" "\<forall>j < i. as ! j \<noteq> 0" by fastforce
    then show ?thesis
    proof cases
      case 1
      then show ?thesis using False by simp
    next
      case 2
      have "\<forall>j < Suc i. (a # as) ! j \<noteq> 0" using 2(4) False by (auto simp: less_Suc_eq_0_disj)
      then show ?thesis using 2 False by (intro disjI2 exI [of _ "Suc i"]) simp
    qed
  qed
qed simp

text \<open>Allocating a page for the kernel; giving it back restores the allocation map.\<close>

lemma allocate_page:
  assumes "free_pages (phys s) \<noteq> {}"
  obtains u ph where "allocate_kernel_page s = (page_base u, s\<lparr>phys := ph\<rparr>)" "page_base u \<noteq> 0" "u \<in> free_pages (phys s)" "u < N_PAGES"
    "free_pages ph = free_pages (phys s) - {u}"
  by (rule allocate_kernel_page_some [OF assms]) (rule that)

lemma give_back_page:
  "u < N_PAGES \<Longrightarrow> \<exists>ph. give_back (page_base u) s = Some (s\<lparr>phys := ph\<rparr>) \<and> free_pages ph = insert u (free_pages (phys s))"
  by (auto simp: give_back_def free_page_base free_pages_def)

lemma set_resource_spec:
  assumes "free_pages (phys s) \<noteq> {}" "0 \<le> fd" "fd < int (length (files (pcbs s (current_process s))))"
  shows "\<exists>u s'. set_resource fd ty object s = Some s' \<and> u \<in> free_pages (phys s) \<and> page_base u \<noteq> 0 \<and>
    free_pages (phys s') = free_pages (phys s) - {u} \<and> current_process s' = current_process s \<and>
    files (pcbs s' (current_process s)) = (files (pcbs s (current_process s)))[nat fd := page_base u] \<and>
    resources s' = (resources s)(page_base u := \<lparr>resource_type = ty, resource_ptr = object\<rparr>)"
proof -
  obtain u ph where a: "allocate_kernel_page s = (page_base u, s\<lparr>phys := ph\<rparr>)" "page_base u \<noteq> 0" "u \<in> free_pages (phys s)"
    "free_pages ph = free_pages (phys s) - {u}"
    by (rule allocate_page [OF assms(1)])
  have "aset (files (pcbs s (current_process s))) fd (page_base u) = Some ((files (pcbs s (current_process s)))[nat fd := page_base u])"
    using assms(2,3) by (rule aset_in)
  then show ?thesis using a by (intro exI [of _ u]) (simp add: set_resource_def modify_pcb_def)
qed

subsection \<open>Properties\<close>


text \<open>A library that accepts everything, and a process with one open file.\<close>

definition file_environment :: "unit environment" where
  "file_environment = \<lparr>library = no_files\<lparr>fat_file_open := \<lambda>_ _ _. Pair 0, fat_file_close := \<lambda>_. Pair 0\<rparr>,
     ret_from_fork = 0x80000, stack_path = replicate 128 NUL, stack_message = zero_message\<rparr>"

definition file_kernel :: kernel where
  "file_kernel = (modify_pcb (Pcb_at 3) (\<lambda>x. x\<lparr>files := page_base 2 # replicate 15 0\<rparr>) (demo_kernel sched_sjf))\<lparr>
     phys := \<lparr>memory_pages = (\<lambda>_. 0)(2 := 1, 3 := 1), mem = (\<lambda>_. 0)\<rparr>,
     resources := (\<lambda>_. \<lparr>resource_type = RESOURCE_TYPE_FILE, resource_ptr = 0\<rparr>)(page_base 2 := \<lparr>resource_type = RESOURCE_TYPE_FILE, resource_ptr = page_base 3\<rparr>)\<rparr>"

lemma file_kernel_simps [simp]:
  "current_process file_kernel = Pcb_at 3" "files (pcbs file_kernel (Pcb_at 3)) = page_base 2 # replicate 15 0"
  "resources file_kernel (page_base 2) = \<lparr>resource_type = RESOURCE_TYPE_FILE, resource_ptr = page_base 3\<rparr>"
  "free_pages (phys file_kernel) = {..<257024} - {2, 3}"
  by (auto simp: file_kernel_def free_pages_def)


text \<open>
  C33. A closed descriptor is never handed out again. After a successful syscall_close_file the descriptor is still taken, by the
  resource of a fresh page with a NULL file: the set of free descriptors is unchanged, so that after 16 successful opens, closed or not,
  every further open fails, and a second close of the same descriptor follows the NULL pointer.
\<close>

theorem close_does_not_free:
  assumes "syscall_close_file E fd s d = Some (0, s', d')"
  shows "get_first_free_file_descriptor (current_process s) s' = get_first_free_file_descriptor (current_process s) s \<and>
    files (pcbs s' (current_process s)) ! nat fd \<noteq> 0 \<and> syscall_close_file E fd s' d' = None"
proof -
  let ?c = "current_process s"
  let ?fs = "files (pcbs s ?c)"
  obtain r s1 where A: "0 \<le> fd" "fd < 16" "get_resource fd s = Some r" "give_back (resource_ptr r) s = Some s1"
    "set_resource fd RESOURCE_TYPE_FILE 0 s1 = Some s'"
    using assms by (auto simp: syscall_close_file_def Let_def bind_eq_Some_conv split: if_splits prod.splits)
  have s1: "pcbs s1 = pcbs s" "current_process s1 = ?c"
    using A(4) by (auto simp: give_back_def bind_eq_Some_conv)
  have l: "fd < int (length ?fs)" "?fs ! nat fd \<noteq> 0"
    using A(1,3) by (auto simp: get_resource_def bind_eq_Some_conv split: if_splits dest!: aget_SomeD)
  have ne: "free_pages (phys s1) \<noteq> {}"
  proof
    assume "free_pages (phys s1) = {}"
    then show False using A(5) by (simp add: set_resource_def allocate_kernel_page_none bind_eq_Some_conv)
  qed
  obtain u where u: "page_base u \<noteq> 0" "current_process s' = ?c" "files (pcbs s' ?c) = ?fs[nat fd := page_base u]"
    "resources s' = (resources s1)(page_base u := \<lparr>resource_type = RESOURCE_TYPE_FILE, resource_ptr = 0\<rparr>)"
    using set_resource_spec [OF ne, of fd RESOURCE_TYPE_FILE 0] A(1,5) l(1) s1 by auto
  have same: "first_null k (as[i := a]) = first_null k as" if "a \<noteq> 0" "i < length as" "as ! i \<noteq> 0" for k as i and a :: "64 word"
    using that by (induction as arbitrary: k i) (auto split: nat.splits)
  have "get_first_free_file_descriptor ?c s' = get_first_free_file_descriptor ?c s"
    using same [OF u(1), of "nat fd" ?fs] A(1) l u(3) by (simp add: get_first_free_file_descriptor_def)
  moreover have "files (pcbs s' ?c) ! nat fd \<noteq> 0" using u(1,3) A(1) l(1) by simp
  moreover have "get_resource fd s' = Some \<lparr>resource_type = RESOURCE_TYPE_FILE, resource_ptr = 0\<rparr>"
    using u A(1) l(1) by (simp add: get_resource_def aget_def)
  then have "syscall_close_file E fd s' d' = None" using A(1,2) by (simp add: syscall_close_file_def)
  ultimately show ?thesis by blast
qed

theorem close_witness:
  "\<exists>s'. syscall_close_file file_environment 0 file_kernel () = Some (0, s', ()) \<and>
     get_first_free_file_descriptor (Pcb_at 3) s' = 1 \<and> syscall_close_file file_environment 0 s' () = None"
proof -
  have z: "page_base 2 \<noteq> 0" "page_base 3 \<noteq> 0" using unat_page_base [of 2] unat_page_base [of 3] by force+
  have r: "get_resource 0 file_kernel = Some \<lparr>resource_type = RESOURCE_TYPE_FILE, resource_ptr = page_base 3\<rparr>"
    using z by (simp add: get_resource_def aget_def)
  obtain ph where g: "give_back (page_base 3) file_kernel = Some (file_kernel\<lparr>phys := ph\<rparr>)"
    "free_pages ph = insert 3 (free_pages (phys file_kernel))" using give_back_page [of 3 file_kernel] by auto
  have "free_pages (phys (file_kernel\<lparr>phys := ph\<rparr>)) \<noteq> {}" using g(2) by auto
  from set_resource_spec [OF this, of 0 RESOURCE_TYPE_FILE 0]
  obtain s' where "set_resource 0 RESOURCE_TYPE_FILE 0 (file_kernel\<lparr>phys := ph\<rparr>) = Some s'" by auto
  then have c: "syscall_close_file file_environment 0 file_kernel () = Some (0, s', ())"
    using r g(1) z by (simp add: syscall_close_file_def file_environment_def)
  have "get_first_free_file_descriptor (current_process file_kernel) file_kernel = 1"
    using z by (simp add: get_first_free_file_descriptor_def numeral_eq_Suc)
  then show ?thesis using close_does_not_free [OF c] c by simp
qed

end
