(* ===== verification/Path_Normalization.thy ===== *)
theory Path_Normalization
  imports C_String
begin

section \<open>Path normalisation in the shell\<close>

text \<open>
  \<^verbatim>\<open>normalize_path\<close> of \<^verbatim>\<open>app/shell.c\<close> rewrites a path in place: \<open>read\<close> runs over the text, \<open>write\<close> follows behind, and may
  become negative.
\<close>

abbreviation (input) SLASH :: char where "SLASH \<equiv> CHR ''/''"
abbreviation (input) DOT :: char where "DOT \<equiv> CHR ''.''"

text \<open>The inner loop: back to behind the previous slash.\<close>

function retreat :: "char list \<Rightarrow> int \<Rightarrow> int option" where
  "retreat path write =
     (if write > 0 then do {
        c \<leftarrow> aget path (write - 1);
        if c \<noteq> SLASH then retreat path (write - 1) else Some write
      } else Some write)"
  by auto
termination by (relation "measure (\<lambda>(p, w). nat w)") auto

declare retreat.simps [simp del]

text \<open>What the characters at \<open>read\<close> ask for: the tests of the outer loop, in their order.\<close>

datatype move = Stop | Skip nat | Up nat | Copy char

definition next_move :: "char list \<Rightarrow> nat \<Rightarrow> move option" where
  "next_move path read = do {
     c \<leftarrow> aget path (int read);
     if c = NUL then Some Stop
     else if c = DOT
     then do {
       c1 \<leftarrow> aget path (int read + 1);
       if c1 = SLASH then Some (Skip 2)
       else if c1 = NUL then Some (Skip 1)
       else if c1 = DOT
       then do {
         c2 \<leftarrow> aget path (int read + 2);
         Some (if c2 = SLASH then Up 3 else if c2 = NUL then Up 2 else Copy c)
       }
       else Some (Copy c)
     }
     else Some (Copy c)
   }"

lemma next_move_in: "next_move path read \<noteq> None \<Longrightarrow> read < length path"
  by (auto simp: next_move_def aget_def bind_eq_None_conv split: if_splits)

lemma next_move_pos: "next_move path read = Some (Skip n) \<or> next_move path read = Some (Up n) \<Longrightarrow> 0 < n"
  by (auto simp: next_move_def bind_eq_Some_conv split: if_splits)

function normalize_loop :: "char list \<Rightarrow> nat \<Rightarrow> int \<Rightarrow> (char list \<times> int) option" where
  "normalize_loop path read write =
     (case next_move path read of
        None \<Rightarrow> None
      | Some Stop \<Rightarrow> Some (path, write)
      | Some (Skip n) \<Rightarrow> normalize_loop path (read + n) write
      | Some (Up n) \<Rightarrow>
          (case retreat path (write - 1) of
             None \<Rightarrow> None
           | Some w \<Rightarrow> normalize_loop path (read + n) w)
      | Some (Copy c) \<Rightarrow>
          (case aset path write c of
             None \<Rightarrow> None
           | Some p \<Rightarrow> normalize_loop p (read + 1) (write + 1)))"
  by pat_completeness auto
termination
proof (relation "measure (\<lambda>(path, read, write). length path - read)", goal_cases)
  case (2 p r w m n)
  then show ?case using next_move_in [of p r] next_move_pos [of p r n] by auto
next
  case (3 p r w m n w')
  then show ?case using next_move_in [of p r] next_move_pos [of p r n] by auto
next
  case (4 p r w m c p')
  then show ?case using next_move_in [of p r] aset_SomeD [of p w c p'] by auto
qed auto

declare normalize_loop.simps [simp del]

definition normalize_path :: "char list \<Rightarrow> char list option" where
  "normalize_path path = do {
     (p, write) \<leftarrow> normalize_loop path 0 0;
     p1 \<leftarrow> aset p write NUL;
     if write = 0
     then do {
       p2 \<leftarrow> aset p1 write SLASH;
       aset p2 (write + 1) NUL
     } else Some p1
   }"

subsection \<open>The same on texts\<close>

text \<open>The text written so far and the text to read; going up from an empty text writes in front of the array.\<close>

definition parent_text :: "string \<Rightarrow> string" where
  "parent_text out = rev (dropWhile (\<lambda>c. c \<noteq> SLASH) (rev out))"

function norm_text :: "string \<Rightarrow> string \<Rightarrow> string option" where
  "norm_text out [] = Some out"
| "norm_text out (c # cs) =
     (if c = DOT \<and> (cs = [] \<or> hd cs = SLASH) then norm_text out (tl cs)
      else if c = DOT \<and> cs \<noteq> [] \<and> hd cs = DOT \<and> (tl cs = [] \<or> hd (tl cs) = SLASH)
      then (if out = [] then None else norm_text (parent_text (butlast out)) (tl (tl cs)))
      else norm_text (out @ [c]) cs)"
  by pat_completeness auto
termination by (relation "measure (\<lambda>(out, cs). length cs)") (auto simp: less_Suc_eq_le)

lemma parent_text_snoc: "parent_text (out @ [c]) = (if c = SLASH then out @ [c] else parent_text out)"
  by (simp add: parent_text_def)

lemma parent_text_length: "length (parent_text out) \<le> length out"
  using length_dropWhile_le [of "\<lambda>c. c \<noteq> SLASH" "rev out"] by (simp add: parent_text_def)

lemma parent_text_prefix: "\<exists>cs. out = parent_text out @ cs"
proof -
  have "out = rev (dropWhile (\<lambda>c. c \<noteq> SLASH) (rev out)) @ rev (takeWhile (\<lambda>c. c \<noteq> SLASH) (rev out))"
    by (metis rev_append rev_rev_ident takeWhile_dropWhile_id)
  then show ?thesis unfolding parent_text_def by blast
qed

lemma retreat_text: "retreat (out @ more) (int (length out)) = Some (int (length (parent_text out)))"
proof (induction out arbitrary: more rule: rev_induct)
  case Nil
  then show ?case by (simp add: retreat.simps parent_text_def)
next
  case (snoc c out)
  have g: "aget ((out @ [c]) @ more) (int (length (out @ [c])) - 1) = Some c" by (simp add: aget_def nth_append)
  have e: "int (length (out @ [c])) - 1 = int (length out)" by simp
  show ?case
    using snoc.IH [of "c # more"] g by (subst retreat.simps) (simp add: e parent_text_snoc)
qed

text \<open>Once \<open>write\<close> is negative, it stays so.\<close>

lemma retreat_negative: "w \<le> 0 \<Longrightarrow> retreat path w = Some w"
  by (simp add: retreat.simps)

lemma normalize_loop_negative:
  "w < 0 \<Longrightarrow> normalize_loop path r w = None \<or> (\<exists>p w'. normalize_loop path r w = Some (p, w') \<and> w' < 0)"
proof (induction path r w rule: normalize_loop.induct)
  case (1 path r w)
  have ret: "retreat path (w - 1) = Some (w - 1)" using 1(4) by (simp add: retreat_negative)
  have no: "aset path w c = None" for c using 1(4) by (simp add: aset_def)
  show ?case
  proof (cases "next_move path r")
    case None
    then show ?thesis by (simp add: normalize_loop.simps)
  next
    case (Some m)
    show ?thesis
    proof (cases m)
      case Stop
      then show ?thesis using Some 1(4) by (simp add: normalize_loop.simps [of path r w])
    next
      case (Skip n)
      then show ?thesis using 1(1) [OF Some Skip 1(4)] Some by (simp add: normalize_loop.simps [of path r w])
    next
      case (Up n)
      then show ?thesis using 1(2) [OF Some Up ret] 1(4) Some ret by (simp add: normalize_loop.simps [of path r w])
    next
      case (Copy c)
      then show ?thesis using Some no by (simp add: normalize_loop.simps [of path r w])
    qed
  qed
qed

text \<open>The moves on a text.\<close>

lemma aget_offset:
  "aget (xs @ ys) (int (length xs)) = aget ys 0" "aget (xs @ ys) (int (length xs) + 1) = aget ys 1"
  "aget (xs @ ys) (int (length xs) + 2) = aget ys 2"
  by (simp_all add: aget_def nth_append nat_add_distrib)

lemma next_move_chars:
  assumes "aget p (int n) = Some c" "c \<noteq> NUL" "aget p (int n + 1) = Some c1" "c1 \<noteq> NUL \<longrightarrow> aget p (int n + 2) = Some c2"
  shows "next_move p n =
    Some (if c = DOT \<and> (c1 = NUL \<or> c1 = SLASH) then Skip (if c1 = NUL then 1 else 2)
      else if c = DOT \<and> c1 = DOT \<and> (c2 = NUL \<or> c2 = SLASH) then Up (if c2 = NUL then 2 else 3)
      else Copy c)"
  using assms unfolding next_move_def by (cases "c = DOT"; cases "c1 = DOT") auto

lemma next_move_text:
  assumes "NUL \<notin> set (c # cs)" "length out = n"
  shows "next_move (out @ c # cs @ NUL # tail) n =
    Some (if c = DOT \<and> (cs = [] \<or> hd cs = SLASH) then Skip (if cs = [] then 1 else 2)
      else if c = DOT \<and> cs \<noteq> [] \<and> hd cs = DOT \<and> (tl cs = [] \<or> hd (tl cs) = SLASH) then Up (if tl cs = [] then 2 else 3)
      else Copy c)"
proof -
  let ?p = "out @ c # cs @ NUL # tail"
  have g: "aget ?p (int n) = Some c" "aget ?p (int n + 1) = Some (if cs = [] then NUL else hd cs)"
    using assms(2) by (auto simp: aget_def nth_append nat_add_distrib neq_Nil_conv split: if_splits)
  have g2: "(if cs = [] then NUL else hd cs) \<noteq> NUL \<longrightarrow> aget ?p (int n + 2) = Some (if tl cs = [] then NUL else hd (tl cs))"
    using assms(2) by (auto simp: aget_def nth_append nat_add_distrib neq_Nil_conv split: if_splits)
  have c: "c \<noteq> NUL" using assms(1) by auto
  have z: "hd cs = NUL \<longleftrightarrow> False" if "cs \<noteq> []" using assms(1) that by (cases cs) auto
  have z2: "hd (tl cs) = NUL \<longleftrightarrow> False" if "cs \<noteq> []" "tl cs \<noteq> []" using assms(1) that by (cases cs; cases "tl cs") auto
  show ?thesis
    using next_move_chars [OF g(1) c g(2) g2] z z2 by (cases "cs = []"; cases "tl cs = []") auto
qed

lemma normalize_loop_step:
  "next_move p n = Some (Skip k) \<Longrightarrow> normalize_loop p n w = normalize_loop p (n + k) w"
  "next_move p n = Some (Up k) \<Longrightarrow> retreat p (w - 1) = Some w' \<Longrightarrow> normalize_loop p n w = normalize_loop p (n + k) w'"
  "next_move p n = Some (Copy c) \<Longrightarrow> aset p w c = Some q \<Longrightarrow> normalize_loop p n w = normalize_loop q (n + 1) (w + 1)"
  by (simp_all add: normalize_loop.simps [of p n w])

definition loop_agrees :: "string option \<Rightarrow> nat \<Rightarrow> (char list \<times> int) option \<Rightarrow> bool" where
  "loop_agrees r n res \<longleftrightarrow> (case r of
     None \<Rightarrow> res = None \<or> (\<exists>p w. res = Some (p, w) \<and> w < 0)
   | Some out \<Rightarrow> \<exists>junk. res = Some (out @ junk, int (length out)) \<and> length (out @ junk) = n \<and> junk \<noteq> [])"

lemma normalize_loop_text:
  assumes "NUL \<notin> set src"
  shows "loop_agrees (norm_text out src) (length (out @ junk @ src @ NUL # tail))
    (normalize_loop (out @ junk @ src @ NUL # tail) (length out + length junk) (int (length out)))"
  using assms
proof (induction out src arbitrary: junk rule: norm_text.induct)
  case (1 out)
  let ?p = "out @ junk @ NUL # tail"
  have "aget ((out @ junk) @ NUL # tail) (int (length (out @ junk))) = Some NUL" by (subst aget_nat) simp
  then have "aget ?p (int (length out + length junk)) = Some NUL" by (simp only: append_assoc length_append)
  then have m: "next_move ?p (length out + length junk) = Some Stop" by (simp add: next_move_def)
  have "normalize_loop ?p (length out + length junk) (int (length out)) = Some (?p, int (length out))"
    by (subst normalize_loop.simps) (simp add: m)
  then show ?case by (simp add: loop_agrees_def)
next
  case (2 out c cs)
  let ?p = "out @ junk @ (c # cs) @ NUL # tail" and ?n = "length out + length junk" and ?w = "int (length out)"
  have nul: "NUL \<notin> set (tl cs)" "NUL \<notin> set (tl (tl cs))" "NUL \<notin> set cs" using 2(4) by (cases cs; cases "tl cs"; auto)+
  have m: "next_move ?p ?n = Some (if c = DOT \<and> (cs = [] \<or> hd cs = SLASH) then Skip (if cs = [] then 1 else 2)
      else if c = DOT \<and> cs \<noteq> [] \<and> hd cs = DOT \<and> (tl cs = [] \<or> hd (tl cs) = SLASH) then Up (if tl cs = [] then 2 else 3)
      else Copy c)"
    using next_move_text [of c cs "out @ junk" ?n tail] 2(4) by simp
  consider (skip) "c = DOT \<and> (cs = [] \<or> hd cs = SLASH)"
    | (up) "\<not> (c = DOT \<and> (cs = [] \<or> hd cs = SLASH))" "c = DOT \<and> cs \<noteq> [] \<and> hd cs = DOT \<and> (tl cs = [] \<or> hd (tl cs) = SLASH)"
    | (copy) "\<not> (c = DOT \<and> (cs = [] \<or> hd cs = SLASH))"
        "\<not> (c = DOT \<and> cs \<noteq> [] \<and> hd cs = DOT \<and> (tl cs = [] \<or> hd (tl cs) = SLASH))" by blast
  then show ?case
  proof cases
    case skip
    let ?j = "junk @ c # take 1 cs"
    have p: "?p = out @ ?j @ tl cs @ NUL # tail" by (cases cs) simp_all
    have l: "?n + (if cs = [] then 1 else 2) = length out + length ?j" by (cases cs) simp_all
    have "next_move ?p ?n = Some (Skip (if cs = [] then 1 else 2))" using m skip by simp
    then have "normalize_loop ?p ?n ?w = normalize_loop ?p (length out + length ?j) ?w"
      unfolding l [symmetric] by (rule normalize_loop_step)
    then show ?thesis using 2(1) [OF skip nul(1), of ?j] skip unfolding p by auto
  next
    case up
    show ?thesis
    proof (cases "out = []")
      case True
      have "retreat ?p (-1) = Some (-1)" by (rule retreat_negative) simp
      then have r: "retreat ?p (?w - 1) = Some (-1)" using True by simp
      have "next_move ?p ?n = Some (Up (if tl cs = [] then 2 else 3))" using m up by simp
      then have "normalize_loop ?p ?n ?w = normalize_loop ?p (?n + (if tl cs = [] then 2 else 3)) (-1)"
        using r by (rule normalize_loop_step)
      then show ?thesis using up True normalize_loop_negative [of "-1" ?p] by (simp add: loop_agrees_def)
    next
      case False
      obtain more where more: "butlast out = parent_text (butlast out) @ more" using parent_text_prefix by blast
      let ?q = "parent_text (butlast out)"
      let ?j = "more @ last out # junk @ c # hd cs # take 1 (tl cs)"
      have cs: "cs = hd cs # take 1 (tl cs) @ tl (tl cs)" using up by (cases cs; cases "tl cs") auto
      have o: "out = ?q @ more @ [last out]" using False more by (metis append.assoc append_butlast_last_id)
      have "?p = (?q @ more @ [last out]) @ junk @ (c # hd cs # take 1 (tl cs) @ tl (tl cs)) @ NUL # tail"
        using o cs by simp
      then have p: "?p = ?q @ ?j @ tl (tl cs) @ NUL # tail" by simp
      have lo: "length out = length ?q + length more + 1" using arg_cong [OF o, of length] by simp
      have lt: "length (take 1 (tl cs)) = (if tl cs = [] then 0 else 1)" by (cases "tl cs") simp_all
      have l: "?n + (if tl cs = [] then 2 else 3) = length ?q + length ?j" using lo lt by simp
      have r: "retreat ?p (?w - 1) = Some (int (length ?q))"
      proof -
        have "?p = butlast out @ last out # junk @ (c # cs) @ NUL # tail" using False by simp
        moreover have "?w - 1 = int (length (butlast out))" using False by (cases out rule: rev_cases) simp_all
        ultimately show ?thesis by (simp only: retreat_text)
      qed
      have "next_move ?p ?n = Some (Up (if tl cs = [] then 2 else 3))" using m up by simp
      then have "normalize_loop ?p ?n ?w = normalize_loop ?p (length ?q + length ?j) (int (length ?q))"
        using r unfolding l [symmetric] by (rule normalize_loop_step)
      then show ?thesis using 2(2) [OF up False nul(2), of ?j] up False unfolding p by auto
    qed
  next
    case copy
    let ?j = "tl (junk @ [c])"
    have a: "aset ?p ?w c = Some ((out @ [c]) @ ?j @ cs @ NUL # tail)"
      by (cases junk) (simp_all add: list_update_append)
    have l: "?n + 1 = length (out @ [c]) + length ?j" by (cases junk) simp_all
    have e: "normalize_loop ?p ?n ?w = normalize_loop ((out @ [c]) @ ?j @ cs @ NUL # tail) (length (out @ [c]) + length ?j) (int (length (out @ [c])))"
    proof -
      have "next_move ?p ?n = Some (Copy c)" using m copy by simp
      moreover have "?w + 1 = int (length (out @ [c]))" by simp
      ultimately show ?thesis using normalize_loop_step(3) [OF _ a, of ?n] l by (simp add: add.commute)
    qed
    have "length ?p = length ((out @ [c]) @ ?j @ cs @ NUL # tail)" by (cases junk) simp_all
    moreover have "norm_text out (c # cs) = norm_text (out @ [c]) cs" using copy by auto
    ultimately show ?thesis using 2(3) [OF copy nul(3), of ?j] unfolding e by simp
  qed
qed

text \<open>The whole routine: it writes in front of the array exactly when the src goes up from nothing.\<close>

lemma normalize_path_text:
  assumes "NUL \<notin> set src" "tail \<noteq> [] \<or> src \<noteq> []"
  shows "(norm_text [] src = None \<longrightarrow> normalize_path (src @ NUL # tail) = None) \<and>
    (\<forall>r. norm_text [] src = Some r \<longrightarrow>
       (\<exists>p. normalize_path (src @ NUL # tail) = Some p \<and> length p = length (src @ NUL # tail) \<and>
          take (Suc (length (if r = [] then [SLASH] else r))) p = (if r = [] then [SLASH] else r) @ [NUL]))"
proof (intro conjI allI impI)
  let ?p = "src @ NUL # tail"
  note L = normalize_loop_text [OF assms(1), of "[]" "[]" tail, simplified]
  show "normalize_path ?p = None" if "norm_text [] src = None"
    using L that by (auto simp: loop_agrees_def normalize_path_def aset_def)
  fix r assume r: "norm_text [] src = Some r"
  then obtain junk where j: "normalize_loop ?p 0 0 = Some (r @ junk, int (length r))" "length (r @ junk) = length ?p" "junk \<noteq> []"
    using L by (auto simp: loop_agrees_def)
  obtain x xs where x: "junk = x # xs" using j(3) by (cases junk) auto
  have w: "aset (r @ junk) (int (length r)) NUL = Some (r @ NUL # xs)" using x by (simp add: list_update_append)
  show "\<exists>p. normalize_path ?p = Some p \<and> length p = length ?p \<and>
      take (Suc (length (if r = [] then [SLASH] else r))) p = (if r = [] then [SLASH] else r) @ [NUL]"
  proof (cases "r = []")
    case False
    then show ?thesis using j x w by (simp add: normalize_path_def)
  next
    case True
    have "2 \<le> length ?p" using assms(2) by (cases src; cases tail) simp_all
    then obtain y ys where y: "xs = y # ys" using j(2) x True by (cases xs) auto
    have t2: "tail \<noteq> [] \<or> src \<noteq> []" by (rule assms(2))
    show ?thesis using j x w True y t2 by (auto simp: normalize_path_def numeral_eq_Suc aset_def)
  qed
qed

subsection \<open>Components\<close>

text \<open>
  The meaning of a path: its components, read from left to right. The state is whether the result still has its leading
  slash (going up from the root drops it) and the components kept so far.
\<close>

fun resolve :: "bool \<times> string list \<Rightarrow> string list \<Rightarrow> (bool \<times> string list) option" where
  "resolve (root, st) [] = Some (root, st)"
| "resolve (root, st) (c # cs) =
     (if c = ''.'' then resolve (root, st) cs
      else if c = ''..'' then
        if st \<noteq> [] then resolve (root, butlast st) cs
        else if root then resolve (False, []) cs
        else None
      else resolve (root, st @ [c]) cs)"

definition join :: "string list \<Rightarrow> string" where
  "join cs = concat (map (\<lambda>c. c @ [SLASH]) cs)"

definition render :: "bool \<times> string list \<Rightarrow> string" where
  "render r = (if fst r then [SLASH] else []) @ join (snd r)"

definition component :: "string \<Rightarrow> bool" where
  "component c \<longleftrightarrow> c \<noteq> [] \<and> SLASH \<notin> set c \<and> NUL \<notin> set c \<and> (c = ''.'' \<or> c = ''..'' \<or> last c \<noteq> DOT)"

lemma join_simps [simp]: "join [] = []" "join (c # cs) = c @ SLASH # join cs" "join (xs @ ys) = join xs @ join ys"
  by (simp_all add: join_def)

lemma norm_text_name:
  assumes "SLASH \<notin> set w" "w = [] \<or> last w \<noteq> DOT"
  shows "norm_text out (w @ SLASH # more) = norm_text (out @ w @ [SLASH]) more"
  using assms
proof (induction w arbitrary: out)
  case Nil
  then show ?case by simp
next
  case (Cons c w)
  have IH: "norm_text (out @ [c]) (w @ SLASH # more) = norm_text (out @ (c # w) @ [SLASH]) more"
    using Cons.IH [of "out @ [c]"] Cons.prems by (cases "w = []") auto
  have "norm_text out ((c # w) @ SLASH # more) = norm_text (out @ [c]) (w @ SLASH # more)"
  proof (cases "c = DOT")
    case False
    then show ?thesis by simp
  next
    case True
    then obtain d ds where w: "w = d # ds" using Cons.prems(2) by (cases w) auto
    have "d \<noteq> SLASH" using Cons.prems(1) w by auto
    moreover have "ds \<noteq> [] \<and> hd ds \<noteq> SLASH" if "d = DOT"
      using that Cons.prems w by (cases ds) auto
    ultimately show ?thesis using w True by (cases ds) auto
  qed
  then show ?case using IH by simp
qed

lemma parent_text_join:
  assumes "SLASH \<notin> set c" "out = [] \<or> last out = SLASH"
  shows "parent_text (out @ c) = out"
proof -
  have "dropWhile (\<lambda>c. c \<noteq> SLASH) (rev c @ rev out) = dropWhile (\<lambda>c. c \<noteq> SLASH) (rev out)"
    by (rule dropWhile_append2) (use assms(1) in auto)
  moreover have "dropWhile (\<lambda>c. c \<noteq> SLASH) (rev out) = rev out"
    using assms(2) by (cases out rule: rev_cases) auto
  ultimately show ?thesis by (simp add: parent_text_def)
qed

lemma render_last: "render (root, st) = [] \<or> last (render (root, st)) = SLASH"
proof (cases st rule: rev_cases)
  case (snoc st' c)
  then have "render (root, st) = ((if root then [SLASH] else []) @ join st' @ c) @ [SLASH]" by (simp add: render_def)
  then show ?thesis by (metis last_snoc)
qed (simp add: render_def)

lemma norm_text_components:
  assumes "\<forall>c \<in> set cs. component c" "\<forall>c \<in> set st. component c"
  shows "norm_text (render (root, st)) (join cs) = map_option render (resolve (root, st) cs)"
  using assms
proof (induction cs arbitrary: root st)
  case Nil
  then show ?case by simp
next
  case (Cons c cs)
  have c: "component c" and cs: "\<forall>c \<in> set cs. component c" using Cons.prems(1) by simp_all
  consider "c = ''.''" | (up) "c = ''..''" | (name) "c \<noteq> ''.''" "c \<noteq> ''..''" by blast
  then show ?case
  proof cases
    case 1
    then show ?thesis using Cons.IH [OF cs Cons.prems(2)] by simp
  next
    case name
    have "norm_text (render (root, st)) (join (c # cs)) = norm_text (render (root, st) @ c @ [SLASH]) (join cs)"
      using norm_text_name [of c "render (root, st)" "join cs"] c name by (auto simp: component_def)
    also have "render (root, st) @ c @ [SLASH] = render (root, st @ [c])" by (simp add: render_def)
    finally show ?thesis using Cons.IH [OF cs, of "st @ [c]" root] Cons.prems(2) c name by simp
  next
    case up
    have step: "norm_text (render (root, st)) (join (c # cs)) =
        (if render (root, st) = [] then None else norm_text (parent_text (butlast (render (root, st)))) (join cs))"
      using up by simp
    show ?thesis
    proof (cases st rule: rev_cases)
      case Nil
      have "render (root, []) = (if root then [SLASH] else [])" by (simp add: render_def)
      then show ?thesis using step Nil up Cons.IH [OF cs, of "[]" False] by (simp add: render_def parent_text_def)
    next
      case (snoc st' d)
      have "SLASH \<notin> set d" using Cons.prems(2) snoc by (simp add: component_def)
      then have "parent_text (render (root, st') @ d) = render (root, st')" by (rule parent_text_join [OF _ render_last])
      moreover have "butlast (render (root, st)) = render (root, st') @ d" "render (root, st) \<noteq> []"
        using snoc by (simp_all add: render_def butlast_append)
      ultimately show ?thesis using step snoc up Cons.IH [OF cs, of st' root] Cons.prems(2) by simp
    qed
  qed
qed

lemma resolve_keeps: "resolve (root, st) cs = Some r \<Longrightarrow> set (snd r) \<subseteq> set st \<union> set cs"
proof (induction cs arbitrary: root st)
  case (Cons c cs)
  have "set (butlast st) \<subseteq> set st" by (meson in_set_butlastD subsetI)
  then show ?case using Cons.prems Cons.IH by (fastforce split: if_splits)
qed auto

lemma normalize_path_components:
  assumes "\<forall>c \<in> set cs. component c"
  shows "case resolve (True, []) cs of
      None \<Rightarrow> normalize_path (SLASH # join cs @ NUL # tail) = None
    | Some r \<Rightarrow> \<exists>p. normalize_path (SLASH # join cs @ NUL # tail) = Some p \<and> length p = length (SLASH # join cs @ NUL # tail) \<and>
        cstr p = Some (if r = (False, []) then [SLASH] else render r)"
proof -
  let ?t = "SLASH # join cs"
  have nul: "NUL \<notin> set (join cs)" using assms by (induction cs) (auto simp: component_def)
  have n: "NUL \<notin> set ?t" using nul by simp
  have e: "norm_text [] ?t = map_option render (resolve (True, []) cs)"
    using norm_text_components [OF assms, of "[]" True] by (simp add: render_def)
  note T = normalize_path_text [OF n, of tail]
  show ?thesis
  proof (cases "resolve (True, []) cs")
    case None
    then show ?thesis using T e by simp
  next
    case (Some r)
    let ?r = "if render r = [] then [SLASH] else render r"
    obtain p where p: "normalize_path (?t @ NUL # tail) = Some p" "length p = length (?t @ NUL # tail)"
      "take (Suc (length ?r)) p = ?r @ [NUL]" using T e Some by auto
    have keep: "NUL \<notin> set (render r)"
      using resolve_keeps [OF Some] assms by (auto simp: render_def component_def join_def)
    have "p = ?r @ NUL # drop (Suc (length ?r)) p" using p(3) by (metis append.assoc append_Cons append_Nil append_take_drop_id)
    moreover have "NUL \<notin> set ?r" using keep by simp
    ultimately have "cstr p = Some ?r" by (metis cstr_append)
    moreover have "render r = [] \<longleftrightarrow> r = (False, [])"
    proof -
      obtain root st where r: "r = (root, st)" by (cases r)
      show ?thesis unfolding r by (cases st) (simp_all add: render_def)
    qed
    ultimately show ?thesis using p(1,2) Some by auto
  qed
qed

subsection \<open>Properties\<close>

text \<open>
  C38. normalize_path resolves "." and "..". On an absolute path /c1/c2/.../cn/ whose names do not end in a dot, the routine
  leaves in place the path of the components that remain when "." is dropped and ".." removes its
  predecessor; going up from the root once gives a path without the leading slash, "/" if nothing is left, and going up
  once more writes in front of the array. The length of the array never changes.
\<close>

theorem normalize_path_resolves:
  assumes "\<forall>c \<in> set cs. component c"
  shows "case resolve (True, []) cs of
      None \<Rightarrow> normalize_path (SLASH # join cs @ NUL # tail) = None
    | Some r \<Rightarrow> \<exists>p. normalize_path (SLASH # join cs @ NUL # tail) = Some p \<and> length p = length (SLASH # join cs @ NUL # tail) \<and>
        cstr p = Some (if r = (False, []) then [SLASH] else render r)"
  using normalize_path_components [OF assms] .

theorem normalize_path_witness:
  "(\<exists>p. normalize_path (''/usr/./lib/../bin/'' @ replicate 40 NUL) = Some p \<and> cstr p = Some ''/usr/bin/'') \<and>
   normalize_path (''/../../'' @ replicate 40 NUL) = None"
proof -
  let ?a = "[''usr'', ''.'', ''lib'', ''..'', ''bin'']" and ?b = "[''..'', ''..'']"
  have c: "\<forall>c \<in> set ?a. component c" "\<forall>c \<in> set ?b. component c" by (simp_all add: component_def)
  have r: "resolve (True, []) ?a = Some (True, [''usr'', ''bin''])" "resolve (True, []) ?b = None" by simp_all
  have t: "''/usr/./lib/../bin/'' @ replicate 40 NUL = SLASH # join ?a @ NUL # replicate 39 NUL"
    "''/../../'' @ replicate 40 NUL = SLASH # join ?b @ NUL # replicate 39 NUL" by (simp_all add: numeral_eq_Suc)
  show ?thesis
    using normalize_path_resolves [OF c(1), of "replicate 39 NUL"] normalize_path_resolves [OF c(2), of "replicate 39 NUL"]
    unfolding r t by (auto simp: render_def)
qed

end
