(* ===== verification/Shell.thy ===== *)
theory Shell
  imports Path_Normalization
begin

section \<open>The shell\<close>

text \<open>
  \<^verbatim>\<open>app/shell.c\<close> and \<^verbatim>\<open>common/process_api.c\<close>, user programs above the system calls. The calls are a record of operations on a state \<open>'w\<close>
  of the world; strings are passed as texts, output buffers as arrays that come back changed. A \<^verbatim>\<open>char[n]\<close> is a list of
  length \<open>n\<close>. \<open>u_exec\<close> answers \<open>None\<close> when the program has been replaced; \<open>Gone\<close> is the result of a handler
  that does not return to its caller because the process left the program.
\<close>

record FatEntryInfo =
  entry_size :: "32 word"
  entry_name :: "char list"
  entry_is_dir :: bool

record 'w user_api =
  u_write :: "string \<Rightarrow> 'w \<Rightarrow> 'w"
  u_write_hex :: "int \<Rightarrow> 'w \<Rightarrow> 'w"
  u_input :: "char list \<Rightarrow> int \<Rightarrow> 'w \<Rightarrow> int \<times> char list \<times> 'w"
  u_create_dir :: "string \<Rightarrow> 'w \<Rightarrow> int \<times> 'w"
  u_open_dir :: "string \<Rightarrow> 'w \<Rightarrow> int \<times> 'w"
  u_open_file :: "string \<Rightarrow> nat \<Rightarrow> 'w \<Rightarrow> int \<times> 'w"
  u_close_file :: "int \<Rightarrow> 'w \<Rightarrow> int \<times> 'w"
  u_write_file :: "int \<Rightarrow> char list \<Rightarrow> 'w \<Rightarrow> int \<times> 'w"
  u_read_file :: "int \<Rightarrow> char list \<Rightarrow> 'w \<Rightarrow> int \<times> char list \<times> 'w"
  u_get_next_entry :: "int \<Rightarrow> FatEntryInfo \<Rightarrow> 'w \<Rightarrow> int \<times> FatEntryInfo \<times> 'w"
  u_fork :: "'w \<Rightarrow> int \<times> 'w"
  u_exec :: "string \<Rightarrow> char list list \<Rightarrow> 'w \<Rightarrow> int option \<times> 'w"
  u_exit :: "'w \<Rightarrow> 'w"
  u_wait :: "int \<Rightarrow> 'w \<Rightarrow> int \<times> 'w"
  u_set_sched_param :: "int \<Rightarrow> int \<Rightarrow> int \<Rightarrow> 'w \<Rightarrow> int \<times> 'w"

datatype ('a, 'w) flow = Continue 'a | Gone 'w

abbreviation (input) MAX_COMMAND_DIMENSION :: nat where "MAX_COMMAND_DIMENSION \<equiv> 64"
abbreviation (input) MAX_FILE_DIMENSION :: nat where "MAX_FILE_DIMENSION \<equiv> 256"
abbreviation (input) MAX_EXEC_ARGUMENTS :: nat where "MAX_EXEC_ARGUMENTS \<equiv> 4"
abbreviation (input) FAT_MAX_NAME_SIZE :: nat where "FAT_MAX_NAME_SIZE \<equiv> 64"
abbreviation (input) ARGUMENT_DIMENSION :: nat where "ARGUMENT_DIMENSION \<equiv> 64"
abbreviation (input) SPACE :: char where "SPACE \<equiv> CHR '' ''"

text \<open>A \<^verbatim>\<open>memzero\<close>ed array; writing an array that must hold a string; \<^verbatim>\<open>memcpy\<close> of a command-sized array; \<^verbatim>\<open>memcmp(xs, ys, n) == 0\<close>.\<close>

definition zeros :: "nat \<Rightarrow> char list" where
  "zeros n = replicate n NUL"

definition put :: "'w user_api \<Rightarrow> char list \<Rightarrow> 'w \<Rightarrow> 'w option" where
  "put A arr w = map_option (\<lambda>s. u_write A s w) (cstr arr)"

definition copy_array :: "char list \<Rightarrow> char list option" where
  "copy_array src = (if MAX_COMMAND_DIMENSION \<le> length src then Some (take MAX_COMMAND_DIMENSION src) else None)"

definition same_bytes :: "char list \<Rightarrow> char list \<Rightarrow> nat \<Rightarrow> bool option" where
  "same_bytes xs ys n = (if n \<le> length xs \<and> n \<le> length ys then Some (take n xs = take n ys) else None)"

subsection \<open>Paths of commands\<close>

text \<open>The common part of \<^verbatim>\<open>handle_cd\<close> and \<^verbatim>\<open>handle_show\<close>: absolute, or relative to the working directory.\<close>

definition append_slash :: "char list \<Rightarrow> char list option" where
  "append_slash temp = do {
     len \<leftarrow> strlen temp;
     if len > 2
     then do {
       last_char \<leftarrow> aget temp (int len - 1);
       if last_char \<noteq> SLASH
       then Option.bind (aset temp (int len) SLASH) (\<lambda>t. aset t (int len + 1) NUL)
       else Some temp
     } else Some temp
   }"

definition target_path :: "char list \<Rightarrow> char list \<Rightarrow> char list option" where
  "target_path destination working_directory = do {
     c \<leftarrow> aget destination 0;
     temp \<leftarrow> (if c = SLASH then copy_array destination
       else do {
         t1 \<leftarrow> copy_array working_directory;
         t2 \<leftarrow> append_slash t1;
         strcat t2 destination
       });
     normalize_path temp
   }"

definition cd_target :: "char list \<Rightarrow> char list \<Rightarrow> char list option" where
  "cd_target buffer working_directory = do {
     (command, destination) \<leftarrow> strsplit buffer SPACE (zeros MAX_COMMAND_DIMENSION) (zeros MAX_COMMAND_DIMENSION);
     destination_len \<leftarrow> strlen destination;
     last_char \<leftarrow> aget destination (int destination_len - 1);
     destination2 \<leftarrow> (if last_char \<noteq> SLASH then strcat destination [SLASH, NUL, NUL] else Some destination);
     target_path destination2 working_directory
   }"

subsection \<open>Directory commands\<close>

definition handle_help :: "'w user_api \<Rightarrow> 'w \<Rightarrow> 'w" where
  "handle_help A w = fold (u_write A)
     [''[demoos shell]'' @ [LF], ''Available commands:'' @ [LF],
      ''  help       - Show this help message'' @ [LF],
      ''  pwd        - Show the current working directory'' @ [LF],
      ''  ls         - Show content of the current folder'' @ [LF],
      ''  tree       - Show directory tree'' @ [LF],
      ''  mkdir      - Create a directory in the working directory'' @ [LF],
      ''  write      - Creates a file and writes the given content in it'' @ [LF],
      ''  show       - Shows the content of the given file'' @ [LF],
      ''  clear      - Clears the screen'' @ [LF],
      ''  exec       - Forks the current process and launches a new one from the file system, given its path'' @ [LF],
      ''  any        - If '' @ [CHR 0x27] @ ''/bin/any.bin'' @ [CHR 0x27] @ '' is a file, launches it as a new process'' @ [LF]] w"

definition quoted :: "'w user_api \<Rightarrow> string \<Rightarrow> char list \<Rightarrow> 'w \<Rightarrow> 'w option" where
  "quoted A message arr w = do {
     w1 \<leftarrow> put A arr (u_write A (message @ [CHR 0x27]) w);
     Some (u_write A ([CHR 0x27] @ ''.'' @ [LF]) w1)
   }"

partial_function (option) list_entries :: "'w user_api \<Rightarrow> int \<Rightarrow> FatEntryInfo \<Rightarrow> 'w \<Rightarrow> 'w option" where
  "list_entries A fd info w =
     (case u_get_next_entry A fd (info\<lparr>entry_name := zeros FAT_MAX_NAME_SIZE\<rparr>) w of
        (result, info1, w1) \<Rightarrow>
          if result \<noteq> 0 then Some w1
          else do {
            w2 \<leftarrow> (if entry_is_dir info1
              then map_option (u_write A ([CHR 0x1B] @ ''[0m'')) (put A (entry_name info1) (u_write A ([CHR 0x1B] @ ''[34m'') w1))
              else put A (entry_name info1) w1);
            list_entries A fd info1 (u_write A [LF] w2)
          })"

definition handle_ls :: "'w user_api \<Rightarrow> FatEntryInfo \<Rightarrow> char list \<Rightarrow> 'w \<Rightarrow> 'w option" where
  "handle_ls A uninit working_directory w = do {
     path \<leftarrow> cstr working_directory;
     let (fd, w1) = u_open_dir A path w;
     if fd = -1 then quoted A ''[SHELL] Error opening folder '' working_directory w1
     else map_option (u_write A [LF]) (list_entries A fd uninit w1)
   }"

definition handle_pwd :: "'w user_api \<Rightarrow> char list \<Rightarrow> 'w \<Rightarrow> 'w option" where
  "handle_pwd A working_directory w = map_option (u_write A [LF]) (put A working_directory w)"

definition handle_mkdir :: "'w user_api \<Rightarrow> char list \<Rightarrow> char list \<Rightarrow> 'w \<Rightarrow> 'w option" where
  "handle_mkdir A buffer working_directory w = do {
     (command, dir_name) \<leftarrow> strsplit buffer SPACE (zeros MAX_COMMAND_DIMENSION) (zeros MAX_COMMAND_DIMENSION);
     c \<leftarrow> aget dir_name 0;
     if c = NUL then Some (u_write A (''[SHELL] Error: please specify the directory name.'' @ [LF]) w)
     else do {
       n \<leftarrow> strlen working_directory;
       if n < MAX_COMMAND_DIMENSION
       then do {
         t1 \<leftarrow> strcat (zeros MAX_COMMAND_DIMENSION) working_directory;
         t2 \<leftarrow> (if c \<noteq> SLASH then strcat t1 [SLASH, NUL] else Some t1);
         temp \<leftarrow> strcat t2 dir_name;
         path \<leftarrow> cstr temp;
         let (fd, w1) = u_create_dir A path w;
         if fd = -1 then quoted A ''[SHELL] Cannot create '' temp w1 else Some w1
       }
       else Some (u_write A (''[SHELL] Error: working directory string is too big.'' @ [LF]) w)
     }
   }"

text \<open>The new working directory is the second component of the result.\<close>

definition handle_cd :: "'w user_api \<Rightarrow> char list \<Rightarrow> char list \<Rightarrow> 'w \<Rightarrow> ('w \<times> char list) option" where
  "handle_cd A buffer working_directory w = do {
     temp \<leftarrow> cd_target buffer working_directory;
     path \<leftarrow> cstr temp;
     let (fd, w1) = u_open_dir A path w;
     if fd = -1
     then do {
       w2 \<leftarrow> quoted A ''[SHELL] Error: cannot change directory to '' temp w1;
       Some (w2, working_directory)
     }
     else map_option (Pair w1) (copy_array temp)
   }"

text \<open>The directories below an entry are visited before the next entry; \<open>uninit\<close> is the local \<^verbatim>\<open>info\<close> of a new call.\<close>

definition child_path :: "char list \<Rightarrow> char list \<Rightarrow> char list option" where
  "child_path path nm = do {
     p1 \<leftarrow> strcpy (zeros MAX_COMMAND_DIMENSION) path;
     len \<leftarrow> strlen p1;
     c \<leftarrow> aget p1 (int len - 1);
     p2 \<leftarrow> (if c \<noteq> SLASH then strcat p1 [SLASH, NUL] else Some p1);
     p3 \<leftarrow> strcat p2 nm;
     normalize_path p3
   }"

partial_function (option) tree_entries :: "'w user_api \<Rightarrow> FatEntryInfo \<Rightarrow> int \<Rightarrow> char list \<Rightarrow> nat \<Rightarrow> FatEntryInfo \<Rightarrow> 'w \<Rightarrow> 'w option" where
  "tree_entries A uninit fd path depth info w =
     (case u_get_next_entry A fd (info\<lparr>entry_name := zeros FAT_MAX_NAME_SIZE\<rparr>) w of
        (result, info1, w1) \<Rightarrow>
          if result \<noteq> 1 then Some w1
          else do {
            dot \<leftarrow> same_bytes (entry_name info1) [DOT, NUL] 2;
            dots \<leftarrow> same_bytes (entry_name info1) [DOT, DOT, NUL] 3;
            if dot \<or> dots then tree_entries A uninit fd path depth info1 w1
            else do {
              let w2 = (u_write A ''   '' ^^ depth) w1;
              if entry_is_dir info1
              then do {
                w3 \<leftarrow> put A (entry_name info1) (u_write A ([CHR 0x1B] @ ''[34m'') w2);
                child \<leftarrow> child_path path (entry_name info1);
                name_of_child \<leftarrow> cstr child;
                case u_open_dir A name_of_child (u_write A (''/'' @ [CHR 0x1B] @ ''[0m'' @ [LF]) w3) of
                  (child_fd, w4) \<Rightarrow> do {
                    w5 \<leftarrow> (if child_fd = -1 then Some w4 else tree_entries A uninit child_fd child (depth + 1) uninit w4);
                    tree_entries A uninit fd path depth info1 w5
                  }
              }
              else do {
                w3 \<leftarrow> put A (entry_name info1) w2;
                tree_entries A uninit fd path depth info1 (u_write A [LF] w3)
              }
            }
          })"

definition print_tree :: "'w user_api \<Rightarrow> FatEntryInfo \<Rightarrow> char list \<Rightarrow> nat \<Rightarrow> 'w \<Rightarrow> 'w option" where
  "print_tree A uninit path depth w = do {
     p \<leftarrow> cstr path;
     let (fd, w1) = u_open_dir A p w;
     if fd = -1 then Some w1 else tree_entries A uninit fd path depth uninit w1
   }"

definition handle_tree :: "'w user_api \<Rightarrow> FatEntryInfo \<Rightarrow> char list \<Rightarrow> char list \<Rightarrow> 'w \<Rightarrow> 'w option" where
  "handle_tree A uninit buffer working_directory w = do {
     (command, target) \<leftarrow> strsplit buffer SPACE (zeros MAX_COMMAND_DIMENSION) (zeros MAX_COMMAND_DIMENSION);
     c \<leftarrow> aget target 0;
     path \<leftarrow> (if c = NUL then copy_array working_directory
       else if c = SLASH then copy_array target
       else do {
         t1 \<leftarrow> copy_array working_directory;
         len \<leftarrow> strlen t1;
         t2 \<leftarrow> (if len > 1
           then do {
             l \<leftarrow> aget t1 (int len - 1);
             if l \<noteq> SLASH then strcat t1 [SLASH, NUL] else Some t1
           } else Some t1);
         strcat t2 target
       });
     fullpath \<leftarrow> normalize_path path;
     p \<leftarrow> cstr fullpath;
     let (fd, w1) = u_open_dir A p w;
     if fd = -1 then quoted A ''[SHELL] Error: cannot open directory '' fullpath w1
     else print_tree A uninit fullpath 0 (u_write A [LF] (u_write A p w1))
   }"

end
