(* ===== verification/Shell_Commands.thy ===== *)
theory Shell_Commands
  imports Shell
begin

section \<open>The commands of the shell that use files and processes\<close>

text \<open>
  The rest of \<^verbatim>\<open>app/shell.c\<close>, and \<^verbatim>\<open>common/process_api.c\<close>. The contents of an array that the code does not initialise are an
  argument (\<open>garbage\<close>, \<open>uninit\<close>).
\<close>

subsection \<open>Showing and writing files\<close>

definition show_target :: "char list \<Rightarrow> char list \<Rightarrow> char list option" where
  "show_target buffer working_directory = do {
     (command, destination) \<leftarrow> strsplit buffer SPACE (zeros MAX_COMMAND_DIMENSION) (zeros MAX_COMMAND_DIMENSION);
     target_path destination working_directory
   }"

text \<open>Only the first 64 of the 256 bytes of \<^verbatim>\<open>file_content\<close> are cleared.\<close>

definition handle_show :: "'w user_api \<Rightarrow> char list \<Rightarrow> char list \<Rightarrow> char list \<Rightarrow> 'w \<Rightarrow> 'w option" where
  "handle_show A garbage buffer working_directory w = do {
     temp \<leftarrow> show_target buffer working_directory;
     path \<leftarrow> cstr temp;
     let (fd, w1) = u_open_file A path 2 w;
     w2 \<leftarrow> (if fd = -1 then quoted A ''[SHELL] Cannot open '' temp w1 else Some w1);
     if fd > -1
     then case u_read_file A fd (zeros MAX_COMMAND_DIMENSION @ drop MAX_COMMAND_DIMENSION (take MAX_FILE_DIMENSION garbage)) w2 of
       (error, file_content, w3) \<Rightarrow> do {
         w4 \<leftarrow> (if error \<noteq> 0 then quoted A ''[SHELL] Cannot read '' temp w3
           else map_option (u_write A [LF]) (put A file_content w3));
         Some (snd (u_close_file A fd w4))
       }
     else Some w2
   }"

primrec skip_word :: "char list \<Rightarrow> char list option" where
  "skip_word [] = None"
| "skip_word (c # cs) = (if c \<noteq> NUL \<and> c \<noteq> SPACE then skip_word cs else Some (c # cs))"

primrec copy_word :: "char list \<Rightarrow> nat \<Rightarrow> char list \<Rightarrow> (nat \<times> char list \<times> char list) option" where
  "copy_word [] i file_name = None"
| "copy_word (c # cs) i file_name =
     (if c \<noteq> NUL \<and> c \<noteq> SPACE then Option.bind (aset file_name (int i) c) (copy_word cs (Suc i))
      else Some (i, file_name, c # cs))"

primrec copy_tail :: "char list \<Rightarrow> nat \<Rightarrow> char list \<Rightarrow> (nat \<times> char list) option" where
  "copy_tail [] i file_content = None"
| "copy_tail (c # cs) i file_content =
     (if c \<noteq> NUL then Option.bind (aset file_content (int i) c) (copy_tail cs (Suc i))
      else Some (i, file_content))"

definition write_fields :: "char list \<Rightarrow> (char list \<times> char list \<times> nat) option" where
  "write_fields buffer = do {
     p1 \<leftarrow> skip_word buffer;
     (i, n1, p2) \<leftarrow> copy_word (tl p1) 0 (zeros MAX_COMMAND_DIMENSION);
     file_name \<leftarrow> aset n1 (int i) NUL;
     (j, c1) \<leftarrow> copy_tail (tl p2) 0 (zeros MAX_COMMAND_DIMENSION);
     file_content \<leftarrow> aset c1 (int j) NUL;
     Some (file_name, file_content, j)
   }"

text \<open>\<^verbatim>\<open>call_syscall_write_file(fd, arr, n)\<close>: the call reads \<open>n\<close> bytes.\<close>

definition write_bytes :: "'w user_api \<Rightarrow> int \<Rightarrow> char list \<Rightarrow> nat \<Rightarrow> 'w \<Rightarrow> (int \<times> 'w) option" where
  "write_bytes A fd arr n w = (if n \<le> length arr then Some (u_write_file A fd (take n arr) w) else None)"

definition handle_write :: "'w user_api \<Rightarrow> char list \<Rightarrow> char list \<Rightarrow> 'w \<Rightarrow> 'w option" where
  "handle_write A buffer working_directory w = do {
     (file_name, file_content, i) \<leftarrow> write_fields buffer;
     n \<leftarrow> strlen working_directory;
     m \<leftarrow> strlen file_name;
     (file_path, w1) \<leftarrow> (if n + m < MAX_COMMAND_DIMENSION
       then do {
         p1 \<leftarrow> strcat (zeros MAX_COMMAND_DIMENSION) working_directory;
         p2 \<leftarrow> strcat p1 file_name;
         Some (p2, w)
       }
       else Some (zeros MAX_COMMAND_DIMENSION, u_write A (''[SHELL] Error: file path is too big'' @ [LF]) w));
     path \<leftarrow> cstr file_path;
     let (fd, w2) = u_open_file A path 17 w1;
     w3 \<leftarrow> (if fd = -1 then quoted A ''[SHELL] Error: cannot open file '' file_path w2 else Some w2);
     w4 \<leftarrow> (if fd \<noteq> -1 \<and> i > 0
       then do {
         (error, w5) \<leftarrow> write_bytes A fd file_content MAX_FILE_DIMENSION w3;
         if error \<noteq> 0 then quoted A ''[SHELL] Error: cannot write on file '' file_path w5 else Some w5
       } else Some w3);
     Some (snd (u_close_file A fd w4))
   }"

subsection \<open>Starting programs\<close>

text \<open>
  A fork continues in both processes, each with its result; a handler is the run of one of them. \<open>Gone\<close> when the
  process has been replaced or has exited.
\<close>

definition await_child :: "'w user_api \<Rightarrow> int \<Rightarrow> 'w \<Rightarrow> 'w" where
  "await_child A pid w = (case u_wait A pid w of (ok, w1) \<Rightarrow>
     if ok \<noteq> 0
     then u_write A ([CHR 0x27] @ [LF]) (u_write_hex A pid (u_write A (''[SHELL] Cannot find process '' @ [CHR 0x27]) w1))
     else w1)"

text \<open>If \<^verbatim>\<open>exec\<close> returns 0, the son of \<^verbatim>\<open>handle_exec\<close> prints forever.\<close>

definition handle_exec :: "'w user_api \<Rightarrow> char list \<Rightarrow> char list \<Rightarrow> 'w \<Rightarrow> ('w, 'w) flow option" where
  "handle_exec A buffer working_directory w = do {
     (command, path) \<leftarrow> strsplit buffer SPACE (zeros MAX_COMMAND_DIMENSION) (zeros MAX_COMMAND_DIMENSION);
     m \<leftarrow> strlen path;
     if m = 0 then Some (Continue (u_write A (''[SHELL] Please specify the path of the new program to execute.'' @ [LF]) w))
     else do {
       n \<leftarrow> strlen working_directory;
       if n + m \<ge> MAX_COMMAND_DIMENSION then Some (Continue (u_write A (''[SHELL] Path is too long.'' @ [LF]) w))
       else do {
         p1 \<leftarrow> strcat (zeros MAX_COMMAND_DIMENSION) working_directory;
         p2 \<leftarrow> strcat p1 path;
         p3 \<leftarrow> normalize_path p2;
         complete_path \<leftarrow> cstr p3;
         let (pid, w1) = u_fork A w;
         if pid = 0
         then case u_exec A complete_path [] (u_write A (''[SON] I am the son.'' @ [LF]) w1) of
             (None, w2) \<Rightarrow> Some (Gone w2)
           | (Some error, w2) \<Rightarrow>
               if error \<noteq> 0 then Some (Gone (u_exit A (u_write A (''[SON] Error running new process.'' @ [LF]) w2))) else None
         else Some (Continue (await_child A pid w1))
       }
     }
   }"

text \<open>The arguments are cut off one by one; \<open>arguments\<close> has four rows of 64 characters.\<close>

function split_arguments :: "char list \<Rightarrow> nat \<Rightarrow> char list list \<Rightarrow> (nat \<times> char list list) option" where
  "split_arguments arguments_raw n_arguments arguments =
     (case strlen arguments_raw of
        None \<Rightarrow> None
      | Some len \<Rightarrow>
          if len > 0 \<and> n_arguments < MAX_EXEC_ARGUMENTS
          then (case aget arguments (int n_arguments) of
             None \<Rightarrow> None
           | Some row \<Rightarrow>
               (case strsplit arguments_raw SPACE row (zeros ARGUMENT_DIMENSION) of
                  None \<Rightarrow> None
                | Some (row1, temp) \<Rightarrow>
                    (case strcpy arguments_raw temp of
                       None \<Rightarrow> None
                     | Some raw \<Rightarrow> split_arguments raw (n_arguments + 1) (arguments[n_arguments := row1]))))
          else Some (n_arguments, arguments))"
  by pat_completeness auto
termination by (relation "measure (\<lambda>(raw, n, rows). MAX_EXEC_ARGUMENTS - n)") auto

declare split_arguments.simps [simp del]

definition bin_path :: "char list \<Rightarrow> char list option" where
  "bin_path file_name = do {
     p1 \<leftarrow> strcat (zeros MAX_COMMAND_DIMENSION) (''/bin/'' @ [NUL]);
     p2 \<leftarrow> strcat p1 file_name;
     p3 \<leftarrow> strcat p2 (''.bin'' @ [NUL]);
     normalize_path p3
   }"

definition handle_exec_from_bin :: "'w user_api \<Rightarrow> char list \<Rightarrow> 'w \<Rightarrow> ('w, 'w) flow option" where
  "handle_exec_from_bin A buffer w = do {
     (file_name, arguments_raw) \<leftarrow> strsplit buffer SPACE (zeros MAX_COMMAND_DIMENSION) (zeros MAX_COMMAND_DIMENSION);
     m \<leftarrow> strlen file_name;
     if 5 + m + 4 \<ge> MAX_COMMAND_DIMENSION then Some (Continue (u_write A (''[SHELL] Path is too long.'' @ [LF]) w))
     else do {
       p \<leftarrow> bin_path file_name;
       complete_path \<leftarrow> cstr p;
       (n_arguments, arguments) \<leftarrow> split_arguments arguments_raw 0 (replicate MAX_EXEC_ARGUMENTS (zeros ARGUMENT_DIMENSION));
       let (pid, w1) = u_fork A w;
       if pid = 0
       then case u_exec A complete_path (take n_arguments arguments) w1 of
           (None, w2) \<Rightarrow> Some (Gone w2)
         | (Some error, w2) \<Rightarrow>
             if error \<noteq> 0
             then do {
               w3 \<leftarrow> put A file_name (u_write A (''[SHELL] Cannot find '' @ [CHR 0x27]) w2);
               Some (Gone (u_exit A (u_write A ([CHR 0x27] @ '' binary file.'' @ [LF]) w3)))
             }
             else Some (Gone (u_exit A w2))
       else Some (Continue (await_child A pid w1))
     }
   }"

text \<open>\<open>spawn_process\<close> returns the pid of the new process, or -1.\<close>

definition set_param_if :: "'w user_api \<Rightarrow> int \<Rightarrow> int \<Rightarrow> int \<Rightarrow> 'w \<Rightarrow> 'w" where
  "set_param_if A pid param v w = (if v \<ge> 0 then snd (u_set_sched_param A pid param v w) else w)"

definition spawn_process :: "'w user_api \<Rightarrow> string \<Rightarrow> int \<Rightarrow> int \<Rightarrow> int \<Rightarrow> 'w \<Rightarrow> (int \<times> 'w, 'w) flow" where
  "spawn_process A path priority tickets queue_priority w = (case u_fork A w of (pid, w1) \<Rightarrow>
     if pid < 0 then Continue (-1, w1)
     else if pid = 0
     then case u_exec A path [] w1 of
         (None, w2) \<Rightarrow> Gone w2
       | (Some error, w2) \<Rightarrow> if error \<noteq> 0 then Gone (u_exit A w2) else Continue (0, w2)
     else Continue (pid, set_param_if A pid 2 queue_priority (set_param_if A pid 1 tickets (set_param_if A pid 0 priority w1))))"

subsection \<open>The main loop\<close>

definition shell_prompt :: "'w user_api \<Rightarrow> char list \<Rightarrow> 'w \<Rightarrow> 'w option" where
  "shell_prompt A working_directory w = do {
     w1 \<leftarrow> put A working_directory (fold (u_write A) [[CHR 0x1B] @ ''[32m'', ''demoos:'', [CHR 0x1B] @ ''[34m''] w);
     Some (fold (u_write A) [[CHR 0x1B] @ ''[37m'', ''$ ''] w1)
   }"

definition starts_with :: "char list \<Rightarrow> string \<Rightarrow> bool option" where
  "starts_with buffer cmd = same_bytes buffer cmd (length cmd)"

definition keep_directory :: "char list \<Rightarrow> 'w option \<Rightarrow> ('w \<times> char list, 'w) flow option" where
  "keep_directory wd = map_option (\<lambda>w. Continue (w, wd))"

definition keep_flow :: "char list \<Rightarrow> ('w, 'w) flow option \<Rightarrow> ('w \<times> char list, 'w) flow option" where
  "keep_flow wd = map_option (\<lambda>r. case r of Continue w \<Rightarrow> Continue (w, wd) | Gone w \<Rightarrow> Gone w)"

definition run_command :: "'w user_api \<Rightarrow> FatEntryInfo \<Rightarrow> char list \<Rightarrow> char list \<Rightarrow> char list \<Rightarrow> 'w
    \<Rightarrow> ('w \<times> char list, 'w) flow option" where
  "run_command A uninit garbage buffer wd w = do {
     is_help \<leftarrow> starts_with buffer ''help''; is_ls \<leftarrow> starts_with buffer ''ls''; is_pwd \<leftarrow> starts_with buffer ''pwd'';
     is_mkdir \<leftarrow> starts_with buffer ''mkdir''; is_cd \<leftarrow> starts_with buffer ''cd''; is_tree \<leftarrow> starts_with buffer ''tree'';
     is_clear \<leftarrow> starts_with buffer ''clear''; is_write \<leftarrow> starts_with buffer ''write''; is_show \<leftarrow> starts_with buffer ''show'';
     is_exec \<leftarrow> starts_with buffer ''exec'';
     if is_help then keep_directory wd (Some (handle_help A w))
     else if is_ls then keep_directory wd (handle_ls A uninit wd w)
     else if is_pwd then keep_directory wd (handle_pwd A wd w)
     else if is_mkdir then keep_directory wd (handle_mkdir A buffer wd w)
     else if is_cd then map_option Continue (handle_cd A buffer wd w)
     else if is_tree then keep_directory wd (handle_tree A uninit buffer wd w)
     else if is_clear then keep_directory wd (Some (u_write A ([CHR 0x1B] @ ''[1;1H'' @ [CHR 0x1B] @ ''[2J'') w))
     else if is_write then keep_directory wd (handle_write A buffer wd w)
     else if is_show then keep_directory wd (handle_show A garbage buffer wd w)
     else if is_exec then keep_flow wd (handle_exec A buffer wd w)
     else keep_flow wd (handle_exec_from_bin A buffer w)
   }"

text \<open>One round of the loop, and a number of rounds: the loop itself never ends, except in a son.\<close>

definition shell_round :: "'w user_api \<Rightarrow> FatEntryInfo \<Rightarrow> char list \<Rightarrow> char list \<Rightarrow> 'w \<Rightarrow> ('w \<times> char list, 'w) flow option" where
  "shell_round A uninit garbage wd w = do {
     w1 \<leftarrow> shell_prompt A wd w;
     case u_input A (zeros MAX_COMMAND_DIMENSION) (int MAX_COMMAND_DIMENSION) w1 of
       (result, buffer, w2) \<Rightarrow> do {
         let w3 = u_write A [LF] w2;
         len \<leftarrow> strlen buffer;
         if len = 0 then Some (Continue (w3, wd)) else run_command A uninit garbage buffer wd w3
       }
   }"

primrec shell_rounds :: "nat \<Rightarrow> 'w user_api \<Rightarrow> FatEntryInfo \<Rightarrow> char list \<Rightarrow> char list \<Rightarrow> 'w \<Rightarrow> ('w \<times> char list, 'w) flow option" where
  "shell_rounds 0 A uninit garbage wd w = Some (Continue (w, wd))"
| "shell_rounds (Suc n) A uninit garbage wd w =
     (case shell_round A uninit garbage wd w of
        None \<Rightarrow> None
      | Some (Gone w1) \<Rightarrow> Some (Gone w1)
      | Some (Continue (w1, wd1)) \<Rightarrow> shell_rounds n A uninit garbage wd1 w1)"

text \<open>The banner consists of half and full blocks, here \<^verbatim>\<open>o\<close>, \<^verbatim>\<open>T\<close> and \<^verbatim>\<open>X\<close>, in UTF-8.\<close>

definition block_char :: "char \<Rightarrow> string" where
  "block_char c =
     (if c = CHR ''o'' then [CHR 0xE2, CHR 0x96, CHR 0x84]
      else if c = CHR ''X'' then [CHR 0xE2, CHR 0x96, CHR 0x88]
      else if c = CHR ''T'' then [CHR 0xE2, CHR 0x96, CHR 0x80]
      else [c])"

definition ascii_art :: "string list" where
  "ascii_art = map (concat \<circ> map block_char)
     [''oooooo                          ooooo    ooooooo '',
      ''XXXTTXXo                      oXXXXXXXo XXXXXTTT '',
      ''XXX  XXX oXTXo XXXoXXXo oXXXo XXX   XXX  TXXXXo  '',
      ''XXX  XXX XXoXT XX XX XX XX XX XXXoooXXX    TXXXX '',
      ''XXXXXXT  TXooo XX XX XX TXXXT  TXXXXXT  XXXXXXXT '']"

definition shell :: "nat \<Rightarrow> 'w user_api \<Rightarrow> FatEntryInfo \<Rightarrow> char list \<Rightarrow> 'w \<Rightarrow> ('w \<times> char list, 'w) flow option" where
  "shell n A uninit garbage w =
     shell_rounds n A uninit garbage (SLASH # zeros 63)
       (u_write A [LF] (u_write A ([CHR 0x1B] @ ''[37m'')
         (fold (\<lambda>art w. u_write A [LF] (u_write A art w)) ascii_art (u_write A ([CHR 0x1B] @ ''[32m'') w))))"

end
