(* ===== verification/Shell_Properties.thy ===== *)
theory Shell_Properties
  imports Shell_Commands
begin

section \<open>What the commands of the shell do\<close>

lemma zeros_length [simp]: "length (zeros n) = n"
  by (simp add: zeros_def)

lemma zeros_drop [simp]: "drop k (zeros n) = zeros (n - k)"
  by (simp add: zeros_def)

lemma zeros_Suc: "0 < n \<Longrightarrow> zeros n = NUL # zeros (n - 1)"
  by (cases n) (simp_all add: zeros_def)

text \<open>A text in an array of \<open>n\<close> characters, with zeros behind it.\<close>

definition pad :: "nat \<Rightarrow> string \<Rightarrow> char list" where
  "pad n s = s @ zeros (n - length s)"

definition word :: "string \<Rightarrow> bool" where
  "word s \<longleftrightarrow> s \<noteq> [] \<and> (\<forall>c \<in> set s. \<not> line_end c \<and> c \<noteq> SPACE)"

lemma pad_length [simp]: "length s \<le> n \<Longrightarrow> length (pad n s) = n"
  by (simp add: pad_def)

lemma pad_text: "length s < n \<Longrightarrow> pad n s = s @ NUL # zeros (n - length s - 1)"
  using zeros_Suc [of "n - length s"] by (simp add: pad_def)

lemma cstr_pad: "length s < n \<Longrightarrow> NUL \<notin> set s \<Longrightarrow> cstr (pad n s) = Some s"
  by (simp add: pad_text)

lemma strlen_pad: "length s < n \<Longrightarrow> NUL \<notin> set s \<Longrightarrow> strlen (pad n s) = Some (length s)"
  by (simp add: strlen_cstr cstr_pad)

lemma no_line_end_no_nul: "\<forall>c \<in> set s. \<not> line_end c \<Longrightarrow> NUL \<notin> set s"
  by (auto simp: line_end_def)

text \<open>Splitting into cleared arrays.\<close>

lemma strsplit_pad:
  assumes "\<forall>c \<in> set a. \<not> line_end c \<and> c \<noteq> SPACE" "\<forall>c \<in> set b. \<not> line_end c" "length a < n" "length b \<le> m"
  shows "strsplit (a @ SPACE # b @ NUL # suf) SPACE (zeros n) (zeros m) = Some (pad n a, pad m b)"
    and "strsplit (a @ NUL # suf) SPACE (zeros n) (zeros m) = Some (pad n a, zeros m)"
proof -
  have "(a @ zeros (n - length a))[length a := NUL] = pad n a"
    using assms(3) zeros_Suc [of "n - length a"] by (simp add: pad_def list_update_append)
  then show "strsplit (a @ SPACE # b @ NUL # suf) SPACE (zeros n) (zeros m) = Some (pad n a, pad m b)"
    using assms by (simp add: strsplit_def split_loop_text split_tail_text line_end_def pad_def)
  show "strsplit (a @ NUL # suf) SPACE (zeros n) (zeros m) = Some (pad n a, zeros m)"
    using assms by (simp add: strsplit_def split_loop_text line_end_def pad_def)
qed

subsection \<open>Arguments of programs\<close>

fun line_of :: "string list \<Rightarrow> string" where
  "line_of [] = []"
| "line_of [s] = s"
| "line_of (s # t # ss) = s @ SPACE # line_of (t # ss)"

lemma line_of_Cons: "line_of (s # ss) = (if ss = [] then s else s @ SPACE # line_of ss)"
  by (cases ss) simp_all

lemma space_no_end [simp]: "\<not> line_end SPACE"
  by (simp add: line_end_def)

lemma line_of_no_end: "\<forall>s \<in> set ss. word s \<Longrightarrow> c \<in> set (line_of ss) \<Longrightarrow> \<not> line_end c"
proof (induction ss)
  case (Cons s ss)
  have "c \<in> set s \<or> c = SPACE \<or> c \<in> set (line_of ss)"
    using Cons.prems(2) by (auto simp: line_of_Cons split: if_splits)
  moreover have "\<forall>c \<in> set s. \<not> line_end c" "\<forall>s \<in> set ss. word s" using Cons.prems(1) by (simp_all add: word_def)
  ultimately show ?case using Cons.IH space_no_end by blast
qed simp

lemma line_of_no_nul: "\<forall>s \<in> set ss. word s \<Longrightarrow> NUL \<notin> set (line_of ss)"
  using line_of_no_end [of ss NUL] by (auto simp: line_end_def)

lemma split_first:
  assumes "\<forall>s \<in> set (s # ss). word s" "length (line_of (s # ss)) < 64"
  shows "strsplit (line_of (s # ss) @ NUL # suf) SPACE (zeros 64) (zeros 64) = Some (pad 64 s, pad 64 (line_of ss))"
proof -
  have s: "\<forall>c \<in> set s. \<not> line_end c \<and> c \<noteq> SPACE" using assms(1) by (simp add: word_def)
  have n: "\<forall>c \<in> set (line_of ss). \<not> line_end c" using line_of_no_end [of ss] assms(1) by simp
  show ?thesis
    using strsplit_pad [OF s n, of 64 64 suf] assms(2) by (auto simp: line_of_Cons pad_def split: if_splits)
qed

lemma split_arguments_line:
  assumes "\<forall>s \<in> set ss. word s" "length (line_of ss @ NUL # suf) = 64" "length rows = n"
    and "n + length (zs :: char list list) = 4" "\<forall>z \<in> set zs. z = zeros 64"
  shows "split_arguments (line_of ss @ NUL # suf) n (rows @ zs) =
    Some (min 4 (n + length ss), rows @ map (pad 64) (take (length zs) ss) @ drop (length ss) zs)"
  using assms
proof (induction ss arbitrary: suf n rows zs)
  case Nil
  then show ?case by (subst split_arguments.simps) simp
next
  case (Cons s ss)
  let ?l = "line_of (s # ss)"
  have nn: "NUL \<notin> set ?l" "NUL \<notin> set (line_of ss)"
    using line_of_no_nul [of "s # ss"] line_of_no_nul [of ss] Cons.prems(1) by simp_all
  have len: "strlen (?l @ NUL # suf) = Some (length ?l)" using nn by (simp add: strlen_cstr)
  have pos: "0 < length ?l" using Cons.prems(1) by (simp add: line_of_Cons word_def)
  show ?case
  proof (cases zs)
    case Nil
    then show ?thesis using len Cons.prems(3,4) by (subst split_arguments.simps) simp
  next
    case (Cons z zs')
    have n: "n < 4" "n < length (rows @ zs)" "(rows @ zs) ! n = zeros 64"
      using Cons Cons.prems(3-5) by (simp_all add: nth_append)
    have sp: "strsplit (?l @ NUL # suf) SPACE (zeros 64) (zeros 64) = Some (pad 64 s, pad 64 (line_of ss))"
      using split_first [of s ss suf] Cons.prems(1,2) by simp
    have l64: "length (line_of ss) < 64" using Cons.prems(2) by (simp add: line_of_Cons split: if_splits)
    obtain suf' where m: "strcpy (?l @ NUL # suf) (pad 64 (line_of ss)) = Some (line_of ss @ NUL # suf')"
      "length (line_of ss @ NUL # suf') = 64"
    proof
      let ?m = "drop (Suc (length (line_of ss))) (?l @ NUL # suf)"
      have c: "cstr (pad 64 (line_of ss)) = Some (line_of ss)" using nn l64 by (simp add: cstr_pad)
      show "strcpy (?l @ NUL # suf) (pad 64 (line_of ss)) = Some (line_of ss @ NUL # ?m)"
        using l64 Cons.prems(2) by (simp add: strcpy_cstr [OF c])
      show "length (line_of ss @ NUL # ?m) = 64" using l64 Cons.prems(2) by simp
    qed
    have u: "(rows @ zs)[n := pad 64 s] = (rows @ [pad 64 s]) @ zs'" using Cons Cons.prems(3) by (simp add: list_update_append)
    have "split_arguments (?l @ NUL # suf) n (rows @ zs) = split_arguments (line_of ss @ NUL # suf') (n + 1) ((rows @ [pad 64 s]) @ zs')"
      using len pos n sp m(1) u by (subst split_arguments.simps) (simp only: aget_nat, simp)
    also have "\<dots> = Some (min 4 (n + 1 + length ss), (rows @ [pad 64 s]) @ map (pad 64) (take (length zs') ss) @ drop (length ss) zs')"
      by (rule Cons.IH) (use Cons.prems m(2) Cons in simp_all)
    finally show ?thesis using Cons by simp
  qed
qed

lemma norm_text_last:
  assumes "SLASH \<notin> set v" "last v \<noteq> DOT"
  shows "norm_text out v = Some (out @ v)"
  using assms
proof (induction v arbitrary: out)
  case (Cons c v)
  have IH: "norm_text (out @ [c]) v = Some (out @ c # v)"
    using Cons.IH [of "out @ [c]"] Cons.prems by (cases "v = []") auto
  show ?case
  proof (cases "c = DOT")
    case False
    then show ?thesis using IH by simp
  next
    case True
    then obtain d ds where v: "v = d # ds" using Cons.prems(2) by (cases v) auto
    have "d \<noteq> SLASH" using Cons.prems(1) v by auto
    moreover have "ds \<noteq> [] \<and> hd ds \<noteq> SLASH" if "d = DOT" using that Cons.prems v by (cases ds) auto
    ultimately show ?thesis using v True IH by (cases ds) auto
  qed
qed simp

lemma bin_path_name:
  assumes "word f" "SLASH \<notin> set f" "length f + 9 < 64"
  shows "\<exists>p. bin_path (pad 64 f) = Some p \<and> cstr p = Some (''/bin/'' @ f @ ''.bin'')"
proof -
  have nf: "NUL \<notin> set f" using assms(1) by (auto simp: word_def line_end_def)
  obtain p1 where p1: "strcat (zeros 64) (''/bin/'' @ [NUL]) = Some p1" "cstr p1 = Some ''/bin/''" "length p1 = 64"
    using strcat_appends [of "zeros 64" "[]" "''/bin/'' @ [NUL]" "''/bin/''"] zeros_Suc [of 64] by auto
  obtain p2 where p2: "strcat p1 (pad 64 f) = Some p2" "cstr p2 = Some (''/bin/'' @ f)" "length p2 = 64"
    using strcat_appends [OF p1(2) cstr_pad [OF _ nf, of 64]] p1(3) assms(3) by auto
  obtain p3 where p3: "strcat p2 (''.bin'' @ [NUL]) = Some p3" "cstr p3 = Some (''/bin/'' @ f @ ''.bin'')" "length p3 = 64"
    using strcat_appends [OF p2(2), of "''.bin'' @ [NUL]" "''.bin''"] p2(3) assms(3) by auto
  let ?t = "''/bin/'' @ f @ ''.bin''"
  obtain tl where tl: "p3 = ?t @ NUL # tl" using cstr_SomeD [OF p3(2)] by blast
  have nt: "NUL \<notin> set ?t" using nf by simp
  have "norm_text [] ?t = norm_text ''/bin/'' (f @ ''.bin'')"
    using norm_text_name [of "[]" "[]" "''bin/'' @ f @ ''.bin''"] norm_text_name [of "''bin''" "[SLASH]" "f @ ''.bin''"] by simp
  also have "\<dots> = Some ?t" using norm_text_last [of "f @ ''.bin''" "''/bin/''"] assms(2) by simp
  finally obtain p where p: "normalize_path p3 = Some p" "take (Suc (length ?t)) p = ?t @ [NUL]"
    using normalize_path_text [OF nt, of tl] unfolding tl by auto
  have "p = ?t @ NUL # drop (Suc (length ?t)) p" using p(2) by (metis append.assoc append_Cons append_Nil append_take_drop_id)
  then have "cstr p = Some ?t" using nt by (metis cstr_append)
  then show ?thesis using p(1) p1(1) p2(1) p3(1) by (simp add: bin_path_def)
qed

definition cannot_find :: "'w user_api \<Rightarrow> string \<Rightarrow> 'w \<Rightarrow> 'w" where
  "cannot_find A f w = fold (u_write A) [''[SHELL] Cannot find '' @ [CHR 0x27], f, [CHR 0x27] @ '' binary file.'' @ [LF]] w"

text \<open>
  C36. A line that is not a built-in command runs a program. For the line "f a1 ... an" the shell forks; the son executes
  /bin/f.bin with the first four words as its arguments, each in a 64-byte row of its own padded with zeros, and exits
  if the program cannot be loaded, with a message naming f; the shell waits for the son.
\<close>

theorem programs_get_their_arguments:
  assumes "\<forall>s \<in> set (f # ss). word s" "SLASH \<notin> set f" "length f + 9 < 64"
    and "length (line_of (f # ss) @ NUL # suf) = 64"
  shows "handle_exec_from_bin A (line_of (f # ss) @ NUL # suf) w =
    (case u_fork A w of (pid, w1) \<Rightarrow>
      if pid \<noteq> 0 then Some (Continue (await_child A pid w1))
      else (case u_exec A (''/bin/'' @ f @ ''.bin'') (map (pad 64) (take 4 ss)) w1 of
          (None, w2) \<Rightarrow> Some (Gone w2)
        | (Some error, w2) \<Rightarrow> Some (Gone (u_exit A (if error \<noteq> 0 then cannot_find A f w2 else w2)))))"
proof -
  have nf: "NUL \<notin> set f" using assms(1) line_of_no_nul [of "[f]"] by simp
  have l64: "length (line_of ss) < 64" using assms(4) by (simp add: line_of_Cons split: if_splits)
  have sp: "strsplit (line_of (f # ss) @ NUL # suf) SPACE (zeros 64) (zeros 64) = Some (pad 64 f, pad 64 (line_of ss))"
    using split_first [OF assms(1)] assms(4) by simp
  have m: "strlen (pad 64 f) = Some (length f)" "cstr (pad 64 f) = Some f" using nf assms(3) by (simp_all add: strlen_pad cstr_pad)
  obtain p where p: "bin_path (pad 64 f) = Some p" "cstr p = Some (''/bin/'' @ f @ ''.bin'')"
    using bin_path_name [OF _ assms(2,3)] assms(1) by auto
  have sa: "split_arguments (pad 64 (line_of ss)) 0 (replicate 4 (zeros 64)) =
      Some (min 4 (length ss), map (pad 64) (take 4 ss) @ drop (length ss) (replicate 4 (zeros 64)))"
    using split_arguments_line [of ss "zeros (64 - length (line_of ss) - 1)" "[]" 0 "replicate 4 (zeros 64)"] assms(1) l64
    by (simp add: pad_text)
  have tk: "take (min 4 (length ss)) (map (pad 64) (take 4 ss) @ drop (length ss) (replicate 4 (zeros 64))) = map (pad 64) (take 4 ss)"
    by (simp add: min_def)
  show ?thesis
    unfolding handle_exec_from_bin_def Let_def using assms(3)
    by (simp only: sp bind.bind_lunit split_conv m p sa)
      (simp add: tk cannot_find_def put_def m split: prod.splits option.splits)
qed

text \<open>A world for the witnesses: the log of what was printed, with answers fixed in advance.\<close>

definition logged :: "int \<Rightarrow> int \<Rightarrow> string list user_api" where
  "logged pid fd = \<lparr>
     u_write = (\<lambda>s w. w @ [s]), u_write_hex = (\<lambda>n w. w @ [''#'']), u_input = (\<lambda>arr n w. (0, arr, w)),
     u_create_dir = (\<lambda>s w. (fd, w @ [''mkdir '' @ s])), u_open_dir = (\<lambda>s w. (fd, w @ [''opendir '' @ s])),
     u_open_file = (\<lambda>s f w. (fd, w @ [''open '' @ s])), u_close_file = (\<lambda>d w. (0, w)),
     u_write_file = (\<lambda>d arr w. (0, w)), u_read_file = (\<lambda>d arr w. (0, arr, w)),
     u_get_next_entry = (\<lambda>d i w. (-1, i, w)), u_fork = (\<lambda>w. (pid, w)),
     u_exec = (\<lambda>s args w. (Some 1, w @ [''exec '' @ s] @ args)), u_exit = (\<lambda>w. w @ [''exit'']),
     u_wait = (\<lambda>p w. (0, w @ [''wait''])), u_set_sched_param = (\<lambda>p k v w. (0, w))\<rparr>"

theorem programs_witness:
  "handle_exec_from_bin (logged 0 3) (pad 64 ''cat a bc'') [] =
   Some (Gone [''exec /bin/cat.bin'', pad 64 ''a'', pad 64 ''bc'', ''[SHELL] Cannot find '' @ [CHR 0x27], ''cat'',
     [CHR 0x27] @ '' binary file.'' @ [LF], ''exit''])"
proof -
  have "line_of [''cat'', ''a'', ''bc''] @ NUL # zeros 55 = pad 64 ''cat a bc''" by (simp add: pad_text)
  moreover have "\<forall>s \<in> set [''cat'', ''a'', ''bc'']. word s" by (simp add: word_def line_end_def)
  ultimately show ?thesis
    using programs_get_their_arguments [of "''cat''" "[''a'', ''bc'']" "zeros 55" "logged 0 3" "[]"]
    by (simp add: logged_def cannot_find_def)
qed

subsection \<open>Changing the directory\<close>

text \<open>The text of a path as it is typed, without its last slash.\<close>

definition typed :: "string list \<Rightarrow> string" where
  "typed cs = butlast (join cs)"

lemma join_typed: "cs \<noteq> [] \<Longrightarrow> join cs = typed cs @ [SLASH]"
  by (cases cs rule: rev_cases) (simp_all add: typed_def butlast_append)

lemma typed_last: "cs \<noteq> [] \<Longrightarrow> \<forall>c \<in> set cs. component c \<Longrightarrow> typed cs \<noteq> [] \<and> hd (typed cs) \<noteq> SLASH \<and> last (typed cs) \<noteq> SLASH"
proof -
  assume a: "cs \<noteq> []" "\<forall>c \<in> set cs. component c"
  obtain ds d where d: "cs = ds @ [d]" using a(1) by (cases cs rule: rev_cases) auto
  have t: "typed cs = join ds @ d" by (simp add: typed_def d butlast_append)
  have dd: "d \<noteq> []" "SLASH \<notin> set d" using a(2) d by (simp_all add: component_def)
  then have l: "last (typed cs) \<noteq> SLASH" using t by (metis last_appendR last_in_set)
  have "hd (typed cs) \<noteq> SLASH"
  proof (cases ds)
    case Nil
    then show ?thesis using t dd by (metis append_Nil hd_in_set join_simps(1))
  next
    case (Cons e es)
    have "e \<noteq> []" "SLASH \<notin> set e" using a(2) d Cons by (simp_all add: component_def)
    then show ?thesis using t Cons by (cases e) auto
  qed
  then show ?thesis using l t dd by simp
qed

lemma cd_destination:
  assumes "cs \<noteq> []" "\<forall>c \<in> set cs. component c" "\<forall>c \<in> set (join cs). \<not> line_end c" "length (join cs) < 62"
  shows "strsplit (pad 64 (''cd '' @ typed cs)) SPACE (zeros 64) (zeros 64) = Some (pad 64 ''cd'', pad 64 (typed cs))"
    and "strlen (pad 64 (typed cs)) = Some (length (typed cs))"
    and "aget (pad 64 (typed cs)) (int (length (typed cs)) - 1) = Some (last (typed cs))"
    and "strcat (pad 64 (typed cs)) [SLASH, NUL, NUL] = Some (pad 64 (join cs))"
proof -
  note j = join_typed [OF assms(1)]
  have l: "length (typed cs) < 61" using assms(4) j by simp
  have e: "\<forall>c \<in> set (typed cs). \<not> line_end c" using assms(3) unfolding j by simp
  have n: "NUL \<notin> set (typed cs)" using e by (rule no_line_end_no_nul)
  have t: "typed cs \<noteq> []" using typed_last assms(1,2) by blast
  have p: "pad 64 (''cd '' @ typed cs) = ''cd'' @ SPACE # typed cs @ NUL # zeros (60 - length (typed cs))"
    using l by (simp add: pad_text)
  show "strsplit (pad 64 (''cd '' @ typed cs)) SPACE (zeros 64) (zeros 64) = Some (pad 64 ''cd'', pad 64 (typed cs))"
    unfolding p by (rule strsplit_pad) (use e l in \<open>simp_all add: line_end_def\<close>)
  show "strlen (pad 64 (typed cs)) = Some (length (typed cs))" using n l by (simp add: strlen_pad)
  have "nat (int (length (typed cs)) - 1) = length (typed cs) - 1" by simp
  then show "aget (pad 64 (typed cs)) (int (length (typed cs)) - 1) = Some (last (typed cs))"
    using t l by (simp add: aget_def pad_def nth_append last_conv_nth Suc_le_eq)
  have c: "cstr (pad 64 (typed cs)) = Some (typed cs)" using n l by (simp add: cstr_pad)
  have "drop (Suc (length (typed cs) + 1)) (pad 64 (typed cs)) = zeros (62 - length (typed cs))" using l by (simp add: pad_def)
  then show "strcat (pad 64 (typed cs)) [SLASH, NUL, NUL] = Some (pad 64 (join cs))"
    using strcat_cstr [OF c, of "[SLASH, NUL, NUL]" "[SLASH]"] l j by (simp add: pad_text)
qed

lemma cd_target_resolves:
  assumes "cs \<noteq> []" "\<forall>c \<in> set (st @ cs). component c" "\<forall>c \<in> set (join cs). \<not> line_end c" "length (join st) + length (join cs) < 62"
    and "wd = SLASH # join st @ NUL # junk" "length wd = 64" "resolve (True, []) (st @ cs) = Some r"
  shows "\<exists>temp. cd_target (pad 64 (''cd '' @ typed cs)) wd = Some temp \<and> length temp = 64 \<and>
    cstr temp = Some (if r = (False, []) then [SLASH] else render r)"
proof -
  have cs: "\<forall>c \<in> set cs. component c" and l: "length (join cs) < 62" using assms(2,4) by simp_all
  note D = cd_destination [OF assms(1) cs assms(3) l]
  have n: "NUL \<notin> set (join cs)" using assms(3) by (rule no_line_end_no_nul)
  have ns: "NUL \<notin> set (join st)" using assms(2) by (auto simp: join_def component_def)
  note tl = typed_last [OF assms(1) cs]
  have j: "join cs = typed cs @ [SLASH]" using assms(1) by (rule join_typed)
  have c0: "aget (pad 64 (join cs)) 0 = Some (hd (typed cs))"
    using tl l by (cases "typed cs") (simp_all add: j pad_def aget_def)
  have wd: "cstr wd = Some (SLASH # join st)" "strlen wd = Some (Suc (length (join st)))"
    using ns assms(5) by (simp_all add: strlen_cstr)
  have cp: "copy_array wd = Some wd" using assms(6) by (simp add: copy_array_def)
  have sl: "append_slash wd = Some wd"
  proof -
    have "aget wd (int (length (join st))) = Some SLASH" if "join st \<noteq> []"
    proof -
      have "st \<noteq> []" using that by auto
      then have "join st = typed st @ [SLASH]" by (rule join_typed)
      then show ?thesis using assms(5) by (simp add: aget_def nth_append nat_add_distrib)
    qed
    then show ?thesis using wd(2) by (cases "join st = []") (simp_all add: append_slash_def del: aget_nat)
  qed
  let ?p = "SLASH # join (st @ cs) @ NUL # drop (Suc (Suc (length (join st) + length (join cs)))) wd"
  have cj: "cstr (pad 64 (join cs)) = Some (join cs)" using n l by (simp add: cstr_pad)
  have cat: "strcat wd (pad 64 (join cs)) = Some ?p"
    using strcat_cstr [OF wd(1) cj] assms(4,6) by simp
  have len: "length ?p = 64" using assms(4,6) by simp
  have e: "cd_target (pad 64 (''cd '' @ typed cs)) wd = normalize_path ?p"
    unfolding cd_target_def target_path_def using D c0 tl cp sl cat by simp
  have "\<exists>p. normalize_path ?p = Some p \<and> length p = length ?p \<and> cstr p = Some (if r = (False, []) then [SLASH] else render r)"
    using normalize_path_components [OF assms(2)] unfolding assms(7) option.case .
  then show ?thesis unfolding e len .
qed

text \<open>
  C37. cd follows the path. In the directory /s1/.../sk/, the line "cd c1/.../cn" asks the system for the directory to which
  the components s1 ... sk c1 ... cn resolve ("." dropped, ".." up). If it can be opened, it becomes the
  working directory, terminated and in an array of 64; otherwise the shell says so and stays where it is.
\<close>

theorem cd_follows_the_path:
  assumes "cs \<noteq> []" "\<forall>c \<in> set (st @ cs). component c" "\<forall>c \<in> set (join cs). \<not> line_end c" "length (join st) + length (join cs) < 62"
    and "wd = SLASH # join st @ NUL # junk" "length wd = 64" "resolve (True, []) (st @ cs) = Some r"
    and "t = (if r = (False, []) then [SLASH] else render r)"
  shows "\<exists>wd'. length wd' = 64 \<and> cstr wd' = Some t \<and>
    handle_cd A (pad 64 (''cd '' @ typed cs)) wd w =
      (case u_open_dir A t w of (fd, w1) \<Rightarrow>
        Some (if fd = -1
          then (fold (u_write A) [''[SHELL] Error: cannot change directory to '' @ [CHR 0x27], t, [CHR 0x27] @ ''.'' @ [LF]] w1, wd)
          else (w1, wd')))"
proof -
  obtain temp where temp: "cd_target (pad 64 (''cd '' @ typed cs)) wd = Some temp" "length temp = 64" "cstr temp = Some t"
    using cd_target_resolves [OF assms(1-7)] assms(8) by auto
  show ?thesis
    by (rule exI [of _ temp])
      (use temp in \<open>simp add: handle_cd_def quoted_def put_def copy_array_def split: prod.split\<close>)
qed

theorem cd_witness:
  "\<exists>wd'. cstr wd' = Some ''/usr/bin/'' \<and>
    handle_cd (logged 0 3) (pad 64 ''cd ../bin'') (pad 64 ''/usr/lib/'') [] = Some ([''opendir /usr/bin/''], wd')"
proof -
  let ?st = "[''usr'', ''lib'']" and ?cs = "[''..'', ''bin'']"
  have wd: "pad 64 ''/usr/lib/'' = SLASH # join ?st @ NUL # zeros 54" by (simp add: pad_text)
  have t: "''cd '' @ typed ?cs = ''cd ../bin''" by (simp add: typed_def)
  have r: "resolve (True, []) (?st @ ?cs) = Some (True, [''usr'', ''bin''])" by simp
  have c: "\<forall>c \<in> set (?st @ ?cs). component c" by (simp add: component_def)
  have l: "\<forall>c \<in> set (join ?cs). \<not> line_end c" "length (join ?st) + length (join ?cs) < 62" by (simp_all add: line_end_def)
  have q: "''/usr/bin/'' = (if (True, [''usr'', ''bin'']) = (False, []) then [SLASH] else render (True, [''usr'', ''bin'']))"
    by (simp add: render_def)
  obtain wd' where "cstr wd' = Some ''/usr/bin/''" "handle_cd (logged 0 3) (pad 64 ''cd ../bin'') (pad 64 ''/usr/lib/'') [] =
      (case u_open_dir (logged 0 3) ''/usr/bin/'' [] of (fd, w1) \<Rightarrow>
        Some (if fd = -1
          then (fold (u_write (logged 0 3)) [''[SHELL] Error: cannot change directory to '' @ [CHR 0x27], ''/usr/bin/'', [CHR 0x27] @ ''.'' @ [LF]] w1,
            pad 64 ''/usr/lib/'')
          else (w1, wd')))"
    using cd_follows_the_path [OF _ c l wd _ r q, of "logged 0 3" "[]"] unfolding t by auto
  then show ?thesis by (auto simp: logged_def)
qed

subsection \<open>What does not work\<close>

text \<open>The tree of a directory stops at the first entry: the system call answers 0 for an entry.\<close>

lemma tree_prints_nothing:
  assumes "\<forall>fd i w. fst (u_get_next_entry A fd i w) \<noteq> 1" "cstr path = Some p"
  shows "\<exists>w'. print_tree A uninit path depth w = Some w' \<and>
    (w' = snd (u_open_dir A p w) \<or> (\<exists>fd i. w' = snd (snd (u_get_next_entry A fd i (snd (u_open_dir A p w))))))"
proof -
  have "tree_entries A uninit fd path depth uninit v = Some (snd (snd (u_get_next_entry A fd (uninit\<lparr>entry_name := zeros 64\<rparr>) v)))" for fd v
  proof -
    obtain e i u where u: "u_get_next_entry A fd (uninit\<lparr>entry_name := zeros 64\<rparr>) v = (e, i, u)" by (metis prod_cases3)
    then have "e \<noteq> 1" using assms(1) by (metis fst_conv)
    then show ?thesis using u by (subst tree_entries.simps) simp
  qed
  then show ?thesis using assms(2) by (cases "u_open_dir A p w") (auto simp: print_tree_def)
qed

text \<open>A file that opens makes \<^verbatim>\<open>write\<close> hand 256 bytes of a 64-byte array to the system.\<close>

lemma write_reads_past_its_array:
  assumes "write_fields buffer = Some (file_name, file_content, i)" "i > 0" "length file_content = 64"
    and "\<forall>path flags w. fst (u_open_file A path flags w) \<noteq> -1"
  shows "handle_write A buffer wd w = None"
proof -
  have "write_bytes A fd file_content 256 v = None" for fd v using assms(3) by (simp add: write_bytes_def)
  then show ?thesis using assms(1,2,4)
    by (auto simp: handle_write_def bind_eq_None_conv Let_def split: prod.split) (metis fst_conv)+
qed

end
