(* ===== verification/Fat_Table.thy ===== *)
theory Fat_Table
  imports Fat_State
begin

section \<open>The sector buffer and the file allocation table\<close>

text \<open>
  \<^verbatim>\<open>libs/fat32/fat.c\<close> from \<^verbatim>\<open>sect_to_clust\<close> to \<^verbatim>\<open>clust_clear\<close>: one buffered sector per volume, written back when another one is
  needed, and cluster chains in the table. Clusters and sectors are 32-bit words.
\<close>

abbreviation (input) FAT_BUF_DIRTY :: "8 word" where "FAT_BUF_DIRTY \<equiv> 1"
abbreviation (input) FAT_INFO_DIRTY :: "8 word" where "FAT_INFO_DIRTY \<equiv> 2"
abbreviation (input) CLUST_FREE :: "8 word" where "CLUST_FREE \<equiv> 1"
abbreviation (input) CLUST_USED :: "8 word" where "CLUST_USED \<equiv> 2"
abbreviation (input) CLUST_LAST :: "8 word" where "CLUST_LAST \<equiv> 4"
abbreviation (input) CLUST_BAD :: "8 word" where "CLUST_BAD \<equiv> 8"

definition sect_to_clust :: "'d Fat \<Rightarrow> 32 word \<Rightarrow> 32 word" where
  "sect_to_clust fat sect = drop_bit (unat (f_clust_shift fat)) (sect - f_data_sect fat) + 2"

definition clust_to_sect :: "'d Fat \<Rightarrow> 32 word \<Rightarrow> 32 word" where
  "clust_to_sect fat clust = push_bit (unat (f_clust_shift fat)) (clust - 2) + f_data_sect fat"

text \<open>The callbacks of the disk.\<close>

definition disk_read :: "'d DiskOps \<Rightarrow> 8 word list \<Rightarrow> 32 word \<Rightarrow> (bool \<times> 8 word list, 'd) fat_op" where
  "disk_read ops buf sect s = (case op_read ops buf sect (fs_disk s) of (ok, b, d) \<Rightarrow> Some (Inr (ok, b), s\<lparr>fs_disk := d\<rparr>))"

definition disk_write :: "'d DiskOps \<Rightarrow> 8 word list \<Rightarrow> 32 word \<Rightarrow> (bool, 'd) fat_op" where
  "disk_write ops buf sect s = (case op_write ops buf sect (fs_disk s) of (ok, d) \<Rightarrow> Some (Inr ok, s\<lparr>fs_disk := d\<rparr>))"

definition set_flag :: "nat \<Rightarrow> 8 word \<Rightarrow> (unit, 'd) fat_op" where
  "set_flag p m = fs_modify (upd_fat p (\<lambda>f. f\<lparr>f_flags := f_flags f OR m\<rparr>))"

definition clear_flag :: "nat \<Rightarrow> 8 word \<Rightarrow> (unit, 'd) fat_op" where
  "clear_flag p m = fs_modify (upd_fat p (\<lambda>f. f\<lparr>f_flags := f_flags f AND NOT m\<rparr>))"

definition set_buf :: "nat \<Rightarrow> 8 word list \<Rightarrow> (unit, 'd) fat_op" where
  "set_buf p b = fs_modify (upd_fat p (f_buf_update (\<lambda>_. b)))"

definition sync_buf :: "nat \<Rightarrow> (unit, 'd) fat_op" where
  "sync_buf p = fs_bind (the_fat p) (\<lambda>fat.
     if f_flags fat AND FAT_BUF_DIRTY \<noteq> 0
     then fs_bind (disk_write (f_ops fat) (f_buf fat) (f_sect fat)) (\<lambda>ok.
       if \<not> ok then fs_fail FAT_ERR_IO else clear_flag p FAT_BUF_DIRTY)
     else fs_return ())"

definition update_buf :: "nat \<Rightarrow> 32 word \<Rightarrow> (unit, 'd) fat_op" where
  "update_buf p sect = fs_bind (the_fat p) (\<lambda>fat.
     if f_sect fat \<noteq> sect
     then fs_then (sync_buf p)
       (fs_bind (disk_read (f_ops fat) (f_buf fat) sect) (\<lambda>(ok, b).
         fs_then (set_buf p b)
           (if \<not> ok then fs_fail FAT_ERR_IO else fs_modify (upd_fat p (f_sect_update (\<lambda>_. sect))))))
     else fs_return ())"

definition sync_fs :: "nat \<Rightarrow> (unit, 'd) fat_op" where
  "sync_fs p = fs_then (sync_buf p) (fs_bind (the_fat p) (\<lambda>fat.
     if f_flags fat AND FAT_INFO_DIRTY \<noteq> 0
     then fs_then (update_buf p (f_info_sect fat)) (fs_bind (the_fat p) (\<lambda>f1.
       fs_then (set_flag p FAT_BUF_DIRTY) (fs_bind (fs_lift (do {
           b \<leftarrow> wr32 (f_buf f1) 492 (f_last_used f1);
           wr32 b 488 (f_free_cnt f1)
         })) (\<lambda>b.
       fs_then (set_buf p b) (fs_then (sync_buf p) (clear_flag p FAT_INFO_DIRTY))))))
     else fs_return ()))"

subsection \<open>Table entries\<close>

text \<open>The kind of an entry; \<open>None\<close> is \<^verbatim>\<open>FAT_ERR_BROKEN\<close>.\<close>

definition clust_kind :: "32 word \<Rightarrow> 32 word \<Rightarrow> 8 word option" where
  "clust_kind clust_cnt val =
     (if val = 0 then Some CLUST_FREE
      else if val = 0x0FFFFFF7 then Some CLUST_BAD
      else if 0x0FFFFFF8 \<le> val then Some (CLUST_USED OR CLUST_LAST)
      else if 2 \<le> val \<and> val < clust_cnt then Some CLUST_USED
      else None)"

definition get_fat :: "nat \<Rightarrow> 32 word \<Rightarrow> (32 word \<times> 8 word, 'd) fat_op" where
  "get_fat p clust = fs_bind (the_fat p) (\<lambda>fat.
     fs_then (update_buf p (f_fat_sect0 fat + clust div 128)) (fs_bind (the_fat p) (\<lambda>f1.
       fs_bind (fs_lift (rd32 (f_buf f1) (4 * unat (clust mod 128)))) (\<lambda>item.
         let val = item AND 0x0FFFFFFF in
         case clust_kind (f_clust_cnt f1) val of
           None \<Rightarrow> fs_fail FAT_ERR_BROKEN
         | Some flags \<Rightarrow> fs_return (val, flags)))))"

definition put_fat2 :: "nat \<Rightarrow> 32 word \<Rightarrow> 32 word \<Rightarrow> 32 word \<Rightarrow> (unit, 'd) fat_op" where
  "put_fat2 p fat_sect clust val =
     fs_then (update_buf p (fat_sect + clust div 128)) (fs_bind (the_fat p) (\<lambda>fat.
       fs_bind (fs_lift (do {
           item \<leftarrow> rd32 (f_buf fat) (4 * unat (clust mod 128));
           wr32 (f_buf fat) (4 * unat (clust mod 128)) ((item AND 0xF0000000) OR (val AND 0x0FFFFFFF))
         })) (\<lambda>b.
       fs_then (set_buf p b) (set_flag p FAT_BUF_DIRTY))))"

definition put_fat :: "nat \<Rightarrow> 32 word \<Rightarrow> 32 word \<Rightarrow> (unit, 'd) fat_op" where
  "put_fat p clust val = fs_bind (the_fat p) (\<lambda>fat.
     fs_then (fs_when (f_fat_sect1 fat \<noteq> 0) (put_fat2 p (f_fat_sect1 fat) clust val))
       (put_fat2 p (f_fat_sect0 fat) clust val))"

subsection \<open>Chains\<close>

partial_function (option) remove_loop :: "nat \<Rightarrow> 32 word \<Rightarrow> 'd fat_state \<Rightarrow> ((int + unit) \<times> 'd fat_state) option" where
  "remove_loop p clust s = fs_bind (get_fat p clust) (\<lambda>(nxt, flags).
     if flags AND (CLUST_BAD OR CLUST_FREE) \<noteq> 0 then fs_fail FAT_ERR_BROKEN
     else fs_then (put_fat p clust 0)
       (fs_then (fs_modify (upd_fat p (\<lambda>f. f\<lparr>f_free_cnt := f_free_cnt f + 1\<rparr>)))
         (if flags AND CLUST_LAST \<noteq> 0 then fs_return () else remove_loop p nxt))) s"

definition remove_chain :: "nat \<Rightarrow> 32 word \<Rightarrow> (unit, 'd) fat_op" where
  "remove_chain p clust = fs_then (set_flag p FAT_INFO_DIRTY) (fs_then (remove_loop p clust) (sync_fs p))"

text \<open>
  The search for a free cluster. When an entry cannot be read, the code returns \<^verbatim>\<open>flags\<close> instead of the error: the kind of the
  previous entry, or an uninitialised variable.
\<close>

definition next_cluster :: "'d Fat \<Rightarrow> 32 word \<Rightarrow> 32 word" where
  "next_cluster fat clust = (if f_clust_cnt fat \<le> clust + 1 then 2 else clust + 1)"

partial_function (option) scan_free :: "nat \<Rightarrow> 32 word \<Rightarrow> 8 word option \<Rightarrow> 'd fat_state \<Rightarrow> ((int + 32 word) \<times> 'd fat_state) option" where
  "scan_free p clust flags s = (let fat = fs_fats s p; c = next_cluster fat clust in
     if c = f_last_used fat then Some (Inl FAT_ERR_FULL, s)
     else Option.bind (get_fat p c s) (\<lambda>(r, s2). (case r of
         Inl e \<Rightarrow> (case flags of None \<Rightarrow> None | Some v \<Rightarrow> Some (Inl (uint v), s2))
       | Inr (nxt, fl) \<Rightarrow> if fl AND CLUST_FREE \<noteq> 0 then Some (Inr c, s2) else scan_free p c (Some fl) s2)))"

definition stretch_chain :: "nat \<Rightarrow> 32 word \<Rightarrow> (32 word, 'd) fat_op" where
  "stretch_chain p prev = fs_then (set_flag p FAT_INFO_DIRTY) (fs_bind (the_fat p) (\<lambda>fat.
     fs_bind (if prev \<noteq> 0
       then fs_bind (get_fat p (next_cluster fat prev)) (\<lambda>(nxt, flags).
         fs_return (flags AND CLUST_FREE = 0, next_cluster fat prev, Some flags))
       else fs_return (True, prev, None)) (\<lambda>(scan, clust1, flags).
     fs_bind (if scan then scan_free p (f_last_used fat) flags else fs_return clust1) (\<lambda>clust.
     fs_then (put_fat p clust 0x0FFFFFFF) (
     fs_then (fs_when (prev \<noteq> 0) (put_fat p prev clust)) (
     fs_then (fs_modify (upd_fat p (\<lambda>f. f\<lparr>f_last_used := clust, f_free_cnt := f_free_cnt f - 1\<rparr>))) (
     fs_then (sync_fs p) (fs_return clust))))))))"

definition create_chain :: "nat \<Rightarrow> (32 word, 'd) fat_op" where
  "create_chain p = stretch_chain p 0"

primrec clear_sectors :: "nat \<Rightarrow> nat \<Rightarrow> 32 word \<Rightarrow> (unit, 'd) fat_op" where
  "clear_sectors p 0 sect = fs_return ()"
| "clear_sectors p (Suc n) sect =
     fs_then (set_flag p FAT_BUF_DIRTY) (fs_then (fs_modify (upd_fat p (f_sect_update (\<lambda>_. sect))))
       (fs_then (sync_buf p) (clear_sectors p n (sect + 1))))"

definition clust_clear :: "nat \<Rightarrow> 32 word \<Rightarrow> (unit, 'd) fat_op" where
  "clust_clear p clust = fs_then (sync_buf p) (fs_bind (the_fat p) (\<lambda>fat.
     fs_then (set_buf p (replicate 512 0))
       (clear_sectors p (2 ^ unat (f_clust_shift fat)) (clust_to_sect fat clust))))"

end
