(* ===== verification/Fat_Buffer.thy ===== *)
theory Fat_Buffer
  imports Fat_Table
begin

section \<open>What the sector buffer shows\<close>

text \<open>
  On a disk that keeps what is written to it, the buffer of a volume is invisible: \<open>view\<close> is the contents of a sector as the
  library sees it, and loading another sector does not change it. Sector 0 is exempt, because a
  freshly mounted volume claims to have it buffered without having read it.
\<close>

text \<open>
  The behaviour of the disk callbacks on which the library relies. \<open>content d n\<close> is sector \<open>n\<close> in a usable state \<open>d\<close> of the
  disk.
\<close>

definition usable :: "('d \<Rightarrow> 32 word \<Rightarrow> 8 word list) \<Rightarrow> 'd \<Rightarrow> bool" where
  "usable content d \<longleftrightarrow> (\<forall>n. length (content d n) = 512)"

definition reliable :: "'d DiskOps \<Rightarrow> ('d \<Rightarrow> 32 word \<Rightarrow> 8 word list) \<Rightarrow> bool" where
  "reliable ops content \<longleftrightarrow> (\<forall>b n d. usable content d \<longrightarrow> length b = 512 \<longrightarrow>
     (\<exists>d1. op_read ops b n d = (True, content d n, d1) \<and> content d1 = content d) \<and>
     (\<exists>d1. op_write ops b n d = (True, d1) \<and> content d1 = (content d)(n := b)))"

lemma reliable_read:
  "reliable ops content \<Longrightarrow> usable content d \<Longrightarrow> length b = 512 \<Longrightarrow> \<exists>d1. op_read ops b n d = (True, content d n, d1) \<and> content d1 = content d"
  by (simp add: reliable_def)

lemma reliable_write:
  "reliable ops content \<Longrightarrow> usable content d \<Longrightarrow> length b = 512 \<Longrightarrow> \<exists>d1. op_write ops b n d = (True, d1) \<and> content d1 = (content d)(n := b)"
  by (simp add: reliable_def)

lemma usable_upd: "usable content d \<Longrightarrow> length b = 512 \<Longrightarrow> content d1 = (content d)(n := b) \<Longrightarrow> usable content d1"
  "usable content d \<Longrightarrow> content d1 = content d \<Longrightarrow> usable content d1"
  by (auto simp: usable_def)

definition view :: "('d \<Rightarrow> 32 word \<Rightarrow> 8 word list) \<Rightarrow> nat \<Rightarrow> 'd fat_state \<Rightarrow> 32 word \<Rightarrow> 8 word list" where
  "view content p s n = (if n = f_sect (fs_fats s p) then f_buf (fs_fats s p) else content (fs_disk s) n)"

definition dirty :: "nat \<Rightarrow> 'd fat_state \<Rightarrow> bool" where
  "dirty p s \<longleftrightarrow> f_flags (fs_fats s p) AND FAT_BUF_DIRTY \<noteq> 0"

definition vol_ok :: "('d \<Rightarrow> 32 word \<Rightarrow> 8 word list) \<Rightarrow> nat \<Rightarrow> 'd fat_state \<Rightarrow> bool" where
  "vol_ok content p s \<longleftrightarrow> reliable (f_ops (fs_fats s p)) content \<and> usable content (fs_disk s) \<and> length (f_buf (fs_fats s p)) = 512 \<and>
     (\<not> dirty p s \<longrightarrow> f_sect (fs_fats s p) \<noteq> 0 \<longrightarrow> f_buf (fs_fats s p) = content (fs_disk s) (f_sect (fs_fats s p)))"

text \<open>What the table operations may change: the buffer, which sector it holds, its dirty flag, and the disk.\<close>

definition buf_frame :: "nat \<Rightarrow> 'd fat_state \<Rightarrow> 'd fat_state \<Rightarrow> bool" where
  "buf_frame p s t \<longleftrightarrow> (\<exists>b n fl d. t = (upd_fat p (\<lambda>f. f\<lparr>f_buf := b, f_sect := n, f_flags := fl\<rparr>) s)\<lparr>fs_disk := d\<rparr> \<and>
     fl AND NOT FAT_BUF_DIRTY = f_flags (fs_fats s p) AND NOT FAT_BUF_DIRTY)"

lemma frame_refl: "buf_frame p s s"
  unfolding buf_frame_def
  by (rule exI [of _ "f_buf (fs_fats s p)"], rule exI [of _ "f_sect (fs_fats s p)"], rule exI [of _ "f_flags (fs_fats s p)"], rule exI [of _ "fs_disk s"])
    (simp add: upd_fat_def)

lemma frame_trans [trans]: "buf_frame p s t \<Longrightarrow> buf_frame p t u \<Longrightarrow> buf_frame p s u"
proof -
  assume "buf_frame p s t" "buf_frame p t u"
  then obtain b n fl d b' n' fl' d' where
    t: "t = (upd_fat p (\<lambda>f. f\<lparr>f_buf := b, f_sect := n, f_flags := fl\<rparr>) s)\<lparr>fs_disk := d\<rparr>"
      "fl AND NOT FAT_BUF_DIRTY = f_flags (fs_fats s p) AND NOT FAT_BUF_DIRTY" and
    u: "u = (upd_fat p (\<lambda>f. f\<lparr>f_buf := b', f_sect := n', f_flags := fl'\<rparr>) t)\<lparr>fs_disk := d'\<rparr>"
      "fl' AND NOT FAT_BUF_DIRTY = f_flags (fs_fats t p) AND NOT FAT_BUF_DIRTY"
    unfolding buf_frame_def by (elim exE conjE) (rule that)
  have "u = (upd_fat p (\<lambda>f. f\<lparr>f_buf := b', f_sect := n', f_flags := fl'\<rparr>) s)\<lparr>fs_disk := d'\<rparr>"
    using t u by (simp add: upd_fat_def)
  moreover have "fl' AND NOT FAT_BUF_DIRTY = f_flags (fs_fats s p) AND NOT FAT_BUF_DIRTY" using t u by simp
  ultimately show "buf_frame p s u" unfolding buf_frame_def by blast
qed

lemma frame_same:
  assumes "buf_frame p s t"
  shows "f_ops (fs_fats t p) = f_ops (fs_fats s p)" "f_clust_msk (fs_fats t p) = f_clust_msk (fs_fats s p)"
    "f_clust_cnt (fs_fats t p) = f_clust_cnt (fs_fats s p)" "f_info_sect (fs_fats t p) = f_info_sect (fs_fats s p)"
    "f_fat_sect0 (fs_fats t p) = f_fat_sect0 (fs_fats s p)" "f_fat_sect1 (fs_fats t p) = f_fat_sect1 (fs_fats s p)"
    "f_data_sect (fs_fats t p) = f_data_sect (fs_fats s p)" "f_root_clust (fs_fats t p) = f_root_clust (fs_fats s p)"
    "f_last_used (fs_fats t p) = f_last_used (fs_fats s p)" "f_free_cnt (fs_fats t p) = f_free_cnt (fs_fats s p)"
    "f_clust_shift (fs_fats t p) = f_clust_shift (fs_fats s p)" "fs_dirs t = fs_dirs s" "fs_files t = fs_files s"
    "fs_list t = fs_list s" "fs_buf t = fs_buf s" "fs_len t = fs_len s" "fs_crc t = fs_crc s" "fs_loc t = fs_loc s"
    "p' \<noteq> p \<Longrightarrow> fs_fats t p' = fs_fats s p'"
    "f_flags (fs_fats t p) AND NOT FAT_BUF_DIRTY = f_flags (fs_fats s p) AND NOT FAT_BUF_DIRTY"
  using assms by (auto simp: buf_frame_def)

lemma flag_bits:
  "((x :: 8 word) AND NOT 1) AND 1 = 0" "((x :: 8 word) OR 1) AND NOT 1 = x AND NOT 1" "((x :: 8 word) OR 1) AND 1 = 1"
  "((x :: 8 word) AND NOT 1) AND NOT 1 = x AND NOT 1"
  by (rule bit_word_eqI; auto simp: bit_simps)+

lemmas flag_bits' = flag_bits [simplified]

lemma flag_clear: "(x :: 8 word) AND 1 = 0 \<Longrightarrow> x AND - 2 = x"
proof (rule bit_word_eqI)
  fix n assume "x AND 1 = 0"
  then have "\<not> bit (x AND 1) 0" by simp
  moreover have e: "- 2 = NOT (1 :: 8 word)" by simp
  ultimately show "bit (x AND - 2) n = bit x n" if "n < LENGTH(8)" using that unfolding e by (cases n) (simp_all add: bit_simps del: not_one_eq)
qed

lemma flag_other: "(x :: 8 word) AND NOT 1 = y AND NOT 1 \<Longrightarrow> x AND 2 = y AND 2"
proof -
  have e: "(z AND NOT 1) AND 2 = z AND 2" for z :: "8 word" by (rule bit_word_eqI) (auto simp: bit_simps)
  show "x AND NOT 1 = y AND NOT 1 \<Longrightarrow> x AND 2 = y AND 2" using e [of x] e [of y] by simp
qed

subsection \<open>Writing back and loading\<close>

lemma disk_write_ok:
  assumes "reliable ops content" "usable content (fs_disk s)" "length b = 512"
  shows "\<exists>d1. disk_write ops b n s = Some (Inr True, s\<lparr>fs_disk := d1\<rparr>) \<and> content d1 = (content (fs_disk s))(n := b)"
  using reliable_write [OF assms, of n] by (auto simp: disk_write_def)

lemma disk_read_ok:
  assumes "reliable ops content" "usable content (fs_disk s)" "length b = 512"
  shows "\<exists>d1. disk_read ops b n s = Some (Inr (True, content (fs_disk s) n), s\<lparr>fs_disk := d1\<rparr>) \<and> content d1 = content (fs_disk s) \<and>
    length (content (fs_disk s) n) = 512"
  using reliable_read [OF assms, of n] assms(2) by (auto simp: disk_read_def usable_def)

lemma sync_buf_ok:
  assumes "vol_ok content p s"
  shows "\<exists>d. sync_buf p s = Some (Inr (), (upd_fat p (\<lambda>f. f\<lparr>f_flags := f_flags f AND NOT FAT_BUF_DIRTY\<rparr>) s)\<lparr>fs_disk := d\<rparr>) \<and>
    content d = (if dirty p s then (content (fs_disk s))(f_sect (fs_fats s p) := f_buf (fs_fats s p)) else content (fs_disk s))"
proof (cases "dirty p s")
  case True
  obtain d where d: "disk_write (f_ops (fs_fats s p)) (f_buf (fs_fats s p)) (f_sect (fs_fats s p)) s = Some (Inr True, s\<lparr>fs_disk := d\<rparr>)"
    "content d = (content (fs_disk s))(f_sect (fs_fats s p) := f_buf (fs_fats s p))"
    using assms disk_write_ok [of "f_ops (fs_fats s p)" content s "f_buf (fs_fats s p)" "f_sect (fs_fats s p)"] by (auto simp: vol_ok_def)
  have "sync_buf p s = Some (Inr (), (upd_fat p (\<lambda>f. f\<lparr>f_flags := f_flags f AND NOT FAT_BUF_DIRTY\<rparr>) s)\<lparr>fs_disk := d\<rparr>)"
    using True d(1) by (simp add: sync_buf_def dirty_def clear_flag_def fat_run upd_fat_def)
  then show ?thesis using d(2) True by (intro exI [of _ d]) simp
next
  case False
  have "f_flags (fs_fats s p) AND NOT FAT_BUF_DIRTY = f_flags (fs_fats s p)"
    using False by (simp add: dirty_def flag_clear)
  then have "(upd_fat p (\<lambda>f. f\<lparr>f_flags := f_flags f AND NOT FAT_BUF_DIRTY\<rparr>) s)\<lparr>fs_disk := fs_disk s\<rparr> = s"
    by (simp add: upd_fat_def)
  moreover have "sync_buf p s = Some (Inr (), s)" using False by (simp add: sync_buf_def dirty_def fat_run)
  ultimately show ?thesis using False by (intro exI [of _ "fs_disk s"]) simp
qed

lemma sync_buf_spec:
  assumes "vol_ok content p s"
  shows "\<exists>t. sync_buf p s = Some (Inr (), t) \<and> vol_ok content p t \<and> buf_frame p s t \<and> \<not> dirty p t \<and> view content p t = view content p s \<and>
    f_sect (fs_fats t p) = f_sect (fs_fats s p) \<and> f_buf (fs_fats t p) = f_buf (fs_fats s p)"
proof -
  obtain d where d: "sync_buf p s = Some (Inr (), (upd_fat p (\<lambda>f. f\<lparr>f_flags := f_flags f AND NOT FAT_BUF_DIRTY\<rparr>) s)\<lparr>fs_disk := d\<rparr>)"
    "content d = (if dirty p s then (content (fs_disk s))(f_sect (fs_fats s p) := f_buf (fs_fats s p)) else content (fs_disk s))"
    using sync_buf_ok [OF assms] by blast
  let ?t = "(upd_fat p (\<lambda>f. f\<lparr>f_flags := f_flags f AND NOT FAT_BUF_DIRTY\<rparr>) s)\<lparr>fs_disk := d\<rparr>"
  have "buf_frame p s ?t"
    unfolding buf_frame_def
    by (rule exI [of _ "f_buf (fs_fats s p)"], rule exI [of _ "f_sect (fs_fats s p)"], rule exI [of _ "f_flags (fs_fats s p) AND NOT FAT_BUF_DIRTY"], rule exI [of _ d])
      (simp add: upd_fat_def flag_bits')
  moreover have "view content p ?t = view content p s" using d(2) by (auto simp: view_def)
  moreover have "vol_ok content p ?t" 
    using assms d(2) by (auto simp: vol_ok_def usable_def)
  moreover have "\<not> dirty p ?t" by (simp add: dirty_def flag_bits')
  ultimately show ?thesis using d(1) by (intro exI [of _ ?t]) simp
qed

lemma update_buf_spec:
  assumes "vol_ok content p s"
  shows "\<exists>t. update_buf p n s = Some (Inr (), t) \<and> vol_ok content p t \<and> buf_frame p s t \<and>
    f_sect (fs_fats t p) = n \<and> f_buf (fs_fats t p) = view content p s n \<and> (\<forall>m. m \<noteq> 0 \<longrightarrow> view content p t m = view content p s m)"
proof (cases "f_sect (fs_fats s p) = n")
  case True
  have "update_buf p n s = Some (Inr (), s)" using True by (simp add: update_buf_def fat_run)
  then show ?thesis using True assms frame_refl by (auto simp: view_def)
next
  case False
  obtain t where t: "sync_buf p s = Some (Inr (), t)" "vol_ok content p t" "buf_frame p s t" "\<not> dirty p t" "view content p t = view content p s"
    "f_sect (fs_fats t p) = f_sect (fs_fats s p)" "f_buf (fs_fats t p) = f_buf (fs_fats s p)"
    using sync_buf_spec [OF assms] by blast
  have ops: "f_ops (fs_fats t p) = f_ops (fs_fats s p)" using frame_same [OF t(3)] by simp
  let ?b = "content (fs_disk t) n"
  obtain d where d: "disk_read (f_ops (fs_fats s p)) (f_buf (fs_fats s p)) n t = Some (Inr (True, ?b), t\<lparr>fs_disk := d\<rparr>)"
    "content d = content (fs_disk t)" "length ?b = 512"
    using t(2) ops assms disk_read_ok [of "f_ops (fs_fats s p)" content t "f_buf (fs_fats s p)" n] by (auto simp: vol_ok_def)
  let ?u = "(upd_fat p (\<lambda>f. f\<lparr>f_buf := ?b, f_sect := n\<rparr>) t)\<lparr>fs_disk := d\<rparr>"
  have run: "update_buf p n s = Some (Inr (), ?u)"
    using False t(1) d(1) by (simp add: update_buf_def set_buf_def fat_run upd_fat_def)
  have b: "?b = view content p s n" using t(5) False t(6) by (metis view_def)
  have fr: "buf_frame p t ?u"
    unfolding buf_frame_def
    by (rule exI [of _ ?b], rule exI [of _ n], rule exI [of _ "f_flags (fs_fats t p)"], rule exI [of _ d]) (simp add: upd_fat_def)
  have dt: "dirty p ?u \<longleftrightarrow> dirty p t" by (simp add: dirty_def)
  have ok: "vol_ok content p ?u" using t(2,4) d usable_upd(2) [of content "fs_disk t" d] by (simp add: vol_ok_def dt)
  have "view content p ?u m = view content p t m" if "m \<noteq> 0" for m
    using that t(2,4,6) d(2) by (auto simp: view_def vol_ok_def)
  then show ?thesis using run ok frame_trans [OF t(3) fr] b t(5) by (intro exI [of _ ?u]) simp
qed

text \<open>Changing the buffered sector.\<close>

lemma modify_buf_spec:
  assumes "vol_ok content p s" "length b = 512"
  shows "\<exists>t. fs_then (set_buf p b) (set_flag p FAT_BUF_DIRTY) s = Some (Inr (), t) \<and> vol_ok content p t \<and> buf_frame p s t \<and>
    f_sect (fs_fats t p) = f_sect (fs_fats s p) \<and> f_buf (fs_fats t p) = b \<and> view content p t = (view content p s)(f_sect (fs_fats s p) := b)"
proof -
  let ?t = "upd_fat p (\<lambda>f. f\<lparr>f_buf := b, f_flags := f_flags f OR FAT_BUF_DIRTY\<rparr>) s"
  have "fs_then (set_buf p b) (set_flag p FAT_BUF_DIRTY) s = Some (Inr (), ?t)"
    by (simp add: set_buf_def set_flag_def fat_run upd_fat_def)
  moreover have "buf_frame p s ?t"
    unfolding buf_frame_def
    by (rule exI [of _ b], rule exI [of _ "f_sect (fs_fats s p)"], rule exI [of _ "f_flags (fs_fats s p) OR FAT_BUF_DIRTY"], rule exI [of _ "fs_disk s"])
      (simp add: upd_fat_def flag_bits')
  moreover have "vol_ok content p ?t" using assms by (simp add: vol_ok_def dirty_def flag_bits')
  moreover have "view content p ?t = (view content p s)(f_sect (fs_fats s p) := b)" by (auto simp: view_def)
  ultimately show ?thesis by (intro exI [of _ ?t]) simp
qed

lemma view_length: "vol_ok content p s \<Longrightarrow> length (view content p s n) = 512"
  by (auto simp: view_def vol_ok_def usable_def)

end
