(* ===== verification/Fat_Chains.thy ===== *)
theory Fat_Chains
  imports Fat_Buffer
begin

section \<open>The allocation table as a function\<close>

text \<open>
  \<open>table\<close> is the table a volume works with, read through the buffer; \<open>mirror_of\<close> the second copy. The operations of
  \<^verbatim>\<open>libs/fat32/fat.c\<close> on cluster chains are described on that function.
\<close>

definition entry_in :: "('d \<Rightarrow> 32 word \<Rightarrow> 8 word list) \<Rightarrow> nat \<Rightarrow> 'd fat_state \<Rightarrow> 32 word \<Rightarrow> 32 word \<Rightarrow> 32 word" where
  "entry_in content p s base c = the (rd32 (view content p s (base + c div 128)) (4 * unat (c mod 128))) AND 0x0FFFFFFF"

abbreviation table :: "('d \<Rightarrow> 32 word \<Rightarrow> 8 word list) \<Rightarrow> nat \<Rightarrow> 'd fat_state \<Rightarrow> 32 word \<Rightarrow> 32 word" where
  "table content p s \<equiv> entry_in content p s (f_fat_sect0 (fs_fats s p))"

abbreviation mirror_of :: "('d \<Rightarrow> 32 word \<Rightarrow> 8 word list) \<Rightarrow> nat \<Rightarrow> 'd fat_state \<Rightarrow> 32 word \<Rightarrow> 32 word" where
  "mirror_of content p s \<equiv> entry_in content p s (f_fat_sect1 (fs_fats s p))"

text \<open>The two copies and the information sector do not overlap, and sector 0 belongs to neither.\<close>

definition in_table :: "32 word \<Rightarrow> 32 word \<Rightarrow> 32 word \<Rightarrow> bool" where
  "in_table base cnt n \<longleftrightarrow> (\<exists>c < cnt. n = base + c div 128)"

definition layout_ok :: "'d Fat \<Rightarrow> bool" where
  "layout_ok fat \<longleftrightarrow>
     (let cnt = f_clust_cnt fat; b0 = f_fat_sect0 fat; b1 = f_fat_sect1 fat; info = f_info_sect fat in
      cnt \<le> 0x0FFFFFF7 \<and> info \<noteq> 0 \<and> \<not> in_table b0 cnt 0 \<and> \<not> in_table b0 cnt info \<and>
      (b1 \<noteq> 0 \<longrightarrow> \<not> in_table b1 cnt 0 \<and> \<not> in_table b1 cnt info \<and> (\<forall>n. in_table b0 cnt n \<longrightarrow> \<not> in_table b1 cnt n)))"

lemma in_tableI: "c < cnt \<Longrightarrow> in_table base cnt (base + c div 128)"
  by (auto simp: in_table_def)

lemma layout_sectors:
  assumes "layout_ok fat" "c < f_clust_cnt fat"
  shows "f_fat_sect0 fat + c div 128 \<noteq> 0" "f_fat_sect0 fat + c div 128 \<noteq> f_info_sect fat"
    "f_fat_sect1 fat \<noteq> 0 \<Longrightarrow> f_fat_sect1 fat + c div 128 \<noteq> 0" "f_fat_sect1 fat \<noteq> 0 \<Longrightarrow> f_fat_sect1 fat + c div 128 \<noteq> f_info_sect fat"
    "f_fat_sect1 fat \<noteq> 0 \<Longrightarrow> c' < f_clust_cnt fat \<Longrightarrow> f_fat_sect0 fat + c div 128 \<noteq> f_fat_sect1 fat + c' div 128"
  using assms in_tableI [of c "f_clust_cnt fat"] in_tableI [of c' "f_clust_cnt fat"]
  by (auto simp: layout_ok_def Let_def) metis+

text \<open>The position of an entry determines its cluster.\<close>

lemma slot_inj:
  fixes c c' :: "32 word"
  assumes "base + c div 128 = base + c' div 128" "4 * unat (c mod 128) = 4 * unat (c' mod 128)"
  shows "c = c'"
proof -
  have "c div 128 = c' div 128" "c mod 128 = c' mod 128" using assms unsigned_word_eqI [of "c mod 128" "c' mod 128", where 'a = nat] by simp_all
  then show ?thesis by (metis div_mult_mod_eq)
qed

lemma slot_in_sector: "4 * unat ((c :: 32 word) mod 128) + 3 < 512"
proof -
  have "unat (c mod 128) < 128" by (simp add: unat_mod)
  then show ?thesis by simp
qed

subsection \<open>Reading and writing entries\<close>

lemma get_fat_spec:
  assumes "vol_ok content p s" "layout_ok (fs_fats s p)" "c < f_clust_cnt (fs_fats s p)"
  shows "\<exists>t. get_fat p c s = Some (case clust_kind (f_clust_cnt (fs_fats s p)) (table content p s c) of
        None \<Rightarrow> Inl FAT_ERR_BROKEN | Some flags \<Rightarrow> Inr (table content p s c, flags), t) \<and>
    vol_ok content p t \<and> buf_frame p s t \<and> (\<forall>m. m \<noteq> 0 \<longrightarrow> view content p t m = view content p s m) \<and>
    f_sect (fs_fats t p) = f_fat_sect0 (fs_fats s p) + c div 128"
proof -
  let ?n = "f_fat_sect0 (fs_fats s p) + c div 128"
  obtain t where t: "update_buf p ?n s = Some (Inr (), t)" "vol_ok content p t" "buf_frame p s t"
    "f_buf (fs_fats t p) = view content p s ?n" "\<forall>m. m \<noteq> 0 \<longrightarrow> view content p t m = view content p s m" "f_sect (fs_fats t p) = ?n"
    using update_buf_spec [OF assms(1), of ?n] by blast
  obtain v where v: "rd32 (view content p s ?n) (4 * unat (c mod 128)) = Some v"
    using rd_inside(3) [of "4 * unat (c mod 128)" "view content p s ?n"] view_length [OF assms(1)] slot_in_sector [of c] by auto
  have e: "table content p s c = v AND 0x0FFFFFFF" using v by (simp add: entry_in_def)
  have "get_fat p c s = Some (case clust_kind (f_clust_cnt (fs_fats s p)) (v AND 0x0FFFFFFF) of
        None \<Rightarrow> Inl FAT_ERR_BROKEN | Some flags \<Rightarrow> Inr (v AND 0x0FFFFFFF, flags), t)"
    using t v frame_same [OF t(3)] by (simp add: get_fat_def fat_run split: option.split)
  then show ?thesis using t unfolding e by blast
qed

lemma keep_nibble: "((x AND 0xF0000000) OR (v AND 0x0FFFFFFF)) AND 0x0FFFFFFF = (v :: 32 word) AND 0x0FFFFFFF"
proof -
  have m: "(0xF0000000 :: 32 word) AND 0x0FFFFFFF = 0" by simp
  have "((x AND 0xF0000000) OR (v AND 0x0FFFFFFF)) AND 0x0FFFFFFF = (x AND (0xF0000000 AND 0x0FFFFFFF)) OR (v AND (0x0FFFFFFF AND 0x0FFFFFFF))"
    by (simp only: bit.conj_disj_distrib2 and.assoc)
  then show ?thesis unfolding m by simp
qed

text \<open>One copy: the entry changes, nothing else in the copy or outside its sector does.\<close>

lemma put_fat2_spec:
  assumes "vol_ok content p s" "base + c div 128 \<noteq> 0"
  shows "\<exists>t. put_fat2 p base c v s = Some (Inr (), t) \<and> vol_ok content p t \<and> buf_frame p s t \<and>
    (\<forall>m. m \<noteq> 0 \<longrightarrow> m \<noteq> base + c div 128 \<longrightarrow> view content p t m = view content p s m) \<and>
    entry_in content p t base c = v AND 0x0FFFFFFF \<and>
    (\<forall>c'. c' \<noteq> c \<longrightarrow> base + c' div 128 \<noteq> 0 \<longrightarrow> entry_in content p t base c' = entry_in content p s base c')"
proof -
  let ?n = "base + c div 128" and ?i = "4 * unat (c mod 128)"
  obtain u where u: "update_buf p ?n s = Some (Inr (), u)" "vol_ok content p u" "buf_frame p s u" "f_sect (fs_fats u p) = ?n"
    "f_buf (fs_fats u p) = view content p s ?n" "\<forall>m. m \<noteq> 0 \<longrightarrow> view content p u m = view content p s m"
    using update_buf_spec [OF assms(1), of ?n] by blast
  let ?b = "view content p s ?n"
  have len: "length ?b = 512" using view_length [OF assms(1)] .
  obtain x where x: "rd32 ?b ?i = Some x" using rd_inside(3) [of ?i ?b] len slot_in_sector [of c] by auto
  obtain b where b: "wr32 ?b ?i ((x AND 0xF0000000) OR (v AND 0x0FFFFFFF)) = Some b"
    using wr_inside(3) [of ?i ?b] len slot_in_sector [of c] by auto
  have lb: "length b = 512" using wr_length(3) [OF b] len by simp
  obtain t where t: "fs_then (set_buf p b) (set_flag p FAT_BUF_DIRTY) u = Some (Inr (), t)" "vol_ok content p t" "buf_frame p u t"
    "view content p t = (view content p u)(?n := b)"
    using modify_buf_spec [OF u(2) lb] u(4) by auto
  have run: "put_fat2 p base c v s = Some (Inr (), t)"
    using u(1,5) x b t(1) by (simp add: put_fat2_def fat_run)
  have own: "entry_in content p t base c = v AND 0x0FFFFFFF"
    using rd32_wr32 [OF b] by (simp add: entry_in_def t(4) keep_nibble)
  have other: "entry_in content p t base c' = entry_in content p s base c'" if "c' \<noteq> c" "base + c' div 128 \<noteq> 0" for c'
  proof (cases "base + c' div 128 = ?n")
    case True
    have "4 * unat (c' mod 128) \<noteq> ?i" using slot_inj [of base c' c] True that(1) by auto
    then have "?i + 4 \<le> 4 * unat (c' mod 128) \<or> 4 * unat (c' mod 128) + 4 \<le> ?i" by auto
    then have "rd32 b (4 * unat (c' mod 128)) = rd32 ?b (4 * unat (c' mod 128))" by (rule rd32_wr32_other [OF b])
    then show ?thesis by (simp add: entry_in_def t(4) True)
  next
    case False
    then show ?thesis using u(6) that(2) by (simp add: entry_in_def t(4))
  qed
  show ?thesis
    using run t(2) frame_trans [OF u(3) t(3)] u(6) own other by (intro exI [of _ t]) (simp add: t(4))
qed

text \<open>Both copies. \<open>elsewhere\<close> are the sectors outside of them.\<close>

definition elsewhere :: "'d Fat \<Rightarrow> 32 word \<Rightarrow> bool" where
  "elsewhere fat m \<longleftrightarrow> m \<noteq> 0 \<and> \<not> in_table (f_fat_sect0 fat) (f_clust_cnt fat) m \<and>
     (f_fat_sect1 fat \<noteq> 0 \<longrightarrow> \<not> in_table (f_fat_sect1 fat) (f_clust_cnt fat) m)"

lemma put_fat_spec:
  assumes "vol_ok content p s" "layout_ok (fs_fats s p)" "c < f_clust_cnt (fs_fats s p)"
  shows "\<exists>t. put_fat p c v s = Some (Inr (), t) \<and> vol_ok content p t \<and> buf_frame p s t \<and>
    (\<forall>m. elsewhere (fs_fats s p) m \<longrightarrow> view content p t m = view content p s m) \<and>
    (\<forall>c' < f_clust_cnt (fs_fats s p). table content p t c' = (if c' = c then v AND 0x0FFFFFFF else table content p s c') \<and>
      (f_fat_sect1 (fs_fats s p) \<noteq> 0 \<longrightarrow> mirror_of content p t c' = (if c' = c then v AND 0x0FFFFFFF else mirror_of content p s c')))"
proof (cases "f_fat_sect1 (fs_fats s p) = 0")
  case True
  let ?b = "f_fat_sect0 (fs_fats s p)"
  note L = layout_sectors [OF assms(2)]
  obtain t where t: "put_fat2 p ?b c v s = Some (Inr (), t)" "vol_ok content p t" "buf_frame p s t"
    "\<forall>m. m \<noteq> 0 \<longrightarrow> m \<noteq> ?b + c div 128 \<longrightarrow> view content p t m = view content p s m"
    "entry_in content p t ?b c = v AND 0x0FFFFFFF"
    "\<forall>c'. c' \<noteq> c \<longrightarrow> ?b + c' div 128 \<noteq> 0 \<longrightarrow> entry_in content p t ?b c' = entry_in content p s ?b c'"
    using put_fat2_spec [OF assms(1) L(1) [OF assms(3)], of v] by blast
  have "put_fat p c v s = Some (Inr (), t)" using t(1) True by (simp add: put_fat_def fat_run)
  moreover have "f_fat_sect0 (fs_fats t p) = ?b" using frame_same [OF t(3)] by simp
  moreover have "view content p t m = view content p s m" if "elsewhere (fs_fats s p) m" for m
    using that t(4) in_tableI [OF assms(3), of ?b] by (auto simp: elsewhere_def)
  ultimately show ?thesis using t(2,3,5,6) L(1) True by (intro exI [of _ t]) auto
next
  case False
  let ?b0 = "f_fat_sect0 (fs_fats s p)" and ?b1 = "f_fat_sect1 (fs_fats s p)"
  note L = layout_sectors [OF assms(2)]
  obtain u where u: "put_fat2 p ?b1 c v s = Some (Inr (), u)" "vol_ok content p u" "buf_frame p s u"
    "\<forall>m. m \<noteq> 0 \<longrightarrow> m \<noteq> ?b1 + c div 128 \<longrightarrow> view content p u m = view content p s m"
    "entry_in content p u ?b1 c = v AND 0x0FFFFFFF"
    "\<forall>c'. c' \<noteq> c \<longrightarrow> ?b1 + c' div 128 \<noteq> 0 \<longrightarrow> entry_in content p u ?b1 c' = entry_in content p s ?b1 c'"
    using put_fat2_spec [OF assms(1) L(3) [OF assms(3) False], of v] by blast
  obtain t where t: "put_fat2 p ?b0 c v u = Some (Inr (), t)" "vol_ok content p t" "buf_frame p u t"
    "\<forall>m. m \<noteq> 0 \<longrightarrow> m \<noteq> ?b0 + c div 128 \<longrightarrow> view content p t m = view content p u m"
    "entry_in content p t ?b0 c = v AND 0x0FFFFFFF"
    "\<forall>c'. c' \<noteq> c \<longrightarrow> ?b0 + c' div 128 \<noteq> 0 \<longrightarrow> entry_in content p t ?b0 c' = entry_in content p u ?b0 c'"
    using put_fat2_spec [OF u(2) L(1) [OF assms(3)], of v] by blast
  note fr = frame_trans [OF u(3) t(3)]
  have run: "put_fat p c v s = Some (Inr (), t)" using t(1) u(1) False by (simp add: put_fat_def fat_run)
  have bs: "f_fat_sect0 (fs_fats t p) = ?b0" "f_fat_sect1 (fs_fats t p) = ?b1" using frame_same [OF fr] by simp_all
  have e0: "entry_in content p u ?b0 c' = entry_in content p s ?b0 c'" if "c' < f_clust_cnt (fs_fats s p)" for c'
    using u(4) L(1) [OF that] L(5) [OF that False assms(3)] by (simp add: entry_in_def)
  have e1: "entry_in content p t ?b1 c' = entry_in content p u ?b1 c'" if "c' < f_clust_cnt (fs_fats s p)" for c'
    using t(4) L(3) [OF that False] L(5) [OF assms(3) False that] by (simp add: entry_in_def)
  have tab: "table content p t c' = (if c' = c then v AND 0x0FFFFFFF else table content p s c') \<and>
      (?b1 \<noteq> 0 \<longrightarrow> mirror_of content p t c' = (if c' = c then v AND 0x0FFFFFFF else mirror_of content p s c'))"
    if "c' < f_clust_cnt (fs_fats s p)" for c'
    using that t(5,6) u(5,6) L(1) [OF that] L(3) [OF that False] e0 e1 unfolding bs by auto
  have view: "view content p t m = view content p s m" if "elsewhere (fs_fats s p) m" for m
  proof -
    have "m \<noteq> 0" "m \<noteq> ?b0 + c div 128" "m \<noteq> ?b1 + c div 128"
      using that in_tableI [OF assms(3), of ?b0] in_tableI [OF assms(3), of ?b1] False by (auto simp: elsewhere_def)
    then show ?thesis using t(4) u(4) by simp
  qed
  show ?thesis using run t(2) fr view tab by (intro exI [of _ t]) blast
qed

subsection \<open>Writing back everything\<close>

text \<open>\<^verbatim>\<open>sync_fs\<close> leaves the disk in the state the volume shows, with the counters in the information sector.\<close>

lemma sync_fs_clean:
  assumes "vol_ok content p s" "f_flags (fs_fats s p) AND FAT_INFO_DIRTY = 0"
  shows "\<exists>t. sync_fs p s = Some (Inr (), t) \<and> vol_ok content p t \<and> buf_frame p s t \<and> \<not> dirty p t \<and> view content p t = view content p s"
proof -
  obtain t where t: "sync_buf p s = Some (Inr (), t)" "vol_ok content p t" "buf_frame p s t" "\<not> dirty p t" "view content p t = view content p s"
    using sync_buf_spec [OF assms(1)] by blast
  have "f_flags (fs_fats t p) AND FAT_INFO_DIRTY = 0" using flag_other [OF frame_same(20) [OF t(3)]] assms(2) by simp
  then have "sync_fs p s = Some (Inr (), t)" using t(1) by (simp add: sync_fs_def fat_run)
  then show ?thesis using t by blast
qed

definition info_saved :: "('d \<Rightarrow> 32 word \<Rightarrow> 8 word list) \<Rightarrow> nat \<Rightarrow> 'd fat_state \<Rightarrow> bool" where
  "info_saved content p s \<longleftrightarrow> (let fat = fs_fats s p; b = content (fs_disk s) (f_info_sect fat) in
     rd32 b 488 = Some (f_free_cnt fat) \<and> rd32 b 492 = Some (f_last_used fat))"

text \<open>What the operations that change the counters may change.\<close>

definition frame_info :: "nat \<Rightarrow> 'd fat_state \<Rightarrow> 'd fat_state \<Rightarrow> bool" where
  "frame_info p s t \<longleftrightarrow> (\<exists>b n fl lu fc d. t = (upd_fat p (\<lambda>f. f\<lparr>f_last_used := lu, f_free_cnt := fc, f_buf := b, f_sect := n, f_flags := fl\<rparr>) s)\<lparr>fs_disk := d\<rparr>)"

lemma frame_infoI:
  "t = (upd_fat p (\<lambda>f. f\<lparr>f_last_used := lu, f_free_cnt := fc, f_buf := b, f_sect := n, f_flags := fl\<rparr>) s)\<lparr>fs_disk := d\<rparr> \<Longrightarrow> frame_info p s t"
  unfolding frame_info_def by blast

lemma frame_info_trans [trans]: "frame_info p s t \<Longrightarrow> frame_info p t u \<Longrightarrow> frame_info p s u"
proof -
  assume "frame_info p s t" "frame_info p t u"
  then obtain b n fl lu fc d b' n' fl' lu' fc' d' where
    "t = (upd_fat p (\<lambda>f. f\<lparr>f_last_used := lu, f_free_cnt := fc, f_buf := b, f_sect := n, f_flags := fl\<rparr>) s)\<lparr>fs_disk := d\<rparr>"
    "u = (upd_fat p (\<lambda>f. f\<lparr>f_last_used := lu', f_free_cnt := fc', f_buf := b', f_sect := n', f_flags := fl'\<rparr>) t)\<lparr>fs_disk := d'\<rparr>"
    unfolding frame_info_def by (elim exE) (rule that)
  then have "u = (upd_fat p (\<lambda>f. f\<lparr>f_last_used := lu', f_free_cnt := fc', f_buf := b', f_sect := n', f_flags := fl'\<rparr>) s)\<lparr>fs_disk := d'\<rparr>"
    by (simp add: upd_fat_def)
  then show "frame_info p s u" by (rule frame_infoI)
qed

lemma frame_into_info: "buf_frame p s t \<Longrightarrow> frame_info p s t"
proof -
  assume "buf_frame p s t"
  then obtain b n fl d where t: "t = (upd_fat p (\<lambda>f. f\<lparr>f_buf := b, f_sect := n, f_flags := fl\<rparr>) s)\<lparr>fs_disk := d\<rparr>"
    unfolding buf_frame_def by blast
  show "frame_info p s t"
    by (rule frame_infoI [where lu = "f_last_used (fs_fats s p)" and fc = "f_free_cnt (fs_fats s p)" and b = b and n = n and fl = fl and d = d])
      (simp add: t upd_fat_def)
qed

lemma frame_info_same:
  assumes "frame_info p s t"
  shows "f_ops (fs_fats t p) = f_ops (fs_fats s p)" "f_clust_msk (fs_fats t p) = f_clust_msk (fs_fats s p)"
    "f_clust_cnt (fs_fats t p) = f_clust_cnt (fs_fats s p)" "f_info_sect (fs_fats t p) = f_info_sect (fs_fats s p)"
    "f_fat_sect0 (fs_fats t p) = f_fat_sect0 (fs_fats s p)" "f_fat_sect1 (fs_fats t p) = f_fat_sect1 (fs_fats s p)"
    "f_data_sect (fs_fats t p) = f_data_sect (fs_fats s p)" "f_root_clust (fs_fats t p) = f_root_clust (fs_fats s p)"
    "f_clust_shift (fs_fats t p) = f_clust_shift (fs_fats s p)" "fs_dirs t = fs_dirs s" "fs_files t = fs_files s"
    "p' \<noteq> p \<Longrightarrow> fs_fats t p' = fs_fats s p'"
    "layout_ok (fs_fats t p) \<longleftrightarrow> layout_ok (fs_fats s p)" "elsewhere (fs_fats t p) m \<longleftrightarrow> elsewhere (fs_fats s p) m"
  using assms by (auto simp: frame_info_def layout_ok_def elsewhere_def)

lemma sync_fs_info:
  assumes "vol_ok content p s" "layout_ok (fs_fats s p)" "f_flags (fs_fats s p) AND FAT_INFO_DIRTY \<noteq> 0"
  shows "\<exists>t. sync_fs p s = Some (Inr (), t) \<and> vol_ok content p t \<and> frame_info p s t \<and> \<not> dirty p t \<and>
    (\<forall>m. m \<noteq> 0 \<longrightarrow> m \<noteq> f_info_sect (fs_fats s p) \<longrightarrow> view content p t m = view content p s m) \<and> info_saved content p t \<and>
    f_free_cnt (fs_fats t p) = f_free_cnt (fs_fats s p) \<and> f_last_used (fs_fats t p) = f_last_used (fs_fats s p)"
proof -
  obtain s1 where s1: "sync_buf p s = Some (Inr (), s1)" "vol_ok content p s1" "buf_frame p s s1" "view content p s1 = view content p s"
    using sync_buf_spec [OF assms(1)] by blast
  note f1 = frame_same [OF s1(3)]
  let ?n = "f_info_sect (fs_fats s p)"
  have i1: "f_flags (fs_fats s1 p) AND FAT_INFO_DIRTY \<noteq> 0" using flag_other [OF f1(20)] assms(3) by simp
  obtain s2 where s2: "update_buf p ?n s1 = Some (Inr (), s2)" "vol_ok content p s2" "buf_frame p s1 s2" "f_sect (fs_fats s2 p) = ?n"
    "f_buf (fs_fats s2 p) = view content p s1 ?n" "\<forall>m. m \<noteq> 0 \<longrightarrow> view content p s2 m = view content p s1 m"
    using update_buf_spec [OF s1(2), of ?n] by blast
  note f2 = frame_same [OF frame_trans [OF s1(3) s2(3)]]
  let ?b0 = "f_buf (fs_fats s2 p)"
  have l0: "length ?b0 = 512" using s2(2) by (simp add: vol_ok_def)
  obtain b1 where b1: "wr32 ?b0 492 (f_last_used (fs_fats s2 p)) = Some b1" using wr_inside(3) [of 492 ?b0] l0 by auto
  have l1: "length b1 = 512" using wr_length(3) [OF b1] l0 by simp
  obtain b where b: "wr32 b1 488 (f_free_cnt (fs_fats s2 p)) = Some b" using wr_inside(3) [of 488 b1] l1 by auto
  have lb: "length b = 512" using wr_length(3) [OF b] l1 by simp
  have rd: "rd32 b 488 = Some (f_free_cnt (fs_fats s2 p))" "rd32 b 492 = Some (f_last_used (fs_fats s2 p))"
    using rd32_wr32 [OF b] rd32_wr32_other [OF b, of 492] rd32_wr32 [OF b1] by simp_all
  let ?s3 = "upd_fat p (\<lambda>f. f\<lparr>f_buf := b, f_flags := f_flags f OR FAT_BUF_DIRTY\<rparr>) s2"
  obtain s3 where s3: "fs_then (set_buf p b) (set_flag p FAT_BUF_DIRTY) s2 = Some (Inr (), s3)" "vol_ok content p s3" "buf_frame p s2 s3"
    "f_sect (fs_fats s3 p) = ?n" "f_buf (fs_fats s3 p) = b" "view content p s3 = (view content p s2)(?n := b)"
    using modify_buf_spec [OF s2(2) lb] s2(4) by auto
  have e3: "s3 = ?s3" using s3(1) by (simp add: set_buf_def set_flag_def fat_run upd_fat_def)
  obtain s4 where s4: "sync_buf p s3 = Some (Inr (), s4)" "vol_ok content p s4" "buf_frame p s3 s4" "\<not> dirty p s4" "view content p s4 = view content p s3"
    "f_sect (fs_fats s4 p) = ?n" "f_buf (fs_fats s4 p) = b"
    using sync_buf_spec [OF s3(2)] s3(4,5) by auto
  let ?t = "upd_fat p (\<lambda>f. f\<lparr>f_flags := f_flags f AND NOT FAT_INFO_DIRTY\<rparr>) s4"
  have sw: "f\<lparr>f_flags := x, f_buf := y\<rparr> = f\<lparr>f_buf := y, f_flags := x\<rparr>" for f :: "'a Fat" and x y by simp
  have run: "sync_fs p s = Some (Inr (), ?t)"
    using s1(1) s2(1) b1 b s4(1) i1 f1(4) unfolding e3
    by (simp add: sw sync_fs_def set_buf_def set_flag_def clear_flag_def fat_run upd_fat_def)
  have fr: "buf_frame p s s4" using s1(3) s2(3) s3(3) s4(3) by (blast intro: frame_trans)
  have "frame_info p s4 ?t"
    by (rule frame_infoI [where lu = "f_last_used (fs_fats s4 p)" and fc = "f_free_cnt (fs_fats s4 p)" and b = "f_buf (fs_fats s4 p)"
        and n = "f_sect (fs_fats s4 p)" and fl = "f_flags (fs_fats s4 p) AND NOT FAT_INFO_DIRTY" and d = "fs_disk s4"]) (simp add: upd_fat_def)
  then have fi: "frame_info p s ?t" using frame_into_info [OF fr] frame_info_trans by blast
  have c: "((x :: 8 word) AND NOT 2) AND 1 = x AND 1" for x by (rule bit_word_eqI) (auto simp: bit_simps)
  have d: "dirty p ?t \<longleftrightarrow> dirty p s4" using c by (simp add: dirty_def)
  have ok: "vol_ok content p ?t" using s4(2) d by (simp add: vol_ok_def)
  have nz: "?n \<noteq> 0" using assms(2) by (simp add: layout_ok_def Let_def)
  have saved: "info_saved content p ?t"
  proof -
    have "content (fs_disk s4) ?n = b" using s4(2,4,6,7) nz by (auto simp: vol_ok_def)
    then show ?thesis using rd frame_same [OF fr] frame_same [OF frame_trans [OF s3(3) s4(3)]]
      by (simp add: info_saved_def Let_def)
  qed
  have vw: "view content p ?t m = view content p s m" if "m \<noteq> 0" "m \<noteq> ?n" for m
  proof -
    have "view content p ?t m = view content p s4 m" by (simp add: view_def)
    then show ?thesis using that s4(5) s3(6) s2(6) s1(4) by simp
  qed
  show ?thesis using run ok fi d s4(4) vw saved frame_same [OF fr] by (intro exI [of _ ?t]) simp
qed

end
