(* ===== verification/Fat_Example.thy ===== *)
theory Fat_Example
  imports Fat_Chains
begin

section \<open>A small volume\<close>

text \<open>
  A volume of eight clusters of one sector on a disk in memory, with one chain of the clusters 2 and 3. It satisfies the
  invariants of the properties of the library.
\<close>

type_synonym ram_disk = "32 word \<Rightarrow> 8 word list"

definition ram_content :: "ram_disk \<Rightarrow> 32 word \<Rightarrow> 8 word list" where
  "ram_content d n = take 512 (d n @ replicate 512 0)"

definition ram_ops :: "ram_disk DiskOps" where
  "ram_ops = \<lparr>op_read = (\<lambda>b n d. (True, ram_content d n, d)), op_write = (\<lambda>b n d. (True, d(n := b)))\<rparr>"

lemma ram_reliable: "reliable ram_ops ram_content"
  by (auto simp: reliable_def ram_ops_def ram_content_def)

lemma ram_usable: "usable ram_content d"
  by (auto simp: usable_def ram_content_def min_def)

definition demo_fat_table :: "8 word list" where
  "demo_fat_table = [0, 0, 0, 0, 0, 0, 0, 0, 3, 0, 0, 0, 0xFF, 0xFF, 0xFF, 0x0F] @ replicate 496 0"

definition demo_sectors :: "32 word \<Rightarrow> 8 word list" where
  "demo_sectors n = (if n = 2 \<or> n = 3 then demo_fat_table else replicate 512 (ucast n))"

definition demo_fat :: "'d DiskOps \<Rightarrow> 'd Fat" where
  "demo_fat ops = \<lparr>f_next = None, f_ops = ops, f_clust_msk = 0, f_clust_cnt = 8, f_info_sect = 1, f_fat_sect0 = 2, f_fat_sect1 = 3,
     f_data_sect = 4, f_root_clust = 4, f_last_used = 3, f_free_cnt = 4, f_sect = 2, f_buf = demo_fat_table, f_flags = 0, f_clust_shift = 0,
     f_name_len = 0, f_name = []\<rparr>"

definition demo_file :: File where
  "demo_file = \<lparr>fl_fat = Some 0, fl_dir_sect = 6, fl_sclust = 2, fl_clust = 2, fl_sect = 4, fl_size = 600, fl_offset = 0, fl_dir_idx = 0,
     fl_attr = 0, fl_flags = 3, fl_buf = replicate 512 4\<rparr>"

definition demo_dir :: Dir where
  "demo_dir = \<lparr>d_fat = None, d_sclust = 0, d_clust = 0, d_sect = 0, d_idx = 0\<rparr>"

definition volume_on :: "'d DiskOps \<Rightarrow> 'd \<Rightarrow> 'd fat_state" where
  "volume_on ops d = \<lparr>fs_fats = (\<lambda>_. demo_fat ops), fs_dirs = (\<lambda>_. demo_dir), fs_files = (\<lambda>_. demo_file), fs_list = Some 0, fs_buf = [], fs_len = 0,
     fs_crc = 0, fs_loc = None, fs_disk = d\<rparr>"

lemma demo_sectors_length: "length (demo_sectors n) = 512"
  by (simp add: demo_sectors_def demo_fat_table_def)

lemma volume_vol_ok:
  assumes "reliable ops content" "content d = demo_sectors"
  shows "vol_ok content 0 (volume_on ops d)"
  using assms demo_sectors_length
  by (simp add: vol_ok_def dirty_def volume_on_def demo_fat_def usable_def) (simp add: demo_sectors_def demo_fat_table_def)

lemma demo_clusters: "c < 8 \<Longrightarrow> c = 0 \<or> c = 1 \<or> c = 2 \<or> c = 3 \<or> c = 4 \<or> c = 5 \<or> c = 6 \<or> c = (7 :: 32 word)"
proof -
  assume "c < 8"
  then have "unat c < 8" by (simp add: word_less_nat_alt)
  then have "unat c = 0 \<or> unat c = 1 \<or> unat c = 2 \<or> unat c = 3 \<or> unat c = 4 \<or> unat c = 5 \<or> unat c = 6 \<or> unat c = 7" by arith
  then show ?thesis by (elim disjE) (drule arg_cong [of _ _ "of_nat :: nat \<Rightarrow> 32 word"], simp)+
qed

lemma demo_div: "c < 8 \<Longrightarrow> c div 128 = (0 :: 32 word)"
  by (drule demo_clusters) auto

lemma volume_layout: "layout_ok (fs_fats (volume_on ops d) 0)"
proof -
  have "in_table b 8 n \<longleftrightarrow> n = b" for b n
  proof
    assume "in_table b 8 n" then show "n = b" using demo_div by (auto simp: in_table_def)
  next
    assume "n = b" then show "in_table b 8 n" using in_tableI [of 0 8 b] by simp
  qed
  then show ?thesis by (simp add: layout_ok_def volume_on_def demo_fat_def)
qed

lemma volume_entries:
  "c < 8 \<Longrightarrow> table content 0 (volume_on ops d) c = (if c = 2 then 3 else if c = 3 then 0x0FFFFFFF else 0)"
proof -
  assume "c < 8"
  then have "c div 128 = 0" "c = 0 \<or> c = 1 \<or> c = 2 \<or> c = 3 \<or> c = 4 \<or> c = 5 \<or> c = 6 \<or> c = 7" using demo_div demo_clusters by blast+
  then show ?thesis
    by (elim disjE) (simp_all add: entry_in_def view_def volume_on_def demo_fat_def rd32_def demo_fat_table_def nth_append)
qed

definition demo_volume :: "ram_disk fat_state" where
  "demo_volume = volume_on ram_ops demo_sectors"

lemma demo_content: "ram_content demo_sectors = demo_sectors"
  using demo_sectors_length by (auto simp: ram_content_def)

lemmas demo_vol_ok = volume_vol_ok [where content = ram_content and d = demo_sectors, OF ram_reliable demo_content, folded demo_volume_def]
lemmas demo_layout = volume_layout [of ram_ops demo_sectors, folded demo_volume_def]
lemmas demo_entries = volume_entries [of _ ram_content ram_ops demo_sectors, folded demo_volume_def]

end
