(* ===== verification/Fat_Allocation.thy ===== *)
theory Fat_Allocation
  imports Fat_Example
begin

section \<open>Freeing and extending cluster chains\<close>

text \<open>
  \<open>fat_chain T n cs\<close>: the clusters \<open>cs\<close> are linked by the table \<open>T\<close> of \<open>n\<close> entries, and the last one carries an end mark.
  \<open>evolves\<close> is the effect of a sequence of table operations: the entries in the map change, the rest of the volume does not.
\<close>

fun fat_chain :: "(32 word \<Rightarrow> 32 word) \<Rightarrow> 32 word \<Rightarrow> 32 word list \<Rightarrow> bool" where
  "fat_chain T n [] \<longleftrightarrow> False"
| "fat_chain T n [c] \<longleftrightarrow> 2 \<le> c \<and> c < n \<and> 0x0FFFFFF8 \<le> T c"
| "fat_chain T n (c # d # cs) \<longleftrightarrow> 2 \<le> c \<and> c < n \<and> T c = d \<and> fat_chain T n (d # cs)"

lemma fat_chain_cong: "\<forall>x \<in> set cs. T x = U x \<Longrightarrow> fat_chain T n cs \<longleftrightarrow> fat_chain U n cs"
  by (induction T n cs rule: fat_chain.induct) auto

lemma fat_chain_in: "fat_chain T n cs \<Longrightarrow> x \<in> set cs \<Longrightarrow> 2 \<le> x \<and> x < n"
  by (induction T n cs rule: fat_chain.induct) auto

definition evolves :: "('d \<Rightarrow> 32 word \<Rightarrow> 8 word list) \<Rightarrow> nat \<Rightarrow> 'd fat_state \<Rightarrow> 'd fat_state \<Rightarrow> (32 word \<rightharpoonup> 32 word) \<Rightarrow> bool" where
  "evolves content p s t U \<longleftrightarrow> vol_ok content p t \<and> frame_info p s t \<and>
     f_flags (fs_fats t p) AND FAT_INFO_DIRTY = f_flags (fs_fats s p) AND FAT_INFO_DIRTY \<and>
     (\<forall>m. elsewhere (fs_fats s p) m \<longrightarrow> view content p t m = view content p s m) \<and>
     (\<forall>c < f_clust_cnt (fs_fats s p).
       table content p t c = (case U c of None \<Rightarrow> table content p s c | Some v \<Rightarrow> v) \<and>
       (f_fat_sect1 (fs_fats s p) \<noteq> 0 \<longrightarrow> mirror_of content p t c = (case U c of None \<Rightarrow> mirror_of content p s c | Some v \<Rightarrow> v)))"

lemma evolves_trans:
  assumes "evolves content p s t U" "evolves content p t u W"
  shows "evolves content p s u (U ++ W)"
proof -
  note f = frame_info_same [where s = s and t = t and p = p]
  have fi: "frame_info p s t" using assms(1) by (simp add: evolves_def)
  have "frame_info p s u" using assms frame_info_trans [of p s t u] by (simp add: evolves_def)
  then show ?thesis
    using assms f [OF fi] unfolding evolves_def by (auto simp: map_add_def split: option.splits)
qed

lemma get_fat_evolves:
  assumes "vol_ok content p s" "layout_ok (fs_fats s p)" "c < f_clust_cnt (fs_fats s p)"
  shows "\<exists>t. get_fat p c s = Some (case clust_kind (f_clust_cnt (fs_fats s p)) (table content p s c) of
        None \<Rightarrow> Inl FAT_ERR_BROKEN | Some flags \<Rightarrow> Inr (table content p s c, flags), t) \<and>
    evolves content p s t Map.empty \<and> f_free_cnt (fs_fats t p) = f_free_cnt (fs_fats s p) \<and> f_last_used (fs_fats t p) = f_last_used (fs_fats s p)"
proof -
  obtain t where t: "get_fat p c s = Some (case clust_kind (f_clust_cnt (fs_fats s p)) (table content p s c) of
        None \<Rightarrow> Inl FAT_ERR_BROKEN | Some flags \<Rightarrow> Inr (table content p s c, flags), t)"
    "vol_ok content p t" "buf_frame p s t" "\<forall>m. m \<noteq> 0 \<longrightarrow> view content p t m = view content p s m"
    using get_fat_spec [OF assms] by blast
  note f = frame_same [OF t(3)] and L = layout_sectors [OF assms(2)]
  have "evolves content p s t Map.empty"
    unfolding evolves_def
    using t(2,4) frame_into_info [OF t(3)] flag_other [OF f(20)] f(5,6) L(1,3)
    by (simp add: elsewhere_def entry_in_def)
  then show ?thesis using t(1) f(9,10) by blast
qed

lemma put_fat_evolves:
  assumes "vol_ok content p s" "layout_ok (fs_fats s p)" "c < f_clust_cnt (fs_fats s p)"
  shows "\<exists>t. put_fat p c v s = Some (Inr (), t) \<and> evolves content p s t [c \<mapsto> v AND 0x0FFFFFFF] \<and>
    f_free_cnt (fs_fats t p) = f_free_cnt (fs_fats s p) \<and> f_last_used (fs_fats t p) = f_last_used (fs_fats s p)"
proof -
  obtain t where t: "put_fat p c v s = Some (Inr (), t)" "vol_ok content p t" "buf_frame p s t"
    "\<forall>m. elsewhere (fs_fats s p) m \<longrightarrow> view content p t m = view content p s m"
    "\<forall>c' < f_clust_cnt (fs_fats s p). table content p t c' = (if c' = c then v AND 0x0FFFFFFF else table content p s c') \<and>
      (f_fat_sect1 (fs_fats s p) \<noteq> 0 \<longrightarrow> mirror_of content p t c' = (if c' = c then v AND 0x0FFFFFFF else mirror_of content p s c'))"
    using put_fat_spec [OF assms, of v] by (elim exE conjE) (rule that)
  note f = frame_same [OF t(3)]
  have "evolves content p s t [c \<mapsto> v AND 0x0FFFFFFF]"
    unfolding evolves_def using t(2,4,5) frame_into_info [OF t(3)] flag_other [OF f(20)] by simp
  then show ?thesis using t(1) f(9,10) by blast
qed

text \<open>Changing the counters is invisible in the table.\<close>

lemma counters_evolve:
  assumes "vol_ok content p s"
  shows "evolves content p s (upd_fat p (\<lambda>f. f\<lparr>f_last_used := lu, f_free_cnt := fc\<rparr>) s) Map.empty"
proof -
  let ?t = "upd_fat p (\<lambda>f. f\<lparr>f_last_used := lu, f_free_cnt := fc\<rparr>) s"
  have "frame_info p s ?t"
    by (rule frame_infoI [where lu = lu and fc = fc and b = "f_buf (fs_fats s p)" and n = "f_sect (fs_fats s p)" and fl = "f_flags (fs_fats s p)"
        and d = "fs_disk s"]) (simp add: upd_fat_def)
  moreover have "view content p ?t = view content p s" by (auto simp: view_def)
  moreover have "vol_ok content p ?t" using assms by (simp add: vol_ok_def dirty_def)
  ultimately show ?thesis by (simp add: evolves_def entry_in_def)
qed

lemma info_dirty_evolves:
  assumes "vol_ok content p s"
  shows "\<exists>t. set_flag p FAT_INFO_DIRTY s = Some (Inr (), t) \<and> vol_ok content p t \<and> frame_info p s t \<and> view content p t = view content p s \<and>
    f_flags (fs_fats t p) AND FAT_INFO_DIRTY \<noteq> 0 \<and> f_free_cnt (fs_fats t p) = f_free_cnt (fs_fats s p) \<and> f_last_used (fs_fats t p) = f_last_used (fs_fats s p)"
proof -
  let ?t = "upd_fat p (\<lambda>f. f\<lparr>f_flags := f_flags f OR FAT_INFO_DIRTY\<rparr>) s"
  have m: "((x :: 8 word) OR 2) AND 1 = x AND 1" "((x :: 8 word) OR 2) AND 2 = 2" for x by (rule bit_word_eqI; auto simp: bit_simps)+
  have "frame_info p s ?t"
    by (rule frame_infoI [where lu = "f_last_used (fs_fats s p)" and fc = "f_free_cnt (fs_fats s p)" and b = "f_buf (fs_fats s p)"
        and n = "f_sect (fs_fats s p)" and fl = "f_flags (fs_fats s p) OR FAT_INFO_DIRTY" and d = "fs_disk s"]) (simp add: upd_fat_def)
  moreover have "vol_ok content p ?t" using assms by (simp add: vol_ok_def dirty_def m)
  moreover have "view content p ?t = view content p s" by (auto simp: view_def)
  moreover have "set_flag p FAT_INFO_DIRTY s = Some (Inr (), ?t)" by (simp add: set_flag_def fat_run)
  ultimately show ?thesis using m by (intro exI [of _ ?t]) simp
qed

lemma volume_chain: "fat_chain (table content 0 (volume_on ops d)) (f_clust_cnt (fs_fats (volume_on ops d) 0)) [2, 3]"
  using volume_entries [of 2 content ops d] volume_entries [of 3 content ops d] by (simp add: volume_on_def demo_fat_def)

lemmas demo_chain = volume_chain [of ram_content ram_ops demo_sectors, folded demo_volume_def]

subsection \<open>Kinds of entries\<close>

lemma kind_simps:
  "clust_kind n 0 = Some 1"
  "0x0FFFFFF8 \<le> v \<Longrightarrow> clust_kind n v = Some 6"
  "2 \<le> v \<Longrightarrow> v < n \<Longrightarrow> n \<le> 0x0FFFFFF7 \<Longrightarrow> clust_kind n v = Some 2"
proof -
  show "clust_kind n 0 = Some 1" by (simp add: clust_kind_def)
  show "0x0FFFFFF8 \<le> v \<Longrightarrow> clust_kind n v = Some 6" by (auto simp: clust_kind_def)
  assume a: "2 \<le> v" "v < n" "n \<le> 0x0FFFFFF7"
  then have "v < 0x0FFFFFF7" by (meson order.strict_trans2)
  moreover have "v \<noteq> 0" using a(1) by auto
  moreover have "\<not> 0x0FFFFFF8 \<le> v"
  proof
    assume "0x0FFFFFF8 \<le> v"
    then have "(0x0FFFFFF8 :: 32 word) < 0x0FFFFFF7" using calculation(1) by (rule order.strict_trans1)
    then show False by simp
  qed
  ultimately show "clust_kind n v = Some 2" using a by (simp add: clust_kind_def)
qed

lemma kind_free: "clust_kind n v = Some k \<Longrightarrow> k AND CLUST_FREE \<noteq> 0 \<longleftrightarrow> v = 0"
  by (auto simp: clust_kind_def split: if_splits)

subsection \<open>Freeing a chain\<close>

lemma remove_step:
  assumes "vol_ok content p s" "layout_ok (fs_fats s p)" "c < f_clust_cnt (fs_fats s p)"
    and "clust_kind (f_clust_cnt (fs_fats s p)) (table content p s c) = Some k" "k AND (CLUST_BAD OR CLUST_FREE) = 0"
  shows "\<exists>t. remove_loop p c s = (if k AND CLUST_LAST \<noteq> 0 then Some (Inr (), t) else remove_loop p (table content p s c) t) \<and>
    evolves content p s t [c \<mapsto> 0] \<and> f_free_cnt (fs_fats t p) = f_free_cnt (fs_fats s p) + 1 \<and> f_last_used (fs_fats t p) = f_last_used (fs_fats s p)"
proof -
  obtain s1 where s1: "get_fat p c s = Some (Inr (table content p s c, k), s1)" "evolves content p s s1 Map.empty"
    "f_free_cnt (fs_fats s1 p) = f_free_cnt (fs_fats s p)" "f_last_used (fs_fats s1 p) = f_last_used (fs_fats s p)"
    using get_fat_evolves [OF assms(1-3)] assms(4) by auto
  have fi: "frame_info p s s1" and v1: "vol_ok content p s1" using s1(2) by (simp_all add: evolves_def)
  note f1 = frame_info_same [OF fi]
  obtain s2 where s2: "put_fat p c 0 s1 = Some (Inr (), s2)" "evolves content p s1 s2 [c \<mapsto> 0]"
    "f_free_cnt (fs_fats s2 p) = f_free_cnt (fs_fats s1 p)" "f_last_used (fs_fats s2 p) = f_last_used (fs_fats s1 p)"
    using put_fat_evolves [OF v1, of c 0] f1 assms(2,3) by auto
  let ?t = "upd_fat p (\<lambda>f. f\<lparr>f_free_cnt := f_free_cnt f + 1\<rparr>) s2"
  have e: "?t = upd_fat p (\<lambda>f. f\<lparr>f_last_used := f_last_used (fs_fats s2 p), f_free_cnt := f_free_cnt (fs_fats s2 p) + 1\<rparr>) s2"
    by (simp add: upd_fat_def)
  have "vol_ok content p s2" using s2(2) by (simp add: evolves_def)
  then have "evolves content p s2 ?t Map.empty" unfolding e by (rule counters_evolve)
  then have ev: "evolves content p s ?t [c \<mapsto> 0]" using evolves_trans [OF evolves_trans [OF s1(2) s2(2)]] by fastforce
  have "remove_loop p c s = (if k AND CLUST_LAST \<noteq> 0 then Some (Inr (), ?t) else remove_loop p (table content p s c) ?t)"
    using s1(1) s2(1) assms(5) by (subst remove_loop.simps) (simp add: fat_run)
  then show ?thesis using ev s1(3,4) s2(3,4) by (intro exI [of _ ?t]) simp
qed

lemma remove_loop_spec:
  assumes "vol_ok content p s" "layout_ok (fs_fats s p)" "fat_chain (table content p s) (f_clust_cnt (fs_fats s p)) (c # cs)" "distinct (c # cs)"
  shows "\<exists>t. remove_loop p c s = Some (Inr (), t) \<and>
    evolves content p s t (\<lambda>x. if x \<in> set (c # cs) then Some 0 else None) \<and>
    f_free_cnt (fs_fats t p) = f_free_cnt (fs_fats s p) + of_nat (length (c # cs)) \<and> f_last_used (fs_fats t p) = f_last_used (fs_fats s p)"
  using assms
proof (induction cs arbitrary: c s)
  case Nil
  let ?n = "f_clust_cnt (fs_fats s p)"
  have c: "c < ?n" "0x0FFFFFF8 \<le> table content p s c" using Nil.prems(3) by simp_all
  have m: "[c \<mapsto> 0] = (\<lambda>x. if x \<in> set [c] then Some 0 else None)" by auto
  show ?case
    using remove_step [OF Nil.prems(1,2) c(1) kind_simps(2) [OF c(2)]] unfolding m by simp
next
  case (Cons d cs)
  let ?n = "f_clust_cnt (fs_fats s p)"
  have c: "c < ?n" "table content p s c = d" "2 \<le> d" "d < ?n"
    using Cons.prems(3) fat_chain_in [of "table content p s" ?n "d # cs" d] by simp_all
  have n: "?n \<le> 0x0FFFFFF7" using Cons.prems(2) by (simp add: layout_ok_def Let_def)
  obtain t where t: "remove_loop p c s = remove_loop p d t" "evolves content p s t [c \<mapsto> 0]"
    "f_free_cnt (fs_fats t p) = f_free_cnt (fs_fats s p) + 1" "f_last_used (fs_fats t p) = f_last_used (fs_fats s p)"
    using remove_step [OF Cons.prems(1,2) c(1), of 2] kind_simps(3) [OF c(3,4) n] c(2) by auto
  then have vt: "vol_ok content p t" and ft: "frame_info p s t" by (simp_all add: evolves_def)
  note f3 = frame_info_same [OF ft]
  have "\<forall>x \<in> set (d # cs). table content p t x = table content p s x"
    using t(2) Cons.prems(3,4) fat_chain_in [of "table content p s" ?n "d # cs"] by (auto simp: evolves_def)
  then have ch: "fat_chain (table content p t) (f_clust_cnt (fs_fats t p)) (d # cs)"
    using fat_chain_cong [of "d # cs" "table content p t" "table content p s"] Cons.prems(3) f3(3) by simp
  have dd: "distinct (d # cs)" and lt: "layout_ok (fs_fats t p)" using Cons.prems(2,4) f3(13) by simp_all
  obtain u where u: "remove_loop p d t = Some (Inr (), u)" "evolves content p t u (\<lambda>x. if x \<in> set (d # cs) then Some 0 else None)"
    "f_free_cnt (fs_fats u p) = f_free_cnt (fs_fats t p) + of_nat (length (d # cs))" "f_last_used (fs_fats u p) = f_last_used (fs_fats t p)"
    using Cons.IH [OF vt lt ch dd] by (elim exE conjE) (rule that)
  have m: "[c \<mapsto> 0] ++ (\<lambda>x. if x \<in> set (d # cs) then Some 0 else None) = (\<lambda>x. if x \<in> set (c # d # cs) then Some 0 else None)"
    by (rule ext) (auto simp: map_add_def)
  show ?case
    using evolves_trans [OF t(2) u(2)] t u(1,3,4) unfolding m by (intro exI [of _ u]) simp
qed

text \<open>Setting the dirty flag, table operations, writing back: the common shape of \<^verbatim>\<open>remove_chain\<close> and \<^verbatim>\<open>stretch_chain\<close>.\<close>

definition settled :: "('d \<Rightarrow> 32 word \<Rightarrow> 8 word list) \<Rightarrow> nat \<Rightarrow> 'd fat_state \<Rightarrow> 'd fat_state \<Rightarrow> (32 word \<rightharpoonup> 32 word) \<Rightarrow> bool" where
  "settled content p s t U \<longleftrightarrow> vol_ok content p t \<and> frame_info p s t \<and> \<not> dirty p t \<and> info_saved content p t \<and>
     (\<forall>m. elsewhere (fs_fats s p) m \<longrightarrow> m \<noteq> f_info_sect (fs_fats s p) \<longrightarrow> view content p t m = view content p s m) \<and>
     (\<forall>c < f_clust_cnt (fs_fats s p).
       table content p t c = (case U c of None \<Rightarrow> table content p s c | Some v \<Rightarrow> v) \<and>
       (f_fat_sect1 (fs_fats s p) \<noteq> 0 \<longrightarrow> mirror_of content p t c = (case U c of None \<Rightarrow> mirror_of content p s c | Some v \<Rightarrow> v)))"

lemma settle:
  assumes "layout_ok (fs_fats s p)" "frame_info p s s1" "view content p s1 = view content p s" "f_flags (fs_fats s1 p) AND FAT_INFO_DIRTY \<noteq> 0"
    and "evolves content p s1 s2 U"
  shows "\<exists>t. sync_fs p s2 = Some (Inr (), t) \<and> settled content p s t U \<and>
    f_free_cnt (fs_fats t p) = f_free_cnt (fs_fats s2 p) \<and> f_last_used (fs_fats t p) = f_last_used (fs_fats s2 p)"
proof -
  have v2: "vol_ok content p s2" and f12: "frame_info p s1 s2" and d2: "f_flags (fs_fats s2 p) AND FAT_INFO_DIRTY \<noteq> 0"
    using assms(4,5) by (simp_all add: evolves_def)
  have f02: "frame_info p s s2" using assms(2) f12 by (rule frame_info_trans)
  note F = frame_info_same [OF assms(2)] and G = frame_info_same [OF f02]
  have l2: "layout_ok (fs_fats s2 p)" using G(13) assms(1) by simp
  obtain t where t: "sync_fs p s2 = Some (Inr (), t)" "vol_ok content p t" "frame_info p s2 t" "\<not> dirty p t"
    "\<forall>m. m \<noteq> 0 \<longrightarrow> m \<noteq> f_info_sect (fs_fats s2 p) \<longrightarrow> view content p t m = view content p s2 m" "info_saved content p t"
    "f_free_cnt (fs_fats t p) = f_free_cnt (fs_fats s2 p)" "f_last_used (fs_fats t p) = f_last_used (fs_fats s2 p)"
    using sync_fs_info [OF v2 l2 d2] by (elim exE conjE) (rule that)
  note H = frame_info_same [OF t(3)] and L = layout_sectors [OF assms(1)]
  have tab: "table content p t c = table content p s2 c" "f_fat_sect1 (fs_fats s p) \<noteq> 0 \<Longrightarrow> mirror_of content p t c = mirror_of content p s2 c"
    if "c < f_clust_cnt (fs_fats s p)" for c
    using t(5) L(1-4) [OF that] G H by (simp_all add: entry_in_def)
  have tab0: "table content p s1 c = table content p s c" "mirror_of content p s1 c = mirror_of content p s c" for c
    using F(5,6) by (simp_all add: entry_in_def assms(3))
  have E: "table content p s2 c = (case U c of None \<Rightarrow> table content p s1 c | Some v \<Rightarrow> v)"
      "f_fat_sect1 (fs_fats s p) \<noteq> 0 \<Longrightarrow> mirror_of content p s2 c = (case U c of None \<Rightarrow> mirror_of content p s1 c | Some v \<Rightarrow> v)"
    if "c < f_clust_cnt (fs_fats s p)" for c
    using assms(5) that unfolding evolves_def F(3,6) by blast+
  have W: "view content p t m = view content p s m" if "elsewhere (fs_fats s p) m" "m \<noteq> f_info_sect (fs_fats s p)" for m
  proof -
    have "view content p s2 m = view content p s m" using assms(3,5) that(1) F(14) by (simp add: evolves_def)
    moreover have "m \<noteq> 0" using that(1) by (simp add: elsewhere_def)
    ultimately show ?thesis using t(5) that(2) G(4) by simp
  qed
  have "settled content p s t U"
    unfolding settled_def
  proof (intro conjI allI impI)
    fix c assume c: "c < f_clust_cnt (fs_fats s p)"
    show "table content p t c = (case U c of None \<Rightarrow> table content p s c | Some v \<Rightarrow> v)"
      unfolding tab(1) [OF c] E(1) [OF c] tab0 ..
    assume b: "f_fat_sect1 (fs_fats s p) \<noteq> 0"
    show "mirror_of content p t c = (case U c of None \<Rightarrow> mirror_of content p s c | Some v \<Rightarrow> v)"
      unfolding tab(2) [OF c b] E(2) [OF c b] tab0 ..
  qed (use t(2,4,6) frame_info_trans [OF f02 t(3)] W in auto)
  then show ?thesis using t(1,7,8) by blast
qed

text \<open>
  C16. Removing a chain frees exactly its clusters. If the clusters c, c1, ..., ck are linked in the allocation table, remove_chain
  returns without an error; afterwards their entries are 0 in both copies of the table, every other entry and every sector outside the
  tables and the information sector is as before, the free count has grown by the length of the chain and is on the disk, and
  nothing is left to write back.
\<close>

theorem remove_chain_frees:
  assumes "vol_ok content p s" "layout_ok (fs_fats s p)" "fat_chain (table content p s) (f_clust_cnt (fs_fats s p)) (c # cs)" "distinct (c # cs)"
  shows "\<exists>t. remove_chain p c s = Some (Inr (), t) \<and>
    settled content p s t (\<lambda>x. if x \<in> set (c # cs) then Some 0 else None) \<and>
    f_free_cnt (fs_fats t p) = f_free_cnt (fs_fats s p) + of_nat (length (c # cs))"
proof -
  obtain s1 where s1: "set_flag p FAT_INFO_DIRTY s = Some (Inr (), s1)" "vol_ok content p s1" "frame_info p s s1" "view content p s1 = view content p s"
    "f_flags (fs_fats s1 p) AND FAT_INFO_DIRTY \<noteq> 0" "f_free_cnt (fs_fats s1 p) = f_free_cnt (fs_fats s p)"
    using info_dirty_evolves [OF assms(1)] by blast
  note F = frame_info_same [OF s1(3)]
  have "table content p s1 = table content p s" using F(5) by (auto simp: entry_in_def s1(4))
  then obtain s2 where s2: "remove_loop p c s1 = Some (Inr (), s2)" "evolves content p s1 s2 (\<lambda>x. if x \<in> set (c # cs) then Some 0 else None)"
    "f_free_cnt (fs_fats s2 p) = f_free_cnt (fs_fats s1 p) + of_nat (length (c # cs))"
    using remove_loop_spec [OF s1(2), of c cs] F(3,13) assms(2-4) by auto
  obtain t where t: "sync_fs p s2 = Some (Inr (), t)" "settled content p s t (\<lambda>x. if x \<in> set (c # cs) then Some 0 else None)"
    "f_free_cnt (fs_fats t p) = f_free_cnt (fs_fats s2 p)"
    using settle [OF assms(2) s1(3,4,5) s2(2)] by blast
  have "remove_chain p c s = Some (Inr (), t)" using s1(1) s2(1) t(1) by (simp add: remove_chain_def fat_run)
  then show ?thesis using t(2,3) s2(3) s1(6) by (intro exI [of _ t]) simp
qed

theorem remove_chain_witness:
  "\<exists>t. remove_chain 0 2 demo_volume = Some (Inr (), t) \<and>
    settled ram_content 0 demo_volume t (\<lambda>x. if x \<in> {2, 3} then Some 0 else None) \<and> f_free_cnt (fs_fats t 0) = 6"
  using remove_chain_frees [OF demo_vol_ok demo_layout demo_chain] by (simp add: demo_volume_def volume_on_def demo_fat_def)

subsection \<open>Searching for a free cluster\<close>

text \<open>The order in which the search visits the clusters, from \<open>c\<close> to before \<open>last\<close>.\<close>

definition nextc :: "32 word \<Rightarrow> 32 word \<Rightarrow> 32 word" where
  "nextc n c = (if n \<le> c + 1 then 2 else c + 1)"

primrec walk :: "32 word \<Rightarrow> 32 word \<Rightarrow> 32 word \<Rightarrow> 32 word list \<Rightarrow> bool" where
  "walk n l c [] \<longleftrightarrow> nextc n c = l"
| "walk n l c (x # xs) \<longleftrightarrow> nextc n c = x \<and> x \<noteq> l \<and> walk n l x xs"

lemma next_cluster_nextc: "next_cluster fat = nextc (f_clust_cnt fat)"
  by (auto simp: next_cluster_def nextc_def)

lemma nextc_nat: "0 < k \<Longrightarrow> k \<le> unat n \<Longrightarrow> nextc n (of_nat (k - 1)) = (if k < unat n then of_nat k else 2)"
proof -
  assume k: "0 < k" "k \<le> unat n"
  have "unat n < 2 ^ 32" using unsigned_less [of n] by simp
  then have u: "unat (of_nat k :: 32 word) = k" using k(2) by (simp add: unat_of_nat)
  have "(of_nat (k - 1) :: 32 word) + 1 = of_nat k" using k(1) by (metis Suc_diff_1 add.commute of_nat_Suc)
  then show ?thesis using u k by (simp add: nextc_def word_le_nat_alt)
qed

lemma walk_segment:
  assumes "0 < a" "a \<le> b" "b \<le> unat n" "\<forall>k. a \<le> k \<longrightarrow> k < b \<longrightarrow> of_nat k \<noteq> l" "walk n l (of_nat (b - 1)) xs"
  shows "walk n l (of_nat (a - 1)) (map of_nat [a..<b] @ xs)"
  using assms
proof (induction "b - a" arbitrary: a)
  case (Suc m)
  then have "a < b" by simp
  then have "[a..<b] = a # [Suc a..<b]" by (simp add: upt_conv_Cons)
  moreover have "walk n l (of_nat (Suc a - 1)) (map of_nat [Suc a..<b] @ xs)" by (rule Suc.hyps(1)) (use Suc \<open>a < b\<close> in auto)
  moreover have "nextc n (of_nat (a - 1)) = of_nat a" using nextc_nat [of a n] Suc.prems(1,3) \<open>a < b\<close> by simp
  ultimately show ?case using Suc.prems(4) \<open>a < b\<close> by simp
qed simp

lemma walk_all:
  assumes "2 \<le> l" "l < n"
  shows "\<exists>xs. walk n l l xs \<and> set xs = {x. 2 \<le> x \<and> x < n \<and> x \<noteq> l}"
proof -
  let ?l = "unat l" and ?n = "unat n"
  have nat: "2 \<le> ?l" "?l < ?n" using assms by (simp_all add: word_le_nat_alt word_less_nat_alt)
  have small: "?n < 2 ^ 32" using unsigned_less [of n] by simp
  have inj: "unat (of_nat k :: 32 word) = k" if "k < ?n" for k using that small by (simp add: unat_of_nat)
  have ne: "of_nat k \<noteq> l" if "k < ?n" "k \<noteq> ?l" for k using inj [OF that(1)] that(2) by auto
  let ?xs = "map of_nat [Suc ?l..<?n] @ map of_nat [2..<?l] :: 32 word list"
  have "walk n l (of_nat (?n - 1)) (map of_nat [2..<?l])"
  proof (cases "?l = 2")
    case True
    then have "l = 2" using unsigned_word_eqI [of l 2, where 'a = nat] by simp
    then show ?thesis using nextc_nat [of ?n n] nat True by simp
  next
    case False
    then have e: "[2..<?l] = 2 # [3..<?l]" using nat by (simp add: upt_conv_Cons)
    have "walk n l (of_nat (3 - 1)) (map of_nat [3..<?l] @ [])"
      by (rule walk_segment) (use nat False ne nextc_nat [of ?l n] in auto)
    moreover have "(2 :: 32 word) \<noteq> l" using ne [of 2] nat False by simp
    ultimately show ?thesis using e nextc_nat [of ?n n] nat by simp
  qed
  then have "walk n l (of_nat (Suc ?l - 1)) ?xs" by (intro walk_segment) (use nat ne in auto)
  then have w: "walk n l l ?xs" by simp
  have "set ?xs = {x. 2 \<le> x \<and> x < n \<and> x \<noteq> l}"
  proof (intro equalityI subsetI)
    fix x assume "x \<in> set ?xs"
    then obtain k where k: "x = of_nat k" "2 \<le> k" "k < ?n" "k \<noteq> ?l" using nat by auto
    then show "x \<in> {x. 2 \<le> x \<and> x < n \<and> x \<noteq> l}"
      using inj [OF k(3)] ne by (simp add: word_le_nat_alt word_less_nat_alt)
  next
    fix x assume "x \<in> {x. 2 \<le> x \<and> x < n \<and> x \<noteq> l}"
    then have x: "2 \<le> unat x" "unat x < ?n" "unat x \<noteq> ?l"
      using unsigned_word_eqI [of x l, where 'a = nat] by (auto simp: word_le_nat_alt word_less_nat_alt)
    then have "unat x \<in> set ([Suc ?l..<?n] @ [2..<?l])" by auto
    then have "of_nat (unat x) \<in> set (map of_nat ([Suc ?l..<?n] @ [2..<?l]) :: 32 word list)" unfolding set_map by (rule imageI)
    then show "x \<in> set ?xs" by simp
  qed
  then show ?thesis using w by blast
qed

lemma scan_free_spec:
  assumes "vol_ok content p s" "layout_ok (fs_fats s p)" "walk (f_clust_cnt (fs_fats s p)) (f_last_used (fs_fats s p)) c xs"
    and "\<forall>x \<in> set xs. x < f_clust_cnt (fs_fats s p) \<and> clust_kind (f_clust_cnt (fs_fats s p)) (table content p s x) \<noteq> None"
  shows "\<exists>t. scan_free p c fl s = Some (case find (\<lambda>x. table content p s x = 0) xs of None \<Rightarrow> Inl FAT_ERR_FULL | Some x \<Rightarrow> Inr x, t) \<and>
    evolves content p s t Map.empty \<and> f_free_cnt (fs_fats t p) = f_free_cnt (fs_fats s p) \<and> f_last_used (fs_fats t p) = f_last_used (fs_fats s p)"
  using assms
proof (induction xs arbitrary: c s fl)
  case Nil
  have "upd_fat p (\<lambda>f. f\<lparr>f_last_used := f_last_used (fs_fats s p), f_free_cnt := f_free_cnt (fs_fats s p)\<rparr>) s = s" by (simp add: upd_fat_def)
  then have "evolves content p s s Map.empty" using counters_evolve [OF Nil.prems(1)] by metis
  then show ?case using Nil.prems(3) by (subst scan_free.simps) (auto simp: Let_def next_cluster_nextc)
next
  case (Cons x xs)
  let ?n = "f_clust_cnt (fs_fats s p)"
  have w: "next_cluster (fs_fats s p) c = x" "x \<noteq> f_last_used (fs_fats s p)" "walk ?n (f_last_used (fs_fats s p)) x xs"
    using Cons.prems(3) by (simp_all add: next_cluster_nextc)
  obtain k where k: "clust_kind ?n (table content p s x) = Some k" and x: "x < ?n" using Cons.prems(4) by auto
  obtain t where t: "get_fat p x s = Some (Inr (table content p s x, k), t)" "evolves content p s t Map.empty"
    "f_free_cnt (fs_fats t p) = f_free_cnt (fs_fats s p)" "f_last_used (fs_fats t p) = f_last_used (fs_fats s p)"
    using get_fat_evolves [OF Cons.prems(1,2) x] k by auto
  have step: "scan_free p c fl s = (if table content p s x = 0 then Some (Inr x, t) else scan_free p x (Some k) t)"
    using w(1,2) t(1) kind_free [OF k] by (subst scan_free.simps) (simp add: Let_def)
  show ?case
  proof (cases "table content p s x = 0")
    case True
    then show ?thesis using step t by simp
  next
    case False
    have vt: "vol_ok content p t" and ft: "frame_info p s t" using t(2) by (simp_all add: evolves_def)
    note F = frame_info_same [OF ft]
    have tab: "table content p t y = table content p s y" if "y < ?n" for y using t(2) that by (simp add: evolves_def)
    have fd: "find (\<lambda>y. table content p t y = 0) xs = find (\<lambda>y. table content p s y = 0) xs"
      by (rule find_cong) (use Cons.prems(4) tab in auto)
    obtain u where u: "scan_free p x (Some k) t = Some (case find (\<lambda>y. table content p s y = 0) xs of None \<Rightarrow> Inl FAT_ERR_FULL | Some y \<Rightarrow> Inr y, u)"
      "evolves content p t u Map.empty" "f_free_cnt (fs_fats u p) = f_free_cnt (fs_fats t p)" "f_last_used (fs_fats u p) = f_last_used (fs_fats t p)"
      using Cons.IH [OF vt, of x "Some k"] F(3,13) Cons.prems(2,4) w(3) t(4) tab unfolding fd by auto
    show ?thesis using step False u evolves_trans [OF t(2) u(2)] t(3,4) by (intro exI [of _ u]) simp
  qed
qed

subsection \<open>Extending a chain\<close>

lemma small_entry: "c < n \<Longrightarrow> n \<le> 0x0FFFFFF7 \<Longrightarrow> c AND 0x0FFFFFFF = (c :: 32 word)"
proof -
  assume "c < n" "n \<le> 0x0FFFFFF7"
  then have "unat c < 2 ^ 28" by (simp add: word_less_nat_alt word_le_nat_alt)
  then have "take_bit 28 c = c" by (rule take_bit_small)
  then show ?thesis by (simp add: take_bit_eq_mask mask_eq_exp_minus_1)
qed

text \<open>The choice of the cluster: the one behind \<open>prev\<close>, or the first free one in the order of the search.\<close>

definition valid_table :: "('d \<Rightarrow> 32 word \<Rightarrow> 8 word list) \<Rightarrow> nat \<Rightarrow> 'd fat_state \<Rightarrow> bool" where
  "valid_table content p s \<longleftrightarrow> (\<forall>c < f_clust_cnt (fs_fats s p). 2 \<le> c \<longrightarrow> clust_kind (f_clust_cnt (fs_fats s p)) (table content p s c) \<noteq> None)"

definition pick_cluster :: "nat \<Rightarrow> 32 word \<Rightarrow> (32 word, 'd) fat_op" where
  "pick_cluster p prev = fs_bind (the_fat p) (\<lambda>fat. fs_bind (if prev \<noteq> 0
       then fs_bind (get_fat p (next_cluster fat prev)) (\<lambda>(nxt, flags).
         fs_return (flags AND CLUST_FREE = 0, next_cluster fat prev, Some flags))
       else fs_return (True, prev, None)) (\<lambda>(scan, clust1, flags).
     if scan then scan_free p (f_last_used fat) flags else fs_return clust1))"

lemma fs_bind_assoc: "fs_bind (fs_bind m k) h s = fs_bind m (\<lambda>a. fs_bind (k a) h) s"
  by (simp add: fs_bind_def split: option.split sum.split)

lemma stretch_picks:
  "stretch_chain p prev s = fs_then (set_flag p FAT_INFO_DIRTY) (fs_bind (pick_cluster p prev) (\<lambda>clust.
     fs_then (put_fat p clust 0x0FFFFFFF) (fs_then (fs_when (prev \<noteq> 0) (put_fat p prev clust)) (
     fs_then (fs_modify (upd_fat p (\<lambda>f. f\<lparr>f_last_used := clust, f_free_cnt := f_free_cnt f - 1\<rparr>))) (
     fs_then (sync_fs p) (fs_return clust)))))) s"
proof -
  have d: "(case x of (a, b, c) \<Rightarrow> fs_bind (K a b c) h) = fs_bind (case x of (a, b, c) \<Rightarrow> K a b c) h" for x K h by (cases x) simp
  show ?thesis
    unfolding stretch_chain_def pick_cluster_def d by (simp add: fs_then_def fs_bind_def split: option.split sum.split)
qed

lemma nextc_in: "2 \<le> c \<Longrightarrow> c < n \<Longrightarrow> 2 < n \<Longrightarrow> 2 \<le> nextc n c \<and> nextc n c < n"
proof -
  assume a: "2 \<le> c" "c < n" "2 < n"
  have "unat c + 1 < 2 ^ 32" using a(2) unsigned_less [of n, where 'a = nat] by (simp add: word_less_nat_alt)
  then have "unat (c + 1) = unat c + 1" by (simp add: unat_word_ariths)
  then show ?thesis using a by (auto simp: nextc_def word_le_nat_alt word_less_nat_alt)
qed

lemma pick_cluster_spec:
  assumes "vol_ok content p s" "layout_ok (fs_fats s p)" "valid_table content p s"
    and "2 \<le> f_last_used (fs_fats s p)" "f_last_used (fs_fats s p) < f_clust_cnt (fs_fats s p)" "2 < f_clust_cnt (fs_fats s p)"
    and "prev = 0 \<or> (2 \<le> prev \<and> prev < f_clust_cnt (fs_fats s p))"
  shows "\<exists>r t. pick_cluster p prev s = Some (r, t) \<and> evolves content p s t Map.empty \<and>
    f_free_cnt (fs_fats t p) = f_free_cnt (fs_fats s p) \<and>
    (case r of Inl e \<Rightarrow> e = FAT_ERR_FULL \<and> (\<forall>c < f_clust_cnt (fs_fats s p). 2 \<le> c \<longrightarrow> c \<noteq> f_last_used (fs_fats s p) \<longrightarrow> table content p s c \<noteq> 0)
     | Inr c \<Rightarrow> 2 \<le> c \<and> c < f_clust_cnt (fs_fats s p) \<and> table content p s c = 0)"
proof -
  let ?n = "f_clust_cnt (fs_fats s p)" and ?l = "f_last_used (fs_fats s p)"
  obtain xs where xs: "walk ?n ?l ?l xs" "set xs = {x. 2 \<le> x \<and> x < ?n \<and> x \<noteq> ?l}" using walk_all [OF assms(4,5)] by blast
  have scan: "\<exists>r u. scan_free p ?l fl t = Some (r, u) \<and> evolves content p s u Map.empty \<and> f_free_cnt (fs_fats u p) = f_free_cnt (fs_fats s p) \<and>
      (case r of Inl e \<Rightarrow> e = FAT_ERR_FULL \<and> (\<forall>c < ?n. 2 \<le> c \<longrightarrow> c \<noteq> ?l \<longrightarrow> table content p s c \<noteq> 0)
       | Inr c \<Rightarrow> 2 \<le> c \<and> c < ?n \<and> table content p s c = 0)"
    if t: "evolves content p s t Map.empty" "f_free_cnt (fs_fats t p) = f_free_cnt (fs_fats s p)" "f_last_used (fs_fats t p) = ?l" for t fl
  proof -
    have vt: "vol_ok content p t" and ft: "frame_info p s t" using t(1) by (simp_all add: evolves_def)
    note F = frame_info_same [OF ft]
    have tab: "table content p t y = table content p s y" if "y < ?n" for y using t(1) that by (simp add: evolves_def)
    have fd: "find (\<lambda>y. table content p t y = 0) xs = find (\<lambda>y. table content p s y = 0) xs"
      by (rule find_cong) (use xs(2) tab in auto)
    have val: "\<forall>x \<in> set xs. x < ?n \<and> clust_kind ?n (table content p t x) \<noteq> None"
      using xs(2) assms(3) tab by (auto simp: valid_table_def)
    obtain u where u: "scan_free p ?l fl t = Some (case find (\<lambda>y. table content p s y = 0) xs of None \<Rightarrow> Inl FAT_ERR_FULL | Some y \<Rightarrow> Inr y, u)"
      "evolves content p t u Map.empty" "f_free_cnt (fs_fats u p) = f_free_cnt (fs_fats t p)"
      using scan_free_spec [OF vt, of ?l xs fl] F(3,13) assms(2) xs(1) t(3) val unfolding fd by auto
    have "evolves content p s u Map.empty" using evolves_trans [OF t(1) u(2)] by simp
    moreover have "y \<in> set xs \<and> table content p s y = 0" if "find (\<lambda>y. table content p s y = 0) xs = Some y" for y
      using that by (auto simp: find_Some_iff)
    ultimately show ?thesis
      using u(1,3) t(2) xs(2)
      by (cases "find (\<lambda>y. table content p s y = 0) xs") (auto simp: find_None_iff)
  qed
  show ?thesis
  proof (cases "prev = 0")
    case True
    have e: "upd_fat p (\<lambda>f. f\<lparr>f_last_used := f_last_used (fs_fats s p), f_free_cnt := f_free_cnt (fs_fats s p)\<rparr>) s = s" by (simp add: upd_fat_def)
    have "evolves content p s s Map.empty" using counters_evolve [OF assms(1)] e by metis
    then show ?thesis using scan [of s None] True by (auto simp: pick_cluster_def fat_run)
  next
    case False
    let ?c = "next_cluster (fs_fats s p) prev"
    have c: "2 \<le> ?c" "?c < ?n" using nextc_in [of prev ?n] assms(6,7) False by (auto simp: next_cluster_nextc)
    obtain k where k: "clust_kind ?n (table content p s ?c) = Some k" using assms(3) c by (auto simp: valid_table_def)
    obtain t where t: "get_fat p ?c s = Some (Inr (table content p s ?c, k), t)" "evolves content p s t Map.empty"
      "f_free_cnt (fs_fats t p) = f_free_cnt (fs_fats s p)" "f_last_used (fs_fats t p) = ?l"
      using get_fat_evolves [OF assms(1,2) c(2)] k by auto
    have "pick_cluster p prev s = (if table content p s ?c = 0 then Some (Inr ?c, t) else scan_free p ?l (Some k) t)"
      using t(1) kind_free [OF k] False by (cases "k AND CLUST_FREE = 0") (simp_all add: pick_cluster_def fat_run)
    then show ?thesis using scan [OF t(2-4), of "Some k"] t(2,3) c by auto
  qed
qed

lemma fat_chain_used: "fat_chain T n cs \<Longrightarrow> x \<in> set cs \<Longrightarrow> T x \<noteq> 0"
proof (induction T n cs rule: fat_chain.induct)
  case (3 T n y d ds)
  have "2 \<le> d" using 3(2) fat_chain_in [of T n "d # ds" d] by simp
  then show ?case using 3 by auto
qed auto

lemma fat_chain_extend:
  assumes "fat_chain T n cs" "distinct cs" "2 \<le> c" "c < n"
    and "\<forall>x \<in> set cs. U x = (if x = last cs then c else T x)" "0x0FFFFFF8 \<le> U c"
  shows "fat_chain U n (cs @ [c])"
  using assms
proof (induction T n cs rule: fat_chain.induct)
  case (3 T n x d ds)
  have "x \<noteq> last (d # ds)" using 3(3) by (metis distinct.simps(2) last_in_set list.distinct(1))
  then have "U x = d" using 3(2,6) by simp
  moreover have "\<forall>y \<in> set (d # ds). U y = (if y = last (d # ds) then c else T y)" using 3(6) by simp
  ultimately show ?case using 3 by simp
qed auto

text \<open>
  C15. Extending a chain. On a valid table with the search starting inside it, stretch_chain(prev) on the last cluster of a chain
  takes a free cluster c, marks it as the end of the chain and links it behind prev, in both copies of the table; the chain then
  consists of its old clusters followed by c, all other entries and sectors are unchanged, and the counters are on the disk. It
  returns FAT_ERR_FULL exactly if no cluster is free, except possibly the last one used, which the search skips, and
  then the table is unchanged.
\<close>

theorem stretch_chain_extends:
  assumes "vol_ok content p s" "layout_ok (fs_fats s p)" "valid_table content p s"
    and "2 \<le> f_last_used (fs_fats s p)" "f_last_used (fs_fats s p) < f_clust_cnt (fs_fats s p)"
    and "fat_chain (table content p s) (f_clust_cnt (fs_fats s p)) cs" "distinct cs"
  shows "\<exists>r t. stretch_chain p (last cs) s = Some (r, t) \<and>
    (case r of
       Inl e \<Rightarrow> e = FAT_ERR_FULL \<and> (\<forall>c < f_clust_cnt (fs_fats s p). table content p t c = table content p s c) \<and>
         (\<forall>c < f_clust_cnt (fs_fats s p). 2 \<le> c \<longrightarrow> c \<noteq> f_last_used (fs_fats s p) \<longrightarrow> table content p s c \<noteq> 0)
     | Inr c \<Rightarrow> table content p s c = 0 \<and> settled content p s t [c \<mapsto> 0x0FFFFFFF, last cs \<mapsto> c] \<and>
         fat_chain (table content p t) (f_clust_cnt (fs_fats s p)) (cs @ [c]) \<and> distinct (cs @ [c]) \<and>
         f_free_cnt (fs_fats t p) = f_free_cnt (fs_fats s p) - 1 \<and> f_last_used (fs_fats t p) = c)"
proof -
  let ?n = "f_clust_cnt (fs_fats s p)" and ?prev = "last cs"
  have ne: "cs \<noteq> []" using assms(6) by auto
  then have prev: "2 \<le> ?prev" "?prev < ?n" using fat_chain_in [OF assms(6), of ?prev] by simp_all
  have p0: "?prev \<noteq> 0" using prev(1) by auto
  have n2: "2 < ?n" using prev by (metis order.strict_trans1)
  obtain s1 where s1: "set_flag p FAT_INFO_DIRTY s = Some (Inr (), s1)" "vol_ok content p s1" "frame_info p s s1" "view content p s1 = view content p s"
    "f_flags (fs_fats s1 p) AND FAT_INFO_DIRTY \<noteq> 0" "f_free_cnt (fs_fats s1 p) = f_free_cnt (fs_fats s p)" "f_last_used (fs_fats s1 p) = f_last_used (fs_fats s p)"
    using info_dirty_evolves [OF assms(1)] by (elim exE conjE) (rule that)
  note F = frame_info_same [OF s1(3)]
  have tab1: "table content p s1 = table content p s" using F(5) by (auto simp: entry_in_def s1(4))
  have val1: "valid_table content p s1" using assms(3) F(3) tab1 by (simp add: valid_table_def)
  have l1: "layout_ok (fs_fats s1 p)" using F(13) assms(2) by simp
  obtain r s2 where s2: "pick_cluster p ?prev s1 = Some (r, s2)" "evolves content p s1 s2 Map.empty" "f_free_cnt (fs_fats s2 p) = f_free_cnt (fs_fats s1 p)"
    "case r of Inl e \<Rightarrow> e = FAT_ERR_FULL \<and> (\<forall>c < ?n. 2 \<le> c \<longrightarrow> c \<noteq> f_last_used (fs_fats s p) \<longrightarrow> table content p s c \<noteq> 0)
     | Inr c \<Rightarrow> 2 \<le> c \<and> c < ?n \<and> table content p s c = 0"
    using pick_cluster_spec [OF s1(2) l1 val1, of ?prev, unfolded tab1 F(3) s1(7)] assms(4,5) prev n2 by blast
  show ?thesis
  proof (cases r)
    case (Inl e)
    have run: "stretch_chain p ?prev s = Some (Inl e, s2)" using s1(1) s2(1) Inl by (simp add: stretch_picks fat_run)
    have "table content p s2 c = table content p s c" if "c < ?n" for c
      using s2(2) that F(3) unfolding evolves_def tab1 by simp
    then show ?thesis using run s2(4) Inl by (intro exI [of _ "Inl e"] exI [of _ s2]) simp
  next
    case (Inr c)
    then have c: "2 \<le> c" "c < ?n" "table content p s c = 0" using s2(4) by simp_all
    have v2: "vol_ok content p s2" and f12: "frame_info p s1 s2" using s2(2) by (simp_all add: evolves_def)
    note G = frame_info_same [OF frame_info_trans [OF s1(3) f12]]
    obtain s3 where s3: "put_fat p c 0x0FFFFFFF s2 = Some (Inr (), s3)" "evolves content p s2 s3 [c \<mapsto> 0x0FFFFFFF]"
      "f_free_cnt (fs_fats s3 p) = f_free_cnt (fs_fats s2 p)"
      using put_fat_evolves [OF v2, of c "0x0FFFFFFF"] G(3,13) assms(2) c(2) by auto
    have v3: "vol_ok content p s3" and f23: "frame_info p s2 s3" using s3(2) by (simp_all add: evolves_def)
    note H = frame_info_same [OF frame_info_trans [OF frame_info_trans [OF s1(3) f12] f23]]
    have cn: "c AND 0x0FFFFFFF = c" using small_entry [OF c(2)] assms(2) by (simp add: layout_ok_def Let_def)
    obtain s4 where s4: "put_fat p ?prev c s3 = Some (Inr (), s4)" "evolves content p s3 s4 [?prev \<mapsto> c]"
      "f_free_cnt (fs_fats s4 p) = f_free_cnt (fs_fats s3 p)"
      using put_fat_evolves [OF v3, of ?prev c] H(3,13) assms(2) prev(2) cn by auto
    let ?s5 = "upd_fat p (\<lambda>f. f\<lparr>f_last_used := c, f_free_cnt := f_free_cnt f - 1\<rparr>) s4"
    have v4: "vol_ok content p s4" using s4(2) by (simp add: evolves_def)
    have e5: "?s5 = upd_fat p (\<lambda>f. f\<lparr>f_last_used := c, f_free_cnt := f_free_cnt (fs_fats s4 p) - 1\<rparr>) s4" by (simp add: upd_fat_def)
    have ev5: "evolves content p s4 ?s5 Map.empty" unfolding e5 by (rule counters_evolve [OF v4])
    let ?U = "[c \<mapsto> 0x0FFFFFFF, ?prev \<mapsto> c]"
    have ev: "evolves content p s1 ?s5 ?U"
    proof -
      have "((Map.empty ++ [c \<mapsto> 0x0FFFFFFF]) ++ [?prev \<mapsto> c]) ++ Map.empty = ?U" by simp
      then show ?thesis using evolves_trans [OF evolves_trans [OF evolves_trans [OF s2(2) s3(2)] s4(2)] ev5] by metis
    qed
    obtain t where t: "sync_fs p ?s5 = Some (Inr (), t)" "settled content p s t ?U"
      "f_free_cnt (fs_fats t p) = f_free_cnt (fs_fats ?s5 p)" "f_last_used (fs_fats t p) = f_last_used (fs_fats ?s5 p)"
      using settle [OF assms(2) s1(3,4,5) ev] by blast
    have run: "stretch_chain p ?prev s = Some (Inr c, t)"
      using s1(1) s2(1) s3(1) s4(1) t(1) p0 Inr by (simp add: stretch_picks fat_run)
    have tab: "table content p t x = (case ?U x of None \<Rightarrow> table content p s x | Some v \<Rightarrow> v)" if "x < ?n" for x
      using t(2) that by (simp add: settled_def)
    have new: "c \<notin> set cs" using fat_chain_used [OF assms(6), of c] c(3) by auto
    then have pc: "?prev \<noteq> c" using ne by auto
    have ch: "fat_chain (table content p t) ?n (cs @ [c])"
    proof (rule fat_chain_extend [OF assms(6,7) c(1,2)])
      show "0x0FFFFFF8 \<le> table content p t c" using tab [OF c(2)] pc by simp
      show "\<forall>x \<in> set cs. table content p t x = (if x = last cs then c else table content p s x)"
        using tab fat_chain_in [OF assms(6)] new by auto
    qed
    show ?thesis
      using run t(2-4) c(3) ch new assms(7) s4(3) s3(3) s2(3) s1(6) by (intro exI [of _ "Inr c"] exI [of _ t]) simp
  qed
qed

lemma demo_valid: "valid_table ram_content 0 demo_volume"
  unfolding valid_table_def
proof (intro allI impI)
  fix c assume "c < f_clust_cnt (fs_fats demo_volume 0)"
  then have "table ram_content 0 demo_volume c = (if c = 2 then 3 else if c = 3 then 0x0FFFFFFF else 0)"
    using demo_entries by (simp add: demo_volume_def volume_on_def demo_fat_def)
  then show "clust_kind (f_clust_cnt (fs_fats demo_volume 0)) (table ram_content 0 demo_volume c) \<noteq> None"
    by (simp add: clust_kind_def demo_volume_def volume_on_def demo_fat_def)
qed

theorem stretch_chain_witness:
  "\<exists>c t. stretch_chain 0 3 demo_volume = Some (Inr c, t) \<and> fat_chain (table ram_content 0 t) 8 [2, 3, c] \<and> f_free_cnt (fs_fats t 0) = 3"
proof -
  have h: "2 \<le> f_last_used (fs_fats demo_volume 0)" "f_last_used (fs_fats demo_volume 0) < f_clust_cnt (fs_fats demo_volume 0)"
    "f_clust_cnt (fs_fats demo_volume 0) = 8" "f_last_used (fs_fats demo_volume 0) = 3" "f_free_cnt (fs_fats demo_volume 0) = 4"
    by (simp_all add: demo_volume_def volume_on_def demo_fat_def)
  have d: "distinct [2, 3 :: 32 word]" by simp
  obtain r t where r: "stretch_chain 0 (last [2, 3]) demo_volume = Some (r, t)"
    "case r of Inl e \<Rightarrow> (\<forall>c < (8 :: 32 word). 2 \<le> c \<longrightarrow> c \<noteq> 3 \<longrightarrow> table ram_content 0 demo_volume c \<noteq> 0)
     | Inr c \<Rightarrow> fat_chain (table ram_content 0 t) 8 ([2, 3] @ [c]) \<and> f_free_cnt (fs_fats t 0) = 4 - 1"
    using stretch_chain_extends [OF demo_vol_ok demo_layout demo_valid h(1,2) demo_chain d, unfolded h(3-5)]
    by (elim exE conjE) (rule that, assumption, simp split: sum.splits)
  have "table ram_content 0 demo_volume 4 = 0" using demo_entries [of 4] by simp
  then have "\<not> (\<forall>c < (8 :: 32 word). 2 \<le> c \<longrightarrow> c \<noteq> 3 \<longrightarrow> table ram_content 0 demo_volume c \<noteq> 0)" by (auto intro: exI [of _ 4])
  then show ?thesis using r by (cases r) auto
qed

end
