(* ===== verification/Fat_Names.thy ===== *)
theory Fat_Names
  imports Fat_State
begin

section \<open>Names, timestamps and paths of the FAT32 library\<close>

text \<open>
  The functions of \<^verbatim>\<open>libs/fat32/fat.c\<close> without state: short (8.3) and long file names, their checksum, dates, and the
  components of a path. Characters are bytes; a path is the array from the pointer on.
\<close>

definition to_upper :: "8 word \<Rightarrow> 8 word" where
  "to_upper c = (if 0x61 \<le> c \<and> c \<le> 0x7A then c AND NOT 0x20 else c)"

primrec subpath_len :: "8 word list \<Rightarrow> nat option" where
  "subpath_len [] = None"
| "subpath_len (c # cs) = (if c \<noteq> 0 \<and> c \<noteq> 0x2F then map_option Suc (subpath_len cs) else Some 0)"

primrec skip_slashes :: "8 word list \<Rightarrow> 8 word list option" where
  "skip_slashes [] = None"
| "skip_slashes (c # cs) = (if c = 0x2F then skip_slashes cs else Some (c # cs))"

definition last_subpath_len :: "8 word list \<Rightarrow> nat option" where
  "last_subpath_len path = do {
     len \<leftarrow> subpath_len path;
     if len = 0 then Some 0
     else do {
       path \<leftarrow> skip_slashes (drop len path);
       c \<leftarrow> aget path 0;
       Some (if c \<noteq> 0 then 0 else len)
     }
   }"

text \<open>The sum of the eleven bytes of a short name, rotated right before each.\<close>

definition get_crc :: "8 word list \<Rightarrow> 8 word option" where
  "get_crc name = (if 11 \<le> length name
     then Some (fold (\<lambda>c sum. push_bit 7 (sum AND 1) + drop_bit 1 sum + c) (take 11 name) 0)
     else None)"

subsection \<open>Timestamps\<close>

definition decode_timestamp :: "16 word \<Rightarrow> 16 word \<Rightarrow> Timestamp" where
  "decode_timestamp date time = \<lparr>
     ts_hour = ucast (drop_bit 11 time AND 0x1F), ts_min = ucast (drop_bit 5 time AND 0x3F), ts_sec = ucast (2 * (time AND 0x1F)),
     ts_day = ucast (date AND 0x1F), ts_month = ucast (drop_bit 5 date AND 0xF),
     ts_year = (drop_bit 9 date AND 0x3F) + 1980\<rparr>"

text \<open>\<open>fat_get_timestamp\<close> is the weak default, which no other file overrides.\<close>

definition fat_get_timestamp :: Timestamp where
  "fat_get_timestamp = \<lparr>ts_hour = 0, ts_min = 0, ts_sec = 0, ts_day = 1, ts_month = 1, ts_year = 1980\<rparr>"

definition encode_date :: "Timestamp \<Rightarrow> 16 word" where
  "encode_date ts = push_bit 9 ((ts_year ts - 1980) AND 0x3F) OR push_bit 5 (ucast (ts_month ts) AND 0xF) OR (ucast (ts_day ts) AND 0x1F)"

definition encode_time :: "Timestamp \<Rightarrow> 16 word" where
  "encode_time ts = ((ucast (ts_sec ts) div 2) AND 0x1F) OR push_bit 5 (ucast (ts_min ts) AND 0x3F) OR push_bit 11 (ucast (ts_hour ts) AND 0x1F)"

definition encode_timestamp :: "16 word \<times> 16 word" where
  "encode_timestamp = (encode_date fat_get_timestamp, encode_time fat_get_timestamp)"

subsection \<open>Short names\<close>

abbreviation (input) SFN_PAD :: "8 word" where "SFN_PAD \<equiv> 0x20"
abbreviation (input) SFN_FREE :: "8 word" where "SFN_FREE \<equiv> 0xE5"
abbreviation (input) SFN_LAST :: "8 word" where "SFN_LAST \<equiv> 0"
abbreviation (input) FULL_STOP :: "8 word" where "FULL_STOP \<equiv> 0x2E"

definition sfn_specials :: "8 word list" where
  "sfn_specials = map of_char (''!#$%&'' @ [CHR 0x27] @ ''()-@^_`{}~ '')"

definition sfn_char :: "8 word \<Rightarrow> 8 word" where
  "sfn_char c0 = (let c = to_upper c0 in
     if 0x41 \<le> c \<and> c \<le> 0x5A then c else if c \<in> set sfn_specials then c else 0x5F)"

text \<open>
  The base name: up to eight characters before the first dot; the extension: up to three behind it. \<open>name\<close> has at least \<open>len\<close>
  characters. \<^verbatim>\<open>while (i < len && name[i++] != '.');\<close> leaves \<open>i\<close> behind the first dot, or at \<open>len\<close>.
\<close>

primrec sfn_base :: "8 word list \<Rightarrow> 8 word list" where
  "sfn_base [] = []"
| "sfn_base (c # cs) = (if c \<noteq> FULL_STOP then sfn_char c # sfn_base cs else [])"

primrec after_dot :: "8 word list \<Rightarrow> 8 word list" where
  "after_dot [] = []"
| "after_dot (c # cs) = (if c \<noteq> FULL_STOP then after_dot cs else cs)"

definition pad_to :: "nat \<Rightarrow> 8 word list \<Rightarrow> 8 word list" where
  "pad_to n xs = xs @ replicate (n - length xs) SFN_PAD"

definition put_sfn_name :: "8 word list \<Rightarrow> nat \<Rightarrow> 8 word list option" where
  "put_sfn_name name len = (if len \<le> length name
     then let base = sfn_base (take (min len 8) name)
       in Some (pad_to 8 base @ pad_to 3 (map sfn_char (take 3 (after_dot (drop (length base) (take len name))))))
     else None)"

text \<open>The text of a short name: its parts up to their padding, with a dot between them if there is an extension.\<close>

definition sfn_text :: "8 word list \<Rightarrow> 8 word list option" where
  "sfn_text sfn = (if 11 \<le> length sfn
     then Some (takeWhile (\<lambda>c. c \<noteq> SFN_PAD) (take 8 sfn) @ (if sfn ! 8 \<noteq> SFN_PAD then [FULL_STOP] else []) @
       takeWhile (\<lambda>c. c \<noteq> SFN_PAD) (take 3 (drop 8 sfn)))
     else None)"

definition parse_sfn_name :: "8 word list \<Rightarrow> (unit, 'd) fat_op" where
  "parse_sfn_name sfn_name = fs_bind (fs_lift (sfn_text sfn_name)) (\<lambda>t. fs_bind (fs_get fs_buf) (\<lambda>g.
     if length t \<le> length g
     then fs_modify (\<lambda>s. s\<lparr>fs_buf := t @ drop (length t) g, fs_len := of_nat (length t)\<rparr>)
     else fs_lift None))"

subsection \<open>Fragments of long names\<close>

definition g_lfn_indices :: "nat list" where
  "g_lfn_indices = [1, 3, 5, 7, 9, 14, 16, 18, 20, 22, 24, 28, 30]"

primrec put_units :: "nat list \<Rightarrow> (8 word \<times> 8 word) list \<Rightarrow> 8 word list \<Rightarrow> 8 word list option" where
  "put_units [] us raw = Some raw"
| "put_units (k # ks) us raw = (case us of
     [] \<Rightarrow> Some raw
   | (lo, hi) # us' \<Rightarrow> do {
       r1 \<leftarrow> wr8 raw k lo;
       r2 \<leftarrow> wr8 r1 (k + 1) hi;
       put_units ks us' r2
     })"

text \<open>The first \<open>len\<close> characters of \<open>name\<close>, a terminating zero and 0xffff behind it.\<close>

definition put_lfn_name_frag :: "8 word list \<Rightarrow> 8 word list \<Rightarrow> nat \<Rightarrow> 8 word list option" where
  "put_lfn_name_frag raw name len = (if len \<le> length name \<and> len \<le> 13
     then put_units g_lfn_indices (map (\<lambda>c. (c, 0)) (take len name) @ (if len < 13 then [(0, 0)] else []) @ replicate (12 - len) (0xFF, 0xFF)) raw
     else None)"

text \<open>
  The characters of a fragment, copied to \<^verbatim>\<open>g_buf\<close> from \<open>pos\<close> on. \<open>True\<close> is \<^verbatim>\<open>FAT_ERR_BROKEN\<close>, an 0xff before the zero
  (\<^verbatim>\<open>char\<close> is unsigned on this machine).
\<close>

primrec parse_frag :: "8 word list \<Rightarrow> nat list \<Rightarrow> nat \<Rightarrow> 8 word list \<Rightarrow> 16 word \<Rightarrow> (bool \<times> 8 word list \<times> 16 word) option" where
  "parse_frag raw [] pos g len = Some (False, g, len)"
| "parse_frag raw (k # ks) pos g len = do {
     c \<leftarrow> rd8 raw k;
     if c = 0xFF then Some (True, g, len)
     else if c = 0 then Some (False, g, len)
     else do {
       g1 \<leftarrow> wr8 g pos c;
       parse_frag raw ks (pos + 1) g1 (len + 1)
     }
   }"

subsection \<open>Properties\<close>

lemma masks:
  "(x :: 16 word) AND 0x1F = take_bit 5 x" "(x :: 16 word) AND 0x3F = take_bit 6 x" "(x :: 16 word) AND 0xF = take_bit 4 x"
  by (simp_all add: take_bit_eq_mask mask_eq_exp_minus_1)

lemma small_bits: "unat (x :: 'a :: len word) < 2 ^ n \<Longrightarrow> bit x k \<Longrightarrow> k < n"
  by (metis bit_take_bit_iff take_bit_small)

lemma narrow_field:
  assumes "unat (x :: 8 word) < 2 ^ n" "n \<le> 8"
  shows "ucast (take_bit n (ucast x :: 16 word)) = x"
  by (rule bit_word_eqI) (use assms small_bits [OF assms(1)] in \<open>auto simp: bit_simps simp del: push_bit_Suc\<close>)

lemma date_fields:
  assumes "unat (ts_day ts) < 32" "unat (ts_month ts) < 16"
  shows "take_bit 5 (encode_date ts) = take_bit 5 (ucast (ts_day ts))"
    and "take_bit 4 (drop_bit 5 (encode_date ts)) = take_bit 4 (ucast (ts_month ts))"
    and "take_bit 6 (drop_bit 9 (encode_date ts)) = take_bit 6 (ts_year ts - 1980)"
  by (rule bit_word_eqI; auto simp: encode_date_def masks bit_simps)+

lemma time_fields:
  "take_bit 5 (encode_time ts) = take_bit 5 (ucast (ts_sec ts) div 2)"
  "take_bit 6 (drop_bit 5 (encode_time ts)) = take_bit 6 (ucast (ts_min ts))"
  "take_bit 5 (drop_bit 11 (encode_time ts)) = take_bit 5 (ucast (ts_hour ts))"
  by (rule bit_word_eqI; auto simp: encode_time_def masks bit_simps)+

text \<open>
  Timestamps survive in a directory entry: for a date from 1980 to 2043, decoding the two words that were encoded
  gives the date and the time back, with the seconds rounded down to an even number. (The year has six bits here; the
  format has seven.)
\<close>

lemma timestamp_roundtrip:
  assumes "unat (ts_hour ts) < 24" "unat (ts_min ts) < 60" "unat (ts_sec ts) < 60" "unat (ts_day ts) < 32" "unat (ts_month ts) < 13"
    and "1980 \<le> unat (ts_year ts)" "unat (ts_year ts) < 2044"
  shows "decode_timestamp (encode_date ts) (encode_time ts) = ts\<lparr>ts_sec := 2 * (ts_sec ts div 2)\<rparr>"
proof -
  have y: "unat (ts_year ts - 1980) < 64"
    using assms(6,7) by (simp add: unat_sub_if')
  have "take_bit 6 (ts_year ts - 1980) + 1980 = ts_year ts"
    using take_bit_small [of "ts_year ts - 1980" 6] y by simp
  moreover have "ucast (2 * take_bit 5 (ucast (ts_sec ts) div 2 :: 16 word)) = 2 * (ts_sec ts div 2)"
  proof -
    have d: "2 * x = push_bit 1 x" "x div 2 = drop_bit 1 x" for x :: "'b :: len word"
      by (simp_all add: push_bit_eq_mult drop_bit_eq_div mult.commute)
    show ?thesis
      unfolding d
    proof (rule bit_word_eqI)
      fix n assume "n < LENGTH(8)"
      moreover have "bit (ts_sec ts) n \<Longrightarrow> n < 6" using small_bits [of "ts_sec ts" 6] assms(3) by simp
      ultimately show "bit (ucast (push_bit 1 (take_bit 5 (drop_bit 1 (ucast (ts_sec ts) :: 16 word)))) :: 8 word) n = bit (push_bit 1 (drop_bit 1 (ts_sec ts))) n"
        by (cases "n < 6") (auto simp: bit_simps simp del: push_bit_Suc)
    qed
  qed
  ultimately show ?thesis
    using date_fields [of ts] time_fields [of ts] narrow_field [of "ts_hour ts" 5] narrow_field [of "ts_min ts" 6]
      narrow_field [of "ts_day ts" 5] narrow_field [of "ts_month ts" 4] assms
    by (simp add: decode_timestamp_def masks)
qed

subsection \<open>Long names\<close>

lemma put_units_keeps: "put_units ks us raw = Some r \<Longrightarrow> length r = length raw \<and> (\<forall>j. (\<forall>k \<in> set ks. j \<noteq> k \<and> j \<noteq> k + 1) \<longrightarrow> r ! j = raw ! j)"
proof (induction ks arbitrary: us raw)
  case (Cons k ks)
  show ?case
  proof (cases us)
    case Nil
    then show ?thesis using Cons.prems by simp
  next
    case (Cons u us')
    obtain lo hi where u: "u = (lo, hi)" by (cases u)
    have "put_units ks us' (raw[k := lo, k + 1 := hi]) = Some r"
      using Cons.prems Cons u by (auto simp: wr8_def bind_eq_Some_conv split: if_splits)
    from Cons.IH [OF this] show ?thesis by (auto simp: nth_list_update)
  qed
qed simp

lemma put_units_total:
  "\<forall>k \<in> set ks. k + 1 < length raw \<Longrightarrow> \<exists>r. put_units ks us raw = Some r"
proof (induction ks arbitrary: us raw)
  case (Cons k ks)
  then show ?case by (cases us) (auto simp: wr8_def split: prod.splits)
qed simp

text \<open>Reading back what was put: the characters up to the first zero.\<close>

lemma parse_put_units:
  assumes "put_units ks us raw = Some r" "distinct ks" "\<forall>j \<in> set ks. \<forall>k \<in> set ks. j \<noteq> k + 1" "\<forall>k \<in> set ks. k + 1 < length raw"
    and "us = map (\<lambda>c. (c, 0)) cs @ (if length cs < length ks then (0, 0) # vs else [])" "length cs \<le> length ks"
    and "\<forall>c \<in> set cs. c \<noteq> 0 \<and> c \<noteq> 0xFF" "pos + length cs \<le> length g"
  shows "parse_frag r ks pos g len = Some (False, take pos g @ cs @ drop (pos + length cs) g, len + of_nat (length cs))"
  using assms
proof (induction ks arbitrary: us raw cs pos g len)
  case (Cons k ks)
  have k: "k + 1 < length raw" using Cons.prems(4) by simp
  show ?case
  proof (cases cs)
    case Nil
    then have us: "us = (0, 0) # vs" using Cons.prems(5) by simp
    have "put_units ks vs (raw[k := 0, k + 1 := 0]) = Some r"
      using Cons.prems(1) us k by (simp add: wr8_def)
    from put_units_keeps [OF this] have "r ! k = 0" "k < length r"
      using Cons.prems(2,3) k by (auto simp: nth_list_update)
    then show ?thesis using Nil Cons.prems(8) by (simp add: rd8_def)
  next
    case (Cons c cs')
    let ?us = "map (\<lambda>c. (c, 0)) cs' @ (if length cs' < length ks then (0, 0) # vs else [])"
    let ?raw = "raw[k := c, k + 1 := 0]"
    have us: "us = (c, 0) # ?us" using Cons.prems(5) Cons by simp
    have put: "put_units ks ?us ?raw = Some r" using Cons.prems(1) us k by (simp add: wr8_def)
    from put_units_keeps [OF put] have rk: "r ! k = c" "k < length r"
      using Cons.prems(2,3) k by (auto simp: nth_list_update)
    have c: "c \<noteq> 0" "c \<noteq> 0xFF" and cs': "\<forall>c \<in> set cs'. c \<noteq> 0 \<and> c \<noteq> 0xFF" using Cons.prems(7) Cons by simp_all
    have pos: "pos < length g" using Cons.prems(8) Cons by simp
    have "parse_frag r ks (pos + 1) (g[pos := c]) (len + 1) =
        Some (False, take (pos + 1) (g[pos := c]) @ cs' @ drop (pos + 1 + length cs') (g[pos := c]), len + 1 + of_nat (length cs'))"
      by (rule Cons.IH [OF put]) (use Cons.prems Cons cs' in auto)
    moreover have "take (pos + 1) (g[pos := c]) = take pos g @ [c]" using pos by (simp add: take_Suc_conv_app_nth)
    ultimately show ?thesis using rk c pos Cons by (simp add: rd8_def wr8_def ac_simps)
  qed
qed auto

lemma lfn_indices: "distinct g_lfn_indices" "\<forall>j \<in> set g_lfn_indices. \<forall>k \<in> set g_lfn_indices. j \<noteq> k + 1" "length g_lfn_indices = 13"
  "\<forall>k \<in> set g_lfn_indices. k + 1 < 32"
  by (simp_all add: g_lfn_indices_def)

lemma lfn_fragment_roundtrip:
  assumes "length raw = 32" "len \<le> length name" "len \<le> 13" "\<forall>c \<in> set (take len name). c \<noteq> 0 \<and> c \<noteq> 0xFF" "pos + len \<le> length g"
  shows "\<exists>r. put_lfn_name_frag raw name len = Some r \<and> length r = 32 \<and>
    (\<forall>j \<in> {0, 11, 12, 13, 26, 27}. r ! j = raw ! j) \<and>
    parse_frag r g_lfn_indices pos g n = Some (False, take pos g @ take len name @ drop (pos + len) g, n + of_nat len)"
proof -
  let ?us = "map (\<lambda>c. (c, 0)) (take len name) @ (if len < 13 then (0, 0) # replicate (12 - len) (0xFF, 0xFF) else [])"
  obtain r where r: "put_units g_lfn_indices ?us raw = Some r"
    using put_units_total [of g_lfn_indices raw ?us] lfn_indices(4) assms(1) by auto
  have e: "put_lfn_name_frag raw name len = put_units g_lfn_indices ?us raw"
    using assms(2,3) by (simp add: put_lfn_name_frag_def)
  have k: "length r = 32" "\<forall>j \<in> {0, 11, 12, 13, 26, 27}. r ! j = raw ! j"
    using put_units_keeps [OF r] assms(1) by (auto simp: g_lfn_indices_def)
  have "parse_frag r g_lfn_indices pos g n = Some (False, take pos g @ take len name @ drop (pos + length (take len name)) g, n + of_nat (length (take len name)))"
    by (rule parse_put_units [OF r lfn_indices(1,2)])
      (use lfn_indices assms in auto)
  then show ?thesis using e r k assms(2) by (simp add: min_absorb2)
qed

end
