(* ===== verification/Fat_Directory.thy ===== *)
theory Fat_Directory
  imports Fat_Table Fat_Names
begin

section \<open>Directories of the FAT32 library\<close>

text \<open>
  \<^verbatim>\<open>libs/fat32/fat.c\<close> from \<^verbatim>\<open>dir_at_clust\<close> to \<^verbatim>\<open>dir_add\<close>. A \<^verbatim>\<open>Sfn*\<close> or \<^verbatim>\<open>Lfn*\<close> points into the buffered sector: reading through it reads
  the rest of the buffer from the entry on, writing through it is \<open>poke_entry\<close>.
\<close>

abbreviation (input) FAT_ATTR_RO :: "8 word" where "FAT_ATTR_RO \<equiv> 1"
abbreviation (input) FAT_ATTR_SYS :: "8 word" where "FAT_ATTR_SYS \<equiv> 4"
abbreviation (input) FAT_ATTR_LABEL :: "8 word" where "FAT_ATTR_LABEL \<equiv> 8"
abbreviation (input) FAT_ATTR_DIR :: "8 word" where "FAT_ATTR_DIR \<equiv> 0x10"
abbreviation (input) FAT_ATTR_ARCHIVE :: "8 word" where "FAT_ATTR_ARCHIVE \<equiv> 0x20"
abbreviation (input) FAT_ATTR_LFN :: "8 word" where "FAT_ATTR_LFN \<equiv> 0x0F"
abbreviation (input) LFN_HEAD_MSK :: "8 word" where "LFN_HEAD_MSK \<equiv> 0x40"
abbreviation (input) LFN_SEQ_MSK :: "8 word" where "LFN_SEQ_MSK \<equiv> 0x1F"

subsection \<open>Moving through a directory\<close>

definition dir_at_clust :: "dir_handle \<Rightarrow> 32 word \<Rightarrow> (unit, 'd) fat_op" where
  "dir_at_clust q clust = fs_bind (dir_fat q) (\<lambda>p. fs_bind (the_fat p) (\<lambda>fat.
     fs_modify (upd_dir q (\<lambda>dr. dr\<lparr>d_clust := clust, d_sect := clust_to_sect fat clust, d_idx := 0\<rparr>))))"

definition dir_enter :: "dir_handle \<Rightarrow> 32 word \<Rightarrow> (unit, 'd) fat_op" where
  "dir_enter q clust = fs_bind (dir_fat q) (\<lambda>p. fs_bind (the_fat p) (\<lambda>fat.
     let c = (if clust = 0 then f_root_clust fat else clust) in
     fs_then (fs_modify (upd_dir q (d_sclust_update (\<lambda>_. c)))) (dir_at_clust q c)))"

definition dir_next :: "dir_handle \<Rightarrow> (unit, 'd) fat_op" where
  "dir_next q = fs_then (fs_modify (upd_dir q (\<lambda>dr. dr\<lparr>d_idx := d_idx dr + 32\<rparr>))) (fs_bind (the_dir q) (\<lambda>dr.
     if d_idx dr < 512 then fs_return ()
     else fs_then (fs_modify (upd_dir q (\<lambda>dr. dr\<lparr>d_idx := 0, d_sect := d_sect dr + 1\<rparr>)))
       (fs_bind (dir_fat q) (\<lambda>p. fs_bind (the_fat p) (\<lambda>fat. fs_bind (the_dir q) (\<lambda>d1.
         if d_sect d1 AND f_clust_msk fat \<noteq> 0 then fs_return ()
         else fs_bind (get_fat p (d_clust d1)) (\<lambda>(nxt, flags).
           if flags AND (CLUST_BAD OR CLUST_FREE) \<noteq> 0 then fs_fail FAT_ERR_BROKEN
           else if flags AND CLUST_LAST \<noteq> 0 then fs_fail FAT_ERR_EOF
           else dir_at_clust q nxt)))))))"

primrec dir_advance :: "dir_handle \<Rightarrow> nat \<Rightarrow> (unit, 'd) fat_op" where
  "dir_advance q 0 = fs_return ()"
| "dir_advance q (Suc n) = fs_then (dir_next q) (dir_advance q n)"

definition dir_next_stretch :: "dir_handle \<Rightarrow> (unit, 'd) fat_op" where
  "dir_next_stretch q = fs_bind (fs_code (dir_next q)) (\<lambda>err.
     if err \<noteq> FAT_ERR_EOF then (if err \<noteq> 0 then fs_fail err else fs_return ())
     else fs_bind (dir_fat q) (\<lambda>p. fs_bind (the_dir q) (\<lambda>dr.
       fs_bind (stretch_chain p (d_clust dr)) (\<lambda>nxt.
         fs_then (dir_at_clust q nxt) (clust_clear p nxt)))))"

subsection \<open>Entries\<close>

definition dir_ptr :: "dir_handle \<Rightarrow> (8 word list, 'd) fat_op" where
  "dir_ptr q = fs_bind (dir_fat q) (\<lambda>p. fs_bind (the_fat p) (\<lambda>fat. fs_bind (the_dir q) (\<lambda>dr.
     fs_return (drop (unat (d_idx dr)) (f_buf fat)))))"

definition poke_sector :: "nat \<Rightarrow> nat \<Rightarrow> (8 word list \<Rightarrow> 8 word list option) \<Rightarrow> (unit, 'd) fat_op" where
  "poke_sector p i g = fs_bind (the_fat p) (\<lambda>fat. fs_bind (fs_lift (g (drop i (f_buf fat)))) (\<lambda>e.
     set_buf p (take i (f_buf fat) @ e)))"

definition poke_entry :: "dir_handle \<Rightarrow> (8 word list \<Rightarrow> 8 word list option) \<Rightarrow> (unit, 'd) fat_op" where
  "poke_entry q g = fs_bind (dir_fat q) (\<lambda>p. fs_bind (the_dir q) (\<lambda>dr. poke_sector p (unat (d_idx dr)) g))"

definition sfn_is_last :: "8 word list \<Rightarrow> bool option" where
  "sfn_is_last sfn = map_option (\<lambda>c. c = SFN_LAST) (rd8 sfn 0)"

definition sfn_is_free :: "8 word list \<Rightarrow> bool option" where
  "sfn_is_free sfn = map_option (\<lambda>c. c = SFN_LAST \<or> c = SFN_FREE) (rd8 sfn 0)"

definition sfn_is_lfn :: "8 word list \<Rightarrow> bool option" where
  "sfn_is_lfn sfn = map_option (\<lambda>a. a = FAT_ATTR_LFN) (rd8 sfn 11)"

definition sfn_cluster :: "8 word list \<Rightarrow> 32 word option" where
  "sfn_cluster sfn = do {
     hi \<leftarrow> rd16 sfn 20;
     lo \<leftarrow> rd16 sfn 26;
     Some (push_bit 16 (ucast hi) OR ucast lo)
   }"

definition load_entry :: "dir_handle \<Rightarrow> (8 word list, 'd) fat_op" where
  "load_entry q = fs_bind (dir_fat q) (\<lambda>p. fs_bind (the_dir q) (\<lambda>dr.
     fs_then (update_buf p (d_sect dr)) (dir_ptr q)))"

subsection \<open>Long names\<close>

primrec lfn_loop :: "dir_handle \<Rightarrow> nat \<Rightarrow> (unit, 'd) fat_op" where
  "lfn_loop q 0 = fs_return ()"
| "lfn_loop q (Suc cnt) = fs_bind (dir_ptr q) (\<lambda>lfn. fs_bind (fs_get id) (\<lambda>s.
     fs_bind (fs_lift (rd8 lfn 11)) (\<lambda>attr. fs_bind (fs_lift (rd8 lfn 13)) (\<lambda>crc.
       if attr \<noteq> FAT_ATTR_LFN \<or> crc \<noteq> fs_crc s then fs_fail FAT_ERR_BROKEN
       else fs_bind (fs_lift (parse_frag lfn g_lfn_indices (13 * cnt) (fs_buf s) (fs_len s))) (\<lambda>(broken, g, len).
         fs_then (fs_modify (\<lambda>s. s\<lparr>fs_buf := g, fs_len := len\<rparr>))
           (if broken then fs_fail FAT_ERR_BROKEN
            else fs_then (dir_next q) (fs_bind (load_entry q) (\<lambda>_. lfn_loop q cnt))))))))"

definition parse_lfn_name :: "dir_handle \<Rightarrow> (unit, 'd) fat_op" where
  "parse_lfn_name q = fs_bind (load_entry q) (\<lambda>lfn.
     fs_bind (fs_lift (rd8 lfn 13)) (\<lambda>crc. fs_bind (fs_lift (rd8 lfn 0)) (\<lambda>seq.
       fs_then (fs_modify (\<lambda>s. s\<lparr>fs_crc := crc, fs_len := 0\<rparr>))
         (if seq AND LFN_HEAD_MSK = 0 then fs_fail FAT_ERR_BROKEN
          else if 20 < seq AND LFN_SEQ_MSK then fs_fail FAT_ERR_BROKEN
          else fs_then (lfn_loop q (unat (seq AND LFN_SEQ_MSK))) (fs_bind (fs_get fs_len) (\<lambda>len.
            if len \<le> 255 then fs_return () else fs_fail FAT_ERR_BROKEN))))))"

subsection \<open>Search\<close>

text \<open>\<^verbatim>\<open>memcmp(xs, ys, n) == 0\<close> on bytes.\<close>

definition bytes_equal :: "8 word list \<Rightarrow> 8 word list \<Rightarrow> nat \<Rightarrow> bool option" where
  "bytes_equal xs ys n = (if n \<le> length xs \<and> n \<le> length ys then Some (take n xs = take n ys) else None)"

definition set_loc :: "dir_handle \<Rightarrow> (unit, 'd) fat_op" where
  "set_loc q = fs_bind (the_dir q) (\<lambda>dr. fs_modify (\<lambda>s. s\<lparr>fs_loc := Some \<lparr>loc_sect = d_sect dr, loc_idx = d_idx dr\<rparr>\<rparr>))"

text \<open>The entry behind the fragments of a long name: does it belong to them, and is it the one searched for?\<close>

definition lfn_belongs :: "8 word list \<Rightarrow> 8 word \<Rightarrow> bool option" where
  "lfn_belongs sfn crc = do {
     free \<leftarrow> sfn_is_free sfn;
     lfn \<leftarrow> sfn_is_lfn sfn;
     c \<leftarrow> get_crc sfn;
     Some (\<not> free \<and> \<not> lfn \<and> crc = c)
   }"

definition lfn_matches :: "8 word list \<Rightarrow> 16 word \<Rightarrow> 8 word list \<Rightarrow> nat \<Rightarrow> bool option" where
  "lfn_matches g g_len name len = (if unat g_len = len then bytes_equal g name len else Some False)"

partial_function (option) search_loop :: "dir_handle \<Rightarrow> 8 word list \<Rightarrow> nat \<Rightarrow> 8 word list \<Rightarrow> bool \<Rightarrow> 'd fat_state
    \<Rightarrow> ((int + unit) \<times> 'd fat_state) option" where
  "search_loop q name len sfn_name with_loc s = fs_bind (load_entry q) (\<lambda>sfn.
     fs_bind (fs_lift (sfn_is_last sfn)) (\<lambda>last_entry. fs_bind (fs_lift (sfn_is_free sfn)) (\<lambda>free.
       if last_entry then fs_fail FAT_ERR_EOF
       else if free then fs_then (dir_next q) (search_loop q name len sfn_name with_loc)
       else fs_then (fs_when with_loc (set_loc q)) (fs_bind (fs_lift (sfn_is_lfn sfn)) (\<lambda>lfn.
         if lfn
         then fs_then (parse_lfn_name q) (fs_bind (dir_ptr q) (\<lambda>sfn1. fs_bind (fs_get id) (\<lambda>s1.
           fs_bind (fs_lift (lfn_belongs sfn1 (fs_crc s1))) (\<lambda>belongs.
             if \<not> belongs then fs_fail FAT_ERR_BROKEN
             else fs_bind (fs_lift (lfn_matches (fs_buf s1) (fs_len s1) name len)) (\<lambda>found.
               if found then fs_return () else fs_then (dir_next q) (search_loop q name len sfn_name with_loc))))))
         else fs_bind (fs_lift (bytes_equal sfn_name sfn 11)) (\<lambda>found.
           if found then fs_return () else fs_then (dir_next q) (search_loop q name len sfn_name with_loc))))))) s"

definition dir_search :: "dir_handle \<Rightarrow> 8 word list \<Rightarrow> nat \<Rightarrow> bool \<Rightarrow> (unit, 'd) fat_op" where
  "dir_search q name len with_loc = fs_bind (fs_lift (put_sfn_name name len)) (\<lambda>sfn_name.
     fs_bind (the_dir q) (\<lambda>dr. fs_then (dir_at_clust q (d_sclust dr)) (search_loop q name len sfn_name with_loc)))"

definition dir_at_root :: "dir_handle \<Rightarrow> (bool, 'd) fat_op" where
  "dir_at_root q = fs_bind (dir_fat q) (\<lambda>p. fs_bind (the_fat p) (\<lambda>fat. fs_bind (the_dir q) (\<lambda>dr.
     fs_return (d_clust dr = f_root_clust fat \<and> d_sect dr = clust_to_sect fat (f_root_clust fat) \<and> d_idx dr = 0))))"

subsection \<open>Paths\<close>

partial_function (option) find_volume :: "8 word list \<Rightarrow> nat \<Rightarrow> nat option \<Rightarrow> 'd fat_state \<Rightarrow> ((int + nat option) \<times> 'd fat_state) option" where
  "find_volume name len it s = (case it of
     None \<Rightarrow> Some (Inr None, s)
   | Some p \<Rightarrow> (let fat = fs_fats s p in
       if len = unat (f_name_len fat)
       then Option.bind (bytes_equal name (f_name fat) len) (\<lambda>eq.
         if eq then Some (Inr (Some p), s) else find_volume name len (f_next fat) s)
       else find_volume name len (f_next fat) s))"

definition find_fat_volume :: "8 word list \<Rightarrow> nat \<Rightarrow> (nat option, 'd) fat_op" where
  "find_fat_volume name len = fs_bind (fs_get fs_list) (\<lambda>it. find_volume name len it)"

text \<open>
  The result is the error code together with \<^verbatim>\<open>*path\<close>, the component at which the walk stopped; the callers use both.
\<close>

function follow_loop :: "dir_handle \<Rightarrow> bool \<Rightarrow> 32 word \<Rightarrow> bool \<Rightarrow> 8 word list \<Rightarrow> (int \<times> 8 word list, 'd) fat_op" where
  "follow_loop q with_loc dir_clust dir_enterable str =
     (case skip_slashes str of None \<Rightarrow> fs_lift None
      | Some str1 \<Rightarrow> (case subpath_len str1 of None \<Rightarrow> fs_lift None
        | Some len \<Rightarrow>
            if len = 0 then fs_return (0, str1)
            else if \<not> dir_enterable then fs_return (FAT_ERR_PATH, str1)
            else fs_then (dir_enter q dir_clust) (fs_bind (fs_code (dir_search q str1 len with_loc)) (\<lambda>err.
              if err \<noteq> 0 then fs_return (err, str1)
              else fs_bind (dir_ptr q) (\<lambda>sfn. fs_bind (fs_lift (sfn_cluster sfn)) (\<lambda>clust. fs_bind (fs_lift (rd8 sfn 11)) (\<lambda>attr.
                follow_loop q with_loc clust (attr AND FAT_ATTR_DIR \<noteq> 0) (drop len str1))))))))"
  by pat_completeness auto

lemma skip_slashes_length: "skip_slashes str = Some t \<Longrightarrow> length t \<le> length str \<and> t \<noteq> []"
  by (induction str) (auto split: if_splits)

termination follow_loop
proof (relation "measure (\<lambda>(q, l, c, e, str). length str)", goal_cases)
  case (2 q l c e str str1 len)
  then show ?case using skip_slashes_length [of str str1] by (cases str1) auto
qed simp

declare follow_loop.simps [simp del]

definition follow_path :: "dir_handle \<Rightarrow> bool \<Rightarrow> 8 word list \<Rightarrow> (int \<times> 8 word list, 'd) fat_op" where
  "follow_path q with_loc path = (case path of
     [] \<Rightarrow> fs_lift None
   | c # str \<Rightarrow>
       if c \<noteq> 0x2F then fs_return (FAT_ERR_PATH, path)
       else fs_bind (fs_lift (subpath_len str)) (\<lambda>len.
         if len = 0 then fs_return (FAT_ERR_PATH, path)
         else fs_bind (find_fat_volume str len) (\<lambda>vol.
           fs_then (fs_modify (upd_dir q (d_fat_update (\<lambda>_. vol)))) (case vol of
             None \<Rightarrow> fs_return (FAT_ERR_PATH, path)
           | Some p \<Rightarrow> fs_bind (the_fat p) (\<lambda>fat. fs_then (dir_enter q (f_root_clust fat))
               (fs_bind (the_dir q) (\<lambda>dr. follow_loop q with_loc (d_clust dr) True (drop len str))))))))"

subsection \<open>Removing and adding entries\<close>

partial_function (option) remove_entries_loop :: "dir_handle \<Rightarrow> 32 word \<Rightarrow> 16 word \<Rightarrow> 'd fat_state \<Rightarrow> ((int + unit) \<times> 'd fat_state) option" where
  "remove_entries_loop q sect idx s = fs_bind (load_entry q) (\<lambda>_. fs_bind (dir_fat q) (\<lambda>p.
     fs_then (poke_entry q (\<lambda>sfn. wr8 sfn 0 SFN_FREE)) (fs_then (set_flag p FAT_BUF_DIRTY) (fs_bind (the_dir q) (\<lambda>dr.
       if d_sect dr = sect \<and> d_idx dr = idx then fs_return ()
       else fs_then (dir_next q) (remove_entries_loop q sect idx)))))) s"

definition rewind_to :: "dir_handle \<Rightarrow> 32 word \<Rightarrow> 16 word \<Rightarrow> (unit, 'd) fat_op" where
  "rewind_to q sect idx = fs_bind (dir_fat q) (\<lambda>p. fs_bind (the_fat p) (\<lambda>fat.
     fs_modify (upd_dir q (\<lambda>dr. dr\<lparr>d_clust := sect_to_clust fat sect, d_sect := sect, d_idx := idx\<rparr>))))"

definition remove_entries :: "dir_handle \<Rightarrow> (unit, 'd) fat_op" where
  "remove_entries q = fs_bind (the_dir q) (\<lambda>dr. fs_bind (fs_get fs_loc) (\<lambda>lc. fs_bind (fs_lift lc) (\<lambda>loc.
     fs_then (rewind_to q (loc_sect loc) (loc_idx loc)) (remove_entries_loop q (d_sect dr) (d_idx dr)))))"

text \<open>The search for \<open>need\<close> consecutive free entries.\<close>

partial_function (option) find_slots :: "dir_handle \<Rightarrow> nat \<Rightarrow> nat \<Rightarrow> bool \<Rightarrow> 32 word \<Rightarrow> 16 word \<Rightarrow> 'd fat_state
    \<Rightarrow> ((int + bool \<times> 32 word \<times> 16 word) \<times> 'd fat_state) option" where
  "find_slots q need cnt eod sect idx s =
     (if cnt < need
      then fs_bind (load_entry q) (\<lambda>sfn. fs_bind (fs_lift (sfn_is_free sfn)) (\<lambda>free. fs_bind (fs_lift (sfn_is_last sfn)) (\<lambda>last_entry.
        fs_bind (the_dir q) (\<lambda>dr. fs_then (dir_next_stretch q)
          (find_slots q need (if eod \<or> free then cnt + 1 else 0) (eod \<or> last_entry)
            (if (eod \<or> free) \<and> cnt = 0 then d_sect dr else sect) (if (eod \<or> free) \<and> cnt = 0 then d_idx dr else idx))))))
      else fs_return (eod, sect, idx)) s"

definition lfn_entry :: "8 word list \<Rightarrow> nat \<Rightarrow> 8 word \<Rightarrow> 8 word \<Rightarrow> nat \<Rightarrow> 8 word list \<Rightarrow> 8 word list option" where
  "lfn_entry name len crc head i lfn = do {
     e1 \<leftarrow> put_lfn_name_frag lfn (drop (13 * (i - 1)) name) (min (len - 13 * (i - 1)) 13);
     e2 \<leftarrow> wr8 e1 11 FAT_ATTR_LFN;
     e3 \<leftarrow> wr8 e2 0 (head OR of_nat i);
     e4 \<leftarrow> wr8 e3 13 crc;
     e5 \<leftarrow> wr8 e4 12 0;
     wr16 e5 26 0
   }"

primrec add_lfns :: "dir_handle \<Rightarrow> 8 word list \<Rightarrow> nat \<Rightarrow> 8 word \<Rightarrow> 8 word \<Rightarrow> nat \<Rightarrow> (unit, 'd) fat_op" where
  "add_lfns q name len crc head 0 = fs_return ()"
| "add_lfns q name len crc head (Suc i) = fs_bind (load_entry q) (\<lambda>_. fs_bind (dir_fat q) (\<lambda>p.
     fs_then (set_flag p FAT_BUF_DIRTY) (fs_then (poke_entry q (lfn_entry name len crc head (Suc i)))
       (fs_then (dir_next q) (add_lfns q name len crc 0 i)))))"

definition sfn_entry :: "8 word list \<Rightarrow> 32 word \<Rightarrow> 8 word \<Rightarrow> 8 word list \<Rightarrow> 8 word list option" where
  "sfn_entry sfn_name clust attr sfn = (case encode_timestamp of (date, time) \<Rightarrow> do {
     e0 \<leftarrow> (if 11 \<le> length sfn \<and> length sfn_name = 11 then Some (sfn_name @ drop 11 sfn) else None);
     e1 \<leftarrow> wr16 e0 20 (ucast (drop_bit 16 clust));
     e2 \<leftarrow> wr16 e1 26 (ucast (clust AND 0xFFFF));
     e3 \<leftarrow> wr8 e2 11 attr;
     e4 \<leftarrow> wr8 e3 12 0;
     e5 \<leftarrow> wr8 e4 13 0;
     e6 \<leftarrow> wr16 e5 14 time;
     e7 \<leftarrow> wr16 e6 22 time;
     e8 \<leftarrow> wr16 e7 16 date;
     e9 \<leftarrow> wr16 e8 24 date;
     e10 \<leftarrow> wr16 e9 18 date;
     wr32 e10 28 0
   })"

definition dir_add :: "dir_handle \<Rightarrow> 8 word list \<Rightarrow> nat \<Rightarrow> 8 word \<Rightarrow> 32 word \<Rightarrow> (unit, 'd) fat_op" where
  "dir_add q name len attr clust =
     (if len = 0 \<or> 255 < len then fs_fail FAT_ERR_PARAM
      else let lfns = (len + 12) div 13 in
        fs_bind (the_dir q) (\<lambda>dr. fs_then (dir_enter q (d_sclust dr)) (
        fs_bind (find_slots q (lfns + 1) 0 False 0 0) (\<lambda>(eod, sect, idx). fs_bind (dir_fat q) (\<lambda>p.
        fs_then (fs_when eod (fs_bind (load_entry q) (\<lambda>_.
          fs_then (poke_entry q (\<lambda>sfn. wr8 sfn 0 0)) (set_flag p FAT_BUF_DIRTY)))) (
        fs_then (rewind_to q sect idx) (
        fs_bind (fs_lift (put_sfn_name name len)) (\<lambda>sfn_name. fs_bind (fs_lift (get_crc sfn_name)) (\<lambda>crc.
        fs_then (add_lfns q name len crc LFN_HEAD_MSK lfns) (
        fs_bind (load_entry q) (\<lambda>_. fs_then (set_flag p FAT_BUF_DIRTY) (
          poke_entry q (sfn_entry sfn_name clust attr)))))))))))))"

end
