(* ===== verification/Fat_Volume.thy ===== *)
theory Fat_Volume
  imports Fat_Directory
begin

section \<open>Volumes of the FAT32 library\<close>

text \<open>
  \<^verbatim>\<open>libs/fat32/fat.c\<close> from \<^verbatim>\<open>get_part_lba\<close> to \<^verbatim>\<open>fat_sync\<close>: recognising a FAT32 file system, mounting and unmounting it. The packed
  structs \<^verbatim>\<open>Mbr\<close>, \<^verbatim>\<open>Bpb\<close> and \<^verbatim>\<open>FsInfo\<close> are read at their offsets.
\<close>

definition get_part_lba :: "8 word list \<Rightarrow> nat \<Rightarrow> 32 word option option" where
  "get_part_lba buf part = do {
     sig \<leftarrow> rd16 buf 510;
     if sig \<noteq> 0xAA55 then Some None
     else if 4 \<le> part then None
     else do {
       type \<leftarrow> rd8 buf (446 + 16 * part + 4);
       if type \<noteq> 0x0C then Some None
       else map_option Some (rd32 buf (446 + 16 * part + 8))
     }
   }"

text \<open>The count of clusters is a division by \<^verbatim>\<open>sect_per_clust\<close>.\<close>

definition check_fat :: "8 word list \<Rightarrow> bool option" where
  "check_fat buf = do {
     jump \<leftarrow> rd8 buf 0; fat_cnt \<leftarrow> rd8 buf 16; root_ent_cnt \<leftarrow> rd16 buf 17; sect_cnt_16 \<leftarrow> rd16 buf 19;
     sect_per_fat_16 \<leftarrow> rd16 buf 22; info_sect \<leftarrow> rd16 buf 48; fs_type \<leftarrow> bytes_equal (drop 82 buf) (map of_char ''FAT32   '') 8;
     bytes_per_sect \<leftarrow> rd16 buf 11; ext_flags \<leftarrow> rd16 buf 40; sect_cnt_32 \<leftarrow> rd32 buf 32; res_sect_cnt \<leftarrow> rd16 buf 14;
     sect_per_fat_32 \<leftarrow> rd32 buf 36; sect_per_clust \<leftarrow> rd8 buf 13;
     if jump \<noteq> 0xEB \<and> jump \<noteq> 0xE9 then Some False
     else if fat_cnt \<noteq> 2 then Some False
     else if root_ent_cnt \<noteq> 0 \<or> sect_cnt_16 \<noteq> 0 \<or> sect_per_fat_16 \<noteq> 0 then Some False
     else if info_sect \<noteq> 1 then Some False
     else if \<not> fs_type then Some False
     else if bytes_per_sect \<noteq> 512 then Some False
     else if ext_flags AND 0x80 = 0 \<and> 1 < ext_flags AND 0x0F then Some False
     else if sect_per_clust = 0 then None
     else Some (65525 \<le> (sect_cnt_32 - (ucast res_sect_cnt + ucast fat_cnt * sect_per_fat_32)) div ucast sect_per_clust)
   }"

definition read_global :: "'d DiskOps \<Rightarrow> 32 word \<Rightarrow> (bool, 'd) fat_op" where
  "read_global ops sect = fs_bind (fs_get fs_buf) (\<lambda>g. fs_bind (disk_read ops g sect) (\<lambda>(ok, b).
     fs_then (fs_modify (fs_buf_update (\<lambda>_. b))) (fs_return ok)))"

definition probe :: "'d DiskOps \<Rightarrow> nat \<Rightarrow> (32 word, 'd) fat_op" where
  "probe ops part = fs_bind (read_global ops 0) (\<lambda>ok.
     if \<not> ok then fs_fail FAT_ERR_IO
     else fs_bind (fs_get fs_buf) (\<lambda>b. fs_bind (fs_lift (check_fat b)) (\<lambda>is_fat.
       if is_fat then (if part = 0 then fs_return 0 else fs_fail FAT_ERR_NOFAT)
       else fs_bind (fs_lift (get_part_lba b part)) (\<lambda>r. case r of
           None \<Rightarrow> fs_fail FAT_ERR_NOFAT
         | Some lba \<Rightarrow> fs_bind (read_global ops lba) (\<lambda>ok.
             if \<not> ok then fs_fail FAT_ERR_IO
             else fs_bind (fs_get fs_buf) (\<lambda>b. fs_bind (fs_lift (check_fat b)) (\<lambda>is_fat.
               if is_fat then fs_return lba else fs_fail FAT_ERR_NOFAT)))))))"

definition fat_probe :: "'d DiskOps \<Rightarrow> nat \<Rightarrow> (unit, 'd) fat_op" where
  "fat_probe ops part = fs_bind (probe ops part) (\<lambda>_. fs_return ())"

text \<open>\<^verbatim>\<open>__builtin_ctz\<close> of a byte, undefined for zero; \<^verbatim>\<open>strlen\<close> on bytes.\<close>

definition ctz :: "8 word \<Rightarrow> nat option" where
  "ctz b = find (bit b) [0..<8]"

primrec byte_strlen :: "8 word list \<Rightarrow> nat option" where
  "byte_strlen [] = None"
| "byte_strlen (c # cs) = (if c \<noteq> 0 then map_option Suc (byte_strlen cs) else Some 0)"

definition set_geometry :: "8 word list \<Rightarrow> 32 word \<Rightarrow> 'd Fat \<Rightarrow> 'd Fat option" where
  "set_geometry bpb lba fat = do {
     ext_flags \<leftarrow> rd16 bpb 40; res_sect_cnt \<leftarrow> rd16 bpb 14; sect_per_fat_32 \<leftarrow> rd32 bpb 36; sect_per_clust \<leftarrow> rd8 bpb 13;
     root_cluster \<leftarrow> rd32 bpb 44; info_sect \<leftarrow> rd16 bpb 48; fat_cnt \<leftarrow> rd8 bpb 16; shift \<leftarrow> ctz sect_per_clust;
     let mirror = ext_flags AND 0x80 \<noteq> 0; use_first = ext_flags AND 1 = 0;
       fat_0 = lba + ucast res_sect_cnt; fat_1 = lba + ucast res_sect_cnt + sect_per_fat_32 in
     Some (fat\<lparr>f_clust_shift := of_nat shift, f_clust_msk := ucast sect_per_clust - 1, f_clust_cnt := sect_per_fat_32 * 128,
       f_root_clust := root_cluster, f_fat_sect0 := (if use_first then fat_0 else fat_1),
       f_fat_sect1 := (if mirror then (if use_first then fat_1 else fat_0) else 0), f_info_sect := lba + ucast info_sect,
       f_data_sect := lba + ucast res_sect_cnt + ucast fat_cnt * sect_per_fat_32\<rparr>)
   }"

definition info_valid :: "8 word list \<Rightarrow> (32 word \<times> 32 word) option option" where
  "info_valid info = do {
     tail_sig \<leftarrow> rd32 info 508; head_sig \<leftarrow> rd32 info 0; struct_sig \<leftarrow> rd32 info 484; next_free \<leftarrow> rd32 info 492; free_cnt \<leftarrow> rd32 info 488;
     Some (if tail_sig \<noteq> 0xAA550000 \<or> head_sig \<noteq> 0x41615252 \<or> struct_sig \<noteq> 0x61417272 \<or> next_free = 0xFFFFFFFF \<or> free_cnt = 0xFFFFFFFF
       then None else Some (next_free, free_cnt))
   }"

definition fat_mount :: "'d DiskOps \<Rightarrow> nat \<Rightarrow> nat \<Rightarrow> 8 word list \<Rightarrow> (unit, 'd) fat_op" where
  "fat_mount ops part p name = fs_bind (probe ops part) (\<lambda>lba.
     fs_bind (fs_get fs_buf) (\<lambda>bpb. fs_bind (the_fat p) (\<lambda>fat. fs_bind (fs_lift (set_geometry bpb lba fat)) (\<lambda>f1.
     fs_then (fs_modify (upd_fat p (\<lambda>_. f1))) (
     fs_bind (read_global ops (f_info_sect f1)) (\<lambda>ok.
       if \<not> ok then fs_fail FAT_ERR_IO
       else fs_bind (fs_get fs_buf) (\<lambda>info. fs_bind (fs_lift (info_valid info)) (\<lambda>r. case r of
           None \<Rightarrow> fs_fail FAT_ERR_NOFAT
         | Some (next_free, free_cnt) \<Rightarrow>
             fs_then (fs_modify (upd_fat p (\<lambda>f. f\<lparr>f_last_used := next_free, f_free_cnt := free_cnt\<rparr>))) (
             fs_bind (fs_lift (byte_strlen name)) (\<lambda>name_len.
               if 32 < name_len then fs_fail FAT_ERR_PARAM
               else fs_then (fs_modify (upd_fat p (\<lambda>f. f\<lparr>f_name := take name_len name @ drop name_len (f_name f),
                   f_name_len := of_nat name_len, f_ops := ops, f_sect := 0\<rparr>))) (
                 fs_modify (\<lambda>s. (upd_fat p (f_next_update (\<lambda>_. fs_list s)) s)\<lparr>fs_list := Some p\<rparr>))))))))))))"

text \<open>The walk with \<^verbatim>\<open>Fat** it\<close>: the field that points to the volume, \<open>None\<close> for the head of the list.\<close>

partial_function (option) find_link :: "nat \<Rightarrow> nat option \<Rightarrow> nat option \<Rightarrow> 'd fat_state \<Rightarrow> ((int + nat option) \<times> 'd fat_state) option" where
  "find_link p link it s = (case it of
     None \<Rightarrow> Some (Inl FAT_ERR_PARAM, s)
   | Some v \<Rightarrow> if v = p then Some (Inr link, s) else find_link p (Some v) (f_next (fs_fats s v)) s)"

definition fat_umount :: "nat \<Rightarrow> (unit, 'd) fat_op" where
  "fat_umount p = fs_bind (fs_get fs_list) (\<lambda>it. fs_bind (find_link p None it) (\<lambda>link. fs_bind (the_fat p) (\<lambda>fat.
     fs_then (case link of
         None \<Rightarrow> fs_modify (fs_list_update (\<lambda>_. f_next fat))
       | Some v \<Rightarrow> fs_modify (upd_fat v (f_next_update (\<lambda>_. f_next fat)))) (sync_fs p))))"

definition fat_sync :: "nat \<Rightarrow> (unit, 'd) fat_op" where
  "fat_sync p = sync_fs p"

end
