(* ===== verification/Fat_Files.thy ===== *)
theory Fat_Files
  imports Fat_Volume
begin

section \<open>Files and directories of the FAT32 library\<close>

text \<open>
  The public functions of \<^verbatim>\<open>libs/fat32/fat.c\<close> on paths, files and directories. A file has a sector of its own
  as a buffer; \<^verbatim>\<open>fat_file_seek\<close> moves it along the chain of clusters, which it extends behind its end.
\<close>

abbreviation (input) FAT_WRITE :: "8 word" where "FAT_WRITE \<equiv> 1"
abbreviation (input) FAT_READ :: "8 word" where "FAT_READ \<equiv> 2"
abbreviation (input) FAT_APPEND :: "8 word" where "FAT_APPEND \<equiv> 4"
abbreviation (input) FAT_TRUNC :: "8 word" where "FAT_TRUNC \<equiv> 8"
abbreviation (input) FAT_CREATE :: "8 word" where "FAT_CREATE \<equiv> 0x10"
abbreviation (input) FAT_ACCESSED :: "8 word" where "FAT_ACCESSED \<equiv> 0x20"
abbreviation (input) FAT_MODIFIED :: "8 word" where "FAT_MODIFIED \<equiv> 0x40"
abbreviation (input) FAT_FILE_DIRTY :: "8 word" where "FAT_FILE_DIRTY \<equiv> 0x80"

datatype seek = FAT_SEEK_START | FAT_SEEK_CURR | FAT_SEEK_END

subsection \<open>Seeking\<close>

primrec seek_loop :: "64 word \<Rightarrow> nat \<Rightarrow> nat \<Rightarrow> (unit, 'd) fat_op" where
  "seek_loop a p 0 = fs_return ()"
| "seek_loop a p (Suc n) = fs_bind (the_file a) (\<lambda>fl. fs_bind (get_fat p (fl_clust fl)) (\<lambda>(nxt, flags).
     if flags AND (CLUST_BAD OR CLUST_FREE) \<noteq> 0 then fs_fail FAT_ERR_BROKEN
     else fs_bind (if flags AND CLUST_LAST \<noteq> 0 then stretch_chain p (fl_clust fl) else fs_return nxt) (\<lambda>c.
       fs_then (fs_modify (upd_file a (fl_clust_update (\<lambda>_. c)))) (seek_loop a p n))))"

definition refill :: "64 word \<Rightarrow> nat \<Rightarrow> 32 word \<Rightarrow> (unit, 'd) fat_op" where
  "refill a p ssect = fs_bind (the_file a) (\<lambda>fl. fs_bind (the_fat p) (\<lambda>fat.
     if fl_sect fl \<noteq> ssect
     then fs_then (fs_when (fl_flags fl AND FAT_FILE_DIRTY \<noteq> 0)
         (fs_bind (disk_write (f_ops fat) (fl_buf fl) ssect) (\<lambda>ok.
           if \<not> ok then fs_fail FAT_ERR_IO else fs_modify (upd_file a (\<lambda>f. f\<lparr>fl_flags := fl_flags f AND NOT FAT_FILE_DIRTY\<rparr>)))))
       (fs_bind (disk_read (f_ops fat) (fl_buf fl) (fl_sect fl)) (\<lambda>(ok, b).
         fs_then (fs_modify (upd_file a (fl_buf_update (\<lambda>_. b)))) (if \<not> ok then fs_fail FAT_ERR_IO else fs_return ())))
     else fs_return ()))"

definition seek_base :: "File \<Rightarrow> seek \<Rightarrow> int" where
  "seek_base fl sk = (case sk of FAT_SEEK_START \<Rightarrow> 0 | FAT_SEEK_CURR \<Rightarrow> uint (fl_offset fl) | FAT_SEEK_END \<Rightarrow> uint (fl_size fl))"

definition fat_file_seek :: "64 word \<Rightarrow> int \<Rightarrow> seek \<Rightarrow> (unit, 'd) fat_op" where
  "fat_file_seek a offset sk = fs_bind (the_file a) (\<lambda>fl. case fl_fat fl of
     None \<Rightarrow> fs_fail FAT_ERR_PARAM
   | Some p \<Rightarrow>
       let off64 = seek_base fl sk + offset in
       if off64 < 0 \<or> 0xFFFFFFFF < off64 then fs_fail FAT_ERR_EOF
       else fs_bind (the_fat p) (\<lambda>fat.
         let off = word_of_int off64 :: 32 word; clust_size = push_bit (unat (f_clust_shift fat)) 512;
           dst_clust = off div clust_size; src_clust = fl_offset fl div clust_size in
         if clust_size = 0 then fs_lift None
         else fs_then (fs_when (dst_clust < src_clust) (fs_modify (upd_file a (\<lambda>f.
             f\<lparr>fl_clust := fl_sclust f, fl_sect := clust_to_sect fat (fl_sclust f), fl_offset := 0\<rparr>))))
           (fs_then (seek_loop a p (unat (dst_clust - (if dst_clust < src_clust then 0 else src_clust))))
             (fs_then (fs_modify (upd_file a (\<lambda>f. f\<lparr>fl_sect := clust_to_sect fat (fl_clust f) + ((off div 512) AND f_clust_msk fat), fl_offset := off\<rparr>)))
               (refill a p (fl_sect fl))))))"

subsection \<open>Reading, writing, closing\<close>

text \<open>The result of reading and writing is the error code with the bytes read, or the number of bytes written.\<close>

definition read_chunk :: "File \<Rightarrow> int \<Rightarrow> nat option" where
  "read_chunk fl len = (let idx = unat (fl_offset fl) mod 512;
     cnt = min (unat (word_of_int len :: 32 word)) (min (512 - idx) (unat (fl_size fl - fl_offset fl))) in
     if idx + cnt \<le> length (fl_buf fl) then Some cnt else None)"

definition chunk_bytes :: "File \<Rightarrow> nat \<Rightarrow> 8 word list" where
  "chunk_bytes fl cnt = take cnt (drop (unat (fl_offset fl) mod 512) (fl_buf fl))"

partial_function (option) read_loop :: "64 word \<Rightarrow> int \<Rightarrow> 8 word list \<Rightarrow> 'd fat_state \<Rightarrow> ((int + int \<times> 8 word list) \<times> 'd fat_state) option" where
  "read_loop a len acc s = fs_bind (the_file a) (\<lambda>fl.
     if len \<noteq> 0 \<and> fl_offset fl < fl_size fl
     then fs_bind (fs_lift (read_chunk fl len)) (\<lambda>cnt.
       fs_bind (fs_code (fat_file_seek a (int cnt) FAT_SEEK_CURR)) (\<lambda>err.
         if err \<noteq> 0 then fs_return (err, acc @ chunk_bytes fl cnt)
         else read_loop a (len - int cnt) (acc @ chunk_bytes fl cnt)))
     else fs_return (0, acc)) s"

definition fat_file_read :: "64 word \<Rightarrow> int \<Rightarrow> (int \<times> 8 word list, 'd) fat_op" where
  "fat_file_read a len = fs_bind (the_file a) (\<lambda>fl.
     if fl_fat fl = None then fs_return (FAT_ERR_PARAM, [])
     else if fl_flags fl AND FAT_READ = 0 then fs_return (FAT_ERR_DENIED, [])
     else fs_then (fs_modify (upd_file a (\<lambda>f. f\<lparr>fl_flags := fl_flags f OR FAT_ACCESSED\<rparr>))) (read_loop a len []))"

definition write_chunk :: "File \<Rightarrow> 8 word list \<Rightarrow> int \<Rightarrow> nat option" where
  "write_chunk fl src len = (let idx = unat (fl_offset fl) mod 512; cnt = min len (512 - int idx) in
     if 0 \<le> cnt \<and> nat cnt \<le> length src \<and> idx + nat cnt \<le> length (fl_buf fl) then Some (nat cnt) else None)"

definition store_chunk :: "8 word list \<Rightarrow> nat \<Rightarrow> File \<Rightarrow> File" where
  "store_chunk src cnt fl = (let idx = unat (fl_offset fl) mod 512 in
     fl\<lparr>fl_buf := take idx (fl_buf fl) @ take cnt src @ drop (idx + cnt) (fl_buf fl), fl_flags := fl_flags fl OR FAT_FILE_DIRTY\<rparr>)"

partial_function (option) write_loop :: "64 word \<Rightarrow> 8 word list \<Rightarrow> int \<Rightarrow> int \<Rightarrow> 'd fat_state \<Rightarrow> ((int + int) \<times> 'd fat_state) option" where
  "write_loop a src len written s = fs_bind (the_file a) (\<lambda>fl.
     if len \<noteq> 0
     then fs_bind (fs_lift (write_chunk fl src len)) (\<lambda>cnt.
       fs_then (fs_modify (upd_file a (store_chunk src cnt)))
         (fs_bind (fs_code (fat_file_seek a (int cnt) FAT_SEEK_CURR)) (\<lambda>e.
           if e \<noteq> 0 then fs_return (written + int cnt)
           else write_loop a (drop cnt src) (len - int cnt) (written + int cnt))))
     else fs_return written) s"

definition fat_file_write :: "64 word \<Rightarrow> 8 word list \<Rightarrow> int \<Rightarrow> (int \<times> int, 'd) fat_op" where
  "fat_file_write a src len = fs_bind (the_file a) (\<lambda>fl.
     if fl_fat fl = None then fs_return (FAT_ERR_PARAM, 0)
     else if fl_flags fl AND FAT_WRITE = 0 then fs_return (FAT_ERR_DENIED, 0)
     else fs_then (fs_modify (upd_file a (\<lambda>f. f\<lparr>fl_flags := fl_flags f OR (FAT_MODIFIED OR FAT_ACCESSED)\<rparr>)))
       (fs_bind (write_loop a src len 0) (\<lambda>written.
         fs_then (fs_modify (upd_file a (\<lambda>f. if fl_size f < fl_offset f then f\<lparr>fl_size := fl_offset f\<rparr> else f)))
           (fs_return (0, written)))))"

definition stamp_entry :: "File \<Rightarrow> 8 word list \<Rightarrow> 8 word list option" where
  "stamp_entry fl sfn = (case encode_timestamp of (date, time) \<Rightarrow> do {
     e1 \<leftarrow> (if fl_flags fl AND FAT_ACCESSED \<noteq> 0 then wr16 sfn 18 date else Some sfn);
     if fl_flags fl AND FAT_MODIFIED \<noteq> 0
     then do {
       attr \<leftarrow> rd8 e1 11;
       e2 \<leftarrow> wr8 e1 11 (attr OR FAT_ATTR_ARCHIVE);
       e3 \<leftarrow> wr32 e2 28 (fl_size fl);
       e4 \<leftarrow> wr16 e3 24 date;
       wr16 e4 22 time
     } else Some e1
   })"

definition fat_file_sync :: "64 word \<Rightarrow> (unit, 'd) fat_op" where
  "fat_file_sync a = fs_bind (the_file a) (\<lambda>fl. case fl_fat fl of
     None \<Rightarrow> fs_fail FAT_ERR_PARAM
   | Some p \<Rightarrow> fs_bind (the_fat p) (\<lambda>fat. fs_bind (disk_write (f_ops fat) (fl_buf fl) (fl_sect fl)) (\<lambda>ok.
       if \<not> ok then fs_fail FAT_ERR_IO
       else fs_then (fs_when (fl_flags fl AND (FAT_ACCESSED OR FAT_MODIFIED) \<noteq> 0)
           (fs_then (update_buf p (fl_dir_sect fl)) (fs_then (set_flag p FAT_BUF_DIRTY) (poke_sector p (unat (fl_dir_idx fl)) (stamp_entry fl)))))
         (fs_then (sync_fs p) (fs_modify (upd_file a (\<lambda>f. f\<lparr>fl_flags := fl_flags f AND NOT (FAT_ACCESSED OR FAT_MODIFIED)\<rparr>)))))))"

definition fat_file_close :: "64 word \<Rightarrow> (unit, 'd) fat_op" where
  "fat_file_close a = fs_bind (the_file a) (\<lambda>fl.
     if fl_fat fl = None then fs_fail FAT_ERR_PARAM else fat_file_sync a)"

subsection \<open>Opening files\<close>

definition open_entry :: "64 word \<Rightarrow> 8 word \<Rightarrow> (unit, 'd) fat_op" where
  "open_entry a flags = fs_bind (dir_ptr Local_Dir) (\<lambda>sfn. fs_bind (the_dir Local_Dir) (\<lambda>dr.
     fs_bind (fs_lift (sfn_cluster sfn)) (\<lambda>clust. fs_bind (fs_lift (rd8 sfn 11)) (\<lambda>attr. fs_bind (fs_lift (rd32 sfn 28)) (\<lambda>sz.
       fs_modify (upd_file a (\<lambda>f. f\<lparr>fl_fat := d_fat dr, fl_dir_sect := d_sect dr, fl_dir_idx := d_idx dr, fl_sclust := clust,
         fl_clust := clust, fl_sect := 0xFFFFFFFF, fl_offset := 0, fl_attr := attr,
         fl_size := (if sz \<noteq> 0 \<and> flags AND FAT_TRUNC \<noteq> 0 then 0 else sz),
         fl_flags := (if sz \<noteq> 0 \<and> flags AND FAT_TRUNC \<noteq> 0 then flags OR FAT_MODIFIED else flags)\<rparr>)))))))"

definition create_file :: "8 word list \<Rightarrow> (unit, 'd) fat_op" where
  "create_file path = fs_bind (fs_lift (last_subpath_len path)) (\<lambda>len.
     if len = 0 then fs_fail FAT_ERR_PATH
     else fs_bind (dir_fat Local_Dir) (\<lambda>p. fs_bind (create_chain p) (\<lambda>clust. dir_add Local_Dir path len FAT_ATTR_ARCHIVE clust)))"

definition fat_file_open :: "64 word \<Rightarrow> 8 word list \<Rightarrow> 8 word \<Rightarrow> (unit, 'd) fat_op" where
  "fat_file_open a path flags = fs_then (fs_modify (upd_dir Local_Dir (d_fat_update (\<lambda>_. None))))
     (fs_bind (follow_path Local_Dir False path) (\<lambda>(err, path1).
       if err \<noteq> 0 \<and> err \<noteq> FAT_ERR_EOF then fs_fail err
       else fs_then (fs_when (err = FAT_ERR_EOF)
           (if flags AND FAT_CREATE = 0 then fs_fail FAT_ERR_DENIED else create_file path1))
         (fs_then (open_entry a flags)
           (fat_file_seek a 0 (if flags AND FAT_APPEND \<noteq> 0 then FAT_SEEK_END else FAT_SEEK_START)))))"

subsection \<open>Directories\<close>

definition dot_entry :: "32 word \<Rightarrow> 8 word list \<Rightarrow> 8 word list option" where
  "dot_entry clust sfn = (case encode_timestamp of (date, time) \<Rightarrow> do {
     e0 \<leftarrow> (if 11 \<le> length sfn then Some (replicate 11 0x20 @ drop 11 sfn) else None);
     e1 \<leftarrow> wr8 e0 0 0x2E;
     e2 \<leftarrow> wr8 e1 11 FAT_ATTR_DIR;
     e3 \<leftarrow> wr16 e2 20 (ucast (drop_bit 16 clust));
     e4 \<leftarrow> wr16 e3 26 (ucast (clust AND 0xFFFF));
     e5 \<leftarrow> wr16 e4 16 date;
     e6 \<leftarrow> wr16 e5 14 time;
     e7 \<leftarrow> wr16 e6 24 date;
     e8 \<leftarrow> wr16 e7 22 time;
     wr16 e8 18 date
   })"

definition dotdot_entry :: "32 word \<Rightarrow> 8 word list \<Rightarrow> 8 word list option" where
  "dotdot_entry parent buf = do {
     e0 \<leftarrow> (if 64 \<le> length buf then Some (take 32 buf) else None);
     e1 \<leftarrow> wr8 e0 1 0x2E;
     e2 \<leftarrow> wr16 e1 20 (ucast (drop_bit 16 parent));
     e3 \<leftarrow> wr16 e2 26 (ucast (parent AND 0xFFFF));
     Some (take 32 buf @ e3 @ drop 64 buf)
   }"

definition fat_dir_create :: "dir_handle \<Rightarrow> 8 word list \<Rightarrow> (unit, 'd) fat_op" where
  "fat_dir_create q path = fs_bind (follow_path q False path) (\<lambda>(err, path1).
     if err \<noteq> FAT_ERR_EOF then (if err \<noteq> 0 then fs_fail err else fs_return ())
     else fs_bind (fs_lift (last_subpath_len path1)) (\<lambda>len.
       if len = 0 then fs_fail FAT_ERR_PATH
       else fs_bind (dir_fat q) (\<lambda>p. fs_bind (create_chain p) (\<lambda>clust. fs_then (clust_clear p clust) (fs_bind (the_fat p) (\<lambda>fat.
         fs_then (update_buf p (clust_to_sect fat clust)) (fs_then (set_flag p FAT_BUF_DIRTY) (
         fs_then (poke_sector p 0 (dot_entry clust)) (fs_bind (the_dir q) (\<lambda>dr.
         fs_then (poke_sector p 0 (dotdot_entry (if d_sclust dr = f_root_clust fat then 0 else d_sclust dr))) (
         fs_then (dir_add q path1 len FAT_ATTR_DIR clust) (
         fs_then (dir_enter q clust) (sync_fs p)))))))))))))"

definition fat_dir_open :: "dir_handle \<Rightarrow> 8 word list \<Rightarrow> (unit, 'd) fat_op" where
  "fat_dir_open q path = fs_bind (follow_path q False path) (\<lambda>(err, path1).
     if err \<noteq> 0 then fs_fail err
     else fs_bind (dir_at_root q) (\<lambda>root.
       if root then fs_return ()
       else fs_bind (load_entry q) (\<lambda>sfn. fs_bind (fs_lift (rd8 sfn 11)) (\<lambda>attr.
         if attr AND FAT_ATTR_DIR = 0 then fs_fail FAT_ERR_PATH
         else fs_bind (fs_lift (sfn_cluster sfn)) (\<lambda>clust. dir_enter q clust)))))"

text \<open>The entry and the name in \<^verbatim>\<open>g_buf\<close>, as the caller's \<^verbatim>\<open>DirInfo\<close>.\<close>

definition fill_info :: "8 word list \<Rightarrow> DirInfo \<Rightarrow> (DirInfo, 'd) fat_op" where
  "fill_info sfn info = fs_bind (fs_get id) (\<lambda>s. fs_lift (do {
     cre_time \<leftarrow> rd16 sfn 14; cre_date \<leftarrow> rd16 sfn 16; mod_time \<leftarrow> rd16 sfn 22; mod_date \<leftarrow> rd16 sfn 24; sz \<leftarrow> rd32 sfn 28; attr \<leftarrow> rd8 sfn 11;
     nm \<leftarrow> (if unat (fs_len s) \<le> length (fs_buf s) \<and> unat (fs_len s) \<le> length (info_name info)
       then Some (take (unat (fs_len s)) (fs_buf s) @ drop (unat (fs_len s)) (info_name info)) else None);
     Some \<lparr>info_created = decode_timestamp cre_date cre_time, info_modified = decode_timestamp mod_date mod_time,
       info_size = sz, info_attr = attr, info_name = nm, info_name_len = ucast (fs_len s)\<rparr>
   }))"

partial_function (option) dir_read_loop :: "dir_handle \<Rightarrow> DirInfo \<Rightarrow> 'd fat_state \<Rightarrow> ((int + DirInfo) \<times> 'd fat_state) option" where
  "dir_read_loop q info s = fs_bind (load_entry q) (\<lambda>sfn.
     fs_bind (fs_lift (sfn_is_last sfn)) (\<lambda>last_entry. fs_bind (fs_lift (sfn_is_free sfn)) (\<lambda>free.
       if last_entry then fs_fail FAT_ERR_EOF
       else if free then fs_then (dir_next q) (dir_read_loop q info)
       else fs_bind (fs_lift (sfn_is_lfn sfn)) (\<lambda>lfn.
         if lfn
         then fs_then (parse_lfn_name q) (fs_bind (load_entry q) (\<lambda>sfn1. fs_bind (fs_get fs_crc) (\<lambda>crc.
           fs_bind (fs_lift (sfn_is_free sfn1)) (\<lambda>free1. fs_bind (fs_lift (get_crc sfn1)) (\<lambda>c.
             if free1 \<or> crc \<noteq> c then fs_fail FAT_ERR_BROKEN else fill_info sfn1 info)))))
         else fs_then (parse_sfn_name sfn) (fill_info sfn info))))) s"

definition fat_dir_read :: "dir_handle \<Rightarrow> DirInfo \<Rightarrow> (DirInfo, 'd) fat_op" where
  "fat_dir_read q info = fs_bind (the_dir q) (\<lambda>dr.
     if d_fat dr = None then fs_fail FAT_ERR_PARAM else dir_read_loop q info)"

definition fat_dir_next :: "dir_handle \<Rightarrow> (unit, 'd) fat_op" where
  "fat_dir_next q = fs_bind (the_dir q) (\<lambda>dr. if d_fat dr = None then fs_fail FAT_ERR_PARAM else dir_next q)"

definition fat_dir_rewind :: "dir_handle \<Rightarrow> (unit, 'd) fat_op" where
  "fat_dir_rewind q = fs_bind (the_dir q) (\<lambda>dr. if d_fat dr = None then fs_fail FAT_ERR_PARAM else dir_at_clust q (d_sclust dr))"

subsection \<open>Paths\<close>

definition fat_stat :: "8 word list \<Rightarrow> DirInfo \<Rightarrow> (DirInfo, 'd) fat_op" where
  "fat_stat path info = fs_then (fs_modify (fs_loc_update (\<lambda>_. None))) (fs_bind (follow_path Local_Dir True path) (\<lambda>(err, path1).
     if err \<noteq> 0 then fs_fail err
     else fs_bind (fs_lift (subpath_len path1)) (\<lambda>len.
       if len \<noteq> 0 then fs_fail FAT_ERR_PATH
       else fs_bind (fs_get fs_loc) (\<lambda>lc. fs_bind (fs_lift lc) (\<lambda>loc.
         fs_then (rewind_to Local_Dir (loc_sect loc) (loc_idx loc)) (fat_dir_read Local_Dir info))))))"

partial_function (option) empty_loop :: "dir_handle \<Rightarrow> 'd fat_state \<Rightarrow> ((int + unit) \<times> 'd fat_state) option" where
  "empty_loop q s = fs_bind (load_entry q) (\<lambda>sfn. fs_bind (fs_lift (sfn_is_last sfn)) (\<lambda>last_entry. fs_bind (fs_lift (sfn_is_free sfn)) (\<lambda>free.
     if last_entry then fs_return ()
     else if \<not> free then fs_fail FAT_ERR_DENIED
     else fs_then (dir_next q) (empty_loop q)))) s"

definition fat_unlink :: "8 word list \<Rightarrow> (unit, 'd) fat_op" where
  "fat_unlink path = fs_then (fs_modify (fs_loc_update (\<lambda>_. None))) (fs_bind (follow_path Local_Dir True path) (\<lambda>(err, path1).
     if err \<noteq> 0 then fs_fail err
     else fs_bind (dir_at_root Local_Dir) (\<lambda>root.
       if root then fs_fail FAT_ERR_DENIED
       else fs_bind (dir_ptr Local_Dir) (\<lambda>sfn. fs_bind (fs_lift (sfn_cluster sfn)) (\<lambda>clust. fs_bind (fs_lift (rd8 sfn 11)) (\<lambda>attr.
         if attr AND (FAT_ATTR_RO OR FAT_ATTR_SYS OR FAT_ATTR_LABEL) \<noteq> 0 then fs_fail FAT_ERR_DENIED
         else fs_bind (the_dir Local_Dir) (\<lambda>dr. fs_bind (dir_fat Local_Dir) (\<lambda>p.
           fs_then (fs_when (attr AND FAT_ATTR_DIR \<noteq> 0) (fs_then (fs_modify (upd_dir Local_Tmp (\<lambda>_. dr)))
             (fs_then (dir_enter Local_Tmp clust) (fs_then (dir_advance Local_Tmp 2) (empty_loop Local_Tmp))))) (
           fs_then (remove_chain p clust) (fs_then (remove_entries Local_Dir) (sync_fs p)))))))))))"

definition fat_get_error :: "int \<Rightarrow> string" where
  "fat_get_error err = (let strs = [''FAT_ERR_NONE'', ''FAT_ERR_NOFAT'', ''FAT_ERR_BROKEN'', ''FAT_ERR_IO'', ''FAT_ERR_PARAM'',
     ''FAT_ERR_PATH'', ''FAT_ERR_EOF'', ''FAT_ERR_DENIED'', ''FAT_ERR_FULL'']; e = - err in
     if e < 0 \<or> e \<ge> int (length strs) then ''NULL'' else strs ! nat e)"

end
