(* ===== verification/Fat_Seeking.thy ===== *)
theory Fat_Seeking
  imports Fat_Allocation Fat_Files
begin

section \<open>Positions in files\<close>

text \<open>
  The contents of a file are the sectors of the clusters of its chain, one after the other; the sector at its position is
  in its own buffer (\<open>file_view\<close>). \<open>file_ok\<close> is the invariant of an open file. \<^verbatim>\<open>fat_file_seek\<close> moves the position, and the contents
  stay the same.
\<close>

definition sect_no :: "'d Fat \<Rightarrow> 32 word list \<Rightarrow> nat \<Rightarrow> 32 word" where
  "sect_no fat cs j = (let k = unat (f_clust_shift fat) in clust_to_sect fat (cs ! (j div 2 ^ k)) + of_nat (j mod 2 ^ k))"

definition sect_count :: "'d Fat \<Rightarrow> 32 word list \<Rightarrow> nat" where
  "sect_count fat cs = 2 ^ unat (f_clust_shift fat) * length cs"

definition file_sects :: "'d Fat \<Rightarrow> 32 word list \<Rightarrow> 32 word set" where
  "file_sects fat cs = sect_no fat cs ` {..<sect_count fat cs}"

text \<open>The volume: the sectors of the file are different, and apart from the tables and from the buffered sector.\<close>

definition data_ok :: "('d \<Rightarrow> 32 word \<Rightarrow> 8 word list) \<Rightarrow> nat \<Rightarrow> 32 word list \<Rightarrow> 'd fat_state \<Rightarrow> bool" where
  "data_ok content p cs s \<longleftrightarrow> vol_ok content p s \<and> layout_ok (fs_fats s p) \<and>
     fat_chain (table content p s) (f_clust_cnt (fs_fats s p)) cs \<and>
     inj_on (sect_no (fs_fats s p) cs) {..<sect_count (fs_fats s p) cs} \<and>
     unat (f_clust_shift (fs_fats s p)) \<le> 7 \<and> f_clust_msk (fs_fats s p) = mask (unat (f_clust_shift (fs_fats s p))) \<and>
     (\<forall>m \<in> file_sects (fs_fats s p) cs. elsewhere (fs_fats s p) m) \<and> f_sect (fs_fats s p) \<notin> file_sects (fs_fats s p) cs"

text \<open>The position of a file, and its contents.\<close>

definition placed :: "'d Fat \<Rightarrow> nat \<Rightarrow> 32 word list \<Rightarrow> File \<Rightarrow> bool" where
  "placed fat p cs fl \<longleftrightarrow> fl_fat fl = Some p \<and> fl_sclust fl = hd cs \<and>
     (let i = unat (fl_offset fl) div 512 in
      i < sect_count fat cs \<and> fl_clust fl = cs ! (i div 2 ^ unat (f_clust_shift fat)) \<and> fl_sect fl = sect_no fat cs i)"

definition file_ok :: "('d \<Rightarrow> 32 word \<Rightarrow> 8 word list) \<Rightarrow> nat \<Rightarrow> 64 word \<Rightarrow> 32 word list \<Rightarrow> 'd fat_state \<Rightarrow> bool" where
  "file_ok content p a cs s \<longleftrightarrow> data_ok content p cs s \<and> placed (fs_fats s p) p cs (fs_files s a) \<and> length (fl_buf (fs_files s a)) = 512 \<and>
     (fl_flags (fs_files s a) AND FAT_FILE_DIRTY = 0 \<longrightarrow> fl_buf (fs_files s a) = content (fs_disk s) (fl_sect (fs_files s a)))"

definition sector_view :: "('d \<Rightarrow> 32 word \<Rightarrow> 8 word list) \<Rightarrow> nat \<Rightarrow> 64 word \<Rightarrow> 32 word list \<Rightarrow> 'd fat_state \<Rightarrow> nat \<Rightarrow> 8 word list" where
  "sector_view content p a cs s j = (if j = unat (fl_offset (fs_files s a)) div 512 then fl_buf (fs_files s a)
     else content (fs_disk s) (sect_no (fs_fats s p) cs j))"

definition file_view :: "('d \<Rightarrow> 32 word \<Rightarrow> 8 word list) \<Rightarrow> nat \<Rightarrow> 64 word \<Rightarrow> 32 word list \<Rightarrow> 'd fat_state \<Rightarrow> 8 word list" where
  "file_view content p a cs s = concat (map (sector_view content p a cs s) [0..<sect_count (fs_fats s p) cs])"

text \<open>
  \<open>calm\<close>: a step that changes no sector, read through the buffer. \<open>steady\<close>: a step that changes the file at \<open>a\<close> and its sectors only.
\<close>

definition calm :: "('d \<Rightarrow> 32 word \<Rightarrow> 8 word list) \<Rightarrow> nat \<Rightarrow> 32 word list \<Rightarrow> 'd fat_state \<Rightarrow> 'd fat_state \<Rightarrow> bool" where
  "calm content p cs s t \<longleftrightarrow> data_ok content p cs t \<and> buf_frame p s (t\<lparr>fs_files := fs_files s\<rparr>) \<and>
     (\<forall>m. m \<noteq> 0 \<longrightarrow> view content p t m = view content p s m)"

definition steady :: "('d \<Rightarrow> 32 word \<Rightarrow> 8 word list) \<Rightarrow> nat \<Rightarrow> 64 word \<Rightarrow> 32 word list \<Rightarrow> 'd fat_state \<Rightarrow> 'd fat_state \<Rightarrow> bool" where
  "steady content p a cs s t \<longleftrightarrow> data_ok content p cs t \<and> buf_frame p s (t\<lparr>fs_files := fs_files s\<rparr>) \<and>
     (\<forall>b. b \<noteq> a \<longrightarrow> fs_files t b = fs_files s b) \<and>
     (\<forall>m. m \<noteq> 0 \<longrightarrow> m \<notin> file_sects (fs_fats s p) cs \<longrightarrow> view content p t m = view content p s m)"

lemma same_volume:
  assumes "f_clust_shift f = f_clust_shift g" "f_data_sect f = f_data_sect g"
  shows "sect_no f cs = sect_no g cs" "sect_count f cs = sect_count g cs" "file_sects f cs = file_sects g cs" "clust_to_sect f = clust_to_sect g"
proof -
  show "clust_to_sect f = clust_to_sect g" using assms by (auto simp: clust_to_sect_def)
  then show "sect_no f cs = sect_no g cs" using assms by (auto simp: sect_no_def)
  then show "file_sects f cs = file_sects g cs" "sect_count f cs = sect_count g cs" using assms by (simp_all add: file_sects_def sect_count_def)
qed

lemma frame_volume:
  assumes "buf_frame p s (t\<lparr>fs_files := F\<rparr>)"
  shows "sect_no (fs_fats t p) cs = sect_no (fs_fats s p) cs" "sect_count (fs_fats t p) cs = sect_count (fs_fats s p) cs"
    "file_sects (fs_fats t p) cs = file_sects (fs_fats s p) cs" "clust_to_sect (fs_fats t p) = clust_to_sect (fs_fats s p)"
    "f_clust_shift (fs_fats t p) = f_clust_shift (fs_fats s p)" "f_clust_msk (fs_fats t p) = f_clust_msk (fs_fats s p)"
    "f_ops (fs_fats t p) = f_ops (fs_fats s p)"
proof -
  show "f_clust_shift (fs_fats t p) = f_clust_shift (fs_fats s p)" "f_clust_msk (fs_fats t p) = f_clust_msk (fs_fats s p)"
    "f_ops (fs_fats t p) = f_ops (fs_fats s p)"
    using frame_same [OF assms] by simp_all
  moreover have "f_data_sect (fs_fats t p) = f_data_sect (fs_fats s p)" using frame_same [OF assms] by simp
  ultimately show "sect_no (fs_fats t p) cs = sect_no (fs_fats s p) cs" "sect_count (fs_fats t p) cs = sect_count (fs_fats s p) cs"
    "file_sects (fs_fats t p) cs = file_sects (fs_fats s p) cs" "clust_to_sect (fs_fats t p) = clust_to_sect (fs_fats s p)"
    using same_volume [of "fs_fats t p" "fs_fats s p"] by simp_all
qed

lemma calm_frame: "calm content p cs s t \<Longrightarrow> buf_frame p s (t\<lparr>fs_files := fs_files s\<rparr>)" "calm content p cs s t \<Longrightarrow> data_ok content p cs t"
  by (simp_all add: calm_def)

lemma steady_frame: "steady content p a cs s t \<Longrightarrow> buf_frame p s (t\<lparr>fs_files := fs_files s\<rparr>)" "steady content p a cs s t \<Longrightarrow> data_ok content p cs t"
  by (simp_all add: steady_def)

lemmas calm_volume = frame_volume [OF calm_frame(1)]
lemmas steady_volume = frame_volume [OF steady_frame(1)]

lemma placed_volume: "buf_frame p s (t\<lparr>fs_files := F\<rparr>) \<Longrightarrow> placed (fs_fats t p) p' cs fl \<longleftrightarrow> placed (fs_fats s p) p' cs fl"
  using frame_volume [where p = p and s = s and t = t and F = F] by (simp add: placed_def Let_def)

lemma sector_apart:
  assumes "data_ok content p cs s" "j < sect_count (fs_fats s p) cs"
  shows "sect_no (fs_fats s p) cs j \<noteq> 0" "sect_no (fs_fats s p) cs j \<noteq> f_sect (fs_fats s p)"
    "view content p s (sect_no (fs_fats s p) cs j) = content (fs_disk s) (sect_no (fs_fats s p) cs j)"
proof -
  have m: "sect_no (fs_fats s p) cs j \<in> file_sects (fs_fats s p) cs" using assms(2) by (simp add: file_sects_def)
  show "sect_no (fs_fats s p) cs j \<noteq> 0" using assms(1) m by (auto simp: data_ok_def elsewhere_def)
  show ne: "sect_no (fs_fats s p) cs j \<noteq> f_sect (fs_fats s p)" using assms(1) m by (metis data_ok_def)
  then show "view content p s (sect_no (fs_fats s p) cs j) = content (fs_disk s) (sect_no (fs_fats s p) cs j)" by (simp add: view_def)
qed

lemma calm_content:
  assumes "data_ok content p cs s" "calm content p cs s t" "j < sect_count (fs_fats s p) cs"
  shows "content (fs_disk t) (sect_no (fs_fats s p) cs j) = content (fs_disk s) (sect_no (fs_fats s p) cs j)"
  using sector_apart [OF assms(1,3)] sector_apart(3) [OF calm_frame(2) [OF assms(2)], of j] calm_volume(1,2) [OF assms(2), of cs] assms(2,3)
  by (simp add: calm_def)

lemma frame_files: "buf_frame p s t \<Longrightarrow> buf_frame p (s\<lparr>fs_files := F\<rparr>) (t\<lparr>fs_files := F\<rparr>)"
proof -
  assume "buf_frame p s t"
  then obtain b n fl d where t: "t = (upd_fat p (\<lambda>f. f\<lparr>f_buf := b, f_sect := n, f_flags := fl\<rparr>) s)\<lparr>fs_disk := d\<rparr>"
    "fl AND NOT FAT_BUF_DIRTY = f_flags (fs_fats s p) AND NOT FAT_BUF_DIRTY" unfolding buf_frame_def by (elim exE conjE) (rule that)
  have "t\<lparr>fs_files := F\<rparr> = (upd_fat p (\<lambda>f. f\<lparr>f_buf := b, f_sect := n, f_flags := fl\<rparr>) (s\<lparr>fs_files := F\<rparr>))\<lparr>fs_disk := d\<rparr>"
    by (simp add: t(1) upd_fat_def)
  then show ?thesis using t(2) unfolding buf_frame_def by (intro exI [of _ b] exI [of _ n] exI [of _ fl] exI [of _ d]) simp
qed

lemma calm_refl: "data_ok content p cs s \<Longrightarrow> calm content p cs s s"
  by (simp add: calm_def frame_refl)

lemma calm_trans:
  assumes "calm content p cs s t" "calm content p cs t u"
  shows "calm content p cs s u"
proof -
  have "buf_frame p s (t\<lparr>fs_files := fs_files s\<rparr>)" using assms(1) by (simp add: calm_def)
  also have "buf_frame p (t\<lparr>fs_files := fs_files s\<rparr>) (u\<lparr>fs_files := fs_files s\<rparr>)"
    using frame_files [of p t "u\<lparr>fs_files := fs_files t\<rparr>" "fs_files s"] assms(2) by (simp add: calm_def)
  finally show ?thesis using assms by (simp add: calm_def)
qed

lemma steady_trans:
  assumes "steady content p a cs s t" "steady content p a cs t u"
  shows "steady content p a cs s u"
proof -
  note steady_frame(1) [OF assms(1)]
  also have "buf_frame p (t\<lparr>fs_files := fs_files s\<rparr>) (u\<lparr>fs_files := fs_files s\<rparr>)"
    using frame_files [of p t "u\<lparr>fs_files := fs_files t\<rparr>" "fs_files s"] assms(2) by (simp add: steady_def)
  finally show ?thesis using assms steady_volume(3) [OF assms(1), of cs] by (simp add: steady_def)
qed

lemma calm_steady: "calm content p cs s t \<Longrightarrow> (\<And>b. b \<noteq> a \<Longrightarrow> fs_files t b = fs_files s b) \<Longrightarrow> steady content p a cs s t"
  by (simp add: calm_def steady_def)

lemma view_files: "view content p (s\<lparr>fs_files := F\<rparr>) = view content p s"
  by (rule ext) (simp add: view_def)

lemma data_ok_files: "data_ok content p cs (s\<lparr>fs_files := F\<rparr>) \<longleftrightarrow> data_ok content p cs s"
proof -
  have "entry_in content p (s\<lparr>fs_files := F\<rparr>) base = entry_in content p s base" for base
    by (rule ext) (simp add: entry_in_def view_def)
  then show ?thesis by (simp add: data_ok_def vol_ok_def dirty_def)
qed

lemma calm_files: "calm content p cs s t \<Longrightarrow> calm content p cs s (t\<lparr>fs_files := F\<rparr>)"
  by (simp add: calm_def data_ok_files view_files)

lemma calm_upd_file: "calm content p cs s t \<Longrightarrow> calm content p cs s (upd_file a g t)"
  unfolding upd_file_def by (rule calm_files)

text \<open>Reading the table is calm.\<close>

lemma get_fat_calm:
  assumes "data_ok content p cs s" "c \<in> set cs"
  shows "\<exists>t. get_fat p c s = Some (case clust_kind (f_clust_cnt (fs_fats s p)) (table content p s c) of
        None \<Rightarrow> Inl FAT_ERR_BROKEN | Some flags \<Rightarrow> Inr (table content p s c, flags), t) \<and> calm content p cs s t \<and> fs_files t = fs_files s"
proof -
  have v: "vol_ok content p s" "layout_ok (fs_fats s p)" "fat_chain (table content p s) (f_clust_cnt (fs_fats s p)) cs"
    using assms(1) by (simp_all add: data_ok_def)
  have c: "c < f_clust_cnt (fs_fats s p)" using fat_chain_in [OF v(3) assms(2)] by simp
  obtain t where t: "get_fat p c s = Some (case clust_kind (f_clust_cnt (fs_fats s p)) (table content p s c) of
        None \<Rightarrow> Inl FAT_ERR_BROKEN | Some flags \<Rightarrow> Inr (table content p s c, flags), t)"
    "vol_ok content p t" "buf_frame p s t" "\<forall>m. m \<noteq> 0 \<longrightarrow> view content p t m = view content p s m"
    "f_sect (fs_fats t p) = f_fat_sect0 (fs_fats s p) + c div 128"
    using get_fat_spec [OF v(1,2) c] by (elim exE conjE) (rule that)
  note F = frame_same [OF t(3)]
  have S: "file_sects (fs_fats t p) cs = file_sects (fs_fats s p) cs" using same_volume(3) [of "fs_fats t p" "fs_fats s p"] F by simp
  have SN: "sect_no (fs_fats t p) cs = sect_no (fs_fats s p) cs" "sect_count (fs_fats t p) cs = sect_count (fs_fats s p) cs"
    using same_volume [of "fs_fats t p" "fs_fats s p"] F by simp_all
  have E: "elsewhere (fs_fats t p) m \<longleftrightarrow> elsewhere (fs_fats s p) m" for m using F by (simp add: elsewhere_def)
  have fat: "f_sect (fs_fats t p) \<notin> file_sects (fs_fats s p) cs"
  proof
    assume "f_sect (fs_fats t p) \<in> file_sects (fs_fats s p) cs"
    then have "elsewhere (fs_fats s p) (f_fat_sect0 (fs_fats s p) + c div 128)" using assms(1) t(5) by (simp add: data_ok_def)
    then show False using in_tableI [OF c] by (simp add: elsewhere_def)
  qed
  have tab: "table content p t x = table content p s x" if "x < f_clust_cnt (fs_fats s p)" for x
    using t(4) layout_sectors(1) [OF v(2) that] F(5) by (simp add: entry_in_def)
  have "fat_chain (table content p t) (f_clust_cnt (fs_fats s p)) cs"
    using fat_chain_cong [of cs "table content p t" "table content p s"] tab fat_chain_in [OF v(3)] v(3) by blast
  moreover have "layout_ok (fs_fats t p)" using frame_info_same(13) [OF frame_into_info [OF t(3)]] v(2) by simp
  ultimately have ok: "data_ok content p cs t"
    using assms(1) t(2) S E F fat SN by (simp add: data_ok_def)
  have "t\<lparr>fs_files := fs_files s\<rparr> = t" using F(13) by (metis fat_state.surjective fat_state.update_convs(3))
  then have "calm content p cs s t" using ok t(3,4) by (simp add: calm_def)
  then show ?thesis using t(1) F(13) by blast
qed

lemma fat_chain_nth:
  "fat_chain T n cs \<Longrightarrow> Suc i < length cs \<Longrightarrow> T (cs ! i) = cs ! Suc i"
proof (induction T n cs arbitrary: i rule: fat_chain.induct)
  case (3 T n c d cs)
  then show ?case by (cases i) auto
qed auto

lemma chain_step:
  assumes "data_ok content p cs s" "Suc i < length cs"
  shows "\<exists>t. get_fat p (cs ! i) s = Some (Inr (cs ! Suc i, 2), t) \<and> calm content p cs s t \<and> fs_files t = fs_files s"
proof -
  let ?n = "f_clust_cnt (fs_fats s p)"
  have ch: "fat_chain (table content p s) ?n cs" and n: "?n \<le> 0x0FFFFFF7" using assms(1) by (simp_all add: data_ok_def layout_ok_def Let_def)
  have T: "table content p s (cs ! i) = cs ! Suc i" using fat_chain_nth [OF ch assms(2)] .
  have "cs ! Suc i \<in> set cs" using assms(2) by simp
  then have "clust_kind ?n (cs ! Suc i) = Some 2" using fat_chain_in [OF ch] kind_simps(3) n by blast
  then show ?thesis using get_fat_calm [OF assms(1), of "cs ! i"] assms(2) T by auto
qed

lemma seek_loop_spec:
  assumes "data_ok content p cs s" "fl_clust (fs_files s a) = cs ! i" "i + n < length cs"
  shows "\<exists>t. seek_loop a p n s = Some (Inr (), t) \<and> calm content p cs s t \<and>
    fs_files t = (fs_files s)(a := (fs_files s a)\<lparr>fl_clust := cs ! (i + n)\<rparr>)"
  using assms
proof (induction n arbitrary: s i)
  case 0
  then show ?case using calm_refl [OF 0(1)] by (auto simp: fat_run)
next
  case (Suc n)
  obtain t where t: "get_fat p (cs ! i) s = Some (Inr (cs ! Suc i, 2), t)" "calm content p cs s t" "fs_files t = fs_files s"
    using chain_step [OF Suc.prems(1), of i] Suc.prems(3) by auto
  let ?t = "upd_file a (fl_clust_update (\<lambda>_. cs ! Suc i)) t"
  have ct: "calm content p cs s ?t" using calm_upd_file [OF t(2)] .
  then have ok: "data_ok content p cs ?t" by (simp add: calm_def)
  have "fl_clust (fs_files ?t a) = cs ! Suc i" "Suc i + n < length cs" using Suc.prems(3) by simp_all
  then obtain u where u: "seek_loop a p n ?t = Some (Inr (), u)" "calm content p cs ?t u"
    "fs_files u = (fs_files ?t)(a := (fs_files ?t a)\<lparr>fl_clust := cs ! (Suc i + n)\<rparr>)"
    using Suc.IH [OF ok] by blast
  have "seek_loop a p (Suc n) s = Some (Inr (), u)" using t(1) u(1) Suc.prems(2) by (simp add: fat_run)
  then show ?case using calm_trans [OF ct u(2)] u(3) t(3) by (intro exI [of _ u]) simp
qed

subsection \<open>Seeking\<close>

lemma cluster_size: "k \<le> 7 \<Longrightarrow> unat (push_bit k 512 :: 32 word) = 512 * 2 ^ k"
proof -
  assume "k \<le> 7"
  then have "k = 0 \<or> k = 1 \<or> k = 2 \<or> k = 3 \<or> k = 4 \<or> k = 5 \<or> k = 6 \<or> k = 7" by arith
  then show ?thesis by (elim disjE) simp_all
qed

lemma cluster_index: "o' div (512 * 2 ^ k) = o' div 512 div 2 ^ k" for o' :: nat
  by (simp add: div_mult2_eq)

lemma sector_index: "k \<le> 7 \<Longrightarrow> (x div 512) AND mask k = (of_nat (unat x div 512 mod 2 ^ k) :: 32 word)"
proof -
  assume "k \<le> 7"
  have "unat ((x div 512) AND mask k) = unat x div 512 mod 2 ^ k"
    by (simp only: take_bit_eq_mask [symmetric] unsigned_take_bit_eq) (simp add: take_bit_eq_mod unat_div)
  from arg_cong [OF this, of "of_nat :: nat \<Rightarrow> 32 word"] show ?thesis by simp
qed

text \<open>The position after a move by \<open>cnt\<close>, or to the start.\<close>

definition move_to :: "'d Fat \<Rightarrow> 32 word list \<Rightarrow> nat \<Rightarrow> File \<Rightarrow> File" where
  "move_to fat cs o' fl = fl\<lparr>fl_clust := cs ! (o' div 512 div 2 ^ unat (f_clust_shift fat)), fl_sect := sect_no fat cs (o' div 512), fl_offset := of_nat o'\<rparr>"

lemma clust_size_pos: "unat (f_clust_shift fat) \<le> 7 \<Longrightarrow> push_bit (unat (f_clust_shift fat)) 512 \<noteq> (0 :: 32 word)"
  using cluster_size [of "unat (f_clust_shift fat)"] by (metis mult_is_0 power_not_zero unat_0 zero_neq_numeral)

lemma seek_moves_on:
  assumes "data_ok content p cs s" "placed (fs_fats s p) p cs (fs_files s a)" "unat (fl_offset (fs_files s a)) + cnt < 2 ^ 32"
    and "(unat (fl_offset (fs_files s a)) + cnt) div 512 < sect_count (fs_fats s p) cs"
  shows "\<exists>u. fat_file_seek a (int cnt) FAT_SEEK_CURR s = refill a p (fl_sect (fs_files s a)) u \<and> calm content p cs s u \<and>
    fs_files u = (fs_files s)(a := move_to (fs_fats s p) cs (unat (fl_offset (fs_files s a)) + cnt) (fs_files s a))"
proof -
  let ?f = "fs_files s a" and ?fat = "fs_fats s p"
  let ?o = "unat (fl_offset ?f)" and ?k = "unat (f_clust_shift ?fat)"
  let ?o' = "?o + cnt"
  have k: "?k \<le> 7" "f_clust_msk ?fat = mask ?k" using assms(1) by (simp_all add: data_ok_def)
  have f: "fl_fat ?f = Some p" "?o div 512 < sect_count ?fat cs" "fl_clust ?f = cs ! (?o div 512 div 2 ^ ?k)"
    using assms(2) by (simp_all add: placed_def Let_def)
  let ?off = "fl_offset ?f + of_nat cnt"
  have uoff: "unat ?off = ?o'" using assms(3) by (simp add: unat_word_ariths unat_of_nat)
  let ?cs = "push_bit ?k 512 :: 32 word"
  have ucs: "unat ?cs = 512 * 2 ^ ?k" using cluster_size [OF k(1)] .
  have dst: "unat (?off div ?cs) = ?o' div 512 div 2 ^ ?k" "unat (fl_offset ?f div ?cs) = ?o div 512 div 2 ^ ?k"
    by (simp_all only: unat_div uoff ucs cluster_index)
  have le: "?o div 512 div 2 ^ ?k \<le> ?o' div 512 div 2 ^ ?k" by (intro div_le_mono) simp
  have nlt: "\<not> ?off div ?cs < fl_offset ?f div ?cs" unfolding word_less_nat_alt dst using le by simp
  have cnt: "unat (?off div ?cs - fl_offset ?f div ?cs) = ?o' div 512 div 2 ^ ?k - ?o div 512 div 2 ^ ?k"
    using dst le by (simp add: unat_sub word_le_nat_alt)
  let ?i = "?o div 512 div 2 ^ ?k" and ?j = "?o' div 512 div 2 ^ ?k"
  have jl: "?j < length cs" using assms(4) unfolding sect_count_def by (simp add: less_mult_imp_div_less mult.commute)
  obtain t where t: "seek_loop a p (?j - ?i) s = Some (Inr (), t)" "calm content p cs s t"
    "fs_files t = (fs_files s)(a := ?f\<lparr>fl_clust := cs ! (?i + (?j - ?i))\<rparr>)"
    using seek_loop_spec [OF assms(1) f(3), of "?j - ?i"] jl le by auto
  have sn: "clust_to_sect ?fat (cs ! ?j) + ((?off div 512) AND f_clust_msk ?fat) = sect_no ?fat cs (?o' div 512)"
    using sector_index [OF k(1), of ?off] uoff k(2) by (simp add: sect_no_def Let_def)
  let ?u = "upd_file a (\<lambda>f. f\<lparr>fl_sect := clust_to_sect ?fat (fl_clust f) + ((?off div 512) AND f_clust_msk ?fat), fl_offset := ?off\<rparr>) t"
  have fu: "fs_files ?u = (fs_files s)(a := move_to ?fat cs ?o' ?f)"
    using t(3) le sn by (simp add: move_to_def)
  have rng: "\<not> uint (fl_offset ?f) + int cnt < 0 \<and> \<not> 0xFFFFFFFF < uint (fl_offset ?f) + int cnt"
  proof -
    have "int ?o' < int (2 ^ 32)" using assms(3) by (rule iffD2 [OF of_nat_less_iff])
    then have "uint (fl_offset ?f) + int cnt < 2 ^ 32" by simp
    moreover have "0 \<le> uint (fl_offset ?f)" by simp
    ultimately show ?thesis by (simp add: not_less)
  qed
  have "fat_file_seek a (int cnt) FAT_SEEK_CURR s = r" if "refill a p (fl_sect ?f) ?u = r" for r
    using f(1) rng clust_size_pos [OF k(1)] nlt cnt t(1) that by (simp add: fat_file_seek_def seek_base_def fat_run Let_def del: uint_nat)
  from this [OF refl] show ?thesis using calm_upd_file [OF t(2)] fu by blast
qed

lemma seek_moves_back:
  assumes "data_ok content p cs s" "placed (fs_fats s p) p cs (fs_files s a)"
  shows "\<exists>u. fat_file_seek a 0 FAT_SEEK_START s = refill a p (fl_sect (fs_files s a)) u \<and> calm content p cs s u \<and>
    fs_files u = (fs_files s)(a := move_to (fs_fats s p) cs 0 (fs_files s a))"
proof -
  let ?f = "fs_files s a" and ?fat = "fs_fats s p"
  let ?k = "unat (f_clust_shift ?fat)"
  have k: "?k \<le> 7" and ne: "cs \<noteq> []" using assms(1) by (auto simp: data_ok_def)
  have f: "fl_fat ?f = Some p" "fl_sclust ?f = hd cs" "fl_clust ?f = cs ! (unat (fl_offset ?f) div 512 div 2 ^ ?k)"
    using assms(2) by (simp_all add: placed_def Let_def)
  let ?cs = "push_bit ?k 512 :: 32 word"
  have src: "unat (fl_offset ?f div ?cs) = unat (fl_offset ?f) div 512 div 2 ^ ?k"
    by (simp only: unat_div cluster_size [OF k] cluster_index)
  have s0: "sect_no ?fat cs 0 = clust_to_sect ?fat (hd cs)" using ne by (simp add: sect_no_def hd_conv_nth)
  have m: "move_to ?fat cs 0 ?f = ?f\<lparr>fl_clust := hd cs, fl_sect := clust_to_sect ?fat (hd cs), fl_offset := 0\<rparr>"
    using ne s0 by (simp add: move_to_def hd_conv_nth)
  define u where "u = upd_file a (move_to ?fat cs 0) s"
  have run: "fat_file_seek a 0 FAT_SEEK_START s = refill a p (fl_sect ?f) u"
  proof (cases "fl_offset ?f div ?cs = 0")
    case True
    then have c: "fl_clust ?f = hd cs" using f(3) src ne by (simp add: hd_conv_nth)
    then have eq: "?f\<lparr>fl_sect := x, fl_offset := 0\<rparr> = ?f\<lparr>fl_clust := hd cs, fl_sect := x, fl_offset := 0\<rparr>" for x by (cases ?f) simp
    have e: "upd_file a (\<lambda>f. f\<lparr>fl_sect := clust_to_sect ?fat (fl_clust f), fl_offset := 0\<rparr>) s = u"
      by (simp only: u_def upd_file_def m c eq)
    show ?thesis using f(1) clust_size_pos [OF k] True e by (simp add: fat_file_seek_def seek_base_def fat_run Let_def)
  next
    case False
    then have lt: "0 < fl_offset ?f div ?cs" by (simp add: word_neq_0_conv)
    have e: "upd_file a (\<lambda>f. f\<lparr>fl_sect := clust_to_sect ?fat (fl_clust f), fl_offset := 0\<rparr>)
        (upd_file a (\<lambda>f. f\<lparr>fl_clust := fl_sclust f, fl_sect := clust_to_sect ?fat (fl_sclust f), fl_offset := 0\<rparr>) s) = u"
      using f(2) m by (simp add: u_def upd_file_def)
    show ?thesis using f(1) clust_size_pos [OF k] lt e by (simp add: fat_file_seek_def seek_base_def fat_run Let_def)
  qed
  show ?thesis using run calm_upd_file [OF calm_refl [OF assms(1)]] unfolding u_def by (intro exI [of _ "upd_file a (move_to ?fat cs 0) s"]) simp
qed

subsection \<open>The buffer of a file\<close>

lemma data_ok_disk:
  assumes "data_ok content p cs s" "usable content d" "\<forall>m. m \<notin> file_sects (fs_fats s p) cs \<longrightarrow> content d m = content (fs_disk s) m"
  shows "data_ok content p cs (s\<lparr>fs_disk := d\<rparr>)"
proof -
  let ?t = "s\<lparr>fs_disk := d\<rparr>"
  have v: "view content p ?t m = view content p s m" if "m \<notin> file_sects (fs_fats s p) cs" for m
    using assms(3) that by (simp add: view_def)
  have tab: "table content p ?t c = table content p s c" if "c < f_clust_cnt (fs_fats s p)" for c
  proof -
    have "\<not> elsewhere (fs_fats s p) (f_fat_sect0 (fs_fats s p) + c div 128)" using in_tableI [OF that] by (simp add: elsewhere_def)
    then have "f_fat_sect0 (fs_fats s p) + c div 128 \<notin> file_sects (fs_fats s p) cs" using assms(1) by (auto simp: data_ok_def)
    then show ?thesis using v by (simp add: entry_in_def)
  qed
  have ch: "fat_chain (table content p s) (f_clust_cnt (fs_fats s p)) cs" using assms(1) by (simp add: data_ok_def)
  have "fat_chain (table content p ?t) (f_clust_cnt (fs_fats s p)) cs"
    using fat_chain_cong [of cs "table content p ?t" "table content p s"] tab fat_chain_in [OF ch] ch by auto
  then show ?thesis using assms by (simp add: data_ok_def vol_ok_def dirty_def)
qed

lemma steady_disk:
  assumes "data_ok content p cs s" "usable content d" "\<forall>m. m \<notin> file_sects (fs_fats s p) cs \<longrightarrow> content d m = content (fs_disk s) m"
  shows "steady content p a cs s (s\<lparr>fs_disk := d\<rparr>)"
proof -
  have "buf_frame p s (s\<lparr>fs_disk := d\<rparr>)"
    unfolding buf_frame_def
    by (rule exI [of _ "f_buf (fs_fats s p)"], rule exI [of _ "f_sect (fs_fats s p)"], rule exI [of _ "f_flags (fs_fats s p)"], rule exI [of _ d])
      (simp add: upd_fat_def)
  then show ?thesis using data_ok_disk [OF assms] assms(3) by (simp add: steady_def view_def)
qed

lemma steady_upd_file: "steady content p a cs s t \<Longrightarrow> steady content p a cs s (upd_file a g t)"
  by (simp add: steady_def upd_file_def data_ok_files view_files)

lemma steady_refl: "data_ok content p cs s \<Longrightarrow> steady content p a cs s s"
  by (simp add: steady_def frame_refl)

text \<open>Writing back a dirty buffer.\<close>

lemma flush_ok:
  assumes "data_ok content p cs s" "length (fl_buf (fs_files s a)) = 512" "ssect \<in> file_sects (fs_fats s p) cs"
  shows "\<exists>d. disk_write (f_ops (fs_fats s p)) (fl_buf (fs_files s a)) ssect s = Some (Inr True, s\<lparr>fs_disk := d\<rparr>) \<and>
    content d = (content (fs_disk s))(ssect := fl_buf (fs_files s a)) \<and> steady content p a cs s (s\<lparr>fs_disk := d\<rparr>)"
proof -
  have v: "reliable (f_ops (fs_fats s p)) content" "usable content (fs_disk s)" using assms(1) by (simp_all add: data_ok_def vol_ok_def)
  obtain d where d: "disk_write (f_ops (fs_fats s p)) (fl_buf (fs_files s a)) ssect s = Some (Inr True, s\<lparr>fs_disk := d\<rparr>)"
    "content d = (content (fs_disk s))(ssect := fl_buf (fs_files s a))"
    using disk_write_ok [OF v assms(2)] by blast
  have "steady content p a cs s (s\<lparr>fs_disk := d\<rparr>)"
    using steady_disk [OF assms(1) usable_upd(1) [OF v(2) assms(2) d(2)], of a] d(2) assms(3) by auto
  then show ?thesis using d by blast
qed

lemma load_ok:
  assumes "data_ok content p cs s" "length b = 512"
  shows "\<exists>d. disk_read (f_ops (fs_fats s p)) b n s = Some (Inr (True, content (fs_disk s) n), s\<lparr>fs_disk := d\<rparr>) \<and>
    content d = content (fs_disk s) \<and> steady content p a cs s (s\<lparr>fs_disk := d\<rparr>)"
proof -
  have v: "reliable (f_ops (fs_fats s p)) content" "usable content (fs_disk s)" using assms(1) by (simp_all add: data_ok_def vol_ok_def)
  obtain d where d: "disk_read (f_ops (fs_fats s p)) b n s = Some (Inr (True, content (fs_disk s) n), s\<lparr>fs_disk := d\<rparr>)"
    "content d = content (fs_disk s)"
    using disk_read_ok [OF v assms(2)] by blast
  then show ?thesis using steady_disk [OF assms(1) usable_upd(2) [OF v(2) d(2)], of a] by auto
qed

lemma dirty_bit: "((x :: 8 word) AND NOT 0x80) AND 0x80 = 0" "((x :: 8 word) AND NOT 0x80) AND NOT 0x80 = x AND NOT 0x80"
  by (rule bit_word_eqI; auto simp: bit_simps)+

text \<open>The sectors behind the buffer after \<open>refill\<close>: the old buffer is on the disk if it was dirty, the new one is loaded.\<close>

lemma refill_ok:
  assumes "data_ok content p cs s" "i < sect_count (fs_fats s p) cs" "j < sect_count (fs_fats s p) cs" "length (fl_buf (fs_files s a)) = 512"
    and "fl_sect (fs_files s a) = sect_no (fs_fats s p) cs j"
    and "fl_flags (fs_files s a) AND FAT_FILE_DIRTY = 0 \<longrightarrow> fl_buf (fs_files s a) = content (fs_disk s) (sect_no (fs_fats s p) cs i)"
  shows "\<exists>t b fl. refill a p (sect_no (fs_fats s p) cs i) s = Some (Inr (), t) \<and> steady content p a cs s t \<and>
    fs_files t a = (fs_files s a)\<lparr>fl_buf := b, fl_flags := fl\<rparr> \<and> fl AND NOT FAT_FILE_DIRTY = fl_flags (fs_files s a) AND NOT FAT_FILE_DIRTY \<and>
    (fl AND FAT_FILE_DIRTY = 0 \<longrightarrow> b = content (fs_disk t) (sect_no (fs_fats s p) cs j)) \<and> length b = 512 \<and>
    b = (if j = i then fl_buf (fs_files s a) else content (fs_disk s) (sect_no (fs_fats s p) cs j)) \<and>
    (\<forall>l < sect_count (fs_fats s p) cs. l \<noteq> j \<longrightarrow>
      content (fs_disk t) (sect_no (fs_fats s p) cs l) = (if l = i then fl_buf (fs_files s a) else content (fs_disk s) (sect_no (fs_fats s p) cs l)))"
proof (cases "j = i")
  case True
  have "refill a p (sect_no (fs_fats s p) cs i) s = Some (Inr (), s)" using True assms(5) by (simp add: refill_def fat_run)
  then show ?thesis using True assms steady_refl [OF assms(1)]
    by (intro exI [of _ s] exI [of _ "fl_buf (fs_files s a)"] exI [of _ "fl_flags (fs_files s a)"]) simp
next
  case False
  let ?S = "sect_no (fs_fats s p) cs" and ?f = "fs_files s a" and ?ops = "f_ops (fs_fats s p)"
  have inj: "?S l = ?S m \<longleftrightarrow> l = m" if "l < sect_count (fs_fats s p) cs" "m < sect_count (fs_fats s p) cs" for l m
    using assms(1) that by (auto simp: data_ok_def inj_on_eq_iff)
  have ne: "fl_sect ?f \<noteq> ?S i" using False inj assms(2,3,5) by simp
  have len: "length (content (fs_disk s) (?S j)) = 512" using assms(1) by (simp add: data_ok_def vol_ok_def usable_def)
  show ?thesis
  proof (cases "fl_flags ?f AND FAT_FILE_DIRTY = 0")
    case True
    obtain d where d: "disk_read ?ops (fl_buf ?f) (?S j) s = Some (Inr (True, content (fs_disk s) (?S j)), s\<lparr>fs_disk := d\<rparr>)"
      "content d = content (fs_disk s)" "steady content p a cs s (s\<lparr>fs_disk := d\<rparr>)"
      using load_ok [OF assms(1,4)] by blast
    let ?t = "upd_file a (fl_buf_update (\<lambda>_. content (fs_disk s) (?S j))) (s\<lparr>fs_disk := d\<rparr>)"
    have "refill a p (?S i) s = Some (Inr (), ?t)" using ne True d(1) assms(5) by (simp add: refill_def fat_run)
    then show ?thesis using True False d len steady_upd_file [OF d(3)] assms(6)
      by (intro exI [of _ ?t] exI [of _ "content (fs_disk s) (?S j)"] exI [of _ "fl_flags ?f"]) auto
  next
    case dirty: False
    have "?S i \<in> file_sects (fs_fats s p) cs" using assms(2) by (simp add: file_sects_def)
    then obtain d where d: "disk_write ?ops (fl_buf ?f) (?S i) s = Some (Inr True, s\<lparr>fs_disk := d\<rparr>)"
      "content d = (content (fs_disk s))(?S i := fl_buf ?f)" "steady content p a cs s (s\<lparr>fs_disk := d\<rparr>)"
      using flush_ok [OF assms(1,4)] by blast
    let ?u = "upd_file a (\<lambda>f. f\<lparr>fl_flags := fl_flags f AND NOT FAT_FILE_DIRTY\<rparr>) (s\<lparr>fs_disk := d\<rparr>)"
    have su: "steady content p a cs s ?u" using steady_upd_file [OF d(3)] .
    have same: "content d (?S j) = content (fs_disk s) (?S j)" using d(2) False inj assms(2,3) by simp
    obtain e where e: "disk_read ?ops (fl_buf ?f) (?S j) ?u = Some (Inr (True, content (fs_disk s) (?S j)), ?u\<lparr>fs_disk := e\<rparr>)"
      "content e = content d" "steady content p a cs ?u (?u\<lparr>fs_disk := e\<rparr>)"
      using load_ok [OF steady_frame(2) [OF su] assms(4), of "?S j" a] steady_volume(7) [OF su] same by auto
    let ?t = "upd_file a (fl_buf_update (\<lambda>_. content (fs_disk s) (?S j))) (?u\<lparr>fs_disk := e\<rparr>)"
    have "refill a p (?S i) s = Some (Inr (), ?t)" using ne dirty d(1) e(1) assms(5) by (simp add: refill_def fat_run)
    moreover have "steady content p a cs s ?t" using steady_upd_file [OF steady_trans [OF su e(3)]] .
    moreover have "content (fs_disk ?t) (?S l) = (if l = i then fl_buf ?f else content (fs_disk s) (?S l))" if "l < sect_count (fs_fats s p) cs" for l
      using d(2) e(2) inj [OF that assms(2)] by simp
    ultimately show ?thesis using False same e(2) len dirty_bit
      by (intro exI [of _ ?t] exI [of _ "content (fs_disk s) (?S j)"] exI [of _ "fl_flags ?f AND NOT FAT_FILE_DIRTY"]) simp
  qed
qed

subsection \<open>Seeking keeps the contents\<close>

definition landed :: "('d \<Rightarrow> 32 word \<Rightarrow> 8 word list) \<Rightarrow> nat \<Rightarrow> 64 word \<Rightarrow> 32 word list \<Rightarrow> nat \<Rightarrow> 'd fat_state \<Rightarrow> 'd fat_state \<Rightarrow> bool" where
  "landed content p a cs o' s t \<longleftrightarrow> file_ok content p a cs t \<and> steady content p a cs s t \<and>
     file_view content p a cs t = file_view content p a cs s \<and> fl_offset (fs_files t a) = of_nat o' \<and> fl_size (fs_files t a) = fl_size (fs_files s a) \<and>
     fl_flags (fs_files t a) AND NOT FAT_FILE_DIRTY = fl_flags (fs_files s a) AND NOT FAT_FILE_DIRTY"

lemma landed_trans: "landed content p a cs o1 s t \<Longrightarrow> landed content p a cs o2 t u \<Longrightarrow> landed content p a cs o2 s u"
  unfolding landed_def using steady_trans [of content p a cs s t u] by simp

lemma seek_lands:
  assumes "file_ok content p a cs s" "calm content p cs s u" "fs_files u = (fs_files s)(a := move_to (fs_fats s p) cs o' (fs_files s a))"
    and "o' < 2 ^ 32" "o' div 512 < sect_count (fs_fats s p) cs"
  shows "\<exists>t. refill a p (fl_sect (fs_files s a)) u = Some (Inr (), t) \<and> landed content p a cs o' s t"
proof -
  let ?f = "fs_files s a" and ?S = "sect_no (fs_fats s p) cs" and ?n = "sect_count (fs_fats s p) cs"
  let ?i = "unat (fl_offset ?f) div 512" and ?j = "o' div 512"
  have ok: "data_ok content p cs s" and pl: "placed (fs_fats s p) p cs ?f" and len: "length (fl_buf ?f) = 512"
    and cl: "fl_flags ?f AND FAT_FILE_DIRTY = 0 \<longrightarrow> fl_buf ?f = content (fs_disk s) (fl_sect ?f)"
    using assms(1) by (simp_all add: file_ok_def)
  have i: "?i < ?n" "fl_sect ?f = ?S ?i" "fl_fat ?f = Some p" "fl_sclust ?f = hd cs" using pl by (simp_all add: placed_def Let_def)
  note V = calm_volume(1,2) [OF assms(2), of cs] and C = calm_content [OF ok assms(2)]
  have fu: "fs_files u a = move_to (fs_fats s p) cs o' ?f" using assms(3) by simp
  have dt: "fl_flags (fs_files u a) AND FAT_FILE_DIRTY = 0 \<longrightarrow> fl_buf (fs_files u a) = content (fs_disk u) (?S ?i)"
    using cl i(2) C [OF i(1)] by (simp add: fu move_to_def)
  have pre: "length (fl_buf (fs_files u a)) = 512" "fl_sect (fs_files u a) = ?S ?j" "fl_buf (fs_files u a) = fl_buf ?f" "fl_flags (fs_files u a) = fl_flags ?f"
    using len by (simp_all add: fu move_to_def)
  obtain t b fl where t: "refill a p (?S ?i) u = Some (Inr (), t)" "steady content p a cs u t" "fs_files t a = (fs_files u a)\<lparr>fl_buf := b, fl_flags := fl\<rparr>"
    "fl AND NOT FAT_FILE_DIRTY = fl_flags ?f AND NOT FAT_FILE_DIRTY" "fl AND FAT_FILE_DIRTY = 0 \<longrightarrow> b = content (fs_disk t) (?S ?j)" "length b = 512"
    "b = (if ?j = ?i then fl_buf ?f else content (fs_disk u) (?S ?j))"
    "\<forall>l < ?n. l \<noteq> ?j \<longrightarrow> content (fs_disk t) (?S l) = (if l = ?i then fl_buf ?f else content (fs_disk u) (?S l))"
    using refill_ok [OF calm_frame(2) [OF assms(2)], of ?i ?j a, unfolded V, OF i(1) assms(5) pre(1,2) dt, unfolded pre(3,4)]
    by (elim exE conjE) (rule that)
  have st: "steady content p a cs s t"
    using steady_trans [OF calm_steady [OF assms(2)] t(2)] assms(3) by simp
  note W = steady_volume(1,2) [OF st, of cs] and F = steady_frame(1) [OF st]
  have ft: "fs_files t a = move_to (fs_fats s p) cs o' (?f\<lparr>fl_buf := b, fl_flags := fl\<rparr>)" using t(3) fu by (simp add: move_to_def)
  have uo: "unat (of_nat o' :: 32 word) = o'" using assms(4) by (simp add: unat_of_nat)
  have "placed (fs_fats s p) p cs (fs_files t a)" unfolding ft using i(3,4) assms(5) uo by (simp add: placed_def move_to_def Let_def)
  then have fok: "file_ok content p a cs t"
    using steady_frame(2) [OF st] t(5,6) placed_volume [OF F, of p cs "fs_files t a"] by (simp add: file_ok_def ft move_to_def)
  have "sector_view content p a cs t l = sector_view content p a cs s l" if "l < ?n" for l
    using that t(7,8) C [OF that] C [OF assms(5)] unfolding sector_view_def ft W by (simp add: move_to_def uo)
  then have "file_view content p a cs t = file_view content p a cs s"
    unfolding file_view_def W by (intro arg_cong [of _ _ concat] map_cong) auto
  then have "landed content p a cs o' s t" using fok st t(4) by (simp add: landed_def ft move_to_def)
  then show ?thesis using t(1) i(2) by auto
qed

lemma seek_forward:
  assumes "file_ok content p a cs s" "unat (fl_offset (fs_files s a)) + cnt < 2 ^ 32"
    and "(unat (fl_offset (fs_files s a)) + cnt) div 512 < sect_count (fs_fats s p) cs"
  shows "\<exists>t. fat_file_seek a (int cnt) FAT_SEEK_CURR s = Some (Inr (), t) \<and> landed content p a cs (unat (fl_offset (fs_files s a)) + cnt) s t"
proof -
  have a: "data_ok content p cs s" "placed (fs_fats s p) p cs (fs_files s a)" using assms(1) by (simp_all add: file_ok_def)
  obtain u where u: "fat_file_seek a (int cnt) FAT_SEEK_CURR s = refill a p (fl_sect (fs_files s a)) u" "calm content p cs s u"
    "fs_files u = (fs_files s)(a := move_to (fs_fats s p) cs (unat (fl_offset (fs_files s a)) + cnt) (fs_files s a))"
    using seek_moves_on [OF a assms(2,3)] by blast
  show ?thesis using seek_lands [OF assms(1) u(2,3) assms(2,3)] unfolding u(1) .
qed

text \<open>Rewinding, as the system call for reading does before every read.\<close>

lemma seek_start:
  assumes "file_ok content p a cs s"
  shows "\<exists>t. fat_file_seek a 0 FAT_SEEK_START s = Some (Inr (), t) \<and> landed content p a cs 0 s t"
proof -
  have a: "data_ok content p cs s" "placed (fs_fats s p) p cs (fs_files s a)" using assms(1) by (simp_all add: file_ok_def)
  have n: "0 div 512 < sect_count (fs_fats s p) cs" using a(2) by (simp add: placed_def Let_def)
  obtain u where u: "fat_file_seek a 0 FAT_SEEK_START s = refill a p (fl_sect (fs_files s a)) u" "calm content p cs s u"
    "fs_files u = (fs_files s)(a := move_to (fs_fats s p) cs 0 (fs_files s a))"
    using seek_moves_back [OF a] by blast
  show ?thesis using seek_lands [OF assms u(2,3) _ n] unfolding u(1) by simp
qed

end
