(* ===== verification/Fat_Reading.thy ===== *)
theory Fat_Reading
  imports Fat_Seeking
begin

section \<open>Reading files\<close>

text \<open>
  \<^verbatim>\<open>fat_file_read\<close> copies from the buffer of the file and moves on, sector by sector: what it returns is a segment of the contents.
\<close>

lemma block_slice:
  assumes "\<forall>x < N. length (f x) = 512" "j < N" "i + c \<le> 512"
  shows "take c (drop (512 * j + i) (concat (map f [0..<N]))) = take c (drop i (f j))"
proof -
  have "[0..<N] = [0..<j] @ j # [Suc j..<N]" using assms(2) by (metis le_add_same_cancel1 less_imp_add_positive upt_add_eq_append upt_conv_Cons zero_le less_imp_le_nat)
  moreover have "length (concat (map f [0..<j])) = 512 * j" using assms(1,2)
  proof (induction j)
    case (Suc j)
    then show ?case by simp
  qed simp
  ultimately show ?thesis using assms by simp
qed

lemma sector_view_length: "file_ok content p a cs s \<Longrightarrow> length (sector_view content p a cs s j) = 512"
  by (simp add: file_ok_def sector_view_def data_ok_def vol_ok_def usable_def)

lemma file_view_length: "file_ok content p a cs s \<Longrightarrow> length (file_view content p a cs s) = 512 * sect_count (fs_fats s p) cs"
proof -
  assume ok: "file_ok content p a cs s"
  have "length (concat (map (sector_view content p a cs s) [0..<n])) = 512 * n" for n
    by (induction n) (simp_all add: sector_view_length [OF ok])
  then show ?thesis by (simp add: file_view_def)
qed

lemma chunk_slice:
  assumes "file_ok content p a cs s" "unat (fl_offset (fs_files s a)) mod 512 + cnt \<le> 512"
  shows "chunk_bytes (fs_files s a) cnt = take cnt (drop (unat (fl_offset (fs_files s a))) (file_view content p a cs s))"
proof -
  let ?o = "unat (fl_offset (fs_files s a))" and ?f = "sector_view content p a cs s"
  have at: "?o div 512 < sect_count (fs_fats s p) cs" "?f (?o div 512) = fl_buf (fs_files s a)"
    using assms(1) by (simp_all add: file_ok_def placed_def Let_def sector_view_def)
  have "512 * (?o div 512) + ?o mod 512 = ?o" by simp
  then show ?thesis
    using block_slice [of "sect_count (fs_fats s p) cs" ?f "?o div 512" "?o mod 512" cnt] sector_view_length [OF assms(1)] at assms(2)
    by (simp add: chunk_bytes_def file_view_def)
qed

definition to_read :: "File \<Rightarrow> nat \<Rightarrow> nat" where
  "to_read fl len = min len (unat (fl_size fl) - unat (fl_offset fl))"

lemma read_chunk_spec:
  assumes "length (fl_buf fl) = 512" "len < 2 ^ 32" "fl_offset fl < fl_size fl"
  shows "read_chunk fl (int len) = Some (min (to_read fl len) (512 - unat (fl_offset fl) mod 512))"
proof -
  have "unat (of_nat len :: 32 word) = len" using assms(2) by (simp add: unat_of_nat)
  moreover have "unat (fl_size fl - fl_offset fl) = unat (fl_size fl) - unat (fl_offset fl)"
    using assms(3) by (simp add: unat_sub order.strict_implies_order)
  ultimately have "min (unat (word_of_int (int len) :: 32 word)) (min (512 - unat (fl_offset fl) mod 512) (unat (fl_size fl - fl_offset fl))) =
      min (to_read fl len) (512 - unat (fl_offset fl) mod 512)"
    by (simp add: to_read_def min.commute min.left_commute min.assoc)
  moreover have "unat (fl_offset fl) mod 512 + min m (512 - unat (fl_offset fl) mod 512) \<le> 512" for m
  proof -
    have "unat (fl_offset fl) mod 512 < 512" by simp
    then show ?thesis by (simp add: min.coboundedI2)
  qed
  ultimately show ?thesis unfolding read_chunk_def Let_def assms(1) by simp
qed

lemma read_loop_step:
  assumes "len \<noteq> 0" "fl_offset (fs_files s a) < fl_size (fs_files s a)" "read_chunk (fs_files s a) (int len) = Some c"
    and "fat_file_seek a (int c) FAT_SEEK_CURR s = Some (Inr (), t)" "c \<le> len"
  shows "read_loop a (int len) acc s = read_loop a (int (len - c)) (acc @ chunk_bytes (fs_files s a) c) t"
proof -
  have "int (len - c) = int len - int c" using assms(5) by (rule of_nat_diff)
  then show ?thesis using assms(1-4) by (subst read_loop.simps) (simp add: fat_run)
qed

lemma read_loop_spec:
  assumes "file_ok content p a cs s" "len < 2 ^ 32"
    and "(unat (fl_offset (fs_files s a)) + to_read (fs_files s a) len) div 512 < sect_count (fs_fats s p) cs"
  shows "\<exists>t. read_loop a (int len) acc s = Some (Inr (0, acc @ take (to_read (fs_files s a) len)
        (drop (unat (fl_offset (fs_files s a))) (file_view content p a cs s))), t) \<and>
    landed content p a cs (unat (fl_offset (fs_files s a)) + to_read (fs_files s a) len) s t"
  using assms
proof (induction "to_read (fs_files s a) len" arbitrary: s len acc rule: less_induct)
  case less
  let ?f = "fs_files s a"
  let ?o = "unat (fl_offset ?f)" and ?m = "to_read ?f len" and ?B = "file_view content p a cs s"
  have ok: "data_ok content p cs s" and buf: "length (fl_buf ?f) = 512" using less.prems(1) by (simp_all add: file_ok_def)
  show ?case
  proof (cases "?m = 0")
    case True
    then have "len = 0 \<or> \<not> fl_offset ?f < fl_size ?f" by (auto simp: to_read_def word_less_nat_alt)
    then have "read_loop a (int len) acc s = Some (Inr (0, acc), s)" by (subst read_loop.simps) (auto simp: fat_run)
    then show ?thesis using True less.prems(1) steady_refl [OF ok] by (auto simp: landed_def)
  next
    case False
    then have lt: "len \<noteq> 0" "fl_offset ?f < fl_size ?f" by (auto simp: to_read_def word_less_nat_alt)
    let ?c = "min ?m (512 - ?o mod 512)"
    have c: "0 < ?c" "?c \<le> ?m" "?o mod 512 + ?c \<le> 512" using False by (auto simp: min_def)
    have m: "?o + ?m \<le> unat (fl_size ?f)" using lt(2) by (auto simp: to_read_def word_less_nat_alt)
    moreover have "unat (fl_size ?f) < 2 ^ 32" using unsigned_less [of "fl_size ?f", where 'a = nat] by simp
    ultimately have small: "?o + ?c < 2 ^ 32" using c(2) by linarith
    have "(?o + ?c) div 512 \<le> (?o + ?m) div 512" using c(2) by (intro div_le_mono) simp
    then have inside: "(?o + ?c) div 512 < sect_count (fs_fats s p) cs" using less.prems(3) by linarith
    obtain t where t: "fat_file_seek a (int ?c) FAT_SEEK_CURR s = Some (Inr (), t)" "landed content p a cs (?o + ?c) s t"
      using seek_forward [OF less.prems(1) small inside] by blast
    have L: "file_ok content p a cs t" "steady content p a cs s t" "file_view content p a cs t = ?B" "fl_offset (fs_files t a) = of_nat (?o + ?c)"
      "fl_size (fs_files t a) = fl_size ?f" using t(2) by (simp_all add: landed_def)
    have ot: "unat (fl_offset (fs_files t a)) = ?o + ?c" unfolding L(4) using small by (simp only: unat_of_nat) simp
    have tr: "to_read (fs_files t a) (len - ?c) = ?m - ?c"
    proof -
      have eq: "min (l - q) (z - (o' + q)) = min l (z - o') - q" for l q z o' :: nat by (simp add: min_def)
      show ?thesis using eq [of len ?c "unat (fl_size ?f)" ?o] unfolding to_read_def ot L(5) .
    qed
    have cl: "?c \<le> len" using c(2) by (simp add: to_read_def)
    have sum: "?o + ?c + (?m - ?c) = ?o + ?m" using c(2) by linarith
    have "(unat (fl_offset (fs_files t a)) + to_read (fs_files t a) (len - ?c)) div 512 < sect_count (fs_fats t p) cs"
      unfolding ot tr steady_volume(2) [OF L(2)] sum using less.prems(3) .
    moreover have "to_read (fs_files t a) (len - ?c) < ?m" unfolding tr using c by linarith
    moreover have "len - ?c < 2 ^ 32" using less.prems(2) by linarith
    ultimately obtain u where u: "read_loop a (int (len - ?c)) (acc @ chunk_bytes ?f ?c) t = Some (Inr (0, (acc @ chunk_bytes ?f ?c) @ take (?m - ?c) (drop (?o + ?c) ?B)), u)"
      "landed content p a cs (?o + ?m) t u"
      using less.hyps [OF _ L(1), of "len - ?c" "acc @ chunk_bytes ?f ?c"] unfolding ot tr L(3) sum by blast
    have chunk: "read_chunk ?f (int len) = Some ?c" using read_chunk_spec [OF buf less.prems(2) lt(2)] .
    have bytes: "chunk_bytes ?f ?c @ take (?m - ?c) (drop (?o + ?c) ?B) = take ?m (drop ?o ?B)"
    proof -
      have "take ?m (drop ?o ?B) = take (?c + (?m - ?c)) (drop ?o ?B)" using c(2) by simp
      also have "\<dots> = take ?c (drop ?o ?B) @ take (?m - ?c) (drop ?c (drop ?o ?B))" by (rule take_add)
      finally show ?thesis using chunk_slice [OF less.prems(1) c(3)] by (simp add: add.commute)
    qed
    have "read_loop a (int len) acc s = read_loop a (int (len - ?c)) (acc @ chunk_bytes ?f ?c) t"
      using read_loop_step [OF lt chunk t(1) cl] .
    then have "read_loop a (int len) acc s = Some (Inr (0, acc @ take ?m (drop ?o ?B)), u)" using u(1) bytes by simp
    then show ?thesis using landed_trans [OF t(2) u(2)] by blast
  qed
qed

text \<open>Changing the size, or flags other than the dirty flag.\<close>

lemma change_fields:
  assumes "file_ok content p a cs s" "fl_flags (g (fs_files s a)) AND FAT_FILE_DIRTY = fl_flags (fs_files s a) AND FAT_FILE_DIRTY"
    and "fl_fat (g (fs_files s a)) = fl_fat (fs_files s a)" "fl_sclust (g (fs_files s a)) = fl_sclust (fs_files s a)"
    and "fl_clust (g (fs_files s a)) = fl_clust (fs_files s a)" "fl_sect (g (fs_files s a)) = fl_sect (fs_files s a)"
    and "fl_offset (g (fs_files s a)) = fl_offset (fs_files s a)" "fl_buf (g (fs_files s a)) = fl_buf (fs_files s a)"
  shows "file_ok content p a cs (upd_file a g s)" "steady content p a cs s (upd_file a g s)"
    "file_view content p a cs (upd_file a g s) = file_view content p a cs s"
proof -
  have ok: "data_ok content p cs s" using assms(1) by (simp add: file_ok_def)
  show st: "steady content p a cs s (upd_file a g s)" by (rule steady_upd_file [OF steady_refl [OF ok]])
  show "file_ok content p a cs (upd_file a g s)"
    using assms(1) steady_frame(2) [OF st] unfolding file_ok_def by (simp add: placed_def assms(2-))
  have "sector_view content p a cs (upd_file a g s) = sector_view content p a cs s"
    by (rule ext) (simp add: sector_view_def assms(7,8))
  then show "file_view content p a cs (upd_file a g s) = file_view content p a cs s" by (simp add: file_view_def)
qed

lemma file_read_ok:
  assumes "file_ok content p a cs s" "fl_flags (fs_files s a) AND FAT_READ \<noteq> 0" "len < 2 ^ 31"
    and "(unat (fl_offset (fs_files s a)) + to_read (fs_files s a) len) div 512 < sect_count (fs_fats s p) cs"
  shows "\<exists>t. fat_file_read a (int len) s = Some (Inr (0, take (to_read (fs_files s a) len)
        (drop (unat (fl_offset (fs_files s a))) (file_view content p a cs s))), t) \<and>
    file_ok content p a cs t \<and> steady content p a cs s t \<and> file_view content p a cs t = file_view content p a cs s \<and>
    fl_offset (fs_files t a) = of_nat (unat (fl_offset (fs_files s a)) + to_read (fs_files s a) len)"
proof -
  let ?s = "upd_file a (\<lambda>f. f\<lparr>fl_flags := fl_flags f OR FAT_ACCESSED\<rparr>) s"
  have S: "file_ok content p a cs ?s" "steady content p a cs s ?s" "file_view content p a cs ?s = file_view content p a cs s"
    using change_fields [OF assms(1), of "\<lambda>f. f\<lparr>fl_flags := fl_flags f OR FAT_ACCESSED\<rparr>"] by (simp_all add: bit.conj_disj_distrib2)
  have same: "to_read (fs_files ?s a) len = to_read (fs_files s a) len" "fl_offset (fs_files ?s a) = fl_offset (fs_files s a)" by (simp_all add: to_read_def)
  have len: "len < 2 ^ 32" using assms(3) by simp
  obtain t where t: "read_loop a (int len) [] ?s = Some (Inr (0, [] @ take (to_read (fs_files s a) len)
        (drop (unat (fl_offset (fs_files s a))) (file_view content p a cs s))), t)"
    "landed content p a cs (unat (fl_offset (fs_files s a)) + to_read (fs_files s a) len) ?s t"
    using read_loop_spec [OF S(1) len, of "[]", unfolded same steady_volume(2) [OF S(2)] S(3)] assms(4) by blast
  have "fl_fat (fs_files s a) = Some p" using assms(1) by (simp add: file_ok_def placed_def)
  then have "fat_file_read a (int len) s = read_loop a (int len) [] ?s" using assms(2) by (simp add: fat_file_read_def fat_run)
  then show ?thesis using t(1) t(2) [unfolded landed_def] S(3) steady_trans [OF S(2), of t] by (intro exI [of _ t]) simp
qed

text \<open>
  C13. Reading a file returns its contents. For an open file whose position agrees with its chain of clusters, fat_file_read(len) returns
  no error and the bytes of the file from its position on: len of them, or all up to the size of the file. The position advances by
  as many, the invariant holds again, the contents are unchanged (data still in the buffer is written back on the way), and no other file and
  no sector outside of this one changes. The read must not end at the end of the last cluster: there the code moves on to
  the next cluster, and would allocate one.
\<close>

theorem file_read_correct:
  assumes "file_ok content p a cs s" "fl_flags (fs_files s a) AND FAT_READ \<noteq> 0" "len < 2 ^ 31"
    and "(unat (fl_offset (fs_files s a)) + to_read (fs_files s a) len) div 512 < sect_count (fs_fats s p) cs"
  shows "\<exists>t. fat_file_read a (int len) s = Some (Inr (0, take (to_read (fs_files s a) len)
        (drop (unat (fl_offset (fs_files s a))) (file_view content p a cs s))), t) \<and>
    file_ok content p a cs t \<and> steady content p a cs s t \<and> file_view content p a cs t = file_view content p a cs s \<and>
    fl_offset (fs_files t a) = of_nat (unat (fl_offset (fs_files s a)) + to_read (fs_files s a) len)"
  using file_read_ok [OF assms] .

lemma volume_file:
  assumes "reliable ops content" "content d = demo_sectors"
  shows "file_ok content 0 a [2, 3] (volume_on ops d)" "sect_count (fs_fats (volume_on ops d) 0) [2, 3] = 2"
    "file_view content 0 a [2, 3] (volume_on ops d) = replicate 512 4 @ replicate 512 5"
    "fs_files (volume_on ops d) a = demo_file"
proof -
  let ?s = "volume_on ops d"
  have S: "sect_count (fs_fats ?s 0) [2, 3] = 2" "sect_no (fs_fats ?s 0) [2, 3] 0 = 4" "sect_no (fs_fats ?s 0) [2, 3] 1 = 5"
    by (simp_all add: sect_count_def sect_no_def volume_on_def demo_fat_def clust_to_sect_def)
  show "sect_count (fs_fats ?s 0) [2, 3] = 2" by (fact S(1))
  have n: "{..<2} = {0, 1 :: nat}" by auto
  have fs: "file_sects (fs_fats ?s 0) [2, 3] = {4, 5}" "inj_on (sect_no (fs_fats ?s 0) [2, 3]) {..<2}" using S by (simp_all add: file_sects_def n)
  have "elsewhere (fs_fats ?s 0) m" if "m = 4 \<or> m = 5" for m
    using that demo_div by (auto simp: elsewhere_def in_table_def volume_on_def demo_fat_def)
  moreover have "f_clust_shift (fs_fats ?s 0) = 0" "f_clust_msk (fs_fats ?s 0) = 0" "f_sect (fs_fats ?s 0) = 2"
    by (simp_all add: volume_on_def demo_fat_def)
  ultimately have "data_ok content 0 [2, 3] ?s"
    using volume_vol_ok [OF assms] volume_layout [of ops d] volume_chain [of content ops d] fs S(1) by (simp add: data_ok_def)
  moreover have F: "fs_files ?s a = demo_file" "fs_disk ?s = d" by (simp_all add: volume_on_def)
  moreover have "placed (fs_fats ?s 0) 0 [2, 3] demo_file" using S by (simp add: placed_def demo_file_def)
  moreover have "length (fl_buf demo_file) = 512" "fl_buf demo_file = content d (fl_sect demo_file)" using assms(2) by (simp_all add: demo_file_def demo_sectors_def)
  ultimately show "file_ok content 0 a [2, 3] ?s" "fs_files ?s a = demo_file" by (simp_all add: file_ok_def)
  have "sector_view content 0 a [2, 3] ?s 0 = replicate 512 4" "sector_view content 0 a [2, 3] ?s 1 = replicate 512 5"
    using S assms(2) by (simp_all add: sector_view_def F demo_file_def demo_sectors_def)
  then show "file_view content 0 a [2, 3] ?s = replicate 512 4 @ replicate 512 5"
    by (simp add: file_view_def S upt_rec [of _ 2])
qed

theorem file_read_witness:
  "\<exists>t. fat_file_read 0 520 demo_volume = Some (Inr (0, replicate 512 4 @ replicate 8 5), t)"
proof -
  note V = volume_file [where content = ram_content and d = demo_sectors, OF ram_reliable demo_content, folded demo_volume_def]
  have f: "fl_flags (fs_files demo_volume 0) AND FAT_READ \<noteq> 0" "to_read (fs_files demo_volume 0) 520 = 520" "fl_offset (fs_files demo_volume 0) = 0"
    unfolding V(4) by (simp_all add: demo_file_def to_read_def)
  show ?thesis using file_read_correct [OF V(1) f(1), of 520] V(2,3) f(2,3) by auto
qed

end
