(* ===== verification/Fat_Writing.thy ===== *)
theory Fat_Writing
  imports Fat_Reading
begin

section \<open>Writing files\<close>

text \<open>
  \<^verbatim>\<open>fat_file_write\<close> changes the buffer of the file and moves on, and seeking writes the buffer back: the contents change at the
  position, and nowhere else. The writes considered here stay inside the clusters of the file.
\<close>

definition overwrite :: "'a list \<Rightarrow> nat \<Rightarrow> 'a list \<Rightarrow> 'a list" where
  "overwrite bs i xs = take i bs @ xs @ drop (i + length xs) bs"

lemma overwrite_nil: "overwrite bs i [] = bs"
  by (simp add: overwrite_def)

lemma overwrite_length: "i + length xs \<le> length bs \<Longrightarrow> length (overwrite bs i xs) = length bs"
  by (simp add: overwrite_def)

lemma overwrite_append:
  assumes "i + length xs + length ys \<le> length bs"
  shows "overwrite (overwrite bs i xs) (i + length xs) ys = overwrite bs i (xs @ ys)"
  using assms by (simp add: overwrite_def ac_simps)

text \<open>Changing one block of many.\<close>

lemma concat_upd:
  assumes "\<forall>x < N. length (f x) = 512" "j < N" "i + length xs \<le> 512"
  shows "concat (map (f(j := overwrite (f j) i xs)) [0..<N]) = overwrite (concat (map f [0..<N])) (512 * j + i) xs"
proof -
  have sp: "[0..<N] = [0..<j] @ j # [Suc j..<N]"
    using assms(2) by (metis le_add_same_cancel1 less_imp_add_positive upt_add_eq_append upt_conv_Cons zero_le less_imp_le_nat)
  have len: "length (concat (map f [0..<j])) = 512 * j" using assms(1,2)
  proof (induction j)
    case (Suc j)
    then show ?case by simp
  qed simp
  let ?A = "concat (map f [0..<j])" and ?C = "concat (map f [Suc j..<N])"
  have eq: "map (f(j := v)) [0..<j] = map f [0..<j]" "map (f(j := v)) [Suc j..<N] = map f [Suc j..<N]" for v by simp_all
  have "concat (map (f(j := overwrite (f j) i xs)) [0..<N]) = ?A @ overwrite (f j) i xs @ ?C" unfolding sp map_append list.map eq by simp
  also have "\<dots> = overwrite (?A @ f j @ ?C) (512 * j + i) xs"
    using len assms by (simp add: overwrite_def)
  finally show ?thesis unfolding sp by simp
qed

subsection \<open>One chunk\<close>

text \<open>\<open>wrote\<close>: the contents have changed at \<open>i\<close>, and the position is \<open>o'\<close>.\<close>

definition wrote :: "('d \<Rightarrow> 32 word \<Rightarrow> 8 word list) \<Rightarrow> nat \<Rightarrow> 64 word \<Rightarrow> 32 word list \<Rightarrow> nat \<Rightarrow> 8 word list \<Rightarrow> nat \<Rightarrow> 'd fat_state \<Rightarrow> 'd fat_state \<Rightarrow> bool" where
  "wrote content p a cs i xs o' s t \<longleftrightarrow> file_ok content p a cs t \<and> steady content p a cs s t \<and>
     file_view content p a cs t = overwrite (file_view content p a cs s) i xs \<and> fl_offset (fs_files t a) = of_nat o' \<and>
     fl_size (fs_files t a) = fl_size (fs_files s a) \<and>
     fl_flags (fs_files t a) AND NOT FAT_FILE_DIRTY = fl_flags (fs_files s a) AND NOT FAT_FILE_DIRTY"

lemma dirty_bit_set: "((x :: 8 word) OR 0x80) AND 0x80 \<noteq> 0" "((x :: 8 word) OR 0x80) AND NOT 0x80 = x AND NOT 0x80"
proof -
  have "((x :: 8 word) OR 0x80) AND 0x80 = 0x80" by (rule bit_word_eqI) (auto simp: bit_simps)
  then show "((x :: 8 word) OR 0x80) AND 0x80 \<noteq> 0" by simp
  show "((x :: 8 word) OR 0x80) AND NOT 0x80 = x AND NOT 0x80" by (rule bit_word_eqI) (auto simp: bit_simps)
qed

lemma store_wrote:
  assumes "file_ok content p a cs s" "cnt \<le> length src" "unat (fl_offset (fs_files s a)) mod 512 + cnt \<le> 512"
  shows "wrote content p a cs (unat (fl_offset (fs_files s a))) (take cnt src) (unat (fl_offset (fs_files s a))) s (upd_file a (store_chunk src cnt) s)"
proof -
  let ?f = "fs_files s a" and ?t = "upd_file a (store_chunk src cnt) s"
  let ?o = "unat (fl_offset ?f)"
  have ok: "data_ok content p cs s" "placed (fs_fats s p) p cs ?f" "length (fl_buf ?f) = 512" using assms(1) by (simp_all add: file_ok_def)
  have f: "fs_files ?t a = ?f\<lparr>fl_buf := overwrite (fl_buf ?f) (?o mod 512) (take cnt src), fl_flags := fl_flags ?f OR FAT_FILE_DIRTY\<rparr>"
    using assms(2) by (simp add: store_chunk_def overwrite_def Let_def)
  have st: "steady content p a cs s ?t" using steady_upd_file [OF steady_refl [OF ok(1)]] .
  have "length (overwrite (fl_buf ?f) (?o mod 512) (take cnt src)) = 512" using overwrite_length [of "?o mod 512" "take cnt src" "fl_buf ?f"] assms(2,3) ok(3) by simp
  then have fok: "file_ok content p a cs ?t"
    using steady_frame(2) [OF st] ok(2) dirty_bit_set(1) unfolding file_ok_def f by (simp add: placed_def)
  have i: "?o div 512 < sect_count (fs_fats s p) cs" using ok(2) by (simp add: placed_def Let_def)
  have "sector_view content p a cs ?t = (sector_view content p a cs s)(?o div 512 := overwrite (sector_view content p a cs s (?o div 512)) (?o mod 512) (take cnt src))"
    unfolding sector_view_def f by (rule ext) simp
  then have "file_view content p a cs ?t = overwrite (file_view content p a cs s) (512 * (?o div 512) + ?o mod 512) (take cnt src)"
    using concat_upd [of "sect_count (fs_fats s p) cs" "sector_view content p a cs s" "?o div 512" "?o mod 512" "take cnt src"]
      sector_view_length [OF assms(1)] i assms(2,3) by (simp add: file_view_def)
  then show ?thesis using fok st dirty_bit_set(2) unfolding wrote_def f by simp
qed

subsection \<open>The loop\<close>

lemma write_loop_step:
  assumes "len \<noteq> 0" "write_chunk (fs_files s a) src (int len) = Some c" "c \<le> len"
    and "fat_file_seek a (int c) FAT_SEEK_CURR (upd_file a (store_chunk src c) s) = Some (Inr (), t)"
  shows "write_loop a src (int len) w s = write_loop a (drop c src) (int (len - c)) (w + int c) t"
proof -
  have "int (len - c) = int len - int c" using assms(3) by (rule of_nat_diff)
  then show ?thesis using assms(1,2,4) by (subst write_loop.simps) (simp add: fat_run)
qed

lemma write_chunk_spec:
  assumes "length (fl_buf fl) = 512" "len \<le> length src"
  shows "write_chunk fl src (int len) = Some (min len (512 - unat (fl_offset fl) mod 512))"
proof -
  let ?i = "unat (fl_offset fl) mod 512"
  have i: "?i < 512" by simp
  then have "min (int len) (512 - int ?i) = int (min len (512 - ?i))" by (simp add: of_nat_diff of_nat_min)
  moreover have "?i + min len (512 - ?i) \<le> 512" using i by (simp add: min.coboundedI2)
  moreover have "min len (512 - ?i) \<le> length src" using assms(2) by simp
  ultimately show ?thesis unfolding write_chunk_def Let_def assms(1) by simp
qed

lemma wrote_landed:
  "wrote content p a cs i xs o1 s t \<Longrightarrow> landed content p a cs o2 t u \<Longrightarrow> wrote content p a cs i xs o2 s u"
  unfolding wrote_def landed_def using steady_trans [of content p a cs s t u] by simp

lemma write_loop_spec:
  assumes "file_ok content p a cs s" "len \<le> length src" "unat (fl_offset (fs_files s a)) + len < 2 ^ 32"
    and "(unat (fl_offset (fs_files s a)) + len) div 512 < sect_count (fs_fats s p) cs"
  shows "\<exists>t. write_loop a src (int len) w s = Some (Inr (w + int len), t) \<and>
    wrote content p a cs (unat (fl_offset (fs_files s a))) (take len src) (unat (fl_offset (fs_files s a)) + len) s t"
  using assms
proof (induction len arbitrary: s src w rule: less_induct)
  case (less len)
  let ?f = "fs_files s a"
  let ?o = "unat (fl_offset ?f)" and ?B = "file_view content p a cs s"
  have ok: "data_ok content p cs s" and buf: "length (fl_buf ?f) = 512" using less.prems(1) by (simp_all add: file_ok_def)
  show ?case
  proof (cases "len = 0")
    case True
    then have "write_loop a src (int len) w s = Some (Inr w, s)" by (subst write_loop.simps) (simp add: fat_run)
    then show ?thesis using True less.prems(1) steady_refl [OF ok] by (simp add: wrote_def overwrite_nil)
  next
    case False
    let ?c = "min len (512 - ?o mod 512)"
    have c: "0 < ?c" "?c \<le> len" "?o mod 512 + ?c \<le> 512" "?c \<le> length src" using False less.prems(2) by (auto simp: min_def)
    let ?u = "upd_file a (store_chunk src ?c) s"
    have u: "wrote content p a cs ?o (take ?c src) ?o s ?u" by (rule store_wrote [OF less.prems(1) c(4,3)])
    then have U: "file_ok content p a cs ?u" "steady content p a cs s ?u" "fl_offset (fs_files ?u a) = fl_offset ?f" by (simp_all add: wrote_def)
    have small: "?o + ?c < 2 ^ 32" using less.prems(3) c(2) by linarith
    have "(?o + ?c) div 512 \<le> (?o + len) div 512" using c(2) by (intro div_le_mono) simp
    then have inside: "(?o + ?c) div 512 < sect_count (fs_fats s p) cs" using less.prems(4) by linarith
    obtain t where t: "fat_file_seek a (int ?c) FAT_SEEK_CURR ?u = Some (Inr (), t)" "landed content p a cs (?o + ?c) ?u t"
      using seek_forward [OF U(1), of ?c] small inside unfolding U(3) steady_volume(2) [OF U(2)] by blast
    have w1: "wrote content p a cs ?o (take ?c src) (?o + ?c) s t" using wrote_landed [OF u t(2)] .
    then have T: "file_ok content p a cs t" "steady content p a cs s t" "file_view content p a cs t = overwrite ?B ?o (take ?c src)"
      "fl_offset (fs_files t a) = of_nat (?o + ?c)" by (simp_all add: wrote_def)
    have ot: "unat (fl_offset (fs_files t a)) = ?o + ?c" unfolding T(4) using small by (simp only: unat_of_nat) simp
    have sum: "?o + ?c + (len - ?c) = ?o + len" using c(2) by linarith
    have pre: "len - ?c < len" "len - ?c \<le> length (drop ?c src)" using c(1) False less.prems(2) by auto
    obtain v where v: "write_loop a (drop ?c src) (int (len - ?c)) (w + int ?c) t = Some (Inr (w + int ?c + int (len - ?c)), v)"
      "wrote content p a cs (?o + ?c) (take (len - ?c) (drop ?c src)) (?o + len) t v"
      using less.IH [OF pre(1) T(1) pre(2), of "w + int ?c"] less.prems(3,4) unfolding ot sum steady_volume(2) [OF T(2)] by blast
    have run: "write_loop a src (int len) w s = Some (Inr (w + int ?c + int (len - ?c)), v)"
      using write_loop_step [OF False write_chunk_spec [OF buf less.prems(2)] c(2) t(1)] v(1) by simp
    have n: "w + int ?c + int (len - ?c) = w + int len" using c(2) by (simp add: of_nat_diff)
    have "?o + len < 512 * sect_count (fs_fats s p) cs" using less.prems(4) by (metis div_less_iff_less_mult mult.commute zero_less_numeral)
    moreover have lens: "length (take ?c src) = ?c" "length (take (len - ?c) (drop ?c src)) = len - ?c"
      using c(4) pre(2) by (simp_all only: length_take min.absorb2)
    ultimately have fit: "?o + length (take ?c src) + length (take (len - ?c) (drop ?c src)) \<le> length ?B"
      unfolding lens sum file_view_length [OF less.prems(1)] by simp
    have "take ?c src @ take (len - ?c) (drop ?c src) = take len src" using take_add [of ?c "len - ?c" src] c(2) by simp
    then have "overwrite (overwrite ?B ?o (take ?c src)) (?o + ?c) (take (len - ?c) (drop ?c src)) = overwrite ?B ?o (take len src)"
      using overwrite_append [OF fit] unfolding lens(1) by simp
    then have "wrote content p a cs ?o (take len src) (?o + len) s v"
      using v(2) w1 steady_trans [OF T(2), of v] unfolding wrote_def T(3) by simp
    then show ?thesis using run n by auto
  qed
qed

lemma mode_kept: "(x :: 8 word) AND NOT 0x80 = (y OR 0x60) AND NOT 0x80 \<Longrightarrow> x AND 3 = y AND 3"
proof -
  have e: "(z AND NOT 0x80) AND 3 = z AND 3" "(z OR 0x60) AND 3 = z AND 3" for z :: "8 word"
    by (simp_all add: and.assoc bit.conj_disj_distrib2)
  assume "x AND NOT 0x80 = (y OR 0x60) AND NOT 0x80"
  then show ?thesis using e(1) [of x] e(1) [of "y OR 0x60"] e(2) [of y] by simp
qed

lemma file_write_ok:
  assumes "file_ok content p a cs s" "fl_flags (fs_files s a) AND FAT_WRITE \<noteq> 0" "len \<le> length src" "unat (fl_offset (fs_files s a)) + len < 2 ^ 32"
    and "(unat (fl_offset (fs_files s a)) + len) div 512 < sect_count (fs_fats s p) cs"
  shows "\<exists>t. fat_file_write a src (int len) s = Some (Inr (0, int len), t) \<and> file_ok content p a cs t \<and> steady content p a cs s t \<and>
    file_view content p a cs t = overwrite (file_view content p a cs s) (unat (fl_offset (fs_files s a))) (take len src) \<and>
    unat (fl_offset (fs_files t a)) = unat (fl_offset (fs_files s a)) + len \<and>
    unat (fl_size (fs_files t a)) = max (unat (fl_size (fs_files s a))) (unat (fl_offset (fs_files s a)) + len) \<and>
    fl_flags (fs_files t a) AND 3 = fl_flags (fs_files s a) AND 3"
proof -
  let ?o = "unat (fl_offset (fs_files s a))" and ?set = "\<lambda>f. f\<lparr>fl_flags := fl_flags f OR (FAT_MODIFIED OR FAT_ACCESSED)\<rparr>"
  let ?s = "upd_file a ?set s"
  have S: "file_ok content p a cs ?s" "steady content p a cs s ?s" "file_view content p a cs ?s = file_view content p a cs s"
    using change_fields [OF assms(1), of ?set] by (simp_all add: bit.conj_disj_distrib2)
  have o: "fl_offset (fs_files ?s a) = fl_offset (fs_files s a)" "fl_size (fs_files ?s a) = fl_size (fs_files s a)" by simp_all
  obtain t where t: "write_loop a src (int len) 0 ?s = Some (Inr (0 + int len), t)" "wrote content p a cs ?o (take len src) (?o + len) ?s t"
    using write_loop_spec [OF S(1) assms(3), of 0, unfolded o steady_volume(2) [OF S(2)]] assms(4,5) by blast
  note W = t(2) [unfolded wrote_def S(3) o(2)]
  have ut: "unat (fl_offset (fs_files t a)) = ?o + len" using W assms(4) by (simp only: unat_of_nat) simp
  let ?size = "\<lambda>f. if fl_size f < fl_offset f then f\<lparr>fl_size := fl_offset f\<rparr> else f"
  let ?t = "upd_file a ?size t"
  have tok: "file_ok content p a cs t" using W by blast
  have T: "file_ok content p a cs ?t" "steady content p a cs t ?t" "file_view content p a cs ?t = file_view content p a cs t"
    using change_fields [OF tok, of ?size] by simp_all
  have "fl_fat (fs_files s a) = Some p" using assms(1) by (simp add: file_ok_def placed_def)
  then have "fat_file_write a src (int len) s = Some (Inr (0, int len), ?t)" using assms(2) t(1) by (simp add: fat_file_write_def fat_run)
  moreover have "unat (fl_size (fs_files ?t a)) = max (unat (fl_size (fs_files s a))) (?o + len)"
    using ut W by (auto simp: word_less_nat_alt max_def)
  moreover have "unat (fl_offset (fs_files ?t a)) = ?o + len" using ut by simp
  moreover have "steady content p a cs s ?t" using steady_trans [OF steady_trans [OF S(2)] T(2)] W by blast
  moreover have "file_view content p a cs ?t = overwrite (file_view content p a cs s) ?o (take len src)" using T(3) W by simp
  moreover have "fl_flags (fs_files ?t a) AND 3 = fl_flags (fs_files s a) AND 3"
  proof -
    have "fl_flags (fs_files t a) AND NOT 0x80 = (fl_flags (fs_files s a) OR 0x60) AND NOT 0x80" using W by simp
    then show ?thesis using mode_kept by simp
  qed
  ultimately show ?thesis using T(1) by blast
qed

text \<open>
  C12. Writing a file changes its contents at the position. For an open file whose position agrees with its chain, fat_file_write(src, len)
  returns no error and len; the contents are the old ones with the len bytes at the position replaced by the first len of src, the
  position moves behind them, the size grows to the position if it was smaller, the invariant holds again, and no other open file and no sector
  outside of the file changes. The write must end inside the clusters of the file.
\<close>

theorem file_write_correct:
  assumes "file_ok content p a cs s" "fl_flags (fs_files s a) AND FAT_WRITE \<noteq> 0" "len \<le> length src" "unat (fl_offset (fs_files s a)) + len < 2 ^ 32"
    and "(unat (fl_offset (fs_files s a)) + len) div 512 < sect_count (fs_fats s p) cs"
  shows "\<exists>t. fat_file_write a src (int len) s = Some (Inr (0, int len), t) \<and> file_ok content p a cs t \<and> steady content p a cs s t \<and>
    file_view content p a cs t = overwrite (file_view content p a cs s) (unat (fl_offset (fs_files s a))) (take len src) \<and>
    unat (fl_offset (fs_files t a)) = unat (fl_offset (fs_files s a)) + len \<and>
    unat (fl_size (fs_files t a)) = max (unat (fl_size (fs_files s a))) (unat (fl_offset (fs_files s a)) + len)"
  using file_write_ok [OF assms] by blast

theorem file_write_witness:
  "\<exists>t. fat_file_write 0 (replicate 600 7) 515 demo_volume = Some (Inr (0, 515), t) \<and>
    file_view ram_content 0 0 [2, 3] t = replicate 515 7 @ replicate 509 5"
proof -
  note V = volume_file [where content = ram_content and d = demo_sectors, OF ram_reliable demo_content, folded demo_volume_def]
  have f: "fl_flags (fs_files demo_volume 0) AND FAT_WRITE \<noteq> 0" "unat (fl_offset (fs_files demo_volume 0)) = 0"
    unfolding V(4) by (simp_all add: demo_file_def)
  have "overwrite (replicate 512 4 @ replicate 512 5) 0 (take 515 (replicate 600 7)) = replicate 515 7 @ replicate 509 (5 :: 8 word)"
    by (simp add: overwrite_def)
  then show ?thesis using file_write_correct [OF V(1) f(1), of 515 "replicate 600 7"] V(2,3) f(2) by auto
qed

end
