(* ===== verification/Fat_Sync.thy ===== *)
theory Fat_Sync
  imports Fat_Writing
begin

section \<open>Saving files\<close>

text \<open>
  \<^verbatim>\<open>fat_file_sync\<close>, which \<^verbatim>\<open>fat_file_close\<close> calls: afterwards the contents and the directory entry of the file are on the disk.
\<close>

lemma sync_fs_ok:
  assumes "vol_ok content p s" "layout_ok (fs_fats s p)"
  shows "\<exists>t. sync_fs p s = Some (Inr (), t) \<and> vol_ok content p t \<and> frame_info p s t \<and> \<not> dirty p t \<and>
    (\<forall>m. m \<noteq> 0 \<longrightarrow> m \<noteq> f_info_sect (fs_fats s p) \<longrightarrow> view content p t m = view content p s m)"
proof (cases "f_flags (fs_fats s p) AND FAT_INFO_DIRTY = 0")
  case True
  obtain t where t: "sync_buf p s = Some (Inr (), t)" "vol_ok content p t" "buf_frame p s t" "\<not> dirty p t" "view content p t = view content p s"
    using sync_buf_spec [OF assms(1)] by blast
  have "f_flags (fs_fats t p) AND FAT_INFO_DIRTY = 0" using True flag_other [OF frame_same(20) [OF t(3)]] by simp
  then have "sync_fs p s = Some (Inr (), t)" using t(1) by (simp add: sync_fs_def fat_run)
  then show ?thesis using t frame_into_info [OF t(3)] by (intro exI [of _ t]) simp
next
  case False
  then show ?thesis using sync_fs_info [OF assms] by blast
qed

text \<open>A volume without a dirty buffer shows what is on the disk.\<close>

lemma clean_view: "vol_ok content p s \<Longrightarrow> \<not> dirty p s \<Longrightarrow> m \<noteq> 0 \<Longrightarrow> view content p s m = content (fs_disk s) m"
  by (auto simp: vol_ok_def view_def)

subsection \<open>The directory entry\<close>

lemma rd32_wr16_other: "wr16 b i v = Some b' \<Longrightarrow> i + 2 \<le> j \<Longrightarrow> rd32 b' j = rd32 b j"
  by (auto simp: rd32_def wr16_def split: if_splits)

lemma stamp_entry_ok:
  assumes "32 \<le> length e"
  shows "\<exists>e'. stamp_entry fl e = Some e' \<and> length e' = length e \<and> (fl_flags fl AND FAT_MODIFIED \<noteq> 0 \<longrightarrow> rd32 e' 28 = Some (fl_size fl))"
proof -
  obtain date time where dt: "encode_timestamp = (date, time)" by (cases encode_timestamp)
  obtain e1 where e1: "(if fl_flags fl AND FAT_ACCESSED \<noteq> 0 then wr16 e 18 date else Some e) = Some e1" "length e1 = length e"
  proof (cases "fl_flags fl AND FAT_ACCESSED = 0")
    case False
    then obtain e1 where "wr16 e 18 date = Some e1" using wr_inside(2) [of 18 e] assms by auto
    then show ?thesis using that False wr_length(2) by simp
  qed (use that in simp)
  show ?thesis
  proof (cases "fl_flags fl AND FAT_MODIFIED = 0")
    case True
    then show ?thesis using e1 unfolding stamp_entry_def dt by simp
  next
    case False
    let ?attr = "e1 ! 11 OR FAT_ATTR_ARCHIVE"
    obtain e2 where e2: "wr8 e1 11 ?attr = Some e2" "length e2 = length e" using wr_inside(1) [of 11 e1] wr_length(1) assms e1(2) by fastforce
    obtain e3 where e3: "wr32 e2 28 (fl_size fl) = Some e3" "length e3 = length e" using wr_inside(3) [of 28 e2] wr_length(3) assms e2(2) by fastforce
    obtain e4 where e4: "wr16 e3 24 date = Some e4" "length e4 = length e" using wr_inside(2) [of 24 e3] wr_length(2) assms e3(2) by fastforce
    obtain e5 where e5: "wr16 e4 22 time = Some e5" "length e5 = length e" using wr_inside(2) [of 22 e4] wr_length(2) assms e4(2) by fastforce
    have "rd8 e1 11 = Some (e1 ! 11)" using rd_inside(1) assms e1(2) by simp
    then have "stamp_entry fl e = Some e5" using e1(1) e2(1) e3(1) e4(1) e5(1) False unfolding stamp_entry_def dt by simp
    moreover have "rd32 e5 28 = Some (fl_size fl)" using rd32_wr16_other [OF e5(1)] rd32_wr16_other [OF e4(1)] rd32_wr32 [OF e3(1)] by simp
    ultimately show ?thesis using e5(2) by blast
  qed
qed

lemma poke_after_flag:
  assumes "g (drop i (f_buf (fs_fats s p))) = Some e"
  shows "fs_then (set_flag p x) (poke_sector p i g) s = fs_then (set_buf p (take i (f_buf (fs_fats s p)) @ e)) (set_flag p x) s"
proof -
  let ?f = "fs_fats s p"
  have "?f\<lparr>f_flags := f_flags ?f OR x, f_buf := take i (f_buf ?f) @ e\<rparr> = ?f\<lparr>f_buf := take i (f_buf ?f) @ e, f_flags := f_flags ?f OR x\<rparr>"
    by (cases ?f) simp
  then have "s\<lparr>fs_fats := (fs_fats s)(p := ?f\<lparr>f_flags := f_flags ?f OR x, f_buf := take i (f_buf ?f) @ e\<rparr>)\<rparr> =
      s\<lparr>fs_fats := (fs_fats s)(p := ?f\<lparr>f_buf := take i (f_buf ?f) @ e, f_flags := f_flags ?f OR x\<rparr>)\<rparr>"
    by (rule arg_cong)
  with assms show ?thesis by (simp add: set_flag_def set_buf_def poke_sector_def fat_run upd_fat_def)
qed

lemma save_entry_ok:
  assumes "vol_ok content p s" "unat i + 32 \<le> 512" "n \<noteq> 0"
  shows "\<exists>t. fs_then (update_buf p n) (fs_then (set_flag p FAT_BUF_DIRTY) (poke_sector p (unat i) (stamp_entry fl))) s = Some (Inr (), t) \<and>
    vol_ok content p t \<and> buf_frame p s t \<and> (\<forall>m. m \<noteq> 0 \<longrightarrow> m \<noteq> n \<longrightarrow> view content p t m = view content p s m) \<and>
    (fl_flags fl AND FAT_MODIFIED \<noteq> 0 \<longrightarrow> rd32 (view content p t n) (unat i + 28) = Some (fl_size fl))"
proof -
  obtain u where u: "update_buf p n s = Some (Inr (), u)" "vol_ok content p u" "buf_frame p s u" "f_sect (fs_fats u p) = n"
    "f_buf (fs_fats u p) = view content p s n" "\<forall>m. m \<noteq> 0 \<longrightarrow> view content p u m = view content p s m"
    using update_buf_spec [OF assms(1)] by blast
  let ?b = "f_buf (fs_fats u p)"
  have len: "length ?b = 512" using u(2) by (simp add: vol_ok_def)
  obtain e where e: "stamp_entry fl (drop (unat i) ?b) = Some e" "length e = 512 - unat i" "fl_flags fl AND FAT_MODIFIED \<noteq> 0 \<longrightarrow> rd32 e 28 = Some (fl_size fl)"
  proof -
    have "32 \<le> length (drop (unat i) ?b)" using len assms(2) by simp
    from stamp_entry_ok [OF this, of fl] show ?thesis using that len by auto
  qed
  let ?b' = "take (unat i) ?b @ e"
  have len': "length ?b' = 512" using e(2) len assms(2) by simp
  obtain t where t: "fs_then (set_buf p ?b') (set_flag p FAT_BUF_DIRTY) u = Some (Inr (), t)" "vol_ok content p t" "buf_frame p u t"
    "view content p t = (view content p u)(n := ?b')"
    using modify_buf_spec [OF u(2) len'] u(4) by auto
  have "fs_then (set_flag p FAT_BUF_DIRTY) (poke_sector p (unat i) (stamp_entry fl)) u = Some (Inr (), t)"
    using poke_after_flag [where g = "stamp_entry fl" and i = "unat i" and p = p and s = u, OF e(1)] t(1) by simp
  then have "fs_then (update_buf p n) (fs_then (set_flag p FAT_BUF_DIRTY) (poke_sector p (unat i) (stamp_entry fl))) s = Some (Inr (), t)"
    using u(1) by (simp add: fs_then_run(1))
  moreover have "rd32 ?b' (unat i + 28) = rd32 e 28" using len assms(2) by (simp add: rd32_def nth_append)
  ultimately show ?thesis using t(2,4) u(6) e(3) frame_trans [OF u(3) t(3)] by (intro exI [of _ t]) simp
qed

subsection \<open>fat_file_sync\<close>

text \<open>The directory entry of a file lies inside a sector that belongs neither to the file nor to the bookkeeping of the volume.\<close>

definition entry_apart :: "'d Fat \<Rightarrow> 32 word list \<Rightarrow> File \<Rightarrow> bool" where
  "entry_apart fat cs fl \<longleftrightarrow> fl_dir_sect fl \<noteq> 0 \<and> fl_dir_sect fl \<noteq> f_info_sect fat \<and> fl_dir_sect fl \<notin> file_sects fat cs \<and>
     unat (fl_dir_idx fl) + 32 \<le> 512 \<and> f_info_sect fat \<notin> file_sects fat cs"

lemma sync_entry_ok:
  assumes "vol_ok content p s" "layout_ok (fs_fats s p)" "n \<noteq> 0" "n \<noteq> f_info_sect (fs_fats s p)" "unat i + 32 \<le> 512"
  shows "\<exists>t. fs_then (fs_when (fl_flags fl AND (FAT_ACCESSED OR FAT_MODIFIED) \<noteq> 0)
        (fs_then (update_buf p n) (fs_then (set_flag p FAT_BUF_DIRTY) (poke_sector p (unat i) (stamp_entry fl))))) (sync_fs p) s = Some (Inr (), t) \<and>
    vol_ok content p t \<and> frame_info p s t \<and> \<not> dirty p t \<and>
    (\<forall>m. m \<noteq> 0 \<longrightarrow> m \<noteq> n \<longrightarrow> m \<noteq> f_info_sect (fs_fats s p) \<longrightarrow> content (fs_disk t) m = view content p s m) \<and>
    (fl_flags fl AND FAT_MODIFIED \<noteq> 0 \<longrightarrow> rd32 (content (fs_disk t) n) (unat i + 28) = Some (fl_size fl))"
proof (cases "fl_flags fl AND (FAT_ACCESSED OR FAT_MODIFIED) = 0")
  case True
  have "fl_flags fl AND FAT_MODIFIED = (fl_flags fl AND (FAT_ACCESSED OR FAT_MODIFIED)) AND FAT_MODIFIED" by (simp add: and.assoc)
  then have "fl_flags fl AND FAT_MODIFIED = 0" using True by simp
  moreover obtain t where t: "sync_fs p s = Some (Inr (), t)" "vol_ok content p t" "frame_info p s t" "\<not> dirty p t"
      "\<forall>m. m \<noteq> 0 \<longrightarrow> m \<noteq> f_info_sect (fs_fats s p) \<longrightarrow> view content p t m = view content p s m"
    using sync_fs_ok [OF assms(1,2)] by blast
  ultimately show ?thesis using True clean_view [OF t(2,4)] by (intro exI [of _ t]) (simp add: fs_when_def fs_then_run(1) fat_run)
next
  case False
  obtain u where u: "fs_then (update_buf p n) (fs_then (set_flag p FAT_BUF_DIRTY) (poke_sector p (unat i) (stamp_entry fl))) s = Some (Inr (), u)"
      "vol_ok content p u" "buf_frame p s u" "\<forall>m. m \<noteq> 0 \<longrightarrow> m \<noteq> n \<longrightarrow> view content p u m = view content p s m"
      "fl_flags fl AND FAT_MODIFIED \<noteq> 0 \<longrightarrow> rd32 (view content p u n) (unat i + 28) = Some (fl_size fl)"
    using save_entry_ok [OF assms(1,5,3), of fl] by blast
  note I = frame_info_same [OF frame_into_info [OF u(3)]]
  obtain t where t: "sync_fs p u = Some (Inr (), t)" "vol_ok content p t" "frame_info p u t" "\<not> dirty p t"
      "\<forall>m. m \<noteq> 0 \<longrightarrow> m \<noteq> f_info_sect (fs_fats u p) \<longrightarrow> view content p t m = view content p u m"
    using sync_fs_ok [OF u(2)] assms(2) I(13) by blast
  have "frame_info p s t" using frame_info_trans [OF frame_into_info [OF u(3)] t(3)] .
  then show ?thesis using False u t(1,2,4,5) clean_view [OF t(2,4)] assms(3,4) I(4)
    by (intro exI [of _ t]) (simp add: fs_when_def fs_then_run(1))
qed

lemma fs_then_assoc: "fs_then f (fs_then g h) = fs_then (fs_then f g) h"
  by (rule ext) (auto simp: fs_then_def fs_bind_def split: option.splits sum.splits)

lemma file_sync_ok:
  assumes "file_ok content p a cs s" "entry_apart (fs_fats s p) cs (fs_files s a)"
  shows "\<exists>t. fat_file_sync a s = Some (Inr (), t) \<and> \<not> dirty p t \<and>
    concat (map (content (fs_disk t) \<circ> sect_no (fs_fats s p) cs) [0..<sect_count (fs_fats s p) cs]) = file_view content p a cs s \<and>
    (fl_flags (fs_files s a) AND FAT_MODIFIED \<noteq> 0 \<longrightarrow>
      rd32 (content (fs_disk t) (fl_dir_sect (fs_files s a))) (unat (fl_dir_idx (fs_files s a)) + 28) = Some (fl_size (fs_files s a))) \<and>
    (\<forall>m. m \<noteq> 0 \<longrightarrow> m \<noteq> fl_dir_sect (fs_files s a) \<longrightarrow> m \<noteq> f_info_sect (fs_fats s p) \<longrightarrow> m \<notin> file_sects (fs_fats s p) cs \<longrightarrow>
      content (fs_disk t) m = view content p s m) \<and>
    fs_files t = (fs_files s)(a := (fs_files s a)\<lparr>fl_flags := fl_flags (fs_files s a) AND NOT (FAT_ACCESSED OR FAT_MODIFIED)\<rparr>)"
proof -
  let ?f = "fs_files s a" and ?S = "sect_no (fs_fats s p) cs" and ?n = "sect_count (fs_fats s p) cs" and ?d = "fl_dir_sect (fs_files s a)"
  let ?i = "unat (fl_offset ?f) div 512"
  have ok: "data_ok content p cs s" and len: "length (fl_buf ?f) = 512" and pl: "placed (fs_fats s p) p cs ?f" using assms(1) by (simp_all add: file_ok_def)
  have i: "?i < ?n" "fl_sect ?f = ?S ?i" "fl_fat ?f = Some p" using pl by (simp_all add: placed_def Let_def)
  have "?S ?i \<in> file_sects (fs_fats s p) cs" using i(1) by (simp add: file_sects_def)
  then obtain d where d: "disk_write (f_ops (fs_fats s p)) (fl_buf ?f) (?S ?i) s = Some (Inr True, s\<lparr>fs_disk := d\<rparr>)"
      "content d = (content (fs_disk s))(?S ?i := fl_buf ?f)" "steady content p a cs s (s\<lparr>fs_disk := d\<rparr>)"
    using flush_ok [OF ok len] by blast
  let ?u = "s\<lparr>fs_disk := d\<rparr>"
  have u: "data_ok content p cs ?u" "vol_ok content p ?u" "layout_ok (fs_fats ?u p)" using steady_frame(2) [OF d(3)] by (simp_all add: data_ok_def)
  have e: "?d \<noteq> 0" "?d \<noteq> f_info_sect (fs_fats ?u p)" "unat (fl_dir_idx ?f) + 32 \<le> 512"
    and away: "?d \<notin> file_sects (fs_fats s p) cs" "f_info_sect (fs_fats s p) \<notin> file_sects (fs_fats s p) cs"
    using assms(2) by (simp_all add: entry_apart_def)
  obtain t where t: "fs_then (fs_when (fl_flags ?f AND (FAT_ACCESSED OR FAT_MODIFIED) \<noteq> 0)
        (fs_then (update_buf p ?d) (fs_then (set_flag p FAT_BUF_DIRTY) (poke_sector p (unat (fl_dir_idx ?f)) (stamp_entry ?f))))) (sync_fs p) ?u = Some (Inr (), t)"
      "frame_info p ?u t" "\<not> dirty p t"
      "\<forall>m. m \<noteq> 0 \<longrightarrow> m \<noteq> ?d \<longrightarrow> m \<noteq> f_info_sect (fs_fats ?u p) \<longrightarrow> content (fs_disk t) m = view content p ?u m"
      "fl_flags ?f AND FAT_MODIFIED \<noteq> 0 \<longrightarrow> rd32 (content (fs_disk t) ?d) (unat (fl_dir_idx ?f) + 28) = Some (fl_size ?f)"
    using sync_entry_ok [OF u(2,3) e, of ?f] by blast
  let ?t = "upd_file a (\<lambda>f. f\<lparr>fl_flags := fl_flags f AND NOT (FAT_ACCESSED OR FAT_MODIFIED)\<rparr>) t"
  have run: "fat_file_sync a s = Some (Inr (), ?t)"
    using i(2,3) d(1) t(1) by (simp add: fat_file_sync_def fs_then_assoc [of _ "sync_fs p"] fat_run)
  have files: "fs_files ?t = (fs_files s)(a := ?f\<lparr>fl_flags := fl_flags ?f AND NOT (FAT_ACCESSED OR FAT_MODIFIED)\<rparr>)"
    using frame_info_same(11) [OF t(2)] by simp
  have sec: "content (fs_disk t) (?S j) = sector_view content p a cs s j" if "j < ?n" for j
  proof -
    have m: "?S j \<in> file_sects (fs_fats s p) cs" using that by (simp add: file_sects_def)
    have "?S j = ?S ?i \<longleftrightarrow> j = ?i" using ok that i(1) by (auto simp: data_ok_def inj_on_eq_iff)
    then show ?thesis using sector_apart [OF u(1), of j] that t(4) m away d(2) by (auto simp: sector_view_def)
  qed
  then have "concat (map (content (fs_disk t) \<circ> ?S) [0..<?n]) = file_view content p a cs s" unfolding file_view_def
    by (intro arg_cong [where f = concat] map_cong) auto
  moreover have "content (fs_disk t) m = view content p s m"
      if "m \<noteq> 0" "m \<noteq> ?d" "m \<noteq> f_info_sect (fs_fats s p)" "m \<notin> file_sects (fs_fats s p) cs" for m
    using t(4) that d(3) by (simp add: steady_def)
  ultimately show ?thesis using run files t(3,5) by (intro exI [of _ ?t]) (simp add: dirty_def)
qed

text \<open>
  C14. Saving a file. For an open file, whose buffered sector may not have been written yet, fat_file_sync returns no error; afterwards the sectors of
  the file on the disk are the contents of the file, the buffer of the volume is on the disk too, the directory entry holds the size of the file if
  the file was modified, no other sector than these, the directory entry and the information sector has changed, and the
  file is marked as neither accessed nor modified.
\<close>

theorem file_sync_saves:
  assumes "file_ok content p a cs s" "entry_apart (fs_fats s p) cs (fs_files s a)"
  shows "\<exists>t. fat_file_sync a s = Some (Inr (), t) \<and> \<not> dirty p t \<and>
    concat (map (content (fs_disk t) \<circ> sect_no (fs_fats s p) cs) [0..<sect_count (fs_fats s p) cs]) = file_view content p a cs s \<and>
    (fl_flags (fs_files s a) AND FAT_MODIFIED \<noteq> 0 \<longrightarrow>
      rd32 (content (fs_disk t) (fl_dir_sect (fs_files s a))) (unat (fl_dir_idx (fs_files s a)) + 28) = Some (fl_size (fs_files s a))) \<and>
    (\<forall>m. m \<noteq> 0 \<longrightarrow> m \<noteq> fl_dir_sect (fs_files s a) \<longrightarrow> m \<noteq> f_info_sect (fs_fats s p) \<longrightarrow> m \<notin> file_sects (fs_fats s p) cs \<longrightarrow>
      content (fs_disk t) m = view content p s m) \<and>
    fs_files t = (fs_files s)(a := (fs_files s a)\<lparr>fl_flags := fl_flags (fs_files s a) AND NOT (FAT_ACCESSED OR FAT_MODIFIED)\<rparr>)"
  using file_sync_ok [OF assms] .

text \<open>The example: the file of the small volume with new data in its buffer.\<close>

definition edited_volume :: "ram_disk fat_state" where
  "edited_volume = upd_file 0 (\<lambda>f. f\<lparr>fl_flags := 0xC3, fl_buf := replicate 512 9\<rparr>) demo_volume"

theorem file_sync_witness:
  "\<exists>t. fat_file_sync 0 edited_volume = Some (Inr (), t) \<and>
    concat (map (ram_content (fs_disk t) \<circ> sect_no (fs_fats edited_volume 0) [2, 3]) [0..<2]) = replicate 512 9 @ replicate 512 5 \<and>
    rd32 (ram_content (fs_disk t) 6) 28 = Some 600"
proof -
  note V = volume_file [where content = ram_content and d = demo_sectors, OF ram_reliable demo_content, folded demo_volume_def]
  have F: "fs_files edited_volume 0 = demo_file\<lparr>fl_flags := 0xC3, fl_buf := replicate 512 9\<rparr>" "fs_fats edited_volume = fs_fats demo_volume"
      "fs_disk edited_volume = demo_sectors"
    using V(4) [of 0] by (simp_all add: edited_volume_def upd_file_def) (simp add: demo_volume_def volume_on_def)
  have S: "sect_no (fs_fats demo_volume 0) [2, 3] 0 = 4" "sect_no (fs_fats demo_volume 0) [2, 3] 1 = 5" "f_info_sect (fs_fats demo_volume 0) = 1"
    by (simp_all add: sect_no_def demo_volume_def volume_on_def demo_fat_def clust_to_sect_def)
  have "data_ok ram_content 0 [2, 3] edited_volume" using V(1) [of 0] by (simp add: file_ok_def edited_volume_def upd_file_def data_ok_files)
  moreover have "placed (fs_fats demo_volume 0) 0 [2, 3] (fs_files edited_volume 0)" using V(1) [of 0] V(4) [of 0] by (simp add: F(1) file_ok_def placed_def)
  ultimately have ok: "file_ok ram_content 0 0 [2, 3] edited_volume" by (simp add: file_ok_def F)
  have n: "{..<2} = {0, 1 :: nat}" by auto
  then have fs: "file_sects (fs_fats edited_volume 0) [2, 3] = {4, 5}" using S V(2) by (simp add: file_sects_def F)
  have ap: "entry_apart (fs_fats edited_volume 0) [2, 3] (fs_files edited_volume 0)"
    unfolding entry_apart_def fs by (simp add: F S demo_file_def)
  have "sector_view ram_content 0 0 [2, 3] edited_volume 0 = replicate 512 9" "sector_view ram_content 0 0 [2, 3] edited_volume 1 = replicate 512 5"
    using S by (simp_all add: sector_view_def F demo_file_def demo_content demo_sectors_def)
  then have fv: "file_view ram_content 0 0 [2, 3] edited_volume = replicate 512 9 @ replicate 512 5"
    using V(2) by (simp add: file_view_def F upt_rec [of _ 2])
  have sc: "sect_count (fs_fats edited_volume 0) [2, 3] = 2" using V(2) by (simp add: F)
  have fl: "fl_flags (fs_files edited_volume 0) AND FAT_MODIFIED \<noteq> 0" "fl_dir_sect (fs_files edited_volume 0) = 6" "unat (fl_dir_idx (fs_files edited_volume 0)) + 28 = 28"
      "fl_size (fs_files edited_volume 0) = 600"
    by (simp_all add: F demo_file_def)
  show ?thesis using file_sync_saves [OF ok ap] fl(1) unfolding fv sc fl(2,3,4) by blast
qed

end
