(* ===== verification/Sd_Driver.thy ===== *)
theory Sd_Driver
  imports Kernel_Prelude
begin

section \<open>The SD card driver\<close>

text \<open>
  \<^verbatim>\<open>drivers/sd/sd.c\<close>. The registers of the EMMC controller, the GPIO pins and the system timer, and the console, are a record of
  operations on a hardware state \<open>'h\<close>: a read may change the state. The globals of the driver are the fields of
  \<open>sd_state\<close>. \<open>None\<close> is a loop that does not end. Every access to a register is made in the order of the source.
\<close>

datatype mmio = SYS_TIMER_CLOCK | GPFSEL4 | GPFSEL5 | GPHEN1 | GPPUD | GPPUDCLK1
  | EMMC_BLKSIZECNT | EMMC_ARG1 | EMMC_CMDTM | EMMC_RESP0 | EMMC_RESP1 | EMMC_RESP2 | EMMC_RESP3 | EMMC_DATA | EMMC_STATUS
  | EMMC_CONTROL0 | EMMC_CONTROL1 | EMMC_INTERRUPT | EMMC_INT_MASK | EMMC_INT_EN | EMMC_SLOTISR_VER

record 'h mmio_bus =
  bus_read :: "mmio \<Rightarrow> 'h \<Rightarrow> 32 word \<times> 'h"
  bus_write :: "mmio \<Rightarrow> 32 word \<Rightarrow> 'h \<Rightarrow> 'h"
  bus_puts :: "string \<Rightarrow> 'h \<Rightarrow> 'h"

record 'h sd_state =
  sd_scr0 :: "64 word"
  sd_scr1 :: "64 word"
  sd_rca :: "64 word"
  sd_err :: "64 word"
  sd_hv :: "64 word"
  sd_hw :: 'h

definition rd :: "'h mmio_bus \<Rightarrow> mmio \<Rightarrow> 'h sd_state \<Rightarrow> 32 word \<times> 'h sd_state" where
  "rd B r s = (case bus_read B r (sd_hw s) of (v, h) \<Rightarrow> (v, s\<lparr>sd_hw := h\<rparr>))"

definition wr :: "'h mmio_bus \<Rightarrow> mmio \<Rightarrow> 32 word \<Rightarrow> 'h sd_state \<Rightarrow> 'h sd_state" where
  "wr B r v s = s\<lparr>sd_hw := bus_write B r v (sd_hw s)\<rparr>"

definition say :: "'h mmio_bus \<Rightarrow> string \<Rightarrow> 'h sd_state \<Rightarrow> 'h sd_state" where
  "say B msg s = s\<lparr>sd_hw := bus_puts B (msg @ [CHR 0x0A]) (sd_hw s)\<rparr>"

text \<open>\<^verbatim>\<open>*reg op= v\<close>: a read followed by a write.\<close>

definition change :: "'h mmio_bus \<Rightarrow> mmio \<Rightarrow> (32 word \<Rightarrow> 32 word) \<Rightarrow> 'h sd_state \<Rightarrow> 'h sd_state" where
  "change B r f s = (case rd B r s of (v, s1) \<Rightarrow> wr B r (f v) s1)"

text \<open>The delay of \<^verbatim>\<open>libs/utils_asm.S\<close> counts down and changes nothing.\<close>

definition delay :: "nat \<Rightarrow> 's \<Rightarrow> 's" where
  "delay cycles s = s"

abbreviation (input) SD_OK :: int where "SD_OK \<equiv> 0"
abbreviation (input) SD_TIMEOUT :: int where "SD_TIMEOUT \<equiv> -1"
abbreviation (input) SD_ERROR :: int where "SD_ERROR \<equiv> -2"

abbreviation (input) CMD_NEED_APP :: "32 word" where "CMD_NEED_APP \<equiv> 0x80000000"
abbreviation (input) CMD_RSPNS_48 :: "32 word" where "CMD_RSPNS_48 \<equiv> 0x00020000"
abbreviation (input) CMD_ERRORS_MASK :: "32 word" where "CMD_ERRORS_MASK \<equiv> 0xFFF9C004"
abbreviation (input) CMD_RCA_MASK :: "32 word" where "CMD_RCA_MASK \<equiv> 0xFFFF0000"
abbreviation (input) CMD_GO_IDLE :: "32 word" where "CMD_GO_IDLE \<equiv> 0"
abbreviation (input) CMD_ALL_SEND_CID :: "32 word" where "CMD_ALL_SEND_CID \<equiv> 0x02010000"
abbreviation (input) CMD_SEND_REL_ADDR :: "32 word" where "CMD_SEND_REL_ADDR \<equiv> 0x03020000"
abbreviation (input) CMD_CARD_SELECT :: "32 word" where "CMD_CARD_SELECT \<equiv> 0x07030000"
abbreviation (input) CMD_SEND_IF_COND :: "32 word" where "CMD_SEND_IF_COND \<equiv> 0x08020000"
abbreviation (input) CMD_STOP_TRANS :: "32 word" where "CMD_STOP_TRANS \<equiv> 0x0C030000"
abbreviation (input) CMD_READ_SINGLE :: "32 word" where "CMD_READ_SINGLE \<equiv> 0x11220010"
abbreviation (input) CMD_READ_MULTI :: "32 word" where "CMD_READ_MULTI \<equiv> 0x12220032"
abbreviation (input) CMD_SET_BLOCKCNT :: "32 word" where "CMD_SET_BLOCKCNT \<equiv> 0x17020000"
abbreviation (input) CMD_WRITE_SINGLE :: "32 word" where "CMD_WRITE_SINGLE \<equiv> 0x18220000"
abbreviation (input) CMD_WRITE_MULTI :: "32 word" where "CMD_WRITE_MULTI \<equiv> 0x19220022"
abbreviation (input) CMD_APP_CMD :: "32 word" where "CMD_APP_CMD \<equiv> 0x37000000"
abbreviation (input) CMD_SET_BUS_WIDTH :: "32 word" where "CMD_SET_BUS_WIDTH \<equiv> 0x86020000"
abbreviation (input) CMD_SEND_OP_COND :: "32 word" where "CMD_SEND_OP_COND \<equiv> 0xA9020000"
abbreviation (input) CMD_SEND_SCR :: "32 word" where "CMD_SEND_SCR \<equiv> 0xB3220010"
abbreviation (input) SR_READ_AVAILABLE :: "32 word" where "SR_READ_AVAILABLE \<equiv> 0x800"
abbreviation (input) SR_WRITE_AVAILABLE :: "32 word" where "SR_WRITE_AVAILABLE \<equiv> 0x400"
abbreviation (input) SR_DAT_INHIBIT :: "32 word" where "SR_DAT_INHIBIT \<equiv> 2"
abbreviation (input) SR_CMD_INHIBIT :: "32 word" where "SR_CMD_INHIBIT \<equiv> 1"
abbreviation (input) SR_APP_CMD :: "32 word" where "SR_APP_CMD \<equiv> 0x20"
abbreviation (input) INT_DATA_TIMEOUT :: "32 word" where "INT_DATA_TIMEOUT \<equiv> 0x00100000"
abbreviation (input) INT_CMD_TIMEOUT :: "32 word" where "INT_CMD_TIMEOUT \<equiv> 0x00010000"
abbreviation (input) INT_READ_RDY :: "32 word" where "INT_READ_RDY \<equiv> 0x20"
abbreviation (input) INT_WRITE_RDY :: "32 word" where "INT_WRITE_RDY \<equiv> 0x10"
abbreviation (input) INT_DATA_DONE :: "32 word" where "INT_DATA_DONE \<equiv> 2"
abbreviation (input) INT_CMD_DONE :: "32 word" where "INT_CMD_DONE \<equiv> 1"
abbreviation (input) INT_ERROR_MASK :: "32 word" where "INT_ERROR_MASK \<equiv> 0x017E8000"
abbreviation (input) SCR_SD_BUS_WIDTH_4 :: "64 word" where "SCR_SD_BUS_WIDTH_4 \<equiv> 0x400"
abbreviation (input) SCR_SUPP_SET_BLKCNT :: "64 word" where "SCR_SUPP_SET_BLKCNT \<equiv> 0x02000000"
abbreviation (input) SCR_SUPP_CCS :: "64 word" where "SCR_SUPP_CCS \<equiv> 1"

subsection \<open>Waiting\<close>

partial_function (option) wait_until :: "'h mmio_bus \<Rightarrow> 32 word \<Rightarrow> 'h sd_state \<Rightarrow> 'h sd_state option" where
  "wait_until B target s = (case rd B SYS_TIMER_CLOCK s of (c, s1) \<Rightarrow>
     if sint (c - target) < 0 then wait_until B target s1 else Some s1)"

definition wait_msec :: "'h mmio_bus \<Rightarrow> 32 word \<Rightarrow> 'h sd_state \<Rightarrow> 'h sd_state option" where
  "wait_msec B n s = (case rd B SYS_TIMER_CLOCK s of (system_clock, s1) \<Rightarrow> wait_until B (system_clock + n * 1000) s1)"

text \<open>
  A polling loop \<^verbatim>\<open>while (busy && cnt--) wait_msec(ms);\<close>, where \<open>busy\<close> reads registers. The result is the final \<^verbatim>\<open>cnt\<close>, which is
  -1 when the loop gave up.
\<close>

primrec poll :: "'h mmio_bus \<Rightarrow> 32 word \<Rightarrow> ('h sd_state \<Rightarrow> bool \<times> 'h sd_state) \<Rightarrow> nat \<Rightarrow> 'h sd_state \<Rightarrow> (int \<times> 'h sd_state) option" where
  "poll B ms busy 0 s = (case busy s of (b, s1) \<Rightarrow> Some (if b then -1 else 0, s1))"
| "poll B ms busy (Suc cnt) s = (case busy s of (b, s1) \<Rightarrow>
     if b then do {
       s2 \<leftarrow> wait_msec B ms s1;
       poll B ms busy cnt s2
     } else Some (int (Suc cnt), s1))"

definition status_busy :: "'h mmio_bus \<Rightarrow> 32 word \<Rightarrow> 'h sd_state \<Rightarrow> bool \<times> 'h sd_state" where
  "status_busy B msk s = (case rd B EMMC_STATUS s of (st, s1) \<Rightarrow>
     if st AND msk \<noteq> 0 then (case rd B EMMC_INTERRUPT s1 of (i, s2) \<Rightarrow> (i AND INT_ERROR_MASK = 0, s2)) else (False, s1))"

definition sd_status :: "'h mmio_bus \<Rightarrow> 32 word \<Rightarrow> 'h sd_state \<Rightarrow> (int \<times> 'h sd_state) option" where
  "sd_status B msk s = do {
     (cnt, s1) \<leftarrow> poll B 1 (status_busy B msk) 500000 s;
     if cnt \<le> 0 then Some (SD_ERROR, s1)
     else case rd B EMMC_INTERRUPT s1 of (i, s2) \<Rightarrow> Some (if i AND INT_ERROR_MASK \<noteq> 0 then SD_ERROR else SD_OK, s2)
   }"

definition int_missing :: "'h mmio_bus \<Rightarrow> 32 word \<Rightarrow> 'h sd_state \<Rightarrow> bool \<times> 'h sd_state" where
  "int_missing B m s = (case rd B EMMC_INTERRUPT s of (i, s1) \<Rightarrow> (i AND m = 0, s1))"

definition sd_int :: "'h mmio_bus \<Rightarrow> 32 word \<Rightarrow> 'h sd_state \<Rightarrow> (int \<times> 'h sd_state) option" where
  "sd_int B msk s = do {
     (cnt, s1) \<leftarrow> poll B 1 (int_missing B (msk OR INT_ERROR_MASK)) 1000000 s;
     case rd B EMMC_INTERRUPT s1 of (r, s2) \<Rightarrow>
       if cnt \<le> 0 \<or> r AND INT_CMD_TIMEOUT \<noteq> 0 \<or> r AND INT_DATA_TIMEOUT \<noteq> 0 then Some (SD_TIMEOUT, wr B EMMC_INTERRUPT r s2)
       else if r AND INT_ERROR_MASK \<noteq> 0 then Some (SD_ERROR, wr B EMMC_INTERRUPT r s2)
       else Some (0, wr B EMMC_INTERRUPT msk s2)
   }"

subsection \<open>Commands\<close>

definition set_err :: "int \<Rightarrow> 'h sd_state \<Rightarrow> 'h sd_state" where
  "set_err e s = s\<lparr>sd_err := word_of_int e\<rparr>"

text \<open>The value of the call, from the response registers.\<close>

definition response :: "'h mmio_bus \<Rightarrow> 32 word \<Rightarrow> 32 word \<Rightarrow> 'h sd_state \<Rightarrow> 32 word \<times> 'h sd_state" where
  "response B code arg s = (case rd B EMMC_RESP0 s of (r, s1) \<Rightarrow>
     if code = CMD_GO_IDLE \<or> code = CMD_APP_CMD then (0, s1)
     else if code = CMD_APP_CMD OR CMD_RSPNS_48 then (r AND SR_APP_CMD, s1)
     else if code = CMD_SEND_OP_COND then (r, s1)
     else if code = CMD_SEND_IF_COND then (if r = arg then 0 else -2, s1)
     else if code = CMD_ALL_SEND_CID then
       (case rd B EMMC_RESP3 s1 of (r3, s2) \<Rightarrow> case rd B EMMC_RESP2 s2 of (r2, s3) \<Rightarrow> case rd B EMMC_RESP1 s3 of (r1, s4) \<Rightarrow>
         (r OR r3 OR r2 OR r1, s4))
     else if code = CMD_SEND_REL_ADDR then
       (r AND CMD_RCA_MASK, s1\<lparr>sd_err := ucast (((r AND 0x1FFF) OR push_bit 6 (r AND 0x2000) OR push_bit 8 (r AND 0x4000) OR
         push_bit 8 (r AND 0x8000)) AND CMD_ERRORS_MASK)\<rparr>)
     else (r AND CMD_ERRORS_MASK, s1))"

text \<open>\<^verbatim>\<open>sd_execute_command\<close> behind the test for an application command; it does not reset \<^verbatim>\<open>sd_err\<close>.\<close>

definition sd_send :: "'h mmio_bus \<Rightarrow> 32 word \<Rightarrow> 32 word \<Rightarrow> 'h sd_state \<Rightarrow> (32 word \<times> 'h sd_state) option" where
  "sd_send B code arg s = do {
     (busy, s1) \<leftarrow> sd_status B SR_CMD_INHIBIT s;
     if busy \<noteq> 0 then Some (0, set_err SD_TIMEOUT (say B ''ERROR: EMMC busy'' s1))
     else do {
       let s2 = wr B EMMC_CMDTM code (wr B EMMC_ARG1 arg (change B EMMC_INTERRUPT (\<lambda>i. i) s1));
       s3 \<leftarrow> (if code = CMD_SEND_OP_COND then wait_msec B 1000 s2
         else if code = CMD_SEND_IF_COND \<or> code = CMD_APP_CMD then wait_msec B 100 s2 else Some s2);
       (r, s4) \<leftarrow> sd_int B INT_CMD_DONE s3;
       if r \<noteq> 0 then Some (0, set_err r (say B ''ERROR: failed to send EMMC command'' s4))
       else Some (response B code arg s4)
     }
   }"

text \<open>The call for \<^verbatim>\<open>CMD_APP_CMD\<close> inside the function is not an application command itself.\<close>

definition sd_execute_command :: "'h mmio_bus \<Rightarrow> 32 word \<Rightarrow> 32 word \<Rightarrow> 'h sd_state \<Rightarrow> (32 word \<times> 'h sd_state) option" where
  "sd_execute_command B code arg s = (let s1 = set_err SD_OK s in
     if code AND CMD_NEED_APP \<noteq> 0
     then do {
       (r, s2) \<leftarrow> sd_send B (CMD_APP_CMD OR (if sd_rca s1 \<noteq> 0 then CMD_RSPNS_48 else 0)) (ucast (sd_rca s1)) (set_err SD_OK s1);
       if sd_rca s2 \<noteq> 0 \<and> r = 0 then Some (0, set_err SD_ERROR (say B ''ERROR: failed to send SD APP command'' s2))
       else sd_send B (code AND NOT CMD_NEED_APP) arg s2
     }
     else sd_send B code arg s1)"

subsection \<open>Reading and writing blocks\<close>

definition word_bytes :: "32 word \<Rightarrow> 8 word list" where
  "word_bytes w = [ucast w, ucast (drop_bit 8 w), ucast (drop_bit 16 w), ucast (drop_bit 24 w)]"

fun bytes_words :: "8 word list \<Rightarrow> 32 word list" where
  "bytes_words (a # b # c # d # bs) =
     (ucast a OR push_bit 8 (ucast b) OR push_bit 16 (ucast c) OR push_bit 24 (ucast d)) # bytes_words bs"
| "bytes_words bs = []"

primrec read_words :: "'h mmio_bus \<Rightarrow> nat \<Rightarrow> 'h sd_state \<Rightarrow> 32 word list \<times> 'h sd_state" where
  "read_words B 0 s = ([], s)"
| "read_words B (Suc n) s = (case rd B EMMC_DATA s of (w, s1) \<Rightarrow> case read_words B n s1 of (ws, s2) \<Rightarrow> (w # ws, s2))"

primrec write_words :: "'h mmio_bus \<Rightarrow> 32 word list \<Rightarrow> 'h sd_state \<Rightarrow> 'h sd_state" where
  "write_words B [] s = s"
| "write_words B (w # ws) s = write_words B ws (wr B EMMC_DATA w s)"

definition ccs :: "'h sd_state \<Rightarrow> bool" where
  "ccs s \<longleftrightarrow> sd_scr0 s AND SCR_SUPP_CCS \<noteq> 0"

text \<open>\<open>start_transfer\<close>: the commands before the loop over the blocks. \<open>False\<close> is \<^verbatim>\<open>return 0\<close>.\<close>

definition start_transfer :: "'h mmio_bus \<Rightarrow> 32 word \<Rightarrow> 32 word \<Rightarrow> 32 word \<Rightarrow> 32 word \<Rightarrow> 'h sd_state \<Rightarrow> (bool \<times> 'h sd_state) option" where
  "start_transfer B single multi lba num s =
     (if ccs s
      then do {
        s1 \<leftarrow> (if 1 < num \<and> sd_scr0 s AND SCR_SUPP_SET_BLKCNT \<noteq> 0
          then map_option snd (sd_execute_command B CMD_SET_BLOCKCNT num s) else Some s);
        if 1 < num \<and> sd_scr0 s AND SCR_SUPP_SET_BLKCNT \<noteq> 0 \<and> sd_err s1 \<noteq> 0 then Some (False, s1)
        else do {
          (r, s2) \<leftarrow> sd_execute_command B (if num = 1 then single else multi) lba (wr B EMMC_BLKSIZECNT (push_bit 16 num OR 512) s1);
          Some (sd_err s2 = 0, s2)
        }
      }
      else Some (True, wr B EMMC_BLKSIZECNT (push_bit 16 1 OR 512) s))"

text \<open>One round before the data: a card without CCS gets a command for every block; then the driver waits until it is ready.\<close>

definition start_block :: "'h mmio_bus \<Rightarrow> 32 word \<Rightarrow> 32 word \<Rightarrow> 32 word \<Rightarrow> string \<Rightarrow> 'h sd_state \<Rightarrow> (bool \<times> 'h sd_state) option" where
  "start_block B single address rdy msg s = do {
     (ok, s1) \<leftarrow> (if \<not> ccs s
       then map_option (\<lambda>(r, s1). (sd_err s1 = 0, s1)) (sd_execute_command B single (address * 512) s) else Some (True, s));
     if \<not> ok then Some (False, s1)
     else do {
       (r, s2) \<leftarrow> sd_int B rdy s1;
       if r \<noteq> 0 then Some (False, set_err r (say B msg s2)) else Some (True, s2)
     }
   }"

primrec read_blocks :: "'h mmio_bus \<Rightarrow> 32 word \<Rightarrow> nat \<Rightarrow> 8 word list \<Rightarrow> 'h sd_state \<Rightarrow> (bool \<times> 8 word list \<times> 'h sd_state) option" where
  "read_blocks B address 0 acc s = Some (True, acc, s)"
| "read_blocks B address (Suc n) acc s = do {
     (ok, s1) \<leftarrow> start_block B CMD_READ_SINGLE address INT_READ_RDY (CHR 0x0D # ''ERROR: Timeout waiting for ready to read'') s;
     if \<not> ok then Some (False, acc, s1)
     else case read_words B 128 s1 of (ws, s2) \<Rightarrow> read_blocks B (address + 1) n (acc @ concat (map word_bytes ws)) s2
   }"

definition stop_transfer :: "'h mmio_bus \<Rightarrow> 32 word \<Rightarrow> 'h sd_state \<Rightarrow> 'h sd_state option" where
  "stop_transfer B num s =
     (if 1 < num \<and> sd_scr0 s AND SCR_SUPP_SET_BLKCNT = 0 \<and> ccs s
      then map_option snd (sd_execute_command B CMD_STOP_TRANS 0 s) else Some s)"

text \<open>The result with the bytes stored from the start of the buffer on.\<close>

definition sd_readblock :: "'h mmio_bus \<Rightarrow> 32 word \<Rightarrow> 32 word \<Rightarrow> 'h sd_state \<Rightarrow> (int \<times> 8 word list \<times> 'h sd_state) option" where
  "sd_readblock B lba num0 s = (let num = (if num0 < 1 then 1 else num0) in do {
     (busy, s1) \<leftarrow> sd_status B SR_DAT_INHIBIT s;
     if busy \<noteq> 0 then Some (0, [], set_err SD_TIMEOUT s1)
     else do {
       (started, s2) \<leftarrow> start_transfer B CMD_READ_SINGLE CMD_READ_MULTI lba num s1;
       if \<not> started then Some (0, [], s2)
       else do {
         (ok, bytes, s3) \<leftarrow> read_blocks B lba (unat num) [] s2;
         if \<not> ok then Some (0, bytes, s3)
         else do {
           s4 \<leftarrow> stop_transfer B num s3;
           Some (if sd_err s4 \<noteq> 0 then 0 else sint (num * 512), bytes, s4)
         }
       }
     }
   })"

primrec write_blocks :: "'h mmio_bus \<Rightarrow> 32 word \<Rightarrow> nat \<Rightarrow> 8 word list \<Rightarrow> 'h sd_state \<Rightarrow> (bool \<times> 'h sd_state) option" where
  "write_blocks B address 0 bytes s = Some (True, s)"
| "write_blocks B address (Suc n) bytes s = do {
     (ok, s1) \<leftarrow> start_block B CMD_WRITE_SINGLE address INT_WRITE_RDY (CHR 0x0D # ''ERROR: Timeout waiting for ready to write'') s;
     if \<not> ok then Some (False, s1)
     else if length bytes < 512 then None
     else write_blocks B (address + 1) n (drop 512 bytes) (write_words B (bytes_words (take 512 bytes)) s1)
   }"

definition sd_writeblock :: "'h mmio_bus \<Rightarrow> 8 word list \<Rightarrow> 32 word \<Rightarrow> 32 word \<Rightarrow> 'h sd_state \<Rightarrow> (int \<times> 'h sd_state) option" where
  "sd_writeblock B bytes lba num0 s = (let num = (if num0 < 1 then 1 else num0) in do {
     (busy, s1) \<leftarrow> sd_status B (SR_DAT_INHIBIT OR SR_WRITE_AVAILABLE) s;
     if busy \<noteq> 0 then Some (0, set_err SD_TIMEOUT s1)
     else do {
       (started, s2) \<leftarrow> start_transfer B CMD_WRITE_SINGLE CMD_WRITE_MULTI lba num s1;
       if \<not> started then Some (0, s2)
       else do {
         (ok, s3) \<leftarrow> write_blocks B lba (unat num) bytes s2;
         if \<not> ok then Some (0, s3)
         else do {
           (r, s4) \<leftarrow> sd_int B INT_DATA_DONE s3;
           if r \<noteq> 0 then Some (0, set_err r (say B (CHR 0x0D # ''ERROR: Timeout waiting for data done'') s4))
           else do {
             s5 \<leftarrow> stop_transfer B num s4;
             Some (if sd_err s5 \<noteq> 0 then 0 else sint (num * 512), s5)
           }
         }
       }
     }
   })"

subsection \<open>Initialisation\<close>

abbreviation (input) C0_HCTL_DWITDH :: "32 word" where "C0_HCTL_DWITDH \<equiv> 2"
abbreviation (input) C1_SRST_HC :: "32 word" where "C1_SRST_HC \<equiv> 0x01000000"
abbreviation (input) C1_TOUNIT_MAX :: "32 word" where "C1_TOUNIT_MAX \<equiv> 0x000E0000"
abbreviation (input) C1_CLK_EN :: "32 word" where "C1_CLK_EN \<equiv> 4"
abbreviation (input) C1_CLK_STABLE :: "32 word" where "C1_CLK_STABLE \<equiv> 2"
abbreviation (input) C1_CLK_INTLEN :: "32 word" where "C1_CLK_INTLEN \<equiv> 1"
abbreviation (input) HOST_SPEC_NUM :: "32 word" where "HOST_SPEC_NUM \<equiv> 0x00FF0000"
abbreviation (input) HOST_SPEC_V2 :: "64 word" where "HOST_SPEC_V2 \<equiv> 1"
abbreviation (input) ACMD41_VOLTAGE :: "32 word" where "ACMD41_VOLTAGE \<equiv> 0x00FF8000"
abbreviation (input) ACMD41_CMD_COMPLETE :: "32 word" where "ACMD41_CMD_COMPLETE \<equiv> 0x80000000"
abbreviation (input) ACMD41_CMD_CCS :: "32 word" where "ACMD41_CMD_CCS \<equiv> 0x40000000"
abbreviation (input) ACMD41_ARG_HC :: "32 word" where "ACMD41_ARG_HC \<equiv> 0x51FF8000"

text \<open>
  The divider of \<^verbatim>\<open>sd_set_clock\<close>: \<open>clock_shift\<close> finds the position of the highest bit of \<open>c - 1\<close> by halving,
  and \<open>clock_divisor\<close> is the value written to the control register.
\<close>

definition halve :: "32 word \<Rightarrow> nat \<Rightarrow> 32 word \<times> 32 word \<Rightarrow> 32 word \<times> 32 word" where
  "halve msk k xs = (case xs of (x, s) \<Rightarrow> if x AND msk = 0 then (push_bit k x, s - of_nat k) else (x, s))"

definition clock_shift :: "32 word \<Rightarrow> 32 word" where
  "clock_shift c = (let x = c - 1 in
     if x = 0 then 0
     else let s = snd (halve 0x80000000 1 (halve 0xC0000000 2 (halve 0xF0000000 4 (halve 0xFF000000 8 (halve 0xFFFF0000 16 (x, 32))))));
       s1 = (if s > 0 then s - 1 else s) in
       if s1 > 7 then 7 else s1)"

definition clock_divisor :: "64 word \<Rightarrow> 32 word \<Rightarrow> 32 word" where
  "clock_divisor hv f = (let c = 41666666 div f;
     d0 = (if hv > HOST_SPEC_V2 then c else push_bit (unat (clock_shift c)) 1);
     d = (if d0 \<le> 2 then 2 else d0);
     h = (if hv > HOST_SPEC_V2 then drop_bit 2 (d AND 0x300) else 0) in
     push_bit 8 (d AND 0xFF) OR h)"

definition inhibited :: "'h mmio_bus \<Rightarrow> 'h sd_state \<Rightarrow> bool \<times> 'h sd_state" where
  "inhibited B s = (case rd B EMMC_STATUS s of (st, s1) \<Rightarrow> (st AND (SR_CMD_INHIBIT OR SR_DAT_INHIBIT) \<noteq> 0, s1))"

definition control_bit :: "'h mmio_bus \<Rightarrow> 32 word \<Rightarrow> bool \<Rightarrow> 'h sd_state \<Rightarrow> bool \<times> 'h sd_state" where
  "control_bit B msk b s = (case rd B EMMC_CONTROL1 s of (c, s1) \<Rightarrow> ((c AND msk \<noteq> 0) = b, s1))"

definition sd_set_clock :: "'h mmio_bus \<Rightarrow> 32 word \<Rightarrow> 'h sd_state \<Rightarrow> (int \<times> 'h sd_state) option" where
  "sd_set_clock B f s = do {
     (cnt, s1) \<leftarrow> poll B 1 (inhibited B) 100000 s;
     if cnt \<le> 0 then Some (SD_ERROR, say B ''ERROR: timeout waiting for inhibit flag'' s1)
     else do {
       s2 \<leftarrow> wait_msec B 10 (change B EMMC_CONTROL1 (\<lambda>v. v AND NOT C1_CLK_EN) s1);
       s3 \<leftarrow> wait_msec B 10 (change B EMMC_CONTROL1 (\<lambda>v. (v AND 0xFFFF003F) OR clock_divisor (sd_hv s2) f) s2);
       s4 \<leftarrow> wait_msec B 10 (change B EMMC_CONTROL1 (\<lambda>v. v OR C1_CLK_EN) s3);
       (cnt, s5) \<leftarrow> poll B 10 (control_bit B C1_CLK_STABLE False) 10000 s4;
       if cnt \<le> 0 then Some (SD_ERROR, say B ''ERROR: failed to get stable clock'' s5) else Some (SD_OK, s5)
     }
   }"

text \<open>The pull-up sequence of the pins: \<open>pins\<close> is the last access to \<^verbatim>\<open>GPPUDCLK1\<close> before the delay.\<close>

definition pull_up :: "'h mmio_bus \<Rightarrow> ('h sd_state \<Rightarrow> 'h sd_state) \<Rightarrow> 'h sd_state \<Rightarrow> 'h sd_state" where
  "pull_up B pins s = wr B GPPUDCLK1 0 (wr B GPPUD 0 (delay 150 (pins (delay 150 (wr B GPPUD 2 s)))))"

definition enable_card_detect :: "'h mmio_bus \<Rightarrow> 'h sd_state \<Rightarrow> 'h sd_state" where
  "enable_card_detect B s = change B GPHEN1 (\<lambda>r. r OR push_bit 15 1)
     (pull_up B (wr B GPPUDCLK1 (push_bit 15 1)) (change B GPFSEL4 (\<lambda>r. r AND NOT (push_bit 21 7)) s))"

definition enable_clock_and_command :: "'h mmio_bus \<Rightarrow> 'h sd_state \<Rightarrow> 'h sd_state" where
  "enable_clock_and_command B s =
     pull_up B (wr B GPPUDCLK1 (push_bit 16 1 OR push_bit 17 1)) (change B GPFSEL4 (\<lambda>r. r OR (push_bit 24 7 OR push_bit 27 7)) s)"

definition enable_data_pins :: "'h mmio_bus \<Rightarrow> 'h sd_state \<Rightarrow> 'h sd_state" where
  "enable_data_pins B s =
     pull_up B (change B GPPUDCLK1 (\<lambda>v. v OR (push_bit 18 1 OR push_bit 19 1 OR push_bit 20 1 OR push_bit 21 1)))
       (change B GPFSEL5 (\<lambda>r. r OR (7 OR push_bit 3 7 OR push_bit 6 7 OR push_bit 9 7)) s)"

definition reset_emmc :: "'h mmio_bus \<Rightarrow> 'h sd_state \<Rightarrow> (int \<times> 'h sd_state) option" where
  "reset_emmc B s = do {
     s1 \<leftarrow> wait_msec B 10 (change B EMMC_CONTROL1 (\<lambda>v. v OR C1_SRST_HC) (wr B EMMC_CONTROL0 0 s));
     poll B 10 (control_bit B C1_SRST_HC True) 10000 s1
   }"

definition err_int :: "'h sd_state \<Rightarrow> int" where
  "err_int s = sint (ucast (sd_err s) :: 32 word)"

text \<open>The loop of \<^verbatim>\<open>enable_card\<close>: \<open>Inl\<close> is the early return, \<open>Inr\<close> the final \<^verbatim>\<open>cnt\<close> and \<^verbatim>\<open>r\<close>.\<close>

primrec op_cond :: "'h mmio_bus \<Rightarrow> nat \<Rightarrow> 32 word \<Rightarrow> 'h sd_state \<Rightarrow> ((int + int \<times> 32 word) \<times> 'h sd_state) option" where
  "op_cond B 0 r s = Some (Inr (if r AND ACMD41_CMD_COMPLETE = 0 then -1 else 0, r), s)"
| "op_cond B (Suc cnt) r s = (if r AND ACMD41_CMD_COMPLETE \<noteq> 0 then Some (Inr (int (Suc cnt), r), s)
     else do {
       (r1, s1) \<leftarrow> sd_execute_command B CMD_SEND_OP_COND ACMD41_ARG_HC (delay 400 s);
       if err_int s1 \<noteq> SD_TIMEOUT \<and> err_int s1 \<noteq> SD_OK
       then Some (Inl (err_int s1), say B ''ERROR: EMMC ACMD41 returned error'' s1)
       else op_cond B cnt r1 s1
     })"

text \<open>The result with \<^verbatim>\<open>*ccs\<close>, which is 0 at first.\<close>

definition enable_card :: "'h mmio_bus \<Rightarrow> 'h sd_state \<Rightarrow> (int \<times> 64 word \<times> 'h sd_state) option" where
  "enable_card B s = do {
     (res, s1) \<leftarrow> op_cond B 6 0 s;
     case res of
       Inl e \<Rightarrow> Some (e, 0, s1)
     | Inr (cnt, r) \<Rightarrow>
         if r AND ACMD41_CMD_COMPLETE = 0 \<or> cnt = 0 then Some (SD_TIMEOUT, 0, s1)
         else if r AND ACMD41_VOLTAGE = 0 then Some (SD_ERROR, 0, s1)
         else Some (SD_OK, if r AND ACMD41_CMD_CCS \<noteq> 0 then SCR_SUPP_CCS else 0, s1)
   }"

text \<open>The SCR register of the card: two words. The loop tests \<^verbatim>\<open>cnt\<close>, but never changes it.\<close>

partial_function (option) read_scr :: "'h mmio_bus \<Rightarrow> nat \<Rightarrow> 'h sd_state \<Rightarrow> 'h sd_state option" where
  "read_scr B r s =
     (if r < 2
      then (case rd B EMMC_STATUS s of (st, s1) \<Rightarrow>
        if st AND SR_READ_AVAILABLE \<noteq> 0
        then (case rd B EMMC_DATA s1 of (w, s2) \<Rightarrow> read_scr B (r + 1) (if r = 0 then s2\<lparr>sd_scr0 := ucast w\<rparr> else s2\<lparr>sd_scr1 := ucast w\<rparr>))
        else Option.bind (wait_msec B 1 s1) (\<lambda>s2. read_scr B r s2))
      else Some s)"

text \<open>A command whose failure ends \<^verbatim>\<open>sd_init\<close> with \<^verbatim>\<open>sd_err\<close>.\<close>

definition command_or_fail :: "'h mmio_bus \<Rightarrow> 32 word \<Rightarrow> 32 word \<Rightarrow> ('h sd_state \<Rightarrow> (int \<times> 'h sd_state) option) \<Rightarrow> 'h sd_state \<Rightarrow> (int \<times> 'h sd_state) option" where
  "command_or_fail B code arg k s = do {
     (r, s1) \<leftarrow> sd_execute_command B code arg s;
     if sd_err s1 \<noteq> 0 then Some (err_int s1, s1) else k s1
   }"

definition init_bus_width :: "'h mmio_bus \<Rightarrow> 64 word \<Rightarrow> 'h sd_state \<Rightarrow> (int \<times> 'h sd_state) option" where
  "init_bus_width B cc s = (
     let done = (\<lambda>s. Some (SD_OK, s\<lparr>sd_scr0 := (sd_scr0 s AND NOT SCR_SUPP_CCS) OR cc\<rparr>)) in
     if sd_scr0 s AND SCR_SD_BUS_WIDTH_4 \<noteq> 0
     then command_or_fail B CMD_SET_BUS_WIDTH (ucast (sd_rca s OR 2)) (\<lambda>s1. done (change B EMMC_CONTROL0 (\<lambda>v. v OR C0_HCTL_DWITDH) s1)) s
     else done s)"

definition init_scr :: "'h mmio_bus \<Rightarrow> 64 word \<Rightarrow> 'h sd_state \<Rightarrow> (int \<times> 'h sd_state) option" where
  "init_scr B cc s = do {
     (busy, s1) \<leftarrow> sd_status B SR_DAT_INHIBIT s;
     if busy \<noteq> 0 then Some (SD_TIMEOUT, s1)
     else command_or_fail B CMD_SEND_SCR 0 (\<lambda>s2. do {
       (r, s3) \<leftarrow> sd_int B INT_READ_RDY s2;
       if r \<noteq> 0 then Some (SD_TIMEOUT, s3)
       else do {
         s4 \<leftarrow> read_scr B 0 s3;
         init_bus_width B cc s4
       }
     }) (wr B EMMC_BLKSIZECNT (push_bit 16 1 OR 8) s1)
   }"

definition init_address :: "'h mmio_bus \<Rightarrow> 64 word \<Rightarrow> 'h sd_state \<Rightarrow> (int \<times> 'h sd_state) option" where
  "init_address B cc s = do {
     (r, s1) \<leftarrow> sd_execute_command B CMD_ALL_SEND_CID 0 s;
     (rca, s2) \<leftarrow> sd_execute_command B CMD_SEND_REL_ADDR 0 s1;
     let s3 = s2\<lparr>sd_rca := scast rca\<rparr>;
     if sd_err s3 \<noteq> 0 then Some (err_int s3, s3)
     else do {
       (r, s4) \<leftarrow> sd_set_clock B 25000000 s3;
       if r \<noteq> 0 then Some (r, s4)
       else command_or_fail B CMD_CARD_SELECT (ucast (sd_rca s4)) (init_scr B cc) s4
     }
   }"

definition sd_init :: "'h mmio_bus \<Rightarrow> 'h sd_state \<Rightarrow> (int \<times> 'h sd_state) option" where
  "sd_init B s = do {
     let s1 = enable_data_pins B (enable_clock_and_command B (enable_card_detect B s));
     let s2 = (case rd B EMMC_SLOTISR_VER s1 of (v, s2) \<Rightarrow> s2\<lparr>sd_hv := ucast (drop_bit 16 (v AND HOST_SPEC_NUM))\<rparr>);
     (cnt, s3) \<leftarrow> reset_emmc B s2;
     if cnt \<le> 0 then Some (SD_ERROR, say B ''[ERROR] Failed to reset EMMC'' s3)
     else do {
       s4 \<leftarrow> wait_msec B 10 (change B EMMC_CONTROL1 (\<lambda>v. v OR (C1_CLK_INTLEN OR C1_TOUNIT_MAX)) s3);
       (r, s5) \<leftarrow> sd_set_clock B 400000 s4;
       if r \<noteq> 0 then Some (r, s5)
       else command_or_fail B CMD_GO_IDLE 0 (command_or_fail B CMD_SEND_IF_COND 0x1AA (\<lambda>s6. do {
         (enabled, cc, s7) \<leftarrow> enable_card B s6;
         if enabled \<noteq> SD_OK then Some (enabled, s7) else init_address B cc s7
       })) ((wr B EMMC_INT_MASK 0xFFFFFFFF (wr B EMMC_INT_EN 0xFFFFFFFF s5))\<lparr>sd_scr0 := 0, sd_scr1 := 0, sd_rca := 0, sd_err := 0\<rparr>)
     }
   }"

end
