(* ===== verification/Sd_Card.thy ===== *)
theory Sd_Card
  imports Sd_Driver Fat_State
begin

section \<open>Reading and writing blocks of a card\<close>

text \<open>
  What the driver relies on: the behaviour of the EMMC controller with a card in transfer state, as its documentation describes it. The
  state of the controller is abstracted to \<open>card\<close>; \<open>emmc_card\<close> says that the registers behave accordingly. On such a
  controller, \<^verbatim>\<open>sd_readblock\<close> and \<^verbatim>\<open>sd_writeblock\<close> transfer a block.
\<close>

datatype transfer = Idle | Sending "32 word list" | Receiving "32 word" "32 word list"

record card =
  c_blocks :: "32 word \<Rightarrow> 32 word list"
  c_ccs :: bool
  c_arg :: "32 word"
  c_blksizecnt :: "32 word"
  c_int :: "32 word"
  c_mode :: transfer

text \<open>A card with CCS is addressed by blocks, another one by bytes.\<close>

definition addressed :: "card \<Rightarrow> 32 word" where
  "addressed c = (if c_ccs c then c_arg c else c_arg c div 512)"

definition card_gives :: "32 word list \<Rightarrow> card \<Rightarrow> card" where
  "card_gives ws c = (if ws = [] then c\<lparr>c_mode := Idle, c_int := c_int c OR INT_DATA_DONE\<rparr> else c\<lparr>c_mode := Sending ws\<rparr>)"

definition card_takes :: "32 word \<Rightarrow> 32 word list \<Rightarrow> card \<Rightarrow> card" where
  "card_takes n ws c = (if length ws = 128
     then c\<lparr>c_mode := Idle, c_int := c_int c OR INT_DATA_DONE, c_blocks := (c_blocks c)(n := ws)\<rparr>
     else c\<lparr>c_mode := Receiving n ws\<rparr>)"

definition emmc_card :: "'h mmio_bus \<Rightarrow> ('h \<Rightarrow> card) \<Rightarrow> bool" where
  "emmc_card B cof \<longleftrightarrow>
     (\<forall>h. cof (snd (bus_read B EMMC_STATUS h)) = cof h \<and>
       (c_mode (cof h) = Idle \<longrightarrow> fst (bus_read B EMMC_STATUS h) AND (SR_CMD_INHIBIT OR SR_DAT_INHIBIT OR SR_WRITE_AVAILABLE) = 0)) \<and>
     (\<forall>h. bus_read B EMMC_INTERRUPT h = (c_int (cof h), snd (bus_read B EMMC_INTERRUPT h)) \<and> cof (snd (bus_read B EMMC_INTERRUPT h)) = cof h) \<and>
     (\<forall>h. cof (snd (bus_read B EMMC_RESP0 h)) = cof h) \<and>
     (\<forall>h w ws. c_mode (cof h) = Sending (w # ws) \<longrightarrow>
       fst (bus_read B EMMC_DATA h) = w \<and> cof (snd (bus_read B EMMC_DATA h)) = card_gives ws (cof h)) \<and>
     (\<forall>h x. cof (bus_write B EMMC_INTERRUPT x h) = (cof h)\<lparr>c_int := c_int (cof h) AND NOT x\<rparr>) \<and>
     (\<forall>h x. cof (bus_write B EMMC_ARG1 x h) = (cof h)\<lparr>c_arg := x\<rparr>) \<and>
     (\<forall>h x. cof (bus_write B EMMC_BLKSIZECNT x h) = (cof h)\<lparr>c_blksizecnt := x\<rparr>) \<and>
     (\<forall>h. c_mode (cof h) = Idle \<longrightarrow> c_blksizecnt (cof h) = 0x10200 \<longrightarrow>
       cof (bus_write B EMMC_CMDTM CMD_READ_SINGLE h) =
         (cof h)\<lparr>c_mode := Sending (c_blocks (cof h) (addressed (cof h))), c_int := c_int (cof h) OR (INT_CMD_DONE OR INT_READ_RDY)\<rparr> \<and>
       cof (bus_write B EMMC_CMDTM CMD_WRITE_SINGLE h) =
         (cof h)\<lparr>c_mode := Receiving (addressed (cof h)) [], c_int := c_int (cof h) OR (INT_CMD_DONE OR INT_WRITE_RDY)\<rparr>) \<and>
     (\<forall>h n w ws. c_mode (cof h) = Receiving n ws \<longrightarrow> cof (bus_write B EMMC_DATA w h) = card_takes n (ws @ [w]) (cof h))"

text \<open>The timeout of a command is not part of \<^verbatim>\<open>INT_ERROR_MASK\<close>.\<close>

abbreviation (input) INT_FAILURE :: "32 word" where "INT_FAILURE \<equiv> 0x017F8000"

text \<open>The state between two calls: nothing is being transferred, and no error is pending.\<close>

definition card_ready :: "('h \<Rightarrow> card) \<Rightarrow> 'h sd_state \<Rightarrow> bool" where
  "card_ready cof s \<longleftrightarrow> c_mode (cof (sd_hw s)) = Idle \<and> c_int (cof (sd_hw s)) AND INT_FAILURE = 0 \<and>
     c_ccs (cof (sd_hw s)) = ccs s \<and> (\<forall>n. length (c_blocks (cof (sd_hw s)) n) = 128)"

definition block_bytes :: "card \<Rightarrow> 32 word \<Rightarrow> 8 word list" where
  "block_bytes c n = concat (map word_bytes (c_blocks c n))"

subsection \<open>Words and bytes\<close>

lemma words_of_bytes: "bytes_words (concat (map word_bytes ws)) = ws"
  by (induction ws) (simp_all add: word_bytes_def word32_bytes)

lemma beyond: "\<not> bit (a :: 8 word) (8 + n)" "\<not> bit a (16 + n)" "\<not> bit a (24 + n)"
  using bit_imp_le_length [of a "8 + n"] bit_imp_le_length [of a "16 + n"] bit_imp_le_length [of a "24 + n"] by auto

lemma bytes_of_word: "word_bytes (ucast a OR push_bit 8 (ucast b) OR push_bit 16 (ucast c) OR push_bit 24 (ucast d)) = [a, b, c, d]"
  unfolding word_bytes_def by (auto intro!: bit_word_eqI simp: bit_simps beyond)

lemma bytes_of_words: "length bs = 4 * n \<Longrightarrow> concat (map word_bytes (bytes_words bs)) = bs \<and> length (bytes_words bs) = n"
proof (induction bs arbitrary: n rule: bytes_words.induct)
  case (1 a b c d bs)
  then obtain m where "n = Suc m" "length bs = 4 * m" by (cases n) auto
  then show ?case using 1 by (simp add: bytes_of_word)
qed (simp_all, presburger+)

lemma word_bytes_length: "length (concat (map word_bytes ws)) = 4 * length ws"
  by (induction ws) (simp_all add: word_bytes_def)

subsection \<open>Registers\<close>

text \<open>A state that differs in the hardware only, whose controller is described.\<close>

definition at :: "('h \<Rightarrow> card) \<Rightarrow> 'h sd_state \<Rightarrow> card \<Rightarrow> 'h sd_state \<Rightarrow> bool" where
  "at cof s c t \<longleftrightarrow> (\<exists>h. t = s\<lparr>sd_hw := h\<rparr> \<and> cof h = c)"

lemma at_self: "at cof s (cof (sd_hw s)) s"
  unfolding at_def by (intro exI [of _ "sd_hw s"]) simp

lemma at_trans: "at cof s c t \<Longrightarrow> at cof t c' u \<Longrightarrow> at cof s c' u"
  by (auto simp: at_def)

lemma at_fields:
  "at cof s c t \<Longrightarrow> cof (sd_hw t) = c" "at cof s c t \<Longrightarrow> ccs t = ccs s" "at cof s c t \<Longrightarrow> sd_err t = sd_err s" "at cof s c t \<Longrightarrow> sd_scr0 t = sd_scr0 s"
  by (auto simp: at_def ccs_def)

lemma rd_interrupt:
  assumes "emmc_card B cof"
  shows "\<exists>t. rd B EMMC_INTERRUPT s = (c_int (cof (sd_hw s)), t) \<and> at cof s (cof (sd_hw s)) t"
proof -
  have "bus_read B EMMC_INTERRUPT (sd_hw s) = (c_int (cof (sd_hw s)), snd (bus_read B EMMC_INTERRUPT (sd_hw s)))"
    "cof (snd (bus_read B EMMC_INTERRUPT (sd_hw s))) = cof (sd_hw s)" using assms by (auto simp: emmc_card_def)
  then show ?thesis by (cases "bus_read B EMMC_INTERRUPT (sd_hw s)") (auto simp: rd_def at_def)
qed

lemma rd_status:
  assumes "emmc_card B cof" "c_mode (cof (sd_hw s)) = Idle"
  shows "\<exists>v t. rd B EMMC_STATUS s = (v, t) \<and> v AND 0x403 = 0 \<and> at cof s (cof (sd_hw s)) t"
proof -
  have "fst (bus_read B EMMC_STATUS (sd_hw s)) AND 0x403 = 0" "cof (snd (bus_read B EMMC_STATUS (sd_hw s))) = cof (sd_hw s)"
    using assms by (auto simp: emmc_card_def)
  then show ?thesis by (cases "bus_read B EMMC_STATUS (sd_hw s)") (auto simp: rd_def at_def)
qed

lemma rd_resp0:
  assumes "emmc_card B cof"
  shows "\<exists>v t. rd B EMMC_RESP0 s = (v, t) \<and> at cof s (cof (sd_hw s)) t"
proof -
  have "cof (snd (bus_read B EMMC_RESP0 (sd_hw s))) = cof (sd_hw s)" using assms by (auto simp: emmc_card_def)
  then show ?thesis by (cases "bus_read B EMMC_RESP0 (sd_hw s)") (auto simp: rd_def at_def)
qed

lemma wr_regs:
  assumes "emmc_card B cof"
  shows "at cof s ((cof (sd_hw s))\<lparr>c_int := c_int (cof (sd_hw s)) AND NOT x\<rparr>) (wr B EMMC_INTERRUPT x s)"
    "at cof s ((cof (sd_hw s))\<lparr>c_arg := x\<rparr>) (wr B EMMC_ARG1 x s)"
    "at cof s ((cof (sd_hw s))\<lparr>c_blksizecnt := x\<rparr>) (wr B EMMC_BLKSIZECNT x s)"
  using assms by (auto simp: emmc_card_def wr_def at_def)

lemma wr_command:
  assumes "emmc_card B cof" "c_mode (cof (sd_hw s)) = Idle" "c_blksizecnt (cof (sd_hw s)) = 0x10200"
  shows "at cof s ((cof (sd_hw s))\<lparr>c_mode := Sending (c_blocks (cof (sd_hw s)) (addressed (cof (sd_hw s)))), c_int := c_int (cof (sd_hw s)) OR 0x21\<rparr>)
      (wr B EMMC_CMDTM CMD_READ_SINGLE s)"
    "at cof s ((cof (sd_hw s))\<lparr>c_mode := Receiving (addressed (cof (sd_hw s))) [], c_int := c_int (cof (sd_hw s)) OR 0x11\<rparr>)
      (wr B EMMC_CMDTM CMD_WRITE_SINGLE s)"
  using assms by (auto simp: emmc_card_def wr_def at_def)

subsection \<open>Waiting\<close>

lemma poll_once: "busy s = (False, t) \<Longrightarrow> poll B ms busy (Suc cnt) s = Some (int (Suc cnt), t)"
  by simp

lemma masked: "v AND m = 0 \<Longrightarrow> k AND NOT m = 0 \<Longrightarrow> v AND k = (0 :: 32 word)"
proof (rule bit_word_eqI)
  fix n assume a: "v AND m = 0" "k AND NOT m = 0" "n < LENGTH(32)"
  have "\<not> bit (v AND m) n" "\<not> bit (k AND NOT m) n" using a by simp_all
  then show "bit (v AND k) n = bit 0 n" using a(3) by (auto simp: bit_simps)
qed

lemma sd_status_ok:
  assumes "emmc_card B cof" "c_mode (cof (sd_hw s)) = Idle" "c_int (cof (sd_hw s)) AND INT_FAILURE = 0" "msk AND NOT 0x403 = 0"
  shows "\<exists>t. sd_status B msk s = Some (0, t) \<and> at cof s (cof (sd_hw s)) t"
proof -
  obtain v t where t: "rd B EMMC_STATUS s = (v, t)" "v AND 0x403 = 0" "at cof s (cof (sd_hw s)) t" using rd_status [OF assms(1,2)] by blast
  have "v AND msk = 0" using masked [OF t(2) assms(4)] .
  then have p: "poll B 1 (status_busy B msk) 500000 s = Some (500000, t)"
    using poll_once [of "status_busy B msk" s t B 1 499999] t(1) by (simp add: status_busy_def)
  obtain u where u: "rd B EMMC_INTERRUPT t = (c_int (cof (sd_hw t)), u)" "at cof t (cof (sd_hw t)) u" using rd_interrupt [OF assms(1)] by blast
  have "c_int (cof (sd_hw s)) AND INT_ERROR_MASK = 0" by (rule masked [OF assms(3)]) simp
  then have "sd_status B msk s = Some (0, u)" using p u(1) at_fields(1) [OF t(3)] by (simp add: sd_status_def)
  then show ?thesis using at_trans [OF t(3) u(2)] at_fields(1) [OF t(3)] by auto
qed

lemma sd_int_ok:
  assumes "emmc_card B cof" "c_int (cof (sd_hw s)) AND INT_FAILURE = 0" "c_int (cof (sd_hw s)) AND msk \<noteq> 0"
  shows "\<exists>t. sd_int B msk s = Some (0, t) \<and> at cof s ((cof (sd_hw s))\<lparr>c_int := c_int (cof (sd_hw s)) AND NOT msk\<rparr>) t"
proof -
  let ?i = "c_int (cof (sd_hw s))"
  have err: "?i AND INT_ERROR_MASK = 0" by (rule masked [OF assms(2)]) simp
  obtain t where t: "rd B EMMC_INTERRUPT s = (?i, t)" "at cof s (cof (sd_hw s)) t" using rd_interrupt [OF assms(1)] by blast
  have "?i AND (msk OR INT_ERROR_MASK) \<noteq> 0" using err assms(3) by (simp add: bit.conj_disj_distrib)
  then have p: "poll B 1 (int_missing B (msk OR INT_ERROR_MASK)) 1000000 s = Some (1000000, t)"
    using poll_once [of "int_missing B (msk OR INT_ERROR_MASK)" s t B 1 999999] t(1) by (simp add: int_missing_def)
  obtain u where u: "rd B EMMC_INTERRUPT t = (?i, u)" "at cof s (cof (sd_hw s)) u"
    using rd_interrupt [OF assms(1), of t] at_fields(1) [OF t(2)] at_trans [OF t(2)] by auto
  have sub: "?i AND INT_CMD_TIMEOUT = 0" "?i AND INT_DATA_TIMEOUT = 0" by (rule masked [OF assms(2)]; simp)+
  have "sd_int B msk s = Some (0, wr B EMMC_INTERRUPT msk u)" using p u(1) sub err by (simp add: sd_int_def)
  moreover have "at cof u ((cof (sd_hw u))\<lparr>c_int := c_int (cof (sd_hw u)) AND NOT msk\<rparr>) (wr B EMMC_INTERRUPT msk u)" by (rule wr_regs(1) [OF assms(1)])
  ultimately show ?thesis using at_trans [OF u(2)] at_fields(1) [OF u(2)] by auto
qed

subsection \<open>Transfers\<close>

text \<open>A command for one block: the flags before the command are cleared, the new ones are acknowledged.\<close>

lemma command_sent:
  assumes "emmc_card B cof" "c_mode (cof (sd_hw s)) = Idle" "c_int (cof (sd_hw s)) AND INT_FAILURE = 0" "c_blksizecnt (cof (sd_hw s)) = 0x10200"
    and "code = CMD_READ_SINGLE \<and> mode = Sending (c_blocks (cof (sd_hw s)) (addressed ((cof (sd_hw s))\<lparr>c_arg := arg\<rparr>))) \<and> rdy = 0x20 \<or>
      code = CMD_WRITE_SINGLE \<and> mode = Receiving (addressed ((cof (sd_hw s))\<lparr>c_arg := arg\<rparr>)) [] \<and> rdy = 0x10"
  shows "\<exists>r t. sd_execute_command B code arg s = Some (r, t) \<and>
    at cof (set_err 0 s) ((cof (sd_hw s))\<lparr>c_arg := arg, c_mode := mode, c_int := rdy\<rparr>) t"
proof -
  let ?c = "cof (sd_hw s)" and ?s = "set_err 0 s"
  have hw: "sd_hw ?s = sd_hw s" by (simp add: set_err_def)
  obtain s1 where s1: "sd_status B SR_CMD_INHIBIT ?s = Some (0, s1)" "at cof ?s ?c s1"
    using sd_status_ok [OF assms(1), of ?s SR_CMD_INHIBIT] assms(2,3) hw by auto
  obtain s2 where s2: "rd B EMMC_INTERRUPT s1 = (c_int ?c, s2)" "at cof ?s ?c s2"
    using rd_interrupt [OF assms(1), of s1] at_fields(1) [OF s1(2)] at_trans [OF s1(2)] by auto
  have s3: "at cof ?s (?c\<lparr>c_int := 0\<rparr>) (wr B EMMC_INTERRUPT (c_int ?c) s2)"
    using at_trans [OF s2(2)] wr_regs(1) [OF assms(1), of s2 "c_int ?c"] at_fields(1) [OF s2(2)] by simp
  let ?s4 = "wr B EMMC_ARG1 arg (wr B EMMC_INTERRUPT (c_int ?c) s2)"
  have s4: "at cof ?s (?c\<lparr>c_int := 0, c_arg := arg\<rparr>) ?s4"
    using at_trans [OF s3] wr_regs(2) [OF assms(1), of "wr B EMMC_INTERRUPT (c_int ?c) s2" arg] at_fields(1) [OF s3] by simp
  note f4 = at_fields(1) [OF s4]
  have idle: "c_mode (cof (sd_hw ?s4)) = Idle" "c_blksizecnt (cof (sd_hw ?s4)) = 0x10200" unfolding f4 using assms(2,4) by simp_all
  have ad: "addressed (?c\<lparr>c_int := 0, c_arg := arg\<rparr>) = addressed (?c\<lparr>c_arg := arg\<rparr>)" by (simp add: addressed_def)
  have s5: "at cof ?s (?c\<lparr>c_arg := arg, c_mode := mode, c_int := 1 OR rdy\<rparr>) (wr B EMMC_CMDTM code ?s4)"
    using assms(5) at_trans [OF s4 wr_command(1) [OF assms(1) idle]] at_trans [OF s4 wr_command(2) [OF assms(1) idle]] unfolding f4 ad by auto
  note f5 = at_fields(1) [OF s5]
  have flags: "(1 OR rdy) AND INT_FAILURE = 0" "(1 OR rdy) AND INT_CMD_DONE \<noteq> 0" "(1 OR rdy) AND NOT INT_CMD_DONE = rdy" using assms(5) by auto
  obtain s6 where s6: "sd_int B INT_CMD_DONE (wr B EMMC_CMDTM code ?s4) = Some (0, s6)" "at cof ?s (?c\<lparr>c_arg := arg, c_mode := mode, c_int := rdy\<rparr>) s6"
    using sd_int_ok [OF assms(1), of "wr B EMMC_CMDTM code ?s4" INT_CMD_DONE] at_trans [OF s5] flags unfolding f5 by auto
  obtain v s7 where s7: "rd B EMMC_RESP0 s6 = (v, s7)" "at cof ?s (?c\<lparr>c_arg := arg, c_mode := mode, c_int := rdy\<rparr>) s7"
    using rd_resp0 [OF assms(1), of s6] at_trans [OF s6(2)] at_fields(1) [OF s6(2)] by auto
  have code: "code = CMD_READ_SINGLE \<or> code = CMD_WRITE_SINGLE" using assms(5) by blast
  have "response B code arg s6 = (v AND CMD_ERRORS_MASK, s7)" using code s7(1) by (auto simp: response_def)
  moreover have "sd_send B code arg ?s = Some (response B code arg s6)"
    using code s1(1) s2(1) s6(1) by (auto simp: sd_send_def change_def Let_def)
  moreover have "sd_execute_command B code arg s = sd_send B code arg ?s" using code by (auto simp: sd_execute_command_def)
  ultimately show ?thesis using s7(2) by auto
qed

lemma read_words_ok:
  assumes "emmc_card B cof" "c_mode (cof (sd_hw s)) = Sending ws" "ws \<noteq> []"
  shows "\<exists>t. read_words B (length ws) s = (ws, t) \<and>
    at cof s ((cof (sd_hw s))\<lparr>c_mode := Idle, c_int := c_int (cof (sd_hw s)) OR INT_DATA_DONE\<rparr>) t"
  using assms(2,3)
proof (induction ws arbitrary: s)
  case (Cons w ws)
  have d: "fst (bus_read B EMMC_DATA (sd_hw s)) = w" "cof (snd (bus_read B EMMC_DATA (sd_hw s))) = card_gives ws (cof (sd_hw s))"
    using assms(1) Cons.prems(1) by (auto simp: emmc_card_def)
  obtain t where t: "rd B EMMC_DATA s = (w, t)" "at cof s (card_gives ws (cof (sd_hw s))) t"
    using d by (cases "bus_read B EMMC_DATA (sd_hw s)") (auto simp: rd_def at_def)
  note f = at_fields(1) [OF t(2)]
  show ?case
  proof (cases "ws = []")
    case True
    then show ?thesis using t by (simp add: card_gives_def)
  next
    case False
    then have m: "card_gives ws (cof (sd_hw s)) = (cof (sd_hw s))\<lparr>c_mode := Sending ws\<rparr>" by (simp add: card_gives_def)
    obtain u where "read_words B (length ws) t = (ws, u)"
      "at cof t ((cof (sd_hw t))\<lparr>c_mode := Idle, c_int := c_int (cof (sd_hw t)) OR INT_DATA_DONE\<rparr>) u"
      using Cons.IH [of t] False f m by auto
    then show ?thesis using t(1) at_trans [OF t(2)] unfolding f m by auto
  qed
qed simp

lemma write_words_ok:
  assumes "emmc_card B cof" "c_mode (cof (sd_hw s)) = Receiving n us" "length us + length ws = 128" "ws \<noteq> []"
  shows "at cof s ((cof (sd_hw s))\<lparr>c_mode := Idle, c_int := c_int (cof (sd_hw s)) OR INT_DATA_DONE, c_blocks := (c_blocks (cof (sd_hw s)))(n := us @ ws)\<rparr>)
    (write_words B ws s)"
  using assms(2-4)
proof (induction ws arbitrary: s us)
  case (Cons w ws)
  let ?t = "wr B EMMC_DATA w s"
  have t: "at cof s (card_takes n (us @ [w]) (cof (sd_hw s))) ?t"
    using assms(1) Cons.prems(1) by (auto simp: emmc_card_def wr_def at_def)
  note f = at_fields(1) [OF t]
  show ?case
  proof (cases "ws = []")
    case True
    then show ?thesis using t Cons.prems(2) by (simp add: card_takes_def fun_upd_def)
  next
    case False
    then have "length us \<noteq> 127" using Cons.prems(2) by (cases ws) auto
    then have m: "card_takes n (us @ [w]) (cof (sd_hw s)) = (cof (sd_hw s))\<lparr>c_mode := Receiving n (us @ [w])\<rparr>" by (simp add: card_takes_def)
    show ?thesis
      using at_trans [OF t Cons.IH [of ?t "us @ [w]"]] False Cons.prems(2) unfolding f m by simp
  qed
qed simp

text \<open>The commands before the data, for cards of both kinds.\<close>

definition on_block :: "32 word \<Rightarrow> 32 word \<Rightarrow> 32 word \<Rightarrow> card \<Rightarrow> transfer \<Rightarrow> bool" where
  "on_block single rdy n c mode \<longleftrightarrow> single = CMD_READ_SINGLE \<and> rdy = INT_READ_RDY \<and> mode = Sending (c_blocks c n) \<or>
     single = CMD_WRITE_SINGLE \<and> rdy = INT_WRITE_RDY \<and> mode = Receiving n []"

lemma bytes_to_block: "(n :: 32 word) < 0x800000 \<Longrightarrow> (n * 512) div 512 = n"
proof -
  assume "n < 0x800000"
  then have u: "unat n < 0x800000" by (simp add: word_less_nat_alt)
  then have "unat (n * 512) = unat n * 512" by (simp add: unat_word_ariths)
  then have "unat ((n * 512) div 512) = unat n" by (simp add: unat_div)
  then show ?thesis by (rule unsigned_word_eqI)
qed

lemma block_ready:
  assumes "emmc_card B cof" "card_ready cof s" "ccs s \<or> n < 0x800000" "on_block single rdy n (cof (sd_hw s)) mode"
  shows "\<exists>s1 t. start_transfer B single multi n 1 s = Some (True, s1) \<and> start_block B single n rdy msg s1 = Some (True, t) \<and>
    (\<exists>a. at cof (set_err 0 s) ((cof (sd_hw s))\<lparr>c_blksizecnt := 0x10200, c_arg := a, c_mode := mode, c_int := 0\<rparr>) t)"
proof -
  let ?c = "cof (sd_hw s)"
  have c: "c_mode ?c = Idle" "c_int ?c AND INT_FAILURE = 0" "c_ccs ?c = ccs s" using assms(2) by (simp_all add: card_ready_def)
  let ?s1 = "wr B EMMC_BLKSIZECNT 0x10200 s"
  let ?c1 = "?c\<lparr>c_blksizecnt := 0x10200\<rparr>"
  have s1: "at cof s ?c1 ?s1" by (rule wr_regs(3) [OF assms(1)])
  note f1 = at_fields [OF s1]
  define a where "a = (if ccs s then n else n * 512)"
  have ad: "addressed (?c1\<lparr>c_arg := a\<rparr>) = n" using assms(3) c(3) bytes_to_block by (auto simp: addressed_def a_def)
  have s1e: "set_err 0 ?s1 = (set_err 0 s)\<lparr>sd_hw := sd_hw ?s1\<rparr>" by (simp add: set_err_def wr_def)
  obtain r s2 where s2: "sd_execute_command B single a ?s1 = Some (r, s2)" "at cof (set_err 0 ?s1) (?c1\<lparr>c_arg := a, c_mode := mode, c_int := rdy\<rparr>) s2"
    using command_sent [OF assms(1), of ?s1 single mode a rdy] assms(4) c f1(1) ad by (auto simp: on_block_def)
  have s2': "at cof (set_err 0 s) (?c1\<lparr>c_arg := a, c_mode := mode, c_int := rdy\<rparr>) s2"
    using s2(2) unfolding s1e by (auto simp: at_def)
  note f2 = at_fields [OF s2']
  have e2: "sd_err s2 = 0" "ccs s2 = ccs s" using f2(2,3) by (simp_all add: set_err_def ccs_def)
  have rdy: "rdy AND INT_FAILURE = 0" "rdy AND rdy \<noteq> 0" using assms(4) by (auto simp: on_block_def)
  obtain s3 where s3: "sd_int B rdy s2 = Some (0, s3)" "at cof (set_err 0 s) (?c1\<lparr>c_arg := a, c_mode := mode, c_int := 0\<rparr>) s3"
    using sd_int_ok [OF assms(1), of s2 rdy] rdy at_trans [OF s2'] unfolding f2(1) by auto
  show ?thesis
  proof (cases "ccs s")
    case True
    have "start_transfer B single multi n 1 s = Some (True, s2)"
      using True s2(1) e2(1) by (simp add: start_transfer_def a_def)
    moreover have "start_block B single n rdy msg s2 = Some (True, s3)" using True e2(2) s3(1) by (simp add: start_block_def)
    ultimately show ?thesis using s3(2) by blast
  next
    case False
    have "start_transfer B single multi n 1 s = Some (True, ?s1)" using False by (simp add: start_transfer_def)
    moreover have "start_block B single n rdy msg ?s1 = Some (True, s3)"
      using False f1(2) s2(1) e2(1) s3(1) by (simp add: start_block_def a_def)
    ultimately show ?thesis using s3(2) by blast
  qed
qed

lemma stop_single: "stop_transfer B 1 s = Some s"
  by (simp add: stop_transfer_def)

lemma sd_readblock_ok:
  assumes "emmc_card B cof" "card_ready cof s" "ccs s \<or> n < 0x800000"
  shows "\<exists>t. sd_readblock B n 1 s = Some (512, block_bytes (cof (sd_hw s)) n, t) \<and> card_ready cof t \<and> ccs t = ccs s \<and>
    c_blocks (cof (sd_hw t)) = c_blocks (cof (sd_hw s))"
proof -
  let ?c = "cof (sd_hw s)"
  have c: "c_mode ?c = Idle" "c_int ?c AND INT_FAILURE = 0" "c_ccs ?c = ccs s" "length (c_blocks ?c n) = 128"
    using assms(2) by (simp_all add: card_ready_def)
  obtain s1 where s1: "sd_status B SR_DAT_INHIBIT s = Some (0, s1)" "at cof s ?c s1"
    using sd_status_ok [OF assms(1) c(1,2), of SR_DAT_INHIBIT] by auto
  note f1 = at_fields [OF s1(2)]
  have r1: "card_ready cof s1" using assms(2) f1(1,2) by (simp add: card_ready_def)
  obtain s2 s3 a where s2: "start_transfer B CMD_READ_SINGLE CMD_READ_MULTI n 1 s1 = Some (True, s2)"
    "start_block B CMD_READ_SINGLE n INT_READ_RDY (CHR 0x0D # ''ERROR: Timeout waiting for ready to read'') s2 = Some (True, s3)"
    "at cof (set_err 0 s1) (?c\<lparr>c_blksizecnt := 0x10200, c_arg := a, c_mode := Sending (c_blocks ?c n), c_int := 0\<rparr>) s3"
    using block_ready [OF assms(1) r1, of n CMD_READ_SINGLE INT_READ_RDY "Sending (c_blocks ?c n)" CMD_READ_MULTI
        "CHR 0x0D # ''ERROR: Timeout waiting for ready to read''"] assms(3) f1(1,2) by (auto simp: on_block_def)
  note f3 = at_fields [OF s2(3)]
  have ne: "c_blocks ?c n \<noteq> []" using c(4) by auto
  obtain t where t: "read_words B 128 s3 = (c_blocks ?c n, t)"
    "at cof s3 (?c\<lparr>c_blksizecnt := 0x10200, c_arg := a, c_mode := Idle, c_int := 0 OR INT_DATA_DONE\<rparr>) t"
    using read_words_ok [OF assms(1), of s3 "c_blocks ?c n"] ne c(4) unfolding f3(1) by auto
  note ft = at_fields [OF at_trans [OF s2(3) t(2)]]
  have e: "sd_err t = 0" "ccs t = ccs s" using ft(2,3) f1(2) by (simp_all add: set_err_def ccs_def)
  have "sd_readblock B n 1 s = Some (512, block_bytes ?c n, t)"
    using s1(1) s2(1,2) t(1) e(1) by (simp add: sd_readblock_def stop_single block_bytes_def)
  moreover have "card_ready cof t" using assms(2) ft(1) e(2) by (simp add: card_ready_def)
  ultimately show ?thesis using ft(1) e(2) by simp
qed

lemma sd_writeblock_ok:
  assumes "emmc_card B cof" "card_ready cof s" "ccs s \<or> n < 0x800000" "length bs = 512"
  shows "\<exists>t. sd_writeblock B bs n 1 s = Some (512, t) \<and> card_ready cof t \<and> ccs t = ccs s \<and>
    block_bytes (cof (sd_hw t)) = (block_bytes (cof (sd_hw s)))(n := bs)"
proof -
  let ?c = "cof (sd_hw s)" and ?ws = "bytes_words bs"
  have ws: "length ?ws = 128" "concat (map word_bytes ?ws) = bs" using bytes_of_words [of bs 128] assms(4) by simp_all
  have c: "c_mode ?c = Idle" "c_int ?c AND INT_FAILURE = 0" "c_ccs ?c = ccs s" using assms(2) by (simp_all add: card_ready_def)
  obtain s1 where s1: "sd_status B (SR_DAT_INHIBIT OR SR_WRITE_AVAILABLE) s = Some (0, s1)" "at cof s ?c s1"
    using sd_status_ok [OF assms(1) c(1,2), of "SR_DAT_INHIBIT OR SR_WRITE_AVAILABLE"] by auto
  note f1 = at_fields [OF s1(2)]
  have r1: "card_ready cof s1" using assms(2) f1(1,2) by (simp add: card_ready_def)
  let ?m = "CHR 0x0D # ''ERROR: Timeout waiting for ready to write''"
  obtain s2 s3 a where s2: "start_transfer B CMD_WRITE_SINGLE CMD_WRITE_MULTI n 1 s1 = Some (True, s2)"
    "start_block B CMD_WRITE_SINGLE n INT_WRITE_RDY ?m s2 = Some (True, s3)"
    "at cof (set_err 0 s1) (?c\<lparr>c_blksizecnt := 0x10200, c_arg := a, c_mode := Receiving n [], c_int := 0\<rparr>) s3"
    using block_ready [OF assms(1) r1, of n CMD_WRITE_SINGLE INT_WRITE_RDY "Receiving n []" CMD_WRITE_MULTI ?m] assms(3) f1(1,2)
    by (auto simp: on_block_def)
  note f3 = at_fields [OF s2(3)]
  let ?d = "?c\<lparr>c_blksizecnt := 0x10200, c_arg := a, c_mode := Idle, c_int := INT_DATA_DONE, c_blocks := (c_blocks ?c)(n := ?ws)\<rparr>"
  have ne: "?ws \<noteq> []" using ws(1) by auto
  have s4: "at cof (set_err 0 s1) ?d (write_words B ?ws s3)"
    using at_trans [OF s2(3) write_words_ok [OF assms(1), of s3 n "[]" ?ws]] ne ws(1) unfolding f3(1) by simp
  note f4 = at_fields [OF s4]
  obtain t where t: "sd_int B INT_DATA_DONE (write_words B ?ws s3) = Some (0, t)" "at cof (set_err 0 s1) (?d\<lparr>c_int := 0\<rparr>) t"
    using sd_int_ok [OF assms(1), of "write_words B ?ws s3" INT_DATA_DONE] at_trans [OF s4] unfolding f4(1) by auto
  note ft = at_fields [OF t(2)]
  have e: "sd_err t = 0" "ccs t = ccs s" using ft(2,3) f1(2) by (simp_all add: set_err_def ccs_def)
  have "sd_writeblock B bs n 1 s = Some (512, t)"
    using s1(1) s2(1,2) t(1) e(1) assms(4) by (simp add: sd_writeblock_def stop_single)
  moreover have "card_ready cof t" using assms(2) ft(1) e(2) ws(1) by (simp add: card_ready_def)
  moreover have "block_bytes (cof (sd_hw t)) = (block_bytes ?c)(n := bs)" unfolding ft(1) using ws(2) by (auto simp: block_bytes_def)
  ultimately show ?thesis using e(2) by blast
qed

end
