(* ===== verification/Fat_Library.thy ===== *)
theory Fat_Library
  imports Fat_Sync Sd_Card File_Properties
begin

section \<open>The file system as a whole\<close>

text \<open>
  The record of operations on which the system calls run, from the models of the FAT32 library and of the SD card driver:
  system calls, \<^verbatim>\<open>libs/filesystem.c\<close>, \<^verbatim>\<open>libs/fat32/fat.c\<close>, the adapters of \<^verbatim>\<open>libs/filesystem.c\<close>, \<^verbatim>\<open>drivers/sd/sd.c\<close>, and
  the registers of the controller. The state of an operation without a defined outcome is \<open>None\<close>.
\<close>

definition card_driver :: "'h mmio_bus \<Rightarrow> 'h sd_state option sd_driver" where
  "card_driver B = sd_driver.make
     (\<lambda>d. case Option.bind d (Sd_Driver.sd_init B) of None \<Rightarrow> (0, None) | Some (r, t) \<Rightarrow> (r, Some t))
     (\<lambda>n d. case Option.bind d (Sd_Driver.sd_readblock B n 1) of None \<Rightarrow> (0, [], None) | Some (r, bs, t) \<Rightarrow> (r, bs, Some t))
     (\<lambda>bs n d. case Option.bind d (Sd_Driver.sd_writeblock B bs n 1) of None \<Rightarrow> (0, None) | Some (r, t) \<Rightarrow> (r, Some t))"

text \<open>\<^verbatim>\<open>DiskOps disk_operations = {sd_read_adapter, sd_write_adapter}\<close>: the bytes read replace the start of the buffer.\<close>

definition disk_operations :: "'h mmio_bus \<Rightarrow> 'h sd_state option DiskOps" where
  "disk_operations B = \<lparr>
     op_read = (\<lambda>b n d. case sd_read_adapter (card_driver B) n d of (ok, bytes, d1) \<Rightarrow> (ok, bytes @ drop (length bytes) b, d1)),
     op_write = (\<lambda>b n d. sd_write_adapter (card_driver B) b n d)\<rparr>"

definition card_content :: "('h \<Rightarrow> card) \<Rightarrow> 'h sd_state option \<Rightarrow> 32 word \<Rightarrow> 8 word list" where
  "card_content cof d n = (case d of None \<Rightarrow> [] | Some s \<Rightarrow> if card_ready cof s \<and> ccs s then block_bytes (cof (sd_hw s)) n else [])"

lemma card_content_usable: "usable (card_content cof) d \<Longrightarrow> \<exists>s. d = Some s \<and> card_ready cof s \<and> ccs s"
proof -
  assume "usable (card_content cof) d"
  then have "length (card_content cof d 0) = 512" by (simp add: usable_def)
  then show ?thesis by (auto simp: card_content_def split: option.splits if_splits)
qed

lemma card_content_ready: "card_ready cof s \<Longrightarrow> ccs s \<Longrightarrow> card_content cof (Some s) = block_bytes (cof (sd_hw s))"
  by (auto simp: card_content_def)

lemma block_bytes_length: "card_ready cof s \<Longrightarrow> length (block_bytes (cof (sd_hw s)) n) = 512"
  by (simp only: block_bytes_def word_bytes_length) (simp add: card_ready_def)

lemma card_reliable:
  assumes "emmc_card B cof"
  shows "reliable (disk_operations B) (card_content cof)"
  unfolding reliable_def
proof (intro allI impI)
  fix b :: "8 word list" and n d assume u: "usable (card_content cof) d" and b: "length b = 512"
  obtain s where s: "d = Some s" "card_ready cof s" "ccs s" using card_content_usable [OF u] by blast
  note cs = card_content_ready [OF s(2,3)]
  obtain t where t: "Sd_Driver.sd_readblock B n 1 s = Some (512, block_bytes (cof (sd_hw s)) n, t)" "card_ready cof t" "ccs t"
    "c_blocks (cof (sd_hw t)) = c_blocks (cof (sd_hw s))"
    using sd_readblock_ok [OF assms s(2), of n] s(3) by auto
  have "op_read (disk_operations B) b n d = (True, card_content cof d n, Some t)"
    using t(1) b s(1) cs block_bytes_length [OF s(2)] by (simp add: disk_operations_def sd_read_adapter_def card_driver_def sd_driver.defs)
  moreover have "card_content cof (Some t) = card_content cof d" using card_content_ready [OF t(2,3)] cs s(1) t(4) by (auto simp: block_bytes_def)
  moreover obtain w where w: "Sd_Driver.sd_writeblock B b n 1 s = Some (512, w)" "card_ready cof w" "ccs w"
    "block_bytes (cof (sd_hw w)) = (block_bytes (cof (sd_hw s)))(n := b)"
    using sd_writeblock_ok [OF assms s(2) _ b, of n] s(3) by auto
  moreover have "op_write (disk_operations B) b n d = (True, Some w)"
    using w(1) s(1) by (simp add: disk_operations_def sd_write_adapter_def card_driver_def sd_driver.defs)
  moreover have "card_content cof (Some w) = (card_content cof d)(n := b)" using card_content_ready [OF w(2,3)] cs s(1) w(4) by simp
  ultimately show "(\<exists>d1. op_read (disk_operations B) b n d = (True, card_content cof d n, d1) \<and> card_content cof d1 = card_content cof d) \<and>
      (\<exists>d1. op_write (disk_operations B) b n d = (True, d1) \<and> card_content cof d1 = (card_content cof d)(n := b))" by blast
qed


text \<open>A controller with a card, as a function.\<close>

definition demo_bus :: "card mmio_bus" where
  "demo_bus = \<lparr>
     bus_read = (\<lambda>r c. case r of
         EMMC_INTERRUPT \<Rightarrow> (c_int c, c)
       | EMMC_DATA \<Rightarrow> (case c_mode c of Sending (w # ws) \<Rightarrow> (w, card_gives ws c) | _ \<Rightarrow> (0, c))
       | _ \<Rightarrow> (0, c)),
     bus_write = (\<lambda>r x c. case r of
         EMMC_INTERRUPT \<Rightarrow> c\<lparr>c_int := c_int c AND NOT x\<rparr>
       | EMMC_ARG1 \<Rightarrow> c\<lparr>c_arg := x\<rparr>
       | EMMC_BLKSIZECNT \<Rightarrow> c\<lparr>c_blksizecnt := x\<rparr>
       | EMMC_CMDTM \<Rightarrow>
           if x = CMD_READ_SINGLE then c\<lparr>c_mode := Sending (c_blocks c (addressed c)), c_int := c_int c OR (INT_CMD_DONE OR INT_READ_RDY)\<rparr>
           else if x = CMD_WRITE_SINGLE then c\<lparr>c_mode := Receiving (addressed c) [], c_int := c_int c OR (INT_CMD_DONE OR INT_WRITE_RDY)\<rparr>
           else c
       | EMMC_DATA \<Rightarrow> (case c_mode c of Receiving n ws \<Rightarrow> card_takes n (ws @ [x]) c | _ \<Rightarrow> c)
       | _ \<Rightarrow> c),
     bus_puts = (\<lambda>msg c. c)\<rparr>"

definition demo_card :: "card sd_state" where
  "demo_card = \<lparr>sd_scr0 = 1, sd_scr1 = 0, sd_rca = 0, sd_err = 0, sd_hv = 0,
     sd_hw = \<lparr>c_blocks = (\<lambda>n. bytes_words (demo_sectors n)), c_ccs = True, c_arg = 0, c_blksizecnt = 0, c_int = 0, c_mode = Idle\<rparr>\<rparr>"

lemma demo_emmc: "emmc_card demo_bus (\<lambda>c. c)"
  by (simp add: emmc_card_def demo_bus_def)

lemma demo_card_content: "card_content (\<lambda>c. c) (Some demo_card) = demo_sectors"
proof -
  have b: "length (bytes_words (demo_sectors n)) = 128" "concat (map word_bytes (bytes_words (demo_sectors n))) = demo_sectors n" for n
    using bytes_of_words [of "demo_sectors n" 128] demo_sectors_length by simp_all
  have r: "card_ready (\<lambda>c. c) demo_card" "ccs demo_card" by (simp_all add: card_ready_def demo_card_def ccs_def b)
  show ?thesis unfolding card_content_ready [OF r] by (rule ext) (simp add: block_bytes_def demo_card_def b)
qed

lemma demo_card_usable: "usable (card_content (\<lambda>c. c)) (Some demo_card)"
  by (simp add: usable_def demo_card_content demo_sectors_length)


subsection \<open>The library for the system calls\<close>

definition on_card :: "('c \<Rightarrow> int \<times> 'c) \<Rightarrow> 'c fat_state option \<Rightarrow> int \<times> 'c fat_state option" where
  "on_card f d = (case d of None \<Rightarrow> (0, None) | Some s \<Rightarrow> (case f (fs_disk s) of (r, d1) \<Rightarrow> (r, Some (s\<lparr>fs_disk := d1\<rparr>))))"

text \<open>An operation of the library as a function on the state; \<open>dflt\<close> is what the caller's variables hold if it fails.\<close>

definition run_op :: "('a, 'c) fat_op \<Rightarrow> (int + 'a \<Rightarrow> int \<times> 'r) \<Rightarrow> 'r \<Rightarrow> 'c fat_state option \<Rightarrow> int \<times> 'r \<times> 'c fat_state option" where
  "run_op m result dflt d = (case Option.bind d m of
     None \<Rightarrow> (0, dflt, None)
   | Some (r, t) \<Rightarrow> (case result r of (e, x) \<Rightarrow> (e, x, Some t)))"

definition run_code :: "(unit, 'c) fat_op \<Rightarrow> 'c fat_state option \<Rightarrow> int \<times> 'c fat_state option" where
  "run_code m d = (case run_op m (\<lambda>r. (case r of Inl e \<Rightarrow> e | Inr _ \<Rightarrow> 0, ())) () d of (e, _, t) \<Rightarrow> (e, t))"

definition with_value :: "'r \<Rightarrow> int + int \<times> 'r \<Rightarrow> int \<times> 'r" where
  "with_value dflt r = (case r of Inl e \<Rightarrow> (e, dflt) | Inr (e, x) \<Rightarrow> (e, x))"

abbreviation path_bytes :: "char list \<Rightarrow> 8 word list" where
  "path_bytes \<equiv> map of_char"

definition fat_library_of :: "'h mmio_bus \<Rightarrow> 'h sd_state option fat_state option fat_library" where
  "fat_library_of B = fat_library.make
     (on_card (Filesystem.sd_init (card_driver B)))
     (\<lambda>n d. case d of None \<Rightarrow> (0, [], None)
       | Some s \<Rightarrow> (case Filesystem.sd_readblock (card_driver B) n (fs_disk s) of (r, bs, d1) \<Rightarrow> (r, bs, Some (s\<lparr>fs_disk := d1\<rparr>))))
     (\<lambda>bs n. on_card (Filesystem.sd_writeblock (card_driver B) bs n))
     (run_code (Fat_Volume.fat_probe (disk_operations B) 0))
     (\<lambda>path. run_code (Fat_Volume.fat_mount (disk_operations B) 0 0 (path_bytes path)))
     (\<lambda>a path. run_code (Fat_Files.fat_dir_create (Dir_At a) (path_bytes path)))
     (\<lambda>a path. run_code (Fat_Files.fat_dir_open (Dir_At a) (path_bytes path)))
     (\<lambda>a path flags. run_code (Fat_Files.fat_file_open a (path_bytes path) flags))
     (\<lambda>a. run_code (Fat_Files.fat_file_close a))
     (\<lambda>a len. run_op (Fat_Files.fat_file_read a len) (with_value []) [])
     (\<lambda>a bs len. run_op (Fat_Files.fat_file_write a bs len) (with_value 0) 0)
     (\<lambda>a offset. run_code (Fat_Files.fat_file_seek a offset FAT_SEEK_START))
     (\<lambda>a. run_op (Fat_Files.fat_dir_read (Dir_At a) empty_info) (\<lambda>r. case r of Inl e \<Rightarrow> (e, empty_info) | Inr i \<Rightarrow> (0, i)) empty_info)
     (\<lambda>a. run_code (Fat_Files.fat_dir_next (Dir_At a)))"

lemma library_fields:
  "Filesystem.fat_file_read (fat_library_of B) a len = run_op (Fat_Files.fat_file_read a len) (with_value []) []"
  "Filesystem.fat_file_write (fat_library_of B) a bs len = run_op (Fat_Files.fat_file_write a bs len) (with_value 0) 0"
  "Filesystem.fat_file_seek (fat_library_of B) a off = run_code (Fat_Files.fat_file_seek a off FAT_SEEK_START)"
  by (simp_all add: fat_library_of_def fat_library.defs)

lemma mode_bits: "(x :: 8 word) AND NOT 0x80 = y AND NOT 0x80 \<Longrightarrow> x AND 2 = y AND 2" "x AND 3 = y AND 3 \<Longrightarrow> x AND 2 = y AND 2"
proof -
  have e: "(z AND NOT 0x80) AND 2 = z AND 2" "(z AND 3) AND 2 = z AND 2" for z :: "8 word" by (simp_all add: and.assoc)
  show "x AND NOT 0x80 = y AND NOT 0x80 \<Longrightarrow> x AND 2 = y AND 2" using e(1) [of x] e(1) [of y] by simp
  show "x AND 3 = y AND 3 \<Longrightarrow> x AND 2 = y AND 2" using e(2) [of x] e(2) [of y] by simp
qed

lemma read_call_ok:
  assumes "library E = fat_library_of B" "get_resource fd k = Some r" "resource_ptr r = a" "a \<noteq> 0"
    and "file_ok content p a cs s" "fl_flags (fs_files s a) AND FAT_READ \<noteq> 0" "len < 2 ^ 31"
    and "bytes = take (min len (unat (fl_size (fs_files s a)))) (file_view content p a cs s)"
    and "min len (unat (fl_size (fs_files s a))) div 512 < sect_count (fs_fats s p) cs"
  shows "\<exists>t. syscall_read_file E fd buffer (int len) count k (Some s) = do {
      k1 \<leftarrow> store_string buffer bytes k;
      k2 \<leftarrow> store_int count (int (length bytes)) k1;
      Some (0, k2, Some t)
    } \<and> file_ok content p a cs t \<and> steady content p a cs s t \<and> file_view content p a cs t = file_view content p a cs s"
proof -
  obtain u where u: "Fat_Files.fat_file_seek a 0 FAT_SEEK_START s = Some (Inr (), u)" "landed content p a cs 0 s u"
    using seek_start [OF assms(5)] by blast
  note U = u(2) [unfolded landed_def]
  have ok: "file_ok content p a cs u" and st: "steady content p a cs s u" and v: "file_view content p a cs u = file_view content p a cs s"
    and o: "fl_offset (fs_files u a) = 0" and sz: "fl_size (fs_files u a) = fl_size (fs_files s a)" using U by simp_all
  have m: "fl_flags (fs_files u a) AND FAT_READ \<noteq> 0" using mode_bits(1) [of "fl_flags (fs_files u a)" "fl_flags (fs_files s a)"] U assms(6) by simp
  have n: "to_read (fs_files u a) len = min len (unat (fl_size (fs_files s a)))" using o sz by (simp add: to_read_def)
  obtain t where t: "Fat_Files.fat_file_read a (int len) u = Some (Inr (0, bytes), t)" "file_ok content p a cs t" "steady content p a cs u t"
    "file_view content p a cs t = file_view content p a cs s"
    using file_read_ok [OF ok m assms(7)] assms(8,9) unfolding n v steady_volume(2) [OF st] o by auto
  have "read_file_to E fd buffer (int len) k (Some s) = do {
      k1 \<leftarrow> store_string buffer bytes k;
      Some (0, int (length bytes), k1, Some t)
    }"
    using assms(1-4) u(1) t(1) by (simp add: read_file_to_def library_fields run_code_def run_op_def with_value_def)
  then show ?thesis using t(2,4) steady_trans [OF st t(3)] unfolding syscall_read_file_def by (intro exI [of _ t]) (simp split: Option.bind_split)
qed


definition card_environment :: "card sd_state option fat_state option environment" where
  "card_environment = \<lparr>library = fat_library_of demo_bus, ret_from_fork = 0, stack_path = replicate 128 NUL,
     stack_message = stack_message file_environment\<rparr>"


subsection \<open>Writing and reading back\<close>

lemma load_block_length: "load_block x n k = Some bs \<Longrightarrow> length bs = n"
  by (induction n arbitrary: x bs) (auto split: Option.bind_splits)

lemma write_call_ok:
  assumes "library E = fat_library_of B" "get_resource fd k = Some r" "resource_ptr r = a" "a \<noteq> 0" "load_block buffer len k = Some src"
    and "Fat_Files.fat_file_write a src (int len) s = Some (Inr (0, int len), t)"
  shows "syscall_write_file E fd buffer (int len) count k (Some s) = do {
      k1 \<leftarrow> store_int count (int len) k;
      Some (0, k1, Some t)
    }"
proof -
  obtain x where x: "aget (files (pcbs k (current_process k))) fd = Some x" "x \<noteq> 0" "r = resources k x"
    using assms(2) by (auto simp: get_resource_def split: Option.bind_splits if_splits)
  then show ?thesis using assms by (simp add: syscall_write_file_def library_fields run_op_def with_value_def)
qed



end
