(* ===== verification/Fat_Types.thy ===== *)
theory Fat_Types
  imports Fat_Files Fat_Example
begin

section \<open>Sizes and positions in the FAT32 library\<close>

text \<open>
  The arrays of the library keep the sizes of their declarations, and a position in a directory always is the start of an entry
  inside a sector. \<open>spec t R m\<close>: from such a state, \<open>m\<close> leads to such a state and its value satisfies \<open>R\<close>; with \<open>t\<close> it also has an outcome.
\<close>

definition entry_start :: "16 word \<Rightarrow> bool" where
  "entry_start i \<longleftrightarrow> unat i < 512 \<and> 32 dvd unat i"

definition reads_sectors :: "'d DiskOps \<Rightarrow> bool" where
  "reads_sectors ops \<longleftrightarrow> (\<forall>b n d. length b = 512 \<longrightarrow> length (fst (snd (op_read ops b n d))) = 512)"

definition fat_shape :: "'d Fat \<Rightarrow> bool" where
  "fat_shape f \<longleftrightarrow> length (f_buf f) = 512 \<and> reads_sectors (f_ops f) \<and> length (f_name f) = 32 \<and> f_name_len f \<le> 32"

definition file_shape :: "File \<Rightarrow> bool" where
  "file_shape fl \<longleftrightarrow> length (fl_buf fl) = 512 \<and> entry_start (fl_dir_idx fl)"

definition fat_typed :: "'d fat_state \<Rightarrow> bool" where
  "fat_typed s \<longleftrightarrow> (\<forall>p. fat_shape (fs_fats s p)) \<and> (\<forall>q. entry_start (d_idx (fs_dirs s q))) \<and> (\<forall>a. file_shape (fs_files s a)) \<and>
     length (fs_buf s) = 512 \<and> (\<forall>l. fs_loc s = Some l \<longrightarrow> entry_start (loc_idx l))"

definition spec :: "bool \<Rightarrow> ('a \<Rightarrow> bool) \<Rightarrow> ('a, 'd) fat_op \<Rightarrow> bool" where
  "spec t R m \<longleftrightarrow> (\<forall>s. fat_typed s \<longrightarrow> (case m s of None \<Rightarrow> \<not> t | Some (r, s') \<Rightarrow> fat_typed s' \<and> (\<forall>a. r = Inr a \<longrightarrow> R a)))"

named_theorems fat_ty \<open>operations of the library keep sizes and positions\<close>

subsection \<open>Rules\<close>

lemma spec_bind:
  fixes m :: "('a, 'd) fat_op" and k :: "'a \<Rightarrow> ('b, 'd) fat_op"
  assumes "spec t Q m" "\<And>a. Q a \<Longrightarrow> spec t R (k a)"
  shows "spec t R (fs_bind m k)"
  unfolding spec_def
proof (intro allI impI)
  fix s :: "'d fat_state" assume s: "fat_typed s"
  show "case fs_bind m k s of None \<Rightarrow> \<not> t | Some (r, s') \<Rightarrow> fat_typed s' \<and> (\<forall>a. r = Inr a \<longrightarrow> R a)"
  proof (cases "m s")
    case (Some y)
    then obtain r s1 where y: "m s = Some (r, s1)" by (cases y) auto
    then have r: "fat_typed s1" "\<forall>a. r = Inr a \<longrightarrow> Q a" using assms(1) s unfolding spec_def by fastforce+
    then show ?thesis using assms(2) y unfolding spec_def fs_bind_def by (cases r) auto
  qed (use assms(1) s in \<open>auto simp: spec_def fs_bind_def\<close>)
qed

lemma spec_then: "spec t (\<lambda>_. True) m \<Longrightarrow> spec t R k \<Longrightarrow> spec t R (fs_then m k)"
  unfolding fs_then_def by (rule spec_bind)

lemma spec_when: "(b \<Longrightarrow> spec t (\<lambda>_. True) m) \<Longrightarrow> spec t (\<lambda>_. True) (fs_when b m)"
  by (auto simp: fs_when_def spec_def fs_return_def)

lemma spec_if: "(b \<Longrightarrow> spec t R m) \<Longrightarrow> (\<not> b \<Longrightarrow> spec t R k) \<Longrightarrow> spec t R (if b then m else k)"
  by simp

lemma spec_pair: "(\<And>a b. x = (a, b) \<Longrightarrow> spec t R (k a b)) \<Longrightarrow> spec t R (case x of (a, b) \<Rightarrow> k a b)"
  by (cases x) simp

lemma spec_option: "(x = None \<Longrightarrow> spec t R m) \<Longrightarrow> (\<And>a. x = Some a \<Longrightarrow> spec t R (k a)) \<Longrightarrow> spec t R (case x of None \<Rightarrow> m | Some a \<Rightarrow> k a)"
  by (cases x) simp_all

lemma spec_list: "(x = [] \<Longrightarrow> spec t R m) \<Longrightarrow> (\<And>a b. x = a # b \<Longrightarrow> spec t R (k a b)) \<Longrightarrow> spec t R (case x of [] \<Rightarrow> m | a # b \<Rightarrow> k a b)"
  by (cases x) simp_all

lemma spec_let: "(\<And>a. a = x \<Longrightarrow> spec t R (k a)) \<Longrightarrow> spec t R (let a = x in k a)"
  by simp

lemma spec_return: "R a \<Longrightarrow> spec t R (fs_return a)"
  by (simp add: spec_def fs_return_def)

lemma spec_fail: "spec t R (fs_fail e)"
  by (simp add: spec_def fs_fail_def)

lemma spec_lift: "(x = None \<Longrightarrow> \<not> t) \<Longrightarrow> (\<And>a. x = Some a \<Longrightarrow> R a) \<Longrightarrow> spec t R (fs_lift x)"
  by (auto simp: spec_def fs_lift_def split: option.splits)

lemma spec_get: "(\<And>s. fat_typed s \<Longrightarrow> R (f s)) \<Longrightarrow> spec t R (fs_get f)"
  by (simp add: spec_def fs_get_def)

lemma spec_modify: "(\<And>s. fat_typed s \<Longrightarrow> fat_typed (f s)) \<Longrightarrow> spec t (\<lambda>_. True) (fs_modify f)"
  by (simp add: spec_def fs_modify_def)

lemma spec_code: "spec t (\<lambda>_. True) m \<Longrightarrow> spec t (\<lambda>_. True) (fs_code m)"
  unfolding spec_def fs_code_def by (fastforce split: option.splits)

lemma spec_weaken: "spec True Q m \<Longrightarrow> (\<And>a. Q a \<Longrightarrow> R a) \<Longrightarrow> spec t R m"
  unfolding spec_def by (fastforce split: option.splits)

text \<open>The same for one outcome, for induction over loops that may not end.\<close>

definition fine :: "('a \<Rightarrow> bool) \<Rightarrow> 'd fat_state \<Rightarrow> (int + 'a) \<times> 'd fat_state \<Rightarrow> bool" where
  "fine R s y \<longleftrightarrow> (fat_typed s \<longrightarrow> fat_typed (snd y) \<and> (\<forall>a. fst y = Inr a \<longrightarrow> R a))"

lemma spec_partial: "(\<And>s y. m s = Some y \<Longrightarrow> fine R s y) \<Longrightarrow> spec False R m"
  unfolding spec_def fine_def by (fastforce split: option.splits)

lemma spec_outcome: "m s = Some y \<Longrightarrow> spec False R m \<Longrightarrow> fine R s y"
  unfolding spec_def fine_def by (cases y) fastforce

lemmas bind_outcome = spec_outcome [where m = "fs_bind m k" for m k] and if_outcome = spec_outcome [where m = "if b then m else k" for b m k]

lemma spec_bind_lift: "(x = None \<Longrightarrow> \<not> t) \<Longrightarrow> (\<And>a. x = Some a \<Longrightarrow> spec t R (k a)) \<Longrightarrow> spec t R (fs_bind (fs_lift x) k)"
  by (rule spec_bind [OF spec_lift])

lemma spec_bind_get: "(\<And>s. fat_typed s \<Longrightarrow> spec t R (k (f s))) \<Longrightarrow> spec t R (fs_bind (fs_get f) k)"
  by (auto simp: spec_def fs_bind_def fs_get_def)

lemma typedD:
  assumes "fat_typed s"
  shows "fat_shape (fs_fats s p)" "entry_start (d_idx (fs_dirs s q))" "file_shape (fs_files s a)" "length (fs_buf s) = 512"
    "fs_loc s = Some l \<Longrightarrow> entry_start (loc_idx l)"
  using assms by (simp_all add: fat_typed_def)

lemma spec_bind_fat: "(\<And>fat. fat_shape fat \<Longrightarrow> spec t R (k fat)) \<Longrightarrow> spec t R (fs_bind (the_fat p) k)"
  unfolding the_fat_def by (rule spec_bind_get) (simp add: typedD)

lemma spec_bind_dir: "(\<And>dr. entry_start (d_idx dr) \<Longrightarrow> spec t R (k dr)) \<Longrightarrow> spec t R (fs_bind (the_dir q) k)"
  unfolding the_dir_def by (rule spec_bind_get) (simp add: typedD)

lemma spec_bind_file: "(\<And>fl. file_shape fl \<Longrightarrow> spec t R (k fl)) \<Longrightarrow> spec t R (fs_bind (the_file a) k)"
  unfolding the_file_def by (rule spec_bind_get) (simp add: typedD)

lemma spec_bind_dir_fat: "(\<And>p. spec False R (k p)) \<Longrightarrow> spec False R (fs_bind (dir_fat q) k)"
  unfolding dir_fat_def by (intro spec_bind [where Q = "\<lambda>_. True"] spec_bind_dir spec_lift) simp_all

lemma spec_upd_fat: "(\<And>f. fat_shape f \<Longrightarrow> fat_shape (g f)) \<Longrightarrow> spec t (\<lambda>_. True) (fs_modify (upd_fat p g))"
  by (rule spec_modify) (simp add: fat_typed_def)

lemma spec_upd_dir: "(\<And>d. entry_start (d_idx d) \<Longrightarrow> entry_start (d_idx (g d))) \<Longrightarrow> spec t (\<lambda>_. True) (fs_modify (upd_dir q g))"
  by (rule spec_modify) (simp add: fat_typed_def)

lemma spec_upd_file: "(\<And>f. file_shape f \<Longrightarrow> file_shape (g f)) \<Longrightarrow> spec t (\<lambda>_. True) (fs_modify (upd_file a g))"
  by (rule spec_modify) (simp add: fat_typed_def)

lemmas spec_rules = spec_bind_lift spec_bind_get spec_bind_fat spec_bind_dir spec_bind_file spec_bind_dir_fat spec_upd_fat spec_upd_dir spec_upd_file
  spec_then spec_when spec_if spec_pair spec_option spec_list spec_let spec_fail spec_return

subsection \<open>The sector buffer and the table\<close>

lemma disk_read_ty:
  assumes "reads_sectors ops" "length buf = 512" "\<And>ok b. length b = 512 \<Longrightarrow> spec t R (k (ok, b))"
  shows "spec t R (fs_bind (disk_read ops buf sect) k)"
proof (rule spec_bind)
  show "spec t (\<lambda>(ok, b). length b = 512) (disk_read ops buf sect)"
    using assms(1,2) by (auto simp: spec_def disk_read_def fat_typed_def reads_sectors_def split: prod.splits) (metis fst_conv snd_conv)
qed (use assms(3) in auto)

lemma disk_write_ty [fat_ty]: "spec t (\<lambda>_. True) (disk_write ops buf sect)"
  by (auto simp: spec_def disk_write_def fat_typed_def split: prod.splits)

lemma flags_ty [fat_ty]: "spec t (\<lambda>_. True) (set_flag p m)" "spec t (\<lambda>_. True) (clear_flag p m)"
  unfolding set_flag_def clear_flag_def by (intro spec_rules; simp add: fat_shape_def)+

lemma set_buf_ty [fat_ty]: "length b = 512 \<Longrightarrow> spec t (\<lambda>_. True) (set_buf p b)"
  unfolding set_buf_def by (intro spec_rules) (simp add: fat_shape_def)

lemma sync_buf_ty [fat_ty]: "spec t (\<lambda>_. True) (sync_buf p)"
  unfolding sync_buf_def by (intro spec_rules fat_ty spec_bind [OF disk_write_ty] TrueI)

lemma update_buf_ty [fat_ty]: "spec t (\<lambda>_. True) (update_buf p sect)"
  unfolding update_buf_def by (intro spec_rules fat_ty disk_read_ty TrueI; simp add: fat_shape_def)

lemma wr_some: "i + 3 < length b \<Longrightarrow> wr32 b i v \<noteq> None" "i + 1 < length b \<Longrightarrow> wr16 b i u \<noteq> None" "i < length b \<Longrightarrow> wr8 b i w \<noteq> None"
  "i + 3 < length b \<Longrightarrow> rd32 b i \<noteq> None" "i + 1 < length b \<Longrightarrow> rd16 b i \<noteq> None" "i < length b \<Longrightarrow> rd8 b i \<noteq> None"
  by (simp_all add: wr32_def wr16_def wr8_def rd32_def rd16_def rd8_def)

lemma slot_inside: "4 * unat ((c :: 32 word) mod 128) + 3 < 512"
proof -
  have "unat (c mod 128) < 128" by (simp add: unat_mod)
  then show ?thesis by linarith
qed

lemma sync_fs_ty [fat_ty]: "spec t (\<lambda>_. True) (sync_fs p)"
  unfolding sync_fs_def
  by (intro spec_rules fat_ty TrueI) (auto simp: fat_shape_def wr_some wr32_def split: if_splits)

lemma get_fat_ty [fat_ty]: "spec t (\<lambda>_. True) (get_fat p clust)"
  unfolding get_fat_def
  by (intro spec_rules fat_ty TrueI) (use slot_inside [of clust] in \<open>auto simp: fat_shape_def rd32_def\<close>)

lemma put_fat2_ty [fat_ty]: "spec t (\<lambda>_. True) (put_fat2 p sect clust val)"
  unfolding put_fat2_def
  by (intro spec_rules fat_ty TrueI) (use slot_inside [of clust] in \<open>auto simp: fat_shape_def rd32_def wr32_def\<close>)

lemma put_fat_ty [fat_ty]: "spec t (\<lambda>_. True) (put_fat p clust val)"
  unfolding put_fat_def by (intro spec_rules fat_ty TrueI)

lemma remove_loop_ty [fat_ty]: "spec False (\<lambda>_. True) (remove_loop p clust)"
proof (rule spec_partial)
  fix s y assume r: "remove_loop p clust s = Some (y :: (int + unit) \<times> 'd fat_state)"
  show "fine (\<lambda>_. True) s y"
  proof (rule remove_loop.raw_induct [where P = "\<lambda>_ _. fine (\<lambda>_. True)", OF _ r], goal_cases)
    case (1 f p clust s y)
    have [fat_ty]: "spec False (\<lambda>_. True) (f p c)" for p c using 1(1) by (rule spec_partial)
    show ?case
      by (rule bind_outcome [OF 1(2)]) (intro spec_rules fat_ty spec_bind [OF get_fat_ty] TrueI; simp add: fat_shape_def)
  qed
qed

lemma remove_chain_ty [fat_ty]: "spec False (\<lambda>_. True) (remove_chain p clust)"
  unfolding remove_chain_def by (intro spec_rules fat_ty TrueI)

lemma scan_free_ty [fat_ty]: "spec False (\<lambda>_. True) (scan_free p clust flags)"
proof (rule spec_partial)
  fix s y assume r: "scan_free p clust flags s = Some (y :: (int + 32 word) \<times> 'd fat_state)"
  show "fine (\<lambda>_. True) s y"
  proof (rule scan_free.raw_induct [where P = "\<lambda>_ _ _. fine (\<lambda>_. True)", OF _ r], goal_cases)
    case (1 f p clust flags s y)
    let ?c = "next_cluster (fs_fats s p) clust"
    have g: "fine (\<lambda>_. True) s z" if "get_fat p ?c s = Some z" for z using that get_fat_ty by (rule spec_outcome)
    show ?case
    proof (cases "?c = f_last_used (fs_fats s p)")
      case True
      then show ?thesis using 1(2) by (auto simp: Let_def fine_def)
    next
      case False
      then obtain q t where z: "get_fat p ?c s = Some (q, t)" using 1(2) by (auto simp: Let_def split: Option.bind_splits)
      show ?thesis using 1(2) False z g [OF z] 1(1) by (cases q; cases y) (auto simp: fine_def Let_def split: option.splits if_splits)
    qed
  qed
qed

lemma stretch_chain_ty [fat_ty]: "spec False (\<lambda>_. True) (stretch_chain p prev)"
  unfolding stretch_chain_def
  by (intro spec_rules fat_ty spec_bind [where Q = "\<lambda>_. True"] TrueI; simp add: fat_shape_def)

lemma create_chain_ty [fat_ty]: "spec False (\<lambda>_. True) (create_chain p)"
  unfolding create_chain_def by (rule stretch_chain_ty)

lemma clear_sectors_ty [fat_ty]: "spec t (\<lambda>_. True) (clear_sectors p n sect)"
  by (induction n arbitrary: sect) (simp_all, (intro spec_rules fat_ty TrueI; simp add: fat_shape_def)+)

lemma clust_clear_ty [fat_ty]: "spec t (\<lambda>_. True) (clust_clear p clust)"
  unfolding clust_clear_def by (intro spec_rules fat_ty) simp_all

subsection \<open>Directories\<close>

lemma dir_at_clust_ty [fat_ty]: "spec False (\<lambda>_. True) (dir_at_clust q clust)"
  unfolding dir_at_clust_def by (intro spec_rules) (simp add: entry_start_def)

lemma dir_enter_ty [fat_ty]: "spec False (\<lambda>_. True) (dir_enter q clust)"
  unfolding dir_enter_def by (intro spec_rules fat_ty) simp

text \<open>In the middle of the function the position is at the end of the sector.\<close>

definition next_sector :: "dir_handle \<Rightarrow> (unit, 'd) fat_op" where
  "next_sector q = fs_bind (dir_fat q) (\<lambda>p. fs_bind (the_fat p) (\<lambda>fat. fs_bind (the_dir q) (\<lambda>d1.
     if d_sect d1 AND f_clust_msk fat \<noteq> 0 then fs_return ()
     else fs_bind (get_fat p (d_clust d1)) (\<lambda>(nxt, flags).
       if flags AND (CLUST_BAD OR CLUST_FREE) \<noteq> 0 then fs_fail FAT_ERR_BROKEN
       else if flags AND CLUST_LAST \<noteq> 0 then fs_fail FAT_ERR_EOF
       else dir_at_clust q nxt))))"

lemma dir_next_steps:
  "dir_next q = fs_bind (the_dir q) (\<lambda>dr.
     if d_idx dr + 32 < 512 then fs_modify (upd_dir q (\<lambda>_. dr\<lparr>d_idx := d_idx dr + 32\<rparr>))
     else fs_then (fs_modify (upd_dir q (\<lambda>_. dr\<lparr>d_idx := 0, d_sect := d_sect dr + 1\<rparr>))) (next_sector q))" (is "_ = ?n")
proof
  fix s :: "'a fat_state"
  have a: "upd_dir q (\<lambda>dr. dr\<lparr>d_idx := 0, d_sect := d_sect dr + 1\<rparr>) (upd_dir q (\<lambda>dr. dr\<lparr>d_idx := d_idx dr + 32\<rparr>) s) =
    upd_dir q (\<lambda>_. (fs_dirs s q)\<lparr>d_idx := 0, d_sect := d_sect (fs_dirs s q) + 1\<rparr>) s" by (simp add: upd_dir_def)
  have b: "upd_dir q (\<lambda>dr. dr\<lparr>d_idx := d_idx dr + 32\<rparr>) s = upd_dir q (\<lambda>_. (fs_dirs s q)\<lparr>d_idx := d_idx (fs_dirs s q) + 32\<rparr>) s"
    by (simp add: upd_dir_def)
  show "dir_next q s = ?n s"
  proof (cases "d_idx (fs_dirs s q) + 32 < 512")
    case True
    then show ?thesis unfolding dir_next_def by (simp add: fat_run b)
  next
    case False
    then show ?thesis unfolding dir_next_def next_sector_def [symmetric] by (simp add: fat_run a)
  qed
qed

lemma entry_step: "entry_start i \<Longrightarrow> i + 32 < 512 \<Longrightarrow> entry_start (i + 32)"
proof -
  assume i: "entry_start i" "i + 32 < 512"
  then have "unat (i + 32) = unat i + 32" by (auto simp: entry_start_def unat_word_ariths)
  then show ?thesis using i by (auto simp: entry_start_def word_less_nat_alt)
qed

lemma dir_next_ty [fat_ty]: "spec False (\<lambda>_. True) (dir_next q)"
  unfolding dir_next_steps next_sector_def
  by (intro spec_rules fat_ty spec_bind [OF get_fat_ty] TrueI) (simp add: entry_step, simp add: entry_start_def)

lemma dir_advance_ty [fat_ty]: "spec False (\<lambda>_. True) (dir_advance q n)"
  by (induction n) (simp_all, (intro spec_rules fat_ty TrueI)+)

lemma dir_next_stretch_ty [fat_ty]: "spec False (\<lambda>_. True) (dir_next_stretch q)"
  unfolding dir_next_stretch_def
  by (intro spec_rules fat_ty spec_bind [OF spec_code [OF dir_next_ty]] spec_bind [OF stretch_chain_ty] TrueI)

subsection \<open>Entries\<close>

abbreviation (input) has_entry :: "8 word list \<Rightarrow> bool" where "has_entry e \<equiv> 32 \<le> length e"

lemma entry_room: "entry_start i \<Longrightarrow> unat i + 32 \<le> 512"
  by (auto simp: entry_start_def dvd_def)

lemma dir_ptr_ty: "spec False has_entry (dir_ptr q)"
  unfolding dir_ptr_def by (intro spec_rules) (use entry_room in \<open>fastforce simp: fat_shape_def\<close>)

lemma load_entry_ty: "spec False has_entry (load_entry q)"
  unfolding load_entry_def by (intro spec_rules fat_ty dir_ptr_ty)

lemma poke_sector_ty:
  assumes "i \<le> 512" "\<And>e. length e = 512 - i \<Longrightarrow> g e = None \<Longrightarrow> \<not> t" "\<And>e e'. g e = Some e' \<Longrightarrow> length e' = length e"
  shows "spec t (\<lambda>_. True) (poke_sector p i g)"
  unfolding poke_sector_def
  by (intro spec_rules fat_ty, erule assms(2) [rotated]) (use assms(1,3) in \<open>auto simp: fat_shape_def\<close>)

lemma poke_entry_ty: "(\<And>e e'. g e = Some e' \<Longrightarrow> length e' = length e) \<Longrightarrow> spec False (\<lambda>_. True) (poke_entry q g)"
  unfolding poke_entry_def by (intro spec_rules poke_sector_ty) (use entry_room in force)+

lemma put_units_length: "put_units ks us raw = Some r \<Longrightarrow> length r = length raw"
  by (induction ks arbitrary: us raw) (auto split: list.splits prod.splits Option.bind_splits dest!: wr_length)

lemma lfn_entry_length: "lfn_entry name len crc head i e = Some e' \<Longrightarrow> length e' = length e"
  by (auto simp: lfn_entry_def put_lfn_name_frag_def split: Option.bind_splits if_splits dest!: wr_length put_units_length)

lemma sfn_entry_length: "sfn_entry nm clust attr e = Some e' \<Longrightarrow> length e' = length e"
  by (auto simp: sfn_entry_def split: Option.bind_splits if_splits prod.splits dest!: wr_length)

lemma stamp_entry_length: "stamp_entry fl e = Some e' \<Longrightarrow> length e' = length e"
  by (auto simp: stamp_entry_def split: Option.bind_splits if_splits prod.splits dest!: wr_length)

lemma dot_entry_length: "dot_entry clust e = Some e' \<Longrightarrow> length e' = length e"
  by (auto simp: dot_entry_def split: Option.bind_splits if_splits prod.splits dest!: wr_length)

lemma dotdot_entry_length: "dotdot_entry parent e = Some e' \<Longrightarrow> length e' = length e"
  by (auto simp: dotdot_entry_def split: Option.bind_splits if_splits prod.splits dest!: wr_length)

lemma parse_frag_length: "parse_frag raw ks pos g len = Some (broken, g', len') \<Longrightarrow> length g' = length g"
  by (induction ks arbitrary: pos g len) (auto split: Option.bind_splits if_splits dest!: wr_length)

lemma lfn_loop_ty [fat_ty]: "spec False (\<lambda>_. True) (lfn_loop q n)"
proof (induction n)
  case (Suc n)
  have m: "spec False (\<lambda>_. True) (fs_modify (\<lambda>s. s\<lparr>fs_buf := g, fs_len := len\<rparr>))" if "length g = 512" for g len
    by (rule spec_modify) (use that in \<open>simp add: fat_typed_def\<close>)
  show ?case unfolding lfn_loop.simps
    by (intro spec_rules fat_ty Suc.IH spec_bind [OF dir_ptr_ty] spec_bind [OF load_entry_ty] m) (auto simp: typedD(4) dest!: parse_frag_length)
qed (simp add: spec_return)

lemma parse_lfn_name_ty [fat_ty]: "spec False (\<lambda>_. True) (parse_lfn_name q)"
  unfolding parse_lfn_name_def
  by (intro spec_rules fat_ty spec_bind [OF load_entry_ty] spec_modify TrueI) (simp_all add: fat_typed_def)

lemma parse_sfn_name_ty [fat_ty]: "spec False (\<lambda>_. True) (parse_sfn_name sfn)"
  unfolding parse_sfn_name_def
  by (intro spec_rules spec_modify spec_lift) (auto simp: fat_typed_def)

subsection \<open>Search and paths\<close>

lemma set_loc_ty [fat_ty]: "spec t (\<lambda>_. True) (set_loc q)"
  unfolding set_loc_def by (intro spec_rules spec_modify) (auto simp: fat_typed_def)

lemma search_loop_ty [fat_ty]: "spec False (\<lambda>_. True) (search_loop q name len sfn_name with_loc)"
proof (rule spec_partial)
  fix s y assume r: "search_loop q name len sfn_name with_loc s = Some (y :: (int + unit) \<times> 'd fat_state)"
  show "fine (\<lambda>_. True) s y"
  proof (rule search_loop.raw_induct [where P = "\<lambda>_ _ _ _ _. fine (\<lambda>_. True)", OF _ r], goal_cases)
    case (1 f q name len sfn_name with_loc s y)
    have [fat_ty]: "spec False (\<lambda>_. True) (f q name len sfn_name with_loc)" for q name len sfn_name with_loc using 1(1) by (rule spec_partial)
    show ?case
      by (rule bind_outcome [OF 1(2)]) (intro spec_rules fat_ty spec_bind [OF load_entry_ty] spec_bind [OF dir_ptr_ty] TrueI; simp)
  qed
qed

lemma dir_search_ty [fat_ty]: "spec False (\<lambda>_. True) (dir_search q name len with_loc)"
  unfolding dir_search_def by (intro spec_rules fat_ty) simp

lemma dir_at_root_ty: "spec False (\<lambda>_. True) (dir_at_root q)"
  unfolding dir_at_root_def by (intro spec_rules TrueI)

lemma find_volume_ty: "spec False (\<lambda>_. True) (find_volume name len it)"
proof (rule spec_partial)
  fix s y assume r: "find_volume name len it s = Some (y :: (int + nat option) \<times> 'd fat_state)"
  have "snd y = s"
  proof (rule find_volume.raw_induct [where P = "\<lambda>_ _ _ s y. snd y = s", OF _ r], goal_cases)
    case (1 f name len it s y)
    then show ?case by (auto simp: Let_def split: option.splits if_splits Option.bind_splits)
  qed
  then show "fine (\<lambda>_. True) s y" by (simp add: fine_def)
qed

lemma find_fat_volume_ty: "spec False (\<lambda>_. True) (find_fat_volume name len)"
  unfolding find_fat_volume_def by (intro spec_rules find_volume_ty)

lemma follow_loop_ty: "spec False (\<lambda>_. True) (follow_loop q with_loc dir_clust dir_enterable str)"
proof (induction q with_loc dir_clust dir_enterable str rule: follow_loop.induct)
  case (1 q with_loc dir_clust dir_enterable str)
  show ?case
    by (subst follow_loop.simps) (intro spec_rules fat_ty spec_bind [OF spec_code [OF dir_search_ty]] spec_bind [OF dir_ptr_ty] spec_lift TrueI 1; simp)
qed

lemma follow_path_ty: "spec False (\<lambda>_. True) (follow_path q with_loc path)"
  unfolding follow_path_def
  by (intro spec_rules fat_ty spec_bind [OF find_fat_volume_ty] follow_loop_ty spec_lift TrueI) simp_all

subsection \<open>Adding and removing entries\<close>

lemma rewind_to_ty [fat_ty]: "entry_start idx \<Longrightarrow> spec False (\<lambda>_. True) (rewind_to q sect idx)"
  unfolding rewind_to_def by (intro spec_rules) simp

lemma remove_entries_loop_ty [fat_ty]: "spec False (\<lambda>_. True) (remove_entries_loop q sect idx)"
proof (rule spec_partial)
  fix s y assume r: "remove_entries_loop q sect idx s = Some (y :: (int + unit) \<times> 'd fat_state)"
  show "fine (\<lambda>_. True) s y"
  proof (rule remove_entries_loop.raw_induct [where P = "\<lambda>_ _ _. fine (\<lambda>_. True)", OF _ r], goal_cases)
    case (1 f q sect idx s y)
    have [fat_ty]: "spec False (\<lambda>_. True) (f q sect idx)" for q sect idx using 1(1) by (rule spec_partial)
    show ?case
      by (rule bind_outcome [OF 1(2)]) (intro spec_rules fat_ty spec_bind [OF load_entry_ty] poke_entry_ty TrueI; erule wr_length)
  qed
qed

lemma remove_entries_ty [fat_ty]: "spec False (\<lambda>_. True) (remove_entries q)"
  unfolding remove_entries_def by (intro spec_rules fat_ty) (auto dest: typedD(5))

lemma find_slots_ty: "entry_start idx \<Longrightarrow> spec False (\<lambda>(eod, sect, idx). entry_start idx) (find_slots q need cnt eod sect idx)"
proof (rule spec_partial)
  let ?R = "\<lambda>(eod :: bool, sect :: 32 word, idx). entry_start idx"
  fix s y assume i: "entry_start idx" and r: "find_slots q need cnt eod sect idx s = Some (y :: (int + bool \<times> 32 word \<times> 16 word) \<times> 'd fat_state)"
  have "entry_start idx \<longrightarrow> fine ?R s y"
  proof (rule find_slots.raw_induct [where P = "\<lambda>_ _ _ _ _ idx s y. entry_start idx \<longrightarrow> fine ?R s y", OF _ r], goal_cases)
    case (1 f q need cnt eod sect idx s y)
    have f: "spec False ?R (f q need cnt eod sect idx)" if "entry_start idx" for q need cnt eod sect idx
      by (rule spec_partial) (use 1(1) that in blast)
    show ?case
      by (intro impI, rule if_outcome [OF 1(2)]) (intro spec_rules fat_ty f spec_bind [OF load_entry_ty]; simp)
  qed
  then show "fine ?R s y" using i by simp
qed

lemma add_lfns_ty [fat_ty]: "spec False (\<lambda>_. True) (add_lfns q name len crc head n)"
proof (induction n arbitrary: head)
  case (Suc n)
  show ?case unfolding add_lfns.simps
    by (intro spec_rules fat_ty Suc.IH spec_bind [OF load_entry_ty] poke_entry_ty) (erule lfn_entry_length)
qed (simp add: spec_return)

lemma dir_add_ty [fat_ty]: "spec False (\<lambda>_. True) (dir_add q name len attr clust)"
  unfolding dir_add_def
  by (intro spec_rules fat_ty spec_bind [OF find_slots_ty] spec_bind [OF load_entry_ty] poke_entry_ty)
    (auto simp: entry_start_def dest: wr_length sfn_entry_length)

subsection \<open>Volumes\<close>

lemma set_g_buf: "length b = 512 \<Longrightarrow> spec t (\<lambda>_. True) (fs_modify (fs_buf_update (\<lambda>_. b)))"
  by (rule spec_modify) (simp add: fat_typed_def)

lemma read_global_ty: "reads_sectors ops \<Longrightarrow> spec t (\<lambda>_. True) (read_global ops sect)"
  unfolding read_global_def by (intro spec_rules disk_read_ty set_g_buf TrueI) (auto dest: typedD(4))

lemma probe_ty: "reads_sectors ops \<Longrightarrow> spec False (\<lambda>_. True) (probe ops part)"
  unfolding probe_def by (intro spec_rules spec_bind [OF read_global_ty] TrueI) simp_all

lemma set_geometry_shape: "set_geometry bpb lba fat = Some f \<Longrightarrow> fat_shape fat \<Longrightarrow> fat_shape f"
  by (auto simp: set_geometry_def fat_shape_def Let_def split: Option.bind_splits)

lemma byte_strlen_inside: "byte_strlen cs = Some n \<Longrightarrow> n < length cs"
  by (induction cs arbitrary: n) (auto split: if_splits)

lemma name_shape:
  assumes "byte_strlen name = Some n" "n \<le> 32" "reads_sectors ops" "fat_shape f"
  shows "fat_shape (f\<lparr>f_name := take n name @ drop n (f_name f), f_name_len := of_nat n, f_ops := ops, f_sect := 0\<rparr>)"
proof -
  have "(of_nat n :: 8 word) \<le> of_nat 32" using assms(2) by (simp add: word_le_nat_alt unat_of_nat)
  then show ?thesis using assms byte_strlen_inside [OF assms(1)] by (simp add: fat_shape_def)
qed

lemma fat_mount_ty: "reads_sectors ops \<Longrightarrow> spec False (\<lambda>_. True) (fat_mount ops part p name)"
  unfolding fat_mount_def
  by (intro spec_rules spec_bind [OF probe_ty] spec_bind [OF read_global_ty] spec_modify)
    (auto simp: set_geometry_shape name_shape, auto simp: fat_typed_def fat_shape_def)

lemma find_link_ty: "spec False (\<lambda>_. True) (find_link p link it)"
proof (rule spec_partial)
  fix s y assume r: "find_link p link it s = Some (y :: (int + nat option) \<times> 'd fat_state)"
  have "snd y = s"
  proof (rule find_link.raw_induct [where P = "\<lambda>_ _ _ s y. snd y = s", OF _ r], goal_cases)
    case (1 f p link it s y)
    then show ?case by (auto split: option.splits if_splits)
  qed
  then show "fine (\<lambda>_. True) s y" by (simp add: fine_def)
qed

lemma fat_umount_ty: "spec False (\<lambda>_. True) (fat_umount p)"
  unfolding fat_umount_def
  by (intro spec_rules fat_ty spec_bind [OF find_link_ty] spec_modify) (auto simp: fat_typed_def fat_shape_def)

subsection \<open>Files\<close>

lemma seek_loop_ty [fat_ty]: "spec False (\<lambda>_. True) (seek_loop a p n)"
proof (induction n)
  case (Suc n)
  show ?case unfolding seek_loop.simps
    by (intro spec_rules fat_ty Suc.IH spec_bind [where Q = "\<lambda>_. True"] TrueI) (simp add: file_shape_def)
qed (simp add: spec_return)

lemma refill_ty [fat_ty]: "spec t (\<lambda>_. True) (refill a p ssect)"
  unfolding refill_def
  by (intro spec_rules spec_bind [OF disk_write_ty] disk_read_ty TrueI) (auto simp: file_shape_def fat_shape_def)

lemma fat_file_seek_ty [fat_ty]: "spec False (\<lambda>_. True) (fat_file_seek a offset sk)"
  unfolding fat_file_seek_def Let_def
  by (intro spec_rules fat_ty spec_lift) (auto simp: file_shape_def)

lemma read_loop_ty: "spec False (\<lambda>_. True) (read_loop a len acc)"
proof (rule spec_partial)
  fix s y assume r: "read_loop a len acc s = Some (y :: (int + int \<times> 8 word list) \<times> 'd fat_state)"
  show "fine (\<lambda>_. True) s y"
  proof (rule read_loop.raw_induct [where P = "\<lambda>_ _ _. fine (\<lambda>_. True)", OF _ r], goal_cases)
    case (1 f a len acc s y)
    have [fat_ty]: "spec False (\<lambda>_. True) (f a len acc)" for a len acc using 1(1) by (rule spec_partial)
    show ?case
      by (rule bind_outcome [OF 1(2)]) (intro spec_rules fat_ty spec_bind [OF spec_code [OF fat_file_seek_ty]] TrueI; simp)
  qed
qed

lemma fat_file_read_ty: "spec False (\<lambda>_. True) (fat_file_read a len)"
  unfolding fat_file_read_def by (intro spec_rules read_loop_ty TrueI) (simp add: file_shape_def)

text \<open>The chunk is stored in the file it was computed for.\<close>

lemma store_chunk_in_place:
  "fs_bind (the_file a) (\<lambda>fl. if b then fs_bind (fs_lift (write_chunk fl src len)) (\<lambda>cnt.
      fs_then (fs_modify (upd_file a (store_chunk src cnt))) (k cnt)) else m) =
   fs_bind (the_file a) (\<lambda>fl. if b then fs_bind (fs_lift (write_chunk fl src len)) (\<lambda>cnt.
      fs_then (fs_modify (upd_file a (\<lambda>_. store_chunk src cnt fl))) (k cnt)) else m)" (is "?l = ?r")
proof
  fix s :: "'a fat_state"
  show "?l s = ?r s" by (cases "write_chunk (fs_files s a) src len") (simp_all add: fat_run upd_file_def)
qed

lemma store_chunk_shape: "write_chunk fl src len = Some cnt \<Longrightarrow> file_shape fl \<Longrightarrow> file_shape (store_chunk src cnt fl)"
  by (auto simp: write_chunk_def store_chunk_def file_shape_def Let_def split: if_splits)

lemma write_loop_ty: "spec False (\<lambda>_. True) (write_loop a src len written)"
proof (rule spec_partial)
  fix s y assume r: "write_loop a src len written s = Some (y :: (int + int) \<times> 'd fat_state)"
  show "fine (\<lambda>_. True) s y"
  proof (rule write_loop.raw_induct [where P = "\<lambda>_ _ _ _. fine (\<lambda>_. True)", OF _ r], goal_cases)
    case (1 f a src len written s y)
    have [fat_ty]: "spec False (\<lambda>_. True) (f a src len written)" for a src len written using 1(1) by (rule spec_partial)
    show ?case
      by (rule bind_outcome [OF 1(2) [unfolded store_chunk_in_place]])
        (intro spec_rules fat_ty spec_bind [OF spec_code [OF fat_file_seek_ty]] TrueI; simp add: store_chunk_shape)
  qed
qed

lemma fat_file_write_ty: "spec False (\<lambda>_. True) (fat_file_write a src len)"
  unfolding fat_file_write_def by (intro spec_rules spec_bind [OF write_loop_ty] TrueI) (simp_all add: file_shape_def)

lemma stamp_entry_some: "32 \<le> length e \<Longrightarrow> stamp_entry fl e \<noteq> None"
  by (auto simp: stamp_entry_def wr8_def wr16_def wr32_def rd8_def split: prod.splits)

lemma fat_file_sync_ty [fat_ty]: "spec t (\<lambda>_. True) (fat_file_sync a)"
  unfolding fat_file_sync_def
proof (intro spec_rules fat_ty spec_bind [OF disk_write_ty] poke_sector_ty)
  fix fl e assume "file_shape fl" "length (e :: 8 word list) = 512 - unat (fl_dir_idx fl)" "stamp_entry fl e = None"
  moreover then have "32 \<le> length e" using entry_room [of "fl_dir_idx fl"] by (simp add: file_shape_def)
  ultimately show "\<not> t" using stamp_entry_some by blast
qed (auto simp: file_shape_def dest: entry_room stamp_entry_length)

lemma fat_file_close_ty: "spec t (\<lambda>_. True) (fat_file_close a)"
  unfolding fat_file_close_def by (intro spec_rules fat_ty)

lemma open_entry_ty [fat_ty]: "spec False (\<lambda>_. True) (open_entry a flags)"
  unfolding open_entry_def by (intro spec_rules spec_bind [OF dir_ptr_ty]) (auto simp: file_shape_def)

lemma create_file_ty [fat_ty]: "spec False (\<lambda>_. True) (create_file path)"
  unfolding create_file_def by (intro spec_rules fat_ty spec_bind [OF create_chain_ty]) simp

lemma fat_file_open_ty: "spec False (\<lambda>_. True) (fat_file_open a path flags)"
  unfolding fat_file_open_def by (intro spec_rules fat_ty spec_bind [OF follow_path_ty]) simp

subsection \<open>Directories and paths of the callers\<close>

lemma fat_dir_create_ty: "spec False (\<lambda>_. True) (fat_dir_create q path)"
  unfolding fat_dir_create_def
  by (intro spec_rules fat_ty spec_bind [OF follow_path_ty] spec_bind [OF create_chain_ty] poke_sector_ty TrueI)
    (auto dest: dot_entry_length dotdot_entry_length)

lemma fat_dir_open_ty: "spec False (\<lambda>_. True) (fat_dir_open q path)"
  unfolding fat_dir_open_def
  by (intro spec_rules fat_ty spec_bind [OF follow_path_ty] spec_bind [OF dir_at_root_ty] spec_bind [OF load_entry_ty] TrueI) simp_all

lemma fill_info_ty: "spec False (\<lambda>_. True) (fill_info sfn info)"
  unfolding fill_info_def by (intro spec_rules spec_lift TrueI) simp

lemma dir_read_loop_ty: "spec False (\<lambda>_. True) (dir_read_loop q info)"
proof (rule spec_partial)
  fix s y assume r: "dir_read_loop q info s = Some (y :: (int + DirInfo) \<times> 'd fat_state)"
  show "fine (\<lambda>_. True) s y"
  proof (rule dir_read_loop.raw_induct [where P = "\<lambda>_ _. fine (\<lambda>_. True)", OF _ r], goal_cases)
    case (1 f q info s y)
    have [fat_ty]: "spec False (\<lambda>_. True) (f q info)" for q info using 1(1) by (rule spec_partial)
    show ?case
      by (rule bind_outcome [OF 1(2)]) (intro spec_rules fat_ty spec_bind [OF load_entry_ty] fill_info_ty TrueI; simp)
  qed
qed

lemma fat_dir_read_ty [fat_ty]: "spec False (\<lambda>_. True) (fat_dir_read q info)"
  unfolding fat_dir_read_def by (intro spec_rules dir_read_loop_ty)

lemma fat_dir_next_ty: "spec False (\<lambda>_. True) (fat_dir_next q)"
  unfolding fat_dir_next_def by (intro spec_rules fat_ty)

lemma fat_dir_rewind_ty: "spec False (\<lambda>_. True) (fat_dir_rewind q)"
  unfolding fat_dir_rewind_def by (intro spec_rules fat_ty)

lemma forget_loc: "spec t (\<lambda>_. True) (fs_modify (fs_loc_update (\<lambda>_. None)))"
  by (rule spec_modify) (simp add: fat_typed_def)

lemma fat_stat_ty: "spec False (\<lambda>_. True) (fat_stat path info)"
  unfolding fat_stat_def
  by (intro spec_rules fat_ty forget_loc spec_bind [OF follow_path_ty]) (auto dest: typedD(5))

lemma empty_loop_ty [fat_ty]: "spec False (\<lambda>_. True) (empty_loop q)"
proof (rule spec_partial)
  fix s y assume r: "empty_loop q s = Some (y :: (int + unit) \<times> 'd fat_state)"
  show "fine (\<lambda>_. True) s y"
  proof (rule empty_loop.raw_induct [where P = "\<lambda>_. fine (\<lambda>_. True)", OF _ r], goal_cases)
    case (1 f q s y)
    have [fat_ty]: "spec False (\<lambda>_. True) (f q)" for q using 1(1) by (rule spec_partial)
    show ?case
      by (rule bind_outcome [OF 1(2)]) (intro spec_rules fat_ty spec_bind [OF load_entry_ty] TrueI; simp)
  qed
qed

lemma fat_unlink_ty: "spec False (\<lambda>_. True) (fat_unlink path)"
  unfolding fat_unlink_def
  by (intro spec_rules fat_ty forget_loc spec_bind [OF follow_path_ty] spec_bind [OF dir_at_root_ty] spec_bind [OF dir_ptr_ty]) simp_all

subsection \<open>Calls of the library\<close>

text \<open>One call of a public function, with any arguments and any outcome.\<close>

inductive fat_call :: "'d fat_state \<Rightarrow> 'd fat_state \<Rightarrow> bool" where
  probe_call: "reads_sectors ops \<Longrightarrow> fat_probe ops part s = Some (r, t) \<Longrightarrow> fat_call s t"
| mount_call: "reads_sectors ops \<Longrightarrow> fat_mount ops part p name s = Some (r, t) \<Longrightarrow> fat_call s t"
| umount_call: "fat_umount p s = Some (r, t) \<Longrightarrow> fat_call s t"
| sync_call: "fat_sync p s = Some (r, t) \<Longrightarrow> fat_call s t"
| file_open_call: "fat_file_open a path flags s = Some (r, t) \<Longrightarrow> fat_call s t"
| file_close_call: "fat_file_close a s = Some (r, t) \<Longrightarrow> fat_call s t"
| file_read_call: "fat_file_read a len s = Some (r, t) \<Longrightarrow> fat_call s t"
| file_write_call: "fat_file_write a src len s = Some (r, t) \<Longrightarrow> fat_call s t"
| file_seek_call: "fat_file_seek a offset sk s = Some (r, t) \<Longrightarrow> fat_call s t"
| file_sync_call: "fat_file_sync a s = Some (r, t) \<Longrightarrow> fat_call s t"
| dir_create_call: "fat_dir_create q path s = Some (r, t) \<Longrightarrow> fat_call s t"
| dir_open_call: "fat_dir_open q path s = Some (r, t) \<Longrightarrow> fat_call s t"
| dir_read_call: "fat_dir_read q info s = Some (r, t) \<Longrightarrow> fat_call s t"
| dir_next_call: "fat_dir_next q s = Some (r, t) \<Longrightarrow> fat_call s t"
| dir_rewind_call: "fat_dir_rewind q s = Some (r, t) \<Longrightarrow> fat_call s t"
| stat_call: "fat_stat path info s = Some (r, t) \<Longrightarrow> fat_call s t"
| unlink_call: "fat_unlink path s = Some (r, t) \<Longrightarrow> fat_call s t"

lemma fat_probe_ty: "reads_sectors ops \<Longrightarrow> spec False (\<lambda>_. True) (fat_probe ops part)"
  unfolding fat_probe_def by (intro spec_rules spec_bind [OF probe_ty] TrueI)

lemma fat_sync_ty: "spec t (\<lambda>_. True) (fat_sync p)"
  unfolding fat_sync_def by (rule sync_fs_ty)

lemma spec_call: "spec b R m \<Longrightarrow> m s = Some (r, t) \<Longrightarrow> fat_typed s \<Longrightarrow> fat_typed t"
  unfolding spec_def by fastforce

lemma spec_defined: "spec True R m \<Longrightarrow> fat_typed s \<Longrightarrow> \<exists>r t. m s = Some (r, t)"
  unfolding spec_def by (cases "m s") auto

lemmas call_rules = spec_call [OF fat_probe_ty] spec_call [OF fat_mount_ty] spec_call [OF fat_umount_ty] spec_call [OF fat_sync_ty]
  spec_call [OF fat_file_open_ty] spec_call [OF fat_file_close_ty] spec_call [OF fat_file_read_ty] spec_call [OF fat_file_write_ty]
  spec_call [OF fat_file_seek_ty] spec_call [OF fat_file_sync_ty] spec_call [OF fat_dir_create_ty] spec_call [OF fat_dir_open_ty]
  spec_call [OF fat_dir_read_ty] spec_call [OF fat_dir_next_ty] spec_call [OF fat_dir_rewind_ty] spec_call [OF fat_stat_ty] spec_call [OF fat_unlink_ty]

lemma fat_call_typed: "fat_call s t \<Longrightarrow> fat_typed s \<Longrightarrow> fat_typed t"
  by (induction rule: fat_call.induct) (erule (2) call_rules | erule (1) call_rules)+

lemma fat_calls_typed: "fat_call\<^sup>*\<^sup>* s t \<Longrightarrow> fat_typed s \<Longrightarrow> fat_typed t"
  by (induction rule: rtranclp_induct) (auto dest: fat_call_typed)


definition typed_volume :: "ram_disk fat_state" where
  "typed_volume = (volume_on ram_ops demo_sectors)\<lparr>fs_buf := replicate 512 0, fs_fats := (\<lambda>_. (demo_fat ram_ops)\<lparr>f_name := replicate 32 0, f_flags := 1\<rparr>)\<rparr>"

lemma ram_reads_sectors: "reads_sectors ram_ops"
  by (auto simp: reads_sectors_def ram_ops_def ram_content_def min_def)

lemma typed_volume_typed: "fat_typed typed_volume"
  by (simp add: fat_typed_def typed_volume_def volume_on_def fat_shape_def demo_fat_def demo_fat_table_def ram_reads_sectors file_shape_def
      demo_file_def demo_dir_def entry_start_def)


end
