(* ===== verification/Programs.thy ===== *)
theory Programs
  imports Shell_Commands
begin

section \<open>User programs\<close>

text \<open>
  The first user process (\<^verbatim>\<open>user/user.c\<close>) and the programs of \<^verbatim>\<open>app/\<close> beside the shell, over the record of system calls extended with the
  calls the shell does not use. \<open>Gone\<close> is the state at which the process has exited or has been replaced, \<open>Continue\<close> that in which
  the function returns. Uninitialised local arrays are parameters.
\<close>

record 'w program_api = "'w user_api" +
  u_yield :: "'w \<Rightarrow> 'w"
  u_send_message :: "int \<Rightarrow> string \<Rightarrow> 'w \<Rightarrow> int \<times> 'w"
  u_receive_message :: "char list \<Rightarrow> 'w \<Rightarrow> char list \<times> 'w"
  u_send_signal :: "int \<Rightarrow> nat \<Rightarrow> 'w \<Rightarrow> int \<times> 'w"
  u_get_time :: "'w \<Rightarrow> 64 word \<times> 'w"

subsection \<open>The first process\<close>

definition init_process_main :: "'w program_api \<Rightarrow> 'w \<Rightarrow> ('w, 'w) flow" where
  "init_process_main A w = (case u_fork A w of (pid, w1) \<Rightarrow>
     if pid = 0
     then case u_exec A ''/bin/shell.bin'' [] w1 of
         (None, w2) \<Rightarrow> Gone w2
       | (Some error, w2) \<Rightarrow> if error \<noteq> 0 then Gone (u_exit A (u_write A (''[INIT] Cannot start shell binary'' @ [LF]) w2)) else Continue w2
     else Gone (u_exit A (snd (u_wait A pid (u_write A (''[INIT] Init process started '' @ [LF]) w1)))))"

subsection \<open>The benchmark\<close>

text \<open>\<^verbatim>\<open>int\<close> arithmetic is undefined on overflow.\<close>

definition add_int :: "int \<Rightarrow> int \<Rightarrow> int option" where
  "add_int x y = (if - (2 ^ 31) \<le> x + y \<and> x + y < 2 ^ 31 then Some (x + y) else None)"

primrec calcolo :: "nat \<Rightarrow> int option" where
  "calcolo 0 = Some 0"
| "calcolo (Suc i) = do {
     c \<leftarrow> calcolo i;
     c1 \<leftarrow> add_int c (int i);
     Some (c1 XOR int (i mod 3))
   }"

partial_function (option) count_out :: "64 word \<Rightarrow> 64 word \<Rightarrow> int \<Rightarrow> (64 word \<times> int) option" where
  "count_out divisor num count =
     (if divisor \<le> num then Option.bind (add_int count 1) (count_out divisor (num - divisor)) else Some (num, count))"

definition divisors :: "64 word list" where
  "divisors = [1000000000, 100000000, 10000000, 1000000, 100000, 10000, 1000, 100, 10, 1]"

fun print_digits :: "64 word list \<Rightarrow> 64 word \<Rightarrow> bool \<Rightarrow> char list \<Rightarrow> int \<Rightarrow> (char list \<times> int) option" where
  "print_digits [] num started buffer i = Some (buffer, i)"
| "print_digits (d # ds) num started buffer i = do {
     (num1, count) \<leftarrow> count_out d num 0;
     if count > 0 \<or> started
     then do {
       b \<leftarrow> aset buffer i (char_of (nat (count + 48)));
       print_digits ds num1 True b (i + 1)
     }
     else print_digits ds num1 started buffer i
   }"

definition print_int :: "'w program_api \<Rightarrow> char list \<Rightarrow> 64 word \<Rightarrow> 'w \<Rightarrow> 'w option" where
  "print_int A garbage num w =
     (if num = 0 then Some (u_write A ''0'' w)
      else do {
        (buffer, i) \<leftarrow> print_digits divisors num False garbage 0;
        buffer1 \<leftarrow> aset buffer i NUL;
        txt \<leftarrow> cstr buffer1;
        Some (u_write A txt w)
      })"

definition benchmark_main :: "'w program_api \<Rightarrow> char list \<Rightarrow> 'w \<Rightarrow> 'w option" where
  "benchmark_main A garbage w = (case u_get_time A w of (start_time, w1) \<Rightarrow> do {
     c \<leftarrow> calcolo 50000000;
     case u_get_time A w1 of (end_time, w2) \<Rightarrow> do {
       w3 \<leftarrow> print_int A garbage (end_time - start_time) (u_write A ''Benchmark completed! Time elapsed (microseconds): '' w2);
       Some (u_exit A (u_write A [LF] w3))
     }
   })"

subsection \<open>Tests\<close>

definition arguments_test_main :: "'w program_api \<Rightarrow> int \<Rightarrow> char list \<Rightarrow> char list \<Rightarrow> 'w \<Rightarrow> 'w option" where
  "arguments_test_main A n_arguments arg1 arg2 w = do {
     let w1 = u_write A ''TEST ARGUMENTS NUMBER (EXPECTED 1) - '' (u_write A (''[TEST]'' @ [LF] @ ''I'' @ [CHR 0x27] @ ''m loaded from the filesystem.'' @ [LF]) w);
     let w2 = (if n_arguments = 1 then u_write A (''SUCCESS'' @ [LF]) w1 else u_write A (''FAIL'' @ [LF]) w1);
     a1 \<leftarrow> cstr arg1;
     let w3 = fold (u_write A) [''Argument 1: '', a1, [LF], ''Argument 2: ''] w2;
     a2 \<leftarrow> cstr arg2;
     Some (u_exit A (fold (u_write A) [a2, [LF]] w3))
   }"

abbreviation (input) NUM_PROCESSES :: nat where "NUM_PROCESSES \<equiv> 4"

primrec start_all :: "'w program_api \<Rightarrow> nat list \<Rightarrow> int list \<Rightarrow> 'w \<Rightarrow> (int list \<times> 'w, 'w) flow" where
  "start_all A [] pids w = Continue (pids, w)"
| "start_all A (i # is) pids w =
     (case spawn_process (user_api.truncate A) ''/bin/benchmark.bin'' (int i + 1) ((int i + 1) * 10) (int i) w of
        Gone w1 \<Rightarrow> Gone w1
      | Continue (pid, w1) \<Rightarrow>
          if pid < 0 then start_all A is pids (u_write A (''[RUN_ALL] Error: unable to start the binary!'' @ [LF]) w1)
          else start_all A is (pids[i := pid]) w1)"

definition run_all_main :: "'w program_api \<Rightarrow> int list \<Rightarrow> 'w \<Rightarrow> ('w, 'w) flow" where
  "run_all_main A garbage w =
     (case start_all A [0..<NUM_PROCESSES] garbage (u_write A (''[RUN_ALL] Starting multiple load test...'' @ [LF]) w) of
        Gone w1 \<Rightarrow> Gone w1
      | Continue (pids, w1) \<Rightarrow>
          (let w2 = u_write A (''[RUN_ALL] All processes started. Waiting for completion...'' @ [LF]) w1;
               w3 = fold (\<lambda>i w. snd (u_wait A (pids ! i) w)) [0..<NUM_PROCESSES] w2
           in Gone (u_exit A (u_write A (''[RUN_ALL] Test completed! All processes have terminated.'' @ [LF]) w3))))"

text \<open>One iteration of the son's loop: the buffer is cleared, filled by the call and printed.\<close>

definition receive_one :: "'w program_api \<Rightarrow> 'w \<Rightarrow> 'w option" where
  "receive_one A w = (case u_receive_message A (zeros 64) w of (buffer, w1) \<Rightarrow> do {
     txt \<leftarrow> cstr buffer;
     Some (fold (u_write A) [''[FATHER] Message received from FATHER: '' @ [CHR 0x27], txt, [CHR 0x27] @ ''.'' @ [LF]] w1)
   })"

primrec receive_times :: "'w program_api \<Rightarrow> nat \<Rightarrow> 'w \<Rightarrow> 'w option" where
  "receive_times A 0 w = Some w"
| "receive_times A (Suc n) w = Option.bind (receive_one A w) (receive_times A n)"

primrec send_all :: "'w program_api \<Rightarrow> int \<Rightarrow> string list \<Rightarrow> 'w \<Rightarrow> 'w" where
  "send_all A pid [] w = w"
| "send_all A pid (m # ms) w = (case u_send_message A pid m w of (ok, w1) \<Rightarrow>
     if ok = -1 then u_write A (''[SON] Error sending message to SON.'' @ [LF]) w1
     else send_all A pid ms (fold (u_write A) [''[SON] Message '' @ [CHR 0x27], m, [CHR 0x27] @ '' sent to SON.'' @ [LF]] w1))"

definition fork_test_main :: "'w program_api \<Rightarrow> 'w \<Rightarrow> 'w option" where
  "fork_test_main A w = (case u_fork A w of (pid, w1) \<Rightarrow>
     if pid = 0 then map_option (u_exit A) (receive_times A 5 (u_yield A w1))
     else
       let w2 = send_all A pid [''hello'', ''world'', ''demoos'', ''is'', ''great!''] (u_write A (''[SON] Sending message to SON'' @ [LF]) w1)
       in Some (u_exit A (u_write A (''[SON] I sent all the messages'' @ [LF]) w2)))"

abbreviation (input) KILL :: nat where "KILL \<equiv> 1"

text \<open>The son of \<^verbatim>\<open>signals_test.c\<close> loops until it is killed: its state after \<open>n\<close> rounds. The father exits.\<close>

primrec signals_son :: "'w program_api \<Rightarrow> nat \<Rightarrow> 'w \<Rightarrow> 'w" where
  "signals_son A 0 w = u_write A (''[SON] Started...'' @ [LF]) w"
| "signals_son A (Suc n) w =
     u_yield A (u_write A (''[SON] I am the son and I'' @ [CHR 0x27] @ ''m using the CPU just for fun'' @ [LF]) (signals_son A n w))"

definition signals_test_main :: "'w program_api \<Rightarrow> nat \<Rightarrow> 'w \<Rightarrow> 'w" where
  "signals_test_main A n w = (case u_fork A w of (pid, w1) \<Rightarrow>
     if pid = 0 then signals_son A n w1
     else u_exit A (u_write A (''[FATHER] I terminate my son.'' @ [LF]) (snd (u_send_signal A pid KILL (u_yield A w1)))))"

subsection \<open>Printing a number\<close>

lemma count_out_total:
  assumes "0 < unat divisor" "0 \<le> count" "count + int (unat num div unat divisor) < 2 ^ 31"
  shows "count_out divisor num count = Some (num mod divisor, count + int (unat num div unat divisor))"
  using assms
proof (induction "unat num" arbitrary: num count rule: less_induct)
  case less
  show ?case
  proof (cases "divisor \<le> num")
    case True
    then have le: "unat divisor \<le> unat num" by (simp add: word_le_nat_alt)
    have u: "unat (num - divisor) = unat num - unat divisor" using True by (rule unat_sub)
    have q: "unat num div unat divisor = Suc (unat (num - divisor) div unat divisor)" unfolding u using less.prems(1) le by (rule le_div_geq)
    have r: "(num - divisor) mod divisor = num mod divisor" by (rule word_unat_eq_iff [THEN iffD2]) (simp only: unat_mod u le le_mod_geq)
    have "add_int count 1 = Some (count + 1)" using less.prems(2,3) q by (simp add: add_int_def)
    moreover have "count_out divisor (num - divisor) (count + 1) = Some ((num - divisor) mod divisor, count + 1 + int (unat (num - divisor) div unat divisor))"
      using less.prems less.hyps [of "num - divisor" "count + 1"] le q u by simp
    ultimately show ?thesis using True q r by (subst count_out.simps) simp
  next
    case False
    then have "unat num < unat divisor" by (simp add: word_le_nat_alt)
    moreover then have "num mod divisor = num" by (simp add: word_unat_eq_iff unat_mod)
    ultimately show ?thesis using False by (subst count_out.simps) simp
  qed
qed

text \<open>The decimal representation, with \<open>k\<close> digits or without leading zeros.\<close>

definition digit :: "nat \<Rightarrow> char" where
  "digit d = char_of (d + 48)"

primrec digits :: "nat \<Rightarrow> nat \<Rightarrow> string" where
  "digits 0 n = []"
| "digits (Suc k) n = digit (n div 10 ^ k) # digits k (n mod 10 ^ k)"

fun decimal :: "nat \<Rightarrow> string" where
  "decimal n = (if n < 10 then [digit n] else decimal (n div 10) @ [digit (n mod 10)])"

declare decimal.simps [simp del]

lemma decimal_not_empty: "decimal n \<noteq> []"
  by (cases "n < 10") (simp_all add: decimal.simps [of n])

lemma digit_zero [simp]: "digit 0 = CHR ''0''"
  by (simp add: digit_def char_of_eq_iff)

lemma digit_not_zero: "0 < d \<Longrightarrow> d < 10 \<Longrightarrow> digit d \<noteq> CHR ''0''"
  by (simp add: digit_def char_of_eq_iff take_bit_eq_mod)

primrec powers :: "nat \<Rightarrow> 64 word list" where
  "powers 0 = []"
| "powers (Suc k) = 10 ^ k # powers k"

lemma divisors_powers: "divisors = powers 10"
  by (simp add: divisors_def eval_nat_numeral)

lemma power_unat: "k < 10 \<Longrightarrow> unat (10 ^ k :: 64 word) = 10 ^ k"
proof -
  assume "k < 10"
  then have "(10 :: nat) ^ k \<le> 10 ^ 9" by (intro power_increasing) auto
  then have "(10 :: nat) ^ k < 2 ^ 64" by (rule le_less_trans) simp
  then have "unat (of_nat (10 ^ k) :: 64 word) = 10 ^ k" by (simp only: unat_of_nat) simp
  then show ?thesis by simp
qed

lemma print_digits_spec:
  assumes "unat num < 10 ^ k" "k \<le> 10" "j + k \<le> length b"
    and "out = (if started then digits k (unat num) else dropWhile (\<lambda>c. c = CHR ''0'') (digits k (unat num)))"
  shows "print_digits (powers k) num started b (int j) = Some (take j b @ out @ drop (j + length out) b, int (j + length out))"
  using assms
proof (induction k arbitrary: num started b j out)
  case 0
  then show ?case by simp
next
  case (Suc k)
  let ?d = "unat num div 10 ^ k" and ?r = "num mod 10 ^ k"
  have P: "unat (10 ^ k :: 64 word) = 10 ^ k" using power_unat Suc.prems(2) by simp
  have d: "?d < 10" using Suc.prems(1) by (simp add: less_mult_imp_div_less mult.commute)
  have "int ?d < 10" using d by (metis of_nat_less_iff of_nat_numeral)
  then have "0 + int (unat num div unat (10 ^ k :: 64 word)) < 2 ^ 31" unfolding P by simp
  then have c: "count_out (10 ^ k) num 0 = Some (?r, int ?d)" using count_out_total [of "10 ^ k" 0 num] P by simp
  have r: "unat ?r = unat num mod 10 ^ k" by (simp only: unat_mod P)
  have ur: "unat ?r < 10 ^ k" unfolding r by simp
  show ?case
  proof (cases "0 < ?d \<or> started")
    case True
    then have out: "out = digit ?d # digits k (unat ?r)" using Suc.prems(4) digit_not_zero [of ?d] d by (auto simp: r)
    let ?b = "b[j := digit ?d]"
    have j: "j < length b" using Suc.prems(3) by simp
    have "print_digits (powers k) ?r True ?b (int (Suc j)) = Some (take (Suc j) ?b @ digits k (unat ?r) @ drop (Suc j + length (digits k (unat ?r))) ?b, int (Suc j + length (digits k (unat ?r))))"
      using Suc.IH [OF ur, of "Suc j" ?b "digits k (unat ?r)" True] Suc.prems(2,3) by simp
    moreover have "take (Suc j) ?b = take j b @ [digit ?d]" using j by (simp add: take_Suc_conv_app_nth)
    moreover have "drop (Suc j + x) ?b = drop (Suc j + x) b" for x by simp
    moreover have "aset b (int j) (char_of (nat (int ?d + 48))) = Some ?b" using j by (simp add: aset_def digit_def nat_add_distrib)
    ultimately show ?thesis using c True by (simp add: out add.commute [of "int j" 1])
  next
    case False
    then have z: "?d = 0" "\<not> started" by auto
    have "unat ?r = unat num" using z(1) r by (simp add: div_eq_0_iff)
    moreover have "out = dropWhile (\<lambda>c. c = CHR ''0'') (digits k (unat num))" using Suc.prems(4) z by (simp add: div_eq_0_iff)
    ultimately show ?thesis using Suc.IH [OF ur, of j b out False] Suc.prems(2,3) c z by simp
  qed
qed

lemma digits_snoc: "n < 10 ^ Suc k \<Longrightarrow> digits (Suc k) n = digits k (n div 10) @ [digit (n mod 10)]"
proof (induction k arbitrary: n)
  case (Suc k)
  let ?m = "n mod 10 ^ Suc k"
  have "digits (Suc k) ?m = digits k (?m div 10) @ [digit (?m mod 10)]" by (rule Suc.IH) simp
  moreover have "?m div 10 = n div 10 mod 10 ^ k" by (simp add: mod_mult2_eq)
  moreover have "?m mod 10 = n mod 10" by (simp add: mod_mult2_eq)
  moreover have "n div 10 ^ Suc k = n div 10 div 10 ^ k" by (simp add: div_mult2_eq)
  ultimately show ?case by simp
qed simp

lemma digits_zero: "digits k 0 = replicate k (CHR ''0'')"
  by (induction k) simp_all

lemma decimal_digits: "0 < n \<Longrightarrow> n < 10 ^ k \<Longrightarrow> dropWhile (\<lambda>c. c = CHR ''0'') (digits k n) = decimal n"
proof (induction k arbitrary: n)
  case (Suc k)
  have s: "digits (Suc k) n = digits k (n div 10) @ [digit (n mod 10)]" using digits_snoc Suc.prems(2) .
  show ?case
  proof (cases "n < 10")
    case True
    then have e: "digits (Suc k) n = replicate k (CHR ''0'') @ [digit n]" using s digits_zero by simp
    have "dropWhile (\<lambda>c. c = CHR ''0'') (replicate k (CHR ''0'') @ [digit n]) = [digit n]"
      using digit_not_zero [of n] Suc.prems(1) True by (subst dropWhile_append2) auto
    then show ?thesis unfolding e using True by (simp add: decimal.simps [of n])
  next
    case False
    have ih: "dropWhile (\<lambda>c. c = CHR ''0'') (digits k (n div 10)) = decimal (n div 10)"
    proof (rule Suc.IH)
      show "0 < n div 10" using False by (simp add: div_greater_zero_iff)
      show "n div 10 < 10 ^ k" using Suc.prems(2) by (simp add: less_mult_imp_div_less mult.commute)
    qed
    have "dropWhile (\<lambda>c. c = CHR ''0'') (digits k (n div 10)) \<noteq> []" unfolding ih by (rule decimal_not_empty)
    then obtain c where c: "c \<in> set (digits k (n div 10))" "c \<noteq> CHR ''0''" unfolding dropWhile_eq_Nil_conv by blast
    then have "dropWhile (\<lambda>c. c = CHR ''0'') (digits (Suc k) n) = dropWhile (\<lambda>c. c = CHR ''0'') (digits k (n div 10)) @ [digit (n mod 10)]"
      unfolding s by (rule dropWhile_append1)
    then show ?thesis unfolding ih using False by (simp add: decimal.simps [of n])
  qed
qed simp

lemma digits_length: "length (digits k n) = k"
  by (induction k arbitrary: n) simp_all

lemma digits_printable: "n < 10 ^ k \<Longrightarrow> NUL \<notin> set (digits k n)"
proof (induction k arbitrary: n)
  case (Suc k)
  have "n div 10 ^ k < 10" using Suc.prems by (simp add: less_mult_imp_div_less mult.commute)
  then have "digit (n div 10 ^ k) \<noteq> NUL" by (simp add: digit_def char_of_eq_iff take_bit_eq_mod)
  moreover have "NUL \<notin> set (digits k (n mod 10 ^ k))" by (rule Suc.IH) simp
  ultimately show ?case by simp
qed simp

text \<open>
  C40. The benchmark prints its time in decimal. For every number below ten to the tenth, print_int writes the decimal representation without leading zeros,
  in one call, and stays inside its buffer of 32 characters.
\<close>

theorem print_int_decimal:
  assumes "unat num < 10 ^ 10" "length garbage = 32"
  shows "print_int A garbage num w = Some (u_write A (decimal (unat num)) w)"
proof (cases "num = 0")
  case True
  then show ?thesis by (simp add: print_int_def decimal.simps)
next
  case False
  let ?out = "dropWhile (\<lambda>c. c = CHR ''0'') (digits 10 (unat num))"
  have pos: "0 < unat num" using False by (simp add: unat_gt_0)
  have out: "?out = decimal (unat num)" using decimal_digits [OF pos assms(1)] .
  have len: "length ?out \<le> 10" using length_dropWhile_le [of "\<lambda>c. c = CHR ''0''" "digits 10 (unat num)"] unfolding digits_length .
  have nul: "NUL \<notin> set ?out" using digits_printable [OF assms(1)] set_dropWhileD by fastforce
  have run: "print_digits divisors num False garbage (int 0) = Some (take 0 garbage @ ?out @ drop (0 + length ?out) garbage, int (0 + length ?out))"
    unfolding divisors_powers by (rule print_digits_spec) (use assms in simp_all)
  obtain x xs where rest: "drop (length ?out) garbage = x # xs" using len assms(2) by (cases "drop (length ?out) garbage") auto
  have "aset (?out @ x # xs) (int (length ?out)) NUL = Some (?out @ NUL # xs)" by (simp add: aset_def list_update_append)
  then show ?thesis using False run nul unfolding out [symmetric] by (simp add: print_int_def rest cstr_append)
qed

theorem print_int_witness:
  "\<forall>(A :: unit program_api) w. print_int A (replicate 32 NUL) 1234567 w = Some (u_write A ''1234567'' w)"
proof (intro allI)
  fix A :: "unit program_api" and w
  have "decimal 1234567 = ''1234567''" by (simp add: decimal.simps digit_def char_of_def bit_Suc_0_iff)
  then show "print_int A (replicate 32 NUL) 1234567 w = Some (u_write A ''1234567'' w)"
    using print_int_decimal [of 1234567 "replicate 32 NUL" A w] by simp
qed

subsection \<open>The load of the benchmark\<close>

lemma xor_low: "m < 4 \<Longrightarrow> x - 3 \<le> x XOR int m" "m < 4 \<Longrightarrow> x XOR int m \<le> x + 3"
proof -
  assume "m < 4"
  let ?y = "x XOR int m" and ?p = "push_bit 2 (drop_bit 2 x)"
  have "drop_bit 2 (int m) = 0" using \<open>m < 4\<close> by (simp add: drop_bit_eq_div)
  then have d: "drop_bit 2 ?y = drop_bit 2 x" by (simp add: drop_bit_xor)
  have t: "0 \<le> take_bit 2 z" "take_bit 2 z \<le> 3" for z :: int by (simp_all add: take_bit_eq_mod)
  have "?p + take_bit 2 x = x" by (rule bits_ident)
  moreover have "?p + take_bit 2 ?y = ?y" using bits_ident [of 2 ?y] unfolding d .
  ultimately show "x - 3 \<le> ?y" "?y \<le> x + 3" using t [of x] t [of ?y] by linarith+
qed

lemma calcolo_bounds: "calcolo n = Some c \<Longrightarrow> int n * int n - 7 * int n \<le> 2 * c \<and> c < 2 ^ 31 + 3"
proof (induction n arbitrary: c)
  case (Suc n)
  then obtain b where b: "calcolo n = Some b" "b + int n < 2 ^ 31" "c = (b + int n) XOR int (n mod 3)"
    by (auto simp: add_int_def split: Option.bind_splits if_splits)
  have "n mod 3 < 4" by (rule less_trans [of _ 3]) simp_all
  then have x: "b + int n - 3 \<le> c" "c \<le> b + int n + 3" using xor_low [of "n mod 3" "b + int n"] b(3) by simp_all
  have "int (Suc n) * int (Suc n) = int n * int n + 2 * int n + 1" by (simp add: algebra_simps)
  then show ?case using Suc.IH [OF b(1)] x b(2) by simp
qed simp

lemma calcolo_stuck: "calcolo n = None \<Longrightarrow> calcolo (n + k) = None"
  by (induction k) simp_all

lemma calcolo_overflows: "70000 \<le> n \<Longrightarrow> calcolo n = None"
proof -
  assume "70000 \<le> n"
  have "calcolo 70000 = None"
  proof (rule ccontr)
    assume "calcolo 70000 \<noteq> None"
    then obtain c where "calcolo 70000 = Some c" by blast
    then show False using calcolo_bounds [of 70000 c] by auto
  qed
  then show ?thesis using calcolo_stuck [of 70000 "n - 70000"] \<open>70000 \<le> n\<close> by simp
qed

text \<open>
  The load of the benchmark overflows. The sum of the loop leaves the range of int before iteration 70000 of 50000000 (a signed overflow,
  for which C defines no result), so the program has no defined outcome.
\<close>

lemma benchmark_overflows: "calcolo 50000000 = None \<and> benchmark_main A garbage w = None"
  using calcolo_overflows [of 50000000] by (simp add: benchmark_main_def split: prod.splits)

end
