(* ===== verification/Devices.thy ===== *)
theory Devices
  imports C_String Memory
begin

section \<open>Mailbox, framebuffer and UART set-up\<close>

text \<open>
  \<^verbatim>\<open>drivers/mbox/mbox.c\<close>, \<^verbatim>\<open>drivers/framebuffer/framebuffer.c\<close> and \<^verbatim>\<open>uart_init\<close>. The device registers are a parameter: a record of operations
  on the state \<open>hw\<close> of the hardware and on the message buffer \<^verbatim>\<open>mbox\<close>, which the VideoCore processor writes. Registers are named by their offset
  from \<^verbatim>\<open>MMIO_BASE\<close>. \<open>None\<close> is a polling loop that does not end, or undefined behaviour.
\<close>

record 'h board =
  mbox :: "32 word list"
  hw :: 'h

record 'h io_bus =
  io_read :: "64 word \<Rightarrow> 'h board \<Rightarrow> 32 word \<times> 'h board"
  io_write :: "64 word \<Rightarrow> 32 word \<Rightarrow> 'h board \<Rightarrow> 'h board"

definition mmio_read :: "'h io_bus \<Rightarrow> 32 word \<Rightarrow> 'h board \<Rightarrow> 32 word \<times> 'h board" where
  "mmio_read B reg s = io_read B (ucast reg) s"

definition mmio_write :: "'h io_bus \<Rightarrow> 64 word \<Rightarrow> 32 word \<Rightarrow> 'h board \<Rightarrow> 'h board" where
  "mmio_write B reg data s = io_write B reg data s"

subsection \<open>Mailbox\<close>

abbreviation (input) MBOX_READ :: "'a::len word" where "MBOX_READ \<equiv> 0xB880"
abbreviation (input) MBOX_STATUS :: "'a::len word" where "MBOX_STATUS \<equiv> 0xB898"
abbreviation (input) MBOX_WRITE :: "'a::len word" where "MBOX_WRITE \<equiv> 0xB8A0"
abbreviation (input) MBOX_RESPONSE :: "32 word" where "MBOX_RESPONSE \<equiv> 0x80000000"
abbreviation (input) MBOX_FULL :: "32 word" where "MBOX_FULL \<equiv> 0x80000000"
abbreviation (input) MBOX_EMPTY :: "32 word" where "MBOX_EMPTY \<equiv> 0x40000000"
abbreviation (input) MBOX_REQUEST :: "32 word" where "MBOX_REQUEST \<equiv> 0"
abbreviation (input) MBOX_CH_PROP :: "8 word" where "MBOX_CH_PROP \<equiv> 8"
abbreviation (input) MBOX_TAG_LAST :: "32 word" where "MBOX_TAG_LAST \<equiv> 0"
abbreviation (input) MBOX_TAG_SETCLKRATE :: "32 word" where "MBOX_TAG_SETCLKRATE \<equiv> 0x38002"
abbreviation (input) MBOX_TAG_ALLOCFB :: "32 word" where "MBOX_TAG_ALLOCFB \<equiv> 0x40001"
abbreviation (input) MBOX_TAG_GETPITCH :: "32 word" where "MBOX_TAG_GETPITCH \<equiv> 0x40008"
abbreviation (input) MBOX_TAG_SETPHYWH :: "32 word" where "MBOX_TAG_SETPHYWH \<equiv> 0x48003"
abbreviation (input) MBOX_TAG_SETVIRTWH :: "32 word" where "MBOX_TAG_SETVIRTWH \<equiv> 0x48004"
abbreviation (input) MBOX_TAG_SETDEPTH :: "32 word" where "MBOX_TAG_SETDEPTH \<equiv> 0x48005"
abbreviation (input) MBOX_TAG_SETPIXLORDR :: "32 word" where "MBOX_TAG_SETPIXLORDR \<equiv> 0x48006"
abbreviation (input) MBOX_TAG_SETVIRTOFST :: "32 word" where "MBOX_TAG_SETVIRTOFST \<equiv> 0x48009"

partial_function (option) await_room :: "'h io_bus \<Rightarrow> 'h board \<Rightarrow> 'h board option" where
  "await_room B s = (case mmio_read B MBOX_STATUS s of (v, s1) \<Rightarrow> if v AND MBOX_FULL \<noteq> 0 then await_room B s1 else Some s1)"

partial_function (option) await_reply :: "'h io_bus \<Rightarrow> 64 word \<Rightarrow> 'h board \<Rightarrow> 'h board option" where
  "await_reply B r s = (case mmio_read B MBOX_STATUS s of (v, s1) \<Rightarrow>
     if v AND MBOX_EMPTY \<noteq> 0 then await_reply B r s1
     else case mmio_read B MBOX_READ s1 of (x, s2) \<Rightarrow> if ucast x \<noteq> r then await_reply B r s2 else Some s2)"

text \<open>\<open>address\<close> is the virtual address of the array \<^verbatim>\<open>mbox\<close>.\<close>

definition mail :: "64 word \<Rightarrow> 8 word \<Rightarrow> 64 word" where
  "mail address channel = ((address - VA_START) AND NOT 0xF) OR (ucast channel AND 0xF)"

definition mbox_call :: "'h io_bus \<Rightarrow> 64 word \<Rightarrow> 8 word \<Rightarrow> 'h board \<Rightarrow> (bool \<times> 'h board) option" where
  "mbox_call B address channel s = do {
     let r = mail address channel;
     s1 \<leftarrow> await_room B s;
     s2 \<leftarrow> await_reply B r (mmio_write B MBOX_WRITE (ucast r) s1);
     x \<leftarrow> aget (mbox s2) 1;
     Some (x = MBOX_RESPONSE, s2)
   }"

text \<open>Filling the buffer from its first element on; the array has 36 elements.\<close>

definition fill_mbox :: "32 word list \<Rightarrow> 'h board \<Rightarrow> 'h board option" where
  "fill_mbox ws s = (if length ws \<le> length (mbox s) then Some (s\<lparr>mbox := ws @ drop (length ws) (mbox s)\<rparr>) else None)"

subsection \<open>Framebuffer\<close>

record screen =
  framebuffer_address :: "64 word"
  fb_width :: "32 word"
  fb_height :: "32 word"
  fb_pitch :: "32 word"
  isrgb :: "32 word"

definition framebuffer_request :: "32 word list" where
  "framebuffer_request = [35 * 4, MBOX_REQUEST,
     MBOX_TAG_SETPHYWH, 8, 8, 1024, 768,
     MBOX_TAG_SETVIRTWH, 8, 8, 1024, 768,
     MBOX_TAG_SETVIRTOFST, 8, 8, 0, 0,
     MBOX_TAG_SETDEPTH, 4, 4, 32,
     MBOX_TAG_SETPIXLORDR, 4, 4, 1,
     MBOX_TAG_ALLOCFB, 8, 8, 4096, 0,
     MBOX_TAG_GETPITCH, 4, 4, 0,
     MBOX_TAG_LAST]"

definition framebuffer_init :: "'h io_bus \<Rightarrow> 64 word \<Rightarrow> screen \<Rightarrow> 'h board \<Rightarrow> (bool \<times> screen \<times> 'h board) option" where
  "framebuffer_init B address scr s = do {
     s1 \<leftarrow> fill_mbox framebuffer_request s;
     (answered, s2) \<leftarrow> mbox_call B address MBOX_CH_PROP s1;
     depth \<leftarrow> aget (mbox s2) 20;
     base \<leftarrow> aget (mbox s2) 28;
     if answered \<and> depth = 32 \<and> base \<noteq> 0
     then do {
       w \<leftarrow> aget (mbox s2) 5; h \<leftarrow> aget (mbox s2) 6; p \<leftarrow> aget (mbox s2) 33; rgb \<leftarrow> aget (mbox s2) 24;
       Some (True, \<lparr>framebuffer_address = ucast (base AND 0x3FFFFFFF), fb_width = w, fb_height = h, fb_pitch = p, isrgb = rgb\<rparr>, s2)
     }
     else Some (False, scr, s2)
   }"

text \<open>The font: the header of a PSF file and the bytes of the whole file.\<close>

record psf_t =
  headersize :: "32 word"
  numglyph :: "32 word"
  bytesperglyph :: "32 word"
  psf_height :: "32 word"
  psf_width :: "32 word"
  psf_bytes :: "8 word list"

text \<open>The screen by the address of the pixels; consecutive pixels are four bytes apart.\<close>

type_synonym pixels = "64 word \<Rightarrow> 32 word"

definition int_add :: "int \<Rightarrow> int \<Rightarrow> int option" where
  "int_add x y = (if - (2 ^ 31) \<le> x + y \<and> x + y < 2 ^ 31 then Some (x + y) else None)"

text \<open>\<^verbatim>\<open>int op= unsigned\<close>: the sum is computed modulo two to the 32nd and converted back.\<close>

definition mixed_add :: "int \<Rightarrow> 32 word \<Rightarrow> int" where
  "mixed_add x u = sint (word_of_int x + u)"

fun draw_row :: "64 word \<Rightarrow> 8 word \<Rightarrow> nat \<Rightarrow> int \<Rightarrow> int \<Rightarrow> pixels \<Rightarrow> pixels option" where
  "draw_row base glyph 0 line msk px = Some px"
| "draw_row base glyph (Suc n) line msk px = do {
     let px1 = px(base + word_of_int line := if uint glyph AND msk \<noteq> 0 then 0xFFFFFF else 0);
     line1 \<leftarrow> int_add line 4;
     draw_row base glyph n line1 (msk div 2) px1
   }"

definition first_mask :: "32 word \<Rightarrow> int option" where
  "first_mask w = (if unat (w - 1) < 31 then Some (2 ^ unat (w - 1)) else None)"

fun draw_rows :: "psf_t \<Rightarrow> screen \<Rightarrow> nat \<Rightarrow> int \<Rightarrow> int \<Rightarrow> pixels \<Rightarrow> pixels option" where
  "draw_rows font scr 0 glyph offs px = Some px"
| "draw_rows font scr (Suc n) glyph offs px = do {
     msk \<leftarrow> first_mask (psf_width font);
     b \<leftarrow> aget (psf_bytes font) glyph;
     px1 \<leftarrow> draw_row (framebuffer_address scr) b (unat (psf_width font)) offs msk px;
     draw_rows font scr n (glyph + uint ((psf_width font + 7) div 8)) (mixed_add offs (fb_pitch scr)) px1
   }"

definition glyph_offset :: "psf_t \<Rightarrow> char \<Rightarrow> int" where
  "glyph_offset font c = uint (headersize font) + uint ((if (of_char c :: 32 word) < numglyph font then of_char c else 0) * bytesperglyph font)"

primrec framebuffer_print :: "psf_t \<Rightarrow> screen \<Rightarrow> char list \<Rightarrow> int \<Rightarrow> int \<Rightarrow> pixels \<Rightarrow> pixels option" where
  "framebuffer_print font scr [] x y px = None"
| "framebuffer_print font scr (c # cs) x y px =
     (if c = NUL then Some px
      else do {
        x4 \<leftarrow> (if - (2 ^ 31) \<le> x * 4 \<and> x * 4 < 2 ^ 31 then Some (x * 4) else None);
        let offs = sint (word_of_int y * fb_pitch scr + word_of_int x4);
        if c = CR then framebuffer_print font scr cs 0 y px
        else if c = LF then framebuffer_print font scr cs 0 (mixed_add y (psf_height font)) px
        else do {
          px1 \<leftarrow> draw_rows font scr (unat (psf_height font)) (glyph_offset font c) offs px;
          framebuffer_print font scr cs (mixed_add x (psf_width font + 1)) y px1
        }
      })"

subsection \<open>UART set-up\<close>

text \<open>
  In \<^verbatim>\<open>mmio_write(*GPPUD, ...)\<close> the name is the macro of \<^verbatim>\<open>arch/mmio.h\<close>, a pointer to the register: the register is read, and its value is
  taken as the offset of the register to write.
\<close>

abbreviation (input) UART0_FR :: "32 word" where "UART0_FR \<equiv> 0x201018"

definition write_through :: "'h io_bus \<Rightarrow> 64 word \<Rightarrow> 32 word \<Rightarrow> 'h board \<Rightarrow> 'h board" where
  "write_through B pointer data s = (case io_read B pointer s of (reg, s1) \<Rightarrow> mmio_write B (ucast reg) data s1)"

definition uart_request :: "32 word list" where
  "uart_request = [9 * 4, MBOX_REQUEST, MBOX_TAG_SETCLKRATE, 12, 8, 2, 30000000, 0, MBOX_TAG_LAST]"

definition uart_init :: "'h io_bus \<Rightarrow> 64 word \<Rightarrow> 'h board \<Rightarrow> 'h board option" where
  "uart_init B address s = do {
     let s1 = mmio_write B 0x201030 0 s;
     let s2 = write_through B 0x200094 0 s1;
     let s3 = write_through B 0x200098 (push_bit 14 1 OR push_bit 15 1) s2;
     let s4 = write_through B 0x200098 0 s3;
     let s5 = mmio_write B 0x201044 0x7FF s4;
     s6 \<leftarrow> fill_mbox uart_request s5;
     (answered, s7) \<leftarrow> mbox_call B address MBOX_CH_PROP s6;
     let s8 = mmio_write B 0x201024 1 s7;
     let s9 = mmio_write B 0x201028 40 s8;
     let s10 = mmio_write B 0x20102C (push_bit 4 1 OR push_bit 5 1 OR push_bit 6 1) s9;
     let s11 = mmio_write B 0x201038 (push_bit 1 1 OR push_bit 4 1 OR push_bit 5 1 OR push_bit 6 1 OR push_bit 7 1 OR push_bit 8 1 OR push_bit 9 1 OR push_bit 10 1) s10;
     Some (mmio_write B 0x201030 (push_bit 0 1 OR push_bit 8 1 OR push_bit 9 1) s11)
   }"

partial_function (option) uart_getc :: "'h io_bus \<Rightarrow> 'h board \<Rightarrow> (char \<times> 'h board) option" where
  "uart_getc B s = (case mmio_read B UART0_FR s of (v, s1) \<Rightarrow>
     if v AND push_bit 4 1 \<noteq> 0 then uart_getc B s1
     else case mmio_read B 0x201000 s1 of (x, s2) \<Rightarrow> Some (char_of (unat x), s2))"

subsection \<open>The VideoCore\<close>

text \<open>
  The documented behaviour of the mailbox: it accepts a message after at most some polls; a message on the property channel, with the address of the
  buffer, is answered into the buffer, and after some more polls comes back from the mailbox.
\<close>

datatype vc_mode = Accepting nat | Answering nat "32 word"

definition videocore :: "'h io_bus \<Rightarrow> ('h \<Rightarrow> vc_mode) \<Rightarrow> 64 word \<Rightarrow> (32 word list \<Rightarrow> 32 word list) \<Rightarrow> bool" where
  "videocore B mode address answer \<longleftrightarrow>
     (\<forall>s n. mode (hw s) = Accepting n \<longrightarrow>
       (\<exists>v h. io_read B MBOX_STATUS s = (v, s\<lparr>hw := h\<rparr>) \<and> (v AND MBOX_FULL = 0 \<longleftrightarrow> n = 0) \<and> mode h = Accepting (n - 1))) \<and>
     (\<forall>s. mode (hw s) = Accepting 0 \<longrightarrow>
       (\<exists>n h. io_write B MBOX_WRITE (ucast (mail address MBOX_CH_PROP)) s = s\<lparr>mbox := answer (mbox s), hw := h\<rparr> \<and>
         mode h = Answering n (ucast (mail address MBOX_CH_PROP)))) \<and>
     (\<forall>s n r. mode (hw s) = Answering n r \<longrightarrow>
       (\<exists>v h. io_read B MBOX_STATUS s = (v, s\<lparr>hw := h\<rparr>) \<and> (v AND MBOX_EMPTY = 0 \<longleftrightarrow> n = 0) \<and> mode h = Answering (n - 1) r)) \<and>
     (\<forall>s r. mode (hw s) = Answering 0 r \<longrightarrow> (\<exists>h. io_read B MBOX_READ s = (r, s\<lparr>hw := h\<rparr>) \<and> mode h = Accepting 0)) \<and>
     (\<forall>ws. length (answer ws) = length ws)"

lemma videocoreD:
  assumes "videocore B mode address answer"
  shows "mode (hw s) = Accepting n \<Longrightarrow>
      \<exists>v h. io_read B MBOX_STATUS s = (v, s\<lparr>hw := h\<rparr>) \<and> (v AND MBOX_FULL = 0 \<longleftrightarrow> n = 0) \<and> mode h = Accepting (n - 1)"
    and "mode (hw s) = Accepting 0 \<Longrightarrow>
      \<exists>n h. io_write B MBOX_WRITE (ucast (mail address MBOX_CH_PROP)) s = s\<lparr>mbox := answer (mbox s), hw := h\<rparr> \<and>
        mode h = Answering n (ucast (mail address MBOX_CH_PROP))"
    and "mode (hw s) = Answering n r \<Longrightarrow>
      \<exists>v h. io_read B MBOX_STATUS s = (v, s\<lparr>hw := h\<rparr>) \<and> (v AND MBOX_EMPTY = 0 \<longleftrightarrow> n = 0) \<and> mode h = Answering (n - 1) r"
    and "mode (hw s) = Answering 0 r \<Longrightarrow> \<exists>h. io_read B MBOX_READ s = (r, s\<lparr>hw := h\<rparr>) \<and> mode h = Accepting 0"
    and "length (answer ws) = length ws"
  using assms unfolding videocore_def by blast+

lemma await_room_ok:
  assumes "videocore B mode address answer" "mode (hw s) = Accepting n"
  shows "\<exists>h. await_room B s = Some (s\<lparr>hw := h\<rparr>) \<and> mode h = Accepting 0"
  using assms(2)
proof (induction n arbitrary: s)
  case 0
  obtain v h where v: "io_read B MBOX_STATUS s = (v, s\<lparr>hw := h\<rparr>)" "v AND MBOX_FULL = 0" "mode h = Accepting 0"
    using videocoreD(1) [OF assms(1) 0] by auto
  then have "await_room B s = Some (s\<lparr>hw := h\<rparr>)" by (subst await_room.simps) (simp add: mmio_read_def)
  then show ?case using v(3) by blast
next
  case (Suc n)
  obtain v h where v: "io_read B MBOX_STATUS s = (v, s\<lparr>hw := h\<rparr>)" "v AND MBOX_FULL \<noteq> 0" "mode h = Accepting n"
    using videocoreD(1) [OF assms(1) Suc.prems] by auto
  obtain h' where h': "await_room B (s\<lparr>hw := h\<rparr>) = Some (s\<lparr>hw := h'\<rparr>)" "mode h' = Accepting 0" using Suc.IH [of "s\<lparr>hw := h\<rparr>"] v(3) by auto
  then have "await_room B s = Some (s\<lparr>hw := h'\<rparr>)" using v by (subst await_room.simps) (simp add: mmio_read_def)
  then show ?case using h'(2) by blast
qed

lemma await_reply_ok:
  assumes "videocore B mode address answer" "mode (hw s) = Answering n (ucast r)" "ucast (ucast r :: 32 word) = r"
  shows "\<exists>h. await_reply B r s = Some (s\<lparr>hw := h\<rparr>) \<and> mode h = Accepting 0"
  using assms(2)
proof (induction n arbitrary: s)
  case 0
  obtain v h where v: "io_read B MBOX_STATUS s = (v, s\<lparr>hw := h\<rparr>)" "v AND MBOX_EMPTY = 0" "mode h = Answering 0 (ucast r)"
    using videocoreD(3) [OF assms(1) 0] by auto
  obtain h' where h': "io_read B MBOX_READ (s\<lparr>hw := h\<rparr>) = (ucast r, s\<lparr>hw := h'\<rparr>)" "mode h' = Accepting 0"
    using videocoreD(4) [OF assms(1), of "s\<lparr>hw := h\<rparr>"] v(3) by auto
  then have "await_reply B r s = Some (s\<lparr>hw := h'\<rparr>)" using v assms(3) by (subst await_reply.simps) (simp add: mmio_read_def)
  then show ?case using h'(2) by blast
next
  case (Suc n)
  obtain v h where v: "io_read B MBOX_STATUS s = (v, s\<lparr>hw := h\<rparr>)" "v AND MBOX_EMPTY \<noteq> 0" "mode h = Answering n (ucast r)"
    using videocoreD(3) [OF assms(1) Suc.prems] by auto
  obtain h' where h': "await_reply B r (s\<lparr>hw := h\<rparr>) = Some (s\<lparr>hw := h'\<rparr>)" "mode h' = Accepting 0" using Suc.IH [of "s\<lparr>hw := h\<rparr>"] v(3) by auto
  then have "await_reply B r s = Some (s\<lparr>hw := h'\<rparr>)" using v by (subst await_reply.simps) (simp add: mmio_read_def)
  then show ?case using h'(2) by blast
qed

lemma mail_small: "address - VA_START < 0x100000000 \<Longrightarrow> ucast (ucast (mail address c) :: 32 word) = mail address c"
proof -
  assume a: "address - VA_START < 0x100000000"
  have "unat (address - VA_START) < 2 ^ 32" using a by (simp add: word_less_nat_alt)
  then have t: "take_bit 32 (address - VA_START) = address - VA_START" by (simp add: word_unat_eq_iff unsigned_take_bit_eq take_bit_nat_eq_self)
  have "n < 32" if "bit (address - VA_START) n" for n using that by (subst (asm) t [symmetric]) (simp add: bit_take_bit_iff)
  moreover have "n < 32" if "bit c n" for n using bit_imp_le_length [OF that] by simp
  ultimately show ?thesis by (intro bit_word_eqI) (auto simp: mail_def bit_simps)
qed

lemma mbox_call_ok:
  assumes "videocore B mode address answer" "mode (hw s) = Accepting n" "address - VA_START < 0x100000000" "2 \<le> length (mbox s)"
  shows "\<exists>h. mbox_call B address MBOX_CH_PROP s = Some (answer (mbox s) ! 1 = MBOX_RESPONSE, s\<lparr>mbox := answer (mbox s), hw := h\<rparr>) \<and> mode h = Accepting 0"
proof -
  let ?r = "mail address MBOX_CH_PROP"
  obtain h1 where h1: "await_room B s = Some (s\<lparr>hw := h1\<rparr>)" "mode h1 = Accepting 0" using await_room_ok [OF assms(1,2)] by blast
  obtain k h2 where h2: "io_write B MBOX_WRITE (ucast ?r) (s\<lparr>hw := h1\<rparr>) = s\<lparr>mbox := answer (mbox s), hw := h2\<rparr>" "mode h2 = Answering k (ucast ?r)"
    using videocoreD(2) [OF assms(1), of "s\<lparr>hw := h1\<rparr>"] h1(2) by auto
  let ?s2 = "s\<lparr>mbox := answer (mbox s), hw := h2\<rparr>"
  obtain h3 where h3: "await_reply B ?r ?s2 = Some (?s2\<lparr>hw := h3\<rparr>)" "mode h3 = Accepting 0"
    using await_reply_ok [OF assms(1), of ?s2] h2(2) mail_small [OF assms(3)] by auto
  have "aget (answer (mbox s)) 1 = Some (answer (mbox s) ! 1)" using videocoreD(5) [OF assms(1)] assms(4) by (simp add: aget_def)
  then show ?thesis using h1 h2 h3 by (auto simp: mbox_call_def mmio_write_def)
qed

subsection \<open>Property messages\<close>

text \<open>The documented format: the size in bytes, a code, and tags with the size of their values, ended by a zero tag.\<close>

function tag_list :: "32 word list \<Rightarrow> (32 word \<times> 32 word list) list option" where
  "tag_list ws = (case ws of
     [] \<Rightarrow> None
   | t # rest \<Rightarrow>
       if t = MBOX_TAG_LAST then (if rest = [] then Some [] else None)
       else (case rest of
           n # code # vals \<Rightarrow>
             if unat n mod 4 = 0 \<and> unat n div 4 \<le> length vals
             then map_option (Cons (t, take (unat n div 4) vals)) (tag_list (drop (unat n div 4) vals))
             else None
         | _ \<Rightarrow> None))"
  by pat_completeness auto
termination by (relation "measure length") auto

declare tag_list.simps [simp del]

definition message_tags :: "32 word list \<Rightarrow> (32 word \<times> 32 word list) list option" where
  "message_tags ws = (case ws of n # code # tags \<Rightarrow> if unat n = 4 * length ws \<and> code = MBOX_REQUEST then tag_list tags else None | _ \<Rightarrow> None)"

lemma tag_list_steps:
  "tag_list [0] = Some []"
  "t \<noteq> 0 \<Longrightarrow> tag_list (t # 4 # code # v # ws) = map_option (Cons (t, [v])) (tag_list ws)"
  "t \<noteq> 0 \<Longrightarrow> tag_list (t # 8 # code # v1 # v2 # ws) = map_option (Cons (t, [v1, v2])) (tag_list ws)"
  "t \<noteq> 0 \<Longrightarrow> tag_list (t # 12 # code # v1 # v2 # v3 # ws) = map_option (Cons (t, [v1, v2, v3])) (tag_list ws)"
  by (subst tag_list.simps; simp)+

lemma requests_well_formed:
  "message_tags framebuffer_request = Some [(MBOX_TAG_SETPHYWH, [1024, 768]), (MBOX_TAG_SETVIRTWH, [1024, 768]), (MBOX_TAG_SETVIRTOFST, [0, 0]),
     (MBOX_TAG_SETDEPTH, [32]), (MBOX_TAG_SETPIXLORDR, [1]), (MBOX_TAG_ALLOCFB, [4096, 0]), (MBOX_TAG_GETPITCH, [0])]"
  "message_tags uart_request = Some [(MBOX_TAG_SETCLKRATE, [2, 30000000, 0])]"
  by (simp_all add: message_tags_def framebuffer_request_def uart_request_def tag_list_steps)

definition screen_of :: "32 word list \<Rightarrow> screen" where
  "screen_of ws = \<lparr>framebuffer_address = ucast (ws ! 28 AND 0x3FFFFFFF), fb_width = ws ! 5, fb_height = ws ! 6, fb_pitch = ws ! 33, isrgb = ws ! 24\<rparr>"

text \<open>
  Setting up the framebuffer. The message is a well-formed property request for a screen of 1024 by 768 pixels of 32 bits.
  With a VideoCore that behaves as documented, framebuffer_init ends; it returns 1 and takes over address, size and pitch exactly if the
  answer has the response code, the depth 32 and an address, and otherwise returns 0 and changes nothing of the screen.
\<close>

lemma framebuffer_init_correct:
  assumes "videocore B mode address answer" "mode (hw s) = Accepting n" "address - VA_START < 0x100000000" "length (mbox s) = 36"
    and "reply = answer (framebuffer_request @ drop 35 (mbox s))"
    and "ok \<longleftrightarrow> reply ! 1 = MBOX_RESPONSE \<and> reply ! 20 = 32 \<and> reply ! 28 \<noteq> 0"
  shows "(\<exists>t. framebuffer_init B address scr s = Some (ok, if ok then screen_of reply else scr, t) \<and> mbox t = reply \<and> mode (hw t) = Accepting 0) \<and>
    message_tags framebuffer_request = Some [(MBOX_TAG_SETPHYWH, [1024, 768]), (MBOX_TAG_SETVIRTWH, [1024, 768]), (MBOX_TAG_SETVIRTOFST, [0, 0]),
     (MBOX_TAG_SETDEPTH, [32]), (MBOX_TAG_SETPIXLORDR, [1]), (MBOX_TAG_ALLOCFB, [4096, 0]), (MBOX_TAG_GETPITCH, [0])]"
proof -
  let ?s = "s\<lparr>mbox := framebuffer_request @ drop 35 (mbox s)\<rparr>"
  have len: "length framebuffer_request = 35" by (simp add: framebuffer_request_def)
  have fill: "fill_mbox framebuffer_request s = Some ?s" using len assms(4) by (simp add: fill_mbox_def)
  have two: "2 \<le> length (mbox ?s)" using len by simp
  obtain h where h: "mbox_call B address MBOX_CH_PROP ?s = Some (reply ! 1 = MBOX_RESPONSE, ?s\<lparr>mbox := reply, hw := h\<rparr>)" "mode h = Accepting 0"
    using mbox_call_ok [OF assms(1) _ assms(3) two, of n] assms(2,5) by auto
  have "length reply = 36" using videocoreD(5) [OF assms(1)] assms(4,5) len by simp
  then have g: "aget reply 20 = Some (reply ! 20)" "aget reply 28 = Some (reply ! 28)" "aget reply 5 = Some (reply ! 5)" "aget reply 6 = Some (reply ! 6)"
    "aget reply 33 = Some (reply ! 33)" "aget reply 24 = Some (reply ! 24)" by (simp_all add: aget_def)
  have "framebuffer_init B address scr s = Some (ok, if ok then screen_of reply else scr, ?s\<lparr>mbox := reply, hw := h\<rparr>)"
    using fill h(1) g assms(6) by (cases ok) (auto simp: framebuffer_init_def screen_of_def)
  then show ?thesis using h(2) requests_well_formed(1) by auto
qed

text \<open>A VideoCore as a function: the writes so far, and the message under way. It grants the framebuffer.\<close>

definition demo_bus_of :: "((64 word \<times> 32 word) list \<times> 32 word option) io_bus" where
  "demo_bus_of = \<lparr>
     io_read = (\<lambda>a s. if a = MBOX_READ then (case snd (hw s) of None \<Rightarrow> 0 | Some r \<Rightarrow> r, s\<lparr>hw := (fst (hw s), None)\<rparr>) else (0, s)),
     io_write = (\<lambda>a x s. if a = MBOX_WRITE
       then s\<lparr>mbox := (mbox s)[1 := MBOX_RESPONSE, 28 := 0xC0100000, 33 := 4096], hw := (fst (hw s) @ [(a, x)], Some x)\<rparr>
       else s\<lparr>hw := (fst (hw s) @ [(a, x)], snd (hw s))\<rparr>)\<rparr>"

definition demo_mode :: "(64 word \<times> 32 word) list \<times> 32 word option \<Rightarrow> vc_mode" where
  "demo_mode h = (case snd h of None \<Rightarrow> Accepting 0 | Some r \<Rightarrow> Answering 0 r)"

definition demo_answer :: "32 word list \<Rightarrow> 32 word list" where
  "demo_answer ws = ws[1 := MBOX_RESPONSE, 28 := 0xC0100000, 33 := 4096]"

lemma demo_bus_simps:
  "io_read demo_bus_of MBOX_STATUS s = (0, s\<lparr>hw := hw s\<rparr>)"
  "io_read demo_bus_of MBOX_READ s = (case snd (hw s) of None \<Rightarrow> 0 | Some r \<Rightarrow> r, s\<lparr>hw := (fst (hw s), None)\<rparr>)"
  "io_write demo_bus_of MBOX_WRITE x s = s\<lparr>mbox := demo_answer (mbox s), hw := (fst (hw s) @ [(MBOX_WRITE, x)], Some x)\<rparr>"
  by (simp_all add: demo_bus_of_def demo_answer_def)

lemma demo_mode_simps: "demo_mode h = Accepting n \<longleftrightarrow> n = 0 \<and> snd h = None" "demo_mode h = Answering n r \<longleftrightarrow> n = 0 \<and> snd h = Some r"
  by (auto simp: demo_mode_def split: option.splits)

lemma demo_videocore: "videocore demo_bus_of demo_mode address demo_answer"
  unfolding videocore_def
proof (intro conjI allI impI)
  fix s :: "((64 word \<times> 32 word) list \<times> 32 word option) board" and n assume m: "demo_mode (hw s) = Accepting n"
  show "\<exists>v h. io_read demo_bus_of MBOX_STATUS s = (v, s\<lparr>hw := h\<rparr>) \<and> (v AND MBOX_FULL = 0 \<longleftrightarrow> n = 0) \<and> demo_mode h = Accepting (n - 1)"
    using m by (intro exI [of _ 0] exI [of _ "hw s"]) (simp add: demo_bus_simps demo_mode_simps)
next
  fix s :: "((64 word \<times> 32 word) list \<times> 32 word option) board" and n r assume m: "demo_mode (hw s) = Answering n r"
  show "\<exists>v h. io_read demo_bus_of MBOX_STATUS s = (v, s\<lparr>hw := h\<rparr>) \<and> (v AND MBOX_EMPTY = 0 \<longleftrightarrow> n = 0) \<and> demo_mode h = Answering (n - 1) r"
    using m by (intro exI [of _ 0] exI [of _ "hw s"]) (simp add: demo_bus_simps demo_mode_simps)
next
  fix s :: "((64 word \<times> 32 word) list \<times> 32 word option) board" and r assume m: "demo_mode (hw s) = Answering 0 r"
  show "\<exists>h. io_read demo_bus_of MBOX_READ s = (r, s\<lparr>hw := h\<rparr>) \<and> demo_mode h = Accepting 0"
    using m by (intro exI [of _ "(fst (hw s), None)"]) (simp add: demo_bus_simps demo_mode_simps)
next
  fix s :: "((64 word \<times> 32 word) list \<times> 32 word option) board" assume "demo_mode (hw s) = Accepting 0"
  let ?r = "ucast (mail address MBOX_CH_PROP) :: 32 word"
  show "\<exists>n h. io_write demo_bus_of MBOX_WRITE ?r s = s\<lparr>mbox := demo_answer (mbox s), hw := h\<rparr> \<and> demo_mode h = Answering n ?r"
    by (intro exI [of _ 0] exI [of _ "(fst (hw s) @ [(MBOX_WRITE, ?r)], Some ?r)"]) (simp add: demo_bus_simps demo_mode_simps)
qed (simp add: demo_answer_def)

definition demo_board :: "((64 word \<times> 32 word) list \<times> 32 word option) board" where
  "demo_board = \<lparr>mbox = replicate 36 0, hw = ([], None)\<rparr>"

lemma framebuffer_init_witness:
  "\<exists>scr t. framebuffer_init demo_bus_of 0xFFFF000000090000 \<lparr>framebuffer_address = 0, fb_width = 0, fb_height = 0, fb_pitch = 0, isrgb = 0\<rparr> demo_board =
     Some (True, scr, t) \<and> framebuffer_address scr = 0x00100000 \<and> fb_width scr = 1024 \<and> fb_height scr = 768 \<and> fb_pitch scr = 4096"
proof -
  let ?scr = "\<lparr>framebuffer_address = 0, fb_width = 0, fb_height = 0, fb_pitch = 0, isrgb = 0\<rparr>" and ?req = "framebuffer_request @ drop 35 (mbox demo_board)"
  have m: "demo_mode (hw demo_board) = Accepting 0" by (simp add: demo_mode_def demo_board_def)
  have r: "demo_answer ?req = [140, 0x80000000, 0x48003, 8, 8, 1024, 768, 0x48004, 8, 8, 1024, 768, 0x48009, 8, 8, 0, 0, 0x48005, 4, 4, 32, 0x48006, 4, 4, 1,
      0x40001, 8, 8, 0xC0100000, 0, 0x40008, 4, 4, 4096, 0, 0]"
    by (simp add: demo_answer_def framebuffer_request_def demo_board_def)
  have ok: "True \<longleftrightarrow> demo_answer ?req ! 1 = MBOX_RESPONSE \<and> demo_answer ?req ! 20 = 32 \<and> demo_answer ?req ! 28 \<noteq> 0" unfolding r by simp
  have "length (mbox demo_board) = 36" "0xFFFF000000090000 - VA_START < (0x100000000 :: 64 word)" by (simp_all add: demo_board_def)
  from framebuffer_init_correct [OF demo_videocore m this(2,1) refl ok, of ?scr]
  obtain t where "framebuffer_init demo_bus_of 0xFFFF000000090000 ?scr demo_board = Some (True, screen_of (demo_answer ?req), t)" by auto
  moreover have "framebuffer_address (screen_of (demo_answer ?req)) = 0x00100000" "fb_width (screen_of (demo_answer ?req)) = 1024"
    "fb_height (screen_of (demo_answer ?req)) = 768" "fb_pitch (screen_of (demo_answer ?req)) = 4096" unfolding r by (simp_all add: screen_of_def)
  ultimately show ?thesis by blast
qed

subsection \<open>The registers that uart_init writes\<close>

text \<open>\<open>log\<close> is the sequence of register writes so far.\<close>

definition logged :: "'h io_bus \<Rightarrow> ('h \<Rightarrow> (64 word \<times> 32 word) list) \<Rightarrow> bool" where
  "logged B log \<longleftrightarrow> (\<forall>a s. log (hw (snd (io_read B a s))) = log (hw s)) \<and> (\<forall>a x s. log (hw (io_write B a x s)) = log (hw s) @ [(a, x)])"

lemma loggedD:
  assumes "logged B log"
  shows "mmio_read B r s = (v, t) \<Longrightarrow> log (hw t) = log (hw s)" "log (hw (mmio_write B a x s)) = log (hw s) @ [(a, x)]"
    "io_read B a s = (v, t) \<Longrightarrow> log (hw t) = log (hw s)"
proof -
  show "mmio_read B r s = (v, t) \<Longrightarrow> log (hw t) = log (hw s)" using assms unfolding logged_def mmio_read_def by (metis snd_conv)
  show "io_read B a s = (v, t) \<Longrightarrow> log (hw t) = log (hw s)" using assms unfolding logged_def by (metis snd_conv)
  show "log (hw (mmio_write B a x s)) = log (hw s) @ [(a, x)]" using assms by (simp add: logged_def mmio_write_def)
qed

lemma await_room_log:
  assumes "logged B log"
  shows "await_room B s = Some t \<Longrightarrow> log (hw t) = log (hw s)"
proof (rule await_room.raw_induct [where P = "\<lambda>C s t. C = B \<longrightarrow> log (hw t) = log (hw s)", rule_format, of B, OF _ _ refl])
  fix f C u v
  assume IH: "\<And>C s t. f C s = Some t \<Longrightarrow> C = B \<Longrightarrow> log (hw t) = log (hw s)"
    and body: "(case mmio_read C MBOX_STATUS u of (x, s1) \<Rightarrow> if x AND MBOX_FULL \<noteq> 0 then f C s1 else Some s1) = Some v" and C: "C = B"
  obtain x s1 where r: "mmio_read B MBOX_STATUS u = (x, s1)" by (cases "mmio_read B MBOX_STATUS u")
  show "log (hw v) = log (hw u)" using body C r IH loggedD(1) [OF assms r] by (auto split: if_splits)
qed

lemma await_reply_log:
  assumes "logged B log"
  shows "await_reply B r s = Some t \<Longrightarrow> log (hw t) = log (hw s)"
proof (rule await_reply.raw_induct [where P = "\<lambda>C r s t. C = B \<longrightarrow> log (hw t) = log (hw s)", rule_format, of B, OF _ _ refl])
  fix f C r u v
  assume IH: "\<And>C r s t. f C r s = Some t \<Longrightarrow> C = B \<Longrightarrow> log (hw t) = log (hw s)"
    and body: "(case mmio_read C MBOX_STATUS u of (x, s1) \<Rightarrow> if x AND MBOX_EMPTY \<noteq> 0 then f C r s1
      else case mmio_read C MBOX_READ s1 of (y, s2) \<Rightarrow> if ucast y \<noteq> r then f C r s2 else Some s2) = Some v" and C: "C = B"
  obtain x s1 where s1: "mmio_read B MBOX_STATUS u = (x, s1)" by (cases "mmio_read B MBOX_STATUS u")
  obtain y s2 where s2: "mmio_read B MBOX_READ s1 = (y, s2)" by (cases "mmio_read B MBOX_READ s1")
  show "log (hw v) = log (hw u)" using body C s1 s2 IH loggedD(1) [OF assms s1] loggedD(1) [OF assms s2] by (auto split: if_splits)
qed

lemma mbox_call_log:
  assumes "mbox_call B address c s = Some (b, t)" "logged B log"
  shows "log (hw t) = log (hw s) @ [(MBOX_WRITE, ucast (mail address c))]"
proof -
  obtain s1 s2 where "await_room B s = Some s1" "await_reply B (mail address c) (mmio_write B MBOX_WRITE (ucast (mail address c)) s1) = Some s2" "t = s2"
    using assms(1) by (auto simp: mbox_call_def Let_def split: Option.bind_splits)
  then show ?thesis using await_room_log [OF assms(2)] await_reply_log [OF assms(2)] loggedD(2) [OF assms(2)] by simp
qed

lemma write_through_log:
  "logged B log \<Longrightarrow> fst (io_read B a s) = reg \<Longrightarrow> log (hw (write_through B a x s)) = log (hw s) @ [(ucast reg, x)]"
  by (cases "io_read B a s") (auto simp: write_through_def loggedD(2) dest: loggedD(3))

text \<open>The other registers have nothing to do with the mailbox.\<close>

definition mailbox_apart :: "'h io_bus \<Rightarrow> ('h \<Rightarrow> vc_mode) \<Rightarrow> bool" where
  "mailbox_apart B mode \<longleftrightarrow>
     (\<forall>a x t. a \<noteq> MBOX_WRITE \<longrightarrow> mode (hw (io_write B a x t)) = mode (hw t) \<and> mbox (io_write B a x t) = mbox t) \<and>
     (\<forall>a t. a \<noteq> MBOX_STATUS \<and> a \<noteq> MBOX_READ \<longrightarrow> mode (hw (snd (io_read B a t))) = mode (hw t) \<and> mbox (snd (io_read B a t)) = mbox t)"

lemma apart_steps:
  assumes "mailbox_apart B mode"
  shows "a \<noteq> MBOX_WRITE \<Longrightarrow> mode (hw (mmio_write B a x t)) = mode (hw t) \<and> mbox (mmio_write B a x t) = mbox t"
    and "a \<noteq> MBOX_STATUS \<Longrightarrow> a \<noteq> MBOX_READ \<Longrightarrow> ucast (fst (io_read B a t)) \<noteq> (MBOX_WRITE :: 64 word) \<Longrightarrow>
      mode (hw (write_through B a x t)) = mode (hw t) \<and> mbox (write_through B a x t) = mbox t"
proof -
  show w: "a \<noteq> MBOX_WRITE \<Longrightarrow> mode (hw (mmio_write B a x t)) = mode (hw t) \<and> mbox (mmio_write B a x t) = mbox t" for a t
    using assms by (simp add: mailbox_apart_def mmio_write_def)
  assume a: "a \<noteq> MBOX_STATUS" "a \<noteq> MBOX_READ" "ucast (fst (io_read B a t)) \<noteq> (MBOX_WRITE :: 64 word)"
  obtain v u where u: "io_read B a t = (v, u)" by (cases "io_read B a t")
  have "mode (hw u) = mode (hw t) \<and> mbox u = mbox t" using assms a(1,2) u unfolding mailbox_apart_def by (metis snd_conv)
  then show "mode (hw (write_through B a x t)) = mode (hw t) \<and> mbox (write_through B a x t) = mbox t"
    using w [of "ucast v" u] a(3) u by (simp add: write_through_def)
qed

lemma uart_init_ok:
  assumes "videocore B mode address answer" "address - VA_START < 0x100000000" "mailbox_apart B mode" "mode (hw s) = Accepting n" "length (mbox s) = 36"
    and "\<forall>t. fst (io_read B 0x200094 t) = 0 \<and> fst (io_read B 0x200098 t) = 0"
  shows "\<exists>t. uart_init B address s = Some t \<and>
    (\<forall>log. logged B log \<longrightarrow> log (hw t) = log (hw s) @ [(0x201030, 0), (0, 0), (0, 0xC000), (0, 0), (0x201044, 0x7FF), (MBOX_WRITE, ucast (mail address MBOX_CH_PROP)),
      (0x201024, 1), (0x201028, 40), (0x20102C, 0x70), (0x201038, 0x7F2), (0x201030, 0x301)])"
proof -
  have z: "fst (io_read B a t) = 0" if "a = 0x200094 \<or> a = 0x200098" for a t using assms(6) that by auto
  note w = apart_steps(1) [OF assms(3)] and wt = apart_steps(2) [OF assms(3)]
  let ?s5 = "mmio_write B 0x201044 0x7FF (write_through B 0x200098 0 (write_through B 0x200098 (push_bit 14 1 OR push_bit 15 1)
      (write_through B 0x200094 0 (mmio_write B 0x201030 0 s))))"
  have m5: "mode (hw ?s5) = Accepting n" "length (mbox ?s5) = 36"
    using assms(4,5) by (simp_all add: w wt z)
  have l5: "log (hw ?s5) = log (hw s) @ [(0x201030, 0), (0, 0), (0, 0xC000), (0, 0), (0x201044, 0x7FF)]" if "logged B log" for log
    using write_through_log [OF that z] loggedD(2) [OF that] by simp
  let ?s6 = "?s5\<lparr>mbox := uart_request @ drop 9 (mbox ?s5)\<rparr>"
  have lr: "length uart_request = 9" by (simp add: uart_request_def)
  have f: "fill_mbox uart_request ?s5 = Some ?s6" using m5(2) by (simp add: fill_mbox_def lr)
  have two: "2 \<le> length (mbox ?s6)" by (simp add: uart_request_def)
  have m6: "mode (hw ?s6) = Accepting n" using m5(1) by simp
  obtain b s7 where s7: "mbox_call B address MBOX_CH_PROP ?s6 = Some (b, s7)"
    using mbox_call_ok [OF assms(1) m6 assms(2) two] by blast
  have l7: "log (hw s7) = log (hw s) @ [(0x201030, 0), (0, 0), (0, 0xC000), (0, 0), (0x201044, 0x7FF), (MBOX_WRITE, ucast (mail address MBOX_CH_PROP))]"
    if "logged B log" for log using mbox_call_log [OF s7 that] l5 [OF that] by simp
  show ?thesis using f s7 l7 by (simp add: uart_init_def loggedD(2))
qed

text \<open>
  uart_init does not reach the GPIO registers. The writes meant for GPPUD and GPPUDCLK0 use the value of the register as the offset: with the two
  registers at zero, as after a reset, all three go to offset 0, and the pull-up control of the pins 14 and 15 is never changed. Apart from that
  the driver ends, sends the request for the clock, and programs the UART (baud divisor, line control, interrupt mask, enable) in the documented order.
\<close>

lemma uart_init_writes:
  assumes "videocore B mode address answer" "address - VA_START < 0x100000000" "mailbox_apart B mode" "mode (hw s) = Accepting n" "length (mbox s) = 36"
    and "\<forall>t. fst (io_read B 0x200094 t) = 0 \<and> fst (io_read B 0x200098 t) = 0" "logged B log"
  shows "\<exists>t. uart_init B address s = Some t \<and>
    log (hw t) = log (hw s) @ [(0x201030, 0), (0, 0), (0, 0xC000), (0, 0), (0x201044, 0x7FF), (MBOX_WRITE, ucast (mail address MBOX_CH_PROP)),
      (0x201024, 1), (0x201028, 40), (0x20102C, 0x70), (0x201038, 0x7F2), (0x201030, 0x301)]"
  using uart_init_ok [OF assms(1-6)] assms(7) by blast

lemma demo_apart: "mailbox_apart demo_bus_of demo_mode"
  by (simp add: mailbox_apart_def demo_bus_of_def demo_mode_def)

lemma demo_gpio: "\<forall>t. fst (io_read demo_bus_of 0x200094 t) = 0 \<and> fst (io_read demo_bus_of 0x200098 t) = 0"
  by (simp add: demo_bus_of_def)

lemma uart_init_witness:
  "\<exists>t. uart_init demo_bus_of 0xFFFF000000090000 demo_board = Some t \<and>
    fst (hw t) = [(0x201030, 0), (0, 0), (0, 0xC000), (0, 0), (0x201044, 0x7FF), (MBOX_WRITE, 0x90008),
      (0x201024, 1), (0x201028, 40), (0x20102C, 0x70), (0x201038, 0x7F2), (0x201030, 0x301)]"
proof -
  have m: "demo_mode (hw demo_board) = Accepting 0" "length (mbox demo_board) = 36" "0xFFFF000000090000 - VA_START < (0x100000000 :: 64 word)"
    "fst (hw demo_board) = []" by (simp_all add: demo_mode_def demo_board_def)
  have l: "logged demo_bus_of fst" by (simp add: logged_def demo_bus_of_def)
  have "ucast (mail 0xFFFF000000090000 MBOX_CH_PROP) = (0x90008 :: 32 word)" by (simp add: mail_def)
  then show ?thesis using uart_init_writes [OF demo_videocore m(3) demo_apart m(1,2) demo_gpio l] m(4) by simp
qed

end
