(* ===== verification/Boot.thy ===== *)
theory Boot
  imports Devices Fork Filesystem Syscalls
begin

section \<open>Interrupts and boot\<close>

text \<open>
  \<^verbatim>\<open>drivers/timer/timer.c\<close>, \<^verbatim>\<open>drivers/irq/controller.c\<close> and \<^verbatim>\<open>kernel/kernel.c\<close>: the state of the drivers beside the kernel, the interrupt handler that
  calls the timer tick and the UART driver, and the start of the system up to its idle loop.
\<close>

record 'h drivers =
  curVal :: "32 word"
  uart :: uart_device
  board :: "'h board"

subsection \<open>Timer\<close>

abbreviation (input) TIMER_CS :: "64 word" where "TIMER_CS \<equiv> 0x3000"
abbreviation (input) TIMER_CLO :: "32 word" where "TIMER_CLO \<equiv> 0x3004"
abbreviation (input) TIMER_C1 :: "64 word" where "TIMER_C1 \<equiv> 0x3010"
abbreviation (input) TIMER_PERIOD :: "32 word" where "TIMER_PERIOD \<equiv> 10000"

definition timer_init :: "'h io_bus \<Rightarrow> 'h drivers \<Rightarrow> 'h drivers" where
  "timer_init B d = (case mmio_read B TIMER_CLO (board d) of (v, b) \<Rightarrow>
     let c = v + TIMER_PERIOD in d\<lparr>curVal := c, board := mmio_write B TIMER_C1 c b\<rparr>)"

definition timer_rearm :: "'h io_bus \<Rightarrow> 'h drivers \<Rightarrow> 'h drivers" where
  "timer_rearm B d = (let b = mmio_write B TIMER_CS 2 (board d); c = curVal d + TIMER_PERIOD
     in d\<lparr>curVal := c, board := mmio_write B TIMER_C1 c b\<rparr>)"

definition handle_timer_irq :: "'h io_bus \<Rightarrow> 'h drivers \<Rightarrow> kernel \<Rightarrow> ('h drivers \<times> kernel) option" where
  "handle_timer_irq B d s = map_option (Pair (timer_rearm B d)) (handle_timer_tick s)"

subsection \<open>Interrupt controller\<close>

definition entry_error_messages :: "string list" where
  "entry_error_messages = [''SYNC_INVALID_EL1t'', ''IRQ_INVALID_EL1t'', ''FIQ_INVALID_EL1t'', ''ERROR_INVALID_EL1T'',
     ''SYNC_INVALID_EL1h'', ''IRQ_INVALID_EL1h'', ''FIQ_INVALID_EL1h'', ''ERROR_INVALID_EL1h'',
     ''SYNC_INVALID_EL0_64'', ''IRQ_INVALID_EL0_64'', ''FIQ_INVALID_EL0_64'', ''ERROR_INVALID_EL0_64'',
     ''SYNC_INVALID_EL0_32'', ''IRQ_INVALID_EL0_32'', ''FIQ_INVALID_EL0_32'', ''ERROR_INVALID_EL0_32'']"

abbreviation (input) SYSTEM_TIMER_IRQ_1 :: "32 word" where "SYSTEM_TIMER_IRQ_1 \<equiv> push_bit 1 1"
abbreviation (input) UART0_IRQ_BIT :: "32 word" where "UART0_IRQ_BIT \<equiv> push_bit 25 1"

definition enable_interrupt_controller :: "'h io_bus \<Rightarrow> 'h board \<Rightarrow> 'h board" where
  "enable_interrupt_controller B s = (case mmio_read B 0xB210 s of (v1, s1) \<Rightarrow>
     case mmio_read B 0xB214 (mmio_write B 0xB210 (v1 OR SYSTEM_TIMER_IRQ_1) s1) of (v2, s2) \<Rightarrow>
       mmio_write B 0xB214 (v2 OR UART0_IRQ_BIT) s2)"

definition show_invalid_entry_message :: "int \<Rightarrow> 64 word \<Rightarrow> 64 word \<Rightarrow> kernel \<Rightarrow> kernel option" where
  "show_invalid_entry_message type esr address s = do {
     s1 \<leftarrow> uart_puts (''[KERNEL PANIC] '' @ [NUL]) s;
     msg \<leftarrow> aget entry_error_messages type;
     s2 \<leftarrow> uart_puts (msg @ [NUL]) s1;
     s3 \<leftarrow> uart_puts ('', ESR: '' @ [NUL]) s2;
     s4 \<leftarrow> uart_hex esr s3;
     s5 \<leftarrow> uart_puts ('', address: '' @ [NUL]) s4;
     s6 \<leftarrow> uart_hex address s5;
     s7 \<leftarrow> uart_puts ('', process: '' @ [NUL]) s6;
     s8 \<leftarrow> uart_hex (word_of_int (pid (pcbs s7 (current_process s7)))) s7;
     uart_puts [CR, LF, NUL] s8
   }"

definition handle_irq :: "'h io_bus \<Rightarrow> 'h drivers \<Rightarrow> kernel \<Rightarrow> ('h drivers \<times> kernel) option" where
  "handle_irq B d s = (case mmio_read B 0xB204 (board d) of (p1, b1) \<Rightarrow> case mmio_read B 0xB208 b1 of (p2, b2) \<Rightarrow>
     let d1 = d\<lparr>board := b2\<rparr> in
     if p1 AND SYSTEM_TIMER_IRQ_1 \<noteq> 0 then handle_timer_irq B d1 s
     else if p2 AND UART0_IRQ_BIT \<noteq> 0 then map_option (\<lambda>(s1, u). (d1\<lparr>uart := u\<rparr>, s1)) (handle_uart_irq (uart d1) s)
     else do {
       s1 \<leftarrow> uart_puts (''Unknown pending irq: '' @ [NUL]) s;
       s2 \<leftarrow> uart_hex (push_bit 32 (ucast p1) OR ucast p2) s1;
       s3 \<leftarrow> uart_puts [CR, LF, NUL] s2;
       Some (d1, s3)
     })"

subsection \<open>The kernel's main function\<close>

text \<open>
  \<open>address\<close> is the address of \<^verbatim>\<open>mbox\<close>, \<open>process\<close> that of \<^verbatim>\<open>kernel_process\<close>. The result is the state in which the idle loop runs. Setting the exception
  vectors changes nothing that is modelled.
\<close>

definition kernel_main :: "'h io_bus \<Rightarrow> 64 word \<Rightarrow> 'd environment \<Rightarrow> 64 word \<Rightarrow> 'h drivers \<Rightarrow> kernel \<Rightarrow> 'd \<Rightarrow> ('h drivers \<times> kernel \<times> 'd) option" where
  "kernel_main B address E process dr s d = do {
     b1 \<leftarrow> uart_init B address (board dr);
     s1 \<leftarrow> uart_puts (''demoOS v.0.0.1'' @ [LF, NUL]) s;
     s2 \<leftarrow> uart_puts (''[DONE] irq vector init'' @ [LF, NUL]) s1;
     let b2 = enable_interrupt_controller B b1;
     s3 \<leftarrow> uart_puts (''[DONE] enable interrupt controller'' @ [LF, NUL]) s2;
     let s4 = s3\<lparr>irq_enabled := True\<rparr>;
     s5 \<leftarrow> uart_puts (''[DONE] enable irq'' @ [LF, NUL]) s4;
     let (fs_ok, d1) = sd_filesystem_init (library E) d;
     s6 \<leftarrow> (if fs_ok = SD_FILESYSTEM_INIT_OK then uart_puts (''[DONE] SD filesystem init success'' @ [LF, NUL]) s5
       else uart_puts (''[ERROR] SD filesystem init error'' @ [LF, NUL]) s5);
     (res, s7) \<leftarrow> copy_process (ret_from_fork E) PF_KTHREAD process 0 s6;
     s8 \<leftarrow> (if res < 0 then uart_puts (''[ERROR] Cannot create kernel process.'' @ [LF, NUL]) s7 else Some s7);
     let dr1 = timer_init B (dr\<lparr>board := b2\<rparr>);
     s9 \<leftarrow> uart_puts (''[DONE] timer init'' @ [LF, NUL]) s8;
     Some (dr1, s9, d1)
   }"

text \<open>\<^verbatim>\<open>kernel_process\<close>, which becomes the first user process; the addresses come from the linker.\<close>

definition kernel_process :: "64 word \<Rightarrow> 64 word \<Rightarrow> 64 word \<Rightarrow> kernel \<Rightarrow> kernel option" where
  "kernel_process user_begin user_end init_process_main s = do {
     s1 \<leftarrow> uart_puts (''[DEBUG] Kernel process started.'' @ [LF, NUL]) s;
     (error, s2) \<leftarrow> move_to_user_mode user_begin (user_end - user_begin) (init_process_main - user_begin) s1;
     if error < 0 then uart_puts (''[ERROR] Cannot move process from kernel mode to user mode'' @ [LF, NUL]) s2 else Some s2
   }"

subsection \<open>The period of the timer\<close>

lemma timer_rearm_times: "curVal ((timer_rearm B ^^ n) d) = curVal d + of_nat n * TIMER_PERIOD"
  by (induction n) (simp_all add: timer_rearm_def Let_def algebra_simps)

text \<open>The time from the write of the compare register to the next match, when the counter, which counts microseconds, stands at \<open>now\<close>.\<close>

definition next_match :: "32 word \<Rightarrow> 'h drivers \<Rightarrow> nat" where
  "next_match now d = unat (curVal d - now)"



subsection \<open>Dispatching interrupts\<close>

lemma console_rep: "sched_rep s Q \<Longrightarrow> sched_rep (s\<lparr>irq_enabled := b, uart_out := out\<rparr>) Q"
  by (rule sched_rep_cong) (use table_okD(3,5) [OF sched_repD(2)] in auto)

lemma unknown_irq:
  "do {
     s1 \<leftarrow> uart_puts (''Unknown pending irq: '' @ [NUL]) s;
     s2 \<leftarrow> uart_hex x s1;
     s3 \<leftarrow> uart_puts [CR, LF, NUL] s2;
     Some (f s3)
   } = Some (f (s\<lparr>uart_out := uart_out s @ ''Unknown pending irq: '' @ ''0x'' @ map (hex_digit x) (rev (map ((*) 4) [0..<16])) @ [CR, LF]\<rparr>))"
proof -
  define msg :: string where "msg = ''Unknown pending irq: ''"
  define hex :: string where "hex = ''0x'' @ map (hex_digit x) (rev (map ((*) 4) [0..<16]))"
  have "NUL \<notin> set msg" by (simp add: msg_def)
  then have p: "uart_puts (msg @ [NUL]) s = Some (s\<lparr>uart_out := uart_out s @ msg\<rparr>)" by (rule uart_puts_text)
  have q: "uart_puts [CR, LF, NUL] t = Some (t\<lparr>uart_out := uart_out t @ [CR, LF]\<rparr>)" for t by (simp add: uart_putc_def)
  have h: "uart_hex x t = Some (t\<lparr>uart_out := uart_out t @ hex\<rparr>)" for t unfolding hex_def by (rule uart_hex_text)
  show ?thesis unfolding msg_def [symmetric] append_assoc [symmetric, of "''0x''"] hex_def [symmetric] p h q by simp
qed



subsection \<open>A kernel thread\<close>

lemma fresh_page:
  assumes "\<forall>w. live s (Pcb_at w) \<longrightarrow> (\<exists>k < N_PAGES. w = page_base k \<and> k \<notin> free_pages ph)" "u \<in> free_pages ph" "u < N_PAGES"
  shows "\<not> live s (Pcb_at (page_base u))"
proof
  assume "live s (Pcb_at (page_base u))"
  then obtain k where "k < N_PAGES" "page_base u = page_base k" "k \<notin> free_pages ph" using assms(1) by blast
  then show False using page_base_inj [OF assms(3)] assms(2) by auto
qed

lemma inherited_fields:
  assumes "core h p = (inherit e fl r n par x)\<lparr>next_ready := None\<rparr>" "cpu_context x = zero_context\<lparr>ctx_x19 := fn, ctx_x20 := argument\<rparr>"
  shows "pid (h p) = n" "state (h p) = PROCESS_READY" "flags (h p) = fl"
    "cpu_context (h p) = zero_context\<lparr>ctx_x19 := fn, ctx_x20 := argument, ctx_pc := e, ctx_sp := r\<rparr>"
  using arg_cong [OF assms(1), of pid] arg_cong [OF assms(1), of state] arg_cong [OF assms(1), of flags] arg_cong [OF assms(1), of cpu_context] assms(2)
  by (simp_all add: core_def inherit_def)

lemma copy_process_kthread:
  assumes "sched_inv s" "packed s" "n_processes s < int N_PROCESSES" "free_pages (phys s) \<noteq> {}" "clone_flags AND PF_KTHREAD \<noteq> 0"
    and "\<forall>w. live s (Pcb_at w) \<longrightarrow> (\<exists>k < N_PAGES. w = page_base k \<and> k \<notin> free_pages (phys s))"
  shows "\<exists>s' u. copy_process e clone_flags fn argument s = Some (n_processes s, s') \<and> sched_inv s' \<and> packed s' \<and>
    n_processes s' = n_processes s + 1 \<and> current_process s' = current_process s \<and> u \<in> free_pages (phys s) \<and>
    live s' (Pcb_at (page_base u)) \<and> pid (pcbs s' (Pcb_at (page_base u))) = n_processes s \<and>
    state (pcbs s' (Pcb_at (page_base u))) = PROCESS_READY \<and> flags (pcbs s' (Pcb_at (page_base u))) = clone_flags \<and>
    cpu_context (pcbs s' (Pcb_at (page_base u))) = zero_context\<lparr>ctx_x19 := fn, ctx_x20 := argument, ctx_pc := e,
      ctx_sp := page_base u + THREAD_SIZE - of_nat PT_REGS_SIZE\<rparr> \<and>
    preempt_disabled (pcbs s' (current_process s)) = preempt_disabled (pcbs s (current_process s))"
proof -
  obtain Q where rep: "sched_rep s Q" using assms(1) by (auto simp: sched_inv_def)
  let ?s1 = "preempt_disable s" and ?c = "current_process s"
  have ph1: "phys ?s1 = phys s" by (simp add: preempt_disable_def modify_pcb_def)
  have f1: "free_pages (phys ?s1) \<noteq> {}" using assms(4) ph1 by simp
  then obtain u ph where a: "allocate_kernel_page ?s1 = (page_base u, ?s1\<lparr>phys := ph\<rparr>)" "page_base u \<noteq> 0" "u \<in> free_pages (phys ?s1)" "u < N_PAGES"
    by (rule allocate_kernel_page_some)
  let ?p = "Pcb_at (page_base u)" and ?r = "page_base u + THREAD_SIZE - of_nat PT_REGS_SIZE"
  have nl: "\<not> live s ?p" using fresh_page [OF assms(6)] a(3,4) ph1 by simp
  let ?s3 = "set_mem (memzero ?r (int PT_REGS_SIZE)) (modify_pcb ?p (\<lambda>_. zero_pcb) (?s1\<lparr>phys := ph\<rparr>))"
  let ?s4 = "modify_pcb ?p (\<lambda>x. x\<lparr>cpu_context := zero_context, files := replicate MAX_FILES_PER_PROCESS 0\<rparr>) ?s3"
  let ?t = "modify_pcb ?p (\<lambda>x. x\<lparr>cpu_context := (cpu_context x)\<lparr>ctx_x19 := fn, ctx_x20 := argument\<rparr>\<rparr>) ?s4"
  have c1: "current_process ?s1 = ?c" "processes ?s1 = processes s" "n_processes ?s1 = n_processes s" by (simp_all add: preempt_disable_def)
  have l: "\<not> live t ?p" if "processes t = processes s" for t using nl that by (simp add: live_def)
  have "sched_rep (modify_pcb ?p (\<lambda>_. zero_pcb) (?s1\<lparr>phys := ph\<rparr>)) Q"
    by (rule sched_rep_unregistered [OF sched_rep_phys [OF sched_rep_preempt(1) [OF rep]]]) (use l c1 in simp)
  then have "sched_rep ?s3 Q" by (rule sched_rep_set_mem)
  then have "sched_rep ?s4 Q" by (rule sched_rep_unregistered) (use l c1 in simp)
  then have rt: "sched_rep ?t Q" by (rule sched_rep_unregistered) (use l c1 in simp)
  have lc: "live s ?c" using sched_repD(4) [OF rep] .
  then have pc: "?p \<noteq> ?c" using nl by auto
  have T: "current_process ?t = ?c" "processes ?t = processes s" "n_processes ?t = n_processes s" "pcbs ?t ?c = pcbs ?s1 ?c"
    "cpu_context (pcbs ?t ?p) = zero_context\<lparr>ctx_x19 := fn, ctx_x20 := argument\<rparr>"
    using c1 pc by simp_all
  let ?par = "pcbs ?t ?c"
  have par: "priority ?par = priority (pcbs s ?c)" "tickets ?par = tickets (pcbs s ?c)" unfolding T(4) by (simp_all add: preempt_disable_def)
  have ok: "1 \<le> priority ?par" "tickets ?par < 2 ^ 57" unfolding par using table_okD(6,7) [OF sched_repD(2) [OF rep] lc] by simp_all
  have pk: "packed ?t" "n_processes ?t < int N_PROCESSES" using assms(2,3) T(2,3) by (simp_all add: packed_def)
  obtain s7 Q7 where A: "add_process_to_scheduler ?p (modify_pcb ?p (inherit e clone_flags ?r (n_processes ?t) ?par) ?t) = Some (0, s7)"
    "sched_rep s7 Q7" "packed s7" "n_processes s7 = n_processes ?t + 1" "live s7 ?p"
    "core (pcbs s7) = core (pcbs (modify_pcb ?p (inherit e clone_flags ?r (n_processes ?t) ?par) ?t))" "current_process s7 = current_process ?t"
    using register_child [OF rt pk l [OF T(2)] _ ok] by blast
  let ?s' = "preempt_enable s7"
  have run: "copy_process e clone_flags fn argument s = Some (n_processes s, ?s')"
  proof -
    have "copy_registers clone_flags fn argument ?p ?r ?s4 = Some ?t" using assms(5) by (simp add: copy_registers_def)
    then show ?thesis using a(1,2) A(1) T(1,3) c1 assms(3) by (simp add: copy_process_def Let_def task_pt_regs_def)
  qed
  have child: "core (pcbs s7) ?p = (inherit e clone_flags ?r (n_processes s) ?par (pcbs ?t ?p))\<lparr>next_ready := None\<rparr>"
    using A(6) T(3) by (simp add: core_def)
  note ch = inherited_fields [OF child T(5)]
  have other: "core (pcbs s7) ?c = (pcbs ?s1 ?c)\<lparr>next_ready := None\<rparr>" using A(6) pc T(4) by (simp add: core_def)
  have cur7: "current_process s7 = ?c" using A(7) T(1) by simp
  have "preempt_disabled (pcbs s7 ?c) = preempt_disabled (pcbs s ?c) + 1"
    using arg_cong [OF other, of preempt_disabled] by (simp add: core_def preempt_disable_def)
  then have "preempt_disabled (pcbs ?s' ?c) = preempt_disabled (pcbs s ?c)" using cur7 by (simp add: preempt_enable_def)
  moreover have "pcbs ?s' ?p = pcbs s7 ?p" using pc cur7 by (simp add: preempt_enable_def)
  moreover have "sched_inv ?s'" using sched_rep_preempt(2) [OF A(2)] by (auto simp: sched_inv_def)
  moreover have "packed ?s'" "n_processes ?s' = n_processes s + 1" "live ?s' ?p" "current_process ?s' = ?c"
    using A(3-5) T(3) cur7 by (simp_all add: preempt_enable_def packed_def live_def)
  ultimately show ?thesis using run ch a(3) ph1 by (intro exI [of _ ?s'] exI [of _ u]) simp
qed

subsection \<open>The boot sequence\<close>

lemma say_line: "NUL \<notin> set msg \<Longrightarrow> uart_puts (msg @ [LF, NUL]) s = Some (s\<lparr>uart_out := uart_out s @ msg @ [LF]\<rparr>)"
  using uart_puts_text [of "msg @ [LF]" "[]" s] by simp

lemma boot_thread:
  assumes "alg \<in> set sched_algorithms" "s = (boot_kernel alg clo regs m)\<lparr>irq_enabled := True, uart_out := out\<rparr>"
  shows "\<exists>s' p. copy_process e PF_KTHREAD fn 0 s = Some (1, s') \<and> sched_inv s' \<and> packed s' \<and> n_processes s' = 2 \<and> current_process s' = Init_process \<and>
    live s' p \<and> pid (pcbs s' p) = 1 \<and> state (pcbs s' p) = PROCESS_READY \<and> ctx_x19 (cpu_context (pcbs s' p)) = fn \<and> ctx_pc (cpu_context (pcbs s' p)) = e"
proof -
  let ?b = "boot_kernel alg clo regs m"
  have "sched_rep s (\<lambda>_. [])" unfolding assms(2) by (rule console_rep [OF boot_rep [OF assms(1)]])
  then have inv: "sched_inv s" by (auto simp: sched_inv_def)
  have f: "n_processes s = 1" "current_process s = Init_process" "processes s = Some Init_process # replicate (N_PROCESSES - 1) None"
    "free_pages (phys s) = {..<N_PAGES}"
    by (auto simp: assms(2) boot_kernel_def free_pages_def)
  have pk: "packed s" unfolding packed_def f by (auto simp: nth_Cons split: nat.splits)
  have "0 \<in> free_pages (phys s)" unfolding f by simp
  then have pre: "n_processes s < int N_PROCESSES" "free_pages (phys s) \<noteq> {}" "PF_KTHREAD AND PF_KTHREAD \<noteq> 0"
    "\<forall>w. live s (Pcb_at w) \<longrightarrow> (\<exists>k < N_PAGES. w = page_base k \<and> k \<notin> free_pages (phys s))"
    using f(1) by (simp, blast, simp, simp add: live_def f)
  obtain s' u where "copy_process e PF_KTHREAD fn 0 s = Some (n_processes s, s')" "sched_inv s'" "packed s'" "n_processes s' = n_processes s + 1"
    "current_process s' = current_process s" "live s' (Pcb_at (page_base u))" "pid (pcbs s' (Pcb_at (page_base u))) = n_processes s"
    "state (pcbs s' (Pcb_at (page_base u))) = PROCESS_READY"
    "cpu_context (pcbs s' (Pcb_at (page_base u))) = zero_context\<lparr>ctx_x19 := fn, ctx_x20 := 0, ctx_pc := e, ctx_sp := page_base u + THREAD_SIZE - of_nat PT_REGS_SIZE\<rparr>"
    using copy_process_kthread [OF inv pk pre, of e fn 0] by blast
  then show ?thesis unfolding f by (intro exI [of _ s'] exI [of _ "Pcb_at (page_base u)"]) simp
qed


definition boot_environment :: "unit environment" where
  "boot_environment = \<lparr>library = no_files, ret_from_fork = 0x80000, stack_path = replicate 128 NUL, stack_message = zero_message\<rparr>"


end
