(* ===== verification/Spec2Isabelle.thy ===== *)
theory Spec2Isabelle
  imports Scheduler_Properties Ipc Fork Syscall_Properties Line_Input File_Properties Shell_Properties Fat_Library Fat_Types Programs Boot
begin

text \<open>
  DEMO-OS is a small operating system for the Raspberry Pi 3: a kernel in C with preemptive processes, seven
  scheduling algorithms, virtual memory, messages and signals, a UART terminal, and files on an SD card, used
  through 21 system calls. This library models the kernel as functions on one record \<open>kernel\<close> and proves what its parts promise.

  Conventions. The globals of the C files are the fields of \<open>kernel\<close>; a \<^verbatim>\<open>struct PCB*\<close> is a \<open>pcb_ptr\<close> (the static
  \<^verbatim>\<open>init_process\<close>, or the address of a page) into the store \<open>pcbs\<close>, and NULL is \<open>None\<close>. Results are \<open>option\<close>s:
  \<open>None\<close> is undefined behaviour (a NULL pointer, an index outside an array) or a loop that does not return, so
  every statement that an operation is \<open>Some\<close> includes that it is memory safe and returns. Error codes are values.
  C \<^verbatim>\<open>int\<close>s that only count are integers; addresses, registers, masks and the random generator are words.
  Byte memory and the page tables in it are a function from 64-bit addresses to bytes.
  A routine that calls \<^verbatim>\<open>schedule()\<close> in a loop is modelled as the pass between two dispatches of its process
  (\<open>progress\<close> in Ipc, \<open>outcome\<close> in Syscalls). Interrupts are separate steps, before or after a routine.

  The theories, from the bottom:

  Kernel_Prelude: C arrays with checked access, chains of pointers. Process_State: the structs of
  \<^verbatim>\<open>libs/scheduler.h\<close>, the algorithm descriptors, the state at boot.

  Process_Queue (the intrusive ready queues of \<^verbatim>\<open>libs/scheduler.c\<close>) with the refinement of enqueue, dequeue, removal and sorted insertion to lists.

  Scheduler: every operation of \<^verbatim>\<open>libs/scheduler.c\<close>. Scheduler_Refinement, _Selection, _Policies, _Aging and _Multilevel relate each
  selection function to abstract queue contents (\<open>sched_rep\<close>); _Invariant, _Switch, _Algorithms (the contract of a context switch, as a
  locale), _Instances (its interpretation for the algorithms), _Correctness, _Operations (timer tick, exit) and _Registration (boot,
  new processes) prove that every entry point keeps the invariant \<open>sched_inv\<close> and returns. Scheduler_Properties holds the claims: termination and
  invariance of \<^verbatim>\<open>schedule\<close>, no process is lost, each algorithm runs the process it should, exit wakes the waiting, boosts and demotions.

  Byte_Memory (\<^verbatim>\<open>common/memory.S\<close>), Memory (all of \<^verbatim>\<open>libs/mm.c\<close>), Page_Allocator (allocation and release), Page_Tables and
  Page_Mapping (the tables as a tree of separate pages, the MMU's walk, \<^verbatim>\<open>map_page\<close>), Memory_Copy (copying the pages of a process).
  Fork: \<^verbatim>\<open>libs/fork.c\<close>, and that a fork duplicates registers and memory.

  C_String (\<^verbatim>\<open>common/string.c\<close>), Ring_Buffer (a locale for head/tail rings, interpreted for the UART buffer and for the message
  buffers), Wakeup (processes waiting for an event), Uart (\<^verbatim>\<open>drivers/uart/uart.c\<close>), Ipc (\<^verbatim>\<open>libs/ipc.c\<close>).

  User_Memory (pointers of system calls), Filesystem (\<^verbatim>\<open>libs/filesystem.c\<close>), Syscalls, File_Syscalls and Dispatcher (\<^verbatim>\<open>libs/syscalls.c\<close>).
  Syscall_Properties, Line_Input and File_Properties hold their claims: fork returns twice, wait blocks exactly when it should,
  the edited line reaches the caller's buffer and nothing else, descriptors.

  Fat_State, Fat_Names, Fat_Table, Fat_Directory, Fat_Volume and Fat_Files: every function of \<^verbatim>\<open>libs/fat32/fat.c\<close>, as operations on a
  record of its globals, volumes, files, directories and the disk; an operation has no outcome, an error code, or a value. Fat_Buffer: on a disk that keeps what is
  written (\<open>reliable\<close>), the buffered sector is invisible. Fat_Chains: the allocation table as a function, reading and writing entries in both copies.
  Fat_Allocation: freeing and extending chains. Fat_Seeking: the contents of an open file as the sectors of its chain, with the one at the position
  in the file's buffer, and that seeking keeps them. Fat_Reading, Fat_Writing and Fat_Sync: reading returns the contents, writing changes them at the position, and
  saving puts them and the directory entry on the disk. Fat_Types: an invariant of sizes and positions that every public function keeps (\<open>fat_call\<close> is the step
  relation of the calls), so that accesses to sectors stay inside the buffers. Fat_Example: a small volume.

  Sd_Driver: every function of \<^verbatim>\<open>drivers/sd/sd.c\<close>, register by register. Sd_Card: the documented behaviour of the controller
  (\<open>emmc_card\<close>), and the transfer of blocks. Fat_Library: the stack of system calls, file system layer, FAT32 library and
  driver put together; the driver is a reliable disk, the read system call delivers the file, and what a process writes it reads back.

  Path_Normalization (\<^verbatim>\<open>normalize_path\<close> and the resolution of paths), Shell and Shell_Commands: \<^verbatim>\<open>app/shell.c\<close> and
  \<^verbatim>\<open>common/process_api.c\<close>, user programs over a record of system calls. Shell_Properties: a program gets its arguments, \<^verbatim>\<open>cd\<close>
  follows the path. The shell's loop does not end, so \<open>shell_rounds\<close> counts its rounds.

  Programs: the first user process (\<^verbatim>\<open>user/user.c\<close>) and the test programs of \<^verbatim>\<open>app/\<close>, over the same record; the benchmark prints decimal
  numbers, and its loop overflows.

  Devices (\<^verbatim>\<open>drivers/mbox/mbox.c\<close>, \<^verbatim>\<open>drivers/framebuffer/framebuffer.c\<close>, \<^verbatim>\<open>uart_init\<close>): the registers are a parameter, the VideoCore's answers a named
  hypothesis (\<open>videocore\<close>). Boot (\<^verbatim>\<open>drivers/timer/timer.c\<close>, \<^verbatim>\<open>drivers/irq/controller.c\<close>, \<^verbatim>\<open>kernel/kernel.c\<close>): the interrupt handler serves one source and keeps
  the scheduler's invariant, the timer keeps its period, and the system reaches its idle loop with one process to run.

  Bounds. Recursion that is not structural has a termination proof or is a \<open>partial_function\<close> whose totality is a
  lemma (\<open>dequeue_runnable\<close>, \<open>aging_select\<close>, \<open>lottery_draw\<close>, \<open>ml_drain\<close>: the ready queues are finite and each round removes a
  process or ends). The loops of the FAT32 library over chains and directories are partial functions, as a damaged disk can keep
  them running; the claims state that they return. There is no fuel.

  Not modelled: the hardware (the registers of the SD controller, the mailbox and the timer are parameters of the drivers), the assembly of start-up and
  exception entry (the state of the registers at an exception is the saved frame the dispatcher reads) and of the user library's calls, which only
  move registers, and interrupts in the middle of a kernel routine.

  What the proofs showed about the code is listed with the claims: among others that the message buffer's index runs
  one past its array, that a refused fork leaves the caller unpreemptable, that closed descriptors are never
  reused, that a timer interrupt served too late is the last one for over an hour, that the UART's set-up misses the pull-up registers, that receiving a message follows NULL slots of the process table, and that a stopped process cannot be resumed.
\<close>

end
